(* ===== verification/Prelude.thy ===== *)
theory Prelude
  imports Main "HOL-Library.Word"
begin

text \<open>
  The prelude of the development: exceptions as values, the sequencing of steps that may throw,
  the checked 64-bit arithmetic of \<^verbatim>\<open>share_type\<close>, the identifiers of
  \<^verbatim>\<open>protocol/types.hpp\<close>, the constants of \<^verbatim>\<open>config.hpp\<close> the components share, and the lemma
  collections and generic lemmas on maps, lists and sums that carry the component proofs.
\<close>

section \<open>Lemma collections\<close>

named_theorems exn_simps \<open>inversion rules of the exception monad\<close>
named_theorems int64_simps \<open>unfolding of the 64-bit range\<close>
named_theorems db_simps \<open>what an operation changes of the state\<close>
named_theorems frame_simps \<open>what an operation leaves alone\<close>

section \<open>Exceptions as values\<close>

text \<open>
  \<^verbatim>\<open>FC_ASSERT(c, msg)\<close> throws an \<^verbatim>\<open>fc::assert_exception\<close> when \<open>c\<close> is false, and
  \<^verbatim>\<open>FC_CAPTURE_AND_RETHROW\<close> passes every exception on. A function that may throw returns
  \<open>error + 'a\<close>; the string names the assertion that failed.
\<close>

datatype error =
    assert_exception string
  | overflow_exception
  | bad_rational
  | unlinkable_block_exception
  | not_found string
  | chain_exception string

type_synonym 'a exn = "error + 'a"

definition bindE :: "'a exn \<Rightarrow> ('a \<Rightarrow> 'b exn) \<Rightarrow> 'b exn" where
  "bindE m f = (case m of Inl e \<Rightarrow> Inl e | Inr x \<Rightarrow> f x)"

definition fc_assert :: "bool \<Rightarrow> string \<Rightarrow> unit exn" where
  "fc_assert c msg = (if c then Inr () else Inl (assert_exception msg))"

definition ofOption :: "error \<Rightarrow> 'a option \<Rightarrow> 'a exn" where
  "ofOption e m = (case m of None \<Rightarrow> Inl e | Some x \<Rightarrow> Inr x)"

fun foldE :: "('a \<Rightarrow> 's \<Rightarrow> 's exn) \<Rightarrow> 'a list \<Rightarrow> 's \<Rightarrow> 's exn" where
  "foldE f [] s = Inr s"
| "foldE f (x # xs) s = bindE (f x s) (foldE f xs)"

lemma bindE_Inl [simp]: "bindE (Inl e) f = Inl e"
  by (simp add: bindE_def)

lemma bindE_Inr [simp]: "bindE (Inr x) f = f x"
  by (simp add: bindE_def)

lemma bindE_eq_Inr [simp, exn_simps]:
  "bindE m f = Inr y \<longleftrightarrow> (\<exists>x. m = Inr x \<and> f x = Inr y)"
  by (cases m) (simp_all add: bindE_def)

lemma bindE_eq_Inl [exn_simps]:
  "bindE m f = Inl e \<longleftrightarrow> m = Inl e \<or> (\<exists>x. m = Inr x \<and> f x = Inl e)"
  by (cases m) (simp_all add: bindE_def)

lemma bindE_cong [fundef_cong]:
  "m = m' \<Longrightarrow> (\<And>x. m' = Inr x \<Longrightarrow> f x = f' x) \<Longrightarrow> bindE m f = bindE m' f'"
  by (cases m') (simp_all add: bindE_def)

lemma fc_assert_eq_Inr [simp, exn_simps]: "fc_assert c msg = Inr u \<longleftrightarrow> c"
  by (simp add: fc_assert_def)

lemma fc_assert_True [simp]: "fc_assert True msg = Inr ()"
  by (simp add: fc_assert_def)

lemma fc_assert_False [simp]: "fc_assert False msg = Inl (assert_exception msg)"
  by (simp add: fc_assert_def)

lemma fc_assert_eq_Inl [exn_simps]:
  "fc_assert c msg = Inl e \<longleftrightarrow> \<not> c \<and> e = assert_exception msg"
  by (auto simp: fc_assert_def)

lemma ofOption_eq_Inr [simp, exn_simps]: "ofOption e m = Inr x \<longleftrightarrow> m = Some x"
  by (simp add: ofOption_def split: option.splits)

lemma ofOption_Some [simp]: "ofOption e (Some x) = Inr x"
  by (simp add: ofOption_def)

lemma ofOption_None [simp]: "ofOption e None = Inl e"
  by (simp add: ofOption_def)

lemma foldE_append: "foldE f (xs @ ys) s = bindE (foldE f xs s) (foldE f ys)"
  by (induction xs arbitrary: s) (auto simp: bindE_def split: sum.splits)

text \<open>The invariant rule of a loop that may throw: what every step keeps, the loop keeps.\<close>

lemma foldE_invariant:
  assumes "foldE f xs s = Inr s'" and "P s"
    and "\<And>x s t. x \<in> set xs \<Longrightarrow> P s \<Longrightarrow> f x s = Inr t \<Longrightarrow> P t"
  shows "P s'"
  using assms
proof (induction xs arbitrary: s)
  case Nil
  then show ?case by simp
next
  case (Cons x xs)
  then obtain t where "f x s = Inr t" and t: "foldE f xs t = Inr s'" by auto
  then have "P t" using Cons.prems(2) Cons.prems(3) [of x s t] by simp
  with t show ?case using Cons.IH Cons.prems(3) by (metis list.set_intros(2))
qed

text \<open>What a step that may throw ensures of its result, and the rules that follow its syntax.\<close>

definition ensures :: "'a exn \<Rightarrow> ('a \<Rightarrow> bool) \<Rightarrow> bool" where
  "ensures m P \<longleftrightarrow> (\<forall>x. m = Inr x \<longrightarrow> P x)"

lemma ensuresD: "ensures m P \<Longrightarrow> m = Inr x \<Longrightarrow> P x"
  by (simp add: ensures_def)

lemma ensures_bind: "(\<And>x. m = Inr x \<Longrightarrow> ensures (f x) P) \<Longrightarrow> ensures (bindE m f) P"
  by (auto simp: ensures_def)

lemma ensures_Inr: "P x \<Longrightarrow> ensures (Inr x) P"
  by (simp add: ensures_def)

lemma ensures_Inl: "ensures (Inl e) P"
  by (simp add: ensures_def)

lemma ensures_if: "(b \<Longrightarrow> ensures m P) \<Longrightarrow> (\<not> b \<Longrightarrow> ensures n P) \<Longrightarrow> ensures (if b then m else n) P"
  by simp

lemma ensures_list: "(xs = [] \<Longrightarrow> ensures m P) \<Longrightarrow> (\<And>y ys. xs = y # ys \<Longrightarrow> ensures (f y ys) P)
    \<Longrightarrow> ensures (case xs of [] \<Rightarrow> m | y # ys \<Rightarrow> f y ys) P"
  by (cases xs) simp_all

lemmas ensures_intros = ensures_bind ensures_Inr ensures_Inl ensures_if ensures_list

text \<open>Evaluation of a concrete run: only the step that runs next is rewritten.\<close>

lemma bindE_weak_cong: "m = m' \<Longrightarrow> bindE m f = bindE m' f"
  by simp

section \<open>Checked 64-bit arithmetic\<close>

text \<open>
  \<^verbatim>\<open>share_type\<close> is \<^verbatim>\<open>safe<int64_t>\<close>: a signed 64-bit integer whose operations throw when the exact
  result does not fit. A share amount is an \<open>int\<close>, and each operation of the source is written
  with its check.
\<close>

type_synonym share_type = int

definition in_int64 :: "int \<Rightarrow> bool" where
  [int64_simps]: "in_int64 x \<longleftrightarrow> -9223372036854775808 \<le> x \<and> x \<le> 9223372036854775807"

definition safe_int64 :: "int \<Rightarrow> share_type exn" where
  "safe_int64 x = (if in_int64 x then Inr x else Inl overflow_exception)"

definition safe_add :: "share_type \<Rightarrow> share_type \<Rightarrow> share_type exn" where
  "safe_add a b = safe_int64 (a + b)"

definition safe_sub :: "share_type \<Rightarrow> share_type \<Rightarrow> share_type exn" where
  "safe_sub a b = safe_int64 (a - b)"

definition safe_mul :: "share_type \<Rightarrow> share_type \<Rightarrow> share_type exn" where
  "safe_mul a b = safe_int64 (a * b)"

definition safe_neg :: "share_type \<Rightarrow> share_type exn" where
  "safe_neg a = safe_int64 (- a)"

lemma safe_int64_eq_Inr [simp, exn_simps]: "safe_int64 x = Inr y \<longleftrightarrow> in_int64 x \<and> y = x"
  by (auto simp: safe_int64_def)

lemma safe_add_eq_Inr [simp, exn_simps]: "safe_add a b = Inr c \<longleftrightarrow> in_int64 (a + b) \<and> c = a + b"
  by (simp add: safe_add_def)

lemma safe_sub_eq_Inr [simp, exn_simps]: "safe_sub a b = Inr c \<longleftrightarrow> in_int64 (a - b) \<and> c = a - b"
  by (simp add: safe_sub_def)

lemma safe_mul_eq_Inr [simp, exn_simps]: "safe_mul a b = Inr c \<longleftrightarrow> in_int64 (a * b) \<and> c = a * b"
  by (simp add: safe_mul_def)

lemma safe_neg_eq_Inr [simp, exn_simps]: "safe_neg a = Inr c \<longleftrightarrow> in_int64 (- a) \<and> c = - a"
  by (simp add: safe_neg_def)

text \<open>
  \<^verbatim>\<open>boost::multiprecision::uint128_t\<close> and \<^verbatim>\<open>fc::uint128_t\<close> values are \<open>128 word\<close>s; a signed 64-bit
  value converts to one modulo \<open>2 ^ 128\<close>.
\<close>

type_synonym uint128 = "128 word"

definition u128 :: "int \<Rightarrow> uint128" where
  "u128 x = word_of_int x"

lemma uint_u128_small: "0 \<le> x \<Longrightarrow> x < 2 ^ 128 \<Longrightarrow> uint (u128 x) = x"
  by (simp add: u128_def uint_word_of_int_eq take_bit_eq_mod)

lemma u128_mult_small:
  assumes "0 \<le> x" "x \<le> 9223372036854775807" "0 \<le> y" "y \<le> 9223372036854775807"
  shows "uint (u128 x * u128 y) = x * y"
proof -
  have "x * y \<le> 9223372036854775807 * 9223372036854775807"
    using assms by (intro mult_mono) auto
  then have "x * y < 2 ^ 128" by simp
  moreover have "0 \<le> x * y" using assms by simp
  ultimately have "uint (u128 (x * y)) = x * y" by (intro uint_u128_small)
  then show ?thesis by (simp add: u128_def)
qed

section \<open>Identifiers and constants\<close>

text \<open>
  An object id is a triple of space, type and instance; each typed id of
  \<^verbatim>\<open>protocol/types.hpp\<close> fixes the first two, so its value is the instance.
\<close>

type_synonym account_id_type = nat
type_synonym asset_id_type = nat
type_synonym witness_id_type = nat
type_synonym vesting_balance_id_type = nat
type_synonym time_point_sec = nat

definition GRAPHENE_MAX_SHARE_SUPPLY :: int where
  [int64_simps]: "GRAPHENE_MAX_SHARE_SUPPLY = 1000000000000000"

definition GRAPHENE_100_PERCENT :: int where
  [int64_simps]: "GRAPHENE_100_PERCENT = 10000"

lemma max_share_supply_pos [simp]: "0 < GRAPHENE_MAX_SHARE_SUPPLY"
  by (simp add: GRAPHENE_MAX_SHARE_SUPPLY_def)

section \<open>Keys of ordered indices\<close>

text \<open>
  An ordered index of \<^verbatim>\<open>boost::multi_index\<close> needs a comparison that is a strict weak order on the
  keys it holds, with equality of keys as incomparability. \<open>ok\<close> delimits the keys the program
  stores.
\<close>

locale index_order =
  fixes lt :: "'k \<Rightarrow> 'k \<Rightarrow> bool"
    and eqv :: "'k \<Rightarrow> 'k \<Rightarrow> bool"
    and ok :: "'k \<Rightarrow> bool"
  assumes lt_irrefl: "ok a \<Longrightarrow> \<not> lt a a"
    and lt_trans: "ok a \<Longrightarrow> ok b \<Longrightarrow> ok c \<Longrightarrow> lt a b \<Longrightarrow> lt b c \<Longrightarrow> lt a c"
    and eqv_iff: "ok a \<Longrightarrow> ok b \<Longrightarrow> eqv a b \<longleftrightarrow> \<not> lt a b \<and> \<not> lt b a"
    and eqv_trans: "ok a \<Longrightarrow> ok b \<Longrightarrow> ok c \<Longrightarrow> eqv a b \<Longrightarrow> eqv b c \<Longrightarrow> eqv a c"
begin

lemma lt_asym: "ok a \<Longrightarrow> ok b \<Longrightarrow> lt a b \<Longrightarrow> \<not> lt b a"
  using lt_irrefl lt_trans by blast

lemma trichotomy:
  "ok a \<Longrightarrow> ok b \<Longrightarrow>
    lt a b \<and> \<not> eqv a b \<and> \<not> lt b a \<or> \<not> lt a b \<and> eqv a b \<and> \<not> lt b a
    \<or> \<not> lt a b \<and> \<not> eqv a b \<and> lt b a"
  using lt_asym eqv_iff by blast

lemma le_total: "ok a \<Longrightarrow> ok b \<Longrightarrow> (eqv a b \<or> lt a b) \<or> (eqv b a \<or> lt b a)"
  using eqv_iff by blast

lemma eqv_lt_trans: "ok a \<Longrightarrow> ok b \<Longrightarrow> ok c \<Longrightarrow> eqv a b \<Longrightarrow> lt b c \<Longrightarrow> lt a c"
  by (meson eqv_iff eqv_trans lt_trans)

lemma lt_eqv_trans: "ok a \<Longrightarrow> ok b \<Longrightarrow> ok c \<Longrightarrow> lt a b \<Longrightarrow> eqv b c \<Longrightarrow> lt a c"
  by (meson eqv_iff eqv_trans lt_trans)

end

section \<open>Generic lemmas on maps\<close>

lemma map_le_domI: "m k = Some v \<Longrightarrow> k \<in> dom m"
  by (rule domI)

lemma override_on_dom_restrict: "m k = None \<Longrightarrow> (m(k \<mapsto> v))(k := None) = m"
  by (auto simp: fun_eq_iff)

lemma finite_dom_upd [simp]: "finite (dom m) \<Longrightarrow> finite (dom (m(k := v)))"
  by (cases v) simp_all

end
