(* ===== verification/Asset.thy ===== *)
theory Asset
  imports Prelude Complex_Main
begin

text \<open>
  Assets, prices and price feeds: \<^verbatim>\<open>protocol/asset.hpp\<close> and \<^verbatim>\<open>protocol/asset.cpp\<close>. An asset is an
  amount of one asset type; a price is a pair of assets, compared by cross multiplication in 128
  bits; multiplying an asset by a price rounds down. The two price computations with a rounding
  loop, \<open>call_price\<close> and \<open>max_short_squeeze_price\<close>, are recursive functions with their
  termination proofs.
\<close>

section \<open>Assets\<close>

record asset =
  amount :: share_type
  asset_id :: asset_id_type

abbreviation mk_asset :: "share_type \<Rightarrow> asset_id_type \<Rightarrow> asset" where
  "mk_asset a i \<equiv> \<lparr>amount = a, asset_id = i\<rparr>"

definition asset_add :: "asset \<Rightarrow> asset \<Rightarrow> asset exn" where
  "asset_add a b =
     bindE (fc_assert (asset_id a = asset_id b) ''a.asset_id == b.asset_id'') (\<lambda>_.
     bindE (safe_add (amount a) (amount b)) (\<lambda>s.
     Inr (mk_asset s (asset_id a))))"

definition asset_sub :: "asset \<Rightarrow> asset \<Rightarrow> asset exn" where
  "asset_sub a b =
     bindE (fc_assert (asset_id a = asset_id b) ''a.asset_id == b.asset_id'') (\<lambda>_.
     bindE (safe_sub (amount a) (amount b)) (\<lambda>s.
     Inr (mk_asset s (asset_id a))))"

definition asset_neg :: "asset \<Rightarrow> asset exn" where
  "asset_neg a = bindE (safe_neg (amount a)) (\<lambda>s. Inr (mk_asset s (asset_id a)))"

definition asset_eq :: "asset \<Rightarrow> asset \<Rightarrow> bool" where
  "asset_eq a b \<longleftrightarrow> asset_id a = asset_id b \<and> amount a = amount b"

definition asset_lt :: "asset \<Rightarrow> asset \<Rightarrow> bool exn" where
  "asset_lt a b =
     bindE (fc_assert (asset_id a = asset_id b) ''a.asset_id == b.asset_id'') (\<lambda>_.
     Inr (amount a < amount b))"

definition asset_le :: "asset \<Rightarrow> asset \<Rightarrow> bool exn" where
  "asset_le a b = (if asset_eq a b then Inr True else asset_lt a b)"

definition asset_gt :: "asset \<Rightarrow> asset \<Rightarrow> bool exn" where
  "asset_gt a b = bindE (asset_le a b) (\<lambda>r. Inr (\<not> r))"

definition asset_ge :: "asset \<Rightarrow> asset \<Rightarrow> bool exn" where
  "asset_ge a b = bindE (asset_lt a b) (\<lambda>r. Inr (\<not> r))"

fun p10 :: "nat \<Rightarrow> int" where
  "p10 0 = 1"
| "p10 (Suc n) = 10 * p10 n"

definition scaled_precision_lut :: "int list" where
  "scaled_precision_lut = map p10 [0..<19]"

definition scaled_precision :: "nat \<Rightarrow> share_type exn" where
  "scaled_precision precision =
     bindE (fc_assert (precision < 19) ''precision < 19'') (\<lambda>_.
     Inr (scaled_precision_lut ! precision))"

section \<open>Prices\<close>

record price =
  base :: asset
  quote :: asset

abbreviation mk_price :: "asset \<Rightarrow> asset \<Rightarrow> price" where
  "mk_price b q \<equiv> \<lparr>base = b, quote = q\<rparr>"

definition price_eq :: "price \<Rightarrow> price \<Rightarrow> bool" where
  "price_eq a b =
     (if (asset_id (base a), asset_id (quote a)) \<noteq> (asset_id (base b), asset_id (quote b)) then False
      else
        let amult = u128 (amount (quote b)) * u128 (amount (base a));
            bmult = u128 (amount (quote a)) * u128 (amount (base b))
        in amult = bmult)"

definition price_lt :: "price \<Rightarrow> price \<Rightarrow> bool" where
  "price_lt a b =
     (if asset_id (base a) < asset_id (base b) then True
      else if asset_id (base a) > asset_id (base b) then False
      else if asset_id (quote a) < asset_id (quote b) then True
      else if asset_id (quote a) > asset_id (quote b) then False
      else
        let amult = u128 (amount (quote b)) * u128 (amount (base a));
            bmult = u128 (amount (quote a)) * u128 (amount (base b))
        in amult < bmult)"

definition price_le :: "price \<Rightarrow> price \<Rightarrow> bool" where
  "price_le a b \<longleftrightarrow> price_eq a b \<or> price_lt a b"

definition price_ne :: "price \<Rightarrow> price \<Rightarrow> bool" where
  "price_ne a b \<longleftrightarrow> \<not> price_eq a b"

definition price_gt :: "price \<Rightarrow> price \<Rightarrow> bool" where
  "price_gt a b \<longleftrightarrow> \<not> price_le a b"

definition price_ge :: "price \<Rightarrow> price \<Rightarrow> bool" where
  "price_ge a b \<longleftrightarrow> \<not> price_lt a b"

definition asset_times_price :: "asset \<Rightarrow> price \<Rightarrow> asset exn" where
  "asset_times_price a b =
     (if asset_id a = asset_id (base b) then
        bindE (fc_assert (amount (base b) > 0) ''b.base.amount.value > 0'') (\<lambda>_.
        let result = (u128 (amount a) * u128 (amount (quote b))) div u128 (amount (base b)) in
        bindE (fc_assert (result \<le> u128 GRAPHENE_MAX_SHARE_SUPPLY)
                 ''result <= GRAPHENE_MAX_SHARE_SUPPLY'') (\<lambda>_.
        Inr (mk_asset (uint result) (asset_id (quote b)))))
      else if asset_id a = asset_id (quote b) then
        bindE (fc_assert (amount (quote b) > 0) ''b.quote.amount.value > 0'') (\<lambda>_.
        let result = (u128 (amount a) * u128 (amount (base b))) div u128 (amount (quote b)) in
        bindE (fc_assert (result \<le> u128 GRAPHENE_MAX_SHARE_SUPPLY)
                 ''result <= GRAPHENE_MAX_SHARE_SUPPLY'') (\<lambda>_.
        Inr (mk_asset (uint result) (asset_id (base b)))))
      else Inl (assert_exception ''invalid asset * price''))"

definition asset_div :: "asset \<Rightarrow> asset \<Rightarrow> price exn" where
  "asset_div b q =
     bindE (fc_assert (asset_id b \<noteq> asset_id q) ''base.asset_id != quote.asset_id'') (\<lambda>_.
     Inr (mk_price b q))"

definition price_inv :: "price \<Rightarrow> price" where
  "price_inv p = mk_price (quote p) (base p)"

definition price_max :: "asset_id_type \<Rightarrow> asset_id_type \<Rightarrow> price exn" where
  "price_max b q = asset_div (mk_asset GRAPHENE_MAX_SHARE_SUPPLY b) (mk_asset 1 q)"

definition price_min :: "asset_id_type \<Rightarrow> asset_id_type \<Rightarrow> price exn" where
  "price_min b q = asset_div (mk_asset 1 b) (mk_asset GRAPHENE_MAX_SHARE_SUPPLY q)"

definition unit_price :: "asset_id_type \<Rightarrow> price" where
  "unit_price a = mk_price (mk_asset 1 a) (mk_asset 1 a)"

definition null_price :: price where
  "null_price = mk_price (mk_asset 0 0) (mk_asset 0 0)"

definition price_is_null :: "price \<Rightarrow> bool" where
  "price_is_null p = price_eq p null_price"

definition price_validate :: "price \<Rightarrow> unit exn" where
  "price_validate p =
     bindE (fc_assert (amount (base p) > 0) ''base.amount > 0'') (\<lambda>_.
     bindE (fc_assert (amount (quote p) > 0) ''quote.amount > 0'') (\<lambda>_.
     fc_assert (asset_id (base p) \<noteq> asset_id (quote p)) ''base.asset_id != quote.asset_id''))"

section \<open>Rationals and the rounding loops\<close>

text \<open>
  \<^verbatim>\<open>boost::rational<int128_t>\<close> keeps numerator and denominator without a common factor and the
  denominator positive; a zero denominator throws \<^verbatim>\<open>bad_rational\<close>. The values built here stay far
  below \<open>2 ^ 127\<close> (a 64-bit amount times a 16-bit ratio), so the components are \<open>int\<close>s.
\<close>

type_synonym rational = "int \<times> int"

definition reduce :: "int \<Rightarrow> int \<Rightarrow> rational" where
  "reduce n d = (let g = gcd n d * (if d < 0 then -1 else 1) in (n div g, d div g))"

definition mk_rational :: "int \<Rightarrow> int \<Rightarrow> rational exn" where
  "mk_rational n d = (if d = 0 then Inl bad_rational else Inr (reduce n d))"

definition rational_mult :: "rational \<Rightarrow> rational \<Rightarrow> rational" where
  "rational_mult a b = reduce (fst a * fst b) (snd a * snd b)"

definition GRAPHENE_COLLATERAL_RATIO_DENOM :: int where
  "GRAPHENE_COLLATERAL_RATIO_DENOM = 1000"

definition GRAPHENE_MIN_COLLATERAL_RATIO :: int where
  "GRAPHENE_MIN_COLLATERAL_RATIO = 1001"

definition GRAPHENE_MAX_COLLATERAL_RATIO :: int where
  "GRAPHENE_MAX_COLLATERAL_RATIO = 32000"

lemma reduce_denom_pos: "d \<noteq> 0 \<Longrightarrow> 0 < snd (reduce n d)"
proof -
  assume d: "d \<noteq> 0"
  then have g: "0 < gcd n d" by simp
  have e: "d = gcd n d * (d div gcd n d)" by simp
  show ?thesis
  proof (cases "d < 0")
    case True
    then have "d div gcd n d < 0" using g by (simp only: pos_imp_zdiv_neg_iff)
    then show ?thesis using True by (simp add: reduce_def Let_def dvd_div_neg)
  next
    case False
    then have "0 < d" using d by simp
    then show ?thesis using g by (simp add: reduce_def Let_def pos_imp_zdiv_pos_iff zdvd_imp_le)
  qed
qed

lemma abs_div_le: "g \<noteq> 0 \<Longrightarrow> g dvd (n::int) \<Longrightarrow> \<bar>n div g\<bar> \<le> \<bar>n\<bar>"
proof -
  assume g: "g \<noteq> 0" and "g dvd n"
  then obtain k where n: "n = g * k" by blast
  have "1 * \<bar>k\<bar> \<le> \<bar>g\<bar> * \<bar>k\<bar>" using g by (intro mult_right_mono) auto
  then show ?thesis using g n by (simp add: abs_mult)
qed

lemma reduce_abs_le:
  assumes "d \<noteq> 0"
  shows "\<bar>fst (reduce n d)\<bar> \<le> \<bar>n\<bar>" and "\<bar>snd (reduce n d)\<bar> \<le> \<bar>d\<bar>"
proof -
  define g where "g = gcd n d * (if d < 0 then -1 else 1)"
  have "g \<noteq> 0" "g dvd n" "g dvd d" using assms by (auto simp: g_def)
  moreover have "reduce n d = (n div g, d div g)" by (simp add: reduce_def g_def Let_def)
  ultimately show "\<bar>fst (reduce n d)\<bar> \<le> \<bar>n\<bar>" "\<bar>snd (reduce n d)\<bar> \<le> \<bar>d\<bar>"
    by (simp_all add: abs_div_le)
qed

lemma halving_measure:
  fixes n d n' d' x y :: int
  assumes "2 < n \<or> 2 < d" and "\<bar>x\<bar> \<le> \<bar>n'\<bar>" and "\<bar>y\<bar> \<le> \<bar>d'\<bar>"
    and "\<bar>n'\<bar> \<le> max \<bar>n\<bar> 2" and "\<bar>d'\<bar> \<le> max \<bar>d\<bar> 2"
    and "2 < n \<Longrightarrow> \<bar>n'\<bar> < n" and "2 < d \<Longrightarrow> \<bar>d'\<bar> < d"
  shows "nat (max \<bar>x\<bar> 2 + max \<bar>y\<bar> 2) < nat (max \<bar>n\<bar> 2 + max \<bar>d\<bar> 2)"
proof -
  have "max \<bar>x\<bar> 2 \<le> max \<bar>n\<bar> 2" "max \<bar>y\<bar> 2 \<le> max \<bar>d\<bar> 2" using assms(2-5) by linarith+
  moreover have "max \<bar>x\<bar> 2 < max \<bar>n\<bar> 2 \<or> max \<bar>y\<bar> 2 < max \<bar>d\<bar> 2"
    using assms(1)
  proof
    assume "2 < n"
    with assms(2) assms(6) have "max \<bar>x\<bar> 2 < max \<bar>n\<bar> 2" by linarith
    then show ?thesis ..
  next
    assume "2 < d"
    with assms(3) assms(7) have "max \<bar>y\<bar> 2 < max \<bar>d\<bar> 2" by linarith
    then show ?thesis ..
  qed
  ultimately have "max \<bar>x\<bar> 2 + max \<bar>y\<bar> 2 < max \<bar>n\<bar> 2 + max \<bar>d\<bar> 2"
    by (meson add_less_le_mono add_le_less_mono)
  moreover have "0 < max \<bar>n\<bar> 2 + max \<bar>d\<bar> 2" by (simp add: add_pos_pos less_max_iff_disj)
  ultimately show ?thesis by (simp only: zless_nat_conj simp_thms)
qed

lemma half_plus_one: "\<bar>k div 2 + 1\<bar> \<le> max \<bar>k\<bar> 2" "2 < k \<Longrightarrow> \<bar>k div 2 + 1\<bar> < (k::int)"
  by linarith+

lemma half_up: "\<bar>k div 2 + k mod 2\<bar> \<le> max \<bar>k\<bar> 2" "2 < k \<Longrightarrow> \<bar>k div 2 + k mod 2\<bar> < (k::int)"
proof -
  define q r where "q = k div 2" and "r = k mod 2"
  have "k = 2 * q + r" "0 \<le> r" "r \<le> 1" by (auto simp: q_def r_def)
  then show "\<bar>k div 2 + k mod 2\<bar> \<le> max \<bar>k\<bar> 2" "2 < k \<Longrightarrow> \<bar>k div 2 + k mod 2\<bar> < k"
    unfolding q_def [symmetric] r_def [symmetric] by linarith+
qed

lemma above_supply: "k > GRAPHENE_MAX_SHARE_SUPPLY \<Longrightarrow> 2 < k"
  by (simp add: GRAPHENE_MAX_SHARE_SUPPLY_def)

function call_price_loop :: "rational \<Rightarrow> rational exn" where
  "call_price_loop (n, d) =
     (if n > GRAPHENE_MAX_SHARE_SUPPLY \<or> d > GRAPHENE_MAX_SHARE_SUPPLY
      then bindE (mk_rational (n div 2 + 1) (d div 2 + 1)) call_price_loop
      else Inr (n, d))"
  by pat_completeness auto
termination
proof (relation "measure (\<lambda>(n, d). nat (max \<bar>n\<bar> 2 + max \<bar>d\<bar> 2))")
  fix n d :: int and r :: rational
  assume big: "n > GRAPHENE_MAX_SHARE_SUPPLY \<or> d > GRAPHENE_MAX_SHARE_SUPPLY"
    and r: "mk_rational (n div 2 + 1) (d div 2 + 1) = Inr r"
  then have nz: "d div 2 + 1 \<noteq> 0" and rd: "r = reduce (n div 2 + 1) (d div 2 + 1)"
    by (auto simp: mk_rational_def split: if_splits)
  from big have "2 < n \<or> 2 < d" using above_supply by blast
  then have "nat (max \<bar>fst r\<bar> 2 + max \<bar>snd r\<bar> 2) < nat (max \<bar>n\<bar> 2 + max \<bar>d\<bar> 2)"
    by (rule halving_measure [where n' = "n div 2 + 1" and d' = "d div 2 + 1"])
      (use reduce_abs_le [OF nz] half_plus_one in \<open>simp_all add: rd\<close>)
  then show "(r, n, d) \<in> measure (\<lambda>(n, d). nat (max \<bar>n\<bar> 2 + max \<bar>d\<bar> 2))"
    by (simp add: case_prod_beta)
qed simp

definition call_price :: "asset \<Rightarrow> asset \<Rightarrow> int \<Rightarrow> price exn" where
  "call_price debt collateral collateral_ratio =
     bindE (mk_rational (amount debt) (amount collateral)) (\<lambda>swan.
     bindE (mk_rational collateral_ratio GRAPHENE_COLLATERAL_RATIO_DENOM) (\<lambda>ratio.
     bindE (call_price_loop (rational_mult swan ratio)) (\<lambda>cp.
     bindE (asset_div (mk_asset (fst cp) (asset_id debt)) (mk_asset (snd cp) (asset_id collateral))) (\<lambda>p.
     Inr (price_inv p)))))"

section \<open>Price feeds\<close>

record price_feed =
  settlement_price :: price
  core_exchange_rate :: price
  maintenance_collateral_ratio :: int
  maximum_short_squeeze_ratio :: int

function squeeze_loop :: "rational \<Rightarrow> rational exn" where
  "squeeze_loop (n, d) =
     (if n > GRAPHENE_MAX_SHARE_SUPPLY \<or> d > GRAPHENE_MAX_SHARE_SUPPLY
      then bindE (mk_rational (n div 2 + n mod 2) (d div 2 + d mod 2)) squeeze_loop
      else Inr (n, d))"
  by pat_completeness auto
termination
proof (relation "measure (\<lambda>(n, d). nat (max \<bar>n\<bar> 2 + max \<bar>d\<bar> 2))")
  fix n d :: int and r :: rational
  assume big: "n > GRAPHENE_MAX_SHARE_SUPPLY \<or> d > GRAPHENE_MAX_SHARE_SUPPLY"
    and r: "mk_rational (n div 2 + n mod 2) (d div 2 + d mod 2) = Inr r"
  then have nz: "d div 2 + d mod 2 \<noteq> 0" and rd: "r = reduce (n div 2 + n mod 2) (d div 2 + d mod 2)"
    by (auto simp: mk_rational_def split: if_splits)
  from big have "2 < n \<or> 2 < d" using above_supply by blast
  then have "nat (max \<bar>fst r\<bar> 2 + max \<bar>snd r\<bar> 2) < nat (max \<bar>n\<bar> 2 + max \<bar>d\<bar> 2)"
    by (rule halving_measure [where n' = "n div 2 + n mod 2" and d' = "d div 2 + d mod 2"])
      (use reduce_abs_le [OF nz] half_up in \<open>simp_all add: rd\<close>)
  then show "(r, n, d) \<in> measure (\<lambda>(n, d). nat (max \<bar>n\<bar> 2 + max \<bar>d\<bar> 2))"
    by (simp add: case_prod_beta)
qed simp

definition max_short_squeeze_price :: "price_feed \<Rightarrow> price exn" where
  "max_short_squeeze_price f =
     bindE (mk_rational (amount (base (settlement_price f))) (amount (quote (settlement_price f)))) (\<lambda>sp.
     bindE (mk_rational GRAPHENE_COLLATERAL_RATIO_DENOM (maximum_short_squeeze_ratio f)) (\<lambda>ratio.
     bindE (squeeze_loop (rational_mult sp ratio)) (\<lambda>cp.
     asset_div (mk_asset (fst cp) (asset_id (base (settlement_price f))))
               (mk_asset (snd cp) (asset_id (quote (settlement_price f)))))))"

definition price_feed_validate :: "price_feed \<Rightarrow> unit exn" where
  "price_feed_validate f =
     bindE (if \<not> price_is_null (settlement_price f) then price_validate (settlement_price f) else Inr ()) (\<lambda>_.
     bindE (fc_assert (maximum_short_squeeze_ratio f \<ge> GRAPHENE_MIN_COLLATERAL_RATIO)
              ''maximum_short_squeeze_ratio >= GRAPHENE_MIN_COLLATERAL_RATIO'') (\<lambda>_.
     bindE (fc_assert (maximum_short_squeeze_ratio f \<le> GRAPHENE_MAX_COLLATERAL_RATIO)
              ''maximum_short_squeeze_ratio <= GRAPHENE_MAX_COLLATERAL_RATIO'') (\<lambda>_.
     bindE (fc_assert (maintenance_collateral_ratio f \<ge> GRAPHENE_MIN_COLLATERAL_RATIO)
              ''maintenance_collateral_ratio >= GRAPHENE_MIN_COLLATERAL_RATIO'') (\<lambda>_.
     bindE (fc_assert (maintenance_collateral_ratio f \<le> GRAPHENE_MAX_COLLATERAL_RATIO)
              ''maintenance_collateral_ratio <= GRAPHENE_MAX_COLLATERAL_RATIO'') (\<lambda>_.
     bindE (max_short_squeeze_price f) (\<lambda>_. Inr ()))))))"

definition price_feed_is_for :: "price_feed \<Rightarrow> asset_id_type \<Rightarrow> bool" where
  "price_feed_is_for f i =
     (if \<not> price_is_null (settlement_price f) then asset_id (base (settlement_price f)) = i
      else if \<not> price_is_null (core_exchange_rate f) then asset_id (base (core_exchange_rate f)) = i
      else True)"

definition price_feed_eq :: "price_feed \<Rightarrow> price_feed \<Rightarrow> bool" where
  "price_feed_eq a b \<longleftrightarrow> price_eq (settlement_price a) (settlement_price b)
     \<and> maintenance_collateral_ratio a = maintenance_collateral_ratio b
     \<and> maximum_short_squeeze_ratio a = maximum_short_squeeze_ratio b"

section \<open>Asset arithmetic\<close>

lemma asset_add_eq_Inr [simp, exn_simps]:
  "asset_add a b = Inr c \<longleftrightarrow> asset_id a = asset_id b \<and> in_int64 (amount a + amount b)
     \<and> c = mk_asset (amount a + amount b) (asset_id a)"
  by (auto simp: asset_add_def)

lemma asset_sub_eq_Inr [simp, exn_simps]:
  "asset_sub a b = Inr c \<longleftrightarrow> asset_id a = asset_id b \<and> in_int64 (amount a - amount b)
     \<and> c = mk_asset (amount a - amount b) (asset_id a)"
  by (auto simp: asset_sub_def)

lemma asset_neg_eq_Inr [simp, exn_simps]:
  "asset_neg a = Inr c \<longleftrightarrow> in_int64 (- amount a) \<and> c = mk_asset (- amount a) (asset_id a)"
  by (auto simp: asset_neg_def)

lemma asset_le_eq_Inr [simp, exn_simps]:
  "asset_le a b = Inr r \<longleftrightarrow> asset_id a = asset_id b \<and> r = (amount a \<le> amount b)"
  by (auto simp: asset_le_def asset_eq_def asset_lt_def)

lemma asset_ge_eq_Inr [simp, exn_simps]:
  "asset_ge a b = Inr r \<longleftrightarrow> asset_id a = asset_id b \<and> r = (amount a \<ge> amount b)"
  by (auto simp: asset_ge_def asset_lt_def)

lemma asset_gt_eq_Inr [simp, exn_simps]:
  "asset_gt a b = Inr r \<longleftrightarrow> asset_id a = asset_id b \<and> r = (amount a > amount b)"
  by (auto simp: asset_gt_def)

lemma p10_power: "p10 n = 10 ^ n"
  by (induction n) simp_all

section \<open>The order on prices\<close>

text \<open>
  A price that passed \<open>price_validate\<close> has positive 64-bit amounts; there the 128-bit cross
  products do not wrap and the comparison is the lexicographic one on the two asset types and the
  exact ratio.
\<close>

definition pos64 :: "int \<Rightarrow> bool" where
  "pos64 x \<longleftrightarrow> 0 < x \<and> x \<le> 9223372036854775807"

definition price_pos :: "price \<Rightarrow> bool" where
  "price_pos p \<longleftrightarrow> pos64 (amount (base p)) \<and> pos64 (amount (quote p))"

definition price_ratio :: "price \<Rightarrow> rat" where
  "price_ratio p = of_int (amount (base p)) / of_int (amount (quote p))"

definition price_key :: "price \<Rightarrow> asset_id_type \<times> asset_id_type \<times> rat" where
  "price_key p = (asset_id (base p), asset_id (quote p), price_ratio p)"

lemma u128_prod_less_iff:
  assumes "pos64 x" "pos64 y" "pos64 z" "pos64 w"
  shows "u128 x * u128 y < u128 z * u128 w \<longleftrightarrow> x * y < z * w"
    and "u128 x * u128 y = u128 z * u128 w \<longleftrightarrow> x * y = z * w"
  using assms u128_mult_small [of x y] u128_mult_small [of z w]
  by (simp_all add: pos64_def word_less_def word_uint_eq_iff)

lemma price_ratio_less_iff:
  assumes "price_pos a" "price_pos b"
  shows "price_ratio a < price_ratio b
      \<longleftrightarrow> amount (quote b) * amount (base a) < amount (quote a) * amount (base b)"
    and "price_ratio a = price_ratio b
      \<longleftrightarrow> amount (quote b) * amount (base a) = amount (quote a) * amount (base b)"
proof -
  have "0 < amount (quote a)" "0 < amount (quote b)"
    using assms by (auto simp: price_pos_def pos64_def)
  then show "price_ratio a < price_ratio b
      \<longleftrightarrow> amount (quote b) * amount (base a) < amount (quote a) * amount (base b)"
    "price_ratio a = price_ratio b
      \<longleftrightarrow> amount (quote b) * amount (base a) = amount (quote a) * amount (base b)"
    by (simp_all add: price_ratio_def divide_simps flip: of_int_mult)
      (auto simp: mult.commute)
qed

lemma price_lt_iff_ratio:
  assumes "price_pos a" "price_pos b"
  shows "price_lt a b \<longleftrightarrow>
     asset_id (base a) < asset_id (base b)
     \<or> asset_id (base a) = asset_id (base b) \<and>
       (asset_id (quote a) < asset_id (quote b)
        \<or> asset_id (quote a) = asset_id (quote b) \<and> price_ratio a < price_ratio b)"
  using assms u128_prod_less_iff [of "amount (quote b)" "amount (base a)" "amount (quote a)" "amount (base b)"]
  by (auto simp: price_lt_def Let_def price_pos_def price_ratio_less_iff)

lemma price_eq_iff_key:
  assumes "price_pos a" "price_pos b"
  shows "price_eq a b \<longleftrightarrow> price_key a = price_key b"
  using assms u128_prod_less_iff [of "amount (quote b)" "amount (base a)" "amount (quote a)" "amount (base b)"]
  by (auto simp: price_eq_def Let_def price_key_def price_pos_def price_ratio_less_iff)

interpretation price_index: index_order price_lt price_eq price_pos
proof
  fix a b c :: price
  show "price_pos a \<Longrightarrow> \<not> price_lt a a" by (simp add: price_lt_iff_ratio)
  show "price_pos a \<Longrightarrow> price_pos b \<Longrightarrow> price_pos c \<Longrightarrow> price_lt a b \<Longrightarrow> price_lt b c \<Longrightarrow> price_lt a c"
    by (auto simp: price_lt_iff_ratio)
  show "price_pos a \<Longrightarrow> price_pos b \<Longrightarrow> price_eq a b \<longleftrightarrow> \<not> price_lt a b \<and> \<not> price_lt b a"
    by (auto simp: price_lt_iff_ratio price_eq_iff_key price_key_def)
  show "price_pos a \<Longrightarrow> price_pos b \<Longrightarrow> price_pos c \<Longrightarrow> price_eq a b \<Longrightarrow> price_eq b c \<Longrightarrow> price_eq a c"
    by (simp add: price_eq_iff_key)
qed

lemma price_validate_ok [simp]:
  "price_validate p = Inr u \<longleftrightarrow>
     0 < amount (base p) \<and> 0 < amount (quote p) \<and> asset_id (base p) \<noteq> asset_id (quote p)"
  by (auto simp: price_validate_def)

text \<open>C23: On prices with positive 64-bit amounts the six comparison operators agree with the exact
  ratios: of two prices for the same pair, exactly one of less, equal and greater holds, less is
  the strict order of the ratios, the derived operators are its closures, and less is
  transitive, so that the ordered indices keyed by price are well defined.\<close>

theorem price_comparison_exact:
  assumes "price_pos a" "price_pos b" "price_pos c"
    and "asset_id (base a) = asset_id (base b)" "asset_id (quote a) = asset_id (quote b)"
  shows "(price_lt a b \<longleftrightarrow> price_ratio a < price_ratio b) \<and>
    (price_eq a b \<longleftrightarrow> price_ratio a = price_ratio b) \<and>
    (price_le a b \<longleftrightarrow> price_ratio a \<le> price_ratio b) \<and>
    (price_gt a b \<longleftrightarrow> price_ratio a > price_ratio b) \<and>
    (price_ge a b \<longleftrightarrow> price_ratio a \<ge> price_ratio b) \<and>
    (price_ne a b \<longleftrightarrow> price_ratio a \<noteq> price_ratio b) \<and>
    (price_lt a b \<and> price_lt b c \<longrightarrow> price_lt a c)"
  using assms price_index.lt_trans [of a b c]
  by (auto simp: price_lt_iff_ratio price_eq_iff_key price_key_def price_le_def price_gt_def
      price_ge_def price_ne_def)

theorem price_comparison_exact_witness:
  "price_lt (mk_price (mk_asset 1 0) (mk_asset 3 1)) (mk_price (mk_asset 2 0) (mk_asset 5 1))"
proof -
  let ?a = "mk_price (mk_asset 1 0) (mk_asset 3 1)" and ?b = "mk_price (mk_asset 2 0) (mk_asset 5 1)"
  have "price_pos ?a" "price_pos ?b" by (simp_all add: price_pos_def pos64_def)
  from price_comparison_exact [OF this this(2)] show ?thesis
    by (simp add: price_ratio_def)
qed

section \<open>Multiplying by a price\<close>

lemma times_price_floor:
  assumes "0 \<le> x" "x \<le> 9223372036854775807" "pos64 n" "pos64 d"
  shows "uint (u128 x * u128 n div u128 d) = x * n div d"
    and "u128 x * u128 n div u128 d \<le> u128 GRAPHENE_MAX_SHARE_SUPPLY
       \<longleftrightarrow> x * n div d \<le> GRAPHENE_MAX_SHARE_SUPPLY"
proof -
  have p: "uint (u128 x * u128 n) = x * n"
    using assms by (intro u128_mult_small) (auto simp: pos64_def)
  have d: "uint (u128 d) = d" using assms by (intro uint_u128_small) (auto simp: pos64_def)
  show *: "uint (u128 x * u128 n div u128 d) = x * n div d"
    by (simp only: uint_div_distrib p d)
  have "uint (u128 GRAPHENE_MAX_SHARE_SUPPLY) = GRAPHENE_MAX_SHARE_SUPPLY"
    by (intro uint_u128_small) (simp_all add: GRAPHENE_MAX_SHARE_SUPPLY_def)
  then show "u128 x * u128 n div u128 d \<le> u128 GRAPHENE_MAX_SHARE_SUPPLY
       \<longleftrightarrow> x * n div d \<le> GRAPHENE_MAX_SHARE_SUPPLY"
    by (simp add: word_le_def *)
qed

text \<open>C26: For a non-negative amount and a price with positive amounts, multiplying an asset by a
  price gives the exact quotient rounded down, in the other asset of the price, and throws
  exactly when that quotient exceeds the maximum share supply or the price is not about the
  asset; no intermediate product wraps.\<close>

theorem asset_times_price_floor:
  assumes "0 \<le> amount a" "amount a \<le> 9223372036854775807" "price_pos p"
  shows "asset_times_price a p =
    (if asset_id a = asset_id (base p) then
       let r = amount a * amount (quote p) div amount (base p) in
       if r \<le> GRAPHENE_MAX_SHARE_SUPPLY then Inr (mk_asset r (asset_id (quote p)))
       else Inl (assert_exception ''result <= GRAPHENE_MAX_SHARE_SUPPLY'')
     else if asset_id a = asset_id (quote p) then
       let r = amount a * amount (base p) div amount (quote p) in
       if r \<le> GRAPHENE_MAX_SHARE_SUPPLY then Inr (mk_asset r (asset_id (base p)))
       else Inl (assert_exception ''result <= GRAPHENE_MAX_SHARE_SUPPLY'')
     else Inl (assert_exception ''invalid asset * price''))"
  using assms times_price_floor [of "amount a" "amount (quote p)" "amount (base p)"]
    times_price_floor [of "amount a" "amount (base p)" "amount (quote p)"]
  by (auto simp: asset_times_price_def Let_def price_pos_def fc_assert_def pos64_def)

theorem asset_times_price_floor_witness:
  "asset_times_price (mk_asset 10 0) (mk_price (mk_asset 3 0) (mk_asset 2 1)) = Inr (mk_asset 6 1)"
  by (subst asset_times_price_floor)
    (simp_all add: price_pos_def pos64_def GRAPHENE_MAX_SHARE_SUPPLY_def)

lemma asset_times_price_Inr:
  assumes "asset_times_price a p = Inr b" "0 \<le> amount a" "amount a \<le> 9223372036854775807" "price_pos p"
  shows "(asset_id a = asset_id (base p) \<and> asset_id b = asset_id (quote p)
        \<and> amount b = amount a * amount (quote p) div amount (base p)
      \<or> asset_id a \<noteq> asset_id (base p) \<and> asset_id a = asset_id (quote p) \<and> asset_id b = asset_id (base p)
        \<and> amount b = amount a * amount (base p) div amount (quote p))
    \<and> 0 \<le> amount b \<and> amount b \<le> GRAPHENE_MAX_SHARE_SUPPLY"
  using assms times_price_floor [of "amount a" "amount (quote p)" "amount (base p)"]
    times_price_floor [of "amount a" "amount (base p)" "amount (quote p)"]
  by (auto simp: asset_times_price_def Let_def price_pos_def pos64_def pos_imp_zdiv_nonneg_iff
      split: if_splits)

lemma floor_round_trip:
  assumes "0 \<le> x" "0 < (n::int)" "0 < d"
  shows "(x * n div d) * d div n \<le> x"
proof -
  have "(x * n div d) * d \<le> x * n" using assms by (simp add: minus_mod_eq_div_mult [symmetric])
  then have "(x * n div d) * d div n \<le> x * n div n" using assms(2) by (rule zdiv_mono1)
  then show ?thesis using assms by simp
qed

text \<open>Converting an asset through a price and back never gains: the amount that comes back is at
  most the amount that went in, and is again in the original asset.\<close>

theorem asset_times_price_no_gain:
  assumes "0 \<le> amount a" "amount a \<le> 9223372036854775807" "price_pos p"
    and "asset_id (base p) \<noteq> asset_id (quote p)"
    and "asset_times_price a p = Inr b" and "asset_times_price b p = Inr a'"
  shows "asset_id a' = asset_id a \<and> 0 \<le> amount a' \<and> amount a' \<le> amount a"
proof -
  have b: "0 \<le> amount b" "amount b \<le> 9223372036854775807"
    using asset_times_price_Inr [OF assms(5,1,2,3)] by (auto simp: GRAPHENE_MAX_SHARE_SUPPLY_def)
  show ?thesis
    using asset_times_price_Inr [OF assms(5,1,2,3)] asset_times_price_Inr [OF assms(6) b assms(3)] assms
    by (auto simp: floor_round_trip price_pos_def pos64_def)
qed

theorem asset_times_price_no_gain_witness:
  "amount (mk_asset 9 0) \<le> amount (mk_asset 10 0)"
proof -
  let ?p = "mk_price (mk_asset 3 0) (mk_asset 2 1)"
  have p: "price_pos ?p" by (simp add: price_pos_def pos64_def)
  have 1: "asset_times_price (mk_asset 10 0) ?p = Inr (mk_asset 6 1)"
    "asset_times_price (mk_asset 6 1) ?p = Inr (mk_asset 9 0)"
    by (simp_all add: asset_times_price_def Let_def u128_def GRAPHENE_MAX_SHARE_SUPPLY_def)
  show ?thesis using asset_times_price_no_gain [OF _ _ p _ 1] by simp
qed

section \<open>Call prices and short squeeze prices\<close>

lemma reduce_pos:
  assumes "0 < n" "0 < d"
  shows "0 < fst (reduce n d)" and "0 < snd (reduce n d)"
    and "fst (reduce n d) * d = n * snd (reduce n d)"
proof -
  define g where "g = gcd n d"
  have g: "0 < g" "g dvd n" "g dvd d" using assms by (auto simp: g_def)
  have r: "reduce n d = (n div g, d div g)" using assms by (simp add: reduce_def g_def Let_def)
  show "0 < fst (reduce n d)" "0 < snd (reduce n d)"
    using g assms by (simp_all add: r pos_imp_zdiv_pos_iff zdvd_imp_le)
  show "fst (reduce n d) * d = n * snd (reduce n d)"
    using g by (simp add: r div_mult_swap dvd_div_mult)
qed

text \<open>The contract of the two rounding loops: from a positive rational they return a positive one
  whose parts fit the share supply, and they leave alone a rational that already fits.\<close>

locale rounding_loop =
  fixes loop :: "rational \<Rightarrow> rational exn" and halve :: "int \<Rightarrow> int"
  assumes unfold: "loop (n, d) =
      (if n > GRAPHENE_MAX_SHARE_SUPPLY \<or> d > GRAPHENE_MAX_SHARE_SUPPLY
       then bindE (mk_rational (halve n) (halve d)) loop else Inr (n, d))"
    and halve_pos: "0 < n \<Longrightarrow> 0 < halve n"
    and halve_le: "0 < n \<Longrightarrow> halve n \<le> n \<or> n = 1 \<and> halve n = 1"
    and halve_less: "2 < n \<Longrightarrow> halve n < n"
begin

lemma loop_fits:
  "0 < n \<Longrightarrow> 0 < d \<Longrightarrow> n \<le> GRAPHENE_MAX_SHARE_SUPPLY \<Longrightarrow> d \<le> GRAPHENE_MAX_SHARE_SUPPLY \<Longrightarrow>
    loop (n, d) = Inr (n, d)"
  by (subst unfold) simp

lemma loop_bounded:
  assumes "0 < n" "0 < d"
  shows "\<exists>n' d'. loop (n, d) = Inr (n', d') \<and> 0 < n' \<and> n' \<le> GRAPHENE_MAX_SHARE_SUPPLY
    \<and> 0 < d' \<and> d' \<le> GRAPHENE_MAX_SHARE_SUPPLY"
  using assms
proof (induction "nat (n + d)" arbitrary: n d rule: less_induct)
  case less
  show ?case
  proof (cases "n > GRAPHENE_MAX_SHARE_SUPPLY \<or> d > GRAPHENE_MAX_SHARE_SUPPLY")
    case False
    with less.prems show ?thesis by (simp add: loop_fits)
  next
    case True
    have h: "0 < halve n" "0 < halve d" using less.prems halve_pos by auto
    obtain x y where r: "reduce (halve n) (halve d) = (x, y)" by fastforce
    have xy: "0 < x" "0 < y" using reduce_pos [OF h] r by auto
    have "x \<le> halve n" "y \<le> halve d"
      using reduce_abs_le [of "halve d" "halve n"] r h xy by auto
    moreover have "halve n \<le> n" "halve d \<le> d" using less.prems halve_le by force+
    moreover have "halve n < n \<or> halve d < d" using True above_supply halve_less by blast
    ultimately have "nat (x + y) < nat (n + d)" using xy by linarith
    then have "\<exists>n' d'. loop (x, y) = Inr (n', d') \<and> 0 < n' \<and> n' \<le> GRAPHENE_MAX_SHARE_SUPPLY
      \<and> 0 < d' \<and> d' \<le> GRAPHENE_MAX_SHARE_SUPPLY"
      using less.hyps xy by blast
    then show ?thesis using True h r by (subst unfold) (simp add: mk_rational_def)
  qed
qed

end

interpretation call_loop: rounding_loop call_price_loop "\<lambda>k. k div 2 + 1"
proof
  fix n d :: int
  show "call_price_loop (n, d) = (if n > GRAPHENE_MAX_SHARE_SUPPLY \<or> d > GRAPHENE_MAX_SHARE_SUPPLY
    then bindE (mk_rational (n div 2 + 1) (d div 2 + 1)) call_price_loop else Inr (n, d))"
    by (rule call_price_loop.simps)
  show "0 < n \<Longrightarrow> 0 < n div 2 + 1" by linarith
  show "0 < n \<Longrightarrow> n div 2 + 1 \<le> n \<or> n = 1 \<and> n div 2 + 1 = 1" by linarith
  show "2 < n \<Longrightarrow> n div 2 + 1 < n" by linarith
qed

interpretation sq_loop: rounding_loop squeeze_loop "\<lambda>k. k div 2 + k mod 2"
proof
  fix n d :: int
  have m: "n = 2 * (n div 2) + n mod 2" "0 \<le> n mod 2" "n mod 2 \<le> 1" by auto
  show "squeeze_loop (n, d) = (if n > GRAPHENE_MAX_SHARE_SUPPLY \<or> d > GRAPHENE_MAX_SHARE_SUPPLY
    then bindE (mk_rational (n div 2 + n mod 2) (d div 2 + d mod 2)) squeeze_loop else Inr (n, d))"
    by (rule squeeze_loop.simps)
  show "0 < n \<Longrightarrow> 0 < n div 2 + n mod 2" using m by linarith
  show "0 < n \<Longrightarrow> n div 2 + n mod 2 \<le> n \<or> n = 1 \<and> n div 2 + n mod 2 = 1" using m by linarith
  show "2 < n \<Longrightarrow> n div 2 + n mod 2 < n" using half_up(2) [of n] by linarith
qed

lemma rational_mult_pos:
  assumes "0 < a" "0 < b" "0 < c" "0 < d"
  obtains n e where "rational_mult (reduce a b) (reduce c d) = (n, e)" "0 < n" "0 < e"
    "n * (b * d) = (a * c) * e"
proof -
  obtain a' b' where ab: "reduce a b = (a', b')" by fastforce
  obtain c' d' where cd: "reduce c d = (c', d')" by fastforce
  have p: "0 < a'" "0 < b'" "a' * b = a * b'" "0 < c'" "0 < d'" "c' * d = c * d'"
    using reduce_pos [of a b] reduce_pos [of c d] assms ab cd by auto
  obtain n e where ne: "reduce (a' * c') (b' * d') = (n, e)" by fastforce
  have q: "0 < n" "0 < e" "n * (b' * d') = (a' * c') * e"
    using reduce_pos [of "a' * c'" "b' * d'"] p ne by auto
  have "n * (b * d) * (b' * d') = (n * (b' * d')) * (b * d)" by (simp add: algebra_simps)
  also have "\<dots> = (a' * b) * (c' * d) * e" using q(3) by (simp add: algebra_simps)
  also have "\<dots> = (a * c) * e * (b' * d')" using p by (simp add: algebra_simps)
  finally have "n * (b * d) = (a * c) * e" using p by simp
  then show ?thesis using that q ne ab cd by (simp add: rational_mult_def)
qed

text \<open>The call price of a positive debt against a positive collateral in another asset always
  exists: the rounding loop ends, the price is valid (collateral over debt, neither part zero),
  and both parts fit the maximum share supply, as the comment on \<open>call_price\<close> promises.\<close>

theorem call_price_total:
  assumes "0 < amount debt" "0 < amount collateral" "0 < ratio"
    and "asset_id debt \<noteq> asset_id collateral"
  shows "\<exists>p. call_price debt collateral ratio = Inr p \<and> price_validate p = Inr ()
    \<and> asset_id (base p) = asset_id collateral \<and> asset_id (quote p) = asset_id debt
    \<and> amount (base p) \<le> GRAPHENE_MAX_SHARE_SUPPLY \<and> amount (quote p) \<le> GRAPHENE_MAX_SHARE_SUPPLY"
proof -
  obtain n e where r: "rational_mult (reduce (amount debt) (amount collateral)) (reduce ratio 1000) = (n, e)"
    and pos: "0 < n" "0 < e"
    by (rule rational_mult_pos [OF assms(1-3) zero_less_numeral])
  obtain n' d' where l: "call_price_loop (n, e) = Inr (n', d')" "0 < n'" "n' \<le> GRAPHENE_MAX_SHARE_SUPPLY"
    "0 < d'" "d' \<le> GRAPHENE_MAX_SHARE_SUPPLY"
    using call_loop.loop_bounded [OF pos] by blast
  show ?thesis using assms r l
    by (simp add: call_price_def mk_rational_def GRAPHENE_COLLATERAL_RATIO_DENOM_def asset_div_def price_inv_def
        del: call_price_loop.simps)
qed

theorem call_price_total_witness:
  "\<exists>p. call_price (mk_asset 7 1) (mk_asset 9 0) 1750 = Inr p \<and> price_validate p = Inr ()"
  using call_price_total [of "mk_asset 7 1" "mk_asset 9 0" 1750] by auto

text \<open>Where no rounding is needed the call price is exact: collateral over debt of the price
  times the maintenance ratio is the collateral over debt of the position.\<close>

theorem call_price_exact:
  assumes "0 < amount debt" "0 < amount collateral" "0 < ratio"
    and "amount debt * ratio \<le> GRAPHENE_MAX_SHARE_SUPPLY"
    and "amount collateral * GRAPHENE_COLLATERAL_RATIO_DENOM \<le> GRAPHENE_MAX_SHARE_SUPPLY"
    and "call_price debt collateral ratio = Inr p"
  shows "amount (base p) * (amount debt * ratio)
    = amount (quote p) * (amount collateral * GRAPHENE_COLLATERAL_RATIO_DENOM)"
proof -
  let ?D = "amount debt" and ?C = "amount collateral"
  obtain n e where r: "rational_mult (reduce ?D ?C) (reduce ratio 1000) = (n, e)"
    and pos: "0 < n" "0 < e" and eq: "n * (?C * 1000) = (?D * ratio) * e"
    by (rule rational_mult_pos [OF assms(1-3) zero_less_numeral])
  have d: "reduce ?D ?C = (fst (reduce ?D ?C), snd (reduce ?D ?C))"
    "reduce ratio 1000 = (fst (reduce ratio 1000), snd (reduce ratio 1000))" by simp_all
  have le: "n \<le> fst (reduce ?D ?C) * fst (reduce ratio 1000)"
      "e \<le> snd (reduce ?D ?C) * snd (reduce ratio 1000)"
    using r reduce_abs_le [of "snd (reduce ?D ?C) * snd (reduce ratio 1000)"
        "fst (reduce ?D ?C) * fst (reduce ratio 1000)"]
      reduce_pos [OF assms(1,2)] reduce_pos [OF assms(3), of 1000] pos
    by (auto simp: rational_mult_def abs_mult)
  have "fst (reduce ?D ?C) * fst (reduce ratio 1000) \<le> ?D * ratio"
    "snd (reduce ?D ?C) * snd (reduce ratio 1000) \<le> ?C * 1000"
    using reduce_abs_le [of ?C ?D] reduce_abs_le [of 1000 ratio] assms(1-3)
      reduce_pos [OF assms(1,2)] reduce_pos [OF assms(3), of 1000]
    by (auto intro!: mult_mono)
  with le assms(4,5) have "n \<le> GRAPHENE_MAX_SHARE_SUPPLY" "e \<le> GRAPHENE_MAX_SHARE_SUPPLY"
    by (auto simp: GRAPHENE_COLLATERAL_RATIO_DENOM_def)
  with assms(6) assms(2) r pos have "amount (base p) = e" "amount (quote p) = n"
    by (auto simp: call_price_def mk_rational_def GRAPHENE_COLLATERAL_RATIO_DENOM_def asset_div_def
        price_inv_def call_loop.loop_fits simp del: call_price_loop.simps)
  with eq show ?thesis by (simp add: GRAPHENE_COLLATERAL_RATIO_DENOM_def mult.commute)
qed

theorem call_price_exact_witness:
  "\<exists>p. call_price (mk_asset 7 1) (mk_asset 9 0) 1750 = Inr p
    \<and> amount (base p) * (7 * 1750) = amount (quote p) * (9 * GRAPHENE_COLLATERAL_RATIO_DENOM)"
proof -
  obtain p where "call_price (mk_asset 7 1) (mk_asset 9 0) 1750 = Inr p"
    using call_price_total [of "mk_asset 7 1" "mk_asset 9 0" 1750] by auto
  with call_price_exact [OF _ _ _ _ _ this] show ?thesis
    by (simp add: GRAPHENE_MAX_SHARE_SUPPLY_def GRAPHENE_COLLATERAL_RATIO_DENOM_def)
qed

section \<open>Null prices and feeds\<close>

lemma price_is_null_iff:
  "price_is_null p \<longleftrightarrow> asset_id (base p) = 0 \<and> asset_id (quote p) = 0"
  by (auto simp: price_is_null_def price_eq_def null_price_def u128_def)

text \<open>C27: A price feed whose settlement price is the null price, which \<open>validate\<close> sets out to accept,
  is always rejected: with valid ratios the check of the short squeeze price divides zero by zero.\<close>

theorem null_feed_never_validates:
  assumes "settlement_price f = null_price"
    and "GRAPHENE_MIN_COLLATERAL_RATIO \<le> maximum_short_squeeze_ratio f"
    and "maximum_short_squeeze_ratio f \<le> GRAPHENE_MAX_COLLATERAL_RATIO"
    and "GRAPHENE_MIN_COLLATERAL_RATIO \<le> maintenance_collateral_ratio f"
    and "maintenance_collateral_ratio f \<le> GRAPHENE_MAX_COLLATERAL_RATIO"
  shows "price_is_null (settlement_price f) \<and> price_feed_validate f = Inl bad_rational"
  using assms
  by (simp add: price_feed_validate_def price_is_null_iff null_price_def max_short_squeeze_price_def
      mk_rational_def)

theorem null_feed_never_validates_witness:
  "price_feed_validate \<lparr>settlement_price = null_price, core_exchange_rate = null_price,
     maintenance_collateral_ratio = 1750, maximum_short_squeeze_ratio = 1500\<rparr> = Inl bad_rational"
  using null_feed_never_validates [of "\<lparr>settlement_price = null_price, core_exchange_rate = null_price,
     maintenance_collateral_ratio = 1750, maximum_short_squeeze_ratio = 1500\<rparr>"]
  by (simp add: GRAPHENE_MIN_COLLATERAL_RATIO_def GRAPHENE_MAX_COLLATERAL_RATIO_def)

text \<open>A feed validates exactly when its settlement price is a valid price and both ratios lie
  between the collateral ratio bounds; the overflow check of the short squeeze price never
  rejects such a feed.\<close>

theorem price_feed_validate_iff:
  "price_feed_validate f = Inr () \<longleftrightarrow>
     price_validate (settlement_price f) = Inr ()
     \<and> maximum_short_squeeze_ratio f \<in> {GRAPHENE_MIN_COLLATERAL_RATIO..GRAPHENE_MAX_COLLATERAL_RATIO}
     \<and> maintenance_collateral_ratio f \<in> {GRAPHENE_MIN_COLLATERAL_RATIO..GRAPHENE_MAX_COLLATERAL_RATIO}"
  (is "?L \<longleftrightarrow> ?R")
proof
  assume ?L
  then show ?R
    by (auto simp: price_feed_validate_def max_short_squeeze_price_def asset_div_def price_is_null_iff
        split: if_splits)
next
  assume R: ?R
  then have pos: "0 < amount (base (settlement_price f))" "0 < amount (quote (settlement_price f))"
    "0 < maximum_short_squeeze_ratio f" by (auto simp: GRAPHENE_MIN_COLLATERAL_RATIO_def)
  obtain n e where r: "rational_mult (reduce (amount (base (settlement_price f))) (amount (quote (settlement_price f))))
      (reduce 1000 (maximum_short_squeeze_ratio f)) = (n, e)" and ne: "0 < n" "0 < e"
    by (rule rational_mult_pos [OF pos(1,2) zero_less_numeral pos(3)])
  obtain n' d' where "squeeze_loop (n, e) = Inr (n', d')" using sq_loop.loop_bounded [OF ne] by blast
  with R r pos show ?L
    by (auto simp: price_feed_validate_def max_short_squeeze_price_def asset_div_def mk_rational_def
        GRAPHENE_COLLATERAL_RATIO_DENOM_def simp del: squeeze_loop.simps)
qed

end
