(* ===== verification/Undo.thy ===== *)
theory Undo
  imports Prelude "HOL-Library.AList"
begin

text \<open>
  The object store with multi-level rollback: \<^verbatim>\<open>libraries/db\<close>. An \<open>object_database\<close> holds the objects
  of every primary index by their id (\<^verbatim>\<open>generic_index\<close>, \<^verbatim>\<open>primary_index\<close>), the next free instance of
  each index, and the undo stack of \<^verbatim>\<open>undo_database\<close>. Creating, modifying and removing an object
  first records in the top undo state what is needed to take the change back; \<open>undo\<close>, \<open>merge\<close>,
  \<open>commit\<close> and \<open>pop_commit\<close> are the operations of the sessions. The containers of an
  undo state are association lists, iterated in list order; the theorems hold for every order.
  Only the index by id is modelled: the uniqueness constraints of further indices, whose violation makes
  the code throw from an insertion or a modification as well, the index observers and the files on
  disk are not.

  The abstract specification is a stack of snapshots; \<open>chain\<close> relates it to the undo stack, and
  the refinement lemmas show that every operation of the store implements the one on snapshots.
\<close>

section \<open>State\<close>

datatype index_id = Index_id (id_space: nat) (id_type: nat)

datatype object_id = Object_id (id_index: index_id) (id_instance: nat)

record 'v undo_state =
  old_values :: "(object_id \<times> 'v) list"
  old_index_next_ids :: "(index_id \<times> nat) list"
  new_ids :: "object_id list"
  removed :: "(object_id \<times> 'v) list"

record 'v object_database =
  objects :: "object_id \<rightharpoonup> 'v"
  next_ids :: "index_id \<rightharpoonup> nat"
  undo_stack :: "'v undo_state list"
  active_sessions :: nat
  undo_disabled :: bool
  undo_max_size :: nat

definition empty_undo_state :: "'v undo_state" where
  "empty_undo_state = \<lparr>old_values = [], old_index_next_ids = [], new_ids = [], removed = []\<rparr>"

text \<open>The back of the deque is the head of the list \<open>undo_stack\<close>.\<close>

definition init_object_database :: "'v object_database" where
  "init_object_database = \<lparr>objects = Map.empty, next_ids = Map.empty, undo_stack = [],
     active_sessions = 0, undo_disabled = False, undo_max_size = 256\<rparr>"

section \<open>Recording changes\<close>

definition ensure_state :: "'v object_database \<Rightarrow> 'v object_database" where
  "ensure_state db = (if undo_stack db = [] then db\<lparr>undo_stack := [empty_undo_state]\<rparr> else db)"

definition map_top :: "('v undo_state \<Rightarrow> 'v undo_state) \<Rightarrow> 'v object_database \<Rightarrow> 'v object_database" where
  "map_top f db = db\<lparr>undo_stack := (case undo_stack db of [] \<Rightarrow> [] | s # ss \<Rightarrow> f s # ss)\<rparr>"

definition record_create :: "object_id \<Rightarrow> 'v undo_state \<Rightarrow> 'v undo_state" where
  "record_create i s =
     (let s' = (if map_of (old_index_next_ids s) (id_index i) = None
                then s\<lparr>old_index_next_ids := AList.update (id_index i) (id_instance i) (old_index_next_ids s)\<rparr> else s)
      in s'\<lparr>new_ids := List.insert i (new_ids s')\<rparr>)"

definition record_modify :: "object_id \<Rightarrow> 'v \<Rightarrow> 'v undo_state \<Rightarrow> 'v undo_state" where
  "record_modify i v s =
     (if i \<in> set (new_ids s) then s
      else if map_of (old_values s) i \<noteq> None then s
      else s\<lparr>old_values := AList.update i v (old_values s)\<rparr>)"

definition record_remove :: "object_id \<Rightarrow> 'v \<Rightarrow> 'v undo_state \<Rightarrow> 'v undo_state" where
  "record_remove i v s =
     (if i \<in> set (new_ids s) then s\<lparr>new_ids := removeAll i (new_ids s)\<rparr>
      else case map_of (old_values s) i of
        Some w \<Rightarrow> s\<lparr>removed := AList.update i w (removed s), old_values := AList.delete i (old_values s)\<rparr>
      | None \<Rightarrow>
          if map_of (removed s) i \<noteq> None then s
          else s\<lparr>removed := AList.update i v (removed s)\<rparr>)"

definition on_create :: "object_id \<Rightarrow> 'v object_database \<Rightarrow> 'v object_database" where
  "on_create i db = (if undo_disabled db then db else map_top (record_create i) (ensure_state db))"

definition on_modify :: "object_id \<Rightarrow> 'v \<Rightarrow> 'v object_database \<Rightarrow> 'v object_database" where
  "on_modify i v db = (if undo_disabled db then db else map_top (record_modify i v) (ensure_state db))"

definition on_remove :: "object_id \<Rightarrow> 'v \<Rightarrow> 'v object_database \<Rightarrow> 'v object_database" where
  "on_remove i v db = (if undo_disabled db then db else map_top (record_remove i v) (ensure_state db))"

section \<open>Operations on objects\<close>

definition add_index :: "index_id \<Rightarrow> 'v object_database \<Rightarrow> 'v object_database" where
  "add_index ix db = db\<lparr>next_ids := (next_ids db)(ix \<mapsto> 0)\<rparr>"

definition find_object :: "'v object_database \<Rightarrow> object_id \<Rightarrow> 'v option exn" where
  "find_object db i =
     bindE (ofOption (assert_exception ''_index'') (next_ids db (id_index i))) (\<lambda>_. Inr (objects db i))"

definition get_object :: "'v object_database \<Rightarrow> object_id \<Rightarrow> 'v exn" where
  "get_object db i =
     bindE (find_object db i) (\<lambda>r. ofOption (assert_exception ''Unable to find Object'') r)"

definition create_object ::
  "index_id \<Rightarrow> (object_id \<Rightarrow> 'v) \<Rightarrow> 'v object_database \<Rightarrow> (object_id \<times> 'v object_database) exn" where
  "create_object ix constructor db =
     bindE (ofOption (assert_exception ''_index'') (next_ids db ix)) (\<lambda>n.
     let i = Object_id ix n in
     bindE (fc_assert (objects db i = None) ''Could not create object!'') (\<lambda>_.
     Inr (i, on_create i (db\<lparr>objects := (objects db)(i \<mapsto> constructor i),
                             next_ids := (next_ids db)(ix \<mapsto> Suc n)\<rparr>))))"

definition modify_object :: "object_id \<Rightarrow> ('v \<Rightarrow> 'v) \<Rightarrow> 'v object_database \<Rightarrow> 'v object_database exn" where
  "modify_object i m db =
     bindE (get_object db i) (\<lambda>v.
     let db' = on_modify i v db in Inr (db'\<lparr>objects := (objects db')(i \<mapsto> m v)\<rparr>))"

definition remove_object :: "object_id \<Rightarrow> 'v object_database \<Rightarrow> 'v object_database exn" where
  "remove_object i db =
     bindE (get_object db i) (\<lambda>v.
     let db' = on_remove i v db in Inr (db'\<lparr>objects := (objects db')(i := None)\<rparr>))"

definition insert_object :: "object_id \<Rightarrow> 'v \<Rightarrow> 'v object_database \<Rightarrow> 'v object_database exn" where
  "insert_object i v db =
     bindE (ofOption (assert_exception ''_index'') (next_ids db (id_index i))) (\<lambda>_.
     bindE (fc_assert (objects db i = None) ''Could not insert object'') (\<lambda>_.
     Inr (db\<lparr>objects := (objects db)(i \<mapsto> v)\<rparr>)))"

definition set_next_id :: "index_id \<Rightarrow> nat \<Rightarrow> 'v object_database \<Rightarrow> 'v object_database exn" where
  "set_next_id ix n db =
     bindE (ofOption (assert_exception ''_index'') (next_ids db ix)) (\<lambda>_.
     Inr (db\<lparr>next_ids := (next_ids db)(ix \<mapsto> n)\<rparr>))"

section \<open>Sessions\<close>

record session =
  apply_undo :: bool
  disable_on_exit :: bool

definition undo_enable :: "'v object_database \<Rightarrow> 'v object_database" where
  "undo_enable db = db\<lparr>undo_disabled := False\<rparr>"

definition undo_disable :: "'v object_database \<Rightarrow> 'v object_database" where
  "undo_disable db = db\<lparr>undo_disabled := True\<rparr>"

definition start_undo_session :: "bool \<Rightarrow> 'v object_database \<Rightarrow> session \<times> 'v object_database" where
  "start_undo_session force_enable db =
     (if undo_disabled db \<and> \<not> force_enable
      then (\<lparr>apply_undo = True, disable_on_exit = False\<rparr>, db)
      else
        let doe = undo_disabled db \<and> force_enable;
            db1 = (if force_enable then undo_enable db else db);
            db2 = db1\<lparr>undo_stack := empty_undo_state # take (undo_max_size db1) (undo_stack db1),
                      active_sessions := Suc (active_sessions db1)\<rparr>
        in (\<lparr>apply_undo = True, disable_on_exit = doe\<rparr>, db2))"

text \<open>The body \<open>undo\<close> and \<open>pop_commit\<close> share: put the modified objects back, remove the
  new ones, reset the id counters, reinsert the removed objects.\<close>

definition rollback :: "'v undo_state \<Rightarrow> 'v object_database \<Rightarrow> 'v object_database exn" where
  "rollback s db =
     bindE (foldE (\<lambda>(i, v). modify_object i (\<lambda>_. v)) (old_values s) db) (\<lambda>db.
     bindE (foldE remove_object (new_ids s) db) (\<lambda>db.
     bindE (foldE (\<lambda>(ix, n). set_next_id ix n) (old_index_next_ids s) db) (\<lambda>db.
     foldE (\<lambda>(i, v). insert_object i v) (removed s) db)))"

definition undo :: "'v object_database \<Rightarrow> 'v object_database exn" where
  "undo db =
     bindE (fc_assert (\<not> undo_disabled db) ''!_disabled'') (\<lambda>_.
     bindE (fc_assert (active_sessions db > 0) ''_active_sessions > 0'') (\<lambda>_.
     case undo_stack db of
       [] \<Rightarrow> Inl (chain_exception ''back of an empty deque'')
     | s # ss \<Rightarrow>
         bindE (rollback s (undo_disable db)) (\<lambda>db'.
         Inr ((undo_enable (db'\<lparr>undo_stack := ss\<rparr>))\<lparr>active_sessions := active_sessions db' - 1\<rparr>))))"

definition merge_old :: "'v undo_state \<Rightarrow> object_id \<times> 'v \<Rightarrow> 'v undo_state" where
  "merge_old prev iv =
     (let (i, v) = iv in
      if i \<in> set (new_ids prev) then prev
      else if map_of (old_values prev) i \<noteq> None then prev
      else prev\<lparr>old_values := AList.update i v (old_values prev)\<rparr>)"

definition merge_next :: "'v undo_state \<Rightarrow> index_id \<times> nat \<Rightarrow> 'v undo_state" where
  "merge_next prev ixn =
     (let (ix, n) = ixn in
      if map_of (old_index_next_ids prev) ix = None
      then prev\<lparr>old_index_next_ids := AList.update ix n (old_index_next_ids prev)\<rparr> else prev)"

definition merge_removed :: "'v undo_state \<Rightarrow> object_id \<times> 'v \<Rightarrow> 'v undo_state" where
  "merge_removed prev iv =
     (let (i, v) = iv in
      if i \<in> set (new_ids prev) then prev\<lparr>new_ids := removeAll i (new_ids prev)\<rparr>
      else case map_of (old_values prev) i of
        Some w \<Rightarrow> prev\<lparr>removed := AList.update i w (removed prev), old_values := AList.delete i (old_values prev)\<rparr>
      | None \<Rightarrow> prev\<lparr>removed := AList.update i v (removed prev)\<rparr>)"

definition merge_states :: "'v undo_state \<Rightarrow> 'v undo_state \<Rightarrow> 'v undo_state" where
  "merge_states prev s =
     (let p1 = foldl merge_old prev (old_values s);
          p2 = p1\<lparr>new_ids := foldl (\<lambda>ids i. List.insert i ids) (new_ids p1) (new_ids s)\<rparr>;
          p3 = foldl merge_next p2 (old_index_next_ids s)
      in foldl merge_removed p3 (removed s))"

definition merge :: "'v object_database \<Rightarrow> 'v object_database exn" where
  "merge db =
     bindE (fc_assert (active_sessions db > 0) ''_active_sessions > 0'') (\<lambda>_.
     if active_sessions db = 1 \<and> length (undo_stack db) = 1
     then Inr (db\<lparr>undo_stack := tl (undo_stack db), active_sessions := active_sessions db - 1\<rparr>)
     else
       case undo_stack db of
         s # prev # ss \<Rightarrow>
           Inr (db\<lparr>undo_stack := merge_states prev s # ss, active_sessions := active_sessions db - 1\<rparr>)
       | _ \<Rightarrow> Inl (assert_exception ''_stack.size() >=2''))"

definition commit :: "'v object_database \<Rightarrow> 'v object_database exn" where
  "commit db =
     bindE (fc_assert (active_sessions db > 0) ''_active_sessions > 0'') (\<lambda>_.
     Inr (db\<lparr>active_sessions := active_sessions db - 1\<rparr>))"

definition pop_commit :: "'v object_database \<Rightarrow> 'v object_database exn" where
  "pop_commit db =
     bindE (fc_assert (active_sessions db = 0) ''_active_sessions == 0'') (\<lambda>_.
     case undo_stack db of
       [] \<Rightarrow> Inl (assert_exception ''!_stack.empty()'')
     | s # ss \<Rightarrow>
         bindE (rollback s (undo_disable db)) (\<lambda>db'.
         Inr (undo_enable (db'\<lparr>undo_stack := ss\<rparr>))))"

definition undo_head :: "'v object_database \<Rightarrow> 'v undo_state exn" where
  "undo_head db = (case undo_stack db of [] \<Rightarrow> Inl (assert_exception ''!_stack.empty()'') | s # _ \<Rightarrow> Inr s)"

text \<open>The methods of \<^verbatim>\<open>undo_database::session\<close> and its destructor.\<close>

definition session_commit :: "session \<times> 'v object_database \<Rightarrow> (session \<times> 'v object_database) exn" where
  "session_commit sd = bindE (commit (snd sd)) (\<lambda>db. Inr ((fst sd)\<lparr>apply_undo := False\<rparr>, db))"

definition session_undo :: "session \<times> 'v object_database \<Rightarrow> (session \<times> 'v object_database) exn" where
  "session_undo sd =
     bindE (if apply_undo (fst sd) then undo (snd sd) else Inr (snd sd)) (\<lambda>db.
     Inr ((fst sd)\<lparr>apply_undo := False\<rparr>, db))"

definition session_merge :: "session \<times> 'v object_database \<Rightarrow> (session \<times> 'v object_database) exn" where
  "session_merge sd =
     bindE (if apply_undo (fst sd) then merge (snd sd) else Inr (snd sd)) (\<lambda>db.
     Inr ((fst sd)\<lparr>apply_undo := False\<rparr>, db))"

definition session_destroy :: "session \<times> 'v object_database \<Rightarrow> 'v object_database exn" where
  "session_destroy sd =
     bindE (if apply_undo (fst sd) then undo (snd sd) else Inr (snd sd)) (\<lambda>db.
     Inr (if disable_on_exit (fst sd) then undo_disable db else db))"

section \<open>Snapshots\<close>

type_synonym 'v snapshot = "(object_id \<rightharpoonup> 'v) \<times> (index_id \<rightharpoonup> nat)"

definition snapshot :: "'v object_database \<Rightarrow> 'v snapshot" where
  "snapshot db = (objects db, next_ids db)"

text \<open>Every object has an id below the counter of its index.\<close>

definition ids_bounded :: "'v snapshot \<Rightarrow> bool" where
  "ids_bounded st \<longleftrightarrow> (\<forall>i \<in> dom (fst st). \<exists>m. snd st (id_index i) = Some m \<and> id_instance i < m)"

text \<open>What an undo state says of one object: nothing, that it is new, or what it was before it was
  modified or removed (the four kinds of entry of the comment in \<^verbatim>\<open>undo_database::merge\<close>);
  \<open>Bad\<close> is an object with two entries.\<close>

datatype 'v change = Nop | New | Upd 'v | Del 'v | Bad

fun entry :: "bool \<Rightarrow> 'v option \<Rightarrow> 'v option \<Rightarrow> 'v change" where
  "entry False None None = Nop"
| "entry True None None = New"
| "entry False (Some v) None = Upd v"
| "entry False None (Some v) = Del v"
| "entry _ _ _ = Bad"

definition status :: "'v undo_state \<Rightarrow> object_id \<Rightarrow> 'v change" where
  "status s i = entry (i \<in> set (new_ids s)) (map_of (old_values s) i) (map_of (removed s) i)"

text \<open>\<open>takes_back c new old\<close>: an object with entry \<open>c\<close> goes from \<open>new\<close> back to \<open>old\<close>.\<close>

fun takes_back :: "'v change \<Rightarrow> 'v option \<Rightarrow> 'v option \<Rightarrow> bool" where
  "takes_back Nop new old = (old = new)"
| "takes_back New new old = (old = None \<and> new \<noteq> None)"
| "takes_back (Upd v) new old = (old = Some v \<and> new \<noteq> None)"
| "takes_back (Del v) new old = (old = Some v \<and> new = None)"
| "takes_back Bad new old = False"

definition next_back :: "nat option \<Rightarrow> nat option \<Rightarrow> nat option \<Rightarrow> bool" where
  "next_back c new old \<longleftrightarrow>
     (case c of None \<Rightarrow> new = old | Some k \<Rightarrow> old = Some k \<and> (\<exists>m. new = Some m \<and> k \<le> m))"

definition wf_lists :: "'v undo_state \<Rightarrow> bool" where
  "wf_lists s \<longleftrightarrow> distinct (map fst (old_values s)) \<and> distinct (new_ids s)
     \<and> distinct (map fst (old_index_next_ids s)) \<and> distinct (map fst (removed s))"

text \<open>An object that is new since \<open>old\<close> has an id at or above the counters of \<open>old\<close>.\<close>

definition new_fresh :: "'v undo_state \<Rightarrow> 'v snapshot \<Rightarrow> bool" where
  "new_fresh s old \<longleftrightarrow>
     (\<forall>i. status s i = New \<longrightarrow> (\<exists>m. snd old (id_index i) = Some m \<and> m \<le> id_instance i))"

text \<open>\<open>undoes s old new\<close>: the undo state \<open>s\<close> takes the store from \<open>new\<close> back to \<open>old\<close>.\<close>

definition undoes :: "'v undo_state \<Rightarrow> 'v snapshot \<Rightarrow> 'v snapshot \<Rightarrow> bool" where
  "undoes s old new \<longleftrightarrow> wf_lists s
     \<and> (\<forall>i. takes_back (status s i) (fst new i) (fst old i))
     \<and> (\<forall>ix. next_back (map_of (old_index_next_ids s) ix) (snd new ix) (snd old ix))
     \<and> new_fresh s old \<and> ids_bounded old \<and> ids_bounded new"

fun chain :: "'v undo_state list \<Rightarrow> 'v snapshot list \<Rightarrow> 'v snapshot \<Rightarrow> bool" where
  "chain [] [] cur = ids_bounded cur"
| "chain (s # ss) (sn # sns) cur = (undoes s sn cur \<and> chain ss sns sn)"
| "chain _ _ cur = False"

definition tracks :: "'v object_database \<Rightarrow> 'v snapshot list \<Rightarrow> bool" where
  "tracks db sns \<longleftrightarrow> chain (undo_stack db) sns (snapshot db)"

section \<open>Rolling back\<close>

lemma get_object_eq_Inr [simp]:
  "get_object db i = Inr v \<longleftrightarrow> next_ids db (id_index i) \<noteq> None \<and> objects db i = Some v"
  by (auto simp: get_object_def find_object_def)

lemma foldE_modify:
  "distinct (map fst xs) \<Longrightarrow> fst ` set xs \<subseteq> dom (objects db) \<Longrightarrow> undo_disabled db \<Longrightarrow>
   id_index ` dom (objects db) \<subseteq> dom (next_ids db) \<Longrightarrow>
   foldE (\<lambda>(i, v). modify_object i (\<lambda>_. v)) xs db = Inr (db\<lparr>objects := objects db ++ map_of xs\<rparr>)"
proof (induction xs arbitrary: db)
  case Nil
  then show ?case by simp
next
  case (Cons x xs)
  obtain i v where x: "x = (i, v)" by fastforce
  have i: "i \<in> dom (objects db)" "i \<notin> dom (map_of xs)"
    using Cons.prems(1,2) x by (auto simp: dom_map_of_conv_image_fst)
  let ?db = "db\<lparr>objects := (objects db)(i \<mapsto> v)\<rparr>"
  have "modify_object i (\<lambda>_. v) db = Inr ?db"
    using i(1) Cons.prems(3,4) by (auto simp: modify_object_def on_modify_def)
  moreover have "foldE (\<lambda>(i, v). modify_object i (\<lambda>_. v)) xs ?db = Inr (?db\<lparr>objects := objects ?db ++ map_of xs\<rparr>)"
    using Cons.prems i(1) by (intro Cons.IH) (auto simp: x simp del: fun_upd_apply)
  moreover have "(objects db)(i \<mapsto> v) ++ map_of xs = objects db ++ map_of (x # xs)"
    using i(2) by (simp add: x map_add_upd_left)
  ultimately show ?case by (simp add: x del: fun_upd_apply)
qed

lemma foldE_remove:
  "distinct xs \<Longrightarrow> set xs \<subseteq> dom (objects db) \<Longrightarrow> undo_disabled db \<Longrightarrow>
   id_index ` dom (objects db) \<subseteq> dom (next_ids db) \<Longrightarrow>
   foldE remove_object xs db = Inr (db\<lparr>objects := objects db |` (- set xs)\<rparr>)"
proof (induction xs arbitrary: db)
  case Nil
  then show ?case by simp
next
  case (Cons i xs)
  let ?db = "db\<lparr>objects := (objects db)(i := None)\<rparr>"
  have "remove_object i db = Inr ?db"
    using Cons.prems by (auto simp: remove_object_def on_remove_def)
  moreover have "foldE remove_object xs ?db = Inr (?db\<lparr>objects := objects ?db |` (- set xs)\<rparr>)"
    using Cons.prems by (intro Cons.IH) (auto simp del: fun_upd_apply)
  moreover have "(objects db)(i := None) |` (- set xs) = objects db |` (- set (i # xs))"
    by (auto simp: fun_eq_iff restrict_map_def)
  ultimately show ?case by simp
qed

lemma foldE_set_next:
  "distinct (map fst xs) \<Longrightarrow> fst ` set xs \<subseteq> dom (next_ids db) \<Longrightarrow>
   foldE (\<lambda>(ix, n). set_next_id ix n) xs db = Inr (db\<lparr>next_ids := next_ids db ++ map_of xs\<rparr>)"
proof (induction xs arbitrary: db)
  case Nil
  then show ?case by simp
next
  case (Cons x xs)
  obtain i v where x: "x = (i, v)" by fastforce
  have i: "i \<in> dom (next_ids db)" "i \<notin> dom (map_of xs)"
    using Cons.prems(1,2) x by (auto simp: dom_map_of_conv_image_fst)
  let ?db = "db\<lparr>next_ids := (next_ids db)(i \<mapsto> v)\<rparr>"
  have "set_next_id i v db = Inr ?db" using i(1) by (auto simp: set_next_id_def)
  moreover have "foldE (\<lambda>(ix, n). set_next_id ix n) xs ?db = Inr (?db\<lparr>next_ids := next_ids ?db ++ map_of xs\<rparr>)"
    using Cons.prems i(1) by (intro Cons.IH) (auto simp: x)
  moreover have "(next_ids db)(i \<mapsto> v) ++ map_of xs = next_ids db ++ map_of (x # xs)"
    using i(2) by (simp add: x map_add_upd_left)
  ultimately show ?case by (simp add: x del: fun_upd_apply)
qed

lemma foldE_insert:
  "distinct (map fst xs) \<Longrightarrow> fst ` set xs \<inter> dom (objects db) = {} \<Longrightarrow>
   id_index ` fst ` set xs \<subseteq> dom (next_ids db) \<Longrightarrow>
   foldE (\<lambda>(i, v). insert_object i v) xs db = Inr (db\<lparr>objects := objects db ++ map_of xs\<rparr>)"
proof (induction xs arbitrary: db)
  case Nil
  then show ?case by simp
next
  case (Cons x xs)
  obtain i v where x: "x = (i, v)" by fastforce
  have i: "i \<notin> dom (objects db)" "i \<notin> dom (map_of xs)"
    using Cons.prems(1,2) x by (auto simp: dom_map_of_conv_image_fst)
  let ?db = "db\<lparr>objects := (objects db)(i \<mapsto> v)\<rparr>"
  have "insert_object i v db = Inr ?db"
    using i(1) Cons.prems(3) by (auto simp: insert_object_def x)
  moreover have "foldE (\<lambda>(i, v). insert_object i v) xs ?db = Inr (?db\<lparr>objects := objects ?db ++ map_of xs\<rparr>)"
    using Cons.prems i by (intro Cons.IH) (simp_all add: x dom_map_of_conv_image_fst del: fun_upd_apply)
  moreover have "(objects db)(i \<mapsto> v) ++ map_of xs = objects db ++ map_of (x # xs)"
    using i(2) by (simp add: x map_add_upd_left)
  ultimately show ?case by (simp add: x del: fun_upd_apply)
qed

lemma entry_iff:
  assumes "entry b x y \<noteq> Bad"
  shows "b \<longleftrightarrow> entry b x y = New"
    and "x = (case entry b x y of Upd v \<Rightarrow> Some v | _ \<Rightarrow> None)"
    and "y = (case entry b x y of Del v \<Rightarrow> Some v | _ \<Rightarrow> None)"
  using assms by (cases b; cases x; cases y; simp)+

lemma status_iff:
  assumes "status s i \<noteq> Bad"
  shows "i \<in> set (new_ids s) \<longleftrightarrow> status s i = New"
    and "map_of (old_values s) i = (case status s i of Upd v \<Rightarrow> Some v | _ \<Rightarrow> None)"
    and "map_of (removed s) i = (case status s i of Del v \<Rightarrow> Some v | _ \<Rightarrow> None)"
  using entry_iff [OF assms [unfolded status_def]] by (simp_all only: status_def)

lemma takes_back_not_Bad: "takes_back c new old \<Longrightarrow> c \<noteq> Bad"
  by (cases c) auto

lemma undoes_status: "undoes s old new \<Longrightarrow> takes_back (status s i) (fst new i) (fst old i)"
  by (simp add: undoes_def)

lemma undoes_entries:
  assumes "undoes s old new"
  shows "i \<in> set (new_ids s) \<longleftrightarrow> status s i = New"
    and "map_of (old_values s) i = (case status s i of Upd v \<Rightarrow> Some v | _ \<Rightarrow> None)"
    and "map_of (removed s) i = (case status s i of Del v \<Rightarrow> Some v | _ \<Rightarrow> None)"
  using status_iff [OF takes_back_not_Bad [OF undoes_status [OF assms]]] by auto

lemma undoes_doms:
  assumes u: "undoes s old new"
  shows "dom (map_of (old_values s)) \<subseteq> dom (fst new)" "set (new_ids s) \<subseteq> dom (fst new)"
    "dom (map_of (removed s)) \<subseteq> dom (fst old)" "dom (map_of (removed s)) \<inter> dom (fst new) = {}"
proof -
  have p: "(map_of (old_values s) i \<noteq> None \<longrightarrow> fst new i \<noteq> None) \<and> (i \<in> set (new_ids s) \<longrightarrow> fst new i \<noteq> None)
    \<and> (map_of (removed s) i \<noteq> None \<longrightarrow> fst old i \<noteq> None \<and> fst new i = None)" for i
    using undoes_status [OF u, of i] undoes_entries [OF u, of i] by (cases "status s i") auto
  show "dom (map_of (old_values s)) \<subseteq> dom (fst new)" "set (new_ids s) \<subseteq> dom (fst new)"
    "dom (map_of (removed s)) \<subseteq> dom (fst old)" "dom (map_of (removed s)) \<inter> dom (fst new) = {}"
    using p by (simp only: disjoint_iff subset_iff domIff not_not; blast)+
qed

lemma undoes_objects:
  assumes u: "undoes s old new"
  shows "((fst new ++ map_of (old_values s)) |` (- set (new_ids s))) ++ map_of (removed s) = fst old"
proof
  fix i
  show "(((fst new ++ map_of (old_values s)) |` (- set (new_ids s))) ++ map_of (removed s)) i = fst old i"
    using undoes_status [OF u, of i] undoes_entries [OF u, of i]
    by (cases "status s i") (auto simp: map_add_def restrict_map_def)
qed

lemma undoes_next_ids:
  assumes "undoes s old new"
  shows "snd new ++ map_of (old_index_next_ids s) = snd old"
proof
  fix ix
  have "next_back (map_of (old_index_next_ids s) ix) (snd new ix) (snd old ix)"
    using assms by (simp add: undoes_def)
  then show "(snd new ++ map_of (old_index_next_ids s)) ix = snd old ix"
    by (auto simp: next_back_def map_add_def split: option.splits)
qed

lemma ids_bounded_registered:
  "ids_bounded st \<Longrightarrow> id_index ` dom (fst st) \<subseteq> dom (snd st)"
  by (fastforce simp: ids_bounded_def)

lemma rollback_restores:
  assumes u: "undoes s old (snapshot db)" and dis: "undo_disabled db"
  shows "rollback s db = Inr (db\<lparr>objects := fst old, next_ids := snd old\<rparr>)"
proof -
  have wf: "distinct (map fst (old_values s))" "distinct (new_ids s)"
    "distinct (map fst (old_index_next_ids s))" "distinct (map fst (removed s))"
    and bounded: "ids_bounded old" "ids_bounded (snapshot db)"
    using u by (simp_all add: undoes_def wf_lists_def)
  have reg: "id_index ` dom (objects db) \<subseteq> dom (next_ids db)"
    using ids_bounded_registered [OF bounded(2)] by (simp add: snapshot_def)
  note doms = undoes_doms [OF u, unfolded snapshot_def fst_conv]
  let ?o1 = "objects db ++ map_of (old_values s)"
  have d1: "dom ?o1 = dom (objects db)" using doms(1) by auto
  let ?d1 = "db\<lparr>objects := ?o1\<rparr>"
  have 1: "foldE (\<lambda>(i, v). modify_object i (\<lambda>_. v)) (old_values s) db = Inr ?d1"
    using doms(1) by (intro foldE_modify [OF wf(1) _ dis reg]) (simp add: dom_map_of_conv_image_fst)
  let ?d2 = "?d1\<lparr>objects := ?o1 |` (- set (new_ids s))\<rparr>"
  have 2: "foldE remove_object (new_ids s) ?d1 = Inr ?d2"
    using dis reg doms(2) by (subst foldE_remove [OF wf(2)]) (simp_all add: d1 del: dom_map_add)
  let ?d3 = "?d2\<lparr>next_ids := snd old\<rparr>"
  have "next_ids db ++ map_of (old_index_next_ids s) = snd old"
    using undoes_next_ids [OF u] by (simp add: snapshot_def)
  moreover have "dom (map_of (old_index_next_ids s)) \<subseteq> dom (next_ids db)"
  proof
    fix ix assume "ix \<in> dom (map_of (old_index_next_ids s))"
    moreover have "next_back (map_of (old_index_next_ids s) ix) (next_ids db ix) (snd old ix)"
      using u by (simp add: undoes_def snapshot_def)
    ultimately show "ix \<in> dom (next_ids db)" by (auto simp: next_back_def)
  qed
  ultimately have 3: "foldE (\<lambda>(ix, n). set_next_id ix n) (old_index_next_ids s) ?d2 = Inr ?d3"
    by (subst foldE_set_next [OF wf(3)]) (simp_all add: dom_map_of_conv_image_fst)
  have "fst ` set (removed s) \<inter> dom (objects ?d3) = {}"
    using doms(1,4) by (auto simp: dom_map_of_conv_image_fst)
  moreover have "id_index ` fst ` set (removed s) \<subseteq> dom (next_ids ?d3)"
    using order_trans [OF image_mono [OF doms(3), of id_index] ids_bounded_registered [OF bounded(1)]]
    by (simp add: dom_map_of_conv_image_fst)
  ultimately have 4: "foldE (\<lambda>(i, v). insert_object i v) (removed s) ?d3 = Inr (?d3\<lparr>objects := fst old\<rparr>)"
    using undoes_objects [OF u] by (subst foldE_insert [OF wf(4)]) (simp_all add: snapshot_def)
  show ?thesis unfolding rollback_def using 1 2 3 4 by simp
qed

section \<open>Recording keeps the way back\<close>

lemmas alist_facts = update_conv' distinct_update delete_conv' distinct_delete

lemma undoes_empty: "ids_bounded st \<Longrightarrow> undoes empty_undo_state st st"
  by (simp add: undoes_def empty_undo_state_def wf_lists_def status_def next_back_def new_fresh_def)

lemma undoes_next_le:
  assumes "undoes s old new" "snd new ix = Some k"
  shows "\<exists>j. snd old ix = Some j \<and> j \<le> k"
proof -
  have "next_back (map_of (old_index_next_ids s) ix) (snd new ix) (snd old ix)"
    using assms(1) by (simp add: undoes_def)
  with assms(2) show ?thesis
    by (cases "map_of (old_index_next_ids s) ix") (auto simp: next_back_def intro!: exI [of _ k] dest: sym)
qed

lemma ids_bounded_fresh:
  assumes "ids_bounded st" "snd st ix = Some j" "j \<le> k"
  shows "fst st (Object_id ix k) = None"
proof (rule ccontr)
  assume "fst st (Object_id ix k) \<noteq> None"
  then have "\<exists>m. snd st (id_index (Object_id ix k)) = Some m \<and> id_instance (Object_id ix k) < m"
    using assms(1) by (auto simp only: ids_bounded_def domIff)
  with assms show False by auto
qed

lemma ids_bounded_create:
  assumes "ids_bounded (ob, n)" "n ix = Some k"
  shows "ids_bounded (ob(Object_id ix k \<mapsto> v), n(ix \<mapsto> Suc k))"
  unfolding ids_bounded_def
proof
  fix i assume "i \<in> dom (fst (ob(Object_id ix k \<mapsto> v), n(ix \<mapsto> Suc k)))"
  then consider "i = Object_id ix k" | "i \<in> dom ob" by auto
  then show "\<exists>m. snd (ob(Object_id ix k \<mapsto> v), n(ix \<mapsto> Suc k)) (id_index i) = Some m \<and> id_instance i < m"
  proof cases
    case 2
    then obtain m where "n (id_index i) = Some m" "id_instance i < m"
      using assms(1) by (auto simp: ids_bounded_def)
    with assms(2) show ?thesis by (auto simp: less_Suc_eq)
  qed simp
qed

lemma ids_bounded_modify: "ids_bounded (ob, n) \<Longrightarrow> i \<in> dom ob \<Longrightarrow> ids_bounded (ob(i \<mapsto> v), n)"
  by (auto simp: ids_bounded_def)

lemma ids_bounded_remove: "ids_bounded (ob, n) \<Longrightarrow> ids_bounded (ob(i := None), n)"
  by (auto simp: ids_bounded_def)

lemma wf_record [simp]:
  "wf_lists s \<Longrightarrow> wf_lists (record_create i s)"
  "wf_lists s \<Longrightarrow> wf_lists (record_modify i v s)"
  "wf_lists s \<Longrightarrow> wf_lists (record_remove i v s)"
  by (auto simp: wf_lists_def record_create_def record_modify_def record_remove_def alist_facts
      distinct_removeAll Let_def split: option.splits)

lemma status_record_create:
  "status s i = Nop \<Longrightarrow> status (record_create i s) j = (if j = i then New else status s j)"
  by (cases "i \<in> set (new_ids s)"; cases "map_of (old_values s) i"; cases "map_of (removed s) i")
    (auto simp: status_def record_create_def Let_def)

lemma status_record_modify:
  assumes "status s i \<noteq> Bad" "\<And>w. status s i \<noteq> Del w"
  shows "status (record_modify i v s) j =
     (if j = i then (case status s i of Nop \<Rightarrow> Upd v | c \<Rightarrow> c) else status s j)"
proof (cases "j = i")
  case True
  then show ?thesis using assms
    by (cases "i \<in> set (new_ids s)"; cases "map_of (old_values s) i"; cases "map_of (removed s) i")
      (auto simp: status_def record_modify_def alist_facts)
qed (simp add: status_def record_modify_def alist_facts)

lemma status_record_remove:
  assumes "status s i \<noteq> Bad"
  shows "status (record_remove i v s) j =
     (if j = i then (case status s i of Nop \<Rightarrow> Del v | New \<Rightarrow> Nop | Upd w \<Rightarrow> Del w | c \<Rightarrow> c) else status s j)"
proof (cases "j = i")
  case True
  then show ?thesis using assms
    by (cases "i \<in> set (new_ids s)"; cases "map_of (old_values s) i"; cases "map_of (removed s) i")
      (simp_all add: status_def record_remove_def alist_facts)
qed (simp add: status_def record_remove_def alist_facts split: option.split)

lemma next_record [simp]:
  "old_index_next_ids (record_modify i v s) = old_index_next_ids s"
  "old_index_next_ids (record_remove i v s) = old_index_next_ids s"
  by (auto simp: record_modify_def record_remove_def split: option.splits)

lemma undoes_create:
  assumes u: "undoes s old (ob, n)" and k: "n ix = Some k"
  shows "undoes (record_create (Object_id ix k) s) old (ob(Object_id ix k \<mapsto> v), n(ix \<mapsto> Suc k))"
proof -
  let ?i = "Object_id ix k"
  obtain j where j: "snd old ix = Some j" "j \<le> k" using undoes_next_le [OF u] k by auto
  have bo: "ids_bounded old" and bn: "ids_bounded (ob, n)" and wf: "wf_lists s"
    using u by (auto simp: undoes_def)
  have f: "fst old ?i = None" "ob ?i = None"
    using ids_bounded_fresh [OF bo j] ids_bounded_fresh [OF bn, of ix k k] k by auto
  then have "status s ?i = Nop" using undoes_status [OF u, of ?i] by (cases "status s ?i") auto
  then have "takes_back (status (record_create ?i s) a) ((ob(?i \<mapsto> v)) a) (fst old a)" for a
    using f undoes_status [OF u, of a] by (simp add: status_record_create)
  moreover have "next_back (map_of (old_index_next_ids (record_create ?i s)) a) ((n(ix \<mapsto> Suc k)) a) (snd old a)" for a
  proof -
    have "next_back (map_of (old_index_next_ids s) a) (n a) (snd old a)" using u by (simp add: undoes_def)
    then show ?thesis using k
      by (auto simp: record_create_def next_back_def alist_facts Let_def split: option.splits)
  qed
  moreover have "new_fresh (record_create ?i s) old"
    using u j \<open>status s ?i = Nop\<close> by (simp add: undoes_def new_fresh_def status_record_create)
  ultimately show ?thesis using bo ids_bounded_create [OF bn k] wf by (simp add: undoes_def del: fun_upd_apply)
qed

lemma undoes_modify:
  assumes u: "undoes s old (ob, n)" and v: "ob i = Some v"
  shows "undoes (record_modify i v s) old (ob(i \<mapsto> w), n)"
proof -
  have ni: "status s i \<noteq> Bad" "\<And>x. status s i \<noteq> Del x"
    using undoes_status [OF u, of i] v by auto
  have "takes_back (status (record_modify i v s) a) ((ob(i \<mapsto> w)) a) (fst old a)" for a
    using undoes_status [OF u, of a] v
    by (cases "status s i") (auto simp: status_record_modify [OF ni])
  moreover have "new_fresh (record_modify i v s) old"
    using u by (auto simp: undoes_def new_fresh_def status_record_modify [OF ni] split: change.splits)
  ultimately show ?thesis
    using u v ids_bounded_modify [of ob n i w] by (auto simp: undoes_def simp del: fun_upd_apply)
qed

lemma undoes_remove:
  assumes u: "undoes s old (ob, n)" and v: "ob i = Some v"
  shows "undoes (record_remove i v s) old (ob(i := None), n)"
proof -
  have ni: "status s i \<noteq> Bad" using undoes_status [OF u, of i] v by auto
  have "takes_back (status (record_remove i v s) a) ((ob(i := None)) a) (fst old a)" for a
    using undoes_status [OF u, of a] v
    by (cases "status s i") (auto simp: status_record_remove [OF ni])
  moreover have "new_fresh (record_remove i v s) old"
    using u by (auto simp: undoes_def new_fresh_def status_record_remove [OF ni] split: change.splits)
  ultimately show ?thesis
    using u ids_bounded_remove [of ob n i] by (auto simp: undoes_def simp del: fun_upd_apply)
qed

section \<open>Merging composes the ways back\<close>

lemma foldl_status:
  assumes step: "\<And>p k v. wf_lists p \<Longrightarrow> C (status p k) \<Longrightarrow>
      wf_lists (f p (k, v)) \<and> (\<forall>j. status (f p (k, v)) j = (if j = k then g v (status p k) else status p j))
      \<and> old_index_next_ids (f p (k, v)) = old_index_next_ids p"
    and "distinct (map fst xs)" "wf_lists p" "\<And>k. k \<in> fst ` set xs \<Longrightarrow> C (status p k)"
  shows "wf_lists (foldl f p xs)
    \<and> (\<forall>j. status (foldl f p xs) j = (case map_of xs j of None \<Rightarrow> status p j | Some v \<Rightarrow> g v (status p j)))
    \<and> old_index_next_ids (foldl f p xs) = old_index_next_ids p"
  using assms(2-)
proof (induction xs arbitrary: p)
  case Nil
  then show ?case by simp
next
  case (Cons x xs)
  obtain k v where x: "x = (k, v)" by fastforce
  have st: "wf_lists (f p x)" "\<And>j. status (f p x) j = (if j = k then g v (status p k) else status p j)"
    "old_index_next_ids (f p x) = old_index_next_ids p"
    using step [of p k v] Cons.prems by (auto simp: x)
  have k: "k \<notin> fst ` set xs" using Cons.prems(1) x by simp
  then have "\<And>j. j \<in> fst ` set xs \<Longrightarrow> C (status (f p x) j)"
    using Cons.prems(3) st(2) by (metis insertCI list.simps(15) image_insert)
  moreover have "map_of xs k = None" using k by (simp add: map_of_eq_None_iff)
  ultimately show ?case using Cons.IH [of "f p x"] Cons.prems(1) st
    by (auto simp: x split: option.split)
qed

lemma merge_old_step:
  assumes "wf_lists p" "status p k \<noteq> Bad \<and> (\<forall>w. status p k \<noteq> Del w)"
  shows "wf_lists (merge_old p (k, v)) \<and> (\<forall>j. status (merge_old p (k, v)) j =
      (if j = k then (case status p k of Nop \<Rightarrow> Upd v | c \<Rightarrow> c) else status p j))
    \<and> old_index_next_ids (merge_old p (k, v)) = old_index_next_ids p"
proof -
  have "merge_old p (k, v) = record_modify k v p" by (simp add: merge_old_def record_modify_def)
  then show ?thesis using assms status_record_modify [of p k] by simp
qed

lemma merge_removed_step:
  assumes "wf_lists p" "status p k \<noteq> Bad \<and> (\<forall>w. status p k \<noteq> Del w)"
  shows "wf_lists (merge_removed p (k, v)) \<and> (\<forall>j. status (merge_removed p (k, v)) j =
      (if j = k then (case status p k of Nop \<Rightarrow> Del v | New \<Rightarrow> Nop | Upd w \<Rightarrow> Del w | c \<Rightarrow> c) else status p j))
    \<and> old_index_next_ids (merge_removed p (k, v)) = old_index_next_ids p"
proof -
  have "map_of (removed p) k = None"
    using status_iff(3) [of p k] assms(2) by (auto split: change.splits)
  then have "merge_removed p (k, v) = record_remove k v p"
    by (simp add: merge_removed_def record_remove_def split: option.split)
  then show ?thesis using assms status_record_remove [of p k] by simp
qed

lemma foldl_insert_ids:
  "set (foldl (\<lambda>ids i. List.insert i ids) ys xs) = set ys \<union> set xs"
  "distinct ys \<Longrightarrow> distinct (foldl (\<lambda>ids i. List.insert i ids) ys xs)"
  by (induction xs arbitrary: ys) auto

lemma foldl_merge_next:
  "wf_lists p \<Longrightarrow> distinct (map fst xs) \<Longrightarrow>
   wf_lists (foldl merge_next p xs) \<and> status (foldl merge_next p xs) = status p
   \<and> map_of (old_index_next_ids (foldl merge_next p xs)) ix
     = (case map_of (old_index_next_ids p) ix of Some k \<Rightarrow> Some k | None \<Rightarrow> map_of xs ix)"
proof (induction xs arbitrary: p)
  case Nil
  then show ?case by (auto split: option.splits)
next
  case (Cons x xs)
  obtain k v where x: "x = (k, v)" by fastforce
  have wf: "wf_lists (merge_next p x)" and st: "status (merge_next p x) = status p"
    using Cons.prems by (auto simp: x merge_next_def wf_lists_def alist_facts status_def fun_eq_iff)
  have nx: "map_of (old_index_next_ids (merge_next p x)) ix =
      (case map_of (old_index_next_ids p) ix of Some j \<Rightarrow> Some j | None \<Rightarrow> if ix = k then Some v else None)"
    by (auto simp: x merge_next_def alist_facts split: option.split)
  have "map_of xs k = None" using Cons.prems(2) by (simp add: x map_of_eq_None_iff)
  then show ?case using Cons.IH [OF wf] Cons.prems(2) st nx
    by (auto simp: x split: option.splits if_splits)
qed

text \<open>The entry of the merged state, row by row of the matrix in \<^verbatim>\<open>undo_database::merge\<close>.\<close>

fun compose_change :: "'v change \<Rightarrow> 'v change \<Rightarrow> 'v change" where
  "compose_change a Nop = a"
| "compose_change Nop b = b"
| "compose_change New (Upd y) = New"
| "compose_change New (Del y) = Nop"
| "compose_change (Upd x) (Upd y) = Upd x"
| "compose_change (Upd x) (Del y) = Del x"
| "compose_change _ _ = Bad"

lemma compose_takes_back:
  "takes_back a y x \<Longrightarrow> takes_back b z y \<Longrightarrow> \<not> (a \<noteq> Nop \<and> b = New) \<Longrightarrow>
   takes_back (compose_change a b) z x"
  by (cases a; cases b) auto

lemma new_after_nop:
  assumes a: "undoes A x y" and b: "undoes B y z" and n: "status B i = New"
  shows "status A i = Nop"
proof -
  obtain m where m: "snd y (id_index i) = Some m" "m \<le> id_instance i"
    using b n by (auto simp: undoes_def new_fresh_def)
  obtain k where k: "snd x (id_index i) = Some k" "k \<le> m" using undoes_next_le [OF a m(1)] by auto
  have "ids_bounded x" using a by (simp add: undoes_def)
  from ids_bounded_fresh [OF this k(1) order_trans [OF k(2) m(2)]]
  have "fst x (Object_id (id_index i) (id_instance i)) = None" .
  moreover have "fst y i = None" using undoes_status [OF b, of i] n by simp
  ultimately show ?thesis using undoes_status [OF a, of i] by (cases "status A i") auto
qed

lemma status_merge_states:
  assumes a: "undoes A x y" and b: "undoes B y z"
  shows "wf_lists (merge_states A B)"
    and "status (merge_states A B) i = compose_change (status A i) (status B i)"
    and "map_of (old_index_next_ids (merge_states A B)) ix
      = (case map_of (old_index_next_ids A) ix of Some k \<Rightarrow> Some k | None \<Rightarrow> map_of (old_index_next_ids B) ix)"
proof -
  have wfA: "wf_lists A" and wfB: "wf_lists B" using a b by (auto simp: undoes_def)
  have tA: "takes_back (status A j) (fst y j) (fst x j)" and tB: "takes_back (status B j) (fst z j) (fst y j)"
    for j using undoes_status [OF a] undoes_status [OF b] by auto
  note eB = undoes_entries [OF b]
  define p1 where "p1 = foldl merge_old A (old_values B)"
  define p2 where "p2 = p1\<lparr>new_ids := foldl (\<lambda>ids i. List.insert i ids) (new_ids p1) (new_ids B)\<rparr>"
  define p3 where "p3 = foldl merge_next p2 (old_index_next_ids B)"
  have m: "merge_states A B = foldl merge_removed p3 (removed B)"
    by (simp add: merge_states_def p1_def p2_def p3_def Let_def)
  have c1: "status A k \<noteq> Bad \<and> (\<forall>w. status A k \<noteq> Del w)" if "k \<in> fst ` set (old_values B)" for k
  proof -
    from that have "map_of (old_values B) k \<noteq> None" by (simp add: map_of_eq_None_iff)
    then have "fst y k \<noteq> None" using eB(2) [of k] tB [of k] by (auto split: change.splits)
    then show ?thesis using tA [of k] by (cases "status A k") auto
  qed
  have 1: "wf_lists p1 \<and> (\<forall>j. status p1 j = (case map_of (old_values B) j of None \<Rightarrow> status A j
      | Some v \<Rightarrow> (case status A j of Nop \<Rightarrow> Upd v | c \<Rightarrow> c)))
      \<and> old_index_next_ids p1 = old_index_next_ids A"
    unfolding p1_def
    by (rule foldl_status [where C = "\<lambda>c. c \<noteq> Bad \<and> (\<forall>w. c \<noteq> Del w)", OF merge_old_step])
      (use wfA wfB c1 in \<open>auto simp: wf_lists_def\<close>)
  have n2: "status p2 j = (if status B j = New then New else status p1 j)" for j
  proof (cases "status B j = New")
    case True
    then have "status p1 j = Nop"
      using new_after_nop [OF a b True] 1 eB(2) [of j] by simp
    then have "map_of (old_values p1) j = None" "map_of (removed p1) j = None"
      using status_iff [of p1 j] by auto
    moreover have "j \<in> set (new_ids B)" using eB(1) [of j] True by simp
    ultimately have "status p2 j = New" by (simp add: p2_def status_def foldl_insert_ids)
    then show ?thesis using True by simp
  next
    case False
    then have "j \<notin> set (new_ids B)" using eB(1) [of j] by simp
    then have "status p2 j = status p1 j" by (simp add: p2_def status_def foldl_insert_ids)
    then show ?thesis using False by simp
  qed
  have "wf_lists p1" using 1 by blast
  then have wf2: "wf_lists p2" by (simp add: p2_def wf_lists_def foldl_insert_ids)
  have 3: "wf_lists p3" "status p3 = status p2"
    "\<And>ix. map_of (old_index_next_ids p3) ix = (case map_of (old_index_next_ids A) ix of Some k \<Rightarrow> Some k
      | None \<Rightarrow> map_of (old_index_next_ids B) ix)"
  proof -
    have d: "distinct (map fst (old_index_next_ids B))" using wfB by (simp add: wf_lists_def)
    have "old_index_next_ids p2 = old_index_next_ids A" using 1 by (simp add: p2_def)
    with foldl_merge_next [OF wf2 d] show "wf_lists p3" "status p3 = status p2"
      "map_of (old_index_next_ids p3) ix = (case map_of (old_index_next_ids A) ix of Some k \<Rightarrow> Some k
        | None \<Rightarrow> map_of (old_index_next_ids B) ix)" for ix
      by (simp_all add: p3_def)
  qed
  have s3: "status p3 j = (case status B j of New \<Rightarrow> New
      | Upd v \<Rightarrow> (case status A j of Nop \<Rightarrow> Upd v | c \<Rightarrow> c) | _ \<Rightarrow> status A j)" for j
    using 1 n2 [of j] 3(2) eB(2) [of j] by (auto split: change.split)
  have c3: "status p3 k \<noteq> Bad \<and> (\<forall>w. status p3 k \<noteq> Del w)" if "k \<in> fst ` set (removed B)" for k
  proof -
    from that have "map_of (removed B) k \<noteq> None" by (simp add: map_of_eq_None_iff)
    then obtain v where "status B k = Del v" using eB(3) [of k] by (auto split: change.splits)
    then show ?thesis using tB [of k] tA [of k] s3 [of k] by (cases "status A k") auto
  qed
  have 4: "wf_lists (merge_states A B) \<and> (\<forall>j. status (merge_states A B) j =
      (case map_of (removed B) j of None \<Rightarrow> status p3 j
       | Some v \<Rightarrow> (case status p3 j of Nop \<Rightarrow> Del v | New \<Rightarrow> Nop | Upd w \<Rightarrow> Del w | c \<Rightarrow> c)))
      \<and> old_index_next_ids (merge_states A B) = old_index_next_ids p3"
    unfolding m
    by (rule foldl_status [where C = "\<lambda>c. c \<noteq> Bad \<and> (\<forall>w. c \<noteq> Del w)", OF merge_removed_step])
      (use 3(1) wfB c3 in \<open>auto simp: wf_lists_def\<close>)
  show "wf_lists (merge_states A B)" using 4 by blast
  show "status (merge_states A B) i = compose_change (status A i) (status B i)"
    using 4 s3 [of i] eB(3) [of i] tA [of i] tB [of i] new_after_nop [OF a b, of i]
    by (cases "status B i"; cases "status A i") auto
  show "map_of (old_index_next_ids (merge_states A B)) ix
      = (case map_of (old_index_next_ids A) ix of Some k \<Rightarrow> Some k | None \<Rightarrow> map_of (old_index_next_ids B) ix)"
    using 4 3(3) by simp
qed

lemma undoes_merge:
  assumes a: "undoes A x y" and b: "undoes B y z"
  shows "undoes (merge_states A B) x z"
proof -
  note m = status_merge_states [OF a b]
  have "takes_back (status (merge_states A B) i) (fst z i) (fst x i)" for i
    using compose_takes_back [OF undoes_status [OF a] undoes_status [OF b]] new_after_nop [OF a b, of i]
    by (auto simp: m)
  moreover have "next_back (map_of (old_index_next_ids (merge_states A B)) ix) (snd z ix) (snd x ix)" for ix
  proof -
    have "next_back (map_of (old_index_next_ids A) ix) (snd y ix) (snd x ix)"
      "next_back (map_of (old_index_next_ids B) ix) (snd z ix) (snd y ix)"
      using a b by (auto simp: undoes_def)
    then show ?thesis by (auto simp: m next_back_def split: option.splits)
  qed
  moreover have "new_fresh (merge_states A B) x"
    unfolding new_fresh_def
  proof (intro allI impI)
    fix i assume "status (merge_states A B) i = New"
    then have "status A i = New \<or> status A i = Nop \<and> status B i = New"
      by (cases "status A i"; cases "status B i") (auto simp: m)
    then show "\<exists>m. snd x (id_index i) = Some m \<and> m \<le> id_instance i"
    proof
      assume "status A i = New"
      then show ?thesis using a by (simp add: undoes_def new_fresh_def)
    next
      assume "status A i = Nop \<and> status B i = New"
      then obtain k where "snd y (id_index i) = Some k" "k \<le> id_instance i"
        using b by (auto simp: undoes_def new_fresh_def)
      with undoes_next_le [OF a, of "id_index i" k] show ?thesis by auto
    qed
  qed
  ultimately show ?thesis using a b m(1) by (simp add: undoes_def)
qed

section \<open>The session interface\<close>

text \<open>
  What the sessions promise their users, over an abstract state: \<open>ok d act com\<close> says that the
  store \<open>d\<close> can go back to each of the states \<open>act\<close> (those of the open sessions, latest
  first) and \<open>com\<close> (those of the committed ones).
\<close>

locale session_store =
  fixes state_of :: "'d \<Rightarrow> 's"
    and start :: "'d \<Rightarrow> 'd"
    and step :: "'d \<Rightarrow> 'd \<Rightarrow> bool"
    and abort :: "'d \<Rightarrow> 'd exn"
    and join :: "'d \<Rightarrow> 'd exn"
    and keep :: "'d \<Rightarrow> 'd exn"
    and pop :: "'d \<Rightarrow> 'd exn"
    and cap :: "'d \<Rightarrow> nat"
    and ok :: "'d \<Rightarrow> 's list \<Rightarrow> 's list \<Rightarrow> bool"
  assumes ok_start: "ok d act com \<Longrightarrow> length act \<le> cap d \<Longrightarrow>
      \<exists>com'. ok (start d) (state_of d # act) com'"
    and state_start: "ok d act com \<Longrightarrow> state_of (start d) = state_of d"
    and cap_start: "cap (start d) = cap d"
    and ok_step: "ok d (s # act) com \<Longrightarrow> step d d' \<Longrightarrow> ok d' (s # act) com"
    and cap_step: "step d d' \<Longrightarrow> cap d' = cap d"
    and ok_abort: "ok d (s # act) com \<Longrightarrow> \<exists>d'. abort d = Inr d' \<and> ok d' act com \<and> state_of d' = s"
    and ok_join: "ok d (s # s' # act) com \<Longrightarrow>
      \<exists>d'. join d = Inr d' \<and> ok d' (s' # act) com \<and> state_of d' = state_of d"
    and ok_keep: "ok d [s] com \<Longrightarrow> \<exists>d'. keep d = Inr d' \<and> ok d' [] (s # com) \<and> state_of d' = state_of d"
    and ok_pop: "ok d [] (s # com) \<Longrightarrow> \<exists>d'. pop d = Inr d' \<and> ok d' [] com \<and> state_of d' = s"
begin

lemma ok_steps: "step\<^sup>*\<^sup>* d d' \<Longrightarrow> ok d (s # act) com \<Longrightarrow> ok d' (s # act) com \<and> cap d' = cap d"
  by (induction rule: rtranclp_induct) (auto simp: ok_step cap_step)

lemma abort_restores:
  assumes "ok d act com" "length act \<le> cap d" "step\<^sup>*\<^sup>* (start d) d1"
  shows "\<exists>d2 com'. abort d1 = Inr d2 \<and> state_of d2 = state_of d \<and> ok d2 act com'"
  using ok_start [OF assms(1,2)] ok_steps [OF assms(3)] ok_abort by metis

lemma join_then_abort:
  assumes "ok d act com" "length act < cap d" "step\<^sup>*\<^sup>* (start d) d1" "step\<^sup>*\<^sup>* (start d1) d2"
  shows "\<exists>d3. join d2 = Inr d3 \<and> state_of d3 = state_of d2
    \<and> (\<forall>d4. step\<^sup>*\<^sup>* d3 d4 \<longrightarrow> (\<exists>d5. abort d4 = Inr d5 \<and> state_of d5 = state_of d))"
proof -
  obtain c1 where "ok (start d) (state_of d # act) c1" using ok_start [of d act com] assms by auto
  then have o1: "ok d1 (state_of d # act) c1" and c: "cap d1 = cap d"
    using ok_steps [OF assms(3)] cap_start by auto
  then obtain c2 where "ok (start d1) (state_of d1 # state_of d # act) c2"
    using ok_start [OF o1] assms(2) by auto
  then have "ok d2 (state_of d1 # state_of d # act) c2" using ok_steps [OF assms(4)] by simp
  then obtain d3 where d3: "join d2 = Inr d3" "ok d3 (state_of d # act) c2" "state_of d3 = state_of d2"
    using ok_join by blast
  then show ?thesis using ok_steps ok_abort by metis
qed

lemma keep_then_pop:
  assumes "ok d [] com" "step\<^sup>*\<^sup>* (start d) d1"
  shows "\<exists>d2 d3. keep d1 = Inr d2 \<and> state_of d2 = state_of d1 \<and> pop d2 = Inr d3 \<and> state_of d3 = state_of d"
  using ok_start [OF assms(1)] ok_steps [OF assms(2)] ok_keep ok_pop by (metis le0 list.size(3))

end

section \<open>The undo database provides it\<close>

inductive mutates :: "'v object_database \<Rightarrow> 'v object_database \<Rightarrow> bool" where
  creates: "create_object ix f db = Inr (i, db') \<Longrightarrow> mutates db db'"
| modifies: "modify_object i m db = Inr db' \<Longrightarrow> mutates db db'"
| removes: "remove_object i db = Inr db' \<Longrightarrow> mutates db db'"

definition sessions_ok :: "'v object_database \<Rightarrow> 'v snapshot list \<Rightarrow> 'v snapshot list \<Rightarrow> bool" where
  "sessions_ok db act com \<longleftrightarrow> tracks db (act @ com) \<and> active_sessions db = length act \<and> \<not> undo_disabled db"

lemma chain_bounded: "chain ss sns cur \<Longrightarrow> ids_bounded cur"
  by (cases "(ss, sns, cur)" rule: chain.cases) (auto simp: undoes_def)

lemma chain_take: "chain ss sns cur \<Longrightarrow> chain (take n ss) (take n sns) cur"
proof (induction ss sns cur arbitrary: n rule: chain.induct)
  case (1 cur)
  then show ?case by simp
next
  case (2 s ss sn sns cur)
  then show ?case by (cases n) (auto simp: undoes_def)
qed simp_all

lemma chain_Cons: "chain ss (sn # sns) cur \<longleftrightarrow> (\<exists>s ss'. ss = s # ss' \<and> undoes s sn cur \<and> chain ss' sns sn)"
  by (cases ss) auto

lemma mutates_frame:
  "mutates db db' \<Longrightarrow> undo_max_size db' = undo_max_size db \<and> active_sessions db' = active_sessions db
     \<and> undo_disabled db' = undo_disabled db"
  by (induction rule: mutates.induct)
    (auto simp: create_object_def modify_object_def remove_object_def on_create_def on_modify_def
      on_remove_def map_top_def ensure_state_def Let_def split: if_splits)

lemma mutates_tracks:
  assumes "mutates db db'" "tracks db (sn # sns)" "\<not> undo_disabled db"
  shows "tracks db' (sn # sns)"
proof -
  obtain s ss where st: "undo_stack db = s # ss" "undoes s sn (objects db, next_ids db)" "chain ss sns sn"
    using assms(2) by (auto simp: tracks_def chain_Cons snapshot_def)
  show ?thesis
    using assms(1)
  proof cases
    case (creates ix f i)
    then show ?thesis using st assms(3) undoes_create [OF st(2)]
      by (auto simp: create_object_def Let_def on_create_def ensure_state_def map_top_def tracks_def snapshot_def)
  next
    case (modifies i m)
    then show ?thesis using st assms(3) undoes_modify [OF st(2)]
      by (auto simp: modify_object_def Let_def on_modify_def ensure_state_def map_top_def tracks_def snapshot_def)
  next
    case (removes i)
    then show ?thesis using st assms(3) undoes_remove [OF st(2)]
      by (auto simp: remove_object_def Let_def on_remove_def ensure_state_def map_top_def tracks_def snapshot_def)
  qed
qed

lemma sessions_start:
  assumes "sessions_ok db act com" "length act \<le> undo_max_size db"
  shows "\<exists>com'. sessions_ok (snd (start_undo_session False db)) (snapshot db # act) com'"
proof -
  have c: "chain (undo_stack db) (act @ com) (snapshot db)" and e: "\<not> undo_disabled db"
    and n: "active_sessions db = length act" using assms(1) by (auto simp: sessions_ok_def tracks_def)
  have "chain (take (undo_max_size db) (undo_stack db)) (act @ take (undo_max_size db - length act) com) (snapshot db)"
    using chain_take [OF c, of "undo_max_size db"] assms(2) by simp
  with undoes_empty [OF chain_bounded [OF c]] e n
  have "sessions_ok (snd (start_undo_session False db)) (snapshot db # act)
      (take (undo_max_size db - length act) com)"
    by (simp add: sessions_ok_def tracks_def start_undo_session_def Let_def snapshot_def)
  then show ?thesis ..
qed

lemma sessions_abort:
  assumes "sessions_ok db (sn # act) com"
  shows "\<exists>db'. undo db = Inr db' \<and> sessions_ok db' act com \<and> snapshot db' = sn"
proof -
  obtain s ss where st: "undo_stack db = s # ss" "undoes s sn (snapshot db)" "chain ss (act @ com) sn"
    using assms by (auto simp: sessions_ok_def tracks_def chain_Cons)
  have "undoes s sn (snapshot (undo_disable db))" using st(2) by (simp add: snapshot_def undo_disable_def)
  from rollback_restores [OF this] assms st show ?thesis
    by (simp add: undo_def undo_disable_def undo_enable_def sessions_ok_def tracks_def snapshot_def)
qed

lemma sessions_pop:
  assumes "sessions_ok db [] (sn # com)"
  shows "\<exists>db'. pop_commit db = Inr db' \<and> sessions_ok db' [] com \<and> snapshot db' = sn"
proof -
  obtain s ss where st: "undo_stack db = s # ss" "undoes s sn (snapshot db)" "chain ss com sn"
    using assms by (auto simp: sessions_ok_def tracks_def chain_Cons)
  have "undoes s sn (snapshot (undo_disable db))" using st(2) by (simp add: snapshot_def undo_disable_def)
  from rollback_restores [OF this] assms st show ?thesis
    by (simp add: pop_commit_def undo_disable_def undo_enable_def sessions_ok_def tracks_def snapshot_def)
qed

lemma sessions_join:
  assumes "sessions_ok db (sn # sn' # act) com"
  shows "\<exists>db'. merge db = Inr db' \<and> sessions_ok db' (sn' # act) com \<and> snapshot db' = snapshot db"
proof -
  obtain s p ss where st: "undo_stack db = s # p # ss" "undoes s sn (snapshot db)" "undoes p sn' sn"
    "chain ss (act @ com) sn'"
    using assms by (auto simp: sessions_ok_def tracks_def chain_Cons)
  with undoes_merge [OF st(3,2)] assms show ?thesis
    by (simp add: merge_def sessions_ok_def tracks_def snapshot_def)
qed

interpretation undo_db: session_store snapshot "\<lambda>db. snd (start_undo_session False db)" mutates undo merge
  commit pop_commit undo_max_size sessions_ok
proof
  fix db db' :: "'v object_database" and act com :: "'v snapshot list" and sn sn' :: "'v snapshot"
  show "sessions_ok db act com \<Longrightarrow> length act \<le> undo_max_size db \<Longrightarrow>
      \<exists>com'. sessions_ok (snd (start_undo_session False db)) (snapshot db # act) com'"
    by (rule sessions_start)
  show "sessions_ok db act com \<Longrightarrow> snapshot (snd (start_undo_session False db)) = snapshot db"
    by (simp add: start_undo_session_def snapshot_def Let_def)
  show "undo_max_size (snd (start_undo_session False db)) = undo_max_size db"
    by (simp add: start_undo_session_def Let_def)
  show "sessions_ok db (sn # act) com \<Longrightarrow> mutates db db' \<Longrightarrow> sessions_ok db' (sn # act) com"
    using mutates_tracks [of db db' sn "act @ com"] mutates_frame [of db db'] by (auto simp: sessions_ok_def)
  show "mutates db db' \<Longrightarrow> undo_max_size db' = undo_max_size db" using mutates_frame by blast
  show "sessions_ok db (sn # act) com \<Longrightarrow> \<exists>d'. undo db = Inr d' \<and> sessions_ok d' act com \<and> snapshot d' = sn"
    by (rule sessions_abort)
  show "sessions_ok db (sn # sn' # act) com \<Longrightarrow>
      \<exists>d'. merge db = Inr d' \<and> sessions_ok d' (sn' # act) com \<and> snapshot d' = snapshot db"
    by (rule sessions_join)
  show "sessions_ok db [sn] com \<Longrightarrow>
      \<exists>d'. commit db = Inr d' \<and> sessions_ok d' [] (sn # com) \<and> snapshot d' = snapshot db"
    by (simp add: commit_def sessions_ok_def tracks_def snapshot_def)
  show "sessions_ok db [] (sn # com) \<Longrightarrow> \<exists>d'. pop_commit db = Inr d' \<and> sessions_ok d' [] com \<and> snapshot d' = sn"
    by (rule sessions_pop)
qed

section \<open>Properties\<close>

text \<open>A store with one index, one object and no session, on which the properties are exercised.\<close>

definition demo_index :: index_id where
  "demo_index = Index_id 1 2"

definition demo_db :: "nat object_database" where
  "demo_db = (add_index demo_index init_object_database)
     \<lparr>objects := [Object_id demo_index 0 \<mapsto> 10], next_ids := [demo_index \<mapsto> 1]\<rparr>"

lemma demo_db_ok: "sessions_ok demo_db [] []"
  by (simp add: sessions_ok_def tracks_def demo_db_def add_index_def init_object_database_def snapshot_def
      ids_bounded_def)

text \<open>C2: A session undone takes the store back exactly: after \<open>start_undo_session\<close> and any sequence of
  object creations, modifications and removals, \<open>undo\<close> succeeds and gives every object and every
  id counter the value it had when the session started.\<close>

theorem undo_restores_store:
  assumes "sessions_ok db act com" "length act \<le> undo_max_size db"
    and "mutates\<^sup>*\<^sup>* (snd (start_undo_session False db)) db1"
  shows "\<exists>db2. undo db1 = Inr db2 \<and> objects db2 = objects db \<and> next_ids db2 = next_ids db
    \<and> active_sessions db2 = active_sessions db \<and> (\<exists>com'. sessions_ok db2 act com')"
  using undo_db.abort_restores [OF assms] assms(1) by (auto simp: snapshot_def sessions_ok_def)

theorem undo_restores_store_witness:
  "\<exists>db1 db2. modify_object (Object_id demo_index 0) (\<lambda>v. v + 5) (snd (start_undo_session False demo_db)) = Inr db1
    \<and> objects db1 (Object_id demo_index 0) = Some 15
    \<and> undo db1 = Inr db2 \<and> objects db2 = objects demo_db \<and> next_ids db2 = next_ids demo_db"
proof -
  let ?d = "snd (start_undo_session False demo_db)"
  have "\<exists>db1. modify_object (Object_id demo_index 0) (\<lambda>v. v + 5) ?d = Inr db1
      \<and> objects db1 (Object_id demo_index 0) = Some 15"
    by (simp add: start_undo_session_def demo_db_def modify_object_def add_index_def init_object_database_def
        Let_def on_modify_def map_top_def ensure_state_def get_object_def find_object_def)
  then obtain db1 where m: "modify_object (Object_id demo_index 0) (\<lambda>v. v + 5) ?d = Inr db1"
    "objects db1 (Object_id demo_index 0) = Some 15" by blast
  have "mutates\<^sup>*\<^sup>* ?d db1" using m(1) by (auto intro: mutates.modifies)
  from undo_restores_store [OF demo_db_ok _ this] m show ?thesis by auto
qed

text \<open>C19: Merging a nested session keeps the current objects and hands its undo information to the
  enclosing session: whatever happens afterwards, undoing the outer session takes the store back
  to where the outer session started. This is the matrix in the comment of \<open>merge\<close>.\<close>

theorem merge_then_undo_restores_store:
  assumes "sessions_ok db act com" "length act < undo_max_size db"
    and "mutates\<^sup>*\<^sup>* (snd (start_undo_session False db)) db1"
    and "mutates\<^sup>*\<^sup>* (snd (start_undo_session False db1)) db2"
  shows "\<exists>db3. merge db2 = Inr db3 \<and> objects db3 = objects db2 \<and> next_ids db3 = next_ids db2
    \<and> (\<forall>db4. mutates\<^sup>*\<^sup>* db3 db4 \<longrightarrow>
        (\<exists>db5. undo db4 = Inr db5 \<and> objects db5 = objects db \<and> next_ids db5 = next_ids db))"
  using undo_db.join_then_abort [OF assms] by (auto simp: snapshot_def)

theorem merge_then_undo_restores_store_witness:
  "\<exists>db3 db5. merge (snd (start_undo_session False (snd (start_undo_session False demo_db)))) = Inr db3
    \<and> undo db3 = Inr db5 \<and> objects db5 = objects demo_db"
proof -
  have "length [] < undo_max_size demo_db" by (simp add: demo_db_def add_index_def init_object_database_def)
  from merge_then_undo_restores_store [OF demo_db_ok this rtranclp.rtrancl_refl rtranclp.rtrancl_refl]
  show ?thesis by blast
qed

text \<open>A committed session can be popped: with no session open, \<open>pop_commit\<close> after a committed
  session takes the store back to where that session started, and committing changes no object.\<close>

theorem pop_commit_restores_store:
  assumes "sessions_ok db [] com" "mutates\<^sup>*\<^sup>* (snd (start_undo_session False db)) db1"
  shows "\<exists>db2 db3. commit db1 = Inr db2 \<and> objects db2 = objects db1 \<and> next_ids db2 = next_ids db1
    \<and> pop_commit db2 = Inr db3 \<and> objects db3 = objects db \<and> next_ids db3 = next_ids db"
  using undo_db.keep_then_pop [OF assms] by (auto simp: snapshot_def)

theorem pop_commit_restores_store_witness:
  "\<exists>db2 db3. commit (snd (start_undo_session False demo_db)) = Inr db2 \<and> pop_commit db2 = Inr db3
    \<and> objects db3 = objects demo_db"
  using pop_commit_restores_store [OF demo_db_ok rtranclp.rtrancl_refl] by blast

text \<open>A session requested while undo is disabled (and not force-enabled) is handed out as if it
  were live, but nothing can be done with it: with no other session open its \<open>commit\<close> and
  \<open>merge\<close> throw, and so do its \<open>undo\<close> and its destructor.\<close>

theorem disabled_session_unusable:
  assumes "undo_disabled db" "active_sessions db = 0" "start_undo_session False db = sd"
  shows "snd sd = db \<and> apply_undo (fst sd)
    \<and> session_commit sd = Inl (assert_exception ''_active_sessions > 0'')
    \<and> session_merge sd = Inl (assert_exception ''_active_sessions > 0'')
    \<and> session_undo sd = Inl (assert_exception ''!_disabled'')
    \<and> session_destroy sd = Inl (assert_exception ''!_disabled'')"
  using assms
  by (auto simp: start_undo_session_def session_commit_def session_merge_def session_undo_def
      session_destroy_def commit_def merge_def undo_def)

theorem disabled_session_unusable_witness:
  "session_commit (start_undo_session False (undo_disable demo_db))
    = Inl (assert_exception ''_active_sessions > 0'')"
  using disabled_session_unusable [of "undo_disable demo_db", OF _ _ refl]
  by (simp add: undo_disable_def demo_db_def add_index_def init_object_database_def)

end
