(* ===== verification/Vesting.thy ===== *)
theory Vesting
  imports Asset
begin

text \<open>
  Vesting balances: \<^verbatim>\<open>vesting_balance_object.hpp\<close> and \<^verbatim>\<open>vesting_balance_object.cpp\<close>. A vesting balance is
  locked under one of two policies: linear vesting with a cliff, or coin-days-destroyed vesting,
  which accrues coin seconds up to a cap. The visitors of the source dispatch on the variant; here
  each operation is a \<open>case\<close> on \<open>vesting_policy\<close>. \<^verbatim>\<open>assert\<close> (compiled out of release builds) is
  not a branch; \<^verbatim>\<open>FC_ASSERT\<close> and \<^verbatim>\<open>FC_THROW\<close> are.
\<close>

section \<open>Policies\<close>

record vesting_policy_context =
  ctx_balance :: asset
  ctx_now :: time_point_sec
  ctx_amount :: asset

record linear_vesting_policy =
  begin_timestamp :: time_point_sec
  vesting_cliff_seconds :: nat
  vesting_duration_seconds :: nat
  begin_balance :: share_type

record cdd_vesting_policy =
  vesting_seconds :: nat
  coin_seconds_earned :: uint128
  start_claim :: time_point_sec
  coin_seconds_earned_last_update :: time_point_sec

datatype vesting_policy = Linear linear_vesting_policy | Cdd cdd_vesting_policy

record vesting_balance_object =
  vb_owner :: account_id_type
  vb_balance :: asset
  vb_policy :: vesting_policy

text \<open>A product of \<^verbatim>\<open>int64_t\<close> values, as compiled: the low 64 bits, read as a signed number.\<close>

definition wrap64 :: "int \<Rightarrow> int" where
  "wrap64 x = sint (word_of_int x :: 64 word)"

definition sum_below_max_shares :: "asset \<Rightarrow> asset \<Rightarrow> bool exn" where
  "sum_below_max_shares a b =
     (if amount a \<le> GRAPHENE_MAX_SHARE_SUPPLY \<and> amount b \<le> GRAPHENE_MAX_SHARE_SUPPLY
      then bindE (safe_add (amount a) (amount b)) (\<lambda>s. Inr (s \<le> GRAPHENE_MAX_SHARE_SUPPLY))
      else Inr False)"

section \<open>Linear vesting\<close>

definition linear_total_vested :: "linear_vesting_policy \<Rightarrow> int \<Rightarrow> share_type" where
  "linear_total_vested p elapsed =
     (if elapsed < int (vesting_duration_seconds p)
      then uint (u128 (begin_balance p) * u128 elapsed div u128 (int (vesting_duration_seconds p)))
      else begin_balance p)"

definition linear_get_allowed_withdraw :: "linear_vesting_policy \<Rightarrow> vesting_policy_context \<Rightarrow> asset exn" where
  "linear_get_allowed_withdraw p ctx =
     (if ctx_now ctx > begin_timestamp p then
        let elapsed_seconds = int (ctx_now ctx) - int (begin_timestamp p) in
        if elapsed_seconds \<ge> int (vesting_cliff_seconds p) then
          let total_vested = linear_total_vested p elapsed_seconds in
          bindE (safe_sub (begin_balance p) (amount (ctx_balance ctx))) (\<lambda>withdrawn_already.
          bindE (safe_sub total_vested withdrawn_already) (\<lambda>allowed.
          Inr (mk_asset allowed (asset_id (ctx_balance ctx)))))
        else Inr (mk_asset 0 (asset_id (ctx_balance ctx)))
      else Inr (mk_asset 0 (asset_id (ctx_balance ctx))))"

definition linear_is_deposit_allowed :: "linear_vesting_policy \<Rightarrow> vesting_policy_context \<Rightarrow> bool exn" where
  "linear_is_deposit_allowed p ctx =
     (if asset_id (ctx_amount ctx) = asset_id (ctx_balance ctx)
      then sum_below_max_shares (ctx_amount ctx) (ctx_balance ctx) else Inr False)"

definition linear_is_withdraw_allowed :: "linear_vesting_policy \<Rightarrow> vesting_policy_context \<Rightarrow> bool exn" where
  "linear_is_withdraw_allowed p ctx =
     (if asset_id (ctx_amount ctx) = asset_id (ctx_balance ctx)
      then bindE (linear_get_allowed_withdraw p ctx) (\<lambda>a. asset_le (ctx_amount ctx) a) else Inr False)"

section \<open>Coin-days-destroyed vesting\<close>

definition vesting_divisor :: "cdd_vesting_policy \<Rightarrow> int" where
  "vesting_divisor p = int (max (vesting_seconds p) 1)"

definition compute_coin_seconds_earned :: "cdd_vesting_policy \<Rightarrow> vesting_policy_context \<Rightarrow> uint128" where
  "compute_coin_seconds_earned p ctx =
     (let delta_seconds = int (ctx_now ctx) - int (coin_seconds_earned_last_update p);
          delta_coin_seconds = u128 (amount (ctx_balance ctx)) * u128 delta_seconds;
          coin_seconds_earned_cap = u128 (amount (ctx_balance ctx)) * u128 (vesting_divisor p)
      in min (coin_seconds_earned p + delta_coin_seconds) coin_seconds_earned_cap)"

definition update_coin_seconds_earned ::
  "cdd_vesting_policy \<Rightarrow> vesting_policy_context \<Rightarrow> cdd_vesting_policy" where
  "update_coin_seconds_earned p ctx =
     p\<lparr>coin_seconds_earned := compute_coin_seconds_earned p ctx,
       coin_seconds_earned_last_update := ctx_now ctx\<rparr>"

definition cdd_get_allowed_withdraw :: "cdd_vesting_policy \<Rightarrow> vesting_policy_context \<Rightarrow> asset" where
  "cdd_get_allowed_withdraw p ctx =
     (if ctx_now ctx \<le> start_claim p then mk_asset 0 (asset_id (ctx_balance ctx))
      else
        let cs_earned = compute_coin_seconds_earned p ctx;
            withdraw_available = cs_earned div u128 (vesting_divisor p)
        in mk_asset (uint withdraw_available) (asset_id (ctx_balance ctx)))"

definition cdd_on_deposit :: "cdd_vesting_policy \<Rightarrow> vesting_policy_context \<Rightarrow> cdd_vesting_policy" where
  "cdd_on_deposit p ctx = update_coin_seconds_earned p ctx"

definition cdd_on_deposit_vested :: "cdd_vesting_policy \<Rightarrow> vesting_policy_context \<Rightarrow> cdd_vesting_policy" where
  "cdd_on_deposit_vested p ctx =
     (let p' = cdd_on_deposit p ctx
      in p'\<lparr>coin_seconds_earned := coin_seconds_earned p'
              + u128 (wrap64 (amount (ctx_amount ctx) * vesting_divisor p'))\<rparr>)"

definition cdd_on_withdraw :: "cdd_vesting_policy \<Rightarrow> vesting_policy_context \<Rightarrow> cdd_vesting_policy" where
  "cdd_on_withdraw p ctx =
     (let p' = update_coin_seconds_earned p ctx;
          coin_seconds_needed = u128 (amount (ctx_amount ctx)) * u128 (vesting_divisor p')
      in p'\<lparr>coin_seconds_earned := coin_seconds_earned p' - coin_seconds_needed\<rparr>)"

definition cdd_is_deposit_allowed :: "cdd_vesting_policy \<Rightarrow> vesting_policy_context \<Rightarrow> bool exn" where
  "cdd_is_deposit_allowed p ctx =
     (if asset_id (ctx_amount ctx) = asset_id (ctx_balance ctx)
      then sum_below_max_shares (ctx_amount ctx) (ctx_balance ctx) else Inr False)"

definition cdd_is_withdraw_allowed :: "cdd_vesting_policy \<Rightarrow> vesting_policy_context \<Rightarrow> bool exn" where
  "cdd_is_withdraw_allowed p ctx = asset_le (ctx_amount ctx) (cdd_get_allowed_withdraw p ctx)"

section \<open>Vesting balance objects\<close>

definition vb_ctx :: "vesting_balance_object \<Rightarrow> time_point_sec \<Rightarrow> asset \<Rightarrow> vesting_policy_context" where
  "vb_ctx v now a = \<lparr>ctx_balance = vb_balance v, ctx_now = now, ctx_amount = a\<rparr>"

definition on_deposit_visitor :: "vesting_policy \<Rightarrow> vesting_policy_context \<Rightarrow> vesting_policy" where
  "on_deposit_visitor pol ctx =
     (case pol of Linear p \<Rightarrow> Linear p | Cdd p \<Rightarrow> Cdd (cdd_on_deposit p ctx))"

definition on_deposit_vested_visitor :: "vesting_policy \<Rightarrow> vesting_policy_context \<Rightarrow> vesting_policy exn" where
  "on_deposit_vested_visitor pol ctx =
     (case pol of
        Linear p \<Rightarrow> Inl (chain_exception ''May not deposit vested into a linear vesting balance.'')
      | Cdd p \<Rightarrow> Inr (Cdd (cdd_on_deposit_vested p ctx)))"

definition on_withdraw_visitor :: "vesting_policy \<Rightarrow> vesting_policy_context \<Rightarrow> vesting_policy" where
  "on_withdraw_visitor pol ctx =
     (case pol of Linear p \<Rightarrow> Linear p | Cdd p \<Rightarrow> Cdd (cdd_on_withdraw p ctx))"

definition vb_is_deposit_allowed :: "vesting_balance_object \<Rightarrow> time_point_sec \<Rightarrow> asset \<Rightarrow> bool exn" where
  "vb_is_deposit_allowed v now a =
     (case vb_policy v of Linear p \<Rightarrow> linear_is_deposit_allowed p (vb_ctx v now a)
      | Cdd p \<Rightarrow> cdd_is_deposit_allowed p (vb_ctx v now a))"

definition vb_is_deposit_vested_allowed :: "vesting_balance_object \<Rightarrow> time_point_sec \<Rightarrow> asset \<Rightarrow> bool exn" where
  "vb_is_deposit_vested_allowed v now a =
     (case vb_policy v of Linear p \<Rightarrow> Inr False
      | Cdd p \<Rightarrow> cdd_is_deposit_allowed p (vb_ctx v now a))"

definition vb_is_withdraw_allowed :: "vesting_balance_object \<Rightarrow> time_point_sec \<Rightarrow> asset \<Rightarrow> bool exn" where
  "vb_is_withdraw_allowed v now a =
     (case vb_policy v of Linear p \<Rightarrow> linear_is_withdraw_allowed p (vb_ctx v now a)
      | Cdd p \<Rightarrow> cdd_is_withdraw_allowed p (vb_ctx v now a))"

definition vb_deposit ::
  "vesting_balance_object \<Rightarrow> time_point_sec \<Rightarrow> asset \<Rightarrow> vesting_balance_object exn" where
  "vb_deposit v now a =
     (let pol = on_deposit_visitor (vb_policy v) (vb_ctx v now a) in
      bindE (asset_add (vb_balance v) a) (\<lambda>b. Inr (v\<lparr>vb_policy := pol, vb_balance := b\<rparr>)))"

definition vb_deposit_vested ::
  "vesting_balance_object \<Rightarrow> time_point_sec \<Rightarrow> asset \<Rightarrow> vesting_balance_object exn" where
  "vb_deposit_vested v now a =
     bindE (on_deposit_vested_visitor (vb_policy v) (vb_ctx v now a)) (\<lambda>pol.
     bindE (asset_add (vb_balance v) a) (\<lambda>b. Inr (v\<lparr>vb_policy := pol, vb_balance := b\<rparr>)))"

definition vb_withdraw ::
  "vesting_balance_object \<Rightarrow> time_point_sec \<Rightarrow> asset \<Rightarrow> vesting_balance_object exn" where
  "vb_withdraw v now a =
     (let pol = on_withdraw_visitor (vb_policy v) (vb_ctx v now a) in
      bindE (asset_sub (vb_balance v) a) (\<lambda>b. Inr (v\<lparr>vb_policy := pol, vb_balance := b\<rparr>)))"

definition vb_get_allowed_withdraw :: "vesting_balance_object \<Rightarrow> time_point_sec \<Rightarrow> asset exn" where
  "vb_get_allowed_withdraw v now =
     (case vb_policy v of
        Linear p \<Rightarrow> linear_get_allowed_withdraw p (vb_ctx v now (mk_asset 0 0))
      | Cdd p \<Rightarrow> Inr (cdd_get_allowed_withdraw p (vb_ctx v now (mk_asset 0 0))))"

section \<open>What a policy promises\<close>

text \<open>
  Both policies keep one contract towards withdrawals, stated over the balance \<open>b\<close> and the time:
  what is allowed is between zero and the balance, waiting never takes allowance away, and a
  withdrawal of \<open>x\<close> at one time lowers every later allowance by at least \<open>x\<close>.
\<close>

locale withdraw_policy =
  fixes ok :: "'p \<Rightarrow> int \<Rightarrow> nat \<Rightarrow> bool"
    and allowed :: "'p \<Rightarrow> int \<Rightarrow> nat \<Rightarrow> int"
    and after :: "'p \<Rightarrow> int \<Rightarrow> nat \<Rightarrow> int \<Rightarrow> 'p"
  assumes allowed_nonneg: "ok p b now \<Longrightarrow> 0 \<le> allowed p b now"
    and allowed_le: "ok p b now \<Longrightarrow> allowed p b now \<le> b"
    and ok_later: "ok p b now \<Longrightarrow> now \<le> t \<Longrightarrow> t < 2 ^ 32 \<Longrightarrow> ok p b t"
    and allowed_later: "ok p b now \<Longrightarrow> now \<le> t \<Longrightarrow> t < 2 ^ 32 \<Longrightarrow> allowed p b now \<le> allowed p b t"
    and ok_after: "ok p b now \<Longrightarrow> 0 \<le> x \<Longrightarrow> x \<le> allowed p b now \<Longrightarrow> ok (after p b now x) (b - x) now"
    and allowed_after: "ok p b now \<Longrightarrow> 0 \<le> x \<Longrightarrow> x \<le> allowed p b now \<Longrightarrow> now \<le> t \<Longrightarrow> t < 2 ^ 32 \<Longrightarrow>
      allowed (after p b now x) (b - x) t \<le> allowed p b t - x"
begin

text \<open>What is drawn at one time and what may be drawn at any later time were all allowed at the later time.\<close>

lemma draw_then_later:
  assumes "ok p b now" "now \<le> t" "t \<le> T" "T < 2 ^ 32" "0 \<le> x" "x \<le> allowed p b t" "y \<le> allowed (after p b t x) (b - x) T"
  shows "x + y \<le> allowed p b T" "ok (after p b t x) (b - x) t"
proof -
  have ok: "ok p b t" using ok_later [OF assms(1,2)] assms(3,4) by simp
  show "x + y \<le> allowed p b T" using allowed_after [OF ok assms(5,6,3,4)] assms(7) by linarith
  show "ok (after p b t x) (b - x) t" by (rule ok_after [OF ok assms(5,6)])
qed

end

section \<open>Coin-days-destroyed vesting keeps the contract\<close>

definition cdd_ok :: "cdd_vesting_policy \<Rightarrow> int \<Rightarrow> nat \<Rightarrow> bool" where
  "cdd_ok p b now \<longleftrightarrow> 0 \<le> b \<and> b \<le> GRAPHENE_MAX_SHARE_SUPPLY \<and> vesting_seconds p < 2 ^ 32
     \<and> coin_seconds_earned_last_update p \<le> now \<and> now < 2 ^ 32
     \<and> uint (coin_seconds_earned p) \<le> b * vesting_divisor p"

definition coin_seconds_at :: "cdd_vesting_policy \<Rightarrow> int \<Rightarrow> nat \<Rightarrow> int" where
  "coin_seconds_at p b t =
     min (uint (coin_seconds_earned p) + b * (int t - int (coin_seconds_earned_last_update p)))
         (b * vesting_divisor p)"

definition mk_ctx :: "int \<Rightarrow> asset_id_type \<Rightarrow> nat \<Rightarrow> int \<Rightarrow> vesting_policy_context" where
  "mk_ctx b i now x = \<lparr>ctx_balance = mk_asset b i, ctx_now = now, ctx_amount = mk_asset x i\<rparr>"

lemma divisor_bounds: "vesting_seconds p < 2 ^ 32 \<Longrightarrow> 1 \<le> vesting_divisor p \<and> vesting_divisor p \<le> 4294967296"
  by (simp add: vesting_divisor_def max_def)

lemma coin_seconds_bounds:
  assumes "cdd_ok p b t"
  shows "0 \<le> coin_seconds_at p b t" "coin_seconds_at p b t \<le> b * vesting_divisor p"
    "coin_seconds_at p b t < 2 ^ 127" "b * vesting_divisor p < 2 ^ 127"
proof -
  have d: "1 \<le> vesting_divisor p" "vesting_divisor p \<le> 4294967296"
    using assms divisor_bounds by (auto simp: cdd_ok_def)
  have b: "0 \<le> b" "b \<le> 1000000000000000" using assms by (auto simp: cdd_ok_def GRAPHENE_MAX_SHARE_SUPPLY_def)
  show "0 \<le> coin_seconds_at p b t" "coin_seconds_at p b t \<le> b * vesting_divisor p"
    using assms b d by (auto simp: coin_seconds_at_def cdd_ok_def)
  have "b * vesting_divisor p \<le> 1000000000000000 * 4294967296" using b d by (intro mult_mono) auto
  then show "b * vesting_divisor p < 2 ^ 127" by simp
  then show "coin_seconds_at p b t < 2 ^ 127" using \<open>coin_seconds_at p b t \<le> b * vesting_divisor p\<close> by linarith
qed

lemma uint_compute:
  assumes "cdd_ok p b t"
  shows "uint (compute_coin_seconds_earned p (mk_ctx b i t x)) = coin_seconds_at p b t"
proof -
  let ?D = "vesting_divisor p" and ?d = "int t - int (coin_seconds_earned_last_update p)"
  have d: "1 \<le> ?D" "?D \<le> 4294967296" using assms divisor_bounds by (auto simp: cdd_ok_def)
  have b: "0 \<le> b" "b \<le> 1000000000000000" and e: "0 \<le> ?d" "?d \<le> 4294967296"
    using assms by (auto simp: cdd_ok_def GRAPHENE_MAX_SHARE_SUPPLY_def)
  have c: "uint (u128 b * u128 ?D) = b * ?D" and w: "uint (u128 b * u128 ?d) = b * ?d"
    using b d e by (auto intro!: u128_mult_small)
  have "b * ?D \<le> 1000000000000000 * 4294967296" using b d by (intro mult_mono) simp_all
  moreover have "b * ?d \<le> 1000000000000000 * 4294967296" using b e by (intro mult_mono) simp_all
  ultimately have "uint (coin_seconds_earned p) + uint (u128 b * u128 ?d) < 2 ^ LENGTH(128)"
    using assms w by (simp add: cdd_ok_def)
  then have "uint (coin_seconds_earned p + u128 b * u128 ?d) = uint (coin_seconds_earned p) + b * ?d"
    using uint_add_lem [of "coin_seconds_earned p" "u128 b * u128 ?d"] w by simp
  then show ?thesis using c
    by (simp add: compute_coin_seconds_earned_def coin_seconds_at_def mk_ctx_def Let_def min_def word_le_def)
qed

definition cdd_allowed :: "cdd_vesting_policy \<Rightarrow> int \<Rightarrow> nat \<Rightarrow> int" where
  "cdd_allowed p b t = amount (cdd_get_allowed_withdraw p (mk_ctx b 0 t 0))"

definition cdd_after :: "cdd_vesting_policy \<Rightarrow> int \<Rightarrow> nat \<Rightarrow> int \<Rightarrow> cdd_vesting_policy" where
  "cdd_after p b t x = cdd_on_withdraw p (mk_ctx b 0 t x)"

lemma cdd_allowed_eq:
  assumes "cdd_ok p b t"
  shows "cdd_allowed p b t = (if t \<le> start_claim p then 0 else coin_seconds_at p b t div vesting_divisor p)"
proof -
  have "uint (u128 (vesting_divisor p)) = vesting_divisor p"
    using assms divisor_bounds [of p] by (intro uint_u128_small) (auto simp: cdd_ok_def)
  then show ?thesis using uint_compute [OF assms, of 0 0]
    by (simp add: cdd_allowed_def cdd_get_allowed_withdraw_def Let_def uint_div_distrib mk_ctx_def)
qed

lemma cdd_after_eq:
  assumes ok: "cdd_ok p b t" and x: "0 \<le> x" "x * vesting_divisor p \<le> coin_seconds_at p b t"
  shows "uint (coin_seconds_earned (cdd_after p b t x)) = coin_seconds_at p b t - x * vesting_divisor p"
    and "coin_seconds_earned_last_update (cdd_after p b t x) = t"
    and "vesting_divisor (cdd_after p b t x) = vesting_divisor p"
    and "vesting_seconds (cdd_after p b t x) = vesting_seconds p"
    and "start_claim (cdd_after p b t x) = start_claim p"
proof -
  let ?D = "vesting_divisor p"
  have d: "1 \<le> ?D" "?D \<le> 4294967296" using ok divisor_bounds by (auto simp: cdd_ok_def)
  have b: "0 \<le> b" "b \<le> 1000000000000000" using ok by (auto simp: cdd_ok_def GRAPHENE_MAX_SHARE_SUPPLY_def)
  have "x * ?D \<le> b * ?D" using coin_seconds_bounds(2) [OF ok] x(2) by linarith
  then have "x \<le> b" using d by simp
  then have n: "uint (u128 x * u128 ?D) = x * ?D" using x b d by (intro u128_mult_small) auto
  have "uint (u128 x * u128 ?D) \<le> uint (compute_coin_seconds_earned p (mk_ctx b 0 t x))"
    using x n uint_compute [OF ok] by simp
  then have "uint (compute_coin_seconds_earned p (mk_ctx b 0 t x) - u128 x * u128 ?D)
      = coin_seconds_at p b t - x * ?D"
    using uint_sub_lem [of "u128 x * u128 ?D" "compute_coin_seconds_earned p (mk_ctx b 0 t x)"] n
      uint_compute [OF ok, of 0 x] by simp
  then show "uint (coin_seconds_earned (cdd_after p b t x)) = coin_seconds_at p b t - x * ?D"
    by (simp add: cdd_after_def cdd_on_withdraw_def update_coin_seconds_earned_def Let_def mk_ctx_def
        vesting_divisor_def)
qed (simp_all add: cdd_after_def cdd_on_withdraw_def update_coin_seconds_earned_def Let_def mk_ctx_def
      vesting_divisor_def)

lemma cdd_draw_covered:
  assumes "cdd_ok p b t" "x \<le> cdd_allowed p b t"
  shows "x * vesting_divisor p \<le> coin_seconds_at p b t"
proof -
  let ?D = "vesting_divisor p" and ?c = "coin_seconds_at p b t"
  have D: "1 \<le> ?D" using assms divisor_bounds by (auto simp: cdd_ok_def)
  have "0 \<le> ?c" using coin_seconds_bounds [OF assms(1)] by simp
  then have "0 \<le> ?c div ?D" using D by (simp add: pos_imp_zdiv_nonneg_iff)
  then have "x \<le> ?c div ?D"
    using assms by (auto simp: cdd_allowed_eq split: if_splits)
  then have "x * ?D \<le> ?c div ?D * ?D" using D by (intro mult_right_mono) auto
  also have "\<dots> \<le> ?c" using D by (simp add: minus_mod_eq_div_mult [symmetric])
  finally show ?thesis .
qed

lemma cdd_after_ok:
  assumes ok: "cdd_ok p b t" and x: "0 \<le> x" "x \<le> cdd_allowed p b t"
  shows "cdd_ok (cdd_after p b t x) (b - x) t"
proof -
  note c = cdd_draw_covered [OF ok x(2)]
  note a = cdd_after_eq [OF ok x(1) c]
  have D: "1 \<le> vesting_divisor p" using ok divisor_bounds by (auto simp: cdd_ok_def)
  have "x * vesting_divisor p \<le> b * vesting_divisor p" using c coin_seconds_bounds(2) [OF ok] by linarith
  then have "x \<le> b" using D by simp
  then show ?thesis using ok x coin_seconds_bounds(2) [OF ok]
    by (simp add: cdd_ok_def a left_diff_distrib)
qed

lemma coin_seconds_after:
  assumes ok: "cdd_ok p b t" and x: "0 \<le> x" "x * vesting_divisor p \<le> coin_seconds_at p b t" and T: "t \<le> T"
  shows "coin_seconds_at (cdd_after p b t x) (b - x) T \<le> coin_seconds_at p b T - x * vesting_divisor p"
proof -
  let ?D = "vesting_divisor p" and ?l = "int (coin_seconds_earned_last_update p)"
  have b: "0 \<le> b" and l: "?l \<le> int t" using ok by (auto simp: cdd_ok_def)
  have mono: "(b - x) * (int T - int t) \<le> b * (int T - int t)" using x T by (intro mult_right_mono) auto
  have split: "b * (int T - ?l) = b * (int t - ?l) + b * (int T - int t)" by (simp add: algebra_simps)
  have "0 \<le> b * (int T - int t)" using b T by simp
  then show ?thesis using mono split
    by (simp add: coin_seconds_at_def cdd_after_eq [OF ok x] left_diff_distrib min_def)
qed

interpretation cdd_policy: withdraw_policy cdd_ok cdd_allowed cdd_after
proof
  fix p b now t x
  assume ok: "cdd_ok p b now"
  have D: "1 \<le> vesting_divisor p" using ok divisor_bounds by (auto simp: cdd_ok_def)
  show "0 \<le> cdd_allowed p b now"
    using ok D coin_seconds_bounds [OF ok] by (simp add: cdd_allowed_eq pos_imp_zdiv_nonneg_iff)
  have "coin_seconds_at p b now div vesting_divisor p \<le> b * vesting_divisor p div vesting_divisor p"
    using D coin_seconds_bounds [OF ok] by (intro zdiv_mono1) auto
  then show "cdd_allowed p b now \<le> b"
    using ok D by (auto simp: cdd_allowed_eq cdd_ok_def)
  assume t: "now \<le> t" "t < 2 ^ 32"
  show okt: "cdd_ok p b t" using ok t by (simp add: cdd_ok_def)
  have "b * (int now - int (coin_seconds_earned_last_update p)) \<le> b * (int t - int (coin_seconds_earned_last_update p))"
    using ok t by (intro mult_left_mono) (auto simp: cdd_ok_def)
  then have "coin_seconds_at p b now \<le> coin_seconds_at p b t" by (simp add: coin_seconds_at_def min_def)
  then have "coin_seconds_at p b now div vesting_divisor p \<le> coin_seconds_at p b t div vesting_divisor p"
    using D by (intro zdiv_mono1) auto
  moreover have "0 \<le> coin_seconds_at p b t div vesting_divisor p"
    using D coin_seconds_bounds [OF okt] by (simp add: pos_imp_zdiv_nonneg_iff)
  ultimately show "cdd_allowed p b now \<le> cdd_allowed p b t"
    using ok okt t by (auto simp: cdd_allowed_eq)
next
  fix p b now x
  assume "cdd_ok p b now" "0 \<le> x" "x \<le> cdd_allowed p b now"
  then show "cdd_ok (cdd_after p b now x) (b - x) now" by (rule cdd_after_ok)
next
  fix p b now x and t :: nat
  assume ok: "cdd_ok p b now" and x: "0 \<le> x" "x \<le> cdd_allowed p b now" and t: "now \<le> t" "t < 2 ^ 32"
  note c = cdd_draw_covered [OF ok x(2)]
  have D: "1 \<le> vesting_divisor p" using ok divisor_bounds by (auto simp: cdd_ok_def)
  have okt: "cdd_ok p b t" using ok t by (simp add: cdd_ok_def)
  have ok': "cdd_ok (cdd_after p b now x) (b - x) t" using cdd_after_ok [OF ok x] t by (simp add: cdd_ok_def)
  have "coin_seconds_at (cdd_after p b now x) (b - x) t div vesting_divisor p
      \<le> (coin_seconds_at p b t - x * vesting_divisor p) div vesting_divisor p"
    using coin_seconds_after [OF ok x(1) c t(1)] D by (intro zdiv_mono1) auto
  also have "\<dots> = coin_seconds_at p b t div vesting_divisor p - x" 
    using D div_mult_self1 [of "vesting_divisor p" "coin_seconds_at p b t" "- x"] by simp
  finally show "cdd_allowed (cdd_after p b now x) (b - x) t \<le> cdd_allowed p b t - x"
    using ok ok' okt x t by (auto simp: cdd_allowed_eq cdd_after_eq [OF ok x(1) c])
qed

section \<open>Linear vesting keeps the contract\<close>

definition linear_vested :: "linear_vesting_policy \<Rightarrow> nat \<Rightarrow> int" where
  "linear_vested p now =
     (if begin_timestamp p < now \<and> int (vesting_cliff_seconds p) \<le> int now - int (begin_timestamp p)
      then linear_total_vested p (int now - int (begin_timestamp p)) else 0)"

definition linear_ok :: "linear_vesting_policy \<Rightarrow> int \<Rightarrow> nat \<Rightarrow> bool" where
  "linear_ok p b now \<longleftrightarrow> 0 \<le> b \<and> b \<le> begin_balance p \<and> begin_balance p \<le> GRAPHENE_MAX_SHARE_SUPPLY
     \<and> now < 2 ^ 32 \<and> vesting_duration_seconds p < 2 ^ 32 \<and> begin_balance p - b \<le> linear_vested p now"

definition linear_allowed :: "linear_vesting_policy \<Rightarrow> int \<Rightarrow> nat \<Rightarrow> int" where
  "linear_allowed p b now = linear_vested p now - (begin_balance p - b)"

lemma linear_total_vested_eq:
  assumes "0 \<le> begin_balance p" "begin_balance p \<le> GRAPHENE_MAX_SHARE_SUPPLY"
    and "0 \<le> e" "vesting_duration_seconds p < 2 ^ 32"
  shows "linear_total_vested p e =
    (if e < int (vesting_duration_seconds p) then begin_balance p * e div int (vesting_duration_seconds p)
     else begin_balance p)"
proof (cases "e < int (vesting_duration_seconds p)")
  case True
  have "uint (u128 (begin_balance p) * u128 e) = begin_balance p * e"
    using assms True by (intro u128_mult_small) (auto simp: GRAPHENE_MAX_SHARE_SUPPLY_def)
  moreover have "uint (u128 (int (vesting_duration_seconds p))) = int (vesting_duration_seconds p)"
    using assms by (intro uint_u128_small) auto
  ultimately show ?thesis using True by (simp add: linear_total_vested_def uint_div_distrib)
qed (simp add: linear_total_vested_def)

lemma linear_total_vested_mono:
  assumes p: "0 \<le> begin_balance p" "begin_balance p \<le> GRAPHENE_MAX_SHARE_SUPPLY" "vesting_duration_seconds p < 2 ^ 32"
    and e: "0 \<le> e" "e \<le> f"
  shows "linear_total_vested p e \<le> linear_total_vested p f"
    and "0 \<le> linear_total_vested p e" and "linear_total_vested p e \<le> begin_balance p"
proof -
  let ?B = "begin_balance p" and ?d = "int (vesting_duration_seconds p)"
  have 1: "?B * e div ?d \<le> ?B" if "e < ?d"
  proof -
    have "?B * e \<le> ?B * ?d" using that p by (intro mult_left_mono) auto
    then have "?B * e div ?d \<le> ?B * ?d div ?d" using that e by (intro zdiv_mono1) auto
    then show ?thesis using that e by simp
  qed
  have 2: "?B * e div ?d \<le> ?B * f div ?d" if "e < ?d"
    using that e p by (intro zdiv_mono1 mult_left_mono) auto
  have 3: "0 \<le> ?B * e div ?d" if "e < ?d" using that e p by (simp add: pos_imp_zdiv_nonneg_iff)
  show "linear_total_vested p e \<le> linear_total_vested p f" "0 \<le> linear_total_vested p e"
    "linear_total_vested p e \<le> ?B"
    using p e 1 2 3 by (auto simp: linear_total_vested_eq)
qed

lemma linear_vested_bounds:
  assumes "linear_ok p b now"
  shows "0 \<le> linear_vested p now" "linear_vested p now \<le> begin_balance p"
    "now \<le> t \<Longrightarrow> linear_vested p now \<le> linear_vested p t"
  using assms linear_total_vested_mono [of p "int now - int (begin_timestamp p)" "int t - int (begin_timestamp p)"]
    linear_total_vested_mono [of p "int t - int (begin_timestamp p)" "int t - int (begin_timestamp p)"]
    linear_total_vested_mono [of p "int now - int (begin_timestamp p)" "int now - int (begin_timestamp p)"]
  by (auto simp: linear_vested_def linear_ok_def)

lemma linear_get_allowed_eq:
  assumes "linear_ok p b now"
  shows "linear_get_allowed_withdraw p (mk_ctx b i now x) = Inr (mk_asset (linear_allowed p b now) i)"
proof -
  have "in_int64 (begin_balance p - b)" "in_int64 (linear_vested p now - (begin_balance p - b))"
    using assms linear_vested_bounds [OF assms]
    by (auto simp: linear_ok_def in_int64_def GRAPHENE_MAX_SHARE_SUPPLY_def)
  moreover have "linear_vested p now = 0 \<Longrightarrow> begin_balance p = b" using assms by (auto simp: linear_ok_def)
  ultimately show ?thesis
    by (auto simp: linear_get_allowed_withdraw_def mk_ctx_def linear_vested_def linear_allowed_def Let_def
        split: if_splits)
qed

interpretation linear_policy: withdraw_policy linear_ok linear_allowed "\<lambda>p b now x. p"
proof
  fix p b now t x
  assume ok: "linear_ok p b now"
  show "0 \<le> linear_allowed p b now" using ok by (simp add: linear_allowed_def linear_ok_def)
  show "linear_allowed p b now \<le> b" using linear_vested_bounds(2) [OF ok] by (simp add: linear_allowed_def)
  assume t: "now \<le> t" "t < 2 ^ 32"
  show "linear_ok p b t" using ok t linear_vested_bounds(3) [OF ok t(1)] by (simp add: linear_ok_def)
  show "linear_allowed p b now \<le> linear_allowed p b t"
    using linear_vested_bounds(3) [OF ok t(1)] by (simp add: linear_allowed_def)
next
  fix p b now x
  assume "linear_ok p b now" "0 \<le> x" "x \<le> linear_allowed p b now"
  then show "linear_ok p (b - x) now"
    using linear_vested_bounds(2) [of p b now] by (simp add: linear_ok_def linear_allowed_def)
qed (simp add: linear_allowed_def)

section \<open>Properties\<close>

definition vb_ok :: "vesting_balance_object \<Rightarrow> nat \<Rightarrow> bool" where
  "vb_ok v now = (case vb_policy v of Linear p \<Rightarrow> linear_ok p (amount (vb_balance v)) now
     | Cdd p \<Rightarrow> cdd_ok p (amount (vb_balance v)) now)"

definition vb_allowed :: "vesting_balance_object \<Rightarrow> nat \<Rightarrow> int" where
  "vb_allowed v now = (case vb_policy v of Linear p \<Rightarrow> linear_allowed p (amount (vb_balance v)) now
     | Cdd p \<Rightarrow> cdd_allowed p (amount (vb_balance v)) now)"

lemma vb_ctx_mk: "vb_ctx v now (mk_asset x (asset_id (vb_balance v))) =
    mk_ctx (amount (vb_balance v)) (asset_id (vb_balance v)) now x"
  by (cases "vb_balance v") (simp add: vb_ctx_def mk_ctx_def)

lemma cdd_ctx_id: "cdd_get_allowed_withdraw p (mk_ctx b i t x) = mk_asset (cdd_allowed p b t) i"
  by (simp add: cdd_allowed_def cdd_get_allowed_withdraw_def mk_ctx_def Let_def compute_coin_seconds_earned_def)

lemma cdd_on_withdraw_id: "cdd_on_withdraw p (mk_ctx b i t x) = cdd_after p b t x"
  by (simp add: cdd_after_def cdd_on_withdraw_def mk_ctx_def Let_def compute_coin_seconds_earned_def
      update_coin_seconds_earned_def)

lemma vb_is_withdraw_allowed_eq:
  assumes "vb_ok v now"
  shows "vb_is_withdraw_allowed v now (mk_asset x (asset_id (vb_balance v))) = Inr (x \<le> vb_allowed v now)"
proof (cases "vb_policy v")
  case (Linear p)
  with assms show ?thesis using linear_get_allowed_eq [of p "amount (vb_balance v)" now "asset_id (vb_balance v)" x]
    by (simp add: vb_ok_def vb_is_withdraw_allowed_def linear_is_withdraw_allowed_def vb_ctx_mk vb_allowed_def)
      (simp add: mk_ctx_def)
next
  case (Cdd p)
  then show ?thesis
    by (simp add: vb_is_withdraw_allowed_def cdd_is_withdraw_allowed_def vb_ctx_mk vb_allowed_def cdd_ctx_id)
      (simp add: mk_ctx_def)
qed

lemma vb_allowed_bounds: "vb_ok v now \<Longrightarrow> 0 \<le> vb_allowed v now \<and> vb_allowed v now \<le> amount (vb_balance v)"
  using linear_policy.allowed_nonneg linear_policy.allowed_le cdd_policy.allowed_nonneg cdd_policy.allowed_le
  by (auto simp: vb_ok_def vb_allowed_def split: vesting_policy.splits)

lemma vb_ok_small: "vb_ok v now \<Longrightarrow> 0 \<le> amount (vb_balance v) \<and> amount (vb_balance v) \<le> GRAPHENE_MAX_SHARE_SUPPLY"
  by (auto simp: vb_ok_def linear_ok_def cdd_ok_def split: vesting_policy.splits)

lemma withdraw_effect:
  assumes "vb_ok v now" "0 \<le> amount a" "asset_id a = asset_id (vb_balance v)"
    and "vb_is_withdraw_allowed v now a = Inr True"
  shows "\<exists>v'. vb_withdraw v now a = Inr v' \<and> vb_ok v' now
    \<and> vb_balance v' = mk_asset (amount (vb_balance v) - amount a) (asset_id (vb_balance v))
    \<and> 0 \<le> amount (vb_balance v')
    \<and> (\<forall>t. now \<le> t \<longrightarrow> t < 2 ^ 32 \<longrightarrow> vb_allowed v' t \<le> vb_allowed v t - amount a)"
proof -
  obtain x where a: "a = mk_asset x (asset_id (vb_balance v))" using assms(3) by (cases a) simp
  have x: "0 \<le> x" "x \<le> vb_allowed v now" using assms a vb_is_withdraw_allowed_eq by auto
  have small: "in_int64 (amount (vb_balance v) - x)" "0 \<le> amount (vb_balance v) - x"
    using x vb_allowed_bounds [OF assms(1)] vb_ok_small [OF assms(1)]
    by (auto simp: in_int64_def GRAPHENE_MAX_SHARE_SUPPLY_def)
  show ?thesis
  proof (cases "vb_policy v")
    case (Linear p)
    with small x a assms(1) linear_policy.ok_after [of p "amount (vb_balance v)" now x]
      linear_policy.allowed_after [of p "amount (vb_balance v)" now x] show ?thesis
      by (simp add: vb_withdraw_def on_withdraw_visitor_def vb_ok_def vb_allowed_def Let_def)
  next
    case (Cdd p)
    with small x a assms(1) cdd_policy.ok_after [of p "amount (vb_balance v)" now x]
      cdd_policy.allowed_after [of p "amount (vb_balance v)" now x] show ?thesis
      by (simp add: vb_withdraw_def on_withdraw_visitor_def vb_ok_def vb_allowed_def Let_def vb_ctx_mk
          cdd_on_withdraw_id)
  qed
qed

lemma vb_ok_later: "vb_ok v now \<Longrightarrow> now \<le> t \<Longrightarrow> t < 2 ^ 32 \<Longrightarrow> vb_ok v t"
  using linear_policy.ok_later cdd_policy.ok_later by (auto simp: vb_ok_def split: vesting_policy.splits)

lemma vb_allowed_later: "vb_ok v now \<Longrightarrow> now \<le> t \<Longrightarrow> t < 2 ^ 32 \<Longrightarrow> vb_allowed v now \<le> vb_allowed v t"
  using linear_policy.allowed_later cdd_policy.allowed_later by (auto simp: vb_ok_def vb_allowed_def split: vesting_policy.splits)

lemma vb_get_allowed_eq:
  assumes "vb_ok v now"
  shows "vb_get_allowed_withdraw v now = Inr (mk_asset (vb_allowed v now) (asset_id (vb_balance v)))"
proof -
  have c: "vb_ctx v now a = mk_ctx (amount (vb_balance v)) (asset_id (vb_balance v)) now 0\<lparr>ctx_amount := a\<rparr>" for a
    by (cases "vb_balance v") (simp add: vb_ctx_def mk_ctx_def)
  have l: "linear_get_allowed_withdraw p (x\<lparr>ctx_amount := a\<rparr>) = linear_get_allowed_withdraw p x" for p x a
    by (simp add: linear_get_allowed_withdraw_def Let_def)
  have d: "cdd_get_allowed_withdraw p (x\<lparr>ctx_amount := a\<rparr>) = cdd_get_allowed_withdraw p x" for p x a
    by (simp add: cdd_get_allowed_withdraw_def compute_coin_seconds_earned_def)
  show ?thesis using assms linear_get_allowed_eq [of _ "amount (vb_balance v)" now "asset_id (vb_balance v)" 0]
    by (auto simp: vb_get_allowed_withdraw_def vb_ok_def vb_allowed_def c l d cdd_ctx_id split: vesting_policy.splits)
qed

text \<open>C28: A withdrawal that \<open>is_withdraw_allowed\<close> admits always succeeds, takes exactly its amount from
  the vesting balance without making it negative, keeps the invariant of the policy, and lowers what
  may be withdrawn at any later time by at least that amount; so splitting or hastening withdrawals
  never yields more.\<close>

theorem vesting_withdraw_exact:
  assumes "vb_ok v now" "0 \<le> amount a" "asset_id a = asset_id (vb_balance v)"
    and "vb_is_withdraw_allowed v now a = Inr True"
  shows "\<exists>v'. vb_withdraw v now a = Inr v' \<and> vb_ok v' now
    \<and> vb_balance v' = mk_asset (amount (vb_balance v) - amount a) (asset_id (vb_balance v))
    \<and> 0 \<le> amount (vb_balance v')
    \<and> (\<forall>t. now \<le> t \<longrightarrow> t < 2 ^ 32 \<longrightarrow> vb_allowed v' t \<le> vb_allowed v t - amount a)"
  by (rule withdraw_effect [OF assms])

definition demo_vb :: vesting_balance_object where
  "demo_vb = \<lparr>vb_owner = 7, vb_balance = mk_asset 100 0,
     vb_policy = Cdd \<lparr>vesting_seconds = 10, coin_seconds_earned = 0, start_claim = 0,
       coin_seconds_earned_last_update = 1000\<rparr>\<rparr>"

lemma demo_vb_ok: "vb_ok demo_vb 1005"
  by (simp add: vb_ok_def demo_vb_def cdd_ok_def GRAPHENE_MAX_SHARE_SUPPLY_def vesting_divisor_def)

theorem vesting_withdraw_exact_witness:
  "\<exists>v'. vb_withdraw demo_vb 1005 (mk_asset 50 0) = Inr v' \<and> vb_balance v' = mk_asset 50 0"
proof -
  have "vb_is_withdraw_allowed demo_vb 1005 (mk_asset 50 0) = Inr True"
    by (simp add: demo_vb_def vb_is_withdraw_allowed_def cdd_is_withdraw_allowed_def cdd_get_allowed_withdraw_def
        compute_coin_seconds_earned_def vb_ctx_def vesting_divisor_def Let_def u128_def)
  from vesting_withdraw_exact [OF demo_vb_ok _ _ this] show ?thesis by (auto simp: demo_vb_def)
qed

text \<open>Under coin-days-destroyed vesting nothing can be withdrawn up to the start-claim time, and once
  the whole vesting period has passed without a change the entire balance can.\<close>

theorem cdd_fully_vested:
  assumes "cdd_ok p b now"
  shows "(now \<le> start_claim p \<longrightarrow> cdd_get_allowed_withdraw p (mk_ctx b i now x) = mk_asset 0 i)
    \<and> (start_claim p < now \<and> coin_seconds_earned_last_update p + max (vesting_seconds p) 1 \<le> now \<longrightarrow>
        cdd_get_allowed_withdraw p (mk_ctx b i now x) = mk_asset b i)"
proof -
  have D: "1 \<le> vesting_divisor p" using assms divisor_bounds by (auto simp: cdd_ok_def)
  have "b * vesting_divisor p \<le> b * (int now - int (coin_seconds_earned_last_update p))"
    if "coin_seconds_earned_last_update p + max (vesting_seconds p) 1 \<le> now"
    using that assms by (intro mult_left_mono) (auto simp: vesting_divisor_def cdd_ok_def)
  then have "b * vesting_divisor p \<le> uint (coin_seconds_earned p)
      + b * (int now - int (coin_seconds_earned_last_update p))"
    if "coin_seconds_earned_last_update p + max (vesting_seconds p) 1 \<le> now"
    using that uint_ge_0 [of "coin_seconds_earned p"] by linarith
  then have "coin_seconds_at p b now = b * vesting_divisor p"
    if "coin_seconds_earned_last_update p + max (vesting_seconds p) 1 \<le> now"
    using that by (simp add: coin_seconds_at_def)
  then show ?thesis using D by (auto simp: cdd_ctx_id cdd_allowed_eq [OF assms])
qed

theorem cdd_fully_vested_witness:
  "cdd_get_allowed_withdraw \<lparr>vesting_seconds = 10, coin_seconds_earned = 0, start_claim = 0,
     coin_seconds_earned_last_update = 1000\<rparr> (mk_ctx 100 3 1010 0) = mk_asset 100 3"
proof -
  let ?p = "\<lparr>vesting_seconds = 10, coin_seconds_earned = 0, start_claim = 0,
     coin_seconds_earned_last_update = 1000\<rparr> :: cdd_vesting_policy"
  have "cdd_ok ?p 100 1010" by (simp add: cdd_ok_def GRAPHENE_MAX_SHARE_SUPPLY_def vesting_divisor_def)
  from cdd_fully_vested [OF this, of 3 0] show ?thesis by simp
qed

text \<open>
  A withdrawal as \<^verbatim>\<open>vesting_balance_withdraw_evaluator\<close> makes it, as far as the vesting balance is concerned: the check of
  \<open>do_evaluate\<close> and the change of \<open>do_apply\<close>, at the given time.
\<close>

definition withdraw_step :: "time_point_sec \<times> asset \<Rightarrow> vesting_balance_object \<Rightarrow> vesting_balance_object exn" where
  "withdraw_step w v =
    bindE (vb_is_withdraw_allowed v (fst w) (snd w)) (\<lambda>ok.
    bindE (fc_assert ok ''vbo.is_withdraw_allowed( now, op.amount )'') (\<lambda>_.
    vb_withdraw v (fst w) (snd w)))"

definition drawn :: "(time_point_sec \<times> asset) list \<Rightarrow> int" where
  "drawn ws = sum_list (map (\<lambda>w. amount (snd w)) ws)"

lemma withdraw_step_asset:
  assumes "withdraw_step w v = Inr v'" "vb_ok v (fst w)"
  shows "asset_id (snd w) = asset_id (vb_balance v)"
  using assms
  by (auto simp: withdraw_step_def vb_is_withdraw_allowed_def linear_is_withdraw_allowed_def cdd_is_withdraw_allowed_def vb_ctx_def
      asset_le_def asset_lt_def asset_eq_def cdd_get_allowed_withdraw_def Let_def split: vesting_policy.splits if_splits)

lemma withdrawals_bounded:
  assumes "foldE withdraw_step ws v = Inr v'" "vb_ok v now" "sorted (now # map fst ws)"
    and "list_all (\<lambda>w. 0 \<le> amount (snd w) \<and> fst w \<le> T) ws" "now \<le> T" "T < 2 ^ 32"
  shows "drawn ws \<le> vb_allowed v T \<and> amount (vb_balance v') = amount (vb_balance v) - drawn ws"
  using assms
proof (induction ws arbitrary: v now)
  case Nil
  have "vb_ok v T" using vb_ok_later Nil.prems(2,5,6) by blast
  then show ?case using vb_allowed_bounds Nil.prems(1) by (simp add: drawn_def)
next
  case (Cons w ws)
  let ?t = "fst w" and ?x = "amount (snd w)"
  from Cons.prems(1) obtain u where u: "withdraw_step w v = Inr u" "foldE withdraw_step ws u = Inr v'" by auto
  have t: "now \<le> ?t" "?t \<le> T" "0 \<le> ?x" using Cons.prems(3,4) by simp_all
  have ok: "vb_ok v ?t" using vb_ok_later [OF Cons.prems(2) t(1)] t(2) Cons.prems(6) by simp
  have al: "vb_is_withdraw_allowed v ?t (snd w) = Inr True" and wd: "vb_withdraw v ?t (snd w) = Inr u"
    using u(1) by (auto simp: withdraw_step_def)
  from withdraw_effect [OF ok t(3) withdraw_step_asset [OF u(1) ok] al] wd
  have e: "vb_ok u ?t" "amount (vb_balance u) = amount (vb_balance v) - ?x" "vb_allowed u T \<le> vb_allowed v T - ?x"
    using t(2) Cons.prems(6) by auto
  have "drawn ws \<le> vb_allowed u T \<and> amount (vb_balance v') = amount (vb_balance u) - drawn ws"
    using Cons.prems(3,4,6) t(2) by (intro Cons.IH [OF u(2) e(1)]) simp_all
  then show ?case using e by (simp add: drawn_def)
qed

text \<open>C29: Whatever sequence of withdrawals a vesting balance admits, in the order of time, their sum is at most what
  \<open>get_allowed_withdraw\<close> showed for the time of the last of them (or any later one) before the first was made, under
  either policy; exactly that sum leaves the balance, which never becomes negative. From a linear vesting balance that
  starts with its initial balance, the sum is at most what has vested of it by then.\<close>

theorem vesting_withdrawals_bounded:
  assumes "vb_ok v now" "foldE withdraw_step ws v = Inr v'" "sorted (now # map fst ws)"
    and "list_all (\<lambda>w. 0 \<le> amount (snd w) \<and> fst w \<le> T) ws" "now \<le> T" "T < 2 ^ 32"
  shows "(\<exists>a. vb_get_allowed_withdraw v T = Inr a \<and> drawn ws \<le> amount a \<and> amount a \<le> amount (vb_balance v))
    \<and> amount (vb_balance v') = amount (vb_balance v) - drawn ws \<and> 0 \<le> amount (vb_balance v')
    \<and> (\<forall>p. vb_policy v = Linear p \<and> amount (vb_balance v) = begin_balance p \<and> begin_timestamp p \<le> T
        \<longrightarrow> drawn ws \<le> linear_total_vested p (int T - int (begin_timestamp p)))"
proof -
  note b = withdrawals_bounded [OF assms(2,1,3-6)]
  have ok: "vb_ok v T" using vb_ok_later [OF assms(1,5,6)] .
  have "drawn ws \<le> linear_total_vested p (int T - int (begin_timestamp p))"
    if "vb_policy v = Linear p" "amount (vb_balance v) = begin_balance p" "begin_timestamp p \<le> T" for p
  proof -
    have "linear_ok p (begin_balance p) T" using ok that by (simp add: vb_ok_def)
    then have "0 \<le> linear_total_vested p (int T - int (begin_timestamp p))"
      using linear_total_vested_mono(2) [of p "int T - int (begin_timestamp p)"] that(3) by (auto simp: linear_ok_def)
    moreover have "drawn ws \<le> linear_vested p T" using b that by (simp add: vb_allowed_def linear_allowed_def)
    ultimately show ?thesis by (auto simp: linear_vested_def split: if_splits)
  qed
  moreover have "vb_allowed v T \<le> amount (vb_balance v)" using vb_allowed_bounds [OF ok] by simp
  ultimately show ?thesis using b vb_get_allowed_eq [OF ok] by simp
qed

definition demo_linear :: linear_vesting_policy where
  "demo_linear = \<lparr>begin_timestamp = 0, vesting_cliff_seconds = 10, vesting_duration_seconds = 100,
     begin_balance = 1000\<rparr>"

definition demo_linear_vb :: vesting_balance_object where
  "demo_linear_vb = \<lparr>vb_owner = 1, vb_balance = mk_asset 1000 0, vb_policy = Linear demo_linear\<rparr>"

text \<open>After 50 of 100 seconds 400 and then the other 100 of the 500 that have vested are withdrawn.\<close>

theorem vesting_withdrawals_bounded_witness:
  "\<exists>v'. foldE withdraw_step [(50, mk_asset 400 0), (50, mk_asset 100 0)] demo_linear_vb = Inr v' \<and> amount (vb_balance v') = 500
     \<and> drawn [(50, mk_asset 400 0), (50, mk_asset 100 0)] \<le> linear_total_vested demo_linear 50"
proof -
  let ?ws = "[(50, mk_asset 400 0), (50, mk_asset 100 0)]"
  have ok: "vb_ok demo_linear_vb 0"
    by (simp add: vb_ok_def demo_linear_vb_def linear_ok_def demo_linear_def GRAPHENE_MAX_SHARE_SUPPLY_def linear_vested_def)
  have "\<exists>v'. foldE withdraw_step ?ws demo_linear_vb = Inr v'"
    by (simp add: withdraw_step_def vb_is_withdraw_allowed_def linear_is_withdraw_allowed_def linear_get_allowed_withdraw_def vb_ctx_def
        vb_withdraw_def on_withdraw_visitor_def demo_linear_vb_def demo_linear_def linear_total_vested_def u128_def Let_def asset_le_def asset_lt_def asset_eq_def asset_sub_def
        safe_sub_def safe_int64_def in_int64_def
        cong: bindE_weak_cong del: bindE_eq_Inr)
  then obtain v' where v': "foldE withdraw_step ?ws demo_linear_vb = Inr v'" by blast
  have d: "vb_policy demo_linear_vb = Linear demo_linear" "amount (vb_balance demo_linear_vb) = begin_balance demo_linear"
    "begin_timestamp demo_linear = 0" "begin_balance demo_linear = 1000" "drawn ?ws = 500"
    by (simp_all add: drawn_def demo_linear_vb_def demo_linear_def)
  have "amount (vb_balance v') = 500 \<and> drawn ?ws \<le> linear_total_vested demo_linear 50"
    using vesting_withdrawals_bounded [OF ok v', of 50] d by auto
  with v' show ?thesis by blast
qed

text \<open>The documentation says that new funds may not be added to a linear vesting balance, but
  \<open>is_deposit_allowed\<close> admits the deposit and the whole deposit can be withdrawn at once, past the cliff:
  it does not vest.\<close>

theorem linear_deposit_not_vested:
  assumes "linear_ok p b now" "0 \<le> x" "b + x \<le> GRAPHENE_MAX_SHARE_SUPPLY"
    and "begin_timestamp p < now" "int (vesting_cliff_seconds p) \<le> int now - int (begin_timestamp p)"
    and "v = \<lparr>vb_owner = w, vb_balance = mk_asset b i, vb_policy = Linear p\<rparr>"
  shows "vb_is_deposit_allowed v now (mk_asset x i) = Inr True
    \<and> (\<exists>v'. vb_deposit v now (mk_asset x i) = Inr v'
        \<and> vb_get_allowed_withdraw v' now = Inr (mk_asset (linear_allowed p b now + x) i))"
proof -
  have "in_int64 (b + x)" "in_int64 (begin_balance p - (b + x))"
    "in_int64 (linear_vested p now - (begin_balance p - (b + x)))"
    using assms(1-3) linear_vested_bounds [OF assms(1)]
    by (auto simp: linear_ok_def in_int64_def GRAPHENE_MAX_SHARE_SUPPLY_def)
  moreover have "x \<le> GRAPHENE_MAX_SHARE_SUPPLY" "b \<le> GRAPHENE_MAX_SHARE_SUPPLY" using assms(1-3) by (auto simp: linear_ok_def)
  ultimately show ?thesis using assms
    by (auto simp: vb_is_deposit_allowed_def linear_is_deposit_allowed_def vb_deposit_def Let_def
        on_deposit_visitor_def vb_get_allowed_withdraw_def linear_get_allowed_withdraw_def vb_ctx_def
        sum_below_max_shares_def linear_vested_def linear_allowed_def add.commute)
qed

theorem linear_deposit_not_vested_witness:
  "\<exists>v'. vb_deposit \<lparr>vb_owner = 1, vb_balance = mk_asset 1000 0, vb_policy = Linear demo_linear\<rparr> 10 (mk_asset 5 0)
      = Inr v' \<and> vb_get_allowed_withdraw v' 10 = Inr (mk_asset 105 0)"
proof -
  have ok: "linear_ok demo_linear 1000 10"
    by (simp add: linear_ok_def demo_linear_def GRAPHENE_MAX_SHARE_SUPPLY_def linear_vested_def
        linear_total_vested_def u128_def)
  have "linear_allowed demo_linear 1000 10 = 100"
    by (simp add: linear_allowed_def linear_vested_def demo_linear_def linear_total_vested_def u128_def)
  then show ?thesis using linear_deposit_not_vested [OF ok, of 5 _ 1 0]
    by (simp add: demo_linear_def GRAPHENE_MAX_SHARE_SUPPLY_def)
qed

lemma wrap64_id: "0 \<le> y \<Longrightarrow> y < 2 ^ 63 \<Longrightarrow> wrap64 y = y"
  by (simp add: wrap64_def signed_of_int signed_take_bit_int_eq_self)

lemma deposit_vested_seconds:
  assumes ok: "cdd_ok p b now"
  shows "coin_seconds_earned (cdd_on_deposit_vested p (mk_ctx b i now x))
      = compute_coin_seconds_earned p (mk_ctx b i now x) + u128 (wrap64 (x * vesting_divisor p))"
    and "coin_seconds_earned_last_update (cdd_on_deposit_vested p (mk_ctx b i now x)) = now"
    and "vesting_seconds (cdd_on_deposit_vested p (mk_ctx b i now x)) = vesting_seconds p"
    and "start_claim (cdd_on_deposit_vested p (mk_ctx b i now x)) = start_claim p"
  by (simp_all add: cdd_on_deposit_vested_def cdd_on_deposit_def update_coin_seconds_earned_def Let_def mk_ctx_def vesting_divisor_def)

lemma deposit_vested_exact:
  assumes ok: "cdd_ok p b now" and x: "0 \<le> x" "x * vesting_divisor p < 2 ^ 63"
  shows "uint (coin_seconds_earned (cdd_on_deposit_vested p (mk_ctx b i now x))) = coin_seconds_at p b now + x * vesting_divisor p"
proof -
  have D: "1 \<le> vesting_divisor p" using ok divisor_bounds by (auto simp: cdd_ok_def)
  then have y: "0 \<le> x * vesting_divisor p" using x by simp
  then have w: "wrap64 (x * vesting_divisor p) = x * vesting_divisor p" using x by (intro wrap64_id)
  have "uint (u128 (x * vesting_divisor p)) = x * vesting_divisor p"
    using x y by (intro uint_u128_small) auto
  moreover from this have "uint (compute_coin_seconds_earned p (mk_ctx b i now x)) + uint (u128 (x * vesting_divisor p)) < 2 ^ LENGTH(128)"
    using coin_seconds_bounds(3) [OF ok] uint_compute [OF ok] x by simp
  ultimately show ?thesis
    using uint_add_lem [of "compute_coin_seconds_earned p (mk_ctx b i now x)" "u128 (x * vesting_divisor p)"]
      uint_compute [OF ok, of i x] w deposit_vested_seconds(1) [OF ok] by simp
qed

text \<open>A product between \<open>2 ^ 63\<close> and \<open>2 ^ 64\<close> wraps to a negative number, and the coin seconds below zero to a huge one.\<close>

lemma u128_modulus: "word_of_int (2 ^ 128) = (0 :: 128 word)"
  by simp

lemma wrap64_negative:
  assumes "2 ^ 63 \<le> y" "y < 2 ^ 64"
  shows "wrap64 y = y - 2 ^ 64"
proof -
  have "wrap64 y = signed_take_bit 63 y" by (simp add: wrap64_def signed_of_int)
  also have "\<dots> = signed_take_bit 63 (y - 2 ^ 64)"
    by (rule signed_take_bit_eq_iff_take_bit_eq [THEN iffD2]) (simp add: take_bit_eq_mod mod_diff_right_eq)
  also have "\<dots> = y - 2 ^ 64" using assms by (intro signed_take_bit_int_eq_self) auto
  finally show ?thesis .
qed

lemma deposit_vested_wraps:
  assumes ok: "cdd_ok p b now" and x: "2 ^ 63 \<le> x * vesting_divisor p" "coin_seconds_at p b now + x * vesting_divisor p < 2 ^ 64"
  shows "uint (coin_seconds_earned (cdd_on_deposit_vested p (mk_ctx b i now x)))
      = 2 ^ 128 - 2 ^ 64 + coin_seconds_at p b now + x * vesting_divisor p"
proof -
  let ?y = "x * vesting_divisor p"
  have c: "0 \<le> coin_seconds_at p b now" using coin_seconds_bounds [OF ok] by simp
  have "wrap64 ?y = ?y - 2 ^ 64" using x c by (intro wrap64_negative) auto
  moreover have "compute_coin_seconds_earned p (mk_ctx b i now x) = word_of_int (coin_seconds_at p b now)"
    using uint_compute [OF ok, of i x] by (metis word_of_int_uint)
  ultimately have "coin_seconds_earned (cdd_on_deposit_vested p (mk_ctx b i now x)) = word_of_int (coin_seconds_at p b now + (?y - 2 ^ 64))"
    using deposit_vested_seconds(1) [OF ok] by (simp add: u128_def)
  also have "\<dots> = word_of_int (2 ^ 128 - 2 ^ 64 + coin_seconds_at p b now + ?y)"
  proof -
    have "word_of_int (2 ^ 128 + z) = (word_of_int z :: 128 word)" for z
      unfolding of_int_add u128_modulus by simp
    moreover have "2 ^ 128 - 2 ^ 64 + coin_seconds_at p b now + ?y = 2 ^ 128 + (coin_seconds_at p b now + (?y - 2 ^ 64))" by simp
    ultimately show ?thesis by metis
  qed
  finally have w: "coin_seconds_earned (cdd_on_deposit_vested p (mk_ctx b i now x))
      = u128 (2 ^ 128 - 2 ^ 64 + coin_seconds_at p b now + ?y)" by (simp only: u128_def)
  have "0 \<le> 2 ^ 128 - 2 ^ 64 + coin_seconds_at p b now + ?y" using x c by simp
  moreover have "2 ^ 128 - 2 ^ 64 + coin_seconds_at p b now + ?y < 2 ^ 128" using x by simp
  ultimately show ?thesis unfolding w by (rule uint_u128_small)
qed



end
