(* ===== verification/Double.thy ===== *)
theory Double
  imports Prelude Complex_Main "HOL-Library.Log_Nat"
begin

text \<open>
  The C++ types \<^verbatim>\<open>double\<close> and \<^verbatim>\<open>float\<close> as IEEE 754 binary formats: a finite value is a rational
  number, every operation rounds its exact result to the nearest representable value, ties to
  even, and overflows to an infinity. The sign of a zero is not kept; the program never observes
  it. The conversion to \<^verbatim>\<open>int64_t\<close> truncates; outside the range, where C++ leaves the result
  undefined, it is the value x86-64 returns.
\<close>

datatype double = Fin rat | PInf | MInf | NaN

record fformat =
  precision_bits :: nat
  emin :: int
  emax :: int

definition binary64 :: fformat where
  "binary64 = \<lparr>precision_bits = 53, emin = -1074, emax = 1024\<rparr>"

definition binary32 :: fformat where
  "binary32 = \<lparr>precision_bits = 24, emin = -149, emax = 128\<rparr>"

definition pow2 :: "int \<Rightarrow> rat" where
  "pow2 k = (if 0 \<le> k then 2 ^ nat k else 1 / 2 ^ nat (- k))"

definition ilog2 :: "rat \<Rightarrow> int" where
  "ilog2 x = (let (n, d) = quotient_of x; k = bitlen n - bitlen d in if pow2 k \<le> x then k else k - 1)"

definition round_even :: "rat \<Rightarrow> int" where
  "round_even x = (let f = \<lfloor>x\<rfloor>; r = x - of_int f in
     if r < 1 / 2 then f else if 1 / 2 < r then f + 1 else if even f then f else f + 1)"

definition ulp_of :: "fformat \<Rightarrow> rat \<Rightarrow> rat" where
  "ulp_of fmt x = pow2 (max (ilog2 \<bar>x\<bar> - int (precision_bits fmt - 1)) (emin fmt))"

definition fl_round :: "fformat \<Rightarrow> rat \<Rightarrow> double" where
  "fl_round fmt x =
    (if x = 0 then Fin 0
     else let v = of_int (round_even (x / ulp_of fmt x)) * ulp_of fmt x in
       if \<bar>v\<bar> < pow2 (emax fmt) then Fin v else if 0 < x then PInf else MInf)"

fun f_neg :: "double \<Rightarrow> double" where
  "f_neg (Fin x) = Fin (- x)"
| "f_neg PInf = MInf"
| "f_neg MInf = PInf"
| "f_neg NaN = NaN"

fun f_add :: "fformat \<Rightarrow> double \<Rightarrow> double \<Rightarrow> double" where
  "f_add fmt (Fin x) (Fin y) = fl_round fmt (x + y)"
| "f_add fmt NaN _ = NaN"
| "f_add fmt _ NaN = NaN"
| "f_add fmt PInf MInf = NaN"
| "f_add fmt MInf PInf = NaN"
| "f_add fmt PInf _ = PInf"
| "f_add fmt MInf _ = MInf"
| "f_add fmt (Fin _) y = y"

definition d_add :: "double \<Rightarrow> double \<Rightarrow> double" where "d_add = f_add binary64"

definition d_sub :: "double \<Rightarrow> double \<Rightarrow> double" where "d_sub x y = d_add x (f_neg y)"

definition inf_sign :: "bool \<Rightarrow> double" where "inf_sign pos = (if pos then PInf else MInf)"

fun d_mul :: "double \<Rightarrow> double \<Rightarrow> double" where
  "d_mul (Fin x) (Fin y) = fl_round binary64 (x * y)"
| "d_mul NaN _ = NaN"
| "d_mul _ NaN = NaN"
| "d_mul (Fin x) PInf = (if x = 0 then NaN else inf_sign (0 < x))"
| "d_mul (Fin x) MInf = (if x = 0 then NaN else inf_sign (x < 0))"
| "d_mul PInf (Fin y) = (if y = 0 then NaN else inf_sign (0 < y))"
| "d_mul MInf (Fin y) = (if y = 0 then NaN else inf_sign (y < 0))"
| "d_mul PInf y = y"
| "d_mul MInf y = f_neg y"

fun d_div :: "double \<Rightarrow> double \<Rightarrow> double" where
  "d_div (Fin x) (Fin y) =
     (if y \<noteq> 0 then fl_round binary64 (x / y) else if x = 0 then NaN else inf_sign (0 < x))"
| "d_div NaN _ = NaN"
| "d_div _ NaN = NaN"
| "d_div (Fin _) _ = Fin 0"
| "d_div PInf (Fin y) = inf_sign (0 \<le> y)"
| "d_div MInf (Fin y) = inf_sign (y < 0)"
| "d_div _ _ = NaN"

fun d_lt :: "double \<Rightarrow> double \<Rightarrow> bool" where
  "d_lt (Fin x) (Fin y) \<longleftrightarrow> x < y"
| "d_lt NaN _ \<longleftrightarrow> False"
| "d_lt _ NaN \<longleftrightarrow> False"
| "d_lt (Fin _) PInf \<longleftrightarrow> True"
| "d_lt MInf (Fin _) \<longleftrightarrow> True"
| "d_lt MInf PInf \<longleftrightarrow> True"
| "d_lt _ _ \<longleftrightarrow> False"

fun d_eq :: "double \<Rightarrow> double \<Rightarrow> bool" where
  "d_eq (Fin x) (Fin y) \<longleftrightarrow> x = y"
| "d_eq PInf PInf \<longleftrightarrow> True"
| "d_eq MInf MInf \<longleftrightarrow> True"
| "d_eq _ _ \<longleftrightarrow> False"

definition truncate_rat :: "rat \<Rightarrow> int" where
  "truncate_rat x = (if 0 \<le> x then \<lfloor>x\<rfloor> else \<lceil>x\<rceil>)"

definition d_to_int64 :: "double \<Rightarrow> int" where
  "d_to_int64 d = (case d of
     Fin x \<Rightarrow> (if in_int64 (truncate_rat x) then truncate_rat x else - (2 ^ 63))
   | _ \<Rightarrow> - (2 ^ 63))"

definition d_of_int :: "int \<Rightarrow> double" where
  "d_of_int n = fl_round binary64 (of_int n)"

section \<open>Facts about rounding\<close>

lemma d_to_int64_range: "in_int64 (d_to_int64 d)"
  by (cases d) (auto simp: d_to_int64_def in_int64_def)

lemma fl_round_0 [simp]: "fl_round fmt 0 = Fin 0"
  by (simp add: fl_round_def)

lemma d_lt_irrefl: "\<not> d_lt x x"
  by (cases x) simp_all

lemma round_even_int [simp]: "round_even (of_int z) = z"
  by (simp add: round_even_def)

lemma pow2_neg: "e \<le> 0 \<Longrightarrow> pow2 e = 1 / 2 ^ nat (- e)"
  by (simp add: pow2_def)

lemma ilog2_int_le:
  assumes "0 < n" "n < 2 ^ 53"
  shows "ilog2 (of_int n) \<le> 52"
proof -
  have "bitlen n \<le> 53" using assms bitlen_le_iff_power [of n 53] by simp
  moreover have "bitlen 1 = 1" using bitlen_pow2 [of 1 0] by (simp add: bitlen_alt_def)
  ultimately show ?thesis by (simp add: ilog2_def Let_def)
qed

text \<open>Every integer of at most 53 bits is a double.\<close>

lemma fl_round_int:
  assumes "\<bar>n\<bar> < 2 ^ 53"
  shows "fl_round binary64 (of_int n) = Fin (of_int n)"
proof (cases "n = 0")
  case False
  define e where "e = max (ilog2 \<bar>of_int n\<bar> - 52) (- 1074)"
  have "ilog2 (of_int \<bar>n\<bar>) \<le> 52" using False assms by (intro ilog2_int_le) auto
  then have e: "e \<le> 0" by (simp add: e_def)
  have ulp: "ulp_of binary64 (of_int n) = 1 / 2 ^ nat (- e)"
    using e by (simp add: ulp_of_def binary64_def pow2_neg e_def [symmetric])
  have "of_int n / (1 / 2 ^ nat (- e)) = (of_int (n * 2 ^ nat (- e)) :: rat)" by simp
  then have v: "of_int (round_even (of_int n / ulp_of binary64 (of_int n))) * ulp_of binary64 (of_int n) = (of_int n :: rat)"
    unfolding ulp by (simp only: round_even_int) simp
  have "\<bar>n\<bar> < 2 ^ 1024" using assms power_increasing [of 53 1024 "2::int"] by linarith
  then have "(of_int \<bar>n\<bar> :: rat) < of_int (2 ^ 1024)" by (simp only: of_int_less_iff)
  then have "\<bar>of_int n :: rat\<bar> < pow2 1024" by (simp only: of_int_abs of_int_power of_int_numeral) (simp add: pow2_def)
  with False show ?thesis using v by (simp add: fl_round_def binary64_def Let_def)
qed simp

lemma fl_round_numeral:
  "(numeral k :: int) < 2 ^ 53 \<Longrightarrow> fl_round binary64 (numeral k) = Fin (numeral k)"
  "(numeral k :: int) < 2 ^ 53 \<Longrightarrow> fl_round binary64 (- numeral k) = Fin (- numeral k)"
  "fl_round binary64 1 = Fin 1"
  using fl_round_int [of "numeral k"] fl_round_int [of "- numeral k"] fl_round_int [of 1] by simp_all

end
