(* ===== verification/Index.thy ===== *)
theory Index
  imports Prelude
begin

text \<open>
  The indices of \<^verbatim>\<open>graphene::db\<close> as the chain components use them: the objects of one type in the
  order of their ids, and the next id to assign. \<open>create\<close> appends, \<open>modify\<close> replaces in place and
  \<open>remove\<close> erases; a search by another key walks the objects. The sums over an index and how
  each operation changes them carry every conservation proof of the components.
\<close>

record 'a index =
  next_id :: nat
  objs :: "(nat \<times> 'a) list"

definition idx_empty :: "'a index" where
  "idx_empty = \<lparr>next_id = 0, objs = []\<rparr>"

definition idx_find :: "'a index \<Rightarrow> nat \<Rightarrow> 'a option" where
  "idx_find t i = map_of (objs t) i"

definition idx_get :: "string \<Rightarrow> 'a index \<Rightarrow> nat \<Rightarrow> 'a exn" where
  "idx_get what t i = ofOption (not_found what) (idx_find t i)"

definition idx_find_by :: "('a \<Rightarrow> bool) \<Rightarrow> 'a index \<Rightarrow> (nat \<times> 'a) option" where
  "idx_find_by P t = List.find (\<lambda>p. P (snd p)) (objs t)"

definition idx_create :: "'a index \<Rightarrow> 'a \<Rightarrow> 'a index" where
  "idx_create t v = t\<lparr>next_id := Suc (next_id t), objs := objs t @ [(next_id t, v)]\<rparr>"

definition idx_put :: "'a index \<Rightarrow> nat \<Rightarrow> 'a \<Rightarrow> 'a index" where
  "idx_put t i v = t\<lparr>objs := map (\<lambda>p. if fst p = i then (i, v) else p) (objs t)\<rparr>"

definition idx_remove :: "'a index \<Rightarrow> nat \<Rightarrow> 'a index" where
  "idx_remove t i = t\<lparr>objs := filter (\<lambda>p. fst p \<noteq> i) (objs t)\<rparr>"

definition idx_modify :: "string \<Rightarrow> 'a index \<Rightarrow> nat \<Rightarrow> ('a \<Rightarrow> 'a exn) \<Rightarrow> 'a index exn" where
  "idx_modify what t i f = bindE (idx_get what t i) (\<lambda>v. bindE (f v) (\<lambda>v'. Inr (idx_put t i v')))"

definition idx_sum :: "('a \<Rightarrow> int) \<Rightarrow> 'a index \<Rightarrow> int" where
  "idx_sum f t = sum_list (map (\<lambda>p. f (snd p)) (objs t))"

definition idx_ok :: "'a index \<Rightarrow> bool" where
  "idx_ok t \<longleftrightarrow> distinct (map fst (objs t)) \<and> (\<forall>p \<in> set (objs t). fst p < next_id t)"

section \<open>Lookup after an operation\<close>

lemma map_of_put:
  "map_of (map (\<lambda>p. if fst p = i then (i, v) else p) xs) j =
    (if j = i then (if map_of xs i = None then None else Some v) else map_of xs j)"
  by (induction xs) auto

lemma map_of_filter_neq: "map_of (filter (\<lambda>p. fst p \<noteq> i) xs) j = (if j = i then None else map_of xs j)"
  by (induction xs) auto

lemma idx_find_put:
  "idx_find (idx_put t i v) j = (if j = i then (if idx_find t i = None then None else Some v) else idx_find t j)"
  by (simp add: idx_find_def idx_put_def map_of_put)

lemma idx_find_remove: "idx_find (idx_remove t i) j = (if j = i then None else idx_find t j)"
  by (simp add: idx_find_def idx_remove_def map_of_filter_neq)

lemma idx_fresh: "idx_ok t \<Longrightarrow> idx_find t (next_id t) = None"
  by (force simp: idx_ok_def idx_find_def map_of_eq_None_iff)

lemma idx_find_create:
  "idx_ok t \<Longrightarrow> idx_find (idx_create t v) j = (if j = next_id t then Some v else idx_find t j)"
  using idx_fresh [of t] by (auto simp: idx_create_def idx_find_def map_add_def split: option.split)

lemma idx_get_eq_Inr [simp, exn_simps]: "idx_get w t i = Inr v \<longleftrightarrow> idx_find t i = Some v"
  by (simp add: idx_get_def)

lemma idx_modify_eq_Inr [simp, exn_simps]:
  "idx_modify w t i f = Inr t' \<longleftrightarrow> (\<exists>v v'. idx_find t i = Some v \<and> f v = Inr v' \<and> t' = idx_put t i v')"
  by (auto simp: idx_modify_def)

section \<open>Sums over an index\<close>

lemma sum_list_put:
  "distinct (map fst xs) \<Longrightarrow> map_of xs i = Some v \<Longrightarrow>
    sum_list (map (\<lambda>p. f (snd p)) (map (\<lambda>p. if fst p = i then (i, v') else p) xs))
      = sum_list (map (\<lambda>p. f (snd p)) xs) - f v + (f v' :: int)"
proof (induction xs)
  case (Cons p xs)
  have "map (\<lambda>p. if fst p = i then (i, v') else p) xs = xs" if "fst p = i"
    using Cons.prems that by (intro map_idI) (auto simp: image_iff)
  with Cons show ?case by (cases "fst p = i") (auto simp: o_def)
qed simp

lemma sum_list_del:
  "distinct (map fst xs) \<Longrightarrow> map_of xs i = Some v \<Longrightarrow>
    sum_list (map (\<lambda>p. f (snd p)) (filter (\<lambda>p. fst p \<noteq> i) xs)) = sum_list (map (\<lambda>p. f (snd p)) xs) - (f v :: int)"
proof (induction xs)
  case (Cons p xs)
  have "filter (\<lambda>p. fst p \<noteq> i) xs = xs" if "fst p = i"
    using Cons.prems that by (intro filter_True) (auto simp: image_iff)
  with Cons show ?case by (cases "fst p = i") auto
qed simp

lemma put_absent: "map_of xs i = None \<Longrightarrow> map (\<lambda>p. if fst p = i then (i, v) else p) xs = xs"
  by (intro map_idI) (auto simp: map_of_eq_None_iff image_iff)

lemma idx_sum_create: "idx_sum f (idx_create t v) = idx_sum f t + f v"
  by (simp add: idx_sum_def idx_create_def)

lemma idx_sum_put: "idx_ok t \<Longrightarrow> idx_find t i = Some v \<Longrightarrow> idx_sum f (idx_put t i v') = idx_sum f t - f v + f v'"
  by (simp add: idx_sum_def idx_put_def idx_ok_def idx_find_def sum_list_put del: map_map)

lemma idx_sum_put_same:
  "idx_ok t \<Longrightarrow> idx_find t i = Some v \<Longrightarrow> f v' = f v \<Longrightarrow> idx_sum f (idx_put t i v') = idx_sum f t"
  by (simp add: idx_sum_put)

lemma idx_sum_remove: "idx_ok t \<Longrightarrow> idx_find t i = Some v \<Longrightarrow> idx_sum f (idx_remove t i) = idx_sum f t - f v"
  by (simp add: idx_sum_def idx_remove_def idx_ok_def idx_find_def sum_list_del)

lemma idx_sum_empty [simp]: "idx_sum f idx_empty = 0"
  by (simp add: idx_sum_def idx_empty_def)

section \<open>Well-formed indices\<close>

lemma idx_ok_empty [simp]: "idx_ok idx_empty"
  by (simp add: idx_ok_def idx_empty_def)

lemma idx_ok_create [simp]: "idx_ok t \<Longrightarrow> idx_ok (idx_create t v)"
  by (fastforce simp: idx_ok_def idx_create_def)

lemma idx_ok_put [simp]: "idx_ok t \<Longrightarrow> idx_ok (idx_put t i v)"
proof -
  have "map fst (map (\<lambda>p. if fst p = i then (i, v) else p) xs) = map fst xs" for xs :: "(nat \<times> 'a) list"
    by (induction xs) auto
  then show "idx_ok t \<Longrightarrow> idx_ok (idx_put t i v)" by (auto simp: idx_ok_def idx_put_def simp del: map_map)
qed

lemma idx_ok_remove [simp]: "idx_ok t \<Longrightarrow> idx_ok (idx_remove t i)"
  by (auto simp: idx_ok_def idx_remove_def distinct_map intro: inj_on_subset)

lemma find_SomeD: "List.find P xs = Some x \<Longrightarrow> x \<in> set xs \<and> P x"
  by (induction xs) (auto split: if_splits)

lemma idx_find_by_SomeD:
  "idx_ok t \<Longrightarrow> idx_find_by P t = Some p \<Longrightarrow> idx_find t (fst p) = Some (snd p) \<and> P (snd p)"
  by (cases p) (auto simp: idx_find_by_def idx_find_def idx_ok_def dest: find_SomeD)

lemma idx_find_by_None: "idx_find_by P t = None \<longleftrightarrow> (\<forall>p \<in> set (objs t). \<not> P (snd p))"
  by (auto simp: idx_find_by_def find_None_iff)

lemma idx_find_in: "idx_find t i = Some v \<Longrightarrow> (i, v) \<in> set (objs t)"
  by (simp add: idx_find_def map_of_SomeD)

lemma in_idx_find: "idx_ok t \<Longrightarrow> (i, v) \<in> set (objs t) \<Longrightarrow> idx_find t i = Some v"
  by (simp add: idx_find_def idx_ok_def)

lemma objs_put_in:
  "p \<in> set (objs (idx_put t i v)) \<Longrightarrow> p \<in> set (objs t) \<or> p = (i, v)"
  by (auto simp: idx_put_def)

lemma objs_remove_in: "p \<in> set (objs (idx_remove t i)) \<Longrightarrow> p \<in> set (objs t)"
  by (simp add: idx_remove_def)

lemma objs_create [simp]: "objs (idx_create t v) = objs t @ [(next_id t, v)]"
  by (simp add: idx_create_def)

section \<open>The contract of an index\<close>

text \<open>
  What the chain components rely on: every operation keeps the index well formed, and changes the
  lookup and every sum over the objects exactly at the object it names.
\<close>

locale object_index =
  fixes find :: "'t \<Rightarrow> nat \<Rightarrow> 'a option"
    and total :: "('a \<Rightarrow> int) \<Rightarrow> 't \<Rightarrow> int"
    and create :: "'t \<Rightarrow> 'a \<Rightarrow> 't"
    and fresh :: "'t \<Rightarrow> nat"
    and put :: "'t \<Rightarrow> nat \<Rightarrow> 'a \<Rightarrow> 't"
    and remove :: "'t \<Rightarrow> nat \<Rightarrow> 't"
    and ok :: "'t \<Rightarrow> bool"
  assumes fresh_new: "ok t \<Longrightarrow> find t (fresh t) = None"
    and create_ok: "ok t \<Longrightarrow> ok (create t v)"
    and put_ok: "ok t \<Longrightarrow> ok (put t i v)"
    and remove_ok: "ok t \<Longrightarrow> ok (remove t i)"
    and find_create: "ok t \<Longrightarrow> find (create t v) j = (if j = fresh t then Some v else find t j)"
    and find_put: "find (put t i v) j = (if j = i then (if find t i = None then None else Some v) else find t j)"
    and find_remove: "find (remove t i) j = (if j = i then None else find t j)"
    and total_create: "ok t \<Longrightarrow> total f (create t v) = total f t + f v"
    and total_put: "ok t \<Longrightarrow> find t i = Some v \<Longrightarrow> total f (put t i v') = total f t - f v + f v'"
    and total_remove: "ok t \<Longrightarrow> find t i = Some v \<Longrightarrow> total f (remove t i) = total f t - f v"
begin

lemma create_then_remove_total: "ok t \<Longrightarrow> total f (remove (create t v) (fresh t)) = total f t"
  using total_remove [of "create t v" "fresh t" v f] by (simp add: create_ok find_create total_create)

lemma put_back_total: "ok t \<Longrightarrow> find t i = Some v \<Longrightarrow> total f (put (put t i v') i v) = total f t"
  using total_put [of "put t i v'" i v' f v] by (simp add: put_ok find_put total_put)

lemma move_total:
  assumes "ok t" "find t i = Some v" "find t j = Some w" "i \<noteq> j" "f v' = f v - x" "f w' = f w + x"
  shows "total f (put (put t i v') j w') = total f t"
proof -
  have "total f (put (put t i v') j w') = total f (put t i v') - f w + f w'"
    using assms by (intro total_put) (auto simp: put_ok find_put)
  then show ?thesis using assms total_put [of t i v f v'] by simp
qed

end

interpretation chain_index:
  object_index idx_find idx_sum idx_create next_id idx_put idx_remove idx_ok
  by unfold_locales
    (simp_all add: idx_fresh idx_find_create idx_find_put idx_find_remove idx_sum_create idx_sum_put idx_sum_remove)

end
