(* ===== verification/Block.thy ===== *)
theory Block
  imports Prelude
begin

text \<open>
  Blocks: \<^verbatim>\<open>protocol/block.hpp\<close> and \<^verbatim>\<open>protocol/block.cpp\<close>. A block id is the hash of the signed header with
  its first 32 bits overwritten by the block number, so it is modelled as that number and the rest
  of the hash. The hash functions of fc are the arguments \<open>header_hash\<close> and \<open>block_hashes\<close>.
\<close>

section \<open>Block ids and numbers\<close>

datatype block_id_type = Block_id (id_num: "32 word") (id_rest: nat)

definition zero_block_id :: block_id_type where
  "zero_block_id = Block_id 0 0"

record block_header =
  previous :: block_id_type
  timestamp :: time_point_sec
  block_witness :: witness_id_type
  transaction_merkle_root :: nat

record signed_block_header = block_header +
  witness_signature :: nat

record signed_block = signed_block_header +
  transactions :: "nat list"

definition num_from_id :: "block_id_type \<Rightarrow> 32 word" where
  "num_from_id i = id_num i"

definition block_num :: "'a block_header_scheme \<Rightarrow> 32 word" where
  "block_num b = num_from_id (previous b) + 1"

definition block_id :: "(signed_block_header \<Rightarrow> nat) \<Rightarrow> signed_block \<Rightarrow> block_id_type" where
  "block_id header_hash b = Block_id (block_num b) (header_hash (signed_block_header.truncate b))"

text \<open>A signee is valid when the key recovered from the signature of the digest is the expected one.\<close>

definition validate_signee ::
  "(signed_block_header \<Rightarrow> nat) \<Rightarrow> signed_block \<Rightarrow> nat \<Rightarrow> bool" where
  "validate_signee signee b expected_signee \<longleftrightarrow> signee (signed_block_header.truncate b) = expected_signee"

lemma num_of_block_id [simp]: "num_from_id (block_id h b) = block_num b"
  by (simp add: num_from_id_def block_id_def)

section \<open>The merkle root of the transactions\<close>

record block_hashes =
  merkle_digest :: "nat \<Rightarrow> nat"
  hash_pair :: "nat \<Rightarrow> nat \<Rightarrow> nat"
  hash_root :: "nat \<Rightarrow> nat"

text \<open>
  One pass of the outer loop: \<open>for( i = 0; i < i_max; i += 2 ) ids[k++] = hash( ids[i], ids[i+1] )\<close>
  writes the next level over the front of the vector it reads.
\<close>

function pair_loop :: "(nat \<Rightarrow> nat \<Rightarrow> nat) \<Rightarrow> nat \<Rightarrow> nat \<Rightarrow> nat \<Rightarrow> nat list \<Rightarrow> nat \<times> nat list" where
  "pair_loop h i_max i k ids =
    (if i < i_max then pair_loop h i_max (i + 2) (Suc k) (ids[k := h (ids ! i) (ids ! (i + 1))])
     else (k, ids))"
  by pat_completeness auto
termination by (relation "measure (\<lambda>(h, i_max, i, k, ids). i_max - i)") auto

declare pair_loop.simps [simp del]

definition merkle_level :: "(nat \<Rightarrow> nat \<Rightarrow> nat) \<Rightarrow> nat \<Rightarrow> nat list \<Rightarrow> nat \<times> nat list" where
  "merkle_level h n ids =
    (let i_max = n - n mod 2;
         r = pair_loop h i_max 0 0 ids
     in if n mod 2 = 1 then (Suc (fst r), (snd r)[fst r := snd r ! i_max]) else r)"

lemma pair_loop_count:
  "i \<le> i_max \<Longrightarrow> even (i_max - i) \<Longrightarrow> fst (pair_loop h i_max i k ids) = k + (i_max - i) div 2"
proof (induction h i_max i k ids rule: pair_loop.induct)
  case (1 h i_max i k ids)
  show ?case
  proof (cases "i < i_max")
    case True
    have "i + 2 \<le> i_max" using True 1(3) by (cases "i_max = Suc i") auto
    then show ?thesis using 1 True by (subst pair_loop.simps) (auto simp: le_div_geq)
  qed (use 1 in \<open>auto simp: pair_loop.simps\<close>)
qed

lemma merkle_level_count: "fst (merkle_level h n ids) = (n + 1) div 2"
proof -
  have "even (n - n mod 2)" by (simp add: dvd_minus_mod)
  moreover have "(n - n mod 2) div 2 = n div 2" by (simp add: minus_mod_eq_mult_div)
  ultimately have "fst (pair_loop h (n - n mod 2) 0 0 ids) = n div 2" by (simp add: pair_loop_count)
  moreover have "n mod 2 = 1 \<Longrightarrow> Suc (n div 2) = (n + 1) div 2" by presburger
  moreover have "n mod 2 \<noteq> 1 \<Longrightarrow> n div 2 = (n + 1) div 2" by presburger
  ultimately show ?thesis by (cases "n mod 2 = 1") (auto simp: merkle_level_def Let_def)
qed

function merkle_loop :: "(nat \<Rightarrow> nat \<Rightarrow> nat) \<Rightarrow> nat \<Rightarrow> nat list \<Rightarrow> nat list" where
  "merkle_loop h n ids =
    (if 1 < n then merkle_loop h (fst (merkle_level h n ids)) (snd (merkle_level h n ids)) else ids)"
  by pat_completeness auto
termination by (relation "measure (\<lambda>(h, n, ids). n)") (auto simp: merkle_level_count)

declare merkle_loop.simps [simp del]

definition calculate_merkle_root :: "block_hashes \<Rightarrow> signed_block \<Rightarrow> nat" where
  "calculate_merkle_root hs b =
    (if length (transactions b) = 0 then 0
     else hash_root hs
       (hd (merkle_loop (hash_pair hs) (length (transactions b)) (map (merkle_digest hs) (transactions b)))))"

section \<open>The reference tree\<close>

text \<open>
  The specification the loop implements: each level hashes its digests in pairs and passes an odd
  last digest on, until one is left.
\<close>

fun pair_up :: "(nat \<Rightarrow> nat \<Rightarrow> nat) \<Rightarrow> nat list \<Rightarrow> nat list" where
  "pair_up h (x # y # zs) = h x y # pair_up h zs"
| "pair_up h zs = zs"

lemma length_pair_up [simp]: "length (pair_up h xs) = (length xs + 1) div 2"
  by (induction h xs rule: pair_up.induct) auto

function merkle_tree :: "(nat \<Rightarrow> nat \<Rightarrow> nat) \<Rightarrow> nat list \<Rightarrow> nat" where
  "merkle_tree h xs = (if 1 < length xs then merkle_tree h (pair_up h xs) else hd xs)"
  by pat_completeness auto
termination by (relation "measure (\<lambda>(h, xs). length xs)") auto

declare merkle_tree.simps [simp del]

lemma pair_up_append_even:
  "even (length xs) \<Longrightarrow> pair_up h (xs @ ys) = pair_up h xs @ pair_up h ys"
  by (induction h xs rule: pair_up.induct) auto

lemma drop_two: "Suc i < length xs \<Longrightarrow> drop i xs = xs ! i # xs ! Suc i # drop (Suc (Suc i)) xs"
  by (simp add: Cons_nth_drop_Suc)

text \<open>The loop reads ahead of where it writes, so it never reads a digest of the next level.\<close>

lemma pair_loop_correct:
  assumes "k \<le> i" "i \<le> i_max" "i_max \<le> length ids" "even (i_max - i)" "pair_loop h i_max i k ids = (k', ids')"
  shows "take k' ids' = take k ids @ pair_up h (take (i_max - i) (drop i ids)) \<and> length ids' = length ids
    \<and> drop i_max ids' = drop i_max ids"
  using assms
proof (induction h i_max i k ids arbitrary: k' ids' rule: pair_loop.induct)
  case (1 h i_max i k ids)
  show ?case
  proof (cases "i < i_max")
    case True
    let ?ids = "ids[k := h (ids ! i) (ids ! (i + 1))]"
    have le: "i + 2 \<le> i_max" using True 1(5) by (cases "i_max = Suc i") auto
    have ev: "even (i_max - (i + 2))" using 1(5) le by (simp add: diff_diff_left [symmetric] del: diff_diff_left)
    have *: "take k' ids' = take (Suc k) ?ids @ pair_up h (take (i_max - (i + 2)) (drop (i + 2) ?ids))
        \<and> length ids' = length ?ids \<and> drop i_max ids' = drop i_max ?ids"
      using 1(2,4,6) True le ev by (intro 1(1)) (auto simp: pair_loop.simps [of h i_max i])
    have d: "drop i ids = ids ! i # ids ! Suc i # drop (i + 2) ids"
      using 1(4) le drop_two [of i ids] by simp
    have t: "take (i_max - i) (drop i ids)
        = ids ! i # ids ! Suc i # take (i_max - (i + 2)) (drop (i + 2) ids)"
    proof -
      have "i_max - i = Suc (Suc (i_max - (i + 2)))" using le by simp
      then show ?thesis unfolding d by simp
    qed
    have "take (Suc k) ?ids = take k ids @ [h (ids ! i) (ids ! Suc i)]"
      using 1(2,4) True by (simp add: take_Suc_conv_app_nth)
    moreover have "drop (i + 2) ?ids = drop (i + 2) ids" "drop i_max ?ids = drop i_max ids"
      using 1(2) True by auto
    ultimately show ?thesis using * t by simp
  next
    case False
    then have "i = i_max" using 1(3) by simp
    then show ?thesis using 1(6) by (simp add: pair_loop.simps [of h i_max i_max])
  qed
qed

lemma merkle_level_correct:
  assumes "n \<le> length ids"
  shows "take (fst (merkle_level h n ids)) (snd (merkle_level h n ids)) = pair_up h (take n ids)
    \<and> length (snd (merkle_level h n ids)) = length ids"
proof -
  let ?m = "n - n mod 2"
  obtain k' ids' where r: "pair_loop h ?m 0 0 ids = (k', ids')" by (cases "pair_loop h ?m 0 0 ids")
  have ev: "even ?m" by (simp add: dvd_minus_mod)
  have c: "take k' ids' = pair_up h (take ?m ids)" "length ids' = length ids" "drop ?m ids' = drop ?m ids"
    using pair_loop_correct [of 0 0 ?m ids h k' ids'] r ev assms by auto
  show ?thesis
  proof (cases "n mod 2 = 1")
    case True
    have lt: "?m < length ids" "Suc ?m = n" using True assms by (auto elim!: oddE simp: odd_iff_mod_2_eq_one)
    have "k' = ?m div 2" using pair_loop_count [of 0 ?m h 0 ids] r ev by simp
    then have k: "k' < length ids" using lt by linarith
    have "ids' ! ?m = ids ! ?m" using c(2,3) lt(1) by (metis hd_drop_conv_nth)
    moreover have "take n ids = take ?m ids @ [ids ! ?m]" using lt by (metis take_Suc_conv_app_nth)
    moreover have "even (length (take ?m ids))" using ev lt by (simp add: min_absorb2)
    ultimately show ?thesis using True r c k
      by (simp add: merkle_level_def Let_def pair_up_append_even take_Suc_conv_app_nth)
  next
    case False
    then show ?thesis using r c by (simp add: merkle_level_def Let_def)
  qed
qed

lemma merkle_loop_correct:
  "0 < n \<Longrightarrow> n \<le> length ids \<Longrightarrow> hd (merkle_loop h n ids) = merkle_tree h (take n ids)"
proof (induction h n ids rule: merkle_loop.induct)
  case (1 h n ids)
  show ?case
  proof (cases "1 < n")
    case True
    have m: "(n + 1) div 2 \<le> length ids" using True 1(3) by linarith
    have "merkle_tree h (take n ids) = merkle_tree h (pair_up h (take n ids))"
      using True 1(3) by (subst merkle_tree.simps) simp
    then show ?thesis
      using True 1 m merkle_level_correct [OF 1(3), of h]
      by (subst merkle_loop.simps) (simp add: merkle_level_count)
  next
    case False
    then have "n = 1" using 1(2) by simp
    then show ?thesis using 1(3) by (subst merkle_loop.simps, subst merkle_tree.simps) (cases ids, auto)
  qed
qed

text \<open>C40: The merkle root of a block, computed in place over one vector of digests that each pass
overwrites from the front, is the root of the hash tree of the transactions' digests (each level
pairs its digests and passes an odd last one on), and 0 for an empty block. No pass reads a digest
that it has overwritten, and no index is out of range.\<close>

theorem merkle_root_is_tree_root:
  "calculate_merkle_root hs b =
    (case transactions b of [] \<Rightarrow> 0
     | _ \<Rightarrow> hash_root hs (merkle_tree (hash_pair hs) (map (merkle_digest hs) (transactions b))))"
  using merkle_loop_correct [of "length (transactions b)" "map (merkle_digest hs) (transactions b)" "hash_pair hs"]
  by (simp add: calculate_merkle_root_def split: list.split)

end
