(* ===== verification/Authority.thy ===== *)
theory Authority
  imports Prelude
begin

text \<open>
  Who may do what: authorities (\<^verbatim>\<open>protocol/authority.hpp\<close>) and the check of the signatures of a
  transaction against them (\<open>sign_state\<close>, \<open>verify_authority\<close> and the signature sets of
  \<^verbatim>\<open>protocol/transaction.cpp\<close>). A \<^verbatim>\<open>flat_map\<close> is the list of its entries in the order of the keys.
  Public keys and addresses are numbers; the five addresses of a key, the recovery of a key from a
  signature and the authorities that an operation requires are parameters. Reading through the end
  iterator, which the code does for an address that no key matches, is an error of its own.
\<close>

section \<open>Authorities\<close>

type_synonym public_key = nat
type_synonym address = nat
type_synonym weight_type = nat

record authority =
  weight_threshold :: nat
  account_auths :: "(account_id_type \<times> weight_type) list"
  key_auths :: "(public_key \<times> weight_type) list"
  address_auths :: "(address \<times> weight_type) list"

definition GRAPHENE_COMMITTEE_ACCOUNT :: account_id_type where "GRAPHENE_COMMITTEE_ACCOUNT = 0"
definition GRAPHENE_NULL_ACCOUNT :: account_id_type where "GRAPHENE_NULL_ACCOUNT = 3"
definition GRAPHENE_TEMP_ACCOUNT :: account_id_type where "GRAPHENE_TEMP_ACCOUNT = 4"
definition GRAPHENE_MAX_SIG_CHECK_DEPTH :: nat where "GRAPHENE_MAX_SIG_CHECK_DEPTH = 2"

text \<open>Assignment through the key of a \<^verbatim>\<open>flat_map\<close>.\<close>

fun flat_put :: "nat \<Rightarrow> 'v \<Rightarrow> (nat \<times> 'v) list \<Rightarrow> (nat \<times> 'v) list" where
  "flat_put k v [] = [(k, v)]"
| "flat_put k v ((k', v') # ps) = (if k' = k then (k, v) # ps else if k < k' then (k, v) # (k', v') # ps
    else (k', v') # flat_put k v ps)"

definition add_key_authority :: "public_key \<Rightarrow> weight_type \<Rightarrow> authority \<Rightarrow> authority" where
  "add_key_authority k w au = au\<lparr>key_auths := flat_put k w (key_auths au)\<rparr>"

definition add_address_authority :: "address \<Rightarrow> weight_type \<Rightarrow> authority \<Rightarrow> authority" where
  "add_address_authority k w au = au\<lparr>address_auths := flat_put k w (address_auths au)\<rparr>"

definition add_account_authority :: "account_id_type \<Rightarrow> weight_type \<Rightarrow> authority \<Rightarrow> authority" where
  "add_account_authority k w au = au\<lparr>account_auths := flat_put k w (account_auths au)\<rparr>"

definition empty_authority :: authority where
  "empty_authority = \<lparr>weight_threshold = 0, account_auths = [], key_auths = [], address_auths = []\<rparr>"

definition is_impossible :: "authority \<Rightarrow> bool" where
  "is_impossible au \<longleftrightarrow>
    (sum_list (map snd (account_auths au)) + sum_list (map snd (key_auths au)) + sum_list (map snd (address_auths au)))
      mod 2 ^ 64 < weight_threshold au"

definition get_keys :: "authority \<Rightarrow> public_key list" where
  "get_keys au = map fst (key_auths au)"

definition get_addresses :: "authority \<Rightarrow> address list" where
  "get_addresses au = map fst (address_auths au)"

definition num_auths :: "authority \<Rightarrow> nat" where
  "num_auths au = length (account_auths au) + length (key_auths au) + length (address_auths au)"

definition clear :: "authority \<Rightarrow> authority" where
  "clear au = au\<lparr>account_auths := [], key_auths := []\<rparr>"

definition null_authority :: authority where
  "null_authority = \<lparr>weight_threshold = 1, account_auths = [(GRAPHENE_NULL_ACCOUNT, 1)], key_auths = [], address_auths = []\<rparr>"

definition add_authority_accounts :: "account_id_type list \<Rightarrow> authority \<Rightarrow> account_id_type list" where
  "add_authority_accounts result au = foldl (\<lambda>r i. List.insert (fst i) r) result (account_auths au)"

section \<open>The state of a signature check\<close>

record sign_state =
  available_keys :: "public_key list"
  provided_signatures :: "(public_key \<times> bool) list"
  address_sigs :: "((address \<times> public_key) list \<times> (address \<times> public_key) list) option"
  approved_by :: "account_id_type list"

fun put_signature :: "public_key \<Rightarrow> (public_key \<times> bool) list \<Rightarrow> (public_key \<times> bool) list" where
  "put_signature k [] = [(k, True)]"
| "put_signature k ((k', b) # sigs) = (if k' = k then (k, True) # sigs else if k < k' then (k, True) # (k', b) # sigs
    else (k', b) # put_signature k sigs)"

definition signed_by_key :: "public_key \<Rightarrow> sign_state \<Rightarrow> bool \<times> sign_state" where
  "signed_by_key k st =
    (case map_of (provided_signatures st) k of
       None \<Rightarrow>
         if k \<in> set (available_keys st)
         then (True, st\<lparr>provided_signatures := put_signature k (provided_signatures st)\<rparr>) else (False, st)
     | Some _ \<Rightarrow> (True, st\<lparr>provided_signatures := put_signature k (provided_signatures st)\<rparr>))"

definition address_map :: "(public_key \<Rightarrow> address list) \<Rightarrow> public_key list \<Rightarrow> (address \<times> public_key) list" where
  "address_map addresses ks = rev (concat (map (\<lambda>k. map (\<lambda>a. (a, k)) (addresses k)) ks))"

definition signed_by_address ::
  "(public_key \<Rightarrow> address list) \<Rightarrow> address \<Rightarrow> sign_state \<Rightarrow> (bool \<times> sign_state) exn" where
  "signed_by_address addresses a st =
    (let st = (case address_sigs st of
                 Some _ \<Rightarrow> st
               | None \<Rightarrow> st\<lparr>address_sigs := Some (address_map addresses (available_keys st),
                            address_map addresses (map fst (provided_signatures st)))\<rparr>);
         available = (case address_sigs st of Some p \<Rightarrow> fst p | None \<Rightarrow> []);
         provided = (case address_sigs st of Some p \<Rightarrow> snd p | None \<Rightarrow> [])
     in case map_of provided a of
          Some k \<Rightarrow> Inr (True, st\<lparr>provided_signatures := put_signature k (provided_signatures st)\<rparr>)
        | None \<Rightarrow> (case map_of available a of
            Some k \<Rightarrow>
              if k \<in> set (available_keys st)
              then Inr (True, st\<lparr>provided_signatures := put_signature k (provided_signatures st)\<rparr>) else Inr (False, st)
          | None \<Rightarrow> Inl (not_found ''provided_address_sigs->end()'')))"

text \<open>
  The three loops of \<open>check_authority\<close>. Each returns whether the threshold is reached, the weight so
  far and the state; \<open>sub\<close> is the check of an account one level deeper.
\<close>

fun key_loop :: "nat \<Rightarrow> (public_key \<times> weight_type) list \<Rightarrow> nat \<Rightarrow> sign_state \<Rightarrow> bool \<times> nat \<times> sign_state" where
  "key_loop threshold [] weight st = (False, weight, st)"
| "key_loop threshold ((k, w) # ks) weight st =
    (let r = signed_by_key k st in
     if fst r
     then let weight = (weight + w) mod 2 ^ 32
          in if threshold \<le> weight then (True, weight, snd r) else key_loop threshold ks weight (snd r)
     else key_loop threshold ks weight (snd r))"

fun address_loop ::
  "(public_key \<Rightarrow> address list) \<Rightarrow> nat \<Rightarrow> (address \<times> weight_type) list \<Rightarrow> nat \<Rightarrow> sign_state \<Rightarrow> (bool \<times> nat \<times> sign_state) exn" where
  "address_loop addresses threshold [] weight st = Inr (False, weight, st)"
| "address_loop addresses threshold ((a, w) # as) weight st =
    bindE (signed_by_address addresses a st) (\<lambda>r.
    if fst r
    then let weight = (weight + w) mod 2 ^ 32
         in if threshold \<le> weight then Inr (True, weight, snd r) else address_loop addresses threshold as weight (snd r)
    else address_loop addresses threshold as weight (snd r))"

fun account_loop ::
  "(account_id_type \<Rightarrow> sign_state \<Rightarrow> (bool \<times> sign_state) exn) \<Rightarrow> nat \<Rightarrow> (account_id_type \<times> weight_type) list
    \<Rightarrow> nat \<Rightarrow> sign_state \<Rightarrow> (bool \<times> nat \<times> sign_state) exn" where
  "account_loop sub threshold [] weight st = Inr (False, weight, st)"
| "account_loop sub threshold ((a, w) # as) weight st =
    bindE (if a \<in> set (approved_by st) then Inr (True, st)
           else bindE (sub a st) (\<lambda>r.
                Inr (if fst r then (True, (snd r)\<lparr>approved_by := List.insert a (approved_by (snd r))\<rparr>) else r))) (\<lambda>r.
    if fst r
    then let weight = (weight + w) mod 2 ^ 32
         in if threshold \<le> weight then Inr (True, weight, snd r) else account_loop sub threshold as weight (snd r)
    else account_loop sub threshold as weight (snd r))"

definition check_auth_body ::
  "(public_key \<Rightarrow> address list) \<Rightarrow> (account_id_type \<Rightarrow> sign_state \<Rightarrow> (bool \<times> sign_state) exn) \<Rightarrow> authority option
    \<Rightarrow> sign_state \<Rightarrow> (bool \<times> sign_state) exn" where
  "check_auth_body addresses sub au st =
    (case au of
       None \<Rightarrow> Inr (False, st)
     | Some auth \<Rightarrow>
         (case key_loop (weight_threshold auth) (key_auths auth) 0 st of
            (True, _, st) \<Rightarrow> Inr (True, st)
          | (False, weight, st) \<Rightarrow>
              bindE (address_loop addresses (weight_threshold auth) (address_auths auth) weight st) (\<lambda>(done, weight, st).
              if done then Inr (True, st)
              else bindE (account_loop sub (weight_threshold auth) (account_auths auth) weight st) (\<lambda>(done, weight, st).
                   if done then Inr (True, st) else Inr (weight_threshold auth \<le> weight, st)))))"

text \<open>
  The recursion of \<open>check_authority\<close>, by the number of levels that are left: it starts at \<open>depth = 0\<close>
  with \<open>max_recursion\<close> levels, and with \<open>depth == max_recursion\<close> an account that is not approved is
  skipped.
\<close>

primrec check_authority ::
  "(public_key \<Rightarrow> address list) \<Rightarrow> (account_id_type \<Rightarrow> authority option) \<Rightarrow> nat \<Rightarrow> authority option \<Rightarrow> sign_state
    \<Rightarrow> (bool \<times> sign_state) exn" where
  "check_authority addresses get_active 0 = check_auth_body addresses (\<lambda>a st. Inr (False, st))"
| "check_authority addresses get_active (Suc n) =
    check_auth_body addresses (\<lambda>a. check_authority addresses get_active n (get_active a))"

definition check_account ::
  "(public_key \<Rightarrow> address list) \<Rightarrow> (account_id_type \<Rightarrow> authority option) \<Rightarrow> nat \<Rightarrow> account_id_type \<Rightarrow> sign_state
    \<Rightarrow> (bool \<times> sign_state) exn" where
  "check_account addresses get_active n a st =
    (if a \<in> set (approved_by st) then Inr (True, st) else check_authority addresses get_active n (get_active a) st)"

definition remove_unused_signatures :: "sign_state \<Rightarrow> bool \<times> sign_state" where
  "remove_unused_signatures st =
    (let remove_sigs = map fst (filter (\<lambda>s. \<not> snd s) (provided_signatures st))
     in (length remove_sigs \<noteq> 0,
         st\<lparr>provided_signatures := filter (\<lambda>s. fst s \<notin> set remove_sigs) (provided_signatures st)\<rparr>))"

definition mk_sign_state :: "public_key list \<Rightarrow> public_key list \<Rightarrow> sign_state" where
  "mk_sign_state sigs keys = \<lparr>available_keys = keys, provided_signatures = map (\<lambda>k. (k, False)) sigs, address_sigs = None,
     approved_by = [GRAPHENE_TEMP_ACCOUNT]\<rparr>"

section \<open>Verifying a transaction\<close>

text \<open>
  The authorities that the operations of a transaction require: the accounts that must approve with
  their active or their owner authority, and other authorities.
\<close>

record required_authorities =
  required_active :: "account_id_type list"
  required_owner :: "account_id_type list"
  required_other :: "authority list"

definition require_others ::
  "(public_key \<Rightarrow> address list) \<Rightarrow> (account_id_type \<Rightarrow> authority option) \<Rightarrow> nat \<Rightarrow> authority list \<Rightarrow> sign_state \<Rightarrow> sign_state exn" where
  "require_others addresses get_active n =
    foldE (\<lambda>au st. bindE (check_authority addresses get_active n (Some au) st) (\<lambda>r.
      if fst r then Inr (snd r) else Inl (chain_exception ''tx_missing_other_auth'')))"

definition require_active ::
  "(public_key \<Rightarrow> address list) \<Rightarrow> (account_id_type \<Rightarrow> authority option) \<Rightarrow> (account_id_type \<Rightarrow> authority option) \<Rightarrow> nat
    \<Rightarrow> account_id_type list \<Rightarrow> sign_state \<Rightarrow> sign_state exn" where
  "require_active addresses get_active get_owner n =
    foldE (\<lambda>a st. bindE (check_account addresses get_active n a st) (\<lambda>r.
      if fst r then Inr (snd r)
      else bindE (check_authority addresses get_active n (get_owner a) (snd r)) (\<lambda>r.
           if fst r then Inr (snd r) else Inl (chain_exception ''tx_missing_active_auth''))))"

definition require_owner ::
  "(public_key \<Rightarrow> address list) \<Rightarrow> (account_id_type \<Rightarrow> authority option) \<Rightarrow> (account_id_type \<Rightarrow> authority option) \<Rightarrow> nat
    \<Rightarrow> account_id_type list \<Rightarrow> account_id_type list \<Rightarrow> sign_state \<Rightarrow> sign_state exn" where
  "require_owner addresses get_active get_owner n owner_approvals =
    foldE (\<lambda>a st. if a \<in> set owner_approvals then Inr st
      else bindE (check_authority addresses get_active n (get_owner a) st) (\<lambda>r.
           if fst r then Inr (snd r) else Inl (chain_exception ''tx_missing_owner_auth'')))"

definition verify_authority ::
  "(public_key \<Rightarrow> address list) \<Rightarrow> required_authorities \<Rightarrow> public_key list \<Rightarrow> (account_id_type \<Rightarrow> authority option)
    \<Rightarrow> (account_id_type \<Rightarrow> authority option) \<Rightarrow> nat \<Rightarrow> bool \<Rightarrow> account_id_type list \<Rightarrow> account_id_type list \<Rightarrow> unit exn" where
  "verify_authority addresses req sigs get_active get_owner max_recursion_depth allow_committe active_aprovals owner_approvals =
    bindE (if \<not> allow_committe \<and> GRAPHENE_COMMITTEE_ACCOUNT \<in> set (required_active req)
           then Inl (chain_exception ''invalid_committee_approval'') else Inr ()) (\<lambda>_.
    let s = mk_sign_state sigs [];
        s = s\<lparr>approved_by := foldl (\<lambda>l a. List.insert a l) (foldl (\<lambda>l a. List.insert a l) (approved_by s) active_aprovals) owner_approvals\<rparr>
    in bindE (require_others addresses get_active max_recursion_depth (required_other req) s) (\<lambda>s.
    bindE (require_active addresses get_active get_owner max_recursion_depth (required_active req) s) (\<lambda>s.
    bindE (require_owner addresses get_active get_owner max_recursion_depth owner_approvals (required_owner req) s) (\<lambda>s.
    if fst (remove_unused_signatures s) then Inl (chain_exception ''tx_irrelevant_sig'') else Inr ()))))"

section \<open>The signatures of a transaction\<close>

definition get_signature_keys :: "('sig \<Rightarrow> public_key) \<Rightarrow> 'sig list \<Rightarrow> public_key list exn" where
  "get_signature_keys recover signatures =
    foldE (\<lambda>sig result. if recover sig \<in> set result then Inl (chain_exception ''tx_duplicate_sig'')
      else Inr (insort (recover sig) result)) signatures []"

definition get_required_signatures ::
  "(public_key \<Rightarrow> address list) \<Rightarrow> required_authorities \<Rightarrow> public_key list \<Rightarrow> public_key list \<Rightarrow> (account_id_type \<Rightarrow> authority option)
    \<Rightarrow> (account_id_type \<Rightarrow> authority option) \<Rightarrow> nat \<Rightarrow> public_key list exn" where
  "get_required_signatures addresses req sig_keys keys get_active get_owner max_recursion_depth =
    bindE (foldE (\<lambda>au st. bindE (check_authority addresses get_active max_recursion_depth (Some au) st) (\<lambda>r. Inr (snd r)))
             (required_other req) (mk_sign_state sig_keys keys)) (\<lambda>s.
    bindE (foldE (\<lambda>a st. bindE (check_authority addresses get_active max_recursion_depth (get_owner a) st) (\<lambda>r. Inr (snd r)))
             (required_owner req) s) (\<lambda>s.
    bindE (foldE (\<lambda>a st. bindE (check_account addresses get_active max_recursion_depth a st) (\<lambda>r. Inr (snd r)))
             (required_active req) s) (\<lambda>s.
    Inr (filter (\<lambda>k. k \<in> set keys) (map fst (provided_signatures (snd (remove_unused_signatures s))))))))"

definition missing_auth :: "error \<Rightarrow> bool" where
  "missing_auth e \<longleftrightarrow> e \<in> {chain_exception ''tx_missing_owner_auth'', chain_exception ''tx_missing_active_auth'',
     chain_exception ''tx_missing_other_auth''}"

definition minimize_required_signatures ::
  "(public_key \<Rightarrow> address list) \<Rightarrow> required_authorities \<Rightarrow> public_key list \<Rightarrow> public_key list \<Rightarrow> (account_id_type \<Rightarrow> authority option)
    \<Rightarrow> (account_id_type \<Rightarrow> authority option) \<Rightarrow> nat \<Rightarrow> public_key list exn" where
  "minimize_required_signatures addresses req sig_keys keys get_active get_owner max_recursion =
    bindE (get_required_signatures addresses req sig_keys keys get_active get_owner max_recursion) (\<lambda>s.
    foldE (\<lambda>k result.
      case verify_authority addresses req (removeAll k result) get_active get_owner max_recursion False [] [] of
        Inr _ \<Rightarrow> Inr (removeAll k result)
      | Inl e \<Rightarrow> if missing_auth e then Inr result else Inl e) s s)"

section \<open>What an authority means\<close>

text \<open>
  An authority is satisfied by a set of keys, their addresses and a set of approving accounts when the
  weights of the keys, of the addresses and of the accounts that approve reach the threshold; an account
  approves when it is in the set or when its active authority is satisfied in turn. The second definition
  bounds the depth.
\<close>

definition weight_in :: "nat set \<Rightarrow> (nat \<times> weight_type) list \<Rightarrow> nat" where
  "weight_in S ps = sum_list (map snd (filter (\<lambda>p. fst p \<in> S) ps))"

definition own_weight :: "public_key set \<Rightarrow> address set \<Rightarrow> authority \<Rightarrow> nat" where
  "own_weight K D au = weight_in K (key_auths au) + weight_in D (address_auths au)"

inductive satisfied ::
  "public_key set \<Rightarrow> address set \<Rightarrow> account_id_type set \<Rightarrow> (account_id_type \<Rightarrow> authority option) \<Rightarrow> authority \<Rightarrow> bool"
  for K :: "public_key set" and D :: "address set" and A :: "account_id_type set" and act :: "account_id_type \<Rightarrow> authority option" where
  satisfiedI: "(\<forall>a \<in> G. a \<in> A \<or> (\<exists>b. act a = Some b \<and> satisfied K D A act b)) \<Longrightarrow>
    weight_threshold au \<le> own_weight K D au + weight_in G (account_auths au) \<Longrightarrow> satisfied K D A act au"

definition approvers ::
  "public_key set \<Rightarrow> address set \<Rightarrow> account_id_type set \<Rightarrow> (account_id_type \<Rightarrow> authority option) \<Rightarrow> account_id_type set" where
  "approvers K D A act = {a. a \<in> A \<or> (\<exists>b. act a = Some b \<and> satisfied K D A act b)}"

primrec satisfied_within ::
  "public_key set \<Rightarrow> address set \<Rightarrow> account_id_type set \<Rightarrow> (account_id_type \<Rightarrow> authority option) \<Rightarrow> nat \<Rightarrow> authority \<Rightarrow> bool" where
  "satisfied_within K D A act 0 au \<longleftrightarrow> weight_threshold au \<le> own_weight K D au + weight_in A (account_auths au)"
| "satisfied_within K D A act (Suc n) au \<longleftrightarrow> weight_threshold au \<le> own_weight K D au
     + weight_in {a. a \<in> A \<or> (\<exists>b. act a = Some b \<and> satisfied_within K D A act n b)} (account_auths au)"

definition addresses_of :: "(public_key \<Rightarrow> address list) \<Rightarrow> public_key set \<Rightarrow> address set" where
  "addresses_of adr K = (\<Union>k \<in> K. set (adr k))"

text \<open>
  The weights of an authority that cannot wrap the 32 bits of their sum: they have 16 bits each, so
  only an authority of more than 65537 entries can fail it.
\<close>

definition no_wrap :: "authority \<Rightarrow> bool" where
  "no_wrap au \<longleftrightarrow> sum_list (map snd (key_auths au)) + sum_list (map snd (address_auths au))
     + sum_list (map snd (account_auths au)) < 2 ^ 32"

definition lists_unsigned :: "(public_key \<Rightarrow> address list) \<Rightarrow> public_key set \<Rightarrow> authority \<Rightarrow> bool" where
  "lists_unsigned adr K au \<longleftrightarrow> \<not> fst ` set (address_auths au) \<subseteq> addresses_of adr K"

abbreviation no_address :: error where
  "no_address \<equiv> not_found ''provided_address_sigs->end()''"

section \<open>The check of one authority\<close>

definition sigs_inv :: "(public_key \<Rightarrow> address list) \<Rightarrow> public_key set \<Rightarrow> sign_state \<Rightarrow> bool" where
  "sigs_inv adr K st \<longleftrightarrow> (case address_sigs st of None \<Rightarrow> True | Some (av, pr) \<Rightarrow> av = []
     \<and> (\<forall>a. case map_of pr a of None \<Rightarrow> a \<notin> addresses_of adr K | Some k \<Rightarrow> k \<in> K \<and> a \<in> addresses_of adr K))"

definition check_inv ::
  "(public_key \<Rightarrow> address list) \<Rightarrow> public_key set \<Rightarrow> account_id_type set \<Rightarrow> (account_id_type \<Rightarrow> authority option) \<Rightarrow> sign_state \<Rightarrow> bool" where
  "check_inv adr K A act st \<longleftrightarrow> available_keys st = [] \<and> fst ` set (provided_signatures st) = K
     \<and> A \<subseteq> set (approved_by st) \<and> set (approved_by st) \<subseteq> approvers K (addresses_of adr K) A act \<and> sigs_inv adr K st"

lemma weight_in_simps [simp]: "weight_in S [] = 0" "weight_in S (p # ps) = (if fst p \<in> S then snd p else 0) + weight_in S ps"
  by (simp_all add: weight_in_def)

lemma weight_in_le: "weight_in S ps \<le> sum_list (map snd ps)"
  by (induction ps) auto

lemma weight_in_mono: "S \<subseteq> T \<Longrightarrow> weight_in S ps \<le> weight_in T ps"
  by (induction ps) auto

lemma put_signature_keys: "fst ` set (put_signature k sigs) = insert k (fst ` set sigs)"
  by (induction k sigs rule: put_signature.induct) auto

lemma put_signature_inv:
  "check_inv adr K A act st \<Longrightarrow> k \<in> K \<Longrightarrow> check_inv adr K A act (st\<lparr>provided_signatures := put_signature k (provided_signatures st)\<rparr>)"
  by (auto simp: check_inv_def sigs_inv_def put_signature_keys)

lemma signed_by_key_correct:
  assumes "check_inv adr K A act st"
  shows "fst (signed_by_key k st) \<longleftrightarrow> k \<in> K" "check_inv adr K A act (snd (signed_by_key k st))"
proof -
  have "map_of (provided_signatures st) k = None \<longleftrightarrow> k \<notin> K" using assms by (auto simp: check_inv_def map_of_eq_None_iff)
  moreover have "available_keys st = []" using assms by (simp add: check_inv_def)
  ultimately show "fst (signed_by_key k st) \<longleftrightarrow> k \<in> K" "check_inv adr K A act (snd (signed_by_key k st))"
    using assms put_signature_inv [OF assms, of k]
    by (cases "map_of (provided_signatures st) k"; simp add: signed_by_key_def)+
qed

lemma address_map_None: "map_of (address_map adr ks) a = None \<longleftrightarrow> a \<notin> addresses_of adr (set ks)"
  by (auto simp: address_map_def addresses_of_def map_of_eq_None_iff image_iff)

lemma address_map_Some: "map_of (address_map adr ks) a = Some k \<Longrightarrow> k \<in> set ks \<and> a \<in> addresses_of adr (set ks)"
  by (drule map_of_SomeD) (auto simp: address_map_def addresses_of_def)

lemma signed_by_address_correct:
  assumes "check_inv adr K A act st"
  shows "if a \<in> addresses_of adr K then \<exists>st'. signed_by_address adr a st = Inr (True, st') \<and> check_inv adr K A act st'
    else signed_by_address adr a st = Inl no_address"
proof -
  define st1 where "st1 = (case address_sigs st of Some _ \<Rightarrow> st
     | None \<Rightarrow> st\<lparr>address_sigs := Some (address_map adr (available_keys st), address_map adr (map fst (provided_signatures st)))\<rparr>)"
  have fields: "available_keys st1 = available_keys st" "provided_signatures st1 = provided_signatures st"
    "approved_by st1 = approved_by st"
    by (simp_all add: st1_def split: option.split)
  have K: "set (map fst (provided_signatures st)) = K" and av: "available_keys st = []" and s0: "sigs_inv adr K st"
    using assms by (auto simp: check_inv_def)
  obtain pr where pr: "address_sigs st1 = Some ([], pr)"
    "\<forall>a. case map_of pr a of None \<Rightarrow> a \<notin> addresses_of adr K | Some k \<Rightarrow> k \<in> K \<and> a \<in> addresses_of adr K"
  proof (cases "address_sigs st")
    case None
    show thesis
    proof (rule that)
      show "address_sigs st1 = Some ([], address_map adr (map fst (provided_signatures st)))"
        by (simp add: st1_def None av) (simp add: address_map_def)
      show "\<forall>a. case map_of (address_map adr (map fst (provided_signatures st))) a of None \<Rightarrow> a \<notin> addresses_of adr K
          | Some k \<Rightarrow> k \<in> K \<and> a \<in> addresses_of adr K"
        using address_map_None [of adr "map fst (provided_signatures st)"] address_map_Some [of adr "map fst (provided_signatures st)"]
        unfolding K by (auto split: option.split)
    qed
  next
    case (Some p)
    then show thesis using that [of "snd p"] s0 by (auto simp: st1_def sigs_inv_def split: prod.splits)
  qed
  have i1: "check_inv adr K A act st1" using assms pr by (auto simp: check_inv_def sigs_inv_def fields)
  have "signed_by_address adr a st = (case map_of pr a of
      Some k \<Rightarrow> Inr (True, st1\<lparr>provided_signatures := put_signature k (provided_signatures st1)\<rparr>)
    | None \<Rightarrow> Inl no_address)"
    using pr(1) by (simp add: signed_by_address_def st1_def [symmetric] split: option.split)
  then show ?thesis using pr(2) [rule_format, of a] put_signature_inv [OF i1]
    by (cases "map_of pr a") auto
qed

text \<open>
  The loops over the keys and the addresses count what was signed; the sums wrap, so the weight they
  return is never too large, and exact when the weights cannot wrap.
\<close>

lemma key_loop_correct:
  assumes "check_inv adr K A act st" "key_loop t ks w st = (dn, w', st')"
  shows "check_inv adr K A act st' \<and> w' \<le> w + weight_in K ks \<and> (dn \<longrightarrow> t \<le> w')
    \<and> (\<not> dn \<longrightarrow> w + sum_list (map snd ks) < 2 ^ 32 \<longrightarrow> w' = w + weight_in K ks)"
  using assms
proof (induction t ks w st rule: key_loop.induct)
  case (2 t k x ks w st)
  note s = signed_by_key_correct [OF 2(3), of k]
  let ?w = "(w + x) mod 2 ^ 32"
  have m: "?w \<le> w + x" by (rule mod_less_eq_dividend)
  show ?case
  proof (cases "k \<in> K")
    case True
    show ?thesis
    proof (cases "t \<le> ?w")
      case True
      then show ?thesis using \<open>k \<in> K\<close> 2(4) s m by auto
    next
      case False
      then have "key_loop t ks ?w (snd (signed_by_key k st)) = (dn, w', st')" using \<open>k \<in> K\<close> 2(4) s(1) by (simp add: Let_def)
      then have "check_inv adr K A act st' \<and> w' \<le> ?w + weight_in K ks \<and> (dn \<longrightarrow> t \<le> w')
          \<and> (\<not> dn \<longrightarrow> ?w + sum_list (map snd ks) < 2 ^ 32 \<longrightarrow> w' = ?w + weight_in K ks)"
        using 2(1) [OF refl _ refl False s(2)] \<open>k \<in> K\<close> s(1) by simp
      then show ?thesis using \<open>k \<in> K\<close> m by auto
    qed
  next
    case False
    then have "key_loop t ks w (snd (signed_by_key k st)) = (dn, w', st')" using 2(4) s(1) by simp
    then show ?thesis using 2(2) [OF refl _ s(2)] False s(1) by auto
  qed
qed auto

declare account_loop.simps(2) [simp del] address_loop.simps(2) [simp del]

lemma address_loop_correct:
  assumes "check_inv adr K A act st" and U: "\<not> fst ` set as \<subseteq> addresses_of adr K \<longrightarrow> U"
  shows "(U \<and> address_loop adr t as w st = Inl no_address) \<or> (\<exists>dn w' st'. address_loop adr t as w st = Inr (dn, w', st')
    \<and> check_inv adr K A act st' \<and> w' \<le> w + weight_in (addresses_of adr K) as \<and> (dn \<longrightarrow> t \<le> w')
    \<and> (\<not> dn \<longrightarrow> w + sum_list (map snd as) < 2 ^ 32 \<longrightarrow> w' = w + weight_in (addresses_of adr K) as))"
  using assms
proof (induction as arbitrary: w st)
  case (Cons p as)
  obtain a x where p: "p = (a, x)" by (cases p)
  let ?w = "(w + x) mod 2 ^ 32"
  have m: "?w \<le> w + x" by (rule mod_less_eq_dividend)
  note s = signed_by_address_correct [OF Cons.prems(1), of a]
  show ?case
  proof (cases "a \<in> addresses_of adr K")
    case True
    then obtain st1 where st1: "signed_by_address adr a st = Inr (True, st1)" "check_inv adr K A act st1" using s by auto
    have eq: "address_loop adr t (p # as) w st = (if t \<le> ?w then Inr (True, ?w, st1) else address_loop adr t as ?w st1)"
      by (simp add: p address_loop.simps(2) st1(1) Let_def)
    show ?thesis
    proof (cases "t \<le> ?w")
      case True
      have "?w \<le> w + weight_in (addresses_of adr K) (p # as)" using m p \<open>a \<in> addresses_of adr K\<close> by simp
      then show ?thesis unfolding eq if_P [OF True] using st1(2) True by blast
    next
      case False
      have "\<not> fst ` set as \<subseteq> addresses_of adr K \<longrightarrow> U" using Cons.prems(2) by auto
      from Cons.IH [OF st1(2) this, of ?w] show ?thesis
      proof (elim disjE exE)
        fix dn w' st' assume l: "address_loop adr t as ?w st1 = Inr (dn, w', st') \<and> check_inv adr K A act st'
          \<and> w' \<le> ?w + weight_in (addresses_of adr K) as \<and> (dn \<longrightarrow> t \<le> w')
          \<and> (\<not> dn \<longrightarrow> ?w + sum_list (map snd as) < 2 ^ 32 \<longrightarrow> w' = ?w + weight_in (addresses_of adr K) as)"
        then have "w' \<le> ?w + weight_in (addresses_of adr K) as" by blast
        then have "w' \<le> w + x + weight_in (addresses_of adr K) as" using m by linarith
        then have "w' \<le> w + weight_in (addresses_of adr K) (p # as)" using p \<open>a \<in> addresses_of adr K\<close> by simp
        moreover have "\<not> dn \<longrightarrow> w + sum_list (map snd (p # as)) < 2 ^ 32 \<longrightarrow> w' = w + weight_in (addresses_of adr K) (p # as)"
          using l m p \<open>a \<in> addresses_of adr K\<close> by auto
        ultimately show ?thesis unfolding eq if_not_P [OF False] using l by blast
      qed (use False eq in simp)
    qed
  next
    case False
    then have "address_loop adr t (p # as) w st = Inl no_address" using s by (simp add: p address_loop.simps(2))
    moreover have "U" using Cons.prems(2) False p by auto
    ultimately show ?thesis by blast
  qed
qed auto

text \<open>
  The outcome of a check: what it accepts is satisfied, and what is satisfied within the depth is
  accepted when no sum wraps (\<open>W\<close>), unless an address that no signing key has was looked up (\<open>U\<close>).
\<close>

definition outcome ::
  "(public_key \<Rightarrow> address list) \<Rightarrow> public_key set \<Rightarrow> account_id_type set \<Rightarrow> (account_id_type \<Rightarrow> authority option) \<Rightarrow> bool
    \<Rightarrow> bool \<Rightarrow> bool \<Rightarrow> (bool \<times> sign_state) exn \<Rightarrow> bool" where
  "outcome adr K A act U up low r \<longleftrightarrow> U \<and> r = Inl no_address
     \<or> (\<exists>b st. r = Inr (b, st) \<and> check_inv adr K A act st \<and> (b \<longrightarrow> up) \<and> (low \<longrightarrow> b))"

lemma outcomeI: "check_inv adr K A act st \<Longrightarrow> (b \<Longrightarrow> up) \<Longrightarrow> (low \<Longrightarrow> b) \<Longrightarrow> outcome adr K A act U up low (Inr (b, st))"
  by (simp add: outcome_def)

lemma outcome_mono: "outcome adr K A act U up low r \<Longrightarrow> (low' \<Longrightarrow> low) \<Longrightarrow> outcome adr K A act U up low' r"
  by (auto simp: outcome_def)

lemma outcomeE:
  assumes "outcome adr K A act U up low r"
  obtains "U" "r = Inl no_address" | b st where "r = Inr (b, st)" "check_inv adr K A act st" "b \<longrightarrow> up" "low \<longrightarrow> b"
  using assms unfolding outcome_def by blast

definition sub_correct ::
  "(public_key \<Rightarrow> address list) \<Rightarrow> public_key set \<Rightarrow> account_id_type set \<Rightarrow> (account_id_type \<Rightarrow> authority option) \<Rightarrow> bool
    \<Rightarrow> account_id_type set \<Rightarrow> (account_id_type \<Rightarrow> sign_state \<Rightarrow> (bool \<times> sign_state) exn) \<Rightarrow> bool" where
  "sub_correct adr K A act U L sub \<longleftrightarrow> (\<forall>a st. check_inv adr K A act st \<longrightarrow>
     outcome adr K A act U (a \<in> approvers K (addresses_of adr K) A act) (a \<in> L) (sub a st))"

lemma account_step:
  assumes "sub_correct adr K A act U L sub" "check_inv adr K A act st"
  shows "outcome adr K A act U (a \<in> approvers K (addresses_of adr K) A act) (a \<in> A \<union> L)
    (if a \<in> set (approved_by st) then Inr (True, st) else bindE (sub a st) (\<lambda>r.
      Inr (if fst r then (True, (snd r)\<lparr>approved_by := List.insert a (approved_by (snd r))\<rparr>) else r)))"
proof (cases "a \<in> set (approved_by st)")
  case True
  then show ?thesis using assms(2) by (auto simp: outcome_def check_inv_def)
next
  case False
  then have "a \<notin> A" using assms(2) by (auto simp: check_inv_def)
  have "outcome adr K A act U (a \<in> approvers K (addresses_of adr K) A act) (a \<in> L) (sub a st)"
    using assms unfolding sub_correct_def by blast
  then show ?thesis
  proof (cases rule: outcomeE)
    case (2 b st')
    have "check_inv adr K A act (st'\<lparr>approved_by := List.insert a (approved_by st')\<rparr>)" if b
      using 2(2,3) that by (auto simp: check_inv_def sigs_inv_def)
    then show ?thesis using 2 False \<open>a \<notin> A\<close> by (cases b) (auto intro!: outcomeI)
  qed (use False in \<open>simp add: outcome_def\<close>)
qed

lemma account_loop_correct:
  assumes "sub_correct adr K A act U L sub" "check_inv adr K A act st"
  shows "(U \<and> account_loop sub t as w st = Inl no_address) \<or> (\<exists>dn w' st'. account_loop sub t as w st = Inr (dn, w', st')
    \<and> check_inv adr K A act st' \<and> w' \<le> w + weight_in (approvers K (addresses_of adr K) A act) as \<and> (dn \<longrightarrow> t \<le> w')
    \<and> (\<not> dn \<longrightarrow> w + sum_list (map snd as) < 2 ^ 32 \<longrightarrow> w + weight_in (A \<union> L) as \<le> w'))"
  using assms(2)
proof (induction as arbitrary: w st)
  case (Cons p as)
  obtain a x where p: "p = (a, x)" by (cases p)
  let ?step = "if a \<in> set (approved_by st) then Inr (True, st) else bindE (sub a st) (\<lambda>r.
      Inr (if fst r then (True, (snd r)\<lparr>approved_by := List.insert a (approved_by (snd r))\<rparr>) else r))"
  let ?w = "(w + x) mod 2 ^ 32"
  have m: "?w \<le> w + x" by (rule mod_less_eq_dividend)
  from account_step [OF assms(1) Cons.prems, of a] consider "U" "?step = Inl no_address"
    | b st1 where "?step = Inr (b, st1)" "check_inv adr K A act st1"
      "b \<longrightarrow> a \<in> approvers K (addresses_of adr K) A act" "a \<in> A \<union> L \<longrightarrow> b"
    unfolding outcome_def by blast
  then show ?case
  proof cases
    case 1
    then show ?thesis by (simp add: p account_loop.simps(2))
  next
    case 2
    have eq: "account_loop sub t (p # as) w st = (if b then if t \<le> ?w then Inr (True, ?w, st1)
        else account_loop sub t as ?w st1 else account_loop sub t as w st1)"
      unfolding p account_loop.simps(2) 2(1) by (simp add: Let_def)
    show ?thesis
    proof (cases "b \<and> t \<le> ?w")
      case True
      have "?w \<le> w + weight_in (approvers K (addresses_of adr K) A act) (p # as)" using m p 2(3) True by simp
      moreover have "account_loop sub t (p # as) w st = Inr (True, ?w, st1)" using eq True by simp
      ultimately show ?thesis using 2(2) True by blast
    next
      case False
      then have eq: "account_loop sub t (p # as) w st = account_loop sub t as (if b then ?w else w) st1" using eq by auto
      let ?w2 = "if b then ?w else w" and ?up = "approvers K (addresses_of adr K) A act"
      from Cons.IH [OF 2(2), of ?w2] show ?thesis
      proof (elim disjE exE)
        fix dn w' st' assume l: "account_loop sub t as ?w2 st1 = Inr (dn, w', st') \<and> check_inv adr K A act st'
          \<and> w' \<le> ?w2 + weight_in ?up as \<and> (dn \<longrightarrow> t \<le> w')
          \<and> (\<not> dn \<longrightarrow> ?w2 + sum_list (map snd as) < 2 ^ 32 \<longrightarrow> ?w2 + weight_in (A \<union> L) as \<le> w')"
        then have "w' \<le> w + weight_in ?up (p # as)" using m p 2(3) by (cases b) auto
        moreover have "w + weight_in (A \<union> L) (p # as) \<le> w'" if "\<not> dn" "w + sum_list (map snd (p # as)) < 2 ^ 32"
        proof (cases b)
          case True
          then show ?thesis using l that p by auto
        next
          case False
          then have "a \<notin> A \<union> L" using 2(4) by blast
          then show ?thesis using l that p False by auto
        qed
        ultimately show ?thesis unfolding eq using l by blast
      qed (use eq in simp)
    qed
  qed
qed auto

lemma satisfied_iff: "satisfied K D A act au \<longleftrightarrow> weight_threshold au \<le> own_weight K D au + weight_in (approvers K D A act) (account_auths au)"
proof
  assume "satisfied K D A act au"
  then show "weight_threshold au \<le> own_weight K D au + weight_in (approvers K D A act) (account_auths au)"
  proof cases
    case (satisfiedI G)
    then have "weight_in G (account_auths au) \<le> weight_in (approvers K D A act) (account_auths au)"
      by (intro weight_in_mono) (auto simp: approvers_def)
    then show ?thesis using satisfiedI(2) by linarith
  qed
qed (rule satisfiedI [where G = "approvers K D A act"], auto simp: approvers_def)

lemma check_auth_body_correct:
  assumes sub: "sub_correct adr K A act U L sub" and i: "check_inv adr K A act st" and U: "lists_unsigned adr K au \<Longrightarrow> U"
  shows "outcome adr K A act U (satisfied K (addresses_of adr K) A act au)
    (no_wrap au \<and> weight_threshold au \<le> own_weight K (addresses_of adr K) au + weight_in (A \<union> L) (account_auths au))
    (check_auth_body adr sub (Some au) st)"
proof -
  let ?t = "weight_threshold au" and ?D = "addresses_of adr K"
  obtain dn w1 st1 where k: "key_loop ?t (key_auths au) 0 st = (dn, w1, st1)" by (cases "key_loop ?t (key_auths au) 0 st") auto
  note kc = key_loop_correct [OF i k]
  show ?thesis
  proof (cases dn)
    case True
    then show ?thesis using k kc by (auto simp: outcome_def check_auth_body_def satisfied_iff own_weight_def)
  next
    case False
    have U2: "\<not> fst ` set (address_auths au) \<subseteq> addresses_of adr K \<longrightarrow> U" using U by (simp add: lists_unsigned_def)
    from address_loop_correct [OF conjunct1 [OF kc] U2, where t = ?t and w = w1] consider
      "U" "address_loop adr ?t (address_auths au) w1 st1 = Inl no_address"
      | dn2 w2 st2 where "address_loop adr ?t (address_auths au) w1 st1 = Inr (dn2, w2, st2)" "check_inv adr K A act st2"
        "w2 \<le> w1 + weight_in ?D (address_auths au)" "dn2 \<longrightarrow> ?t \<le> w2"
        "\<not> dn2 \<longrightarrow> w1 + sum_list (map snd (address_auths au)) < 2 ^ 32 \<longrightarrow> w2 = w1 + weight_in ?D (address_auths au)" by blast
    then show ?thesis
    proof cases
      case 1
      then show ?thesis using k False by (simp add: outcome_def check_auth_body_def)
    next
      case 2
      have w2: "w2 \<le> own_weight K ?D au" using 2(3) kc by (auto simp: own_weight_def)
      show ?thesis
      proof (cases dn2)
        case True
        then have "satisfied K ?D A act au" using 2(4) w2 by (auto simp: satisfied_iff)
        moreover have "check_auth_body adr sub (Some au) st = Inr (True, st2)"
          using 2(1) k False True by (simp add: check_auth_body_def)
        ultimately show ?thesis using 2(2) by (simp add: outcomeI)
      next
        case n2: False
        have exact: "w2 = own_weight K ?D au \<and> w2 + sum_list (map snd (account_auths au)) < 2 ^ 32" if "no_wrap au"
          using that kc False n2 2(5) weight_in_le [of K "key_auths au"] weight_in_le [of ?D "address_auths au"]
          by (auto simp: no_wrap_def own_weight_def)
        from account_loop_correct [OF sub 2(2), where t = ?t and as = "account_auths au" and w = w2] consider
          "U" "account_loop sub ?t (account_auths au) w2 st2 = Inl no_address"
          | dn3 w3 st3 where "account_loop sub ?t (account_auths au) w2 st2 = Inr (dn3, w3, st3)" "check_inv adr K A act st3"
            "w3 \<le> w2 + weight_in (approvers K ?D A act) (account_auths au)" "dn3 \<longrightarrow> ?t \<le> w3"
            "\<not> dn3 \<longrightarrow> w2 + sum_list (map snd (account_auths au)) < 2 ^ 32 \<longrightarrow> w2 + weight_in (A \<union> L) (account_auths au) \<le> w3"
          by blast
        then show ?thesis
        proof cases
          case 1
          then show ?thesis using k False n2 2(1) by (simp add: outcome_def check_auth_body_def)
        next
          case acc: 2
          have "check_auth_body adr sub (Some au) st = Inr (dn3 \<or> ?t \<le> w3, st3)"
            using k False n2 2(1) acc(1) by (simp add: check_auth_body_def)
          moreover have "satisfied K ?D A act au" if "dn3 \<or> ?t \<le> w3" using that acc(3,4) w2 by (auto simp: satisfied_iff)
          moreover have "dn3 \<or> ?t \<le> w3" if "no_wrap au" "?t \<le> own_weight K ?D au + weight_in (A \<union> L) (account_auths au)"
            using that acc(5) exact by auto
          ultimately show ?thesis using acc(2) by (auto simp: outcome_def)
        qed
      qed
    qed
  qed
qed

lemma check_authority_correct:
  assumes U: "\<And>a b. act a = Some b \<Longrightarrow> lists_unsigned adr K b \<Longrightarrow> U" and W: "\<And>a b. act a = Some b \<Longrightarrow> W \<Longrightarrow> no_wrap b"
  shows "check_inv adr K A act st \<Longrightarrow> (lists_unsigned adr K au \<Longrightarrow> U) \<Longrightarrow> (W \<Longrightarrow> no_wrap au) \<Longrightarrow>
    outcome adr K A act U (satisfied K (addresses_of adr K) A act au)
      (W \<and> satisfied_within K (addresses_of adr K) A act n au) (check_authority adr act n (Some au) st)"
proof (induction n arbitrary: st au)
  case 0
  have "sub_correct adr K A act U {} (\<lambda>a st. Inr (False, st))" by (auto simp: sub_correct_def outcome_def)
  from check_auth_body_correct [OF this 0(1,2)] 0(3) show ?case by (auto simp: outcome_def)
next
  case (Suc n)
  let ?L = "{a. W \<and> (\<exists>b. act a = Some b \<and> satisfied_within K (addresses_of adr K) A act n b)}"
  have "sub_correct adr K A act U ?L (\<lambda>a. check_authority adr act n (act a))"
    unfolding sub_correct_def
  proof (intro allI impI)
    fix a st assume i: "check_inv adr K A act st"
    show "outcome adr K A act U (a \<in> approvers K (addresses_of adr K) A act) (a \<in> ?L) (check_authority adr act n (act a) st)"
    proof (cases "act a")
      case None
      then have "check_authority adr act n (act a) st = Inr (False, st)" by (cases n) (simp_all add: check_auth_body_def)
      then show ?thesis using i None by (auto intro!: outcomeI)
    next
      case (Some au)
      from Suc.IH [OF i U [OF Some] W [OF Some]] show ?thesis using Some by (auto simp: outcome_def approvers_def)
    qed
  qed
  then have c: "outcome adr K A act U (satisfied K (addresses_of adr K) A act au)
      (no_wrap au \<and> weight_threshold au \<le> own_weight K (addresses_of adr K) au + weight_in (A \<union> ?L) (account_auths au))
      (check_authority adr act (Suc n) (Some au) st)"
    using check_auth_body_correct Suc.prems(1,2) by simp
  have L: "W \<Longrightarrow> {a. a \<in> A \<or> (\<exists>b. act a = Some b \<and> satisfied_within K (addresses_of adr K) A act n b)} = A \<union> ?L" by auto
  show ?case by (rule outcome_mono [OF c]) (use Suc.prems(3) L in auto)
qed

section \<open>The check of a transaction\<close>

definition sat_of :: "(authority \<Rightarrow> bool) \<Rightarrow> authority option \<Rightarrow> bool" where
  "sat_of ok au \<longleftrightarrow> (\<exists>x. au = Some x \<and> ok x)"

text \<open>The authorities a check can meet: the ones required and those of the accounts.\<close>

definition met :: "required_authorities \<Rightarrow> (account_id_type \<Rightarrow> authority option) \<Rightarrow> (account_id_type \<Rightarrow> authority option) \<Rightarrow> authority set" where
  "met req act own = set (required_other req) \<union> ran act \<union> ran own"

definition checks :: "(public_key \<Rightarrow> address list) \<Rightarrow> public_key set \<Rightarrow> authority set \<Rightarrow> bool \<Rightarrow> bool \<Rightarrow> bool" where
  "checks adr K M U W \<longleftrightarrow> (\<forall>au \<in> M. (lists_unsigned adr K au \<longrightarrow> U) \<and> (W \<longrightarrow> no_wrap au))"

lemma check_met:
  assumes "checks adr K (met req act own) U W" "au \<in> met req act own" "check_inv adr K A act st"
  shows "outcome adr K A act U (satisfied K (addresses_of adr K) A act au)
      (W \<and> satisfied_within K (addresses_of adr K) A act n au) (check_authority adr act n (Some au) st)"
proof (rule check_authority_correct)
  have "b \<in> met req act own" if "act a = Some b" for a b using that by (auto simp: met_def ran_def)
  then show "lists_unsigned adr K b \<Longrightarrow> U" "W \<Longrightarrow> no_wrap b" if "act a = Some b" for a b
    using that assms(1) by (auto simp: checks_def)
qed (use assms in \<open>auto simp: checks_def\<close>)

lemma check_optional_correct:
  assumes "checks adr K (met req act own) U W" "get = act \<or> get = own" "check_inv adr K A act st"
  shows "outcome adr K A act U (sat_of (satisfied K (addresses_of adr K) A act) (get a))
      (W \<and> sat_of (satisfied_within K (addresses_of adr K) A act n) (get a)) (check_authority adr act n (get a) st)"
proof (cases "get a")
  case None
  then have "check_authority adr act n (get a) st = Inr (False, st)" by (cases n) (simp_all add: check_auth_body_def)
  then show ?thesis using assms(3) None by (auto intro!: outcomeI simp: sat_of_def)
next
  case (Some x)
  then have "x \<in> met req act own" using assms(2) by (auto simp: met_def ran_def)
  from check_met [OF assms(1) this assms(3)] Some show ?thesis by (simp add: sat_of_def)
qed

text \<open>A loop of checks: every check keeps the invariant, what passed holds of every element, and what must pass does.\<close>

lemma foldE_checks:
  assumes "\<And>x st. x \<in> set xs \<Longrightarrow> I st \<Longrightarrow> (\<exists>st'. f x st = Inr st' \<and> I st' \<and> P x)
      \<or> (\<exists>e. f x st = Inl e \<and> (\<not> Q x \<or> U \<and> e = e0))" "I st"
  shows "(\<forall>st'. foldE f xs st = Inr st' \<longrightarrow> I st' \<and> (\<forall>x \<in> set xs. P x))
    \<and> ((\<forall>x \<in> set xs. Q x) \<longrightarrow> (\<exists>st'. foldE f xs st = Inr st') \<or> U \<and> foldE f xs st = Inl e0)"
  using assms
proof (induction xs arbitrary: st)
  case (Cons x xs)
  from Cons.prems(1) [of x st] Cons.prems(2) consider (pass) st1 where "f x st = Inr st1" "I st1" "P x"
    | (throw) e where "f x st = Inl e" "\<not> Q x \<or> U \<and> e = e0" by auto
  then show ?case
  proof cases
    case pass
    have "(\<exists>st'. f y t = Inr st' \<and> I st' \<and> P y) \<or> (\<exists>e. f y t = Inl e \<and> (\<not> Q y \<or> U \<and> e = e0))" if "y \<in> set xs" "I t" for y t
      using Cons.prems(1) that by simp
    from Cons.IH [OF this pass(2)] show ?thesis using pass by simp
  next
    case throw
    then show ?thesis by auto
  qed
qed simp

definition verify_accepts ::
  "(authority \<Rightarrow> bool) \<Rightarrow> required_authorities \<Rightarrow> (account_id_type \<Rightarrow> authority option) \<Rightarrow> (account_id_type \<Rightarrow> authority option)
    \<Rightarrow> bool \<Rightarrow> account_id_type set \<Rightarrow> account_id_type list \<Rightarrow> bool" where
  "verify_accepts ok req act own committee A owner_approvals \<longleftrightarrow>
    (committee \<or> GRAPHENE_COMMITTEE_ACCOUNT \<notin> set (required_active req))
    \<and> (\<forall>au \<in> set (required_other req). ok au)
    \<and> (\<forall>a \<in> set (required_active req). a \<in> A \<or> sat_of ok (act a) \<or> sat_of ok (own a))
    \<and> (\<forall>a \<in> set (required_owner req). a \<in> set owner_approvals \<or> sat_of ok (own a))"

definition approvals :: "account_id_type list \<Rightarrow> account_id_type list \<Rightarrow> account_id_type set" where
  "approvals active_approvals owner_approvals = {GRAPHENE_TEMP_ACCOUNT} \<union> set active_approvals \<union> set owner_approvals"

lemma require_others_correct:
  assumes ck: "checks adr K (met req act own) U W" and i: "check_inv adr K A act st"
  shows "(\<forall>st'. require_others adr act n (required_other req) st = Inr st' \<longrightarrow> check_inv adr K A act st'
      \<and> (\<forall>au \<in> set (required_other req). satisfied K (addresses_of adr K) A act au))
    \<and> ((\<forall>au \<in> set (required_other req). W \<and> satisfied_within K (addresses_of adr K) A act n au)
      \<longrightarrow> (\<exists>st'. require_others adr act n (required_other req) st = Inr st')
        \<or> U \<and> require_others adr act n (required_other req) st = Inl no_address)"
  unfolding require_others_def
proof (rule foldE_checks [where I = "check_inv adr K A act", OF _ i])
  fix au st assume "au \<in> set (required_other req)" and i: "check_inv adr K A act st"
  then have "au \<in> met req act own" by (simp add: met_def)
  from check_met [OF ck this i, of n] 
  show "(\<exists>st'. bindE (check_authority adr act n (Some au) st) (\<lambda>r. if fst r then Inr (snd r)
        else Inl (chain_exception ''tx_missing_other_auth'')) = Inr st' \<and> check_inv adr K A act st' \<and> satisfied K (addresses_of adr K) A act au)
    \<or> (\<exists>e. bindE (check_authority adr act n (Some au) st) (\<lambda>r. if fst r then Inr (snd r)
        else Inl (chain_exception ''tx_missing_other_auth'')) = Inl e
        \<and> (\<not> (W \<and> satisfied_within K (addresses_of adr K) A act n au) \<or> U \<and> e = no_address))"
    unfolding outcome_def by (elim disjE exE) auto
qed

lemma check_account_correct:
  assumes ck: "checks adr K (met req act own) U W" and i: "check_inv adr K A act st"
  shows "outcome adr K A act U (a \<in> A \<or> sat_of (satisfied K (addresses_of adr K) A act) (act a))
    (a \<in> A \<or> W \<and> sat_of (satisfied_within K (addresses_of adr K) A act n) (act a)) (check_account adr act n a st)"
proof (cases "a \<in> set (approved_by st)")
  case True
  then show ?thesis using i by (auto simp: outcome_def check_account_def check_inv_def approvers_def sat_of_def)
next
  case False
  then have "a \<notin> A" using i by (auto simp: check_inv_def)
  then show ?thesis using False check_optional_correct [OF ck disjI1 [OF refl] i, of a n] by (auto simp: check_account_def outcome_def)
qed

lemma require_active_correct:
  assumes ck: "checks adr K (met req act own) U W" and i: "check_inv adr K A act st"
  shows "(\<forall>st'. require_active adr act own n as st = Inr st' \<longrightarrow> check_inv adr K A act st'
      \<and> (\<forall>a \<in> set as. a \<in> A \<or> sat_of (satisfied K (addresses_of adr K) A act) (act a) \<or> sat_of (satisfied K (addresses_of adr K) A act) (own a)))
    \<and> ((\<forall>a \<in> set as. W \<and> (a \<in> A \<or> sat_of (satisfied_within K (addresses_of adr K) A act n) (act a)
          \<or> sat_of (satisfied_within K (addresses_of adr K) A act n) (own a)))
      \<longrightarrow> (\<exists>st'. require_active adr act own n as st = Inr st') \<or> U \<and> require_active adr act own n as st = Inl no_address)"
  unfolding require_active_def
proof (rule foldE_checks [where I = "check_inv adr K A act", OF _ i])
  fix a st assume i: "check_inv adr K A act st"
  let ?own = "\<lambda>st. check_authority adr act n (own a) st"
  let ?r = "bindE (check_account adr act n a st) (\<lambda>r. if fst r then Inr (snd r)
        else bindE (?own (snd r)) (\<lambda>r. if fst r then Inr (snd r) else Inl (chain_exception ''tx_missing_active_auth'')))"
  from check_account_correct [OF ck i, of a n] consider "U" "check_account adr act n a st = Inl no_address"
    | b st1 where "check_account adr act n a st = Inr (b, st1)" "check_inv adr K A act st1"
      "b \<longrightarrow> a \<in> A \<or> sat_of (satisfied K (addresses_of adr K) A act) (act a)"
      "a \<in> A \<or> W \<and> sat_of (satisfied_within K (addresses_of adr K) A act n) (act a) \<longrightarrow> b"
    unfolding outcome_def by blast
  then show "(\<exists>st'. ?r = Inr st' \<and> check_inv adr K A act st'
        \<and> (a \<in> A \<or> sat_of (satisfied K (addresses_of adr K) A act) (act a) \<or> sat_of (satisfied K (addresses_of adr K) A act) (own a)))
    \<or> (\<exists>e. ?r = Inl e \<and> (\<not> (W \<and> (a \<in> A \<or> sat_of (satisfied_within K (addresses_of adr K) A act n) (act a)
          \<or> sat_of (satisfied_within K (addresses_of adr K) A act n) (own a))) \<or> U \<and> e = no_address))"
  proof cases
    case 2
    from check_optional_correct [OF ck disjI2 [OF refl] 2(2), of a n] consider "U" "?own st1 = Inl no_address"
      | b2 st2 where "?own st1 = Inr (b2, st2)" "check_inv adr K A act st2"
        "b2 \<longrightarrow> sat_of (satisfied K (addresses_of adr K) A act) (own a)"
        "W \<and> sat_of (satisfied_within K (addresses_of adr K) A act n) (own a) \<longrightarrow> b2"
      unfolding outcome_def by blast
    then show ?thesis using 2 by cases (cases b; auto)+
  qed simp
qed

lemma require_owner_correct:
  assumes ck: "checks adr K (met req act own) U W" and i: "check_inv adr K A act st"
  shows "(\<forall>st'. require_owner adr act own n oas as st = Inr st' \<longrightarrow> check_inv adr K A act st'
      \<and> (\<forall>a \<in> set as. a \<in> set oas \<or> sat_of (satisfied K (addresses_of adr K) A act) (own a)))
    \<and> ((\<forall>a \<in> set as. W \<and> (a \<in> set oas \<or> sat_of (satisfied_within K (addresses_of adr K) A act n) (own a)))
      \<longrightarrow> (\<exists>st'. require_owner adr act own n oas as st = Inr st') \<or> U \<and> require_owner adr act own n oas as st = Inl no_address)"
  unfolding require_owner_def
proof (rule foldE_checks [where I = "check_inv adr K A act", OF _ i])
  fix a st assume i: "check_inv adr K A act st"
  let ?r = "if a \<in> set oas then Inr st else bindE (check_authority adr act n (own a) st) (\<lambda>r. if fst r then Inr (snd r)
             else Inl (chain_exception ''tx_missing_owner_auth''))"
  from check_optional_correct [OF ck disjI2 [OF refl] i, of a n] consider "U" "check_authority adr act n (own a) st = Inl no_address"
    | b st1 where "check_authority adr act n (own a) st = Inr (b, st1)" "check_inv adr K A act st1"
      "b \<longrightarrow> sat_of (satisfied K (addresses_of adr K) A act) (own a)"
      "W \<and> sat_of (satisfied_within K (addresses_of adr K) A act n) (own a) \<longrightarrow> b"
    unfolding outcome_def by blast
  then show "(\<exists>st'. ?r = Inr st' \<and> check_inv adr K A act st'
        \<and> (a \<in> set oas \<or> sat_of (satisfied K (addresses_of adr K) A act) (own a)))
    \<or> (\<exists>e. ?r = Inl e \<and> (\<not> (W \<and> (a \<in> set oas \<or> sat_of (satisfied_within K (addresses_of adr K) A act n) (own a))) \<or> U \<and> e = no_address))"
    using i by cases (auto split: if_splits)
qed

lemma foldl_insert_set: "set (foldl (\<lambda>l a. List.insert a l) xs ys) = set xs \<union> set ys"
  by (induction ys arbitrary: xs) auto


text \<open>An account that needs a key and another account, which in turn needs an address, signed by the keys of both.\<close>

definition demo_active :: "account_id_type \<Rightarrow> authority option" where
  "demo_active a =
    (if a = 7 then Some \<lparr>weight_threshold = 3, account_auths = [(8, 2)], key_auths = [(11, 1)], address_auths = []\<rparr>
     else if a = 8 then Some \<lparr>weight_threshold = 1, account_auths = [], key_auths = [], address_auths = [(112, 1)]\<rparr> else None)"

definition demo_required :: required_authorities where
  "demo_required = \<lparr>required_active = [7], required_owner = [8], required_other = []\<rparr>"

definition demo_addresses :: "public_key \<Rightarrow> address list" where
  "demo_addresses k = [k + 100]"


end
