(* ===== verification/Ledger.thy ===== *)
theory Ledger
  imports Asset Vesting Double Index Block Authority
begin

text \<open>
  The state of the chain that the ledger components share: the objects of the \<^verbatim>\<open>*_object.hpp\<close>
  headers as records, and the database as one index per object type with the property objects
  and the list of applied (virtual) operations. Fields that no modelled operation reads or writes
  (personal data, descriptions, urls, the fee schedule) are left out. An object's id is its position
  key in the index.
\<close>

section \<open>Assets\<close>

record asset_options =
  max_supply :: share_type
  market_fee_percent :: nat
  max_market_fee :: share_type
  issuer_permissions :: "16 word"
  flags :: "16 word"
  ao_core_exchange_rate :: price
  whitelist_authorities :: "account_id_type list"
  blacklist_authorities :: "account_id_type list"
  whitelist_markets :: "asset_id_type list"
  blacklist_markets :: "asset_id_type list"

record bitasset_options =
  feed_lifetime_sec :: nat
  minimum_feeds :: nat
  force_settlement_delay_sec :: nat
  force_settlement_offset_percent :: nat
  maximum_force_settlement_volume :: nat
  short_backing_asset :: asset_id_type

record asset_dynamic_data_object =
  current_supply :: share_type
  confidential_supply :: share_type
  accumulated_fees :: share_type
  fee_pool :: share_type

record asset_object =
  symbol :: string
  decimals :: nat
  issuer :: account_id_type
  a_options :: asset_options
  dynamic_asset_data_id :: nat
  bitasset_data_id :: "nat option"
  buyback_account :: "account_id_type option"

record asset_bitasset_data_object =
  ba_options :: bitasset_options
  feeds :: "(account_id_type \<times> time_point_sec \<times> price_feed) list"
  current_feed :: price_feed
  current_feed_publication_time :: time_point_sec
  is_prediction_market :: bool
  force_settled_volume :: share_type
  ba_settlement_price :: price
  settlement_fund :: share_type

definition charge_market_fee :: "16 word" where "charge_market_fee = 0x01"
definition white_list :: "16 word" where "white_list = 0x02"
definition override_authority :: "16 word" where "override_authority = 0x04"
definition transfer_restricted :: "16 word" where "transfer_restricted = 0x08"
definition disable_force_settle :: "16 word" where "disable_force_settle = 0x10"
definition global_settle :: "16 word" where "global_settle = 0x20"

definition has_flag :: "16 word \<Rightarrow> 16 word \<Rightarrow> bool" where
  "has_flag fs f \<longleftrightarrow> and fs f \<noteq> 0"

definition is_market_issued :: "asset_object \<Rightarrow> bool" where
  "is_market_issued a \<longleftrightarrow> bitasset_data_id a \<noteq> None"

definition charges_market_fees :: "asset_object \<Rightarrow> bool" where
  "charges_market_fees a \<longleftrightarrow> has_flag (flags (a_options a)) charge_market_fee"

definition is_transfer_restricted :: "asset_object \<Rightarrow> bool" where
  "is_transfer_restricted a \<longleftrightarrow> has_flag (flags (a_options a)) transfer_restricted"

definition can_force_settle :: "asset_object \<Rightarrow> bool" where
  "can_force_settle a \<longleftrightarrow> \<not> has_flag (flags (a_options a)) disable_force_settle"

definition can_global_settle :: "asset_object \<Rightarrow> bool" where
  "can_global_settle a \<longleftrightarrow> has_flag (issuer_permissions (a_options a)) global_settle"

definition can_override :: "asset_object \<Rightarrow> bool" where
  "can_override a \<longleftrightarrow> has_flag (flags (a_options a)) override_authority"

definition has_settlement :: "asset_bitasset_data_object \<Rightarrow> bool" where
  "has_settlement b \<longleftrightarrow> \<not> price_is_null (ba_settlement_price b)"

section \<open>Accounts\<close>

record karma_history_entry =
  kh_date :: time_point_sec
  kh_amount :: double
  kh_info :: string

record account_history_of_karma_object =
  kh_account :: account_id_type
  karma_history :: "karma_history_entry list"

record account_statistics_object =
  stat_owner :: account_id_type
  total_core_in_orders :: share_type
  lifetime_fees_paid :: share_type
  pending_fees :: share_type
  pending_vested_fees :: share_type

record account_balance_object =
  owner :: account_id_type
  asset_type :: asset_id_type
  balance :: share_type

text \<open>
  A vote id is a 32-bit number with the type of the votable object in its lower 8 bits and the
  instance in the upper 24.
\<close>

type_synonym vote_id_type = "32 word"

record account_options =
  voting_account :: account_id_type
  num_witness :: nat
  num_committee :: nat
  votes :: "vote_id_type list"

datatype special_authority = no_special_authority | top_holders_special_authority asset_id_type nat

record account_object =
  membership_expiration_date :: time_point_sec
  registrar :: account_id_type
  referrer :: account_id_type
  lifetime_referrer :: account_id_type
  network_fee_percentage :: nat
  lifetime_referrer_fee_percentage :: nat
  referrer_rewards_percentage :: nat
  acc_name :: string
  karma :: double
  acc_owner :: authority
  acc_active :: authority
  acc_options :: account_options
  statistics :: nat
  whitelisting_accounts :: "account_id_type list"
  blacklisting_accounts :: "account_id_type list"
  whitelisted_accounts :: "account_id_type list"
  blacklisted_accounts :: "account_id_type list"
  cashback_vb :: "vesting_balance_id_type option"
  owner_special_authority :: special_authority
  active_special_authority :: special_authority
  top_n_control_flags :: "8 word"
  allowed_assets :: "asset_id_type list option"
  credit_referrer :: account_id_type
  credit_referrer_expiration_date :: time_point_sec

definition is_lifetime_member :: "account_object \<Rightarrow> bool" where
  "is_lifetime_member a \<longleftrightarrow> membership_expiration_date a = 2 ^ 32 - 1"

definition is_basic_account :: "account_object \<Rightarrow> time_point_sec \<Rightarrow> bool" where
  "is_basic_account a now \<longleftrightarrow> membership_expiration_date a < now"

definition is_member :: "account_object \<Rightarrow> time_point_sec \<Rightarrow> bool" where
  "is_member a now \<longleftrightarrow> \<not> is_basic_account a now"

section \<open>Orders\<close>

record limit_order_object =
  lo_expiration :: time_point_sec
  seller :: account_id_type
  for_sale :: share_type
  sell_price :: price
  deferred_fee :: share_type

record call_order_object =
  call_borrower :: account_id_type
  collateral :: share_type
  debt :: share_type
  co_call_price :: price

record force_settlement_object =
  fs_owner :: account_id_type
  fs_balance :: asset
  settlement_date :: time_point_sec

record collateral_bid_object =
  bidder :: account_id_type
  inv_swan_price :: price

section \<open>Credits and exchange rates\<close>

record borrower_info =
  borrower :: account_id_type
  loan_memo :: string
  loan_asset :: asset
  loan_persent :: double
  loan_period :: nat
  deposit_asset :: asset
  collateral_free :: bool

record creditor_info =
  creditor :: account_id_type
  credit_memo :: string
  credit_asset :: asset
  monthly_payment :: double

datatype e_credit_object_status =
  empty | wating_for_acceptance | in_progress | cancalled | complete_normal | complete_ubnormal | fetch_all

text \<open>
  An entry of the credit history: the values that the text line and the JSON details of the entry
  print. The formatting is left out; no code reads the history back except to append to it.
\<close>

datatype credit_event =
    request_creation time_point_sec string string
  | request_approved time_point_sec string string share_type nat double
  | settled_normal time_point_sec asset nat asset
  | settled_insufficient_balance time_point_sec asset
  | settled_ubnormal time_point_sec asset asset asset double double nat asset
  | credit_complete_normal time_point_sec asset
  | credit_complete_ubnormal time_point_sec asset asset
  | stop_loss_order time_point_sec double double asset asset asset asset
  | credit_complete_forced time_point_sec asset

record credit_object =
  object_uuid :: string
  status :: e_credit_object_status
  borrower_i :: borrower_info
  request_creation_time :: time_point_sec
  creditor_i :: creditor_info
  request_approvation_time :: time_point_sec
  settle_month_elapsed :: nat
  expired_time_start :: nat
  comments :: "(string \<times> account_id_type) list"
  history :: "credit_event list"

record exchange_rate_object =
  current_exchange_rate :: "(string \<times> (account_id_type \<times> double) list) list"
  current_exchange_rate_interval :: "(string \<times> nat \<times> nat) list"
  last_exchange_rate :: "(string \<times> double) list"

section \<open>Witnesses and properties\<close>

record witness_object =
  witness_account :: account_id_type
  last_aslot :: nat
  signing_key :: nat
  pay_vb :: "vesting_balance_id_type option"
  wit_vote_id :: vote_id_type
  total_votes :: nat
  total_missed :: int
  last_confirmed_block_num :: nat

record committee_member_object =
  committee_member_account :: account_id_type
  cm_vote_id :: vote_id_type
  cm_total_votes :: nat

datatype worker_type =
  refund_worker_type share_type | vesting_balance_worker_type vesting_balance_id_type | burn_worker_type share_type

record worker_object =
  worker_account :: account_id_type
  work_begin_date :: time_point_sec
  work_end_date :: time_point_sec
  daily_pay :: share_type
  worker :: worker_type
  vote_for :: vote_id_type
  vote_against :: vote_id_type
  total_votes_for :: nat
  total_votes_against :: nat

definition worker_is_active :: "worker_object \<Rightarrow> time_point_sec \<Rightarrow> bool" where
  "worker_is_active w now \<longleftrightarrow> work_begin_date w \<le> now \<and> now \<le> work_end_date w"

text \<open>The two casts to \<^verbatim>\<open>int64_t\<close> wrap; the subtraction overflows only where it is undefined.\<close>

definition approving_stake :: "worker_object \<Rightarrow> share_type" where
  "approving_stake w = sint (word_of_nat (total_votes_for w) :: 64 word) - sint (word_of_nat (total_votes_against w) :: 64 word)"

section \<open>Permissions, genesis balances and fee backed assets\<close>

record withdraw_permission_object =
  withdraw_from_account :: account_id_type
  authorized_account :: account_id_type
  withdrawal_limit :: asset
  withdrawal_period_sec :: nat
  period_start_time :: time_point_sec
  wp_expiration :: time_point_sec
  claimed_this_period :: share_type

record balance_object =
  bo_owner :: address
  bo_balance :: asset
  bo_policy :: "linear_vesting_policy option"
  last_claim_date :: time_point_sec

record blinded_balance_object =
  commitment :: nat
  bb_asset_id :: asset_id_type
  bb_owner :: authority

record fba_accumulator_object =
  accumulated_fba_fees :: share_type
  designated_asset :: "asset_id_type option"

record special_authority_object =
  sa_account :: account_id_type

record buyback_object =
  asset_to_buy :: asset_id_type

record budget_record =
  time_since_last_budget :: nat
  from_initial_reserve :: share_type
  from_accumulated_fees :: share_type
  from_unused_witness_budget :: share_type
  requested_witness_budget :: share_type
  total_budget :: share_type
  rec_witness_budget :: share_type
  worker_budget :: share_type
  leftover_worker_funds :: share_type
  supply_delta :: share_type

record budget_record_object =
  br_time :: time_point_sec
  br_record :: budget_record

record credit_options =
  seconds_per_day :: nat
  max_credit_expiration_days :: nat
  min_witnesses_for_exchange_rate :: nat
  exchange_rate_set_max_interval :: nat
  exchange_rate_set_min_interval :: nat

record credit_referrer_bonus_options =
  karma_account_bonus :: double
  creditor_referrer_bonus :: double
  borrower_referrer_bonus :: double
  fail_creditor_referrer_bonus :: double
  fail_borrower_referrer_bonus :: double
  special_account_name :: string

datatype parameter_extension =
  Credit_options credit_options | Bonus_options credit_referrer_bonus_options

record chain_parameters =
  account_create_basic_fee :: nat
  block_interval :: nat
  maintenance_interval :: nat
  maintenance_skip_slots :: nat
  committee_proposal_review_period :: nat
  maximum_transaction_size :: nat
  maximum_block_size :: nat
  maximum_time_until_expiration :: nat
  maximum_proposal_lifetime :: nat
  maximum_asset_whitelist_authorities :: nat
  maximum_asset_feed_publishers :: nat
  maximum_witness_count :: nat
  maximum_committee_count :: nat
  maximum_authority_membership :: nat
  reserve_percent_of_fee :: nat
  network_percent_of_fee :: nat
  lifetime_referrer_percent_of_fee :: nat
  cashback_vesting_period_seconds :: nat
  cashback_vesting_threshold :: share_type
  count_non_member_votes :: bool
  allow_non_member_whitelists :: bool
  witness_pay_per_block :: share_type
  witness_pay_vesting_seconds :: nat
  worker_budget_per_day :: share_type
  accounts_per_fee_scale :: nat
  account_fee_scale_bitshifts :: nat
  max_authority_depth :: nat
  extensions :: "parameter_extension list"

definition default_credit_options :: credit_options where
  "default_credit_options = \<lparr>seconds_per_day = 86400, max_credit_expiration_days = 7,
     min_witnesses_for_exchange_rate = 7, exchange_rate_set_max_interval = 3600,
     exchange_rate_set_min_interval = 75\<rparr>"

definition default_bonus_options :: credit_referrer_bonus_options where
  "default_bonus_options = \<lparr>karma_account_bonus = fl_round binary32 (1 / 2),
     creditor_referrer_bonus = fl_round binary32 (1 / 10), borrower_referrer_bonus = fl_round binary32 (1 / 10),
     fail_creditor_referrer_bonus = Fin 0, fail_borrower_referrer_bonus = Fin 0,
     special_account_name = ''ooo-karma-rus''\<rparr>"

fun find_credit_options :: "parameter_extension list \<Rightarrow> credit_options" where
  "find_credit_options [] = default_credit_options"
| "find_credit_options (Credit_options c # es) = c"
| "find_credit_options (Bonus_options b # es) = find_credit_options es"

fun find_bonus_options :: "parameter_extension list \<Rightarrow> credit_referrer_bonus_options" where
  "find_bonus_options [] = default_bonus_options"
| "find_bonus_options (Bonus_options b # es) = b"
| "find_bonus_options (Credit_options c # es) = find_bonus_options es"

definition get_credit_options :: "chain_parameters \<Rightarrow> credit_options" where
  "get_credit_options p = find_credit_options (extensions p)"

definition get_bonus_options :: "chain_parameters \<Rightarrow> credit_referrer_bonus_options" where
  "get_bonus_options p = find_bonus_options (extensions p)"

record global_property_object =
  parameters :: chain_parameters
  pending_parameters :: "chain_parameters option"
  next_available_vote_id :: nat
  active_committee_members :: "nat list"
  active_witnesses :: "witness_id_type list"

record chain_property_object =
  min_committee_member_count :: nat
  min_witness_count :: nat

record witness_schedule_object =
  current_shuffled_witnesses :: "witness_id_type list"

record dynamic_global_property_object =
  head_block_number :: nat
  head_block_id :: block_id_type
  time :: time_point_sec
  current_witness :: witness_id_type
  next_maintenance_time :: time_point_sec
  last_budget_time :: time_point_sec
  witness_budget :: share_type
  accounts_registered_this_interval :: nat
  recently_missed_count :: "32 word"
  current_aslot :: nat
  recent_slots_filled :: uint128
  dynamic_flags :: "32 word"
  last_irreversible_block_num :: nat

section \<open>Transactions\<close>

text \<open>
  Of a transaction that was applied the duplicate check keeps the id and the expiration; of a block the check of the
  referenced block keeps the id.
\<close>

record transaction_object =
  trx_id :: nat
  trx_expiration :: time_point_sec

record block_summary_object =
  bs_block_id :: block_id_type

section \<open>The database\<close>

datatype applied_operation =
    fill_order_operation nat account_id_type asset asset asset price bool
  | limit_order_cancel_vop nat account_id_type
  | asset_settle_cancel_vop nat account_id_type asset
  | bid_collateral_vop account_id_type asset asset
  | execute_bid_operation account_id_type asset asset
  | fba_distribute_operation account_id_type nat share_type

record database =
  accounts :: "account_object index"
  account_stats :: "account_statistics_object index"
  karma_histories :: "account_history_of_karma_object index"
  assets :: "asset_object index"
  asset_dynamic_data :: "asset_dynamic_data_object index"
  asset_bitasset_data :: "asset_bitasset_data_object index"
  balances :: "account_balance_object index"
  limit_orders :: "limit_order_object index"
  call_orders :: "call_order_object index"
  force_settlements :: "force_settlement_object index"
  collateral_bids :: "collateral_bid_object index"
  vesting_balances :: "vesting_balance_object index"
  witnesses :: "witness_object index"
  credits :: "credit_object index"
  exchange_rates :: "exchange_rate_object index"
  committee_members :: "committee_member_object index"
  workers :: "worker_object index"
  withdraw_permissions :: "withdraw_permission_object index"
  genesis_balances :: "balance_object index"
  blinded_balances :: "blinded_balance_object index"
  fba_accumulators :: "fba_accumulator_object index"
  special_authorities :: "special_authority_object index"
  buybacks :: "buyback_object index"
  budget_records :: "budget_record_object index"
  trx_index :: "transaction_object index"
  block_summaries :: "block_summary_object index"
  chain_properties :: chain_property_object
  witness_schedule :: witness_schedule_object
  global_properties :: global_property_object
  dynamic_properties :: dynamic_global_property_object
  applied_ops :: "applied_operation list"

definition head_block_time :: "database \<Rightarrow> time_point_sec" where
  "head_block_time db = time (dynamic_properties db)"

definition push_applied_operation :: "applied_operation \<Rightarrow> database \<Rightarrow> database" where
  "push_applied_operation op db = db\<lparr>applied_ops := applied_ops db @ [op]\<rparr>"

definition get_account :: "database \<Rightarrow> account_id_type \<Rightarrow> account_object exn" where
  "get_account db i = idx_get ''account'' (accounts db) i"

definition get_asset :: "database \<Rightarrow> asset_id_type \<Rightarrow> asset_object exn" where
  "get_asset db i = idx_get ''asset'' (assets db) i"

lemma get_account_eq_Inr [simp, exn_simps]: "get_account db i = Inr a \<longleftrightarrow> idx_find (accounts db) i = Some a"
  by (simp add: get_account_def)

lemma get_asset_eq_Inr [simp, exn_simps]: "get_asset db i = Inr a \<longleftrightarrow> idx_find (assets db) i = Some a"
  by (simp add: get_asset_def)

end
