(* ===== verification/Balance.thy ===== *)
theory Balance
  imports Ledger
begin

text \<open>
  Account balances, cashback and fees: \<^verbatim>\<open>db_balance.cpp\<close> and the fee part of \<^verbatim>\<open>account_object.cpp\<close>.
  The books of the chain are summed up by \<open>held\<close>: for an asset, everything that accounts, orders,
  collateral, fees, vesting balances and credit deposits hold of it. Each operation changes
  \<open>held\<close> exactly by what it says, and no balance is ever negative.
\<close>

section \<open>Operations\<close>

definition balance_key :: "account_id_type \<Rightarrow> asset_id_type \<Rightarrow> account_balance_object \<Rightarrow> bool" where
  "balance_key a i b \<longleftrightarrow> owner b = a \<and> asset_type b = i"

definition get_balance :: "database \<Rightarrow> account_id_type \<Rightarrow> asset_id_type \<Rightarrow> asset" where
  "get_balance db a i = (case idx_find_by (balance_key a i) (balances db) of
     None \<Rightarrow> mk_asset 0 i
   | Some p \<Rightarrow> mk_asset (balance (snd p)) (asset_type (snd p)))"

definition abo_adjust_balance :: "asset \<Rightarrow> account_balance_object \<Rightarrow> account_balance_object exn" where
  "abo_adjust_balance delta b = bindE (safe_add (balance b) (amount delta)) (\<lambda>x. Inr (b\<lparr>balance := x\<rparr>))"

definition adjust_balance :: "account_id_type \<Rightarrow> asset \<Rightarrow> database \<Rightarrow> database exn" where
  "adjust_balance account delta db =
    (if amount delta = 0 then Inr db
     else case idx_find_by (balance_key account (asset_id delta)) (balances db) of
       None \<Rightarrow> bindE (fc_assert (0 < amount delta) ''Insufficient Balance'') (\<lambda>_.
         Inr (db\<lparr>balances := idx_create (balances db)
                \<lparr>owner = account, asset_type = asset_id delta, balance = amount delta\<rparr>\<rparr>))
     | Some p \<Rightarrow>
         bindE (if amount delta < 0
                then bindE (asset_neg delta) (\<lambda>nd.
                     bindE (asset_ge (mk_asset (balance (snd p)) (asset_type (snd p))) nd) (\<lambda>enough.
                     fc_assert enough ''Insufficient Balance''))
                else Inr ()) (\<lambda>_.
         bindE (idx_modify ''balance'' (balances db) (fst p) (abo_adjust_balance delta)) (\<lambda>t.
         Inr (db\<lparr>balances := t\<rparr>))))"

definition deposit_lazy_vesting ::
  "vesting_balance_id_type option \<Rightarrow> share_type \<Rightarrow> nat \<Rightarrow> account_id_type \<Rightarrow> bool \<Rightarrow> database
    \<Rightarrow> (vesting_balance_id_type option \<times> database) exn" where
  "deposit_lazy_vesting ovbid amt req_vesting_seconds req_owner require_vesting db =
    (if amt = 0 then Inr (None, db)
     else
       let now = head_block_time db;
           create = Inr (Some (next_id (vesting_balances db)),
             db\<lparr>vesting_balances := idx_create (vesting_balances db)
               \<lparr>vb_owner = req_owner, vb_balance = mk_asset amt 0,
                vb_policy = Cdd \<lparr>vesting_seconds = req_vesting_seconds,
                  coin_seconds_earned = (if require_vesting then 0 else u128 (wrap64 (amt * int req_vesting_seconds))),
                  start_claim = 0, coin_seconds_earned_last_update = now\<rparr>\<rparr>\<rparr>)
       in case ovbid of
         None \<Rightarrow> create
       | Some vbid \<Rightarrow>
           bindE (idx_get ''vesting_balance'' (vesting_balances db) vbid) (\<lambda>vbo.
           if vb_owner vbo \<noteq> req_owner then create
           else case vb_policy vbo of
             Linear _ \<Rightarrow> create
           | Cdd pol \<Rightarrow>
               if vesting_seconds pol \<noteq> req_vesting_seconds then create
               else bindE (if require_vesting then vb_deposit vbo now (mk_asset amt 0)
                           else vb_deposit_vested vbo now (mk_asset amt 0)) (\<lambda>vbo'.
                 Inr (None, db\<lparr>vesting_balances := idx_put (vesting_balances db) vbid vbo'\<rparr>))))"

definition special_accounts :: "account_id_type list" where
  "special_accounts = [0, 1, 2, 3, 4]"

definition modify_dynamic ::
  "asset_id_type \<Rightarrow> (asset_dynamic_data_object \<Rightarrow> asset_dynamic_data_object exn) \<Rightarrow> database \<Rightarrow> database exn" where
  "modify_dynamic i f db =
    bindE (get_asset db i) (\<lambda>a.
    bindE (idx_modify ''asset_dynamic_data'' (asset_dynamic_data db) (dynamic_asset_data_id a) f) (\<lambda>t.
    Inr (db\<lparr>asset_dynamic_data := t\<rparr>)))"

definition deposit_cashback :: "account_id_type \<Rightarrow> share_type \<Rightarrow> bool \<Rightarrow> database \<Rightarrow> database exn" where
  "deposit_cashback acct amt require_vesting db =
    bindE (get_account db acct) (\<lambda>acc.
    if amt = 0 then Inr db
    else if acct \<in> set special_accounts
    then modify_dynamic 0 (\<lambda>d. bindE (safe_sub (current_supply d) amt) (\<lambda>s. Inr (d\<lparr>current_supply := s\<rparr>))) db
    else
      bindE (deposit_lazy_vesting (cashback_vb acc) amt
               (cashback_vesting_period_seconds (parameters (global_properties db))) acct require_vesting db) (\<lambda>r.
      case fst r of
        None \<Rightarrow> Inr (snd r)
      | Some vbid \<Rightarrow> Inr ((snd r)\<lparr>accounts := idx_put (accounts (snd r)) acct (acc\<lparr>cashback_vb := Some vbid\<rparr>)\<rparr>)))"

definition deposit_witness_pay :: "witness_id_type \<Rightarrow> share_type \<Rightarrow> database \<Rightarrow> database exn" where
  "deposit_witness_pay wit amt db =
    bindE (idx_get ''witness'' (witnesses db) wit) (\<lambda>w.
    if amt = 0 then Inr db
    else
      bindE (deposit_lazy_vesting (pay_vb w) amt
               (witness_pay_vesting_seconds (parameters (global_properties db))) (witness_account w) True db) (\<lambda>r.
      case fst r of
        None \<Rightarrow> Inr (snd r)
      | Some vbid \<Rightarrow> Inr ((snd r)\<lparr>witnesses := idx_put (witnesses (snd r)) wit (w\<lparr>pay_vb := Some vbid\<rparr>)\<rparr>)))"

definition cut_fee :: "share_type \<Rightarrow> nat \<Rightarrow> share_type" where
  "cut_fee a p =
    (if a = 0 \<or> p = 0 then 0
     else if int p = GRAPHENE_100_PERCENT then a
     else wrap64 (uint (u128 a * u128 (int p) div u128 GRAPHENE_100_PERCENT)))"

definition stats_pay_fee :: "share_type \<Rightarrow> share_type \<Rightarrow> account_statistics_object \<Rightarrow> account_statistics_object exn" where
  "stats_pay_fee core_fee threshold s =
    (if core_fee > threshold
     then bindE (safe_add (pending_fees s) core_fee) (\<lambda>x. Inr (s\<lparr>pending_fees := x\<rparr>))
     else bindE (safe_add (pending_vested_fees s) core_fee) (\<lambda>x. Inr (s\<lparr>pending_vested_fees := x\<rparr>)))"

definition fix_referrer :: "account_id_type \<Rightarrow> database \<Rightarrow> database exn" where
  "fix_referrer a db =
    bindE (get_account db a) (\<lambda>acc.
    bindE (get_account db (referrer acc)) (\<lambda>ref.
    Inr (if is_basic_account ref (head_block_time db)
         then db\<lparr>accounts := idx_put (accounts db) a (acc\<lparr>referrer := lifetime_referrer acc\<rparr>)\<rparr>
         else db)))"

definition pay_out_fees :: "account_id_type \<Rightarrow> share_type \<Rightarrow> bool \<Rightarrow> database \<Rightarrow> database exn" where
  "pay_out_fees a core_fee_total require_vesting db =
    bindE (fix_referrer a db) (\<lambda>db.
    bindE (get_account db a) (\<lambda>acc.
    let network_cut = cut_fee core_fee_total (network_fee_percentage acc);
        lifetime_cut = cut_fee core_fee_total (lifetime_referrer_fee_percentage acc)
    in
    bindE (safe_sub core_fee_total network_cut) (\<lambda>x.
    bindE (safe_sub x lifetime_cut) (\<lambda>referral.
    bindE (idx_modify ''asset_dynamic_data'' (asset_dynamic_data db) 0
             (\<lambda>d. bindE (safe_add (accumulated_fees d) network_cut) (\<lambda>y. Inr (d\<lparr>accumulated_fees := y\<rparr>)))) (\<lambda>t.
    let db = db\<lparr>asset_dynamic_data := t\<rparr>;
        referrer_cut = cut_fee referral (referrer_rewards_percentage acc)
    in
    bindE (safe_sub referral referrer_cut) (\<lambda>registrar_cut.
    bindE (deposit_cashback (lifetime_referrer acc) lifetime_cut require_vesting db) (\<lambda>db.
    bindE (deposit_cashback (referrer acc) referrer_cut require_vesting db) (\<lambda>db.
    deposit_cashback (registrar acc) registrar_cut require_vesting db))))))))"

definition process_fees :: "nat \<Rightarrow> account_id_type \<Rightarrow> database \<Rightarrow> database exn" where
  "process_fees sid a db =
    bindE (idx_get ''account_statistics'' (account_stats db) sid) (\<lambda>s.
    if pending_fees s > 0 \<or> pending_vested_fees s > 0
    then
      bindE (pay_out_fees a (pending_fees s) True db) (\<lambda>db.
      bindE (pay_out_fees a (pending_vested_fees s) False db) (\<lambda>db.
      bindE (idx_modify ''account_statistics'' (account_stats db) sid (\<lambda>s.
        bindE (safe_add (pending_fees s) (pending_vested_fees s)) (\<lambda>x.
        bindE (safe_add (lifetime_fees_paid s) x) (\<lambda>y.
        Inr (s\<lparr>lifetime_fees_paid := y, pending_fees := 0, pending_vested_fees := 0\<rparr>))))) (\<lambda>t.
      Inr (db\<lparr>account_stats := t\<rparr>))))
    else Inr db)"

section \<open>What the chain holds of an asset\<close>

definition bal_amount :: "asset_id_type \<Rightarrow> account_balance_object \<Rightarrow> int" where
  "bal_amount i b = (if asset_type b = i then balance b else 0)"

definition order_amount :: "asset_id_type \<Rightarrow> limit_order_object \<Rightarrow> int" where
  "order_amount i ord = (if asset_id (base (sell_price ord)) = i then for_sale ord else 0)
     + (if i = 0 then deferred_fee ord else 0)"

definition call_amount :: "asset_id_type \<Rightarrow> call_order_object \<Rightarrow> int" where
  "call_amount i c = (if asset_id (base (co_call_price c)) = i then collateral c else 0)"

definition asset_part :: "asset_id_type \<Rightarrow> asset \<Rightarrow> int" where
  "asset_part i x = (if asset_id x = i then amount x else 0)"

definition fund_amount :: "asset_id_type \<Rightarrow> asset_bitasset_data_object \<Rightarrow> int" where
  "fund_amount i b = (if short_backing_asset (ba_options b) = i then settlement_fund b else 0)"

definition stat_amount :: "asset_id_type \<Rightarrow> account_statistics_object \<Rightarrow> int" where
  "stat_amount i s = (if i = 0 then pending_fees s + pending_vested_fees s else 0)"

definition pool_amount :: "asset_id_type \<Rightarrow> asset_dynamic_data_object \<Rightarrow> int" where
  "pool_amount i d = (if i = 0 then fee_pool d else 0)"

definition fba_amount :: "asset_id_type \<Rightarrow> fba_accumulator_object \<Rightarrow> int" where
  "fba_amount i f = (if i = 0 then accumulated_fba_fees f else 0)"

definition dyn_field ::
  "(asset_dynamic_data_object \<Rightarrow> int) \<Rightarrow> asset_id_type \<Rightarrow> asset_object index \<Rightarrow> asset_dynamic_data_object index \<Rightarrow> int" where
  "dyn_field f i as ds = (case idx_find as i of
     None \<Rightarrow> 0
   | Some a \<Rightarrow> (case idx_find ds (dynamic_asset_data_id a) of None \<Rightarrow> 0 | Some d \<Rightarrow> f d))"

definition held :: "asset_id_type \<Rightarrow> database \<Rightarrow> int" where
  "held i db =
     idx_sum (bal_amount i) (balances db)
   + idx_sum (order_amount i) (limit_orders db)
   + idx_sum (call_amount i) (call_orders db)
   + idx_sum (\<lambda>s. asset_part i (fs_balance s)) (force_settlements db)
   + idx_sum (\<lambda>b. asset_part i (base (inv_swan_price b))) (collateral_bids db)
   + idx_sum (\<lambda>v. asset_part i (vb_balance v)) (vesting_balances db)
   + idx_sum (\<lambda>c. asset_part i (deposit_asset (borrower_i c))) (credits db)
   + idx_sum (\<lambda>b. asset_part i (bo_balance b)) (genesis_balances db)
   + idx_sum (fba_amount i) (fba_accumulators db)
   + idx_sum (fund_amount i) (asset_bitasset_data db)
   + idx_sum (stat_amount i) (account_stats db)
   + idx_sum (pool_amount i) (asset_dynamic_data db)
   + dyn_field accumulated_fees i (assets db) (asset_dynamic_data db)
   + dyn_field confidential_supply i (assets db) (asset_dynamic_data db)
   + (if i = 0 then witness_budget (dynamic_properties db) else 0)"

definition supply_of :: "asset_id_type \<Rightarrow> database \<Rightarrow> int" where
  "supply_of i db = dyn_field current_supply i (assets db) (asset_dynamic_data db)"

definition indices_ok :: "database \<Rightarrow> bool" where
  "indices_ok db \<longleftrightarrow> idx_ok (accounts db) \<and> idx_ok (account_stats db) \<and> idx_ok (karma_histories db)
    \<and> idx_ok (assets db) \<and> idx_ok (asset_dynamic_data db) \<and> idx_ok (asset_bitasset_data db)
    \<and> idx_ok (balances db) \<and> idx_ok (limit_orders db) \<and> idx_ok (call_orders db)
    \<and> idx_ok (force_settlements db) \<and> idx_ok (collateral_bids db) \<and> idx_ok (vesting_balances db)
    \<and> idx_ok (witnesses db) \<and> idx_ok (credits db) \<and> idx_ok (committee_members db) \<and> idx_ok (workers db)
    \<and> idx_ok (withdraw_permissions db) \<and> idx_ok (genesis_balances db) \<and> idx_ok (blinded_balances db)
    \<and> idx_ok (fba_accumulators db)"

definition balances_nonneg :: "account_balance_object index \<Rightarrow> bool" where
  "balances_nonneg t \<longleftrightarrow> (\<forall>p \<in> set (objs t). 0 \<le> balance (snd p))"

definition dyn_ids_ok :: "asset_object index \<Rightarrow> bool" where
  "dyn_ids_ok as \<longleftrightarrow> (\<exists>a. idx_find as 0 = Some a \<and> dynamic_asset_data_id a = 0)
    \<and> (\<forall>p \<in> set (objs as). \<forall>q \<in> set (objs as).
         dynamic_asset_data_id (snd p) = dynamic_asset_data_id (snd q) \<longrightarrow> fst p = fst q)"

definition db_ok :: "database \<Rightarrow> bool" where
  "db_ok db \<longleftrightarrow> indices_ok db \<and> balances_nonneg (balances db) \<and> dyn_ids_ok (assets db)"

section \<open>Adjusting a balance\<close>

lemma get_balance_asset [simp]: "asset_id (get_balance db a i) = i"
  by (auto simp: get_balance_def idx_find_by_def balance_key_def split: option.split dest!: find_SomeD)

lemma held_balances:
  "held i (db\<lparr>balances := t\<rparr>) = held i db - idx_sum (bal_amount i) (balances db) + idx_sum (bal_amount i) t"
  by (simp add: held_def)

lemma find_map_same:
  assumes "List.find P xs = Some x" "distinct (map fst xs)" "P (fst x, v')" "\<And>y. P y \<Longrightarrow> Q y \<Longrightarrow> False"
  shows "List.find P (map (\<lambda>p. if fst p = fst x then (fst x, v') else p) xs) = Some (fst x, v')"
    and "\<not> Q (fst x, v') \<Longrightarrow> List.find Q (map (\<lambda>p. if fst p = fst x then (fst x, v') else p) xs) = List.find Q xs"
  using assms
proof (induction xs)
  case (Cons y ys)
  {
    case 1
    have "map (\<lambda>p. if fst p = fst x then (fst x, v') else p) ys = ys" if "y = x"
      using 1(2) that by (intro map_idI) (auto simp: image_iff)
    have "fst x \<noteq> fst y" if "\<not> P y" using 1(1,2) that by (auto dest!: find_SomeD simp: image_iff)
    then show ?case using 1 Cons.IH(1) by (cases "P y") auto
  next
    case 2
    have *: "map (\<lambda>p. if fst p = fst x then (fst x, v') else p) ys = ys" if "y = x"
      using 2(3) that by (intro map_idI) (auto simp: image_iff)
    show ?case
    proof (cases "P y")
      case True
      then have "y = x" using 2(2) by simp
      moreover have "\<not> Q y" using True 2(5) by metis
      ultimately have "y = x" "\<not> Q y" by auto
      then show ?thesis using * 2(1) by simp
    next
      case False
      then have "fst x \<noteq> fst y" using 2(2,3) by (auto dest!: find_SomeD simp: image_iff)
      then show ?thesis using 2 False Cons.IH(2) by auto
    qed
  }
qed simp_all

lemma balance_key_disjoint: "balance_key a i b \<Longrightarrow> balance_key a' i' b \<Longrightarrow> a = a' \<and> i = i'"
  by (auto simp: balance_key_def)

lemma find_by_put:
  assumes "idx_ok t" "idx_find_by (balance_key a i) t = Some p" "balance_key a i v'"
  shows "idx_find_by (balance_key a' i') (idx_put t (fst p) v')
    = (if a' = a \<and> i' = i then Some (fst p, v') else idx_find_by (balance_key a' i') t)"
proof (cases "a' = a \<and> i' = i")
  case True
  then show ?thesis
    using find_map_same(1) [of "\<lambda>p. balance_key a i (snd p)" "objs t" p v' "\<lambda>_. False"] assms
    by (simp add: idx_find_by_def idx_put_def idx_ok_def)
next
  case False
  then have "\<not> balance_key a' i' v'" using assms(3) balance_key_disjoint by blast
  then show ?thesis
    using find_map_same(2) [of "\<lambda>p. balance_key a i (snd p)" "objs t" p v' "\<lambda>p. balance_key a' i' (snd p)"] assms False
      balance_key_disjoint
    by (simp add: idx_find_by_def idx_put_def idx_ok_def) blast
qed

lemma find_append: "List.find P (xs @ ys) = (case List.find P xs of None \<Rightarrow> List.find P ys | Some x \<Rightarrow> Some x)"
  by (induction xs) auto

text \<open>
  What a successful adjustment does: only the balances change, the one balance moves by the delta,
  and the sums move with it.
\<close>

lemma adjust_balance_effect:
  assumes "adjust_balance a d db = Inr db'" and ok: "db_ok db"
  obtains t where "db' = db\<lparr>balances := t\<rparr>" "idx_ok t" "balances_nonneg t"
    "\<And>i. idx_sum (bal_amount i) t = idx_sum (bal_amount i) (balances db) + asset_part i d"
    "\<And>b i. amount (get_balance (db\<lparr>balances := t\<rparr>) b i)
       = amount (get_balance db b i) + (if b = a \<and> i = asset_id d then amount d else 0)"
proof (cases "amount d = 0")
  case True
  then have "db' = db\<lparr>balances := balances db\<rparr>" using assms(1) by (simp add: adjust_balance_def)
  with True ok show thesis by (intro that) (auto simp: db_ok_def indices_ok_def balances_nonneg_def asset_part_def)
next
  case False
  have okb: "idx_ok (balances db)" "\<forall>p \<in> set (objs (balances db)). 0 \<le> balance (snd p)"
    using ok by (auto simp: db_ok_def indices_ok_def balances_nonneg_def)
  show thesis
  proof (cases "idx_find_by (balance_key a (asset_id d)) (balances db)")
    case None
    let ?v = "\<lparr>owner = a, asset_type = asset_id d, balance = amount d\<rparr>"
    have "amount d > 0" "db' = db\<lparr>balances := idx_create (balances db) ?v\<rparr>"
      using assms(1) False None by (auto simp: adjust_balance_def)
    then show thesis using okb None
      by (intro that [of "idx_create (balances db) ?v"])
        (auto simp: idx_sum_create bal_amount_def asset_part_def get_balance_def idx_find_by_def
          balances_nonneg_def find_append balance_key_def split: option.split)
  next
    case (Some p)
    then have p: "idx_find (balances db) (fst p) = Some (snd p)" "balance_key a (asset_id d) (snd p)"
      using idx_find_by_SomeD [OF okb(1) Some] by auto
    let ?v = "(snd p)\<lparr>balance := balance (snd p) + amount d\<rparr>"
    have eff: "db' = db\<lparr>balances := idx_put (balances db) (fst p) ?v\<rparr>" "0 \<le> balance (snd p) + amount d"
      using assms(1) False Some p okb(2) idx_find_in [OF p(1)]
      by (auto simp: adjust_balance_def abo_adjust_balance_def asset_ge_def asset_lt_def split: if_splits)
    have key: "balance_key a (asset_id d) ?v" using p(2) by (simp add: balance_key_def)
    show thesis
    proof (rule that [OF eff(1)])
      show "balances_nonneg (idx_put (balances db) (fst p) ?v)"
        using okb(2) eff(2) by (auto simp: balances_nonneg_def dest!: objs_put_in)
      show "idx_sum (bal_amount i) (idx_put (balances db) (fst p) ?v)
          = idx_sum (bal_amount i) (balances db) + asset_part i d" for i
        using idx_sum_put [OF okb(1) p(1)] p(2) by (auto simp: bal_amount_def asset_part_def balance_key_def)
      show "amount (get_balance (db\<lparr>balances := idx_put (balances db) (fst p) ?v\<rparr>) b i)
         = amount (get_balance db b i) + (if b = a \<and> i = asset_id d then amount d else 0)" for b i
        using Some p(2) by (simp add: get_balance_def find_by_put [OF okb(1) Some key])
    qed (simp add: okb)
  qed
qed

section \<open>The contract of the balances\<close>

text \<open>
  What every component that moves funds relies on: an adjustment moves one balance and the books
  by its delta, or throws; no balance becomes negative.
\<close>

locale balance_book =
  fixes adjust :: "account_id_type \<Rightarrow> asset \<Rightarrow> 'db \<Rightarrow> 'db exn"
    and bal :: "'db \<Rightarrow> account_id_type \<Rightarrow> asset_id_type \<Rightarrow> int"
    and total :: "asset_id_type \<Rightarrow> 'db \<Rightarrow> int"
    and ok :: "'db \<Rightarrow> bool"
  assumes adjust_ok: "ok db \<Longrightarrow> adjust a d db = Inr db' \<Longrightarrow> ok db'"
    and adjust_bal: "ok db \<Longrightarrow> adjust a d db = Inr db' \<Longrightarrow>
      bal db' b i = bal db b i + (if b = a then asset_part i d else 0)"
    and adjust_total: "ok db \<Longrightarrow> adjust a d db = Inr db' \<Longrightarrow> total i db' = total i db + asset_part i d"
    and bal_nonneg: "ok db \<Longrightarrow> 0 \<le> bal db a i"
begin

definition adjust_all :: "(account_id_type \<times> asset) list \<Rightarrow> 'db \<Rightarrow> 'db exn" where
  "adjust_all = foldE (\<lambda>m. adjust (fst m) (snd m))"

lemma adjust_all_simps [simp]:
  "adjust_all [] db = Inr db" "adjust_all (m # ms) db = bindE (adjust (fst m) (snd m) db) (adjust_all ms)"
  by (simp_all add: adjust_all_def)

lemma adjust_all_ok: "ok db \<Longrightarrow> adjust_all ms db = Inr db' \<Longrightarrow> ok db'"
  unfolding adjust_all_def by (erule foldE_invariant [where P = ok]) (auto intro: adjust_ok)

lemma adjust_all_total:
  "ok db \<Longrightarrow> adjust_all ms db = Inr db' \<Longrightarrow> total i db' = total i db + (\<Sum>m \<leftarrow> ms. asset_part i (snd m))"
proof (induction ms arbitrary: db)
  case (Cons m ms)
  then obtain db1 where m: "adjust (fst m) (snd m) db = Inr db1" and ms: "adjust_all ms db1 = Inr db'"
    by auto
  show ?case using Cons.IH [OF adjust_ok [OF Cons.prems(1) m] ms] adjust_total [OF Cons.prems(1) m, of i] by simp
qed simp

lemma adjust_all_bal:
  "ok db \<Longrightarrow> adjust_all ms db = Inr db' \<Longrightarrow>
    bal db' b i = bal db b i + (\<Sum>m \<leftarrow> ms. if b = fst m then asset_part i (snd m) else 0)"
proof (induction ms arbitrary: db)
  case (Cons m ms)
  then obtain db1 where m: "adjust (fst m) (snd m) db = Inr db1" and ms: "adjust_all ms db1 = Inr db'"
    by (auto simp: adjust_all_def)
  have "bal db' b i = bal db1 b i + (\<Sum>m \<leftarrow> ms. if b = fst m then asset_part i (snd m) else 0)"
    using Cons.IH [OF adjust_ok [OF Cons.prems(1) m] ms] .
  then show ?case using adjust_bal [OF Cons.prems(1) m, of b i] by simp
qed (simp add: adjust_all_def)

text \<open>A transfer between accounts conserves every asset, and never overdraws the payer.\<close>

lemma transfer_conserves:
  assumes "ok db" "adjust_all [(a, mk_asset (- x) i), (b, mk_asset x i)] db = Inr db'"
  shows "total j db' = total j db"
  using adjust_all_total [OF assms, of j] by (auto simp: asset_part_def)

lemma no_overdraft:
  assumes "ok db" "adjust a (mk_asset (- x) i) db = Inr db'"
  shows "x \<le> bal db a i"
  using adjust_bal [OF assms, of a i] bal_nonneg [OF adjust_ok [OF assms], of a i] by (simp add: asset_part_def)

end

lemma db_ok_balances:
  assumes "db_ok db" "idx_ok t" "balances_nonneg t"
  shows "db_ok (db\<lparr>balances := t\<rparr>)"
  using assms by (simp add: db_ok_def indices_ok_def)

lemma get_balance_nonneg: "db_ok db \<Longrightarrow> 0 \<le> amount (get_balance db a i)"
  by (auto simp: db_ok_def balances_nonneg_def get_balance_def idx_find_by_def split: option.split dest!: find_SomeD)

interpretation chain_balances: balance_book adjust_balance "\<lambda>db a i. amount (get_balance db a i)" held db_ok
proof unfold_locales
  fix a b d i and db db' :: database
  assume ok: "db_ok db" and adj: "adjust_balance a d db = Inr db'"
  from adj ok obtain t where t: "db' = db\<lparr>balances := t\<rparr>" "idx_ok t" "balances_nonneg t"
    "\<And>i. idx_sum (bal_amount i) t = idx_sum (bal_amount i) (balances db) + asset_part i d"
    "\<And>b i. amount (get_balance (db\<lparr>balances := t\<rparr>) b i)
       = amount (get_balance db b i) + (if b = a \<and> i = asset_id d then amount d else 0)"
    by (rule adjust_balance_effect) blast
  show "db_ok db'" using db_ok_balances [OF ok t(2,3)] t(1) by simp
  show "amount (get_balance db' b i) = amount (get_balance db b i) + (if b = a then asset_part i d else 0)"
    using t(5) by (auto simp: t(1) asset_part_def)
  show "held i db' = held i db + asset_part i d" using t(4) by (simp add: t(1) held_balances)
qed (rule get_balance_nonneg)

section \<open>The rest of the state\<close>

lemma held_frame [simp, frame_simps]:
  "held i (db\<lparr>accounts := x1\<rparr>) = held i db"
  "held i (db\<lparr>karma_histories := x2\<rparr>) = held i db"
  "held i (db\<lparr>witnesses := x3\<rparr>) = held i db"
  "held i (db\<lparr>exchange_rates := x4\<rparr>) = held i db"
  "held i (db\<lparr>applied_ops := x5\<rparr>) = held i db"
  "held i (db\<lparr>global_properties := x6\<rparr>) = held i db"
  "held i (db\<lparr>committee_members := x7\<rparr>) = held i db"
  "held i (db\<lparr>workers := x8\<rparr>) = held i db"
  "held i (db\<lparr>withdraw_permissions := x9\<rparr>) = held i db"
  "held i (db\<lparr>blinded_balances := x10\<rparr>) = held i db"
  "held i (db\<lparr>special_authorities := x11\<rparr>) = held i db"
  "held i (db\<lparr>buybacks := x12\<rparr>) = held i db"
  "held i (db\<lparr>budget_records := x13\<rparr>) = held i db"
  "held i (db\<lparr>trx_index := x14\<rparr>) = held i db"
  "held i (db\<lparr>block_summaries := x15\<rparr>) = held i db"
  by (simp_all add: held_def)

lemma supply_frame [simp, frame_simps]:
  "supply_of i (db\<lparr>accounts := x1\<rparr>) = supply_of i db"
  "supply_of i (db\<lparr>karma_histories := x2\<rparr>) = supply_of i db"
  "supply_of i (db\<lparr>witnesses := x3\<rparr>) = supply_of i db"
  "supply_of i (db\<lparr>applied_ops := x5\<rparr>) = supply_of i db"
  "supply_of i (db\<lparr>balances := x6\<rparr>) = supply_of i db"
  "supply_of i (db\<lparr>limit_orders := x7\<rparr>) = supply_of i db"
  "supply_of i (db\<lparr>call_orders := x8\<rparr>) = supply_of i db"
  "supply_of i (db\<lparr>vesting_balances := x9\<rparr>) = supply_of i db"
  "supply_of i (db\<lparr>account_stats := x10\<rparr>) = supply_of i db"
  "supply_of i (db\<lparr>credits := x11\<rparr>) = supply_of i db"
  "supply_of i (db\<lparr>force_settlements := x12\<rparr>) = supply_of i db"
  "supply_of i (db\<lparr>collateral_bids := x13\<rparr>) = supply_of i db"
  "supply_of i (db\<lparr>committee_members := x14\<rparr>) = supply_of i db"
  "supply_of i (db\<lparr>workers := x15\<rparr>) = supply_of i db"
  "supply_of i (db\<lparr>withdraw_permissions := x16\<rparr>) = supply_of i db"
  "supply_of i (db\<lparr>genesis_balances := x17\<rparr>) = supply_of i db"
  "supply_of i (db\<lparr>blinded_balances := x18\<rparr>) = supply_of i db"
  "supply_of i (db\<lparr>fba_accumulators := x19\<rparr>) = supply_of i db"
  "supply_of i (db\<lparr>budget_records := x20\<rparr>) = supply_of i db"
  "supply_of i (db\<lparr>global_properties := x21\<rparr>) = supply_of i db"
  "supply_of i (db\<lparr>dynamic_properties := x22\<rparr>) = supply_of i db"
  "supply_of i (db\<lparr>special_authorities := x23\<rparr>) = supply_of i db"
  "supply_of i (db\<lparr>buybacks := x24\<rparr>) = supply_of i db"
  "supply_of i (db\<lparr>trx_index := x25\<rparr>) = supply_of i db"
  "supply_of i (db\<lparr>block_summaries := x26\<rparr>) = supply_of i db"
  by (simp_all add: supply_of_def)

lemma held_update [db_simps]:
  "held i (db\<lparr>limit_orders := x1\<rparr>) = held i db - idx_sum (order_amount i) (limit_orders db) + idx_sum (order_amount i) x1"
  "held i (db\<lparr>call_orders := x2\<rparr>) = held i db - idx_sum (call_amount i) (call_orders db) + idx_sum (call_amount i) x2"
  "held i (db\<lparr>vesting_balances := x3\<rparr>) = held i db - idx_sum (\<lambda>v. asset_part i (vb_balance v)) (vesting_balances db)
     + idx_sum (\<lambda>v. asset_part i (vb_balance v)) x3"
  "held i (db\<lparr>account_stats := x4\<rparr>) = held i db - idx_sum (stat_amount i) (account_stats db) + idx_sum (stat_amount i) x4"
  "held i (db\<lparr>credits := x5\<rparr>) = held i db - idx_sum (\<lambda>c. asset_part i (deposit_asset (borrower_i c))) (credits db)
     + idx_sum (\<lambda>c. asset_part i (deposit_asset (borrower_i c))) x5"
  "held i (db\<lparr>force_settlements := x6\<rparr>) = held i db - idx_sum (\<lambda>s. asset_part i (fs_balance s)) (force_settlements db)
     + idx_sum (\<lambda>s. asset_part i (fs_balance s)) x6"
  "held i (db\<lparr>collateral_bids := x7\<rparr>) = held i db
     - idx_sum (\<lambda>b. asset_part i (base (inv_swan_price b))) (collateral_bids db)
     + idx_sum (\<lambda>b. asset_part i (base (inv_swan_price b))) x7"
  "held i (db\<lparr>genesis_balances := x8\<rparr>) = held i db - idx_sum (\<lambda>b. asset_part i (bo_balance b)) (genesis_balances db)
     + idx_sum (\<lambda>b. asset_part i (bo_balance b)) x8"
  "held i (db\<lparr>fba_accumulators := x9\<rparr>) = held i db - idx_sum (fba_amount i) (fba_accumulators db) + idx_sum (fba_amount i) x9"
  "held i (db\<lparr>dynamic_properties := x10\<rparr>) = held i db
     + (if i = 0 then witness_budget x10 - witness_budget (dynamic_properties db) else 0)"
  by (simp_all add: held_def)

lemma dyn_field_put:
  assumes "dyn_ids_ok as" "idx_ok as" "idx_find as j = Some a"
    and "idx_find ds (dynamic_asset_data_id a) = Some d"
  shows "dyn_field f i as (idx_put ds (dynamic_asset_data_id a) d')
    = dyn_field f i as ds + (if i = j then f d' - f d else 0)"
proof (cases "idx_find as i")
  case (Some b)
  have "dynamic_asset_data_id a = dynamic_asset_data_id b \<Longrightarrow> i = j"
    using assms(1) idx_find_in [OF Some] idx_find_in [OF assms(3)] by (fastforce simp: dyn_ids_ok_def)
  with Some assms(3,4) show ?thesis by (auto simp: dyn_field_def idx_find_put split: option.split)
qed (use assms in \<open>auto simp: dyn_field_def\<close>)

text \<open>A change of the dynamic data of one asset.\<close>

lemma dynamic_put_effect:
  assumes ok: "db_ok db" and a: "idx_find (assets db) j = Some a"
    and d: "idx_find (asset_dynamic_data db) (dynamic_asset_data_id a) = Some d"
    and db': "db' = db\<lparr>asset_dynamic_data := idx_put (asset_dynamic_data db) (dynamic_asset_data_id a) d'\<rparr>"
  shows "held i db' = held i db + (if i = j then accumulated_fees d' - accumulated_fees d + confidential_supply d' - confidential_supply d else 0)
      + (if i = 0 then fee_pool d' - fee_pool d else 0)"
    and "supply_of i db' = supply_of i db + (if i = j then current_supply d' - current_supply d else 0)"
    and "db_ok db'"
proof -
  have o: "dyn_ids_ok (assets db)" "idx_ok (assets db)" "idx_ok (asset_dynamic_data db)"
    using ok by (auto simp: db_ok_def indices_ok_def)
  note put = dyn_field_put [OF o(1,2) a d]
  show "held i db' = held i db + (if i = j then accumulated_fees d' - accumulated_fees d + confidential_supply d' - confidential_supply d else 0)
      + (if i = 0 then fee_pool d' - fee_pool d else 0)"
    by (simp add: db' held_def put idx_sum_put [OF o(3) d] pool_amount_def)
  show "supply_of i db' = supply_of i db + (if i = j then current_supply d' - current_supply d else 0)"
    by (simp add: db' supply_of_def put)
  show "db_ok db'" using ok by (simp add: db' db_ok_def indices_ok_def)
qed

lemma db_okD:
  assumes "db_ok db"
  shows "idx_ok (accounts db)" "idx_ok (account_stats db)" "idx_ok (assets db)" "idx_ok (asset_dynamic_data db)"
    "idx_ok (asset_bitasset_data db)" "idx_ok (balances db)" "idx_ok (limit_orders db)" "idx_ok (call_orders db)"
    "idx_ok (vesting_balances db)" "idx_ok (witnesses db)" "idx_ok (credits db)" "idx_ok (force_settlements db)"
    "idx_ok (collateral_bids db)" "idx_ok (karma_histories db)" "idx_ok (committee_members db)" "idx_ok (workers db)"
    "idx_ok (withdraw_permissions db)" "idx_ok (genesis_balances db)" "idx_ok (blinded_balances db)" "idx_ok (fba_accumulators db)"
  using assms by (simp_all add: db_ok_def indices_ok_def)

lemma db_ok_update:
  assumes "db_ok db"
  shows "idx_ok t1 \<Longrightarrow> db_ok (db\<lparr>accounts := t1\<rparr>)"
    "idx_ok t2 \<Longrightarrow> db_ok (db\<lparr>account_stats := t2\<rparr>)"
    "idx_ok t3 \<Longrightarrow> db_ok (db\<lparr>vesting_balances := t3\<rparr>)"
    "idx_ok t4 \<Longrightarrow> db_ok (db\<lparr>limit_orders := t4\<rparr>)"
    "idx_ok t5 \<Longrightarrow> db_ok (db\<lparr>call_orders := t5\<rparr>)"
    "idx_ok t6 \<Longrightarrow> db_ok (db\<lparr>credits := t6\<rparr>)"
    "idx_ok t7 \<Longrightarrow> db_ok (db\<lparr>force_settlements := t7\<rparr>)"
    "idx_ok t8 \<Longrightarrow> db_ok (db\<lparr>collateral_bids := t8\<rparr>)"
    "idx_ok t9 \<Longrightarrow> db_ok (db\<lparr>karma_histories := t9\<rparr>)"
    "idx_ok t10 \<Longrightarrow> db_ok (db\<lparr>witnesses := t10\<rparr>)"
    "db_ok (db\<lparr>applied_ops := t11\<rparr>)"
    "idx_ok t12 \<Longrightarrow> db_ok (db\<lparr>committee_members := t12\<rparr>)"
    "idx_ok t13 \<Longrightarrow> db_ok (db\<lparr>workers := t13\<rparr>)"
    "idx_ok t14 \<Longrightarrow> db_ok (db\<lparr>withdraw_permissions := t14\<rparr>)"
    "idx_ok t15 \<Longrightarrow> db_ok (db\<lparr>genesis_balances := t15\<rparr>)"
    "idx_ok t16 \<Longrightarrow> db_ok (db\<lparr>blinded_balances := t16\<rparr>)"
    "idx_ok t17 \<Longrightarrow> db_ok (db\<lparr>fba_accumulators := t17\<rparr>)"
    "db_ok (db\<lparr>budget_records := t18\<rparr>)"
    "db_ok (db\<lparr>global_properties := t19\<rparr>)"
    "db_ok (db\<lparr>dynamic_properties := t20\<rparr>)"
    "db_ok (db\<lparr>special_authorities := t21\<rparr>)"
    "db_ok (db\<lparr>buybacks := t22\<rparr>)"
    "db_ok (db\<lparr>trx_index := t23\<rparr>)"
    "db_ok (db\<lparr>block_summaries := t24\<rparr>)"
  using assms by (simp_all add: db_ok_def indices_ok_def)

section \<open>Fees and cashback\<close>

definition books :: "asset_id_type \<Rightarrow> database \<Rightarrow> int" where
  "books i db = held i db - supply_of i db"

lemma vb_deposit_part:
  "vb_deposit v now x = Inr v' \<Longrightarrow> asset_part i (vb_balance v') = asset_part i (vb_balance v) + asset_part i x"
  "vb_deposit_vested v now x = Inr v' \<Longrightarrow> asset_part i (vb_balance v') = asset_part i (vb_balance v) + asset_part i x"
  by (auto simp: vb_deposit_def vb_deposit_vested_def Let_def asset_part_def)

lemma lazy_vesting_effect:
  assumes "deposit_lazy_vesting ov x vs own rv db = Inr r" "db_ok db"
  obtains t where "snd r = db\<lparr>vesting_balances := t\<rparr>" "idx_ok t"
    "\<And>i. idx_sum (\<lambda>v. asset_part i (vb_balance v)) t
       = idx_sum (\<lambda>v. asset_part i (vb_balance v)) (vesting_balances db) + asset_part i (mk_asset x 0)"
proof -
  let ?v = "\<lparr>vb_owner = own, vb_balance = mk_asset x 0, vb_policy = Cdd \<lparr>vesting_seconds = vs,
     coin_seconds_earned = (if rv then 0 else u128 (wrap64 (x * int vs))), start_claim = 0,
     coin_seconds_earned_last_update = head_block_time db\<rparr>\<rparr>"
  have o: "idx_ok (vesting_balances db)" using assms(2) by (rule db_okD)
  consider "x = 0" "snd r = db"
    | "snd r = db\<lparr>vesting_balances := idx_create (vesting_balances db) ?v\<rparr>"
    | vbid vbo vbo' where "idx_find (vesting_balances db) vbid = Some vbo"
        "(if rv then vb_deposit vbo (head_block_time db) (mk_asset x 0)
          else vb_deposit_vested vbo (head_block_time db) (mk_asset x 0)) = Inr vbo'"
        "snd r = db\<lparr>vesting_balances := idx_put (vesting_balances db) vbid vbo'\<rparr>"
  proof (cases "x = 0")
    case False
    show thesis
    proof (cases ov)
      case (Some vbid)
      with assms(1) False obtain vbo where vbo: "idx_find (vesting_balances db) vbid = Some vbo"
        by (auto simp: deposit_lazy_vesting_def Let_def)
      show thesis
      proof (cases "vb_owner vbo = own \<and> (\<exists>pol. vb_policy vbo = Cdd pol \<and> vesting_seconds pol = vs)")
        case True
        then obtain vbo' where "(if rv then vb_deposit vbo (head_block_time db) (mk_asset x 0)
            else vb_deposit_vested vbo (head_block_time db) (mk_asset x 0)) = Inr vbo'"
          "snd r = db\<lparr>vesting_balances := idx_put (vesting_balances db) vbid vbo'\<rparr>"
          using assms(1) False Some vbo by (auto simp: deposit_lazy_vesting_def Let_def)
        then show thesis by (rule that(3) [OF vbo])
      next
        case notmatching: False
        then show thesis using assms(1) False Some vbo
          by (intro that(2)) (cases "vb_policy vbo", auto simp: deposit_lazy_vesting_def Let_def split: if_splits)
      qed
    next
      case None
      then have "snd r = db\<lparr>vesting_balances := idx_create (vesting_balances db) ?v\<rparr>"
        using assms(1) False by (auto simp: deposit_lazy_vesting_def Let_def)
      then show thesis by (rule that(2))
    qed
  next
    case True
    then have "snd r = db" using assms(1) by (auto simp: deposit_lazy_vesting_def)
    with True show thesis by (rule that(1))
  qed
  then show thesis
  proof cases
    case 1
    then show thesis using o by (intro that [of "vesting_balances db"]) (auto simp: asset_part_def)
  next
    case 2
    then show thesis using o by (rule that [OF _ idx_ok_create]) (simp add: idx_sum_create)
  next
    case 3
    then have "asset_part i (vb_balance vbo') = asset_part i (vb_balance vbo) + asset_part i (mk_asset x 0)" for i
      by (cases rv) (auto dest: vb_deposit_part)
    with 3 o show thesis by (intro that [OF 3(3) idx_ok_put]) (simp_all add: idx_sum_put)
  qed
qed

lemma cashback_effect:
  assumes "deposit_cashback a x rv db = Inr db'" "db_ok db"
  shows "db_ok db'" "books i db' = books i db + asset_part i (mk_asset x 0)"
    "account_stats db' = account_stats db" "assets db' = assets db"
proof -
  obtain acc where acc: "idx_find (accounts db) a = Some acc" using assms(1) by (auto simp: deposit_cashback_def)
  have "db_ok db' \<and> books i db' = books i db + asset_part i (mk_asset x 0)
      \<and> account_stats db' = account_stats db \<and> assets db' = assets db"
  proof (cases "x = 0 \<or> a \<in> set special_accounts")
    case True
    then show ?thesis
    proof (cases "x = 0")
      case False
      with True acc assms obtain b d where "idx_find (assets db) 0 = Some b"
        "idx_find (asset_dynamic_data db) (dynamic_asset_data_id b) = Some d"
        "db' = db\<lparr>asset_dynamic_data := idx_put (asset_dynamic_data db) (dynamic_asset_data_id b)
           (d\<lparr>current_supply := current_supply d - x\<rparr>)\<rparr>"
        by (auto simp: deposit_cashback_def modify_dynamic_def)
      with dynamic_put_effect [OF assms(2) this] show ?thesis by (auto simp: books_def asset_part_def)
    qed (use acc assms in \<open>auto simp: deposit_cashback_def asset_part_def\<close>)
  next
    case False
    then obtain r where r: "deposit_lazy_vesting (cashback_vb acc) x
          (cashback_vesting_period_seconds (parameters (global_properties db))) a rv db = Inr r"
      and db': "db' = (case fst r of None \<Rightarrow> snd r
          | Some vbid \<Rightarrow> (snd r)\<lparr>accounts := idx_put (accounts (snd r)) a (acc\<lparr>cashback_vb := Some vbid\<rparr>)\<rparr>)"
      using assms(1) acc by (auto simp: deposit_cashback_def split: option.splits)
    from r assms(2) obtain t where t: "snd r = db\<lparr>vesting_balances := t\<rparr>" "idx_ok t"
      "\<And>i. idx_sum (\<lambda>v. asset_part i (vb_balance v)) t
         = idx_sum (\<lambda>v. asset_part i (vb_balance v)) (vesting_balances db) + asset_part i (mk_asset x 0)"
      by (rule lazy_vesting_effect) blast
    have "db_ok (snd r)" using t db_ok_update [OF assms(2)] by simp
    then have "db_ok db'" using db' db_ok_update(1) db_okD(1) by (auto split: option.split)
    then show ?thesis using t(1,3) db' by (auto simp: books_def db_simps split: option.split)
  qed
  then show "db_ok db'" "books i db' = books i db + asset_part i (mk_asset x 0)"
    "account_stats db' = account_stats db" "assets db' = assets db" by auto
qed

lemma fix_referrer_effect:
  assumes "fix_referrer a db = Inr db'" "db_ok db"
  shows "db_ok db'" "books i db' = books i db" "account_stats db' = account_stats db"
  using assms db_ok_update(1) [OF assms(2)] db_okD(1) [OF assms(2)]
  by (auto simp: fix_referrer_def books_def split: if_splits)

lemma pay_out_effect:
  assumes "pay_out_fees a x rv db = Inr db'" "db_ok db"
  shows "db_ok db'" "books i db' = books i db + asset_part i (mk_asset x 0)" "account_stats db' = account_stats db"
proof -
  obtain db0 acc where fx: "fix_referrer a db = Inr db0" and acc: "idx_find (accounts db0) a = Some acc"
    using assms(1) by (auto simp: pay_out_fees_def)
  note b0 = fix_referrer_effect [OF fx assms(2)]
  define n where "n = cut_fee x (network_fee_percentage acc)"
  define l where "l = cut_fee x (lifetime_referrer_fee_percentage acc)"
  define r where "r = cut_fee (x - n - l) (referrer_rewards_percentage acc)"
  from assms(1) fx acc obtain d db2 db3 where
    d: "idx_find (asset_dynamic_data db0) 0 = Some d" and
    c1: "deposit_cashback (lifetime_referrer acc) l rv
      (db0\<lparr>asset_dynamic_data := idx_put (asset_dynamic_data db0) 0 (d\<lparr>accumulated_fees := accumulated_fees d + n\<rparr>)\<rparr>)
      = Inr db2" and
    c2: "deposit_cashback (referrer acc) r rv db2 = Inr db3" and
    c3: "deposit_cashback (registrar acc) (x - n - l - r) rv db3 = Inr db'"
    by (auto simp: pay_out_fees_def Let_def n_def l_def r_def)
  obtain b where b: "idx_find (assets db0) 0 = Some b" "dynamic_asset_data_id b = 0"
    using b0(1) by (auto simp: db_ok_def dyn_ids_ok_def)
  note e1 = dynamic_put_effect [OF b0(1) b(1), unfolded b(2), OF d refl]
  note e2 = cashback_effect [OF c1 e1(3)]
  note e3 = cashback_effect [OF c2 e2(1)]
  note e4 = cashback_effect [OF c3 e3(1)]
  show "db_ok db'" by (rule e4(1))
  show "account_stats db' = account_stats db" using e4(3) e3(3) e2(3) b0(3) by simp
  show "books i db' = books i db + asset_part i (mk_asset x 0)"
    using e4(2) [of i] e3(2) [of i] e2(2) [of i] e1(1,2) [of i] b0(2) [of i]
    by (cases "i = 0") (simp_all add: books_def asset_part_def)
qed

lemma witness_pay_effect:
  assumes "deposit_witness_pay w x db = Inr db'" "db_ok db"
  shows "db_ok db'" "books i db' = books i db + asset_part i (mk_asset x 0)"
proof -
  obtain wo where wo: "idx_find (witnesses db) w = Some wo" using assms(1) by (auto simp: deposit_witness_pay_def)
  have "db_ok db' \<and> books i db' = books i db + asset_part i (mk_asset x 0)"
  proof (cases "x = 0")
    case False
    then obtain r where r: "deposit_lazy_vesting (pay_vb wo) x
          (witness_pay_vesting_seconds (parameters (global_properties db))) (witness_account wo) True db = Inr r"
      and db': "db' = (case fst r of None \<Rightarrow> snd r
          | Some vbid \<Rightarrow> (snd r)\<lparr>witnesses := idx_put (witnesses (snd r)) w (wo\<lparr>pay_vb := Some vbid\<rparr>)\<rparr>)"
      using assms(1) wo by (auto simp: deposit_witness_pay_def split: option.splits)
    from r assms(2) obtain t where t: "snd r = db\<lparr>vesting_balances := t\<rparr>" "idx_ok t"
      "\<And>i. idx_sum (\<lambda>v. asset_part i (vb_balance v)) t
         = idx_sum (\<lambda>v. asset_part i (vb_balance v)) (vesting_balances db) + asset_part i (mk_asset x 0)"
      by (rule lazy_vesting_effect) blast
    have "db_ok (snd r)" using t db_ok_update [OF assms(2)] by simp
    then have "db_ok db'" using db' db_ok_update(10) db_okD(10) by (auto split: option.split)
    then show ?thesis using t(1,3) db' by (auto simp: books_def db_simps split: option.split)
  qed (use wo assms in \<open>auto simp: deposit_witness_pay_def asset_part_def\<close>)
  then show "db_ok db'" "books i db' = books i db + asset_part i (mk_asset x 0)" by auto
qed

section \<open>A small chain\<close>

definition demo_params :: chain_parameters where
  "demo_params = \<lparr>account_create_basic_fee = 500000, block_interval = 5, maintenance_interval = 86400, maintenance_skip_slots = 3,
     committee_proposal_review_period = 1209600, maximum_transaction_size = 2048, maximum_block_size = 2048000,
     maximum_time_until_expiration = 86400, maximum_proposal_lifetime = 2419200, maximum_asset_whitelist_authorities = 10,
     maximum_asset_feed_publishers = 10, maximum_witness_count = 1001, maximum_committee_count = 1001,
     maximum_authority_membership = 10,
     reserve_percent_of_fee = 2000, network_percent_of_fee = 2000, lifetime_referrer_percent_of_fee = 3000,
     cashback_vesting_period_seconds = 31536000, cashback_vesting_threshold = 10000000, count_non_member_votes = True, allow_non_member_whitelists = False,
     witness_pay_per_block = 1000000, witness_pay_vesting_seconds = 86400,
     worker_budget_per_day = 50000000000,
     accounts_per_fee_scale = 1000, account_fee_scale_bitshifts = 4, max_authority_depth = 2, extensions = []\<rparr>"

definition demo_authority :: authority where
  "demo_authority = \<lparr>weight_threshold = 1, account_auths = [], key_auths = [(1, 1)], address_auths = []\<rparr>"

definition demo_options :: account_options where
  "demo_options = \<lparr>voting_account = 5, num_witness = 0, num_committee = 0, votes = []\<rparr>"

definition demo_account :: "nat \<Rightarrow> account_object" where
  "demo_account s = \<lparr>membership_expiration_date = 0, registrar = 0, referrer = 0, lifetime_referrer = 0,
     network_fee_percentage = 2000, lifetime_referrer_fee_percentage = 3000, referrer_rewards_percentage = 5000,
     acc_name = [], karma = Fin 1, acc_owner = demo_authority, acc_active = demo_authority,
     acc_options = demo_options, statistics = s, whitelisting_accounts = [], blacklisting_accounts = [],
     whitelisted_accounts = [], blacklisted_accounts = [],
     cashback_vb = None, owner_special_authority = no_special_authority, active_special_authority = no_special_authority,
     top_n_control_flags = 0, allowed_assets = None, credit_referrer = 0, credit_referrer_expiration_date = 0\<rparr>"

definition demo_asset :: "nat \<Rightarrow> asset_object" where
  "demo_asset i = \<lparr>symbol = ''KRM'', decimals = 5, issuer = 0,
     a_options = \<lparr>max_supply = GRAPHENE_MAX_SHARE_SUPPLY, market_fee_percent = 0, max_market_fee = 0,
       issuer_permissions = 0, flags = 0, ao_core_exchange_rate = null_price, whitelist_authorities = [],
       blacklist_authorities = [], whitelist_markets = [], blacklist_markets = []\<rparr>,
     dynamic_asset_data_id = i, bitasset_data_id = None, buyback_account = None\<rparr>"

definition demo_dyn :: "share_type \<Rightarrow> asset_dynamic_data_object" where
  "demo_dyn s = \<lparr>current_supply = s, confidential_supply = 0, accumulated_fees = 0, fee_pool = 0\<rparr>"

definition demo_stats :: "account_id_type \<Rightarrow> share_type \<Rightarrow> account_statistics_object" where
  "demo_stats a f = \<lparr>stat_owner = a, total_core_in_orders = 0, lifetime_fees_paid = 0, pending_fees = f,
     pending_vested_fees = 0\<rparr>"

definition idx_of :: "'a list \<Rightarrow> 'a index" where
  "idx_of xs = \<lparr>next_id = length xs, objs = zip [0..<length xs] xs\<rparr>"

text \<open>
  Two assets, five system accounts and two users; account 5 owns 700 of the core asset and has
  100 in pending fees, account 6 owns 200, and each owns 50 of the other asset.
\<close>

definition demo_chain :: database where
  "demo_chain = \<lparr>accounts = idx_of (map demo_account [0..<7]),
     account_stats = idx_of (map (\<lambda>a. demo_stats a (if a = 5 then 100 else 0)) [0..<7]),
     karma_histories = idx_empty, assets = idx_of (map demo_asset [0..<2]),
     asset_dynamic_data = idx_of [demo_dyn 1000, demo_dyn 100], asset_bitasset_data = idx_empty,
     balances = idx_of [\<lparr>owner = 5, asset_type = 0, balance = 700\<rparr>, \<lparr>owner = 6, asset_type = 0, balance = 200\<rparr>,
        \<lparr>owner = 5, asset_type = 1, balance = 50\<rparr>, \<lparr>owner = 6, asset_type = 1, balance = 50\<rparr>],
     limit_orders = idx_empty, call_orders = idx_empty, force_settlements = idx_empty,
     collateral_bids = idx_empty, vesting_balances = idx_empty, witnesses = idx_empty, credits = idx_empty,
     exchange_rates = idx_empty, committee_members = idx_empty, workers = idx_empty, withdraw_permissions = idx_empty,
     genesis_balances = idx_empty, blinded_balances = idx_empty,
     fba_accumulators = idx_of (replicate 3 \<lparr>accumulated_fba_fees = 0, designated_asset = None\<rparr>),
     special_authorities = idx_empty, buybacks = idx_empty, budget_records = idx_empty,
     trx_index = idx_empty, block_summaries = idx_empty,
     chain_properties = \<lparr>min_committee_member_count = 11, min_witness_count = 11\<rparr>,
     witness_schedule = \<lparr>current_shuffled_witnesses = []\<rparr>,
     global_properties = \<lparr>parameters = demo_params, pending_parameters = None, next_available_vote_id = 0,
        active_committee_members = [], active_witnesses = []\<rparr>,
     dynamic_properties = \<lparr>head_block_number = 1, head_block_id = Block_id 1 0, time = 1600000000, current_witness = 0, next_maintenance_time = 0,
        last_budget_time = 0, witness_budget = 0, accounts_registered_this_interval = 0, recently_missed_count = 0, current_aslot = 1, recent_slots_filled = 0,
        dynamic_flags = 0, last_irreversible_block_num = 0\<rparr>,
     applied_ops = []\<rparr>"

lemma idx_ok_of [simp]: "idx_ok (idx_of xs)"
  by (auto simp: idx_ok_def idx_of_def dest: set_zip_leftD)

lemmas demo_chain_simps = demo_chain_def demo_account_def demo_asset_def demo_dyn_def demo_stats_def demo_params_def
  idx_of_def idx_empty_def upt_rec

lemma demo_chain_ok: "db_ok demo_chain"
proof -
  have "indices_ok demo_chain" by (simp add: indices_ok_def demo_chain_def)
  moreover have "balances_nonneg (balances demo_chain)" by (simp add: balances_nonneg_def demo_chain_simps)
  moreover have "dyn_ids_ok (assets demo_chain)" by (simp add: dyn_ids_ok_def demo_chain_simps idx_find_def)
  ultimately show ?thesis by (simp add: db_ok_def)
qed

lemma adjust_balance_frame:
  assumes "adjust_balance a d db = Inr db'" "db_ok db"
  shows "db_ok db'" "books i db' = books i db + asset_part i d"
    "amount (get_balance db' b j) = amount (get_balance db b j) + (if b = a then asset_part j d else 0)"
    "credits db' = credits db" "accounts db' = accounts db" "assets db' = assets db" "limit_orders db' = limit_orders db"
    "call_orders db' = call_orders db" "account_stats db' = account_stats db" "asset_dynamic_data db' = asset_dynamic_data db"
    "force_settlements db' = force_settlements db" "collateral_bids db' = collateral_bids db"
    "asset_bitasset_data db' = asset_bitasset_data db" "exchange_rates db' = exchange_rates db"
    "global_properties db' = global_properties db" "dynamic_properties db' = dynamic_properties db"
    "vesting_balances db' = vesting_balances db" "witnesses db' = witnesses db" "applied_ops db' = applied_ops db"
    "supply_of i db' = supply_of i db"
proof -
  from assms obtain t where t: "db' = db\<lparr>balances := t\<rparr>" by (rule adjust_balance_effect) blast
  show "db_ok db'" using chain_balances.adjust_ok [OF assms(2,1)] .
  show "amount (get_balance db' b j) = amount (get_balance db b j) + (if b = a then asset_part j d else 0)"
    using chain_balances.adjust_bal [OF assms(2,1)] .
  show "books i db' = books i db + asset_part i d"
    using chain_balances.adjust_total [OF assms(2,1)] by (simp add: books_def) (simp add: t)
  show "credits db' = credits db" "accounts db' = accounts db" "assets db' = assets db" "limit_orders db' = limit_orders db"
    "call_orders db' = call_orders db" "account_stats db' = account_stats db" "asset_dynamic_data db' = asset_dynamic_data db"
    "force_settlements db' = force_settlements db" "collateral_bids db' = collateral_bids db"
    "asset_bitasset_data db' = asset_bitasset_data db" "exchange_rates db' = exchange_rates db"
    "global_properties db' = global_properties db" "dynamic_properties db' = dynamic_properties db"
    "vesting_balances db' = vesting_balances db" "witnesses db' = witnesses db" "applied_ops db' = applied_ops db"
    "supply_of i db' = supply_of i db"
    by (simp_all add: t)
qed

section \<open>Properties\<close>

lemma adjust_balance_succeeds:
  assumes "db_ok db" "in_int64 (amount d)" "amount (get_balance db a (asset_id d)) \<le> 9223372036854775807"
  shows "(\<exists>db'. adjust_balance a d db = Inr db') \<longleftrightarrow>
    0 \<le> amount (get_balance db a (asset_id d)) + amount d
    \<and> amount (get_balance db a (asset_id d)) + amount d \<le> 9223372036854775807"
proof -
  let ?b = "amount (get_balance db a (asset_id d))"
  have b: "0 \<le> ?b" using get_balance_nonneg [OF assms(1)] .
  consider "amount d = 0" | "amount d \<noteq> 0" "idx_find_by (balance_key a (asset_id d)) (balances db) = None"
    | p where "amount d \<noteq> 0" "idx_find_by (balance_key a (asset_id d)) (balances db) = Some p" by fastforce
  then show ?thesis
  proof cases
    case 1
    then show ?thesis using b assms(3) by (simp add: adjust_balance_def)
  next
    case 2
    then have "?b = 0" by (simp add: get_balance_def)
    then show ?thesis using 2 assms(2) by (auto simp: adjust_balance_def in_int64_def)
  next
    case 3
    then have p: "idx_find (balances db) (fst p) = Some (snd p)" "balance_key a (asset_id d) (snd p)"
      using idx_find_by_SomeD [OF db_okD(6) [OF assms(1)] 3(2)] by auto
    then have "?b = balance (snd p)" using 3 by (simp add: get_balance_def)
    moreover have "asset_type (snd p) = asset_id d" using p(2) by (simp add: balance_key_def)
    ultimately show ?thesis using 3 p assms(2,3) b
      by (auto simp: adjust_balance_def abo_adjust_balance_def asset_ge_def asset_lt_def asset_neg_def
          in_int64_def safe_neg_def)
  qed
qed

text \<open>C31: \<open>adjust_balance\<close> succeeds exactly when the resulting balance is neither negative nor above the 64-bit
  maximum, and then it changes that one balance and the books by the delta and nothing else.\<close>

theorem adjust_balance_exact:
  assumes "db_ok db" "in_int64 (amount d)" "amount (get_balance db a (asset_id d)) \<le> 9223372036854775807"
  shows "((\<exists>db'. adjust_balance a d db = Inr db') \<longleftrightarrow>
      0 \<le> amount (get_balance db a (asset_id d)) + amount d
      \<and> amount (get_balance db a (asset_id d)) + amount d \<le> 9223372036854775807)
    \<and> (\<forall>db'. adjust_balance a d db = Inr db' \<longrightarrow> db_ok db'
      \<and> (\<forall>b i. amount (get_balance db' b i)
            = amount (get_balance db b i) + (if b = a \<and> i = asset_id d then amount d else 0))
      \<and> (\<forall>i. held i db' = held i db + asset_part i d) \<and> db' = db\<lparr>balances := balances db'\<rparr>)"
proof (intro conjI allI impI)
  fix db' assume adj: "adjust_balance a d db = Inr db'"
  show "db_ok db'" using chain_balances.adjust_ok [OF assms(1) adj] .
  show "held i db' = held i db + asset_part i d" for i using chain_balances.adjust_total [OF assms(1) adj] .
  show "amount (get_balance db' b i) = amount (get_balance db b i) + (if b = a \<and> i = asset_id d then amount d else 0)"
    for b i using chain_balances.adjust_bal [OF assms(1) adj, of b i] by (simp add: asset_part_def)
  from adj assms(1) obtain t where "db' = db\<lparr>balances := t\<rparr>" by (rule adjust_balance_effect) blast
  then show "db' = db\<lparr>balances := balances db'\<rparr>" by simp
qed (rule adjust_balance_succeeds [OF assms])

theorem adjust_balance_exact_witness:
  "\<exists>db'. adjust_balance 5 (mk_asset (- 700) 0) demo_chain = Inr db' \<and> amount (get_balance db' 5 0) = 0
     \<and> amount (get_balance db' 6 0) = 200"
proof -
  have "amount (get_balance demo_chain 5 0) = 700" "amount (get_balance demo_chain 6 0) = 200"
    by (simp_all add: get_balance_def idx_find_by_def balance_key_def demo_chain_simps)
  then show ?thesis using adjust_balance_exact [OF demo_chain_ok, of "mk_asset (- 700) 0" 5]
    by (auto simp: in_int64_def)
qed

lemma cut_fee_floor:
  assumes "0 \<le> x" "x \<le> 9223372036854775807" "p \<le> 10000"
  shows "cut_fee x p = x * int p div 10000"
proof -
  have "uint (u128 x * u128 (int p)) = x * int p" using assms by (intro u128_mult_small) auto
  moreover have "uint (u128 10000) = 10000" by (intro uint_u128_small) auto
  ultimately have "uint (u128 x * u128 (int p) div u128 10000) = x * int p div 10000" by (simp add: uint_div_distrib)
  moreover have "x * int p \<le> x * 10000" using assms by (intro mult_left_mono) auto
  then have "x * int p div 10000 \<le> x" using zdiv_mono1 [of "x * int p" "x * 10000" 10000] by simp
  then have "wrap64 (x * int p div 10000) = x * int p div 10000"
    using assms by (intro wrap64_id) (auto simp: pos_imp_zdiv_nonneg_iff)
  ultimately show ?thesis by (simp add: cut_fee_def GRAPHENE_100_PERCENT_def)
qed

text \<open>\<open>cut_fee\<close> is the exact floor of the percentage and never more than the fee, so the split of a fee into
  the cuts of network, lifetime referrer, referrer and registrar adds up to the fee with no negative part,
  when the network and lifetime percentages together do not exceed one hundred percent.\<close>

theorem fee_split_exact:
  assumes "0 \<le> x" "x \<le> 9223372036854775807" "pn + pl \<le> 10000" "pr \<le> 10000"
  shows "cut_fee x pn = x * int pn div 10000
    \<and> 0 \<le> cut_fee x pn \<and> 0 \<le> cut_fee x pl \<and> cut_fee x pn + cut_fee x pl \<le> x
    \<and> 0 \<le> cut_fee (x - cut_fee x pn - cut_fee x pl) pr
    \<and> cut_fee (x - cut_fee x pn - cut_fee x pl) pr \<le> x - cut_fee x pn - cut_fee x pl"
proof -
  have f: "cut_fee x pn = x * int pn div 10000" "cut_fee x pl = x * int pl div 10000"
    using assms by (auto intro: cut_fee_floor)
  have nn: "0 \<le> cut_fee x pn" "0 \<le> cut_fee x pl" using assms by (auto simp: f pos_imp_zdiv_nonneg_iff)
  have "x * int pn + x * int pl \<le> x * 10000" using assms by (simp add: mult_left_mono flip: distrib_left)
  then have le: "cut_fee x pn + cut_fee x pl \<le> x" unfolding f by linarith
  let ?r = "x - cut_fee x pn - cut_fee x pl"
  have r: "0 \<le> ?r" "?r \<le> 9223372036854775807" using le nn assms by auto
  have fr: "cut_fee ?r pr = ?r * int pr div 10000" using r assms(4) by (rule cut_fee_floor)
  have "?r * int pr \<le> ?r * 10000" using r assms(4) by (intro mult_left_mono) auto
  then have "cut_fee ?r pr \<le> ?r" unfolding fr using zdiv_mono1 [of "?r * int pr" "?r * 10000" 10000] by simp
  moreover have "0 \<le> cut_fee ?r pr" using r by (simp add: fr pos_imp_zdiv_nonneg_iff)
  ultimately show ?thesis using f nn le by auto
qed

theorem fee_split_exact_witness: "cut_fee 1001 2000 = 200 \<and> cut_fee 1001 2000 + cut_fee 1001 3000 \<le> 1001"
  using fee_split_exact [of 1001 2000 3000 5000] by simp

text \<open>Paying out the pending fees of an account conserves the books of every asset: what leaves the pending
  fees arrives in the accumulated fees and in the vesting balances of the referrers, or leaves the supply
  when a system account would receive it. The pending fees are zero afterwards.\<close>

theorem process_fees_conserves:
  assumes "db_ok db" "process_fees sid a db = Inr db'"
    and "\<And>s. idx_find (account_stats db) sid = Some s \<Longrightarrow> 0 \<le> pending_fees s \<and> 0 \<le> pending_vested_fees s"
  shows "db_ok db' \<and> books i db' = books i db
    \<and> (\<exists>s'. idx_find (account_stats db') sid = Some s' \<and> pending_fees s' = 0 \<and> pending_vested_fees s' = 0)"
proof -
  obtain s where s: "idx_find (account_stats db) sid = Some s" using assms(2) by (auto simp: process_fees_def)
  show ?thesis
  proof (cases "pending_fees s > 0 \<or> pending_vested_fees s > 0")
    case True
    then obtain db1 db2 where
      p1: "pay_out_fees a (pending_fees s) True db = Inr db1" and
      p2: "pay_out_fees a (pending_vested_fees s) False db1 = Inr db2"
      using assms(2) s by (auto simp: process_fees_def)
    note e1 = pay_out_effect [OF p1 assms(1)]
    note e2 = pay_out_effect [OF p2 e1(1)]
    have s2: "idx_find (account_stats db2) sid = Some s" using e1(3) e2(3) s by simp
    let ?s = "s\<lparr>lifetime_fees_paid := lifetime_fees_paid s + (pending_fees s + pending_vested_fees s),
       pending_fees := 0, pending_vested_fees := 0\<rparr>"
    have db': "db' = db2\<lparr>account_stats := idx_put (account_stats db2) sid ?s\<rparr>"
      using assms(2) s True p1 p2 s2 by (auto simp: process_fees_def)
    have ok2: "idx_ok (account_stats db2)" using db_okD(2) [OF e2(1)] .
    have "db_ok db'" using db' db_ok_update(2) [OF e2(1)] ok2 by simp
    moreover have "books i db' = books i db2 - stat_amount i s"
      using idx_sum_put [OF ok2 s2, of "stat_amount i" ?s]
      by (simp add: db' books_def held_update) (simp add: stat_amount_def)
    then have "books i db' = books i db" using e1(2) [of i] e2(2) [of i]
      by (auto simp: stat_amount_def asset_part_def split: if_splits)
    moreover have "idx_find (account_stats db') sid = Some ?s" using s2 by (simp add: db' idx_find_put)
    ultimately show ?thesis by simp
  next
    case False
    then have "db' = db" using assms(2) s by (auto simp: process_fees_def)
    with False show ?thesis using assms(1,3) s by fastforce
  qed
qed

theorem process_fees_conserves_witness:
  "\<exists>db'. process_fees 5 5 demo_chain = Inr db' \<and> books 0 db' = books 0 demo_chain"
proof -
  have "\<exists>db'. process_fees 5 5 demo_chain = Inr db'"
    by (simp add: process_fees_def pay_out_fees_def fix_referrer_def deposit_cashback_def demo_chain_simps
        idx_find_def idx_get_def get_account_def get_asset_def Let_def modify_dynamic_def special_accounts_def
        is_basic_account_def head_block_time_def cut_fee_def idx_modify_def idx_put_def safe_sub_def safe_add_def
        safe_int64_def in_int64_def wrap64_def u128_def GRAPHENE_100_PERCENT_def)
  then obtain db' where db': "process_fees 5 5 demo_chain = Inr db'" by blast
  have "idx_find (account_stats demo_chain) 5 = Some (demo_stats 5 100)"
    by (simp add: idx_find_def demo_chain_simps)
  then have "db_ok db' \<and> books 0 db' = books 0 demo_chain \<and> (\<exists>s'. idx_find (account_stats db') 5 = Some s'
      \<and> pending_fees s' = 0 \<and> pending_vested_fees s' = 0)"
    by (intro process_fees_conserves [OF demo_chain_ok db']) (simp add: demo_stats_def)
  with db' show ?thesis by blast
qed

end
