(* ===== verification/AmountText.thy ===== *)
theory AmountText
  imports Asset Double "HOL-Library.Signed_Division"
begin

text \<open>
  The textual form of an amount: \<^verbatim>\<open>asset_object::amount_to_string\<close>, \<^verbatim>\<open>amount_from_string\<close> and
  \<^verbatim>\<open>amount_to_real\<close> of \<^verbatim>\<open>asset_object.cpp\<close>, with the parts of the standard library they use
  (\<^verbatim>\<open>to_string\<close>, \<^verbatim>\<open>stoll\<close>, \<^verbatim>\<open>substr\<close> and the reading of a double from a stream). The asset is
  represented by its precision and its id.
\<close>

section \<open>Decimal digits\<close>

definition digit_char :: "nat \<Rightarrow> char" where
  "digit_char n = char_of (48 + n)"

definition isdigit :: "char \<Rightarrow> bool" where
  "isdigit c \<longleftrightarrow> 48 \<le> (of_char c :: nat) \<and> (of_char c :: nat) \<le> 57"

definition digit_val :: "char \<Rightarrow> nat" where
  "digit_val c = of_char c - 48"

fun show_nat :: "nat \<Rightarrow> string" where
  "show_nat n = (if n < 10 then [digit_char n] else show_nat (n div 10) @ [digit_char (n mod 10)])"

declare show_nat.simps [simp del]

definition to_string :: "int \<Rightarrow> string" where
  "to_string i = (if i < 0 then CHR ''-'' # show_nat (nat (- i)) else show_nat (nat i))"

definition digits_value :: "string \<Rightarrow> nat" where
  "digits_value s = foldl (\<lambda>n c. 10 * n + digit_val c) 0 s"

definition stoll_digits :: "bool \<Rightarrow> string \<Rightarrow> int exn" where
  "stoll_digits neg s =
    (let ds = takeWhile isdigit s; v = int (digits_value ds); x = (if neg then - v else v) in
     if ds = [] then Inl (chain_exception ''invalid_argument'')
     else if in_int64 x then Inr x else Inl (chain_exception ''out_of_range''))"

definition stoll :: "string \<Rightarrow> int exn" where
  "stoll s = (case s of
     [] \<Rightarrow> Inl (chain_exception ''invalid_argument'')
   | c # cs \<Rightarrow> if c = CHR ''-'' then stoll_digits True cs
               else if c = CHR ''+'' then stoll_digits False cs else stoll_digits False s)"

section \<open>The conversions\<close>

fun scale_loop :: "nat \<Rightarrow> share_type exn" where
  "scale_loop 0 = Inr 1"
| "scale_loop (Suc n) = bindE (scale_loop n) (\<lambda>x. safe_mul x 10)"

definition amount_to_string :: "nat \<Rightarrow> share_type \<Rightarrow> string exn" where
  "amount_to_string prec amt =
    bindE (scale_loop prec) (\<lambda>scaled.
    let result = to_string (amt sdiv scaled); dec = amt smod scaled in
    Inr (if dec \<noteq> 0 then result @ ''.'' @ tl (to_string (scaled + dec)) else result))"

fun scan_amount :: "bool \<Rightarrow> bool \<Rightarrow> string \<Rightarrow> (bool \<times> bool) exn" where
  "scan_amount neg dec [] = Inr (neg, dec)"
| "scan_amount neg dec (c # cs) =
    (if isdigit c then scan_amount neg dec cs
     else if c = CHR ''-'' \<and> \<not> neg then scan_amount True dec cs
     else if c = CHR ''.'' \<and> \<not> dec then scan_amount neg True cs
     else Inl (chain_exception ''amount_string''))"

definition decimal_pos :: "string \<Rightarrow> nat" where
  "decimal_pos s = length (takeWhile (\<lambda>c. c \<noteq> CHR ''.'') s)"

definition amount_from_string :: "nat \<Rightarrow> asset_id_type \<Rightarrow> string \<Rightarrow> asset exn" where
  "amount_from_string prec aid s =
    bindE (scan_amount False False s) (\<lambda>(negative_found, decimal_found).
    bindE (scaled_precision prec) (\<lambda>scaled.
    let pos = decimal_pos s;
        lhs = (if decimal_found then take pos (drop (if negative_found then 1 else 0) s)
               else drop (if negative_found then 1 else 0) s)
    in
    bindE (if lhs \<noteq> [] then bindE (stoll lhs) (\<lambda>x. bindE (safe_mul x scaled) (safe_add 0)) else Inr 0) (\<lambda>satoshis.
    bindE (if decimal_found
           then let max_rhs_size = length (tl (to_string scaled)); rhs = drop (pos + 1) s in
             bindE (fc_assert (length rhs \<le> max_rhs_size) ''rhs.size() <= max_rhs_size'') (\<lambda>_.
             let rhs = rhs @ replicate (max_rhs_size - length rhs) (CHR ''0'') in
             if rhs \<noteq> [] then bindE (stoll rhs) (safe_add satoshis) else Inr satoshis)
           else Inr satoshis) (\<lambda>satoshis.
    bindE (fc_assert (satoshis \<le> GRAPHENE_MAX_SHARE_SUPPLY) ''satoshis <= GRAPHENE_MAX_SHARE_SUPPLY'') (\<lambda>_.
    bindE (if negative_found then safe_mul satoshis (-1) else Inr satoshis) (\<lambda>satoshis.
    Inr (mk_asset satoshis aid)))))))"

definition decimal_rat :: "string \<Rightarrow> rat" where
  "decimal_rat s =
    (let neg = (s \<noteq> [] \<and> hd s = CHR ''-''); u = (if neg then tl s else s);
         ip = takeWhile isdigit u; rest = drop (length ip) u;
         fp = (if rest \<noteq> [] \<and> hd rest = CHR ''.'' then takeWhile isdigit (tl rest) else []);
         x = of_nat (digits_value ip) + of_nat (digits_value fp) / 10 ^ length fp
     in if neg then - x else x)"

definition amount_to_real :: "nat \<Rightarrow> share_type \<Rightarrow> double exn" where
  "amount_to_real prec amt = bindE (amount_to_string prec amt) (\<lambda>s. Inr (fl_round binary64 (decimal_rat s)))"

section \<open>Printing and reading digits\<close>

lemma of_char_digit: "n < 10 \<Longrightarrow> (of_char (digit_char n) :: nat) = 48 + n"
  by (simp add: digit_char_def)

lemma isdigit_digit [simp]: "n < 10 \<Longrightarrow> isdigit (digit_char n)"
  by (simp add: isdigit_def of_char_digit)

lemma digit_val_digit [simp]: "n < 10 \<Longrightarrow> digit_val (digit_char n) = n"
  by (simp add: digit_val_def of_char_digit)

lemma isdigit_not_sign [simp]: "\<not> isdigit (CHR ''-'')" "\<not> isdigit (CHR ''.'')" "\<not> isdigit (CHR ''+'')"
  by (simp_all add: isdigit_def)

lemma isdigit_neq: "isdigit c \<Longrightarrow> c \<noteq> CHR ''-''" "isdigit c \<Longrightarrow> c \<noteq> CHR ''.''" "isdigit c \<Longrightarrow> c \<noteq> CHR ''+''"
  by auto

lemma digits_value_append: "digits_value (s @ t) = digits_value s * 10 ^ length t + digits_value t"
proof (induction t rule: rev_induct)
  case (snoc c t)
  have "digits_value (u @ [c]) = 10 * digits_value u + digit_val c" for u by (simp add: digits_value_def)
  from this [of "s @ t"] this [of t] snoc show ?case by (simp add: algebra_simps)
qed (simp add: digits_value_def)

lemma show_nat_value [simp]: "digits_value (show_nat n) = n"
proof (induction n rule: show_nat.induct)
  case (1 n)
  show ?case
  proof (cases "n < 10")
    case False
    then have "show_nat n = show_nat (n div 10) @ [digit_char (n mod 10)]" by (subst show_nat.simps) simp
    with 1 False show ?thesis by (simp add: digits_value_append) (simp add: digits_value_def)
  qed (subst show_nat.simps, simp add: digits_value_def)
qed

lemma show_nat_digits [simp]: "c \<in> set (show_nat n) \<Longrightarrow> isdigit c"
  by (induction n rule: show_nat.induct) (subst (asm) (2) show_nat.simps, auto split: if_splits)

lemma show_nat_nonempty [simp]: "show_nat n \<noteq> []"
  by (subst show_nat.simps) simp

text \<open>The decimal places of a remainder, padded to the precision.\<close>

fun padded :: "nat \<Rightarrow> nat \<Rightarrow> string" where
  "padded 0 r = []"
| "padded (Suc k) r = padded k (r div 10) @ [digit_char (r mod 10)]"

lemma length_padded [simp]: "length (padded k r) = k"
  by (induction k arbitrary: r) simp_all

lemma padded_digits [simp]: "c \<in> set (padded k r) \<Longrightarrow> isdigit c"
  by (induction k arbitrary: r) auto

lemma padded_value: "r < 10 ^ k \<Longrightarrow> digits_value (padded k r) = r"
proof (induction k arbitrary: r)
  case (Suc k)
  then have "digits_value (padded k (r div 10)) = r div 10" by (intro Suc.IH) simp
  then show ?case by (simp add: digits_value_append) (simp add: digits_value_def)
qed (simp add: digits_value_def)

lemma char_of_1: "char_of (49::nat) = CHR ''1''"
  by code_simp

lemma show_nat_padded: "r < 10 ^ k \<Longrightarrow> show_nat (10 ^ k + r) = CHR ''1'' # padded k r"
proof (induction k arbitrary: r)
  case 0
  then show ?case by (simp add: show_nat.simps digit_char_def char_of_1)
next
  case (Suc k)
  have "1 \<le> (10::nat) ^ k" by simp
  then have "\<not> 10 ^ Suc k + r < 10" unfolding power_Suc by linarith
  then have "show_nat (10 ^ Suc k + r) = show_nat ((10 ^ Suc k + r) div 10) @ [digit_char ((10 ^ Suc k + r) mod 10)]"
    by (subst show_nat.simps) (simp del: power_Suc)
  moreover have "(10 ^ Suc k + r) div 10 = 10 ^ k + r div 10" "(10 ^ Suc k + r) mod 10 = r mod 10"
    by (simp_all add: mod_add_eq [symmetric])
  moreover have "r div 10 < 10 ^ k" using Suc.prems by simp
  ultimately show ?case using Suc.IH [of "r div 10"] by simp
qed

lemma takeWhile_digits [simp]: "(\<And>c. c \<in> set s \<Longrightarrow> isdigit c) \<Longrightarrow> takeWhile isdigit s = s"
  by (simp add: takeWhile_eq_all_conv)

lemma stoll_digits_string:
  assumes "s \<noteq> []" "\<And>c. c \<in> set s \<Longrightarrow> isdigit c" "int (digits_value s) \<le> 9223372036854775807"
  shows "stoll s = Inr (int (digits_value s))"
proof (cases s)
  case (Cons c cs)
  then have "isdigit c" using assms(2) by simp
  then have "c \<noteq> CHR ''-''" "c \<noteq> CHR ''+''" by (rule isdigit_neq)+
  then show ?thesis using Cons assms takeWhile_digits [of s] by (simp add: stoll_def stoll_digits_def in_int64_def Let_def)
qed (use assms in simp)

lemma scale_loop_p10: "n \<le> 18 \<Longrightarrow> scale_loop n = Inr (10 ^ n)"
proof (induction n)
  case (Suc n)
  have "(10::int) ^ n \<le> 10 ^ 17" using Suc.prems by (intro power_increasing) auto
  then have "(10::int) ^ n \<le> 100000000000000000" by simp
  moreover have "(0::int) \<le> 10 ^ n" by simp
  ultimately have "in_int64 (10 ^ n * 10)" unfolding in_int64_def by (intro conjI) linarith+
  then show ?case using Suc by (simp add: safe_mul_def safe_int64_def mult.commute)
qed simp

lemma scaled_precision_p10: "n \<le> 18 \<Longrightarrow> scaled_precision n = Inr (10 ^ n)"
  by (simp add: scaled_precision_def scaled_precision_lut_def p10_power del: upt_Suc)

section \<open>The text of an amount\<close>

lemma amount_text_nonneg:
  assumes "0 \<le> a" "prec \<le> 18"
  shows "amount_to_string prec a = Inr (show_nat (nat a div 10 ^ prec)
    @ (if a mod 10 ^ prec = 0 then [] else CHR ''.'' # padded prec (nat a mod 10 ^ prec)))"
proof -
  have "(0::int) < 10 ^ prec" by simp
  then have d: "a sdiv 10 ^ prec = a div 10 ^ prec" "a smod 10 ^ prec = a mod 10 ^ prec"
    using assms(1) by (cases "a = 0"; simp add: signed_divide_int_def signed_modulo_int_def)+
  have q: "to_string (a div 10 ^ prec) = show_nat (nat a div 10 ^ prec)"
    using assms(1) by (simp add: to_string_def pos_imp_zdiv_neg_iff nat_div_distrib nat_power_eq)
  have "nat (10 ^ prec + a mod 10 ^ prec) = 10 ^ prec + nat a mod 10 ^ prec"
    using assms(1) by (simp add: nat_add_distrib nat_mod_distrib nat_power_eq)
  moreover have "\<not> 10 ^ prec + a mod 10 ^ prec < 0" using \<open>(0::int) < 10 ^ prec\<close> by (smt (verit) pos_mod_sign)
  ultimately have r: "to_string (10 ^ prec + a mod 10 ^ prec) = CHR ''1'' # padded prec (nat a mod 10 ^ prec)"
    by (simp add: to_string_def show_nat_padded)
  show ?thesis by (simp add: amount_to_string_def scale_loop_p10 [OF assms(2)] d q r Let_def)
qed

lemma scan_digits: "(\<And>c. c \<in> set s \<Longrightarrow> isdigit c) \<Longrightarrow> scan_amount neg dec (s @ t) = scan_amount neg dec t"
  by (induction s) auto

lemma decimal_pos_digits:
  "(\<And>c. c \<in> set s \<Longrightarrow> isdigit c) \<Longrightarrow> decimal_pos (s @ CHR ''.'' # t) = length s"
  by (induction s) (auto simp: decimal_pos_def dest: isdigit_neq)

lemma length_to_string_scale: "length (to_string (10 ^ k)) = Suc k"
  using show_nat_padded [of 0 k] by (simp add: to_string_def nat_power_eq)

lemma amount_parts:
  assumes "0 \<le> a" "a \<le> GRAPHENE_MAX_SHARE_SUPPLY"
  shows "in_int64 (int (nat a div 10 ^ prec) * 10 ^ prec)"
    and "int (nat a div 10 ^ prec) * 10 ^ prec + int (nat a mod 10 ^ prec) = a"
    and "int (nat a div 10 ^ prec) \<le> 9223372036854775807"
    and "int (nat a mod 10 ^ prec) \<le> 9223372036854775807"
proof -
  show sum: "int (nat a div 10 ^ prec) * 10 ^ prec + int (nat a mod 10 ^ prec) = a"
  proof -
    have "int (nat a div 10 ^ prec * 10 ^ prec + nat a mod 10 ^ prec) = int (nat a)" by (subst div_mult_mod_eq) simp
    then show ?thesis using assms(1) by simp
  qed
  have nn: "0 \<le> int (nat a div 10 ^ prec) * 10 ^ prec" "0 \<le> int (nat a mod 10 ^ prec)" by simp_all
  have b: "a \<le> 1000000000000000" using assms(2) by (simp add: GRAPHENE_MAX_SHARE_SUPPLY_def)
  show "in_int64 (int (nat a div 10 ^ prec) * 10 ^ prec)"
    unfolding in_int64_def using sum nn b by linarith
  show "int (nat a mod 10 ^ prec) \<le> 9223372036854775807" using sum nn b by linarith
  have "nat a div 10 ^ prec \<le> nat a" by simp
  then show "int (nat a div 10 ^ prec) \<le> 9223372036854775807" using b assms(1) by linarith
qed

lemma digit_chars:
  "digit_char 0 = CHR ''0''" "digit_char 1 = CHR ''1''" "digit_char (Suc 0) = CHR ''1''" "digit_char 2 = CHR ''2''"
  "digit_char 3 = CHR ''3''" "digit_char 4 = CHR ''4''" "digit_char 5 = CHR ''5''" "digit_char 6 = CHR ''6''"
  "digit_char 7 = CHR ''7''" "digit_char 8 = CHR ''8''" "digit_char 9 = CHR ''9''"
  by code_simp+

lemmas amount_text_simps = amount_to_string_def scale_loop_p10 signed_divide_int_def signed_modulo_int_def
  to_string_def show_nat.simps digit_chars Let_def amount_from_string_def isdigit_def scaled_precision_p10
  stoll_def stoll_digits_def digits_value_def digit_val_def in_int64_def safe_mul_def safe_add_def safe_int64_def
  GRAPHENE_MAX_SHARE_SUPPLY_def

text \<open>C36: Reading back the text of an amount gives the amount: for every amount from zero to the maximal share
  supply and every precision up to eighteen, \<open>amount_from_string\<close> undoes \<open>amount_to_string\<close>.\<close>

theorem amount_text_round_trip:
  assumes "0 \<le> a" "a \<le> GRAPHENE_MAX_SHARE_SUPPLY" "prec \<le> 18"
  shows "bindE (amount_to_string prec a) (amount_from_string prec i) = Inr (mk_asset a i)"
proof -
  let ?q = "nat a div 10 ^ prec" and ?r = "nat a mod 10 ^ prec"
  note parts = amount_parts [OF assms(1,2), of prec]
  have q: "stoll (show_nat ?q) = Inr (int ?q)" using stoll_digits_string [of "show_nat ?q"] parts(3) by simp
  show ?thesis
  proof (cases "a mod 10 ^ prec = 0")
    case True
    then have r: "int ?r = 0" using assms(1) by (simp add: zmod_int)
    have "scan_amount False False (show_nat ?q) = Inr (False, False)" using scan_digits [of "show_nat ?q" _ _ "[]"] by simp
    then show ?thesis using True parts r q assms
      by (simp add: amount_text_nonneg amount_from_string_def scaled_precision_p10 Let_def safe_mul_def safe_add_def safe_int64_def)
  next
    case False
    have "scan_amount False False (show_nat ?q @ CHR ''.'' # padded prec ?r) = Inr (False, True)"
      using scan_digits [of "show_nat ?q"] scan_digits [of "padded prec ?r" _ _ "[]"] by simp
    moreover have "prec \<noteq> 0" using False by (cases prec) auto
    then have "padded prec ?r \<noteq> []" by (cases prec) auto
    moreover from this have "stoll (padded prec ?r) = Inr (int ?r)"
      using stoll_digits_string [of "padded prec ?r"] parts(4) by (simp add: padded_value)
    moreover have "in_int64 a" using assms by (simp add: in_int64_def GRAPHENE_MAX_SHARE_SUPPLY_def)
    ultimately show ?thesis using False parts q assms
      by (simp add: amount_text_nonneg amount_from_string_def scaled_precision_p10 Let_def decimal_pos_digits
          length_to_string_scale safe_mul_def safe_add_def safe_int64_def)
  qed
qed

theorem amount_text_round_trip_witness:
  "amount_to_string 5 1234567 = Inr ''12.34567'' \<and> amount_from_string 5 3 ''12.34567'' = Inr (mk_asset 1234567 3)"
proof -
  have "amount_to_string 5 1234567 = Inr ''12.34567''"
    by (simp add: amount_text_simps)
  then show ?thesis using amount_text_round_trip [of 1234567 5 3] by (simp add: GRAPHENE_MAX_SHARE_SUPPLY_def)
qed

text \<open>The text of a negative amount is wrong: at precision two, minus five hundredths prints as plus five
  tenths and minus one and a half prints as minus one, and a sign that is not in front makes the reader drop the
  first digit instead, so that \<open>12-3\<close> is read as minus two.\<close>

theorem negative_amount_text_wrong:
  "amount_to_string 2 (- 5) = Inr ''0.5'' \<and> amount_to_string 2 (- 150) = Inr ''-1.0''
   \<and> amount_from_string 2 0 ''12-3'' = Inr (mk_asset (- 200) 0)"
  by (simp add: amount_text_simps)

end
