(* ===== verification/Credit.thy ===== *)
theory Credit
  imports Balance AmountText
begin

text \<open>
  Credits: \<^verbatim>\<open>credit_object.cpp\<close> (the monthly processing of an accepted credit),
  \<^verbatim>\<open>credit_evaluator.cpp\<close> (the operations on credit requests), the karma update of
  \<^verbatim>\<open>account_object.cpp\<close>, \<^verbatim>\<open>get_exchange_rate_by_symbol\<close> and \<^verbatim>\<open>process_credit_stories\<close>.
  Code that is not part of the repository is a field of \<open>credit_env\<close>: \<^verbatim>\<open>pow\<close> of the C library, the
  uuid made of an id and a time, and the Boost calendar, which gives the number of days from the
  approval to the next pay day. Amounts that the code computes in doubles stay doubles here.
\<close>

record credit_env =
  libm_pow :: "double \<Rightarrow> double \<Rightarrow> double"
  gen_uuid :: "nat \<Rightarrow> time_point_sec \<Rightarrow> string exn"
  pay_date_days :: "time_point_sec \<Rightarrow> nat \<Rightarrow> int"

section \<open>Helpers\<close>

definition DEPOSIT_PERSENT :: int where "DEPOSIT_PERSENT = 300"

definition HARDFORK_CORE_KARMA_2_TIME :: time_point_sec where
  "HARDFORK_CORE_KARMA_2_TIME = 1524128400"

definition KARMA_MIN_VALUE :: double where "KARMA_MIN_VALUE = Fin 0"
definition KARMA_MAX_VALUE :: double where "KARMA_MAX_VALUE = Fin 5"

definition d_to_float :: "double \<Rightarrow> double" where
  "d_to_float d = (case d of Fin x \<Rightarrow> fl_round binary32 x | _ \<Rightarrow> d)"

definition karma_const :: "rat \<Rightarrow> double" where
  "karma_const x = d_to_float (fl_round binary64 x)"

definition KARMA_BONUS_FOR_MONTHLY_PAYMENT :: double where
  "KARMA_BONUS_FOR_MONTHLY_PAYMENT = karma_const (5 / 100)"
definition KARMA_BONUS_FOR_CREDIT_PAYMENT :: double where
  "KARMA_BONUS_FOR_CREDIT_PAYMENT = karma_const (2 / 10)"
definition KARMA_PENALTY_FOR_MONTHLY_DELAY :: double where
  "KARMA_PENALTY_FOR_MONTHLY_DELAY = karma_const (- 1 / 10)"
definition KARMA_PENALTY_FOR_CREDIT_DEFAULT :: double where
  "KARMA_PENALTY_FOR_CREDIT_DEFAULT = karma_const (- 5 / 10)"

definition update_karma :: "double \<Rightarrow> account_object \<Rightarrow> account_object" where
  "update_karma amt a =
    (let k = f_add binary32 (karma a) amt;
         k = (if d_lt k KARMA_MIN_VALUE then KARMA_MIN_VALUE else k);
         k = (if d_lt KARMA_MAX_VALUE k then KARMA_MAX_VALUE else k)
     in a\<lparr>karma := k\<rparr>)"

definition add_history_entry ::
  "time_point_sec \<Rightarrow> double \<Rightarrow> string \<Rightarrow> account_history_of_karma_object \<Rightarrow> account_history_of_karma_object" where
  "add_history_entry date amt info h =
     h\<lparr>karma_history := karma_history h @ [\<lparr>kh_date = date, kh_amount = amt, kh_info = info\<rparr>]\<rparr>"

definition update_account_karma :: "account_id_type \<Rightarrow> double \<Rightarrow> string \<Rightarrow> database \<Rightarrow> database exn" where
  "update_account_karma a amt info db =
    bindE (get_account db a) (\<lambda>acc.
    let t = karma_histories db in
    Inr (db\<lparr>accounts := idx_put (accounts db) a (update_karma amt acc),
            karma_histories := t\<lparr>objs := map (\<lambda>p. if kh_account (snd p) = a
              then (fst p, add_history_entry (head_block_time db) amt info (snd p)) else p) (objs t)\<rparr>\<rparr>))"

definition get_exchange_rate_by_symbol :: "database \<Rightarrow> string \<Rightarrow> double exn" where
  "get_exchange_rate_by_symbol db smb =
    bindE (ofOption (not_found ''exchange_rate_object'')
            (case objs (exchange_rates db) of [] \<Rightarrow> None | p # _ \<Rightarrow> Some (snd p))) (\<lambda>e.
    ofOption (assert_exception ''Exchange rate has not been set'') (map_of (last_exchange_rate e) smb))"

definition pow10 :: "credit_env \<Rightarrow> nat \<Rightarrow> double" where
  "pow10 env prec = libm_pow env (Fin 10) (Fin (of_nat prec))"

definition to_shares :: "credit_env \<Rightarrow> double \<Rightarrow> nat \<Rightarrow> share_type" where
  "to_shares env x prec = d_to_int64 (d_mul x (pow10 env prec))"

definition u32_sub :: "nat \<Rightarrow> nat \<Rightarrow> nat" where
  "u32_sub a b = nat ((int a - int b) mod 2 ^ 32)"

definition set_deposit :: "asset \<Rightarrow> credit_object \<Rightarrow> credit_object" where
  "set_deposit x c = c\<lparr>borrower_i := (borrower_i c)\<lparr>deposit_asset := x\<rparr>\<rparr>"

definition push_history :: "credit_event \<Rightarrow> credit_object \<Rightarrow> credit_object" where
  "push_history e c = c\<lparr>history := history c @ [e]\<rparr>"

abbreviation loan_of :: "credit_object \<Rightarrow> asset" where "loan_of c \<equiv> loan_asset (borrower_i c)"
abbreviation deposit_of :: "credit_object \<Rightarrow> asset" where "deposit_of c \<equiv> deposit_asset (borrower_i c)"
abbreviation borrower_of :: "credit_object \<Rightarrow> account_id_type" where "borrower_of c \<equiv> borrower (borrower_i c)"
abbreviation creditor_of :: "credit_object \<Rightarrow> account_id_type" where "creditor_of c \<equiv> creditor (creditor_i c)"

section \<open>Processing a credit\<close>

definition calculate_monthly_payment :: "credit_env \<Rightarrow> double \<Rightarrow> double \<Rightarrow> nat \<Rightarrow> double" where
  "calculate_monthly_payment env loan_sum annual_loan_rate months =
    (let p = d_div (d_div annual_loan_rate (Fin 12)) (Fin 100);
         n = d_of_int (int months);
         t = d_sub (libm_pow env (d_add (Fin 1) p) n) (Fin 1)
     in d_mul loan_sum (d_add p (d_div p t)))"

definition complete_credit_operation :: "credit_object \<Rightarrow> database \<Rightarrow> (credit_object \<times> database) exn" where
  "complete_credit_operation c db =
    bindE (get_asset db (asset_id (deposit_of c))) (\<lambda>_.
    bindE (adjust_balance (borrower_of c) (deposit_of c) db) (\<lambda>db.
    bindE (update_account_karma (borrower_of c) KARMA_BONUS_FOR_CREDIT_PAYMENT ''Credit complete normal.'' db) (\<lambda>db.
    let c' = push_history (credit_complete_normal (head_block_time db) (deposit_of c)) c in
    Inr ((set_deposit (mk_asset 0 (asset_id (deposit_of c))) c')\<lparr>status := complete_normal\<rparr>, db))))"

definition complete_credit_operation_ubnormal ::
  "credit_env \<Rightarrow> credit_object \<Rightarrow> database \<Rightarrow> (credit_object \<times> database) exn" where
  "complete_credit_operation_ubnormal env c db =
    bindE (get_asset db (asset_id (deposit_of c))) (\<lambda>_.
    bindE (get_asset db (asset_id (loan_of c))) (\<lambda>loan.
    bindE (amount_to_real (decimals loan) (amount (get_balance db (borrower_of c) (asset_id (loan_of c))))) (\<lambda>left_r.
    let to_creditor = mk_asset (to_shares env left_r (decimals loan)) (asset_id (loan_of c)) in
    bindE (asset_neg to_creditor) (\<lambda>neg.
    bindE (adjust_balance (borrower_of c) neg db) (\<lambda>db.
    bindE (adjust_balance (creditor_of c) to_creditor db) (\<lambda>db.
    bindE (update_account_karma (borrower_of c) KARMA_PENALTY_FOR_CREDIT_DEFAULT ''Credit complete ubnormal.'' db) (\<lambda>db.
    Inr ((push_history (credit_complete_ubnormal (head_block_time db) to_creditor (deposit_of c)) c)
           \<lparr>status := complete_ubnormal\<rparr>, db))))))))"

definition settle_monthly_payment ::
  "credit_env \<Rightarrow> credit_object \<Rightarrow> database \<Rightarrow> (credit_object \<times> database) exn" where
  "settle_monthly_payment env c db =
    bindE (get_asset db (asset_id (loan_of c))) (\<lambda>loan.
    bindE (get_asset db (asset_id (deposit_of c))) (\<lambda>_.
    let tmp = mk_asset (to_shares env (monthly_payment (creditor_i c)) (decimals loan)) (asset_id (loan_of c)) in
    bindE (asset_neg tmp) (\<lambda>neg.
    bindE (adjust_balance (borrower_of c) neg db) (\<lambda>db.
    bindE (adjust_balance (creditor_of c) tmp db) (\<lambda>db.
    bindE (update_account_karma (borrower_of c) KARMA_BONUS_FOR_MONTHLY_PAYMENT
             ''Settle monthly payment complete normal.'' db) (\<lambda>db.
    Inr (push_history (settled_normal (head_block_time db) tmp (settle_month_elapsed c + 1) (deposit_of c))
           (c\<lparr>expired_time_start := 0\<rparr>), db)))))))"

definition settle_from_deposit ::
  "credit_env \<Rightarrow> credit_object \<Rightarrow> database \<Rightarrow> (credit_object \<times> database) exn" where
  "settle_from_deposit env c db =
    bindE (get_asset db (asset_id (deposit_of c))) (\<lambda>deposit.
    bindE (get_asset db (asset_id (loan_of c))) (\<lambda>loan.
    bindE (amount_to_real (decimals deposit) (amount (deposit_of c))) (\<lambda>deposit_left.
    if d_eq deposit_left (Fin 0) then complete_credit_operation_ubnormal env c db
    else
    bindE (get_exchange_rate_by_symbol db (symbol deposit)) (\<lambda>deposit_rate.
    bindE (get_exchange_rate_by_symbol db (symbol loan)) (\<lambda>loan_rate.
    bindE (amount_to_real (decimals loan) (amount (get_balance db (borrower_of c) (asset_id (loan_of c))))) (\<lambda>loan_left.
    let pay = monthly_payment (creditor_i c);
        debt_in_deposit = d_div (d_mul (d_sub pay loan_left) loan_rate) deposit_rate;
        deposit_to_core = d_mul debt_in_deposit deposit_rate;
        loan_to_core = d_mul pay loan_rate;
        loan_asset_from_borrower = mk_asset (to_shares env loan_left (decimals loan)) (asset_id (loan_of c));
        fail = d_lt deposit_left debt_in_deposit;
        loan_from_all_deposit = d_div (d_mul deposit_left deposit_rate) loan_rate;
        loan_asset_to_creditor = mk_asset
          (if fail then to_shares env (d_add loan_from_all_deposit loan_left) (decimals loan)
           else to_shares env pay (decimals loan)) (asset_id (loan_of c));
        deposit_asset_from_deposit = mk_asset
          (if fail then to_shares env deposit_left (decimals deposit)
           else to_shares env debt_in_deposit (decimals deposit)) (asset_id (deposit_of c))
    in
    bindE (asset_neg loan_asset_from_borrower) (\<lambda>neg.
    bindE (adjust_balance (borrower_of c) neg db) (\<lambda>db.
    bindE (adjust_balance (creditor_of c) loan_asset_to_creditor db) (\<lambda>db.
    bindE (asset_sub (deposit_of c) deposit_asset_from_deposit) (\<lambda>left_asset.
    bindE (if asset_id loan_asset_from_borrower \<noteq> asset_id loan_asset_to_creditor
           then bindE (ofOption (not_found ''karma'') (idx_find_by (\<lambda>a. acc_name a = ''karma'') (accounts db))) (\<lambda>k.
                bindE (adjust_balance (fst k) deposit_asset_from_deposit db) (\<lambda>db.
                bindE (amount_to_real (decimals deposit) (amount deposit_asset_from_deposit)) (\<lambda>r.
                modify_dynamic (asset_id (loan_of c)) (\<lambda>d.
                  bindE (safe_add (current_supply d)
                    (to_shares env (d_div (d_mul r deposit_rate) loan_rate) (decimals loan))) (\<lambda>s.
                  Inr (d\<lparr>current_supply := s\<rparr>))) db)))
           else Inr db) (\<lambda>db.
    let c' = push_history (settled_ubnormal (head_block_time db) loan_asset_from_borrower deposit_asset_from_deposit
               loan_asset_to_creditor deposit_to_core loan_to_core (settle_month_elapsed c + 1) left_asset)
               (set_deposit left_asset c)
    in
    if fail then complete_credit_operation_ubnormal env c' db
    else Inr (c'\<lparr>expired_time_start := 0\<rparr>, db))))))))))))"

definition check_expired_pay_time ::
  "credit_env \<Rightarrow> credit_object \<Rightarrow> database \<Rightarrow> (credit_object \<times> database) exn" where
  "check_expired_pay_time env c db =
    (let opts = get_credit_options (parameters (global_properties db));
         max_days = max_credit_expiration_days opts
     in
     if expired_time_start c = 0 \<and> max_days \<noteq> 0
     then
       bindE (get_asset db (asset_id (loan_of c))) (\<lambda>loan.
       let tmp = mk_asset (to_shares env (monthly_payment (creditor_i c)) (decimals loan)) (asset_id (loan_of c)) in
       bindE (update_account_karma (borrower_of c) KARMA_PENALTY_FOR_MONTHLY_DELAY
                ''Settle monthly payment complete ubnormal: insufficient balance.'' db) (\<lambda>db.
       Inr (push_history (settled_insufficient_balance (head_block_time db) tmp)
              (c\<lparr>expired_time_start := head_block_time db\<rparr>), db)))
     else if (max_days * seconds_per_day opts) mod 2 ^ 32 \<le> u32_sub (head_block_time db) (expired_time_start c)
     then (if collateral_free (borrower_i c) then complete_credit_operation_ubnormal env c db
           else settle_from_deposit env c db)
     else Inr (c, db))"

definition on_next_month :: "credit_env \<Rightarrow> credit_object \<Rightarrow> database \<Rightarrow> (credit_object \<times> database) exn" where
  "on_next_month env c db =
    bindE (get_account db (borrower_of c)) (\<lambda>_.
    bindE (get_asset db (asset_id (loan_of c))) (\<lambda>loan.
    let pay = mk_asset (to_shares env (monthly_payment (creditor_i c)) (decimals loan)) (asset_id (loan_of c)) in
    bindE (asset_ge (get_balance db (borrower_of c) (asset_id (loan_of c))) pay) (\<lambda>sufficient_balance.
    bindE (if sufficient_balance then settle_monthly_payment env c db else check_expired_pay_time env c db) (\<lambda>(c, db).
    if status c = complete_ubnormal then Inr (c, db)
    else if expired_time_start c = 0
    then Inr (c\<lparr>settle_month_elapsed := (settle_month_elapsed c + 1) mod 2 ^ 32\<rparr>, db)
    else Inr (c, db)))))"

definition check_deposit_quotes ::
  "credit_env \<Rightarrow> credit_object \<Rightarrow> database \<Rightarrow> (bool \<times> credit_object \<times> database) exn" where
  "check_deposit_quotes env c db =
    bindE (get_asset db (asset_id (deposit_of c))) (\<lambda>deposit.
    bindE (get_asset db (asset_id (loan_of c))) (\<lambda>loan.
    bindE (get_exchange_rate_by_symbol db (symbol deposit)) (\<lambda>deposit_rate.
    bindE (get_exchange_rate_by_symbol db (symbol loan)) (\<lambda>loan_rate.
    bindE (amount_to_real (decimals deposit) (amount (deposit_of c))) (\<lambda>deposit_r.
    bindE (amount_to_real (decimals loan) (amount (loan_of c))) (\<lambda>loan_r.
    let deposit_in_core = d_mul deposit_r deposit_rate;
        loan_in_core = d_mul loan_r loan_rate;
        limit = d_mul (d_div loan_in_core (Fin 100)) (d_of_int (DEPOSIT_PERSENT div 2))
    in
    if d_lt limit deposit_in_core then Inr (True, c, db)
    else
    bindE (amount_to_real (decimals loan) (amount (get_balance db (borrower_of c) (asset_id (loan_of c))))) (\<lambda>loan_left.
    let loan_for_return = d_mul (monthly_payment (creditor_i c))
          (d_of_int (int (u32_sub (loan_period (borrower_i c)) (settle_month_elapsed c))));
        short = d_lt loan_left loan_for_return;
        debt_in_deposit = d_div (d_mul (d_sub loan_for_return loan_left) loan_rate) deposit_rate;
        all_gone = (short \<and> d_lt deposit_r debt_in_deposit);
        loan_asset_from_borrower = mk_asset
          (to_shares env (if short then loan_left else loan_for_return) (decimals loan)) (asset_id (loan_of c));
        loan_asset_to_creditor = mk_asset
          (if all_gone
           then to_shares env (d_add (d_div (d_mul deposit_r deposit_rate) loan_rate) loan_left) (decimals loan)
           else to_shares env loan_for_return (decimals loan)) (asset_id (loan_of c));
        deposit_asset_from_deposit = mk_asset
          (if all_gone then to_shares env deposit_r (decimals deposit)
           else if short then to_shares env debt_in_deposit (decimals deposit) else 0) (asset_id (deposit_of c))
    in
    bindE (asset_neg loan_asset_from_borrower) (\<lambda>neg.
    bindE (adjust_balance (borrower_of c) neg db) (\<lambda>db.
    bindE (adjust_balance (creditor_of c) loan_asset_to_creditor db) (\<lambda>db.
    bindE (asset_sub (deposit_of c) deposit_asset_from_deposit) (\<lambda>left_asset.
    bindE (if asset_id loan_asset_from_borrower \<noteq> asset_id loan_asset_to_creditor
           then bindE (ofOption (not_found ''karma'') (idx_find_by (\<lambda>a. acc_name a = ''karma'') (accounts db))) (\<lambda>k.
                bindE (adjust_balance (fst k) deposit_asset_from_deposit db) (\<lambda>db.
                bindE (amount_to_real (decimals deposit) (amount deposit_asset_from_deposit)) (\<lambda>r.
                modify_dynamic (asset_id (loan_of c)) (\<lambda>d.
                  bindE (safe_add (current_supply d)
                    (to_shares env (d_div (d_mul r deposit_rate) loan_rate) (decimals loan))) (\<lambda>s.
                  Inr (d\<lparr>current_supply := s\<rparr>))) db)))
           else Inr db) (\<lambda>db.
    bindE (adjust_balance (borrower_of c) left_asset db) (\<lambda>db.
    let c' = push_history (stop_loss_order (head_block_time db) deposit_in_core loan_in_core
               loan_asset_from_borrower deposit_asset_from_deposit loan_asset_to_creditor left_asset) c
    in Inr (False, (set_deposit (mk_asset 0 (asset_id (deposit_of c))) c')\<lparr>status := complete_ubnormal\<rparr>, db))))))))))))))"

definition pay_day_reached :: "credit_env \<Rightarrow> credit_object \<Rightarrow> database \<Rightarrow> bool" where
  "pay_day_reached env c db =
    (let next_pay_total_secs = (pay_date_days env (request_approvation_time c) (settle_month_elapsed c)
           * int (seconds_per_day (get_credit_options (parameters (global_properties db))))) mod 2 ^ 32
     in next_pay_total_secs \<le> int (head_block_time db) - int (request_approvation_time c)
        \<or> expired_time_start c \<noteq> 0)"

definition credit_process :: "credit_env \<Rightarrow> credit_object \<Rightarrow> database \<Rightarrow> (credit_object \<times> database) exn" where
  "credit_process env c db =
    (if status c \<noteq> in_progress then Inr (c, db)
     else
       bindE (if collateral_free (borrower_i c) then Inr (True, c, db) else check_deposit_quotes env c db) (\<lambda>(go_on, c, db).
       if \<not> go_on then Inr (c, db)
       else if pay_day_reached env c db
       then bindE (on_next_month env c db) (\<lambda>(c, db).
            if loan_period (borrower_i c) \<le> settle_month_elapsed c then complete_credit_operation c db
            else Inr (c, db))
       else Inr (c, db)))"

definition process_one_credit :: "credit_env \<Rightarrow> nat \<Rightarrow> database \<Rightarrow> database exn" where
  "process_one_credit env i db =
    bindE (idx_get ''credit'' (credits db) i) (\<lambda>c.
    bindE (credit_process env c db) (\<lambda>(c', db').
    Inr (db'\<lparr>credits := idx_put (credits db') i c'\<rparr>)))"

definition process_credit_stories :: "credit_env \<Rightarrow> database \<Rightarrow> database exn" where
  "process_credit_stories env db =
     foldE (process_one_credit env) (map fst (sort_key (\<lambda>p. request_creation_time (snd p)) (objs (credits db)))) db"

section \<open>The operations on credit requests\<close>

record credit_request_operation =
  cr_borrower :: account_id_type
  cr_loan_asset :: asset
  cr_loan_period :: nat
  cr_loan_persent :: nat
  cr_loan_memo :: string
  cr_deposit_asset :: asset

record credit_approve_operation =
  ca_creditor :: account_id_type
  ca_credit_memo :: string
  ca_uuid :: string

record credit_request_cancel_operation =
  cc_borrower :: account_id_type
  cc_uuid :: string

record comment_credit_request_operation =
  cm_creditor :: account_id_type
  cm_credit_memo :: string
  cm_uuid :: string

record settle_credit_operation =
  sc_borrower :: account_id_type
  sc_uuid :: string

definition credit_request_evaluate :: "credit_request_operation \<Rightarrow> database \<Rightarrow> unit exn" where
  "credit_request_evaluate op db =
    bindE (get_account db (cr_borrower op)) (\<lambda>_.
    bindE (get_asset db (asset_id (cr_deposit_asset op))) (\<lambda>deposit.
    bindE (get_asset db (asset_id (cr_loan_asset op))) (\<lambda>loan.
    bindE (amount_to_real (decimals deposit) (amount (cr_deposit_asset op))) (\<lambda>deposit_r.
    bindE (fc_assert (\<not> d_lt deposit_r (Fin 0)) ''deposit cant be < 0'') (\<lambda>_.
    bindE (amount_to_real (decimals loan) (amount (cr_loan_asset op))) (\<lambda>loan_r.
    bindE (fc_assert (\<not> d_lt loan_r (Fin 0)) ''loan cant be < 0'') (\<lambda>_.
    bindE (if \<not> d_eq deposit_r (Fin 0)
           then bindE (get_exchange_rate_by_symbol db (symbol deposit)) (\<lambda>r. Inr (d_mul deposit_r r))
           else Inr (Fin 0)) (\<lambda>deposit_in_core.
    bindE (get_exchange_rate_by_symbol db (symbol loan)) (\<lambda>loan_rate.
    let loan_in_core = d_mul loan_r loan_rate in
    bindE (fc_assert (cr_loan_period op \<noteq> 0) ''Loan period cant be 0'') (\<lambda>_.
    bindE (fc_assert (cr_loan_persent op \<noteq> 0) ''Loan persent cant be 0'') (\<lambda>_.
    if \<not> d_eq deposit_r (Fin 0)
    then
      bindE (fc_assert (\<not> d_lt deposit_in_core (d_mul (d_div loan_in_core (Fin 100)) (d_of_int DEPOSIT_PERSENT)))
               ''Deposit less % of credit'') (\<lambda>_.
      fc_assert (amount (cr_deposit_asset op) \<le> amount (get_balance db (cr_borrower op) (asset_id (cr_deposit_asset op))))
        ''Insufficient Balance'')
    else if HARDFORK_CORE_KARMA_2_TIME \<le> head_block_time db
    then fc_assert (idx_find_by (\<lambda>a. acc_name a
             = special_account_name (get_bonus_options (parameters (global_properties db)))) (accounts db) \<noteq> None)
           ''No special account found''
    else Inr ())))))))))))"

definition new_credit :: "credit_request_operation \<Rightarrow> bool \<Rightarrow> string \<Rightarrow> time_point_sec \<Rightarrow> string \<Rightarrow> credit_object" where
  "new_credit op free uuid now name =
    \<lparr>object_uuid = uuid, status = wating_for_acceptance,
     borrower_i = \<lparr>borrower = cr_borrower op, loan_memo = cr_loan_memo op, loan_asset = cr_loan_asset op,
       loan_persent = d_of_int (int (cr_loan_persent op)), loan_period = cr_loan_period op,
       deposit_asset = cr_deposit_asset op, collateral_free = free\<rparr>,
     request_creation_time = now,
     creditor_i = \<lparr>creditor = 0, credit_memo = [], credit_asset = mk_asset 0 0, monthly_payment = Fin 0\<rparr>,
     request_approvation_time = 0, settle_month_elapsed = 0, expired_time_start = 0, comments = [],
     history = [request_creation now uuid name]\<rparr>"

definition credit_request_apply :: "credit_env \<Rightarrow> credit_request_operation \<Rightarrow> database \<Rightarrow> (nat \<times> database) exn" where
  "credit_request_apply env op db =
    bindE (get_asset db (asset_id (cr_deposit_asset op))) (\<lambda>deposit.
    bindE (amount_to_real (decimals deposit) (amount (cr_deposit_asset op))) (\<lambda>deposit_r.
    bindE (gen_uuid env (next_id (credits db)) (head_block_time db)) (\<lambda>uuid.
    bindE (get_account db (cr_borrower op)) (\<lambda>acc.
    let db' = db\<lparr>credits := idx_create (credits db)
                (new_credit op (d_eq deposit_r (Fin 0)) uuid (head_block_time db) (acc_name acc))\<rparr>
    in
    bindE (asset_neg (cr_deposit_asset op)) (\<lambda>neg.
    bindE (adjust_balance (cr_borrower op) neg db') (\<lambda>db2.
    Inr (next_id (credits db), db2)))))))"

definition find_credit :: "string \<Rightarrow> database \<Rightarrow> (nat \<times> credit_object) exn" where
  "find_credit uuid db =
     ofOption (assert_exception ''credit request not found!'') (idx_find_by (\<lambda>c. object_uuid c = uuid) (credits db))"

definition bonus_share :: "share_type \<Rightarrow> double \<Rightarrow> share_type" where
  "bonus_share amt percent = d_to_int64 (d_div (d_mul (d_of_int amt) percent) (Fin 100))"

definition pay_credit_bonus :: "credit_object \<Rightarrow> database \<Rightarrow> database exn" where
  "pay_credit_bonus c db =
    (let bo = get_bonus_options (parameters (global_properties db)); loan = loan_of c in
     bindE (ofOption (not_found ''special account'')
              (idx_find_by (\<lambda>a. acc_name a = special_account_name bo) (accounts db))) (\<lambda>special.
     bindE (get_account db (creditor_of c)) (\<lambda>cacc.
     bindE (get_account db (borrower_of c)) (\<lambda>borr.
     let now = head_block_time db;
         creditor_percent = (if now < credit_referrer_expiration_date cacc then creditor_referrer_bonus bo else Fin 0);
         borrower_percent = (if now < credit_referrer_expiration_date borr then borrower_referrer_bonus bo else Fin 0);
         special_percent = d_sub (d_sub (karma_account_bonus bo) borrower_percent) creditor_percent;
         for_creditor = mk_asset (bonus_share (amount loan) creditor_percent) (asset_id loan);
         for_borrower = mk_asset (bonus_share (amount loan) borrower_percent) (asset_id loan);
         to_special = mk_asset (bonus_share (amount loan) special_percent) (asset_id loan)
     in
     bindE (adjust_balance (credit_referrer cacc) for_creditor db) (\<lambda>db.
     bindE (adjust_balance (credit_referrer borr) for_borrower db) (\<lambda>db.
     bindE (adjust_balance (fst special) to_special db) (\<lambda>db.
     bindE (asset_sub loan for_creditor) (\<lambda>x.
     bindE (asset_sub x for_borrower) (\<lambda>y.
     bindE (asset_sub y to_special) (\<lambda>z.
     adjust_balance (borrower_of c) z db))))))))))"

definition credit_approve_apply :: "credit_env \<Rightarrow> credit_approve_operation \<Rightarrow> database \<Rightarrow> (nat \<times> database) exn" where
  "credit_approve_apply env op db =
    bindE (find_credit (ca_uuid op) db) (\<lambda>(i, c).
    bindE (fc_assert (status c = wating_for_acceptance) ''credit request allready accepted!'') (\<lambda>_.
    bindE (get_account db (ca_creditor op)) (\<lambda>cacc.
    bindE (get_asset db (asset_id (loan_of c))) (\<lambda>loan.
    bindE (fc_assert (amount (loan_of c) \<le> amount (get_balance db (ca_creditor op) (asset_id (loan_of c))))
             ''Insufficient Balance'') (\<lambda>_.
    bindE (amount_to_real (decimals loan) (amount (loan_of c))) (\<lambda>loan_r.
    let pay = calculate_monthly_payment env loan_r (loan_persent (borrower_i c)) (loan_period (borrower_i c));
        now = head_block_time db;
        c' = push_history (request_approved now (object_uuid c) (acc_name cacc) (amount (loan_of c))
               (loan_period (borrower_i c)) pay)
             (c\<lparr>creditor_i := (creditor_i c)\<lparr>creditor := ca_creditor op, credit_memo := ca_credit_memo op,
                  monthly_payment := pay\<rparr>,
                request_approvation_time := now, settle_month_elapsed := 0, status := in_progress\<rparr>);
        db' = db\<lparr>credits := idx_put (credits db) i c'\<rparr>
    in
    bindE (asset_neg (loan_of c)) (\<lambda>neg.
    bindE (adjust_balance (ca_creditor op) neg db') (\<lambda>db2.
    bindE (if HARDFORK_CORE_KARMA_2_TIME \<le> head_block_time db2 then pay_credit_bonus c' db2
           else adjust_balance (borrower_of c) (loan_of c) db2) (\<lambda>db3.
    Inr (i, db3))))))))))"

definition credit_request_cancel_apply :: "credit_request_cancel_operation \<Rightarrow> database \<Rightarrow> database exn" where
  "credit_request_cancel_apply op db =
    bindE (find_credit (cc_uuid op) db) (\<lambda>(i, c).
    bindE (fc_assert (cc_borrower op = borrower_of c) ''Only owner can cancel the credit request!'') (\<lambda>_.
    bindE (fc_assert (status c = wating_for_acceptance) ''credit request allready accepted!'') (\<lambda>_.
    bindE (adjust_balance (borrower_of c) (deposit_of c) db) (\<lambda>db'.
    Inr (db'\<lparr>credits := idx_remove (credits db') i\<rparr>)))))"

definition comment_credit_request_apply :: "comment_credit_request_operation \<Rightarrow> database \<Rightarrow> database exn" where
  "comment_credit_request_apply op db =
    bindE (find_credit (cm_uuid op) db) (\<lambda>(i, c).
    bindE (fc_assert (status c = wating_for_acceptance) ''credit request allready accepted!'') (\<lambda>_.
    Inr (db\<lparr>credits := idx_put (credits db) i
           (c\<lparr>comments := (cm_credit_memo op, cm_creditor op)
                # filter (\<lambda>p. fst p \<noteq> cm_credit_memo op) (comments c)\<rparr>)\<rparr>)))"

definition settle_sum :: "credit_object \<Rightarrow> double \<Rightarrow> double" where
  "settle_sum c loan_r =
    (if settle_month_elapsed c = 0 then d_add (d_div (loan_persent (borrower_i c)) (Fin 12)) loan_r
     else d_mul (monthly_payment (creditor_i c))
            (d_of_int (int (u32_sub (loan_period (borrower_i c)) (settle_month_elapsed c)))))"

definition settle_credit_apply :: "credit_env \<Rightarrow> settle_credit_operation \<Rightarrow> database \<Rightarrow> database exn" where
  "settle_credit_apply env op db =
    bindE (find_credit (sc_uuid op) db) (\<lambda>(i, c).
    bindE (get_asset db (asset_id (loan_of c))) (\<lambda>loan.
    bindE (get_account db (sc_borrower op)) (\<lambda>_.
    bindE (fc_assert (status c = in_progress) ''credit request dont accepted!'') (\<lambda>_.
    bindE (fc_assert (sc_borrower op = borrower_of c) ''Only owner can settle the credit operation!'') (\<lambda>_.
    bindE (amount_to_real (decimals loan) (amount (loan_of c))) (\<lambda>loan_r.
    let settle = mk_asset (to_shares env (settle_sum c loan_r) (decimals loan)) (asset_id (loan_of c)) in
    bindE (fc_assert (amount settle \<le> amount (get_balance db (sc_borrower op) (asset_id (loan_of c))))
             ''Insufficient Balance'') (\<lambda>_.
    bindE (asset_neg settle) (\<lambda>neg.
    bindE (adjust_balance (borrower_of c) neg db) (\<lambda>db.
    bindE (adjust_balance (creditor_of c) settle db) (\<lambda>db.
    bindE (get_asset db (asset_id (deposit_of c))) (\<lambda>_.
    bindE (adjust_balance (borrower_of c) (deposit_of c) db) (\<lambda>db.
    bindE (update_account_karma (borrower_of c) KARMA_BONUS_FOR_CREDIT_PAYMENT ''Credit complete forced.'' db) (\<lambda>db.
    let c' = push_history (credit_complete_forced (head_block_time db) (deposit_of c)) c in
    Inr (db\<lparr>credits := idx_put (credits db) i
      ((set_deposit (mk_asset 0 (asset_id (deposit_of c))) c')\<lparr>status := complete_normal\<rparr>)\<rparr>))))))))))))))"

section \<open>Conservation in the processing of a credit\<close>

text \<open>
  While a credit is processed its object is held apart from the database. The total of an asset
  is then what the database holds beyond its supply, plus the deposit of the credit in hand.
\<close>

definition credit_total :: "asset_id_type \<Rightarrow> credit_object \<times> database \<Rightarrow> int" where
  "credit_total i s = books i (snd s) + asset_part i (deposit_of (fst s))"

definition conserves :: "credit_object \<times> database \<Rightarrow> credit_object \<times> database \<Rightarrow> bool" where
  "conserves s s' \<longleftrightarrow> db_ok (snd s') \<and> credits (snd s') = credits (snd s)
    \<and> (\<forall>i. credit_total i s' = credit_total i s)"

lemma conserves_refl: "db_ok (snd s) \<Longrightarrow> conserves s s"
  by (simp add: conserves_def)

lemma conserves_trans: "conserves s t \<Longrightarrow> conserves t u \<Longrightarrow> conserves s u"
  by (simp add: conserves_def)

lemma deposit_simps [simp]:
  "deposit_of (push_history e c) = deposit_of c" "deposit_of (set_deposit x c) = x"
  "deposit_of (c\<lparr>status := s\<rparr>) = deposit_of c" "deposit_of (c\<lparr>expired_time_start := n\<rparr>) = deposit_of c"
  "deposit_of (c\<lparr>settle_month_elapsed := n\<rparr>) = deposit_of c"
  by (simp_all add: push_history_def set_deposit_def)

lemma idx_ok_objs_map: "idx_ok t \<Longrightarrow> idx_ok (t\<lparr>objs := map (\<lambda>p. if P p then (fst p, g p) else p) (objs t)\<rparr>)"
proof -
  have "map fst (map (\<lambda>p. if P p then (fst p, g p) else p) xs) = map fst xs" for xs by simp
  then show "idx_ok t \<Longrightarrow> ?thesis" by (auto simp: idx_ok_def simp del: map_map)
qed

lemma karma_effect:
  assumes "update_account_karma a x info db = Inr db'" "db_ok db"
  shows "db_ok db'" "books i db' = books i db" "credits db' = credits db" "balances db' = balances db"
proof -
  from assms(1) obtain acc where db': "db' = db\<lparr>accounts := idx_put (accounts db) a (update_karma x acc),
      karma_histories := (karma_histories db)\<lparr>objs := map (\<lambda>p. if kh_account (snd p) = a
        then (fst p, add_history_entry (head_block_time db) x info (snd p)) else p) (objs (karma_histories db))\<rparr>\<rparr>"
    by (auto simp: update_account_karma_def Let_def)
  have "idx_ok (karma_histories db)" "idx_ok (accounts db)" using db_okD [OF assms(2)] by auto
  then show "db_ok db'" unfolding db' by (intro db_ok_update assms(2) idx_ok_objs_map idx_ok_put)
qed (use assms(1) in \<open>auto simp: update_account_karma_def Let_def books_def\<close>)

lemma complete_conserves:
  assumes "complete_credit_operation c db = Inr r" "db_ok db"
  shows "conserves (c, db) r" "status (fst r) = complete_normal"
proof -
  obtain db1 db2 where a: "adjust_balance (borrower_of c) (deposit_of c) db = Inr db1"
    and k: "update_account_karma (borrower_of c) KARMA_BONUS_FOR_CREDIT_PAYMENT ''Credit complete normal.'' db1 = Inr db2"
    and r: "snd r = db2" "deposit_of (fst r) = mk_asset 0 (asset_id (deposit_of c))" "status (fst r) = complete_normal"
    using assms(1) by (auto simp: complete_credit_operation_def Let_def)
  note f = adjust_balance_frame [OF a assms(2)]
  note g = karma_effect [OF k f(1)]
  show "conserves (c, db) r" using f(2,4) g(1-3) r by (auto simp: conserves_def credit_total_def asset_part_def)
  show "status (fst r) = complete_normal" by (rule r(3))
qed

lemma ubnormal_conserves:
  assumes "complete_credit_operation_ubnormal env c db = Inr r" "db_ok db"
  shows "conserves (c, db) r" "status (fst r) = complete_ubnormal" "deposit_of (fst r) = deposit_of c"
proof -
  obtain x db1 db2 db3 where
    a: "adjust_balance (borrower_of c) (mk_asset (- x) (asset_id (loan_of c))) db = Inr db1" and
    b: "adjust_balance (creditor_of c) (mk_asset x (asset_id (loan_of c))) db1 = Inr db2" and
    k: "update_account_karma (borrower_of c) KARMA_PENALTY_FOR_CREDIT_DEFAULT ''Credit complete ubnormal.'' db2 = Inr db3" and
    r: "snd r = db3" "deposit_of (fst r) = deposit_of c" "status (fst r) = complete_ubnormal"
    using assms(1) by (auto simp: complete_credit_operation_ubnormal_def Let_def)
  note f = adjust_balance_frame [OF a assms(2)]
  note g = adjust_balance_frame [OF b f(1)]
  note h = karma_effect [OF k g(1)]
  show "conserves (c, db) r" using f(2,4) g(2,4) h(1-3) r by (auto simp: conserves_def credit_total_def asset_part_def)
qed (use assms(1) in \<open>auto simp: complete_credit_operation_ubnormal_def Let_def\<close>)

lemma monthly_conserves:
  assumes "settle_monthly_payment env c db = Inr r" "db_ok db"
  shows "conserves (c, db) r" "status (fst r) = status c" "expired_time_start (fst r) = 0"
proof -
  obtain x db1 db2 db3 where
    a: "adjust_balance (borrower_of c) (mk_asset (- x) (asset_id (loan_of c))) db = Inr db1" and
    b: "adjust_balance (creditor_of c) (mk_asset x (asset_id (loan_of c))) db1 = Inr db2" and
    k: "update_account_karma (borrower_of c) KARMA_BONUS_FOR_MONTHLY_PAYMENT
      ''Settle monthly payment complete normal.'' db2 = Inr db3" and
    r: "snd r = db3" "deposit_of (fst r) = deposit_of c"
    using assms(1) by (auto simp: settle_monthly_payment_def Let_def)
  note f = adjust_balance_frame [OF a assms(2)]
  note g = adjust_balance_frame [OF b f(1)]
  note h = karma_effect [OF k g(1)]
  show "conserves (c, db) r" using f(2,4) g(2,4) h(1-3) r by (auto simp: conserves_def credit_total_def asset_part_def)
qed (use assms(1) in \<open>auto simp: settle_monthly_payment_def Let_def push_history_def\<close>)

lemma check_expired_conserves:
  assumes "check_expired_pay_time env c db = Inr r" "db_ok db" "collateral_free (borrower_i c)"
  shows "conserves (c, db) r"
proof -
  let ?opts = "get_credit_options (parameters (global_properties db))"
  show ?thesis
  proof (cases "expired_time_start c = 0 \<and> max_credit_expiration_days ?opts \<noteq> 0")
    case True
    with assms(1) obtain db1 where k: "update_account_karma (borrower_of c) KARMA_PENALTY_FOR_MONTHLY_DELAY
        ''Settle monthly payment complete ubnormal: insufficient balance.'' db = Inr db1"
      and r: "snd r = db1" "deposit_of (fst r) = deposit_of c"
      by (auto simp: check_expired_pay_time_def Let_def)
    show ?thesis using karma_effect [OF k assms(2)] r by (simp add: conserves_def credit_total_def)
  next
    case False
    then have "complete_credit_operation_ubnormal env c db = Inr r \<or> r = (c, db)"
      using assms(1,3) unfolding check_expired_pay_time_def Let_def by (auto split: if_split_asm)
    then show ?thesis using ubnormal_conserves(1) [OF _ assms(2), of env c r] conserves_refl [of "(c, db)"] assms(2) by auto
  qed
qed

lemma next_month_conserves:
  assumes "on_next_month env c db = Inr r" "db_ok db" "collateral_free (borrower_i c)"
  shows "conserves (c, db) r"
proof -
  obtain c1 db1 and loan :: asset_object where m: "(if to_shares env (monthly_payment (creditor_i c)) (decimals loan)
        \<le> amount (get_balance db (borrower_of c) (asset_id (loan_of c)))
      then settle_monthly_payment env c db else check_expired_pay_time env c db) = Inr (c1, db1)"
    and r: "(if status c1 = complete_ubnormal then Inr (c1, db1) :: (credit_object \<times> database) exn
      else if expired_time_start c1 = 0
      then Inr (c1\<lparr>settle_month_elapsed := (settle_month_elapsed c1 + 1) mod 2 ^ 32\<rparr>, db1) else Inr (c1, db1)) = Inr r"
    using assms(1) unfolding on_next_month_def Let_def by auto
  from m have "settle_monthly_payment env c db = Inr (c1, db1) \<or> check_expired_pay_time env c db = Inr (c1, db1)"
    by (auto split: if_split_asm)
  then have "conserves (c, db) (c1, db1)" using monthly_conserves(1) check_expired_conserves assms(2,3) by blast
  then show ?thesis using r by (auto simp: conserves_def credit_total_def split: if_split_asm)
qed

lemma process_conserves:
  assumes "credit_process env c db = Inr r" "db_ok db" "collateral_free (borrower_i c)"
  shows "conserves (c, db) r"
proof (cases "status c = in_progress \<and> pay_day_reached env c db")
  case True
  then obtain c1 db1 where m: "on_next_month env c db = Inr (c1, db1)"
    and r: "complete_credit_operation c1 db1 = Inr r \<or> r = (c1, db1)"
    using assms(1,3) by (auto simp: credit_process_def split: if_splits prod.splits)
  have 1: "conserves (c, db) (c1, db1)" using next_month_conserves [OF m assms(2,3)] .
  then have "db_ok db1" by (simp add: conserves_def)
  then have "conserves (c1, db1) r" using r complete_conserves(1) [of c1 db1 r] conserves_refl [of "(c1, db1)"] by fastforce
  with 1 show ?thesis by (rule conserves_trans)
next
  case False
  then have "r = (c, db)" using assms(1,3) by (auto simp: credit_process_def split: if_splits)
  then show ?thesis using assms(2) by (simp add: conserves_refl)
qed

text \<open>Storing the processed credit: the books close.\<close>

lemma store_credit:
  assumes "conserves (c, db) (c', db')" "db_ok db" "idx_find (credits db) i = Some c"
  shows "db_ok (db'\<lparr>credits := idx_put (credits db') i c'\<rparr>)"
    "books j (db'\<lparr>credits := idx_put (credits db') i c'\<rparr>) = books j db"
proof -
  have ok: "idx_ok (credits db)" using db_okD(11) [OF assms(2)] .
  have c: "credits db' = credits db" "db_ok db'" "books j db' + asset_part j (deposit_of c') = books j db + asset_part j (deposit_of c)"
    using assms(1) by (auto simp: conserves_def credit_total_def)
  show "db_ok (db'\<lparr>credits := idx_put (credits db') i c'\<rparr>)" using db_ok_update(6) [OF c(2)] ok c(1) by simp
  show "books j (db'\<lparr>credits := idx_put (credits db') i c'\<rparr>) = books j db"
    using c(3) idx_sum_put [OF ok assms(3), of "\<lambda>c. asset_part j (deposit_of c)" c']
    by (simp add: books_def held_update c(1))
qed

section \<open>Conservation by the operations\<close>

lemma books_put_credit:
  assumes "db_ok db" "idx_find (credits db) k = Some c"
  shows "books i (db\<lparr>credits := idx_put (credits db) k c'\<rparr>)
    = books i db - asset_part i (deposit_of c) + asset_part i (deposit_of c')"
  using idx_sum_put [OF db_okD(11) [OF assms(1)] assms(2), of "\<lambda>c. asset_part i (deposit_of c)" c']
  by (simp add: books_def held_update)

lemma db_ok_put_credit: "db_ok db \<Longrightarrow> db_ok (db\<lparr>credits := idx_put (credits db) k c\<rparr>)"
  using db_ok_update(6) db_okD(11) by simp

lemma find_creditD:
  assumes "find_credit uuid db = Inr ic" "db_ok db"
  shows "idx_find (credits db) (fst ic) = Some (snd ic)" "object_uuid (snd ic) = uuid"
  using idx_find_by_SomeD [OF db_okD(11) [OF assms(2)], of _ ic] assms(1) by (auto simp: find_credit_def)

lemma asset_part_diff:
  "asset_id y = asset_id x \<Longrightarrow> asset_part i (mk_asset (amount x - amount y) (asset_id x)) = asset_part i x - asset_part i y"
  by (simp add: asset_part_def)

lemma pay_bonus_effect:
  assumes "pay_credit_bonus c db = Inr db'" "db_ok db"
  shows "db_ok db'" "books i db' = books i db + asset_part i (loan_of c)" "credits db' = credits db"
proof -
  let ?l = "loan_of c"
  from assms(1) obtain r1 r2 r3 x1 x2 x3 db1 db2 db3 where
    a: "adjust_balance r1 (mk_asset x1 (asset_id ?l)) db = Inr db1" and
    b: "adjust_balance r2 (mk_asset x2 (asset_id ?l)) db1 = Inr db2" and
    c: "adjust_balance r3 (mk_asset x3 (asset_id ?l)) db2 = Inr db3" and
    d: "adjust_balance (borrower_of c) (mk_asset (amount ?l - x1 - x2 - x3) (asset_id ?l)) db3 = Inr db'"
    by (auto simp: pay_credit_bonus_def Let_def)
  note f = adjust_balance_frame [OF a assms(2)]
  note g = adjust_balance_frame [OF b f(1)]
  note h = adjust_balance_frame [OF c g(1)]
  note k = adjust_balance_frame [OF d h(1)]
  show "db_ok db'" by (rule k(1))
  show "credits db' = credits db" using f(4) g(4) h(4) k(4) by simp
  show "books i db' = books i db + asset_part i ?l"
    using f(2) [of i] g(2) [of i] h(2) [of i] k(2) [of i] by (simp add: asset_part_def split: if_splits)
qed

lemma request_effect:
  assumes "credit_request_apply env op db = Inr r" "db_ok db"
  shows "db_ok (snd r)" "books i (snd r) = books i db"
    "amount (get_balance (snd r) b j) = amount (get_balance db b j)
       - (if b = cr_borrower op then asset_part j (cr_deposit_asset op) else 0)"
proof -
  from assms(1) obtain c where
    adj: "adjust_balance (cr_borrower op) (mk_asset (- amount (cr_deposit_asset op)) (asset_id (cr_deposit_asset op)))
       (db\<lparr>credits := idx_create (credits db) c\<rparr>) = Inr (snd r)"
    and c: "deposit_of c = cr_deposit_asset op"
    by (auto simp: credit_request_apply_def Let_def new_credit_def)
  have ok: "db_ok (db\<lparr>credits := idx_create (credits db) c\<rparr>)"
    using db_ok_update(6) [OF assms(2)] db_okD(11) [OF assms(2)] by simp
  note f = adjust_balance_frame [OF adj ok]
  show "db_ok (snd r)" by (rule f(1))
  show "books i (snd r) = books i db"
    using f(2) [of i] c by (simp add: books_def held_update idx_sum_create asset_part_def split: if_splits)
  show "amount (get_balance (snd r) b j) = amount (get_balance db b j)
       - (if b = cr_borrower op then asset_part j (cr_deposit_asset op) else 0)"
    using f(3) [of b j] by (auto simp: get_balance_def asset_part_def)
qed

lemma approve_effect:
  assumes "credit_approve_apply env op db = Inr r" "db_ok db"
  shows "db_ok (snd r)" "books i (snd r) = books i db"
proof -
  from assms(1) obtain k c c' db2 where
    fnd: "find_credit (ca_uuid op) db = Inr (k, c)" and
    adj: "adjust_balance (ca_creditor op) (mk_asset (- amount (loan_of c)) (asset_id (loan_of c)))
       (db\<lparr>credits := idx_put (credits db) k c'\<rparr>) = Inr db2" and
    c': "deposit_of c' = deposit_of c" "loan_of c' = loan_of c" and
    pay: "pay_credit_bonus c' db2 = Inr (snd r) \<or> adjust_balance (borrower_of c) (loan_of c) db2 = Inr (snd r)"
    by (auto simp: credit_approve_apply_def Let_def push_history_def split: prod.splits if_splits)
  note idx = find_creditD(1) [OF fnd assms(2)]
  note f = adjust_balance_frame [OF adj db_ok_put_credit [OF assms(2)]]
  have b2: "books i db2 = books i db - asset_part i (loan_of c)"
    using f(2) [of i] books_put_credit [OF assms(2), of k c i c'] idx c'(1) by (simp add: asset_part_def)
  from pay have "db_ok (snd r) \<and> books i (snd r) = books i db2 + asset_part i (loan_of c)"
    using pay_bonus_effect [OF _ f(1)] adjust_balance_frame(1) [OF _ f(1)] adjust_balance_frame(2) [OF _ f(1)] c'
    by metis
  then show "db_ok (snd r)" "books i (snd r) = books i db" using b2 by auto
qed

lemma cancel_effect:
  assumes "credit_request_cancel_apply op db = Inr db'" "db_ok db"
  shows "db_ok db'" "books i db' = books i db"
proof -
  from assms(1) obtain k c db1 where
    fnd: "find_credit (cc_uuid op) db = Inr (k, c)" and
    adj: "adjust_balance (borrower_of c) (deposit_of c) db = Inr db1" and
    db': "db' = db1\<lparr>credits := idx_remove (credits db1) k\<rparr>"
    by (auto simp: credit_request_cancel_apply_def split: prod.splits)
  note idx = find_creditD(1) [OF fnd assms(2)]
  note f = adjust_balance_frame [OF adj assms(2)]
  have ok: "idx_ok (credits db1)" using db_okD(11) [OF f(1)] .
  show "db_ok db'" using db_ok_update(6) [OF f(1)] ok by (simp add: db')
  show "books i db' = books i db" using f(2) [of i] idx idx_sum_remove [OF ok, of k c "\<lambda>c. asset_part i (deposit_of c)"]
    by (simp add: db' books_def held_update f(4))
qed

lemma settle_effect:
  assumes "settle_credit_apply env op db = Inr db'" "db_ok db"
  shows "db_ok db'" "books i db' = books i db"
proof -
  from assms(1) obtain k c x e db1 db2 db3 db4 where
    fnd: "find_credit (sc_uuid op) db = Inr (k, c)" and
    a1: "adjust_balance (borrower_of c) (mk_asset (- x) (asset_id (loan_of c))) db = Inr db1" and
    a2: "adjust_balance (creditor_of c) (mk_asset x (asset_id (loan_of c))) db1 = Inr db2" and
    a3: "adjust_balance (borrower_of c) (deposit_of c) db2 = Inr db3" and
    ka: "update_account_karma (borrower_of c) KARMA_BONUS_FOR_CREDIT_PAYMENT ''Credit complete forced.'' db3 = Inr db4" and
    db': "db' = db4\<lparr>credits := idx_put (credits db4) k
      ((set_deposit (mk_asset 0 (asset_id (deposit_of c))) (push_history e c))\<lparr>status := complete_normal\<rparr>)\<rparr>"
    by (auto simp: settle_credit_apply_def Let_def split: prod.splits)
  note idx = find_creditD(1) [OF fnd assms(2)]
  note f = adjust_balance_frame [OF a1 assms(2)]
  note g = adjust_balance_frame [OF a2 f(1)]
  note h = adjust_balance_frame [OF a3 g(1)]
  note m = karma_effect [OF ka h(1)]
  have idx4: "idx_find (credits db4) k = Some c" using idx f(4) g(4) h(4) m(3) by simp
  show "db_ok db'" using db_ok_put_credit [OF m(1)] by (simp add: db')
  show "books i db' = books i db"
    using books_put_credit [OF m(1) idx4, of i] m(2) [of i] h(2) [of i] g(2) [of i] f(2) [of i]
    by (simp add: db' asset_part_def split: if_splits)
qed

section \<open>A small chain with a credit\<close>

definition demo_env :: credit_env where
  "demo_env = \<lparr>libm_pow = (\<lambda>x y. case (x, y) of (Fin a, Fin b) \<Rightarrow> fl_round binary64 (a ^ nat \<lfloor>b\<rfloor>) | _ \<Rightarrow> NaN),
     gen_uuid = (\<lambda>i t. Inr ''u''), pay_date_days = (\<lambda>t n. 30 * (int n + 1))\<rparr>"

definition demo_credit :: "bool \<Rightarrow> e_credit_object_status \<Rightarrow> share_type \<Rightarrow> double \<Rightarrow> credit_object" where
  "demo_credit free st dep pay = \<lparr>object_uuid = ''u'', status = st,
     borrower_i = \<lparr>borrower = 5, loan_memo = [], loan_asset = mk_asset 100 0, loan_persent = Fin 12, loan_period = 1,
       deposit_asset = mk_asset dep 1, collateral_free = free\<rparr>,
     request_creation_time = 0,
     creditor_i = \<lparr>creditor = 6, credit_memo = [], credit_asset = mk_asset 0 0, monthly_payment = pay\<rparr>,
     request_approvation_time = 0, settle_month_elapsed = 0, expired_time_start = 0, comments = [], history = []\<rparr>"

definition credit_chain :: "credit_object list \<Rightarrow> database" where
  "credit_chain cs = demo_chain
    \<lparr>assets := idx_of [(demo_asset 0)\<lparr>decimals := 0\<rparr>, (demo_asset 1)\<lparr>decimals := 0, symbol := ''USD''\<rparr>],
     credits := idx_of cs,
     exchange_rates := idx_of [\<lparr>current_exchange_rate = [], current_exchange_rate_interval = [],
       last_exchange_rate = [(''KRM'', Fin 1), (''USD'', Fin 1)]\<rparr>]\<rparr>"

lemma credit_chain_ok: "db_ok (credit_chain cs)"
proof -
  have "indices_ok (credit_chain cs)" using demo_chain_ok by (simp add: credit_chain_def db_ok_def indices_ok_def)
  moreover have "balances_nonneg (balances (credit_chain cs))"
    using demo_chain_ok by (simp add: credit_chain_def db_ok_def)
  moreover have "dyn_ids_ok (assets (credit_chain cs))"
    by (simp add: dyn_ids_ok_def credit_chain_def demo_chain_simps idx_find_def)
  ultimately show ?thesis by (simp add: db_ok_def)
qed

lemma credit_chain_simps:
  "idx_find (assets (credit_chain cs)) 0 = Some ((demo_asset 0)\<lparr>decimals := 0\<rparr>)"
  "idx_find (assets (credit_chain cs)) 1 = Some ((demo_asset 1)\<lparr>decimals := 0, symbol := ''USD''\<rparr>)"
  "idx_find (assets (credit_chain cs)) (Suc 0) = Some ((demo_asset 1)\<lparr>decimals := 0, symbol := ''USD''\<rparr>)"
  "idx_find (accounts (credit_chain cs)) 5 = Some (demo_account 5)"
  "idx_find (accounts (credit_chain cs)) 6 = Some (demo_account 6)"
  "amount (get_balance (credit_chain cs) 5 0) = 700" "amount (get_balance (credit_chain cs) 6 0) = 200"
  "get_exchange_rate_by_symbol (credit_chain cs) ''KRM'' = Inr (Fin 1)"
  "get_exchange_rate_by_symbol (credit_chain cs) ''USD'' = Inr (Fin 1)"
  "head_block_time (credit_chain cs) = 1600000000"
  by (simp_all add: credit_chain_def demo_chain_def demo_params_def idx_of_def upt_rec idx_find_def get_balance_def
      idx_find_by_def balance_key_def get_exchange_rate_by_symbol_def head_block_time_def)
    (simp_all add: numeral_eq_Suc)

lemma demo_pow10: "pow10 demo_env 0 = Fin 1"
  by (simp add: pow10_def demo_env_def fl_round_numeral)

lemma amount_to_real_0:
  "0 \<le> x \<Longrightarrow> x < 2 ^ 53 \<Longrightarrow> amount_to_real 0 x = Inr (Fin (of_int x))"
proof -
  assume x: "0 \<le> x" "x < 2 ^ 53"
  have "amount_to_string 0 x = Inr (show_nat (nat x))" using amount_text_nonneg [OF x(1), of 0] by simp
  moreover have "hd (show_nat (nat x)) \<noteq> CHR ''-''"
    using isdigit_neq(1) [of "hd (show_nat (nat x))"] show_nat_digits [of "hd (show_nat (nat x))" "nat x"] by simp
  then have "decimal_rat (show_nat (nat x)) = of_int x"
    using x(1) takeWhile_digits [of "show_nat (nat x)"] by (simp add: decimal_rat_def Let_def digits_value_def [of "[]"])
  ultimately show ?thesis using fl_round_int [of x] x by (simp add: amount_to_real_def)
qed

lemma to_shares_demo: "\<bar>n\<bar> < 2 ^ 53 \<Longrightarrow> to_shares demo_env (Fin (of_int n)) 0 = n"
  using fl_round_int [of n] by (auto simp: to_shares_def demo_pow10 d_to_int64_def truncate_rat_def in_int64_def)

section \<open>A payment that can be made is made\<close>

lemma adjust_balance_ex:
  assumes "db_ok db" "in_int64 (amount d)" "amount (get_balance db a (asset_id d)) \<le> 9223372036854775807"
    and "0 \<le> amount (get_balance db a (asset_id d)) + amount d"
    and "amount (get_balance db a (asset_id d)) + amount d \<le> 9223372036854775807"
  obtains db' where "adjust_balance a d db = Inr db'"
  using adjust_balance_succeeds [OF assms(1-3)] assms(4,5) by blast

lemma karma_succeeds:
  assumes "idx_find (accounts db) a = Some acc"
  obtains db' where "update_account_karma a x info db = Inr db'"
    and "\<And>b j. get_balance db' b j = get_balance db b j"
    and "assets db' = assets db" "idx_find (accounts db') a \<noteq> None"
  using assms by (simp add: update_account_karma_def Let_def get_balance_def idx_find_put)

lemma monthly_succeeds:
  fixes loan :: asset_object
  assumes ok: "db_ok db" and l: "idx_find (assets db) (asset_id (loan_of c)) = Some loan"
    and d: "idx_find (assets db) (asset_id (deposit_of c)) = Some dep"
    and b: "idx_find (accounts db) (borrower_of c) = Some borr"
    and x: "x = to_shares env (monthly_payment (creditor_i c)) (decimals loan)" "0 \<le> x"
    and enough: "x \<le> amount (get_balance db (borrower_of c) (asset_id (loan_of c)))"
    and bounded: "\<And>a i. amount (get_balance db a i) \<le> GRAPHENE_MAX_SHARE_SUPPLY"
  obtains c' db' where "settle_monthly_payment env c db = Inr (c', db')"
    "status c' = status c" "settle_month_elapsed c' = settle_month_elapsed c" "expired_time_start c' = 0"
    "borrower_i c' = borrower_i c" "creditor_i c' = creditor_i c" "assets db' = assets db"
    "idx_find (accounts db') (borrower_of c) \<noteq> None"
    "\<And>a i. amount (get_balance db' a i) = amount (get_balance db a i)
       + (if a = borrower_of c then - asset_part i (mk_asset x (asset_id (loan_of c))) else 0)
       + (if a = creditor_of c then asset_part i (mk_asset x (asset_id (loan_of c))) else 0)"
proof -
  let ?i = "asset_id (loan_of c)"
  have m: "GRAPHENE_MAX_SHARE_SUPPLY = 1000000000000000" by (simp add: GRAPHENE_MAX_SHARE_SUPPLY_def)
  have x1: "x \<le> 1000000000000000" using enough bounded [of "borrower_of c" ?i] m by linarith
  obtain db1 where a1: "adjust_balance (borrower_of c) (mk_asset (- x) ?i) db = Inr db1"
    by (rule adjust_balance_ex [OF ok, of "mk_asset (- x) ?i" "borrower_of c"])
      (use x(2) x1 enough bounded [of "borrower_of c" ?i] m in \<open>auto simp: in_int64_def\<close>)
  note f = adjust_balance_frame [OF a1 ok]
  have le: "amount (get_balance db1 (creditor_of c) ?i) \<le> 1000000000000000"
    using f(3) [of "creditor_of c" ?i] x(2) bounded [of "creditor_of c" ?i] m by (simp add: asset_part_def split: if_splits)
  obtain db2 where a2: "adjust_balance (creditor_of c) (mk_asset x ?i) db1 = Inr db2"
    by (rule adjust_balance_ex [OF f(1), of "mk_asset x ?i" "creditor_of c"])
      (use x(2) x1 le get_balance_nonneg [OF f(1), of "creditor_of c" ?i] in \<open>auto simp: in_int64_def\<close>)
  note g = adjust_balance_frame [OF a2 f(1)]
  have "idx_find (accounts db2) (borrower_of c) = Some borr" using b f(5) g(5) by simp
  then obtain db3 where k: "update_account_karma (borrower_of c) KARMA_BONUS_FOR_MONTHLY_PAYMENT
        ''Settle monthly payment complete normal.'' db2 = Inr db3"
    and k2: "\<And>b j. get_balance db3 b j = get_balance db2 b j" "assets db3 = assets db2"
      "idx_find (accounts db3) (borrower_of c) \<noteq> None"
    by (rule karma_succeeds) blast
  have "in_int64 (- x)" using x(2) x1 by (simp add: in_int64_def)
  then have "settle_monthly_payment env c db = Inr (push_history (settled_normal (head_block_time db3)
      (mk_asset x ?i) (settle_month_elapsed c + 1) (deposit_of c)) (c\<lparr>expired_time_start := 0\<rparr>), db3)"
    using l d a1 a2 k by (simp add: settle_monthly_payment_def Let_def x(1) [symmetric] asset_neg_def safe_neg_def safe_int64_def)
  then show thesis
  proof (rule that)
    show "amount (get_balance db3 a i) = amount (get_balance db a i)
       + (if a = borrower_of c then - asset_part i (mk_asset x ?i) else 0)
       + (if a = creditor_of c then asset_part i (mk_asset x ?i) else 0)" for a i
      using f(3) [of a i] g(3) [of a i] k2(1) [of a i] by (simp add: asset_part_def split: if_splits)
  qed (use f(6) g(6) k2 in \<open>simp_all add: push_history_def\<close>)
qed

lemma last_payment:
  fixes loan :: asset_object
  assumes ok: "db_ok db" and st: "status c = in_progress" "collateral_free (borrower_i c)" "amount (deposit_of c) = 0"
    and day: "pay_day_reached env c db" "loan_period (borrower_i c) = settle_month_elapsed c + 1"
      "settle_month_elapsed c + 1 < 2 ^ 32"
    and l: "idx_find (assets db) (asset_id (loan_of c)) = Some loan"
    and d: "idx_find (assets db) (asset_id (deposit_of c)) = Some dep"
    and b: "idx_find (accounts db) (borrower_of c) = Some borr"
    and x: "x = to_shares env (monthly_payment (creditor_i c)) (decimals loan)" "0 \<le> x"
    and enough: "x \<le> amount (get_balance db (borrower_of c) (asset_id (loan_of c)))"
    and bounded: "\<And>a i. amount (get_balance db a i) \<le> GRAPHENE_MAX_SHARE_SUPPLY"
  shows "\<exists>c' db'. credit_process env c db = Inr (c', db') \<and> status c' = complete_normal
    \<and> (\<forall>a i. amount (get_balance db' a i) = amount (get_balance db a i)
       + (if a = borrower_of c then - asset_part i (mk_asset x (asset_id (loan_of c))) else 0)
       + (if a = creditor_of c then asset_part i (mk_asset x (asset_id (loan_of c))) else 0))"
proof -
  obtain c1 db1 where m: "settle_monthly_payment env c db = Inr (c1, db1)"
    "status c1 = status c" "settle_month_elapsed c1 = settle_month_elapsed c" "expired_time_start c1 = 0"
    "borrower_i c1 = borrower_i c" "creditor_i c1 = creditor_i c" "assets db1 = assets db"
    "idx_find (accounts db1) (borrower_of c) \<noteq> None"
    and bal: "\<And>a i. amount (get_balance db1 a i) = amount (get_balance db a i)
       + (if a = borrower_of c then - asset_part i (mk_asset x (asset_id (loan_of c))) else 0)
       + (if a = creditor_of c then asset_part i (mk_asset x (asset_id (loan_of c))) else 0)"
    by (rule monthly_succeeds [OF ok l d b x enough bounded]) blast
  let ?c = "c1\<lparr>settle_month_elapsed := settle_month_elapsed c + 1\<rparr>"
  have "on_next_month env c db = Inr (?c, db1)"
    using b l enough m st(1) day(3)
    by (simp add: on_next_month_def Let_def x(1) [symmetric] asset_ge_def asset_lt_def)
  moreover obtain borr1 where "idx_find (accounts db1) (borrower_of c) = Some borr1" using m(8) by auto
  then obtain db2 where k: "update_account_karma (borrower_of c) KARMA_BONUS_FOR_CREDIT_PAYMENT
      ''Credit complete normal.'' db1 = Inr db2" "\<And>b j. get_balance db2 b j = get_balance db1 b j"
    by (rule karma_succeeds) blast
  have "complete_credit_operation ?c db1 = Inr ((set_deposit (mk_asset 0 (asset_id (deposit_of c)))
      (push_history (credit_complete_normal (head_block_time db2) (deposit_of c)) ?c))\<lparr>status := complete_normal\<rparr>, db2)"
    using d m(5,7) st(3) k(1) by (simp add: complete_credit_operation_def adjust_balance_def Let_def)
  ultimately have "credit_process env c db = Inr ((set_deposit (mk_asset 0 (asset_id (deposit_of c)))
      (push_history (credit_complete_normal (head_block_time db2) (deposit_of c)) ?c))\<lparr>status := complete_normal\<rparr>, db2)"
    using st day m(5) by (simp add: credit_process_def)
  then show ?thesis using bal k(2) by auto
qed

section \<open>Properties\<close>

text \<open>C4: Requesting, approving, cancelling and settling a credit conserve the books of every asset, whatever the
  doubles in the bonus and in the settled sum are: funds only move between balances and deposits.\<close>

theorem credit_operations_conserve:
  assumes "db_ok db"
  shows "(\<forall>r. credit_request_apply env rq db = Inr r \<longrightarrow> db_ok (snd r) \<and> books i (snd r) = books i db)
    \<and> (\<forall>r. credit_approve_apply env ap db = Inr r \<longrightarrow> db_ok (snd r) \<and> books i (snd r) = books i db)
    \<and> (\<forall>db'. credit_request_cancel_apply ca db = Inr db' \<longrightarrow> db_ok db' \<and> books i db' = books i db)
    \<and> (\<forall>db'. settle_credit_apply env se db = Inr db' \<longrightarrow> db_ok db' \<and> books i db' = books i db)"
proof (intro conjI allI impI)
  fix r assume "credit_request_apply env rq db = Inr r"
  from request_effect(1,2) [OF this assms] show "db_ok (snd r)" "books i (snd r) = books i db" .
next
  fix r assume "credit_approve_apply env ap db = Inr r"
  from approve_effect [OF this assms] show "db_ok (snd r)" "books i (snd r) = books i db" .
next
  fix db' assume "credit_request_cancel_apply ca db = Inr db'"
  from cancel_effect [OF this assms] show "db_ok db'" "books i db' = books i db" .
next
  fix db' assume "settle_credit_apply env se db = Inr db'"
  from settle_effect [OF this assms] show "db_ok db'" "books i db' = books i db" .
qed

theorem credit_operations_conserve_witness:
  "\<exists>db'. credit_request_cancel_apply \<lparr>cc_borrower = 5, cc_uuid = ''u''\<rparr>
      (credit_chain [demo_credit False wating_for_acceptance 60 (Fin 0)]) = Inr db'
    \<and> books 1 db' = books 1 (credit_chain [demo_credit False wating_for_acceptance 60 (Fin 0)])"
proof -
  let ?db = "credit_chain [demo_credit False wating_for_acceptance 60 (Fin 0)]"
  have "\<exists>db'. credit_request_cancel_apply \<lparr>cc_borrower = 5, cc_uuid = ''u''\<rparr> ?db = Inr db'"
    by (simp add: credit_request_cancel_apply_def find_credit_def idx_find_by_def demo_credit_def credit_chain_def
        adjust_balance_def demo_chain_def idx_of_def upt_rec balance_key_def abo_adjust_balance_def idx_modify_def
        idx_get_def idx_find_def safe_add_def safe_int64_def in_int64_def)
  with credit_operations_conserve [OF credit_chain_ok, of _ _ _ 1 _ "\<lparr>cc_borrower = 5, cc_uuid = ''u''\<rparr>"]
  show ?thesis by blast
qed

text \<open>C24: Processing an accepted credit without collateral, on any day and on every path (monthly payment, delay,
  default, completion), conserves the books of every asset.\<close>

theorem credit_processing_conserves:
  assumes "db_ok db" "idx_find (credits db) k = Some c" "collateral_free (borrower_i c)"
    and "process_one_credit env k db = Inr db'"
  shows "db_ok db' \<and> books i db' = books i db"
proof -
  from assms(2,4) obtain c' db1 where p: "credit_process env c db = Inr (c', db1)"
    and db': "db' = db1\<lparr>credits := idx_put (credits db1) k c'\<rparr>" by (auto simp: process_one_credit_def)
  show ?thesis using store_credit [OF process_conserves [OF p assms(1,3)] assms(1,2)] by (simp add: db')
qed

lemma credit_chain_bounded: "amount (get_balance (credit_chain cs) a i) \<le> GRAPHENE_MAX_SHARE_SUPPLY"
  by (simp add: get_balance_def idx_find_by_def credit_chain_def demo_chain_def idx_of_def upt_rec
      GRAPHENE_MAX_SHARE_SUPPLY_def)

abbreviation last_credit :: credit_object where "last_credit \<equiv> demo_credit True in_progress 0 (Fin 100)"

lemma last_credit_simps:
  "status last_credit = in_progress" "collateral_free (borrower_i last_credit)" "amount (deposit_of last_credit) = 0"
  "loan_period (borrower_i last_credit) = settle_month_elapsed last_credit + 1"
  "settle_month_elapsed last_credit + 1 < 2 ^ 32"
  "asset_id (loan_of last_credit) = 0" "asset_id (deposit_of last_credit) = 1"
  "borrower_of last_credit = 5" "creditor_of last_credit = 6"
  by (simp_all add: demo_credit_def)

lemma last_credit_state:
  "pay_day_reached demo_env last_credit (credit_chain cs)"
  "idx_find (assets (credit_chain cs)) (asset_id (loan_of last_credit)) = Some ((demo_asset 0)\<lparr>decimals := 0\<rparr>)"
  "idx_find (assets (credit_chain cs)) (asset_id (deposit_of last_credit))
     = Some ((demo_asset 1)\<lparr>decimals := 0, symbol := ''USD''\<rparr>)"
  "idx_find (accounts (credit_chain cs)) (borrower_of last_credit) = Some (demo_account 5)"
  "100 \<le> amount (get_balance (credit_chain cs) (borrower_of last_credit) (asset_id (loan_of last_credit)))"
proof -
  have "head_block_time (credit_chain cs) = 1600000000" by (rule credit_chain_simps)
  moreover have "seconds_per_day (get_credit_options (parameters (global_properties (credit_chain cs)))) = 86400"
    by (simp add: credit_chain_def demo_chain_def demo_params_def get_credit_options_def default_credit_options_def)
  ultimately show "pay_day_reached demo_env last_credit (credit_chain cs)"
    by (simp add: pay_day_reached_def Let_def demo_env_def) (simp add: demo_credit_def)
qed (unfold last_credit_simps, simp_all add: credit_chain_simps del: One_nat_def)

lemma last_credit_pay:
  "100 = to_shares demo_env (monthly_payment (creditor_i last_credit)) (decimals ((demo_asset 0)\<lparr>decimals := 0\<rparr>))"
  using to_shares_demo [of 100] by (simp add: demo_credit_def)

lemma demo_last_payment: "\<exists>r. credit_process demo_env last_credit (credit_chain [last_credit]) = Inr r"
  using last_payment [OF credit_chain_ok last_credit_simps(1-3) last_credit_state(1) last_credit_simps(4,5)
      last_credit_state(2-4) last_credit_pay _ last_credit_state(5) credit_chain_bounded] by fastforce

theorem credit_processing_conserves_witness:
  "\<exists>db'. process_one_credit demo_env 0 (credit_chain [demo_credit True in_progress 0 (Fin 100)]) = Inr db'
    \<and> books 0 db' = books 0 (credit_chain [demo_credit True in_progress 0 (Fin 100)])"
proof -
  let ?c = "demo_credit True in_progress 0 (Fin 100)" and ?db = "credit_chain [demo_credit True in_progress 0 (Fin 100)]"
  have c: "idx_find (credits ?db) 0 = Some ?c" by (simp add: credit_chain_def idx_find_def idx_of_def)
  obtain r where r: "credit_process demo_env ?c ?db = Inr r" using demo_last_payment by blast
  then obtain db' where p: "process_one_credit demo_env 0 ?db = Inr db'"
    using c by (cases r) (simp add: process_one_credit_def idx_get_def)
  have "collateral_free (borrower_i ?c)" by (simp add: demo_credit_def)
  from credit_processing_conserves [OF credit_chain_ok c this p] p show ?thesis by blast
qed

text \<open>C34: When a late payment is taken from the deposit of a credit, while any deposit is left, the books do not close: the
  shares of the deposit that are taken go nowhere, and the creditor receives shares of the loan asset that no one paid. When the
  deposit covers what is owed, the missing part of the payment is created and what is owed is lost from the deposit; when it
  does not, all of the deposit is lost and its worth in the loan asset is created. The branch that would move them to the
  conversion account compares two asset ids that are always equal.\<close>

theorem settle_from_deposit_drifts:
  assumes "settle_from_deposit env c db = Inr r" "db_ok db"
    and "idx_find (assets db) (asset_id (deposit_of c)) = Some deposit"
    and "idx_find (assets db) (asset_id (loan_of c)) = Some loan"
    and "amount_to_real (decimals deposit) (amount (deposit_of c)) = Inr dl" "\<not> d_eq dl (Fin 0)"
    and "get_exchange_rate_by_symbol db (symbol deposit) = Inr dr"
    and "get_exchange_rate_by_symbol db (symbol loan) = Inr lr"
    and "amount_to_real (decimals loan) (amount (get_balance db (borrower_of c) (asset_id (loan_of c)))) = Inr ll"
    and "pay = monthly_payment (creditor_i c)" "owed = d_div (d_mul (d_sub pay ll) lr) dr"
    and "taken = (if d_lt dl owed then dl else owed)"
    and "received = (if d_lt dl owed then d_add (d_div (d_mul dl dr) lr) ll else pay)"
  shows "credit_total i r = credit_total i (c, db)
    + asset_part i (mk_asset (to_shares env received (decimals loan) - to_shares env ll (decimals loan)) (asset_id (loan_of c)))
    - asset_part i (mk_asset (to_shares env taken (decimals deposit)) (asset_id (deposit_of c)))"
proof -
  define x where "x = to_shares env ll (decimals loan)"
  define y where "y = to_shares env received (decimals loan)"
  define z where "z = to_shares env taken (decimals deposit)"
  let ?h = "\<lambda>db2 l. push_history (settled_ubnormal (head_block_time db2) (mk_asset x (asset_id (loan_of c)))
      (mk_asset z (asset_id (deposit_of c))) (mk_asset y (asset_id (loan_of c))) (d_mul owed dr) (d_mul pay lr)
      (settle_month_elapsed c + 1) l) (set_deposit l c)"
  let ?l = "mk_asset (amount (deposit_of c) - z) (asset_id (deposit_of c))"
  have y: "y = (if d_lt dl owed then to_shares env (d_add (d_div (d_mul dl dr) lr) ll) (decimals loan) else to_shares env pay (decimals loan))"
    and z: "z = (if d_lt dl owed then to_shares env dl (decimals deposit) else to_shares env owed (decimals deposit))"
    by (simp_all add: y_def z_def assms(12,13))
  have ga: "get_asset db (asset_id (deposit_of c)) = Inr deposit" "get_asset db (asset_id (loan_of c)) = Inr loan"
    using assms(3,4) by simp_all
  have u: "settle_from_deposit env c db =
    bindE (asset_neg (mk_asset x (asset_id (loan_of c)))) (\<lambda>n.
    bindE (adjust_balance (borrower_of c) n db) (\<lambda>db.
    bindE (adjust_balance (creditor_of c) (mk_asset y (asset_id (loan_of c))) db) (\<lambda>db.
    bindE (asset_sub (deposit_of c) (mk_asset z (asset_id (deposit_of c)))) (\<lambda>l.
    let h = push_history (settled_ubnormal (head_block_time db) (mk_asset x (asset_id (loan_of c)))
        (mk_asset z (asset_id (deposit_of c))) (mk_asset y (asset_id (loan_of c))) (d_mul owed dr) (d_mul pay lr)
        (settle_month_elapsed c + 1) l) (set_deposit l c)
    in if d_lt dl owed then complete_credit_operation_ubnormal env h db else Inr (h\<lparr>expired_time_start := 0\<rparr>, db)))))"
    unfolding settle_from_deposit_def ga assms(5,7-9) bindE_Inr y z x_def if_not_P [OF assms(6)] Let_def assms(10) [symmetric]
      assms(11) [symmetric] by simp
  from assms(1) obtain n l db1 db2 where n: "asset_neg (mk_asset x (asset_id (loan_of c))) = Inr n" and
    a1': "adjust_balance (borrower_of c) n db = Inr db1" and
    a2: "adjust_balance (creditor_of c) (mk_asset y (asset_id (loan_of c))) db1 = Inr db2" and
    l: "asset_sub (deposit_of c) (mk_asset z (asset_id (deposit_of c))) = Inr l" and
    r': "(if d_lt dl owed then complete_credit_operation_ubnormal env (?h db2 l) db2 else Inr ((?h db2 l)\<lparr>expired_time_start := 0\<rparr>, db2)) = Inr r"
    unfolding u Let_def bindE_eq_Inr by blast
  have a1: "adjust_balance (borrower_of c) (mk_asset (- x) (asset_id (loan_of c))) db = Inr db1" using n a1' by auto
  have l': "l = mk_asset (amount (deposit_of c) - z) (asset_id (deposit_of c))" using l by auto
  note r = r' [unfolded l']
  note f = adjust_balance_frame [OF a1 assms(2)]
  note g = adjust_balance_frame [OF a2 f(1)]
  have "deposit_of (?h db2 ?l) = mk_asset (amount (deposit_of c) - z) (asset_id (deposit_of c))" by simp
  then have h: "credit_total i (?h db2 ?l, db2) = books i db2 + asset_part i (mk_asset (amount (deposit_of c) - z) (asset_id (deposit_of c)))"
    by (simp only: credit_total_def fst_conv snd_conv)
  have "credit_total i r = credit_total i (?h db2 ?l, db2)"
  proof (cases "d_lt dl owed")
    case True
    then have "complete_credit_operation_ubnormal env (?h db2 ?l) db2 = Inr r" using r by simp
    from ubnormal_conserves(1) [OF this g(1)] show ?thesis by (simp add: conserves_def)
  next
    case False
    then have "r = ((?h db2 ?l)\<lparr>expired_time_start := 0\<rparr>, db2)" using r by simp
    then show ?thesis by (simp add: credit_total_def)
  qed
  then show ?thesis using f(2) [of i] g(2) [of i] h unfolding x_def [symmetric] y_def [symmetric] z_def [symmetric]
    by (simp add: credit_total_def asset_part_def split: if_splits)
qed

theorem settle_from_deposit_drifts_witness:
  "\<exists>r. settle_from_deposit demo_env (demo_credit False in_progress 400 (Fin 1000))
      (credit_chain [demo_credit False in_progress 400 (Fin 1000)]) = Inr r
    \<and> credit_total 0 r = credit_total 0 (demo_credit False in_progress 400 (Fin 1000),
        credit_chain [demo_credit False in_progress 400 (Fin 1000)]) + 300
    \<and> credit_total 1 r = credit_total 1 (demo_credit False in_progress 400 (Fin 1000),
        credit_chain [demo_credit False in_progress 400 (Fin 1000)]) - 300"
proof -
  let ?c = "demo_credit False in_progress 400 (Fin 1000)"
  let ?db = "credit_chain [demo_credit False in_progress 400 (Fin 1000)]"
  let ?i = "asset_id (loan_of ?c)"
  have c: "?i = 0" "asset_id (deposit_of ?c) = 1" "borrower_of ?c = 5" "creditor_of ?c = 6" "amount (deposit_of ?c) = 400"
    "monthly_payment (creditor_i ?c) = Fin 1000" "deposit_of ?c = mk_asset 400 1"
    by (simp_all add: demo_credit_def)
  have sh: "to_shares demo_env (Fin 1000) 0 = 1000" "to_shares demo_env (Fin 700) 0 = 700" "to_shares demo_env (Fin 300) 0 = 300"
    using to_shares_demo [of 1000] to_shares_demo [of 700] to_shares_demo [of 300] by simp_all
  have owed: "d_div (d_mul (d_sub (Fin 1000) (Fin 700)) (Fin 1)) (Fin 1) = Fin 300"
    by (simp add: d_sub_def d_add_def fl_round_numeral)
  have ar: "amount_to_real 0 400 = Inr (Fin 400)" "amount_to_real 0 700 = Inr (Fin 700)"
    using amount_to_real_0 [of 400] amount_to_real_0 [of 700] by simp_all
  obtain db1 where a1: "adjust_balance 5 (mk_asset (- 700) 0) ?db = Inr db1"
    by (rule adjust_balance_ex [OF credit_chain_ok, of "mk_asset (- 700) 0" "[?c]" 5])
      (simp_all add: in_int64_def credit_chain_simps)
  note f = adjust_balance_frame [OF a1 credit_chain_ok]
  obtain db2 where a2: "adjust_balance 6 (mk_asset 1000 0) db1 = Inr db2"
    by (rule adjust_balance_ex [OF f(1), of "mk_asset 1000 0" 6])
      (simp_all add: in_int64_def f(3) credit_chain_simps)
  have "\<exists>r. settle_from_deposit demo_env ?c ?db = Inr r"
    using a1 a2 sh owed by (simp add: settle_from_deposit_def c credit_chain_simps demo_asset_def ar Let_def
        asset_neg_def safe_neg_def safe_int64_def in_int64_def asset_sub_def safe_sub_def)
  then obtain r where r: "settle_from_deposit demo_env ?c ?db = Inr r" by blast
  have "credit_total i r = credit_total i (?c, ?db)
      + asset_part i (mk_asset (to_shares demo_env (Fin 1000) 0 - to_shares demo_env (Fin 700) 0) 0)
      - asset_part i (mk_asset (to_shares demo_env (Fin 300) 0) 1)" for i
    using settle_from_deposit_drifts [OF r credit_chain_ok, of "(demo_asset 1)\<lparr>decimals := 0, symbol := ''USD''\<rparr>"
        "(demo_asset 0)\<lparr>decimals := 0\<rparr>" "Fin 400" "Fin 1" "Fin 1" "Fin 700" "Fin 1000" "Fin 300" "Fin 300" "Fin 1000" i]
    by (simp add: c credit_chain_simps ar owed) (simp add: demo_asset_def credit_chain_simps)
  with r show ?thesis by (auto simp: sh asset_part_def)
qed

text \<open>C33: On the last pay day of a credit without collateral, a borrower who has the monthly payment pays it and the
  credit completes normally: exactly the payment moves from the borrower to the creditor, and nothing else.\<close>

theorem credit_last_payment_completes:
  fixes loan :: asset_object
  assumes "db_ok db" "status c = in_progress" "collateral_free (borrower_i c)" "amount (deposit_of c) = 0"
    and "pay_day_reached env c db" "loan_period (borrower_i c) = settle_month_elapsed c + 1"
      "settle_month_elapsed c + 1 < 2 ^ 32"
    and "idx_find (assets db) (asset_id (loan_of c)) = Some loan"
    and "idx_find (assets db) (asset_id (deposit_of c)) = Some dep"
    and "idx_find (accounts db) (borrower_of c) = Some borr"
    and "x = to_shares env (monthly_payment (creditor_i c)) (decimals loan)" "0 \<le> x"
    and "x \<le> amount (get_balance db (borrower_of c) (asset_id (loan_of c)))"
    and "\<And>a i. amount (get_balance db a i) \<le> GRAPHENE_MAX_SHARE_SUPPLY"
  shows "\<exists>c' db'. credit_process env c db = Inr (c', db') \<and> status c' = complete_normal
    \<and> (\<forall>a i. amount (get_balance db' a i) = amount (get_balance db a i)
       + (if a = borrower_of c then - asset_part i (mk_asset x (asset_id (loan_of c))) else 0)
       + (if a = creditor_of c then asset_part i (mk_asset x (asset_id (loan_of c))) else 0))"
  using assms by (rule last_payment)

theorem credit_last_payment_completes_witness:
  "\<exists>c' db'. credit_process demo_env last_credit (credit_chain [last_credit]) = Inr (c', db')
    \<and> status c' = complete_normal \<and> amount (get_balance db' 5 0) = 600 \<and> amount (get_balance db' 6 0) = 300"
proof -
  have "(0::int) \<le> 100" by simp
  from credit_last_payment_completes [OF credit_chain_ok last_credit_simps(1-3) last_credit_state(1)
      last_credit_simps(4,5) last_credit_state(2-4) last_credit_pay this last_credit_state(5) credit_chain_bounded]
  obtain c' db' where "credit_process demo_env last_credit (credit_chain [last_credit]) = Inr (c', db')"
    "status c' = complete_normal"
    "\<And>a i. amount (get_balance db' a i) = amount (get_balance (credit_chain [last_credit]) a i)
       + (if a = 5 then - asset_part i (mk_asset 100 0) else 0) + (if a = 6 then asset_part i (mk_asset 100 0) else 0)"
    unfolding last_credit_simps by blast
  then show ?thesis by (auto simp: credit_chain_simps asset_part_def)
qed

lemma approve_status:
  assumes "credit_approve_apply env op db = Inr r" "db_ok db" "find_credit (ca_uuid op) db = Inr (k, c)"
  shows "\<exists>c'. idx_find (credits (snd r)) k = Some c' \<and> status c' = in_progress \<and> creditor_of c' = ca_creditor op"
proof -
  from assms(1,3) obtain c' db2 where
    adj: "adjust_balance (ca_creditor op) (mk_asset (- amount (loan_of c)) (asset_id (loan_of c)))
       (db\<lparr>credits := idx_put (credits db) k c'\<rparr>) = Inr db2" and
    c': "status c' = in_progress" "creditor_of c' = ca_creditor op" and
    pay: "pay_credit_bonus c' db2 = Inr (snd r) \<or> adjust_balance (borrower_of c) (loan_of c) db2 = Inr (snd r)"
    by (auto simp: credit_approve_apply_def Let_def push_history_def split: prod.splits if_splits)
  note f = adjust_balance_frame [OF adj db_ok_put_credit [OF assms(2)]]
  have "credits (snd r) = credits db2"
    using pay pay_bonus_effect(3) [OF _ f(1)] adjust_balance_frame(4) [OF _ f(1)] by blast
  moreover have "idx_find (credits db2) k = Some c'"
    using f(4) find_creditD(1) [OF assms(3,2)] by (simp add: idx_find_put)
  ultimately show ?thesis using c' by auto
qed

text \<open>C32: The life cycle of a credit: only a request that waits for acceptance can be approved, cancelled or commented,
  and only a credit in progress can be settled or is processed; approval puts the credit in progress under its
  creditor. A credit that is complete is never touched again.\<close>

theorem credit_lifecycle:
  assumes "db_ok db" "find_credit uuid db = Inr (k, c)"
  shows "(status c \<noteq> wating_for_acceptance \<longrightarrow>
      (\<forall>ap. ca_uuid ap = uuid \<longrightarrow> credit_approve_apply env ap db = Inl (assert_exception ''credit request allready accepted!''))
      \<and> (\<forall>cm. cm_uuid cm = uuid \<longrightarrow> comment_credit_request_apply cm db = Inl (assert_exception ''credit request allready accepted!''))
      \<and> (\<forall>ca r. cc_uuid ca = uuid \<longrightarrow> credit_request_cancel_apply ca db \<noteq> Inr r))
    \<and> (status c \<noteq> in_progress \<longrightarrow>
      (\<forall>se r. sc_uuid se = uuid \<longrightarrow> settle_credit_apply env se db \<noteq> Inr r) \<and> credit_process env c db' = Inr (c, db'))
    \<and> (\<forall>ap r. ca_uuid ap = uuid \<longrightarrow> credit_approve_apply env ap db = Inr r \<longrightarrow>
      (\<exists>c'. idx_find (credits (snd r)) k = Some c' \<and> status c' = in_progress \<and> creditor_of c' = ca_creditor ap))"
proof (intro conjI impI allI)
  fix ap :: credit_approve_operation and r assume "ca_uuid ap = uuid" "credit_approve_apply env ap db = Inr r"
  then show "\<exists>c'. idx_find (credits (snd r)) k = Some c' \<and> status c' = in_progress \<and> creditor_of c' = ca_creditor ap"
    using approve_status [OF _ assms(1)] assms(2) by blast
next
  fix se :: settle_credit_operation and r assume "status c \<noteq> in_progress" "sc_uuid se = uuid"
  then show "settle_credit_apply env se db \<noteq> Inr r" using assms(2) by (auto simp: settle_credit_apply_def)
next
  fix ca :: credit_request_cancel_operation and r assume "status c \<noteq> wating_for_acceptance" "cc_uuid ca = uuid"
  then show "credit_request_cancel_apply ca db \<noteq> Inr r" using assms(2) by (auto simp: credit_request_cancel_apply_def)
qed (use assms(2) in \<open>auto simp: credit_approve_apply_def comment_credit_request_apply_def credit_process_def\<close>)

theorem credit_lifecycle_witness:
  "credit_approve_apply demo_env \<lparr>ca_creditor = 6, ca_credit_memo = [], ca_uuid = ''u''\<rparr> (credit_chain [last_credit])
    = Inl (assert_exception ''credit request allready accepted!'')"
proof -
  have f: "find_credit ''u'' (credit_chain [last_credit]) = Inr (0, last_credit)"
    by (simp add: find_credit_def idx_find_by_def credit_chain_def idx_of_def) (simp add: demo_credit_def)
  have "status last_credit \<noteq> wating_for_acceptance" by (simp add: demo_credit_def)
  then show ?thesis using credit_lifecycle [OF credit_chain_ok f, of demo_env] by simp
qed

lemma negative_unit_is_zero:
  assumes "1 \<le> p" "p \<le> 18"
  shows "amount_to_real p (- (10 ^ p - 1)) = Inr (Fin 0)" "amount_to_real p 0 = Inr (Fin 0)"
proof -
  have ten: "(10::int) \<le> 10 ^ p" using assms(1) power_increasing [of 1 p "10::int"] by simp
  have z: "to_string 0 = [digit_char 0]" "to_string 1 = [digit_char 1]" by (simp_all add: to_string_def show_nat.simps)
  have "(10 ^ p - 1) mod 10 ^ p = 10 ^ p - (1::int)" "(10 ^ p - 1) div 10 ^ p = (0::int)"
    using ten by (intro mod_pos_pos_trivial div_pos_pos_trivial; linarith)+
  then have "- (10 ^ p - 1) sdiv (10::int) ^ p = 0" "- (10 ^ p - 1) smod (10::int) ^ p = - (10 ^ p - 1)"
    using ten by (simp_all add: signed_divide_int_def signed_modulo_int_def sgn_if)
  then have "amount_to_string p (- (10 ^ p - 1)) = Inr ''0.''"
    using ten z by (simp add: amount_to_string_def scale_loop_p10 [OF assms(2)] Let_def digit_chars)
  then show "amount_to_real p (- (10 ^ p - 1)) = Inr (Fin 0)"
    by (simp add: amount_to_real_def decimal_rat_def digits_value_def isdigit_def digit_val_def)
  have "amount_to_string p 0 = Inr ''0''"
    using z by (simp add: amount_to_string_def scale_loop_p10 [OF assms(2)] Let_def digit_chars)
  then show "amount_to_real p 0 = Inr (Fin 0)"
    by (simp add: amount_to_real_def decimal_rat_def digits_value_def isdigit_def digit_val_def)
qed

text \<open>C35: A credit request with a negative deposit of almost one unit is checked as a request with no deposit at all,
  because the check reads the deposit from its text; applying the request then credits the absolute value of the
  deposit to the balance of the borrower.\<close>

theorem negative_deposit_mints:
  fixes deposit :: asset_object
  assumes "db_ok db" "cr_deposit_asset op = mk_asset (- (10 ^ p - 1)) i"
    and "idx_find (assets db) i = Some deposit" "decimals deposit = p" "1 \<le> p" "p \<le> 18"
    and "idx_find (accounts db) (cr_borrower op) = Some acc"
    and "gen_uuid env (next_id (credits db)) (head_block_time db) = Inr uuid"
    and "amount (get_balance db (cr_borrower op) i) \<le> GRAPHENE_MAX_SHARE_SUPPLY"
  shows "credit_request_evaluate op db = credit_request_evaluate (op\<lparr>cr_deposit_asset := mk_asset 0 i\<rparr>) db
    \<and> (\<exists>r. credit_request_apply env op db = Inr r
      \<and> amount (get_balance (snd r) (cr_borrower op) i) = amount (get_balance db (cr_borrower op) i) + (10 ^ p - 1))"
proof (intro conjI)
  note real = negative_unit_is_zero [OF assms(5,6)]
  show "credit_request_evaluate op db = credit_request_evaluate (op\<lparr>cr_deposit_asset := mk_asset 0 i\<rparr>) db"
    using assms(2-4) real by (simp add: credit_request_evaluate_def get_asset_def idx_get_def)
  let ?db = "db\<lparr>credits := idx_create (credits db) (new_credit op True uuid (head_block_time db) (acc_name acc))\<rparr>"
  have ok: "db_ok ?db" using db_ok_update(6) [OF assms(1)] db_okD(11) [OF assms(1)] by simp
  have p: "(1::int) \<le> 10 ^ p" "(10::int) ^ p \<le> 1000000000000000000"
    using assms(6) power_increasing [of p 18 "10::int"] by simp_all
  have bal: "get_balance ?db a j = get_balance db a j" for a j by (simp add: get_balance_def)
  have b: "0 \<le> amount (get_balance db (cr_borrower op) i)" "amount (get_balance db (cr_borrower op) i) \<le> 1000000000000000"
    using get_balance_nonneg [OF assms(1)] assms(9) by (simp_all add: GRAPHENE_MAX_SHARE_SUPPLY_def)
  have "in_int64 (10 ^ p - 1)" unfolding in_int64_def using p by linarith
  then obtain db2 where a: "adjust_balance (cr_borrower op) (mk_asset (10 ^ p - 1) i) ?db = Inr db2"
    using adjust_balance_ex [OF ok, of "mk_asset (10 ^ p - 1) i" "cr_borrower op"] b p by (force simp: bal)
  have "credit_request_apply env op db = Inr (next_id (credits db), db2)"
    using assms(2-4,7,8) real(1) a \<open>in_int64 (10 ^ p - 1)\<close>
    by (simp add: credit_request_apply_def get_asset_def idx_get_def get_account_def asset_neg_def safe_neg_def
        safe_int64_def Let_def)
  moreover have "amount (get_balance db2 (cr_borrower op) i) = amount (get_balance db (cr_borrower op) i) + (10 ^ p - 1)"
    using adjust_balance_frame(3) [OF a ok, of "cr_borrower op" i] by (simp add: bal asset_part_def)
  ultimately show "\<exists>r. credit_request_apply env op db = Inr r
      \<and> amount (get_balance (snd r) (cr_borrower op) i) = amount (get_balance db (cr_borrower op) i) + (10 ^ p - 1)" by simp
qed

theorem negative_deposit_mints_witness:
  "\<exists>r. credit_request_apply demo_env \<lparr>cr_borrower = 5, cr_loan_asset = mk_asset 1 0, cr_loan_period = 1,
      cr_loan_persent = 1, cr_loan_memo = [], cr_deposit_asset = mk_asset (- 99999) 0\<rparr> demo_chain = Inr r
    \<and> amount (get_balance (snd r) 5 0) = 100699"
proof -
  let ?op = "\<lparr>cr_borrower = 5, cr_loan_asset = mk_asset 1 0, cr_loan_period = 1,
      cr_loan_persent = 1, cr_loan_memo = [], cr_deposit_asset = mk_asset (- 99999) 0\<rparr>"
  have "idx_find (assets demo_chain) 0 = Some (demo_asset 0)"
    by (simp add: demo_chain_def idx_of_def idx_find_def upt_rec)
  moreover have "idx_find (accounts demo_chain) 5 = Some (demo_account 5)"
    by (simp add: demo_chain_def idx_of_def idx_find_def upt_rec) (simp add: numeral_eq_Suc)
  moreover have "amount (get_balance demo_chain 5 0) = 700"
    by (simp add: get_balance_def idx_find_by_def balance_key_def demo_chain_simps)
  ultimately show ?thesis
    using negative_deposit_mints [OF demo_chain_ok, of ?op 5 0 "demo_asset 0" "demo_account 5" demo_env "''u''"]
    by (simp add: demo_asset_def demo_env_def GRAPHENE_MAX_SHARE_SUPPLY_def)
qed

text \<open>The karma of an account stays between zero and five: whatever finite change is applied to a finite karma, the
  result is a number in that range.\<close>

theorem karma_bounded:
  "\<exists>k. karma (update_karma (Fin x) (a\<lparr>karma := Fin y\<rparr>)) = Fin k \<and> 0 \<le> k \<and> k \<le> 5"
proof -
  have "f_add binary32 (Fin y) (Fin x) \<in> {PInf, MInf} \<union> range Fin"
    by (auto simp: fl_round_def Let_def)
  then show ?thesis
    by (auto simp: update_karma_def KARMA_MIN_VALUE_def KARMA_MAX_VALUE_def Let_def simp del: f_add.simps)
qed

end
