(* ===== verification/Schedule.thy ===== *)
theory Schedule
  imports Balance "HOL-Library.Multiset"
begin

text \<open>
  The block schedule: \<^verbatim>\<open>db_witness_schedule.cpp\<close>, the block bookkeeping of \<^verbatim>\<open>db_update.cpp\<close> and
  \<^verbatim>\<open>validate_block_header\<close> of \<^verbatim>\<open>db_block.cpp\<close>. Times, slot numbers and block numbers are
  naturals with the 32-bit and 64-bit wrap-around written out; the shuffle computes on 64-bit words.
  The block interval is not zero (\<open>chain_parameters::validate\<close> asks for at least one second); a slot would divide by it.
\<close>

section \<open>Slots\<close>

definition maintenance_flag :: "32 word" where "maintenance_flag = 1"

definition db_block_interval :: "database \<Rightarrow> nat" where
  "db_block_interval db = block_interval (parameters (global_properties db))"

definition head_block_num :: "database \<Rightarrow> nat" where
  "head_block_num db = head_block_number (dynamic_properties db)"

definition get_scheduled_witness :: "database \<Rightarrow> nat \<Rightarrow> witness_id_type exn" where
  "get_scheduled_witness db slot_num =
    (let ws = current_shuffled_witnesses (witness_schedule db);
         aslot = (current_aslot (dynamic_properties db) + slot_num) mod 2 ^ 64
     in if ws = [] then Inl (chain_exception ''modulo by zero'') else Inr (ws ! (aslot mod length ws)))"

definition get_slot_time :: "database \<Rightarrow> nat \<Rightarrow> time_point_sec" where
  "get_slot_time db slot_num =
    (if slot_num = 0 then 0
     else
       let interval = db_block_interval db;
           dpo = dynamic_properties db
       in if head_block_num db = 0 then (time dpo + slot_num * interval mod 2 ^ 32) mod 2 ^ 32
          else
            let head_block_abs_slot = head_block_time db div interval;
                head_slot_time = head_block_abs_slot * interval mod 2 ^ 32;
                slot_num' = (if and (dynamic_flags dpo) maintenance_flag \<noteq> 0
                  then (slot_num + maintenance_skip_slots (parameters (global_properties db))) mod 2 ^ 32
                  else slot_num)
            in (head_slot_time + slot_num' * interval mod 2 ^ 32) mod 2 ^ 32)"

definition get_slot_at_time :: "database \<Rightarrow> time_point_sec \<Rightarrow> nat" where
  "get_slot_at_time db when =
    (let first_slot_time = get_slot_time db 1
     in if when < first_slot_time then 0
        else ((when - first_slot_time) div db_block_interval db + 1) mod 2 ^ 32)"

definition popcount :: "uint128 \<Rightarrow> nat" where
  "popcount w = length (filter (bit w) [0..<128])"

definition witness_participation_rate :: "database \<Rightarrow> nat" where
  "witness_participation_rate db = 10000 * popcount (recent_slots_filled (dynamic_properties db)) div 128"

section \<open>The shuffle\<close>

text \<open>The xorshift generator: \<open>k ^= k >> 12; k ^= k << 25; k ^= k >> 27; k *= 2685821657736338717\<close>.\<close>

definition xorshift :: "64 word \<Rightarrow> nat \<Rightarrow> 64 word" where
  "xorshift now_hi i =
    (let k0 = now_hi + of_nat i * 2685821657736338717;
         k1 = xor k0 (drop_bit 12 k0);
         k2 = xor k1 (push_bit 25 k1);
         k3 = xor k2 (drop_bit 27 k2)
     in k3 * 2685821657736338717)"

definition list_swap :: "'a list \<Rightarrow> nat \<Rightarrow> nat \<Rightarrow> 'a list" where
  "list_swap xs i j = xs[i := xs ! j, j := xs ! i]"

definition shuffle_step :: "64 word \<Rightarrow> witness_id_type list \<Rightarrow> nat \<Rightarrow> witness_id_type list" where
  "shuffle_step now_hi ws i =
    (let jmax = length ws - i;
         j = i + unat (xorshift now_hi i) mod jmax
     in list_swap ws i j)"

definition shuffle_witnesses :: "64 word \<Rightarrow> witness_id_type list \<Rightarrow> witness_id_type list" where
  "shuffle_witnesses now_hi ws = foldl (shuffle_step now_hi) ws [0..<length ws]"

definition update_witness_schedule :: "database \<Rightarrow> database exn" where
  "update_witness_schedule db =
    (let active = active_witnesses (global_properties db)
     in if active = [] then Inl (chain_exception ''modulo by zero'')
        else if head_block_num db mod length active = 0
        then Inr (db\<lparr>witness_schedule :=
            \<lparr>current_shuffled_witnesses =
               shuffle_witnesses (push_bit 32 (of_nat (head_block_time db))) active\<rparr>\<rparr>)
        else Inr db)"

section \<open>The bookkeeping of a block\<close>

text \<open>
  The parts of the node's state outside the object database: the checkpoints in the order of their
  block numbers, and the skip flags.
\<close>

record node_state =
  checkpoints :: "(nat \<times> block_id_type) list"
  skip_flags :: "32 word"

definition skip_witness_signature :: "32 word" where "skip_witness_signature = 0x001"
definition skip_undo_history_check :: "32 word" where "skip_undo_history_check = 0x200"
definition skip_witness_schedule_check :: "32 word" where "skip_witness_schedule_check = 0x400"

definition skips :: "node_state \<Rightarrow> 32 word \<Rightarrow> bool" where
  "skips node flag \<longleftrightarrow> and (skip_flags node) flag \<noteq> 0"

definition validate_block_header ::
  "(signed_block_header \<Rightarrow> nat) \<Rightarrow> node_state \<Rightarrow> database \<Rightarrow> signed_block \<Rightarrow> witness_id_type exn" where
  "validate_block_header signee node db b =
    bindE (fc_assert (head_block_id (dynamic_properties db) = previous b) ''head_block_id'') (\<lambda>_.
    bindE (fc_assert (head_block_time db < timestamp b) ''head_block_time'') (\<lambda>_.
    bindE (idx_get ''witness'' (witnesses db) (block_witness b)) (\<lambda>w.
    bindE (if skips node skip_witness_signature then Inr ()
           else fc_assert (validate_signee signee b (signing_key w)) ''validate_signee'') (\<lambda>_.
    bindE (if skips node skip_witness_schedule_check then Inr ()
           else
             let slot_num = get_slot_at_time db (timestamp b)
             in bindE (fc_assert (0 < slot_num) ''slot_num > 0'') (\<lambda>_.
                bindE (get_scheduled_witness db slot_num) (\<lambda>scheduled.
                fc_assert (block_witness b = scheduled) ''Witness produced block at wrong time''))) (\<lambda>_.
    Inr (block_witness b))))))"

definition charge_missed_slot :: "witness_id_type \<Rightarrow> nat \<Rightarrow> database \<Rightarrow> database exn" where
  "charge_missed_slot signer i db =
    bindE (get_scheduled_witness db (i + 1)) (\<lambda>w.
    bindE (idx_get ''witness'' (witnesses db) w) (\<lambda>wo.
    if w \<noteq> signer
    then Inr (db\<lparr>witnesses := idx_put (witnesses db) w (wo\<lparr>total_missed := total_missed wo + 1\<rparr>)\<rparr>)
    else Inr db))"

definition next_missed_count :: "node_state \<Rightarrow> nat \<Rightarrow> nat \<Rightarrow> 32 word \<Rightarrow> 32 word" where
  "next_missed_count node num missed c =
    (if num = 1 then 0
     else if checkpoints node \<noteq> [] \<and> num \<le> fst (last (checkpoints node)) then 0
     else if missed \<noteq> 0 then c + 4 * of_nat missed
     else if 4 < c then c - 3
     else if 0 < c then c - 1
     else c)"

definition update_global_dynamic_data ::
  "(signed_block_header \<Rightarrow> nat) \<Rightarrow> node_state \<Rightarrow> database \<Rightarrow> signed_block \<Rightarrow> (database \<times> nat) exn" where
  "update_global_dynamic_data header_hash node db b =
    (let slot = get_slot_at_time db (timestamp b)
     in bindE (fc_assert (slot \<noteq> 0) ''missed_blocks != 0'') (\<lambda>_.
        let missed_blocks = slot - 1
        in bindE (foldE (charge_missed_slot (block_witness b)) [0..<missed_blocks] db) (\<lambda>db1.
           let dgp = dynamic_properties db1;
               num = unat (block_num b);
               dgp' = dgp\<lparr>recently_missed_count :=
                            next_missed_count node num missed_blocks (recently_missed_count dgp),
                          head_block_number := num,
                          head_block_id := block_id header_hash b,
                          time := timestamp b,
                          current_witness := block_witness b,
                          recent_slots_filled :=
                            push_bit missed_blocks (push_bit 1 (recent_slots_filled dgp) + 1),
                          current_aslot := (current_aslot dgp + missed_blocks + 1) mod 2 ^ 64\<rparr>;
               depth = (num + 2 ^ 32 - last_irreversible_block_num dgp') mod 2 ^ 32
           in bindE (if skips node skip_undo_history_check then Inr ()
                     else if depth < 10000 then Inr ()
                     else Inl (chain_exception ''undo_database_exception'')) (\<lambda>_.
              Inr (db1\<lparr>dynamic_properties := dgp'\<rparr>, (depth + 1) mod 2 ^ 32)))))"

definition update_signing_witness :: "witness_id_type \<Rightarrow> signed_block \<Rightarrow> database \<Rightarrow> database exn" where
  "update_signing_witness w b db =
    (let dpo = dynamic_properties db;
         new_block_aslot = (current_aslot dpo + get_slot_at_time db (timestamp b)) mod 2 ^ 64;
         witness_pay = min (witness_pay_per_block (parameters (global_properties db))) (witness_budget dpo)
     in bindE (safe_sub (witness_budget dpo) witness_pay) (\<lambda>budget.
        bindE (deposit_witness_pay w witness_pay (db\<lparr>dynamic_properties := dpo\<lparr>witness_budget := budget\<rparr>\<rparr>)) (\<lambda>db1.
        bindE (idx_modify ''witness'' (witnesses db1) w (\<lambda>wit.
          Inr (wit\<lparr>last_aslot := new_block_aslot, last_confirmed_block_num := unat (block_num b)\<rparr>))) (\<lambda>t.
        Inr (db1\<lparr>witnesses := t\<rparr>)))))"

fun confirmed_blocks :: "database \<Rightarrow> witness_id_type list \<Rightarrow> nat list exn" where
  "confirmed_blocks db [] = Inr []"
| "confirmed_blocks db (w # ws) =
    bindE (idx_get ''witness'' (witnesses db) w) (\<lambda>wo.
    bindE (confirmed_blocks db ws) (\<lambda>ns. Inr (last_confirmed_block_num wo # ns)))"

text \<open>\<open>std::nth_element\<close> leaves at \<open>offset\<close> the element that a sort would put there.\<close>

definition update_last_irreversible_block :: "database \<Rightarrow> database exn" where
  "update_last_irreversible_block db =
    bindE (confirmed_blocks db (active_witnesses (global_properties db))) (\<lambda>nums.
    let offset = (10000 - 7000) * length nums div 10000;
        dpo = dynamic_properties db
    in if length nums \<le> offset then Inl (chain_exception ''wit_objs out of range'')
       else
         let new_lib = sort nums ! offset
         in if last_irreversible_block_num dpo < new_lib
            then Inr (db\<lparr>dynamic_properties := dpo\<lparr>last_irreversible_block_num := new_lib\<rparr>\<rparr>)
            else Inr db)"

definition update_maintenance_flag :: "bool \<Rightarrow> database \<Rightarrow> database" where
  "update_maintenance_flag new_flag db =
    (let dpo = dynamic_properties db
     in db\<lparr>dynamic_properties := dpo\<lparr>dynamic_flags :=
          or (and (dynamic_flags dpo) (not maintenance_flag)) (if new_flag then maintenance_flag else 0)\<rparr>\<rparr>)"

definition before_last_checkpoint :: "node_state \<Rightarrow> database \<Rightarrow> bool" where
  "before_last_checkpoint node db \<longleftrightarrow>
    checkpoints node \<noteq> [] \<and> head_block_num db \<le> fst (last (checkpoints node))"

section \<open>The shuffle as draws without replacement\<close>

text \<open>
  The reference: draw the element at a random index of those that are left, move the first of them
  into the gap, and go on with one element less.
\<close>

function random_draws :: "(nat \<Rightarrow> nat) \<Rightarrow> nat \<Rightarrow> 'a list \<Rightarrow> 'a list" where
  "random_draws rnd i [] = []"
| "random_draws rnd i (x # xs) =
    (let j = rnd i mod length (x # xs) in (x # xs) ! j # random_draws rnd (Suc i) (tl ((x # xs)[j := x])))"
  by pat_completeness auto
termination by (relation "measure (\<lambda>(rnd, i, xs). length xs)") (auto split: nat.split)

lemma mset_swap_head: "j < length (x # xs) \<Longrightarrow> add_mset ((x # xs) ! j) (mset (tl ((x # xs)[j := x]))) = mset (x # xs)"
  by (cases j) (auto simp: mset_update insert_DiffM)

lemma mset_draws [simp]: "mset (random_draws rnd i xs) = mset xs"
proof (induction rnd i xs rule: random_draws.induct)
  case (2 rnd i x xs)
  let ?j = "rnd i mod length (x # xs)"
  have "?j < length (x # xs)" by simp
  then show ?case using 2 mset_swap_head [of ?j x xs] by (simp add: Let_def)
qed simp

lemma draws_step:
  "xs \<noteq> [] \<Longrightarrow> rnd i mod length xs = j \<Longrightarrow> random_draws rnd i xs = xs ! j # random_draws rnd (Suc i) (tl (xs[j := hd xs]))"
  by (cases xs) (simp_all add: Let_def)

lemma length_list_swap [simp]: "length (list_swap xs i j) = length xs"
  by (simp add: list_swap_def)

lemma length_shuffle_step [simp]: "length (shuffle_step h ws i) = length ws"
  by (simp add: shuffle_step_def Let_def)

lemma take_drop_swap:
  assumes "i + j < length xs"
  shows "take (Suc i) (list_swap xs i (i + j)) = take i xs @ [xs ! (i + j)]"
    and "drop (Suc i) (list_swap xs i (i + j)) = tl ((drop i xs)[j := xs ! i])"
  using assms
  by (auto simp: list_swap_def take_Suc_conv_app_nth nth_list_update drop_update_swap drop_Suc
      intro!: nth_equalityI) (auto simp: nth_tl nth_list_update)

lemma shuffle_loop:
  "i \<le> length ws \<Longrightarrow>
    foldl (shuffle_step h) ws [i..<length ws] = take i ws @ random_draws (\<lambda>i. unat (xorshift h i)) i (drop i ws)"
proof (induction "length ws - i" arbitrary: i ws)
  case 0
  then show ?case by simp
next
  case (Suc n)
  define j where "j = unat (xorshift h i) mod (length ws - i)"
  have i: "i < length ws" and j: "i + j < length ws"
    using Suc.hyps(2) mod_less_divisor [of "length ws - i" "unat (xorshift h i)"] unfolding j_def by linarith+
  let ?ws = "shuffle_step h ws i"
  have sw: "?ws = list_swap ws i (i + j)" by (simp add: shuffle_step_def j_def Let_def)
  have "foldl (shuffle_step h) ws [i..<length ws] = foldl (shuffle_step h) ?ws [Suc i..<length ?ws]"
    using i by (simp add: upt_conv_Cons)
  also have "\<dots> = take (Suc i) ?ws @ random_draws (\<lambda>i. unat (xorshift h i)) (Suc i) (drop (Suc i) ?ws)"
    using Suc.hyps(1) [of ?ws "Suc i"] Suc.hyps(2) i by simp
  also have "\<dots> = take i ws @ random_draws (\<lambda>i. unat (xorshift h i)) i (drop i ws)"
    using i j draws_step [of "drop i ws" "\<lambda>i. unat (xorshift h i)" i j]
    by (simp add: sw take_drop_swap hd_drop_conv_nth j_def)
  finally show ?case .
qed

lemma shuffle_is_draws_aux: "shuffle_witnesses h ws = random_draws (\<lambda>i. unat (xorshift h i)) 0 ws"
  using shuffle_loop [of 0 ws h] by (simp add: shuffle_witnesses_def)

lemma mset_shuffle [simp]: "mset (shuffle_witnesses h ws) = mset ws"
  by (simp add: shuffle_is_draws_aux)

text \<open>C39: The in-place shuffle of the witness schedule, a loop of swaps over the vector driven by the
xorshift generator, is the same as drawing from the active witnesses without replacement: at each
step it takes the element at the generator's value modulo the number of those left, and moves the
first of the rest into its place. Every index is in range.\<close>

theorem shuffle_is_draws_without_replacement:
  "shuffle_witnesses now_hi ws = random_draws (\<lambda>i. unat (xorshift now_hi i)) 0 ws \<and> mset (shuffle_witnesses now_hi ws) = mset ws"
  by (simp add: shuffle_is_draws_aux)

section \<open>Scheduling\<close>

lemma rotation_nth:
  "ws \<noteq> [] \<Longrightarrow> map (\<lambda>k. ws ! ((c + k) mod length ws)) [0..<length ws] = rotate c ws"
  by (intro nth_equalityI) (auto simp: nth_rotate)

lemma mset_rotate_any: "mset (rotate k xs) = mset xs"
proof (induction k)
  case (Suc k)
  have "mset (rotate1 ys) = mset ys" for ys :: "'a list" by (cases ys) auto
  with Suc show ?case by simp
qed simp

lemma upt_offset: "[s..<s + n] = map (\<lambda>k. s + k) [0..<n]"
  using map_add_upt [of s n] by (simp add: add.commute)

text \<open>C38: In the block that ends a round the active witnesses are shuffled afresh, and then any
\<open>n\<close> consecutive slots, \<open>n\<close> being the number of active witnesses, are scheduled to each of them
exactly once, as long as the absolute slot number stays below \<open>2 ^ 64\<close>.\<close>

theorem round_schedules_each_witness_once:
  assumes "update_witness_schedule db = Inr db'"
    and "active_witnesses (global_properties db) = ws" "head_block_num db mod length ws = 0"
    and "current_aslot (dynamic_properties db) + s + length ws \<le> 2 ^ 64"
  shows "\<exists>turns. map (get_scheduled_witness db') [s..<s + length ws] = map Inr turns \<and> mset turns = mset ws"
proof -
  define shuf where "shuf = shuffle_witnesses (push_bit 32 (of_nat (head_block_time db))) ws"
  have db': "ws \<noteq> []" "db' = db\<lparr>witness_schedule := \<lparr>current_shuffled_witnesses = shuf\<rparr>\<rparr>"
    using assms(1-3) by (auto simp: update_witness_schedule_def shuf_def Let_def split: if_splits)
  have m: "mset shuf = mset ws" by (simp add: shuf_def)
  then have len: "length shuf = length ws" by (metis size_mset)
  with db'(1) have ne: "shuf \<noteq> []" by auto
  let ?c = "current_aslot (dynamic_properties db) + s"
  have "get_scheduled_witness db' (s + k) = Inr (shuf ! ((?c + k) mod length shuf))" if "k < length ws" for k
    using that assms(4) ne by (simp add: get_scheduled_witness_def db'(2) add.assoc)
  then have "map (get_scheduled_witness db') [s..<s + length ws] = map Inr (rotate ?c shuf)"
    unfolding upt_offset rotation_nth [OF ne, symmetric] by (simp add: len)
  then show ?thesis using m by (intro exI [of _ "rotate ?c shuf"]) (simp add: mset_rotate_any)
qed

definition demo_witness :: "nat \<Rightarrow> nat \<Rightarrow> witness_object" where
  "demo_witness a n = \<lparr>witness_account = a, last_aslot = 0, signing_key = 100 + a, pay_vb = None, wit_vote_id = 1,
     total_votes = 0, total_missed = 0, last_confirmed_block_num = n\<rparr>"

definition demo_schedule :: database where
  "demo_schedule = demo_chain
     \<lparr>witnesses := idx_of [demo_witness 5 7, demo_witness 6 9, demo_witness 5 8, demo_witness 6 4],
      global_properties := \<lparr>parameters = demo_params, pending_parameters = None, next_available_vote_id = 0,
        active_committee_members = [], active_witnesses = [0, 1, 2, 3]\<rparr>,
      witness_schedule := \<lparr>current_shuffled_witnesses = [2, 0, 3, 1]\<rparr>,
      dynamic_properties := (dynamic_properties demo_chain)\<lparr>head_block_number := 8, head_block_id := Block_id 8 0\<rparr>\<rparr>"

theorem round_schedules_each_witness_once_witness:
  "\<exists>db' turns. update_witness_schedule demo_schedule = Inr db' \<and>
     map (get_scheduled_witness db') [1..<1 + length [0, 1, 2, 3 :: nat]] = map Inr turns \<and> mset turns = mset [0, 1, 2, 3]"
proof -
  let ?db = "demo_schedule\<lparr>witness_schedule := \<lparr>current_shuffled_witnesses =
      shuffle_witnesses (push_bit 32 (of_nat (head_block_time demo_schedule))) [0, 1, 2, 3]\<rparr>\<rparr>"
  have "update_witness_schedule demo_schedule = Inr ?db"
    by (simp add: update_witness_schedule_def demo_schedule_def head_block_num_def Let_def)
  then show ?thesis
    using round_schedules_each_witness_once [of demo_schedule ?db "[0, 1, 2, 3]" 1]
    by (auto simp: demo_schedule_def head_block_num_def demo_chain_def)
qed

section \<open>Slot times\<close>

lemma slot_time_linear:
  assumes "0 < n"
    and "head_block_time db + (n + maintenance_skip_slots (parameters (global_properties db))) * db_block_interval db < 2 ^ 32"
  obtains c where "get_slot_time db n = c + n * db_block_interval db"
    "\<And>m. 0 < m \<Longrightarrow> m \<le> n \<Longrightarrow> get_slot_time db m = c + m * db_block_interval db"
proof -
  let ?i = "db_block_interval db" and ?k = "maintenance_skip_slots (parameters (global_properties db))"
  let ?c = "if head_block_num db = 0 then head_block_time db
    else head_block_time db div ?i * ?i + (if and (dynamic_flags (dynamic_properties db)) maintenance_flag \<noteq> 0 then ?k * ?i else 0)"
  have bound: "head_block_time db + m * ?i + ?k * ?i < 2 ^ 32 \<and> m + ?k < 2 ^ 32 \<or> ?i = 0" if "m \<le> n" for m
  proof (cases "?i = 0")
    case False
    have e: "head_block_time db + n * ?i + ?k * ?i < 2 ^ 32" using assms(2) by (simp only: add_mult_distrib)
    have "m * ?i \<le> n * ?i" "m \<le> m * ?i" "?k \<le> ?k * ?i" using that False by auto
    then show ?thesis using e by linarith
  qed simp
  have "get_slot_time db m = ?c + m * ?i" if "0 < m" "m \<le> n" for m
  proof (cases "?i = 0")
    case True
    then show ?thesis using that assms(2) by (simp add: get_slot_time_def head_block_time_def Let_def)
  next
    case False
    define q where "q = time (dynamic_properties db) div ?i * ?i"
    have "q \<le> time (dynamic_properties db)" by (simp add: q_def)
    then have lt: "q + m * ?i + ?k * ?i < 2 ^ 32" "time (dynamic_properties db) + m * ?i < 2 ^ 32" "m + ?k < 2 ^ 32"
      using bound [OF that(2)] False by (simp_all add: head_block_time_def)
    then have "q < 2 ^ 32" "m * ?i < 2 ^ 32" "(m + ?k) * ?i < 2 ^ 32" "q + (m + ?k) * ?i < 2 ^ 32" "q + m * ?i < 2 ^ 32"
      unfolding add_mult_distrib by linarith+
    with lt show ?thesis using that(1)
      unfolding get_slot_time_def head_block_time_def Let_def q_def [symmetric]
      by (simp only: mod_less if_False simp_thms split: if_split) (simp add: add_mult_distrib)
  qed
  then show thesis using assms(1) by (intro that [of ?c]) auto
qed

text \<open>Slot numbers and slot times are inverse to each other: as long as the times fit in 32
bits, every time from the start of slot \<open>n > 0\<close> up to the start of slot \<open>n + 1\<close> is in slot \<open>n\<close>, with
or without the slots skipped after a maintenance block, and every earlier time than the start of slot 1 is in
slot 0.\<close>

theorem slot_time_round_trip:
  assumes "0 < n" "0 < db_block_interval db"
    and "head_block_time db + (n + 1 + maintenance_skip_slots (parameters (global_properties db))) * db_block_interval db < 2 ^ 32"
  shows "get_slot_at_time db (get_slot_time db n) = n
    \<and> (\<forall>t. get_slot_time db n \<le> t \<longrightarrow> t < get_slot_time db (n + 1) \<longrightarrow> get_slot_at_time db t = n)
    \<and> (\<forall>t. t < get_slot_time db 1 \<longrightarrow> get_slot_at_time db t = 0)"
proof -
  let ?i = "db_block_interval db"
  obtain c where c: "\<And>m. 0 < m \<Longrightarrow> m \<le> n + 1 \<Longrightarrow> get_slot_time db m = c + m * ?i"
    using slot_time_linear [of "n + 1" db] assms(3) by (metis add.assoc zero_less_Suc Suc_eq_plus1)
  have n32: "n < 2 ^ 32"
  proof -
    have "n \<le> n * ?i" using assms(2) by simp
    then show ?thesis using assms(3) unfolding add_mult_distrib by linarith
  qed
  have slot: "get_slot_at_time db t = n" if "c + n * ?i \<le> t" "t < c + (n + 1) * ?i" for t
  proof -
    have f: "get_slot_time db 1 = c + ?i" using c [of 1] assms(1) by simp
    have "?i \<le> n * ?i" using assms(1) by simp
    then have ge: "c + ?i \<le> t" using that(1) by linarith
    have "(t - (c + ?i)) div ?i = n - 1"
    proof (rule div_nat_eqI)
      show "?i * (n - 1) \<le> t - (c + ?i)" using that(1) ge by (simp add: diff_mult_distrib2 mult.commute)
      show "t - (c + ?i) < ?i * Suc (n - 1)" using that(2) ge assms(1) by (cases n) (simp_all add: algebra_simps)
    qed
    then show ?thesis using f ge n32 assms(1) by (simp add: get_slot_at_time_def Let_def)
  qed
  show ?thesis using slot c [of n] c [of "n + 1"] assms(1,2)
    by (intro conjI allI impI) (auto simp: get_slot_at_time_def Let_def)
qed

theorem slot_time_round_trip_witness: "get_slot_at_time demo_schedule (get_slot_time demo_schedule 4) = 4"
  using slot_time_round_trip [of 4 demo_schedule]
  by (simp add: demo_schedule_def demo_chain_def demo_params_def db_block_interval_def head_block_time_def)

section \<open>The last irreversible block\<close>

lemma length_filter_sort: "length (filter P (sort xs)) = length (filter P xs)"
  by (metis mset_filter mset_sort size_mset)

lemma sorted_nth_threshold:
  fixes xs :: "nat list"
  assumes "k < length xs"
  shows "m \<le> sort xs ! k \<longleftrightarrow> length xs - k \<le> length (filter ((\<le>) m) xs)"
proof -
  let ?ys = "sort xs"
  have split: "filter ((\<le>) m) ?ys = filter ((\<le>) m) (take k ?ys) @ filter ((\<le>) m) (drop k ?ys)"
    by (metis append_take_drop_id filter_append)
  have k: "k < length ?ys" using assms by simp
  show ?thesis
  proof (cases "m \<le> ?ys ! k")
    case True
    have "\<forall>x \<in> set (drop k ?ys). m \<le> x"
    proof
      fix x assume "x \<in> set (drop k ?ys)"
      then obtain j where "j < length ?ys - k" "x = ?ys ! (k + j)" by (auto simp: in_set_conv_nth)
      then show "m \<le> x" using True sorted_nth_mono [of ?ys k "k + j"] by (simp add: less_diff_conv add.commute)
    qed
    then have "filter ((\<le>) m) (drop k ?ys) = drop k ?ys" by (rule filter_True)
    then have "length xs - k \<le> length (filter ((\<le>) m) ?ys)" using split by simp
    with True show ?thesis by (simp add: length_filter_sort)
  next
    case False
    have "\<forall>x \<in> set (take (Suc k) ?ys). \<not> m \<le> x"
    proof
      fix x assume "x \<in> set (take (Suc k) ?ys)"
      then obtain j where "j \<le> k" "x = ?ys ! j" by (auto simp: in_set_conv_nth less_Suc_eq_le)
      then show "\<not> m \<le> x" using False k sorted_nth_mono [of ?ys j k] by auto
    qed
    then have "filter ((\<le>) m) (take (Suc k) ?ys) = []" by (rule filter_False)
    moreover have "filter ((\<le>) m) ?ys = filter ((\<le>) m) (take (Suc k) ?ys) @ filter ((\<le>) m) (drop (Suc k) ?ys)"
      by (metis append_take_drop_id filter_append)
    moreover have "length (filter ((\<le>) m) (drop (Suc k) ?ys)) \<le> length xs - Suc k"
      by (metis length_filter_le length_drop length_sort)
    ultimately have "length (filter ((\<le>) m) ?ys) \<le> length xs - Suc k" by simp
    with False assms show ?thesis by (simp add: length_filter_sort)
  qed
qed

definition confirms :: "database \<Rightarrow> nat \<Rightarrow> witness_id_type \<Rightarrow> bool" where
  "confirms db m w \<longleftrightarrow> (case idx_find (witnesses db) w of None \<Rightarrow> False | Some wo \<Rightarrow> m \<le> last_confirmed_block_num wo)"

lemma confirmed_blocks_filter:
  "confirmed_blocks db ws = Inr ns \<Longrightarrow>
    length ns = length ws \<and> length (filter ((\<le>) m) ns) = length (filter (confirms db m) ws)"
  by (induction ws arbitrary: ns) (auto simp: confirms_def)

lemma seventy_percent:
  assumes "k \<le> n"
  shows "n - (10000 - 7000) * n div 10000 \<le> k \<longleftrightarrow> 7000 * n \<le> 10000 * (k :: nat)"
proof -
  define q where "q = (10000 - 7000) * n div 10000"
  have q: "10 * q \<le> 3 * n" "3 * n < 10 * q + 10" unfolding q_def by simp_all
  show ?thesis unfolding q_def [symmetric]
  proof
    assume "n - q \<le> k" then show "7000 * n \<le> 10000 * k" using q by linarith
  next
    assume "7000 * n \<le> 10000 * k" then show "n - q \<le> k" using q by linarith
  qed
qed

text \<open>C5: The last irreversible block is exact: after an update, block \<open>m\<close> is irreversible
precisely when it was so before or at least 70% of the active witnesses have a last confirmed
block of number \<open>m\<close> or more. So the number never decreases, no block with less than 70% behind it
becomes irreversible, and every block with 70% behind it does.\<close>

theorem last_irreversible_block_exact:
  assumes "update_last_irreversible_block db = Inr db'"
  shows "m \<le> last_irreversible_block_num (dynamic_properties db') \<longleftrightarrow>
    m \<le> last_irreversible_block_num (dynamic_properties db) \<or>
    7000 * length (active_witnesses (global_properties db))
      \<le> 10000 * length (filter (confirms db m) (active_witnesses (global_properties db)))"
proof -
  let ?ws = "active_witnesses (global_properties db)"
  obtain ns where ns: "confirmed_blocks db ?ws = Inr ns" using assms by (auto simp: update_last_irreversible_block_def)
  define off where "off = (10000 - 7000) * length ns div 10000"
  have len: "length ns = length ?ws" "length (filter ((\<le>) m) ns) = length (filter (confirms db m) ?ws)"
    using confirmed_blocks_filter [OF ns] by auto
  have off: "off < length ns"
    and lib: "last_irreversible_block_num (dynamic_properties db')
      = max (last_irreversible_block_num (dynamic_properties db)) (sort ns ! off)"
    using assms ns unfolding update_last_irreversible_block_def by (auto simp: off_def Let_def max_def split: if_splits)
  have "m \<le> sort ns ! off \<longleftrightarrow> length ns - off \<le> length (filter ((\<le>) m) ns)"
    by (rule sorted_nth_threshold [OF off])
  also have "\<dots> \<longleftrightarrow> 7000 * length ns \<le> 10000 * length (filter ((\<le>) m) ns)"
    unfolding off_def by (rule seventy_percent) simp
  finally show ?thesis using lib len by (simp add: le_max_iff_disj)
qed

lemma demo_schedule_simps:
  "idx_find (witnesses demo_schedule) 0 = Some (demo_witness 5 7)"
  "idx_find (witnesses demo_schedule) (Suc 0) = Some (demo_witness 6 9)"
  "idx_find (witnesses demo_schedule) 2 = Some (demo_witness 5 8)"
  "idx_find (witnesses demo_schedule) 3 = Some (demo_witness 6 4)"
  "active_witnesses (global_properties demo_schedule) = [0, 1, 2, 3]"
  "last_irreversible_block_num (dynamic_properties demo_schedule) = 0"
  by (simp_all add: demo_schedule_def demo_chain_def idx_find_def idx_of_def upt_rec)

theorem last_irreversible_block_exact_witness:
  "\<exists>db'. update_last_irreversible_block demo_schedule = Inr db' \<and> 7 \<le> last_irreversible_block_num (dynamic_properties db')
    \<and> \<not> 8 \<le> last_irreversible_block_num (dynamic_properties db')"
proof -
  let ?db = "demo_schedule\<lparr>dynamic_properties := (dynamic_properties demo_schedule)\<lparr>last_irreversible_block_num := 7\<rparr>\<rparr>"
  have u: "update_last_irreversible_block demo_schedule = Inr ?db"
    by (simp add: update_last_irreversible_block_def demo_schedule_simps demo_witness_def Let_def idx_get_def)
  show ?thesis using last_irreversible_block_exact [OF u, of 7] last_irreversible_block_exact [OF u, of 8]
    by (intro exI [of _ ?db]) (simp add: u demo_schedule_simps confirms_def demo_witness_def)
qed

section \<open>A block in its slot\<close>

text \<open>What one missed slot changes: the counter of the witness scheduled for it.\<close>

lemma charge_missed_slot_effect:
  assumes "charge_missed_slot signer k db = Inr db'"
  obtains w where "get_scheduled_witness db (k + 1) = Inr w"
    "witness_schedule db' = witness_schedule db" "dynamic_properties db' = dynamic_properties db"
    "global_properties db' = global_properties db"
    "\<And>i wo. idx_find (witnesses db) i = Some wo \<Longrightarrow>
       idx_find (witnesses db') i = Some (wo\<lparr>total_missed := total_missed wo + (if i = w \<and> w \<noteq> signer then 1 else 0)\<rparr>)"
proof -
  from assms obtain w wo where w: "get_scheduled_witness db (k + 1) = Inr w" "idx_find (witnesses db) w = Some wo"
    and db': "db' = (if w \<noteq> signer
      then db\<lparr>witnesses := idx_put (witnesses db) w (wo\<lparr>total_missed := total_missed wo + 1\<rparr>)\<rparr> else db)"
    by (auto simp: charge_missed_slot_def split: if_splits)
  show thesis by (rule that [OF w(1)]) (use w(2) db' in \<open>auto simp: idx_find_put\<close>)
qed

lemma get_scheduled_witness_cong:
  "witness_schedule db' = witness_schedule db \<Longrightarrow> current_aslot (dynamic_properties db') = current_aslot (dynamic_properties db)
    \<Longrightarrow> get_scheduled_witness db' = get_scheduled_witness db"
  by (simp add: get_scheduled_witness_def fun_eq_iff)

definition missed_by :: "database \<Rightarrow> witness_id_type \<Rightarrow> nat list \<Rightarrow> nat" where
  "missed_by db i ks = length (filter (\<lambda>k. get_scheduled_witness db (k + 1) = Inr i) ks)"

lemma charge_missed_slots_effect:
  assumes "foldE (charge_missed_slot signer) ks db = Inr db'"
  shows "witness_schedule db' = witness_schedule db \<and> dynamic_properties db' = dynamic_properties db
    \<and> global_properties db' = global_properties db
    \<and> (\<forall>i wo. idx_find (witnesses db) i = Some wo \<longrightarrow>
       idx_find (witnesses db') i = Some (wo\<lparr>total_missed :=
          total_missed wo + (if i = signer then 0 else int (missed_by db i ks))\<rparr>))"
  using assms
proof (induction ks arbitrary: db)
  case Nil
  then show ?case by (simp add: missed_by_def)
next
  case (Cons k ks)
  then obtain db1 where c: "charge_missed_slot signer k db = Inr db1" and r: "foldE (charge_missed_slot signer) ks db1 = Inr db'"
    by auto
  from c obtain w where w: "get_scheduled_witness db (k + 1) = Inr w"
    "witness_schedule db1 = witness_schedule db" "dynamic_properties db1 = dynamic_properties db"
    "global_properties db1 = global_properties db"
    "\<And>i wo. idx_find (witnesses db) i = Some wo \<Longrightarrow>
       idx_find (witnesses db1) i = Some (wo\<lparr>total_missed := total_missed wo + (if i = w \<and> w \<noteq> signer then 1 else 0)\<rparr>)"
    by (rule charge_missed_slot_effect) blast
  have same: "get_scheduled_witness db1 = get_scheduled_witness db" by (rule get_scheduled_witness_cong) (simp_all add: w)
  have m: "missed_by db i (k # ks) = (if i = w then 1 else 0) + missed_by db i ks" for i
    using w(1) by (auto simp: missed_by_def)
  have m1: "missed_by db1 i ks = missed_by db i ks" for i by (simp add: missed_by_def same)
  show ?case
  proof (intro conjI allI impI)
    fix i and wo :: witness_object
    assume "idx_find (witnesses db) i = Some wo"
    from w(5) [OF this] Cons.IH [OF r] m m1 show "idx_find (witnesses db') i = Some (wo\<lparr>total_missed :=
        total_missed wo + (if i = signer then 0 else int (missed_by db i (k # ks)))\<rparr>)"
      by auto
  qed (use Cons.IH [OF r] w in auto)
qed

lemma update_global_dynamic_data_effect:
  assumes "update_global_dynamic_data h node db b = Inr (db', depth)"
  obtains db1 d where
    "foldE (charge_missed_slot (block_witness b)) [0..<get_slot_at_time db (timestamp b) - 1] db = Inr db1"
    "db' = db1\<lparr>dynamic_properties := d\<rparr>"
    "current_aslot d = (current_aslot (dynamic_properties db1) + (get_slot_at_time db (timestamp b) - 1) + 1) mod 2 ^ 64"
proof -
  from assms show thesis
    unfolding update_global_dynamic_data_def Let_def bindE_eq_Inr
    by (elim exE conjE, simp only: sum.inject prod.inject, elim conjE) (rule that, assumption, erule sym, simp)
qed

text \<open>C22: A block accepted in slot \<open>n\<close> under the schedule check and recorded is signed by the
witness scheduled for slot \<open>n\<close>; afterwards the absolute slot has advanced by exactly \<open>n\<close>, so that
slot 0 is the signer's, and every other witness is charged one missed block for each of the slots
\<open>1, ..., n - 1\<close> that it was scheduled for, and the signer none.\<close>

theorem accepted_block_fills_its_slot:
  assumes "validate_block_header signee node db b = Inr w" "\<not> skips node skip_witness_schedule_check"
    and "update_global_dynamic_data header_hash node db b = Inr (db', depth)"
    and "n = get_slot_at_time db (timestamp b)" "current_aslot (dynamic_properties db) + n < 2 ^ 64"
  shows "get_scheduled_witness db n = Inr w
    \<and> current_aslot (dynamic_properties db') = current_aslot (dynamic_properties db) + n
    \<and> get_scheduled_witness db' 0 = Inr w
    \<and> (\<forall>i wo. idx_find (witnesses db) i = Some wo \<longrightarrow>
        idx_find (witnesses db') i = Some (wo\<lparr>total_missed :=
          total_missed wo + (if i = w then 0 else int (missed_by db i [0..<n - 1]))\<rparr>))"
proof -
  have w: "block_witness b = w" "get_scheduled_witness db n = Inr w" "0 < n"
    using assms(1,2,4) by (auto simp: validate_block_header_def Let_def)
  obtain db1 d where f: "foldE (charge_missed_slot w) [0..<n - 1] db = Inr db1"
    and db1: "db' = db1\<lparr>dynamic_properties := d\<rparr>"
      "current_aslot d = (current_aslot (dynamic_properties db1) + (n - 1) + 1) mod 2 ^ 64"
    using update_global_dynamic_data_effect [OF assms(3)] unfolding w(1) assms(4) by blast
  then have db': "witness_schedule db' = witness_schedule db1" "witnesses db' = witnesses db1"
      "current_aslot (dynamic_properties db') = (current_aslot (dynamic_properties db1) + (n - 1) + 1) mod 2 ^ 64"
    by simp_all
  note e = charge_missed_slots_effect [OF f]
  have a: "current_aslot (dynamic_properties db') = current_aslot (dynamic_properties db) + n"
    using e db'(3) w(3) assms(5) by simp
  have "get_scheduled_witness db' 0 = get_scheduled_witness db n"
    using a e db'(1) by (simp add: get_scheduled_witness_def)
  then show ?thesis using w a e db'(2) by auto
qed

text \<open>Two slots after the head of \<open>demo_schedule\<close>: the first is missed by witness 2.\<close>

definition demo_block :: signed_block where
  "demo_block = \<lparr>previous = Block_id 8 0, timestamp = 1600000010, block_witness = 0, transaction_merkle_root = 0,
     witness_signature = 0, transactions = []\<rparr>"

definition demo_slot_chain :: database where
  "demo_slot_chain = demo_schedule\<lparr>dynamic_properties :=
     (dynamic_properties demo_schedule)\<lparr>current_aslot := 7\<rparr>\<rparr>"

definition demo_node :: node_state where
  "demo_node = \<lparr>checkpoints = [], skip_flags = 0\<rparr>"

lemma demo_slot_chain_simps:
  "current_shuffled_witnesses (witness_schedule demo_slot_chain) = [2, 0, 3, 1]"
  "current_aslot (dynamic_properties demo_slot_chain) = 7" "dynamic_flags (dynamic_properties demo_slot_chain) = 0"
  "time (dynamic_properties demo_slot_chain) = 1600000000" "head_block_number (dynamic_properties demo_slot_chain) = 8"
  "head_block_id (dynamic_properties demo_slot_chain) = Block_id 8 0"
  "last_irreversible_block_num (dynamic_properties demo_slot_chain) = 0"
  "parameters (global_properties demo_slot_chain) = demo_params"
  "witnesses demo_slot_chain = witnesses demo_schedule"
  by (simp_all add: demo_slot_chain_def demo_schedule_def demo_chain_def)

lemma demo_slot: "get_slot_at_time demo_slot_chain 1600000010 = 2"
  by (simp add: get_slot_at_time_def get_slot_time_def db_block_interval_def head_block_num_def head_block_time_def
      demo_slot_chain_simps demo_params_def)

lemma demo_block_accepted: "validate_block_header (\<lambda>_. 105) demo_node demo_slot_chain demo_block = Inr 0"
  by (simp add: validate_block_header_def demo_block_def demo_node_def skips_def demo_slot_chain_simps demo_slot
      head_block_time_def idx_get_def demo_schedule_simps demo_witness_def validate_signee_def
      get_scheduled_witness_def)

lemma demo_block_recorded: "\<exists>db' d. update_global_dynamic_data (\<lambda>_. 77) demo_node demo_slot_chain demo_block = Inr (db', d)"
  by (simp add: update_global_dynamic_data_def demo_block_def demo_node_def skips_def demo_slot_chain_simps demo_slot
      charge_missed_slot_def idx_get_def demo_schedule_simps get_scheduled_witness_def Let_def block_num_def num_from_id_def)

theorem accepted_block_fills_its_slot_witness:
  "\<exists>db' d wo. update_global_dynamic_data (\<lambda>_. 77) demo_node demo_slot_chain demo_block = Inr (db', d)
    \<and> current_aslot (dynamic_properties db') = 9 \<and> get_scheduled_witness db' 0 = Inr 0
    \<and> idx_find (witnesses db') 2 = Some wo \<and> total_missed wo = 1"
proof -
  obtain db' d where u: "update_global_dynamic_data (\<lambda>_. 77) demo_node demo_slot_chain demo_block = Inr (db', d)"
    using demo_block_recorded by blast
  have "timestamp demo_block = 1600000010" by (simp add: demo_block_def)
  with accepted_block_fills_its_slot [OF demo_block_accepted _ u refl]
  have *: "current_aslot (dynamic_properties db') = 9 \<and> get_scheduled_witness db' 0 = Inr 0
    \<and> (\<forall>i wo. idx_find (witnesses demo_slot_chain) i = Some wo \<longrightarrow>
        idx_find (witnesses db') i = Some (wo\<lparr>total_missed :=
          total_missed wo + (if i = 0 then 0 else int (missed_by demo_slot_chain i [0])) \<rparr>))"
    by (simp add: demo_slot demo_slot_chain_simps demo_node_def skips_def)
  moreover have "missed_by demo_slot_chain 2 [0] = 1"
    by (simp add: missed_by_def get_scheduled_witness_def demo_slot_chain_simps)
  moreover have "idx_find (witnesses demo_slot_chain) 2 = Some (demo_witness 5 8)"
    by (simp add: demo_slot_chain_simps demo_schedule_simps)
  ultimately have "idx_find (witnesses db') 2 = Some ((demo_witness 5 8)\<lparr>total_missed := 1\<rparr>)"
    by (auto simp: demo_witness_def)
  with u * show ?thesis by (intro exI [of _ db'] exI [of _ d]) simp
qed

section \<open>Witness pay\<close>

text \<open>Signing pays the witness out of the budget; the books of every asset stay as they are.\<close>

lemma update_signing_witness_books:
  assumes "update_signing_witness w b db = Inr db'" "db_ok db"
  shows "db_ok db'" "books i db' = books i db"
proof -
  let ?p = "min (witness_pay_per_block (parameters (global_properties db))) (witness_budget (dynamic_properties db))"
  let ?db = "db\<lparr>dynamic_properties := (dynamic_properties db)\<lparr>witness_budget := witness_budget (dynamic_properties db) - ?p\<rparr>\<rparr>"
  obtain db1 v wo where d: "deposit_witness_pay w ?p ?db = Inr db1"
    and db': "db' = db1\<lparr>witnesses := idx_put (witnesses db1) w v\<rparr>" "idx_find (witnesses db1) w = Some wo"
    using assms(1) unfolding update_signing_witness_def Let_def by auto
  have ok: "db_ok ?db" using assms(2) by (simp add: db_ok_def indices_ok_def)
  have "books i ?db = books i db - asset_part i (mk_asset ?p 0)"
    by (simp add: books_def held_def supply_of_def asset_part_def)
  then show "books i db' = books i db"
    using witness_pay_effect(2) [OF d ok, of i] by (simp add: db'(1) books_def db_simps)
  show "db_ok db'" using witness_pay_effect(1) [OF d ok] db_ok_update(10) db_okD(10) by (simp add: db'(1))
qed

end
