(* ===== verification/Fork.thy ===== *)
theory Fork
  imports Block
begin

text \<open>
  The fork database: \<^verbatim>\<open>fork_database.hpp\<close> and \<^verbatim>\<open>fork_database.cpp\<close>. An item is shared through pointers, so it
  carries its address; \<open>prev\<close> is a weak pointer, which locks to the item of that address as long
  as the index, the unlinked index or the head owns it. Items are not written after they enter the
  index, so that a copy stands for the shared object. Each index is the list of its items in the
  order of its block number view (new items after those of an equal number); its id view is unique.
  Block numbers are naturals below \<open>2 ^ 32\<close>, and \<open>header_hash\<close> is the hash function of fc.
\<close>

section \<open>State\<close>

record fork_item =
  fi_addr :: nat
  fi_prev :: "nat option"
  fi_num :: nat
  fi_id :: block_id_type
  fi_data :: signed_block

definition previous_id :: "fork_item \<Rightarrow> block_id_type" where
  "previous_id i = previous (fi_data i)"

definition make_item :: "(signed_block_header \<Rightarrow> nat) \<Rightarrow> nat \<Rightarrow> signed_block \<Rightarrow> fork_item" where
  "make_item header_hash a b =
    \<lparr>fi_addr = a, fi_prev = None, fi_num = unat (block_num b), fi_id = block_id header_hash b, fi_data = b\<rparr>"

record fork_database =
  next_addr :: nat
  max_size :: nat
  unlinked :: "fork_item list"
  linked :: "fork_item list"
  f_head :: "fork_item option"

definition new_fork_database :: fork_database where
  "new_fork_database = \<lparr>next_addr = 0, max_size = 1024, unlinked = [], linked = [], f_head = None\<rparr>"

section \<open>The multi-index container\<close>

definition find_id :: "block_id_type \<Rightarrow> fork_item list \<Rightarrow> fork_item option" where
  "find_id i xs = List.find (\<lambda>x. fi_id x = i) xs"

fun insert_by_num :: "fork_item \<Rightarrow> fork_item list \<Rightarrow> fork_item list" where
  "insert_by_num x [] = [x]"
| "insert_by_num x (y # ys) = (if fi_num x < fi_num y then x # y # ys else y # insert_by_num x ys)"

definition index_insert :: "fork_item \<Rightarrow> fork_item list \<Rightarrow> fork_item list" where
  "index_insert x xs = (if find_id (fi_id x) xs = None then insert_by_num x xs else xs)"

definition erase_below :: "nat \<Rightarrow> fork_item list \<Rightarrow> fork_item list" where
  "erase_below n xs = dropWhile (\<lambda>x. fi_num x < n) xs"

definition owners :: "fork_database \<Rightarrow> fork_item list" where
  "owners db = linked db @ unlinked db @ (case f_head db of None \<Rightarrow> [] | Some h \<Rightarrow> [h])"

definition lock_prev :: "fork_database \<Rightarrow> fork_item \<Rightarrow> fork_item option" where
  "lock_prev db i = (case fi_prev i of None \<Rightarrow> None | Some a \<Rightarrow> List.find (\<lambda>x. fi_addr x = a) (owners db))"

section \<open>Operations\<close>

definition reset :: "fork_database \<Rightarrow> fork_database" where
  "reset db = db\<lparr>f_head := None, linked := []\<rparr>"

definition pop_block :: "fork_database \<Rightarrow> fork_database exn" where
  "pop_block db =
    bindE (ofOption (assert_exception ''no blocks to pop'') (f_head db)) (\<lambda>h.
    bindE (ofOption (assert_exception ''poping block would leave head block null'') (lock_prev db h)) (\<lambda>p.
    Inr (db\<lparr>f_head := Some p\<rparr>)))"

definition start_block :: "(signed_block_header \<Rightarrow> nat) \<Rightarrow> signed_block \<Rightarrow> fork_database \<Rightarrow> fork_database" where
  "start_block header_hash b db =
    (let item = make_item header_hash (next_addr db) b
     in db\<lparr>next_addr := Suc (next_addr db), linked := index_insert item (linked db), f_head := Some item\<rparr>)"

definition link_item :: "fork_item \<Rightarrow> fork_database \<Rightarrow> fork_item exn" where
  "link_item item db =
    (if f_head db \<noteq> None \<and> previous_id item \<noteq> zero_block_id
     then bindE (ofOption unlinkable_block_exception (find_id (previous_id item) (linked db))) (\<lambda>p.
          Inr (item\<lparr>fi_prev := Some (fi_addr p)\<rparr>))
     else Inr item)"

definition push_item :: "fork_item \<Rightarrow> fork_database \<Rightarrow> fork_database exn" where
  "push_item item db =
    bindE (case f_head db of
        None \<Rightarrow> Inr ()
      | Some h \<Rightarrow> fc_assert (max 0 (int (fi_num h) - int (max_size db)) < int (fi_num item))
          ''attempting to push a block that is too old'') (\<lambda>_.
    bindE (link_item item db) (\<lambda>item.
    let db1 = db\<lparr>linked := index_insert item (linked db)\<rparr>
    in Inr (case f_head db of
         None \<Rightarrow> db1\<lparr>f_head := Some item\<rparr>
       | Some h \<Rightarrow>
           if fi_num h < fi_num item
           then
             let min_num = fi_num item - min (max_size db) (fi_num item)
             in db1\<lparr>f_head := Some item,
                    linked := erase_below min_num (linked db1),
                    unlinked := filter
                      (\<lambda>x. fi_num x \<noteq> (fi_num item + 2 ^ 32 - max_size db) mod 2 ^ 32) (unlinked db1)\<rparr>
           else db1)))"

text \<open>
  The handler of \<open>push_block\<close> logs and throws again; the statement after its \<open>throw\<close> that would
  put the block into the unlinked index is never reached.
\<close>

definition push_block ::
  "(signed_block_header \<Rightarrow> nat) \<Rightarrow> signed_block \<Rightarrow> fork_database \<Rightarrow> (fork_item option \<times> fork_database) exn" where
  "push_block header_hash b db =
    bindE (push_item (make_item header_hash (next_addr db) b) (db\<lparr>next_addr := Suc (next_addr db)\<rparr>)) (\<lambda>db'.
    Inr (f_head db', db'))"

definition erase_one :: "fork_item \<Rightarrow> fork_item list \<Rightarrow> fork_item list" where
  "erase_one x xs = filter (\<lambda>y. fi_addr y \<noteq> fi_addr x) xs"

lemma push_item_unlinked: "push_item item db = Inr db' \<Longrightarrow> length (unlinked db') \<le> length (unlinked db)"
  by (auto simp: push_item_def Let_def split: option.splits if_splits)

function push_next :: "fork_item \<Rightarrow> fork_database \<Rightarrow> fork_database exn" where
  "push_next new_item db =
    (case List.find (\<lambda>x. previous_id x = fi_id new_item) (unlinked db) of
       None \<Rightarrow> Inr db
     | Some tmp \<Rightarrow>
         bindE (push_item tmp (db\<lparr>unlinked := erase_one tmp (unlinked db)\<rparr>)) (push_next new_item))"
  by pat_completeness auto
termination
proof (relation "measure (\<lambda>(i, db). length (unlinked db))")
  fix new_item tmp and db db' :: fork_database
  assume t: "List.find (\<lambda>x. previous_id x = fi_id new_item) (unlinked db) = Some tmp"
    and p: "push_item tmp (db\<lparr>unlinked := erase_one tmp (unlinked db)\<rparr>) = Inr db'"
  have "tmp \<in> set (unlinked db)" using t by (auto simp: find_Some_iff in_set_conv_nth)
  then have "length (erase_one tmp (unlinked db)) < length (unlinked db)"
    unfolding erase_one_def by (intro length_filter_less [of tmp]) auto
  with push_item_unlinked [OF p] show "((new_item, db'), new_item, db) \<in> measure (\<lambda>(i, db). length (unlinked db))"
    by simp
qed simp

declare push_next.simps [simp del]

definition set_max_size :: "nat \<Rightarrow> fork_database \<Rightarrow> fork_database" where
  "set_max_size s db =
    (case f_head db of
       None \<Rightarrow> db\<lparr>max_size := s\<rparr>
     | Some h \<Rightarrow>
         let bound = nat (max 0 (int (fi_num h) - int s))
         in db\<lparr>max_size := s, linked := erase_below bound (linked db), unlinked := erase_below bound (unlinked db)\<rparr>)"

definition is_known_block :: "block_id_type \<Rightarrow> fork_database \<Rightarrow> bool" where
  "is_known_block i db \<longleftrightarrow> find_id i (linked db) \<noteq> None \<or> find_id i (unlinked db) \<noteq> None"

definition fetch_block :: "block_id_type \<Rightarrow> fork_database \<Rightarrow> fork_item option" where
  "fetch_block i db = (case find_id i (linked db) of Some x \<Rightarrow> Some x | None \<Rightarrow> find_id i (unlinked db))"

definition fetch_block_by_number :: "nat \<Rightarrow> fork_database \<Rightarrow> fork_item list" where
  "fetch_block_by_number n db = takeWhile (\<lambda>x. fi_num x = n) (dropWhile (\<lambda>x. fi_num x \<noteq> n) (linked db))"

definition set_head :: "fork_item \<Rightarrow> fork_database \<Rightarrow> fork_database" where
  "set_head h db = db\<lparr>f_head := Some h\<rparr>"

definition remove_block :: "block_id_type \<Rightarrow> fork_database \<Rightarrow> fork_database" where
  "remove_block i db = db\<lparr>linked := filter (\<lambda>x. fi_id x \<noteq> i) (linked db)\<rparr>"

section \<open>Branches\<close>

text \<open>
  The three loops of \<open>fetch_branch_from\<close>. Each turn follows a \<open>prev\<close> pointer; the fuel bounds the
  turns, and \<open>out_of_fuel\<close> is a value of the model only (it is never reached, see below).
\<close>

definition out_of_fuel :: error where "out_of_fuel = chain_exception ''out of fuel''"

definition lock_or_throw :: "fork_database \<Rightarrow> fork_item \<Rightarrow> fork_item exn" where
  "lock_or_throw db i = ofOption (assert_exception ''branch'') (lock_prev db i)"

fun descend :: "nat \<Rightarrow> fork_database \<Rightarrow> nat \<Rightarrow> fork_item \<Rightarrow> fork_item list \<Rightarrow> (fork_item \<times> fork_item list) exn" where
  "descend 0 db n x acc = Inl out_of_fuel"
| "descend (Suc f) db n x acc =
    (if unat (block_num (fi_data x)) > n
     then bindE (lock_or_throw db x) (\<lambda>p. descend f db n p (acc @ [x]))
     else Inr (x, acc))"

fun descend_both ::
  "nat \<Rightarrow> fork_database \<Rightarrow> fork_item \<Rightarrow> fork_item \<Rightarrow> fork_item list \<Rightarrow> fork_item list
    \<Rightarrow> (fork_item list \<times> fork_item list) exn" where
  "descend_both 0 db x y xs ys = Inl out_of_fuel"
| "descend_both (Suc f) db x y xs ys =
    (if previous (fi_data x) \<noteq> previous (fi_data y)
     then bindE (lock_or_throw db x) (\<lambda>x'.
          bindE (lock_or_throw db y) (\<lambda>y'.
          descend_both f db x' y' (xs @ [x]) (ys @ [y])))
     else Inr (xs @ [x], ys @ [y]))"

definition fetch_branch_from ::
  "block_id_type \<Rightarrow> block_id_type \<Rightarrow> fork_database \<Rightarrow> (fork_item list \<times> fork_item list) exn" where
  "fetch_branch_from first second db =
    bindE (ofOption (assert_exception ''first_branch_itr'') (find_id first (linked db))) (\<lambda>x.
    bindE (ofOption (assert_exception ''second_branch_itr'') (find_id second (linked db))) (\<lambda>y.
    bindE (descend (2 ^ 32) db (unat (block_num (fi_data y))) x []) (\<lambda>r1.
    bindE (descend (2 ^ 32) db (unat (block_num (fi_data (fst r1)))) y []) (\<lambda>r2.
    descend_both (2 ^ 32) db (fst r1) (fst r2) (snd r1) (snd r2)))))"

section \<open>Well-formed fork databases\<close>

text \<open>
  What the types of the C++ code do not say: the number and id of an item are those of its block;
  an address names one item; the index is unique by id and ordered by number; a live \<open>prev\<close> pointer
  points to the block that \<open>previous\<close> names, one number lower; and the unlinked index is empty.
\<close>

definition item_ok :: "(signed_block_header \<Rightarrow> nat) \<Rightarrow> nat \<Rightarrow> fork_item \<Rightarrow> bool" where
  "item_ok h n x \<longleftrightarrow> fi_num x = unat (block_num (fi_data x)) \<and> fi_id x = block_id h (fi_data x)
    \<and> fi_addr x < n \<and> (case fi_prev x of None \<Rightarrow> True | Some a \<Rightarrow> a < n)"

definition link_ok :: "fork_item \<Rightarrow> fork_item \<Rightarrow> bool" where
  "link_ok x p \<longleftrightarrow> fi_id p = previous_id x \<and> fi_num x = Suc (fi_num p)"

definition fork_wf :: "(signed_block_header \<Rightarrow> nat) \<Rightarrow> fork_database \<Rightarrow> bool" where
  "fork_wf h db \<longleftrightarrow>
    (\<forall>x \<in> set (owners db). item_ok h (next_addr db) x)
    \<and> (\<forall>x \<in> set (owners db). \<forall>y \<in> set (owners db). fi_addr x = fi_addr y \<longrightarrow> x = y)
    \<and> (\<forall>x \<in> set (owners db). \<forall>p \<in> set (owners db). fi_prev x = Some (fi_addr p) \<longrightarrow> link_ok x p)
    \<and> distinct (map fi_id (linked db)) \<and> sorted (map fi_num (linked db)) \<and> unlinked db = []"

lemma find_id_SomeD: "find_id i xs = Some x \<Longrightarrow> x \<in> set xs \<and> fi_id x = i"
  by (auto simp: find_id_def find_Some_iff in_set_conv_nth)

lemma find_id_None: "find_id i xs = None \<longleftrightarrow> i \<notin> fi_id ` set xs"
  by (auto simp: find_id_def find_None_iff)

lemma set_insert_by_num [simp]: "set (insert_by_num x xs) = insert x (set xs)"
  by (induction xs) auto

lemma distinct_insert_by_num: "distinct (map fi_id (insert_by_num x xs)) \<longleftrightarrow> fi_id x \<notin> fi_id ` set xs \<and> distinct (map fi_id xs)"
  by (induction xs) auto

lemma sorted_insert_by_num: "sorted (map fi_num xs) \<Longrightarrow> sorted (map fi_num (insert_by_num x xs))"
  by (induction xs) (auto simp: less_imp_le)

lemma index_insert_ok:
  assumes "distinct (map fi_id xs)" "sorted (map fi_num xs)"
  shows "distinct (map fi_id (index_insert x xs))" "sorted (map fi_num (index_insert x xs))"
    "set (index_insert x xs) \<subseteq> insert x (set xs)"
  using assms by (auto simp: index_insert_def distinct_insert_by_num sorted_insert_by_num find_id_None)

lemma erase_below_filter: "sorted (map fi_num xs) \<Longrightarrow> erase_below n xs = filter (\<lambda>x. n \<le> fi_num x) xs"
proof (induction xs)
  case (Cons x xs)
  then have "\<forall>y \<in> set xs. fi_num x \<le> fi_num y" by auto
  with Cons show ?case by (auto simp: erase_below_def not_less intro!: filter_True [symmetric])
qed (simp add: erase_below_def)

lemma filter_ok:
  assumes "distinct (map fi_id xs)" "sorted (map fi_num xs)"
  shows "distinct (map fi_id (filter P xs))" "sorted (map fi_num (filter P xs))"
  using assms by (auto simp: distinct_map inj_on_def intro: sorted_filter)

lemma fork_wf_subset:
  assumes "fork_wf h db" "set (owners db') \<subseteq> set (owners db)" "next_addr db \<le> next_addr db'"
    and "distinct (map fi_id (linked db'))" "sorted (map fi_num (linked db'))" "unlinked db' = []"
  shows "fork_wf h db'"
proof -
  have "item_ok h (next_addr db') x" if "x \<in> set (owners db')" for x
    using that assms(1-3) by (fastforce simp: fork_wf_def item_ok_def split: option.splits)
  then show ?thesis using assms unfolding fork_wf_def by blast
qed

text \<open>A new item with a fresh address, linked to an item of the index or to none, keeps the invariant.\<close>

lemma fork_wf_add:
  assumes wf: "fork_wf h db" and sub: "set (owners db') \<subseteq> insert x (set (owners db))"
    and n: "next_addr db' = Suc (next_addr db)" "fi_addr x = next_addr db"
    and x: "item_ok h (next_addr db') x"
    and link: "fi_prev x = None \<or> (\<exists>p \<in> set (owners db). fi_prev x = Some (fi_addr p) \<and> link_ok x p)"
    and lst: "distinct (map fi_id (linked db'))" "sorted (map fi_num (linked db'))" "unlinked db' = []"
  shows "fork_wf h db'"
proof -
  have old: "\<forall>y \<in> set (owners db). item_ok h (next_addr db) y"
    "\<forall>y \<in> set (owners db). \<forall>z \<in> set (owners db). fi_addr y = fi_addr z \<longrightarrow> y = z"
    "\<forall>y \<in> set (owners db). \<forall>p \<in> set (owners db). fi_prev y = Some (fi_addr p) \<longrightarrow> link_ok y p"
    using wf by (auto simp: fork_wf_def)
  have items: "item_ok h (next_addr db') y" if "y \<in> set (owners db')" for y
    using that sub x old(1) by (fastforce simp: item_ok_def n split: option.splits)
  have addr: "y = z" if "y \<in> set (owners db')" "z \<in> set (owners db')" "fi_addr y = fi_addr z" for y z
    proof -
    have "y \<in> set (owners db) \<or> y = x" "z \<in> set (owners db) \<or> z = x" using that(1,2) sub by auto
    moreover have "fi_addr w \<noteq> fi_addr x" if "w \<in> set (owners db)" for w
      using that old(1) n(2) by (fastforce simp: item_ok_def)
    ultimately show ?thesis using that(3) old(2) by metis
  qed
  have "link_ok y p" if "y \<in> set (owners db')" "p \<in> set (owners db')" "fi_prev y = Some (fi_addr p)" for y p
  proof (cases "p \<in> set (owners db)")
    case True
    show ?thesis
    proof (cases "y \<in> set (owners db)")
      case False
      then have "y = x" using that(1) sub by auto
      then show ?thesis using link that(3) old(2) True by auto
    qed (use old(3) that True in blast)
  next
    case False
    then have p: "p = x" using that(2) sub by auto
    have "y \<notin> set (owners db)" using that(3) old(1) n by (fastforce simp: item_ok_def p)
    then have "y = x" using that(1) sub by auto
    then show ?thesis using link that(3) old(1) n by (fastforce simp: item_ok_def p)
  qed
  then show ?thesis using items addr lst unfolding fork_wf_def by blast
qed

lemma fork_wf_lists: "fork_wf h db \<Longrightarrow> distinct (map fi_id (linked db)) \<and> sorted (map fi_num (linked db)) \<and> unlinked db = []"
  by (simp add: fork_wf_def)

lemma owners_set: "set (owners db) = set (linked db) \<union> set (unlinked db) \<union> set_option (f_head db)"
  by (auto simp: owners_def split: option.split)

lemma lock_prev_SomeD: "lock_prev db x = Some p \<Longrightarrow> p \<in> set (owners db) \<and> fi_prev x = Some (fi_addr p)"
  by (auto simp: lock_prev_def find_Some_iff in_set_conv_nth split: option.splits)

lemma lock_prev_link:
  "fork_wf h db \<Longrightarrow> x \<in> set (owners db) \<Longrightarrow> lock_prev db x = Some p \<Longrightarrow> p \<in> set (owners db) \<and> link_ok x p"
  unfolding fork_wf_def by (blast dest: lock_prev_SomeD)

lemma fork_wf_new [simp]: "fork_wf h new_fork_database"
  by (simp add: fork_wf_def new_fork_database_def owners_def)

lemma item_ok_make: "item_ok h (Suc a) (make_item h a b)"
  by (simp add: item_ok_def make_item_def)

lemma wf_start_block:
  assumes "fork_wf h db"
  shows "fork_wf h (start_block h b db)"
proof -
  let ?x = "make_item h (next_addr db) b"
  note l = fork_wf_lists [OF assms]
  note ins = index_insert_ok [of "linked db" ?x]
  show ?thesis
  proof (rule fork_wf_add [OF assms, where x = ?x])
    show "item_ok h (next_addr (start_block h b db)) ?x" by (simp add: start_block_def Let_def item_ok_make)
  qed (use l ins in \<open>auto simp: start_block_def Let_def owners_set make_item_def\<close>)
qed

lemma wf_pop_block: "fork_wf h db \<Longrightarrow> pop_block db = Inr db' \<Longrightarrow> fork_wf h db'"
  by (rule fork_wf_subset [of h db]) (use fork_wf_lists [of h db] in \<open>auto simp: pop_block_def owners_set dest!: lock_prev_SomeD\<close>)

lemma wf_set_head: "fork_wf h db \<Longrightarrow> x \<in> set (linked db) \<Longrightarrow> fork_wf h (set_head x db)"
  by (rule fork_wf_subset [of h db]) (use fork_wf_lists [of h db] in \<open>auto simp: set_head_def owners_set\<close>)

lemma wf_remove_block: "fork_wf h db \<Longrightarrow> fork_wf h (remove_block i db)"
  by (rule fork_wf_subset [of h db])
    (use fork_wf_lists [of h db] filter_ok [of "linked db"] in \<open>auto simp: remove_block_def owners_set\<close>)

lemma wf_reset: "fork_wf h db \<Longrightarrow> fork_wf h (reset db)"
  by (rule fork_wf_subset [of h db]) (use fork_wf_lists [of h db] in \<open>auto simp: reset_def owners_set\<close>)

lemma wf_set_max_size:
  assumes "fork_wf h db"
  shows "fork_wf h (set_max_size n db)"
proof -
  note l = fork_wf_lists [OF assms]
  have "erase_below k (linked db) = filter (\<lambda>x. k \<le> fi_num x) (linked db)" for k
    using l by (simp add: erase_below_filter)
  then show ?thesis
    by (intro fork_wf_subset [OF assms])
      (use l filter_ok [of "linked db"] in \<open>auto simp: set_max_size_def owners_set Let_def erase_below_def split: option.splits\<close>)
qed

lemma unat_succ: "unat (w + 1 :: 32 word) \<noteq> 0 \<Longrightarrow> unat (w + 1) = Suc (unat w)"
  by (metis add.commute unatSuc unat_0)

lemma link_item_link_ok:
  assumes wf: "fork_wf h db" and l: "link_item (make_item h a b) db = Inr x" and n: "f_head db \<noteq> None \<Longrightarrow> 0 < unat (block_num b)"
  shows "fi_prev x = None \<or> (\<exists>p \<in> set (owners db). fi_prev x = Some (fi_addr p) \<and> link_ok x p)"
    and "x = (make_item h a b)\<lparr>fi_prev := fi_prev x\<rparr>"
proof -
  let ?i = "make_item h a b"
  have "(fi_prev x = None \<or> (\<exists>p \<in> set (owners db). fi_prev x = Some (fi_addr p) \<and> link_ok x p))
    \<and> x = ?i\<lparr>fi_prev := fi_prev x\<rparr>"
  proof (cases "f_head db \<noteq> None \<and> previous_id ?i \<noteq> zero_block_id")
    case True
    then obtain p where p: "find_id (previous_id ?i) (linked db) = Some p" "x = ?i\<lparr>fi_prev := Some (fi_addr p)\<rparr>"
      using l by (auto simp: link_item_def)
    then have mem: "p \<in> set (owners db)" and pid: "fi_id p = previous b"
      using find_id_SomeD [OF p(1)] by (auto simp: owners_set previous_id_def make_item_def)
    have "fi_num p = unat (id_num (previous b))"
      using wf mem pid by (auto simp: fork_wf_def item_ok_def block_id_def split: option.splits dest!: bspec) (metis block_id_type.sel(1))+
    moreover have "unat (block_num b) \<noteq> 0" using n True by auto
    ultimately have "unat (block_num b) = Suc (fi_num p)" by (simp add: block_num_def num_from_id_def unat_succ)
    then have "link_ok x p" using pid by (simp add: link_ok_def p(2) previous_id_def make_item_def)
    then show ?thesis using mem p(2) by auto
  next
    case False
    then have "x = ?i" using l by (auto simp: link_item_def)
    then show ?thesis by (simp add: make_item_def)
  qed
  then show "fi_prev x = None \<or> (\<exists>p \<in> set (owners db). fi_prev x = Some (fi_addr p) \<and> link_ok x p)"
    and "x = ?i\<lparr>fi_prev := fi_prev x\<rparr>" by auto
qed

text \<open>What a successful push of the item \<open>x\<close> does to the fork database.\<close>

definition pushed :: "fork_database \<Rightarrow> fork_item \<Rightarrow> fork_database \<Rightarrow> bool" where
  "pushed db x db' \<longleftrightarrow> (case f_head db of
       None \<Rightarrow> f_head db' = Some x \<and> linked db' = index_insert x (linked db)
     | Some t \<Rightarrow> fi_num t < fi_num x + max_size db \<and> 0 < fi_num x \<and>
         (if fi_num t < fi_num x
          then f_head db' = Some x \<and> linked db' =
            filter (\<lambda>y. fi_num x \<le> fi_num y + max_size db) (index_insert x (linked db))
          else f_head db' = Some t \<and> linked db' = index_insert x (linked db)))"

lemma push_block_effect:
  assumes "push_block h b db = Inr (r, db')" and wf: "fork_wf h db"
  obtains x where "r = f_head db'" "x = (make_item h (next_addr db) b)\<lparr>fi_prev := fi_prev x\<rparr>"
    "fi_prev x = None \<or> (\<exists>p \<in> set (owners db). fi_prev x = Some (fi_addr p) \<and> link_ok x p)"
    "next_addr db' = Suc (next_addr db)" "max_size db' = max_size db" "unlinked db' = []"
    "pushed db x db'"
proof -
  let ?i = "make_item h (next_addr db) b" and ?db = "db\<lparr>next_addr := Suc (next_addr db)\<rparr>"
  have p: "push_item ?i ?db = Inr db'" and r: "r = f_head db'" using assms(1) by (auto simp: push_block_def)
  then obtain x where x: "link_item ?i ?db = Inr x" by (auto simp: push_item_def)
  have i: "fi_num ?i = unat (block_num b)" by (simp add: make_item_def)
  have "case f_head db of None \<Rightarrow> True | Some t \<Rightarrow> fi_num t < fi_num ?i + max_size db \<and> 0 < fi_num ?i"
    using p by (auto simp: push_item_def split: option.splits)
  then have guard: "case f_head db of None \<Rightarrow> True | Some t \<Rightarrow> fi_num t < unat (block_num b) + max_size db \<and> 0 < unat (block_num b)"
    by (simp only: i)
  have wf0: "fork_wf h ?db"
    by (rule fork_wf_subset [OF wf]) (use fork_wf_lists [OF wf] in \<open>auto simp: owners_set\<close>)
  have pos: "f_head ?db \<noteq> None \<Longrightarrow> 0 < unat (block_num b)" using guard by auto
  note lk = link_item_link_ok [OF wf0 x pos]
  have num: "fi_num x = unat (block_num b)" using arg_cong [OF lk(2), of fi_num] i by simp
  have "sorted (map fi_num (index_insert x (linked db)))"
    using fork_wf_lists [OF wf] index_insert_ok(2) by blast
  then have er: "erase_below k (index_insert x (linked db)) = filter (\<lambda>y. k \<le> fi_num y) (index_insert x (linked db))" for k
    by (rule erase_below_filter)
  have "fi_num x - min (max_size db) (fi_num x) \<le> k \<longleftrightarrow> fi_num x \<le> k + max_size db" for k by linarith
  with er have er2: "erase_below (fi_num x - min (max_size db) (fi_num x)) (index_insert x (linked db))
      = filter (\<lambda>y. fi_num x \<le> fi_num y + max_size db) (index_insert x (linked db))" by simp
  show thesis
  proof (rule that [OF r lk(2)])
    show "fi_prev x = None \<or> (\<exists>p \<in> set (owners db). fi_prev x = Some (fi_addr p) \<and> link_ok x p)"
      using lk(1) by (simp add: owners_set)
    show "pushed db x db'"
      using p x guard er2 by (auto simp: pushed_def push_item_def num Let_def split: option.splits)
  qed (use p x fork_wf_lists [OF wf] in \<open>auto simp: push_item_def Let_def split: option.splits if_splits\<close>)
qed

lemma wf_push_block:
  assumes "fork_wf h db" "push_block h b db = Inr (r, db')"
  shows "fork_wf h db'"
proof -
  from assms(2,1) obtain x where x: "x = (make_item h (next_addr db) b)\<lparr>fi_prev := fi_prev x\<rparr>"
    "fi_prev x = None \<or> (\<exists>p \<in> set (owners db). fi_prev x = Some (fi_addr p) \<and> link_ok x p)"
    "next_addr db' = Suc (next_addr db)" "unlinked db' = []"
    and l: "pushed db x db'"
    by (rule push_block_effect) blast
  note ins = index_insert_ok [of "linked db" x] fork_wf_lists [OF assms(1)]
  have sub: "set (linked db') \<subseteq> insert x (set (linked db))" "set_option (f_head db') \<subseteq> insert x (set_option (f_head db))"
    using l ins by (auto simp: pushed_def split: option.splits if_splits)
  show ?thesis
  proof (rule fork_wf_add [OF assms(1), where x = x])
    show "set (owners db') \<subseteq> insert x (set (owners db))" using sub x(4) by (auto simp: owners_set)
    show "fi_addr x = next_addr db" by (subst x(1)) (simp add: make_item_def)
    have "case fi_prev x of None \<Rightarrow> True | Some a \<Rightarrow> a < Suc (next_addr db)"
      using x(2) assms(1) by (fastforce simp: fork_wf_def item_ok_def split: option.splits)
    then show "item_ok h (next_addr db') x"
      by (subst x(1)) (simp add: x(3) item_ok_def make_item_def)
    show "distinct (map fi_id (linked db'))" "sorted (map fi_num (linked db'))"
      using l ins filter_ok [of "index_insert x (linked db)"] by (auto simp: pushed_def split: option.splits if_splits)
  qed (use x in auto)
qed

section \<open>Reachable fork databases\<close>

text \<open>
  The calls that \<^verbatim>\<open>database\<close> makes, as a step relation; \<open>set_head\<close> is called with an item of the index.
\<close>

inductive fork_step :: "(signed_block_header \<Rightarrow> nat) \<Rightarrow> fork_database \<Rightarrow> fork_database \<Rightarrow> bool"
  for h where
  push: "push_block h b db = Inr (r, db') \<Longrightarrow> fork_step h db db'"
| start: "fork_step h db (start_block h b db)"
| pop: "pop_block db = Inr db' \<Longrightarrow> fork_step h db db'"
| head: "x \<in> set (linked db) \<Longrightarrow> fork_step h db (set_head x db)"
| remove: "fork_step h db (remove_block i db)"
| size: "fork_step h db (set_max_size n db)"
| reset: "fork_step h db (reset db)"

inductive fork_reachable :: "(signed_block_header \<Rightarrow> nat) \<Rightarrow> fork_database \<Rightarrow> bool"
  for h where
  init: "fork_reachable h new_fork_database"
| step: "fork_reachable h db \<Longrightarrow> fork_step h db db' \<Longrightarrow> fork_reachable h db'"

lemma fork_step_wf: "fork_step h db db' \<Longrightarrow> fork_wf h db \<Longrightarrow> fork_wf h db'"
  by (induction rule: fork_step.induct)
    (auto intro: wf_push_block wf_start_block wf_pop_block wf_set_head wf_remove_block wf_set_max_size wf_reset)

lemma fork_reachable_wf_aux: "fork_reachable h db \<Longrightarrow> fork_wf h db"
  by (induction rule: fork_reachable.induct) (auto intro: fork_step_wf)

text \<open>C21: Every fork database that the operations can reach is well formed: each item carries the
number and id of its block, an address names one item, the index is unique by id and ordered by
number, each live \<open>prev\<close> pointer leads to the block that \<open>previous\<close> names and whose number is one
lower, and the cache of unlinked blocks, which the header announces, stays empty.\<close>

theorem fork_database_well_formed:
  "fork_reachable header_hash db \<Longrightarrow> fork_wf header_hash db"
  by (rule fork_reachable_wf_aux)

definition demo_fork_block :: "block_id_type \<Rightarrow> nat \<Rightarrow> signed_block" where
  "demo_fork_block p t = \<lparr>previous = p, timestamp = t, block_witness = 0, transaction_merkle_root = 0,
     witness_signature = 0, transactions = []\<rparr>"

definition demo_hash :: "signed_block_header \<Rightarrow> nat" where
  "demo_hash x = timestamp x"

text \<open>A root block and two blocks on it, so that the tree has two forks.\<close>

definition demo_item :: "nat \<Rightarrow> fork_item" where
  "demo_item k = (if k = 0 then make_item demo_hash 0 (demo_fork_block zero_block_id 10)
     else (make_item demo_hash k (demo_fork_block (Block_id 1 10) (10 + 10 * k)))\<lparr>fi_prev := Some 0\<rparr>)"

definition demo_forks :: fork_database where
  "demo_forks = \<lparr>next_addr = 3, max_size = 1024, unlinked = [],
     linked = [demo_item 0, demo_item 1, demo_item 2], f_head = Some (demo_item 1)\<rparr>"

definition demo_fork1 :: fork_database where
  "demo_fork1 = \<lparr>next_addr = 1, max_size = 1024, unlinked = [], linked = [demo_item 0], f_head = Some (demo_item 0)\<rparr>"

definition demo_fork2 :: fork_database where
  "demo_fork2 = \<lparr>next_addr = 2, max_size = 1024, unlinked = [], linked = [demo_item 0, demo_item 1],
     f_head = Some (demo_item 1)\<rparr>"

lemmas demo_item_eval = demo_item_def make_item_def block_id_def block_num_def num_from_id_def zero_block_id_def
  demo_hash_def demo_fork_block_def signed_block_header.truncate_def

lemma demo_item_simps [simp]:
  "fi_addr (demo_item k) = k" "fi_prev (demo_item k) = (if k = 0 then None else Some 0)"
  "fi_num (demo_item k) = (if k = 0 then 1 else 2)"
  "fi_id (demo_item k) = (if k = 0 then Block_id 1 10 else Block_id 2 (10 + 10 * k))"
  "previous_id (demo_item k) = (if k = 0 then Block_id 0 0 else Block_id 1 10)"
  "previous (fi_data (demo_item k)) = (if k = 0 then Block_id 0 0 else Block_id 1 10)"
  by (simp_all add: demo_item_eval previous_id_def)

lemma demo_make_item:
  "make_item demo_hash 0 (demo_fork_block (Block_id 0 0) 10) = demo_item 0"
  "link_item (make_item demo_hash 1 (demo_fork_block (Block_id 1 10) 20)) (demo_fork1\<lparr>next_addr := 2\<rparr>) = Inr (demo_item 1)"
  "link_item (make_item demo_hash 2 (demo_fork_block (Block_id 1 10) 30)) (demo_fork2\<lparr>next_addr := 3\<rparr>) = Inr (demo_item 2)"
  "fi_num (make_item demo_hash k (demo_fork_block (Block_id 1 10) t)) = 2"
  by (simp_all add: demo_item_def zero_block_id_def link_item_def demo_fork1_def demo_fork2_def find_id_def)
    (simp_all add: demo_item_eval previous_id_def)

lemmas fork_eval = push_block_def push_item_def index_insert_def find_id_def erase_below_def Let_def

lemma demo_push1: "push_block demo_hash (demo_fork_block (Block_id 0 0) 10) new_fork_database = Inr (f_head demo_fork1, demo_fork1)"
  by (simp add: fork_eval new_fork_database_def demo_make_item link_item_def demo_fork1_def)

lemma demo_push2: "push_block demo_hash (demo_fork_block (Block_id 1 10) 20) demo_fork1 = Inr (f_head demo_fork2, demo_fork2)"
  using demo_make_item(2,4) by (simp add: fork_eval demo_fork1_def demo_fork2_def numeral_2_eq_2)

lemma demo_push3: "push_block demo_hash (demo_fork_block (Block_id 1 10) 30) demo_fork2 = Inr (f_head demo_forks, demo_forks)"
proof -
  have d: "f_head demo_fork2 = Some (demo_item 1)" "max_size demo_fork2 = 1024" "next_addr demo_fork2 = 2"
    "linked demo_fork2 = [demo_item 0, demo_item 1]"
    by (simp_all add: demo_fork2_def)
  have "index_insert (demo_item 2) [demo_item 0, demo_item 1] = [demo_item 0, demo_item 1, demo_item 2]"
    by (simp add: index_insert_def find_id_def)
  then have "push_item (make_item demo_hash 2 (demo_fork_block (Block_id 1 10) 30)) (demo_fork2\<lparr>next_addr := 3\<rparr>) = Inr demo_forks"
    by (simp add: push_item_def d demo_make_item(3,4) Let_def) (simp add: demo_fork2_def demo_forks_def)
  then show ?thesis by (simp add: push_block_def d)
qed

lemma demo_forks_reachable: "fork_reachable demo_hash demo_forks"
  by (rule fork_reachable.step [OF fork_reachable.step [OF fork_reachable.step [OF fork_reachable.init
    fork_step.push [OF demo_push1]] fork_step.push [OF demo_push2]] fork_step.push [OF demo_push3]])

theorem fork_database_well_formed_witness: "fork_wf demo_hash demo_forks \<and> length (linked demo_forks) = 3"
  using fork_database_well_formed [OF demo_forks_reachable] by (simp add: demo_forks_def)

section \<open>The longest fork and the window\<close>

inductive fork_grows :: "(signed_block_header \<Rightarrow> nat) \<Rightarrow> fork_database \<Rightarrow> bool"
  for h where
  init: "fork_grows h new_fork_database"
| push: "fork_grows h db \<Longrightarrow> push_block h b db = Inr (r, db') \<Longrightarrow> fork_grows h db'"
| size: "fork_grows h db \<Longrightarrow> fork_grows h (set_max_size n db)"

lemma fork_grows_reachable: "fork_grows h db \<Longrightarrow> fork_reachable h db"
  by (induction rule: fork_grows.induct) (auto intro: fork_reachable.intros fork_step.intros)

definition in_window :: "fork_database \<Rightarrow> bool" where
  "in_window db \<longleftrightarrow> (case f_head db of
     None \<Rightarrow> linked db = []
   | Some t \<Rightarrow> t \<in> set (linked db)
       \<and> (\<forall>x \<in> set (linked db). fi_num x \<le> fi_num t \<and> fi_num t \<le> fi_num x + max_size db))"

lemma fork_wf_num: "fork_wf h db \<Longrightarrow> x \<in> set (owners db) \<Longrightarrow> fi_num x = unat (id_num (fi_id x))"
  by (auto simp: fork_wf_def item_ok_def block_id_def)

lemma index_insert_new:
  assumes "fork_wf h db" "\<forall>y \<in> set (linked db). fi_num y < unat (id_num (fi_id x))"
  shows "set (index_insert x (linked db)) = insert x (set (linked db))"
proof -
  have "fi_id y \<noteq> fi_id x" if "y \<in> set (linked db)" for y
    using assms(2) that fork_wf_num [OF assms(1), of y] by (fastforce simp: owners_set)
  then have "fi_id x \<notin> fi_id ` set (linked db)" by (metis imageE)
  then show ?thesis by (simp add: index_insert_def find_id_None [THEN iffD2])
qed

lemma in_window_push:
  assumes w: "in_window db" and wf: "fork_wf h db" and p: "push_block h b db = Inr (r, db')"
  shows "in_window db'"
proof -
  from p wf obtain x where x: "x = (make_item h (next_addr db) b)\<lparr>fi_prev := fi_prev x\<rparr>"
    "max_size db' = max_size db" and l: "pushed db x db'"
    by (rule push_block_effect) blast
  have num: "unat (id_num (fi_id x)) = fi_num x"
    by (subst (2) x(1), subst x(1)) (simp add: make_item_def block_id_def)
  show ?thesis
  proof (cases "f_head db")
    case None
    then have "linked db = []" using w by (simp add: in_window_def)
    then show ?thesis using l None by (simp add: in_window_def pushed_def index_insert_def find_id_def)
  next
    case (Some t)
    then have t: "t \<in> set (linked db)" "\<forall>y \<in> set (linked db). fi_num y \<le> fi_num t \<and> fi_num t \<le> fi_num y + max_size db"
      using w by (auto simp: in_window_def)
    have sub: "set (index_insert x (linked db)) \<subseteq> insert x (set (linked db))"
      using index_insert_ok(3) fork_wf_lists [OF wf] by blast
    show ?thesis
    proof (cases "fi_num t < fi_num x")
      case True
      then have "\<forall>y \<in> set (linked db). fi_num y < unat (id_num (fi_id x))" using t(2) num by fastforce
      then have "set (index_insert x (linked db)) = insert x (set (linked db))" by (rule index_insert_new [OF wf])
      then show ?thesis using l Some True t x(2) by (auto simp: in_window_def pushed_def)
    next
      case False
      have "set (linked db) \<subseteq> set (index_insert x (linked db))" by (auto simp: index_insert_def)
      then show ?thesis using l Some False t x(2) sub by (auto simp: in_window_def pushed_def)
    qed
  qed
qed

lemma in_window_size: "in_window db \<Longrightarrow> fork_wf h db \<Longrightarrow> in_window (set_max_size n db)"
  using fork_wf_lists [of h db]
  by (auto simp: in_window_def set_max_size_def Let_def erase_below_filter nat_le_iff split: option.splits)

text \<open>C20: While blocks are only pushed and the window is only resized, whatever the order of the
blocks and forks, the head is in the index and is a highest block of it, no block of the index is
more than the window size below the head, and a push returns the new head; an empty database has an
empty index.\<close>

theorem head_is_longest_fork:
  assumes "fork_grows header_hash db"
  shows "(case f_head db of
      None \<Rightarrow> linked db = []
    | Some t \<Rightarrow> t \<in> set (linked db)
        \<and> (\<forall>x \<in> set (linked db). fi_num x \<le> fi_num t \<and> fi_num t \<le> fi_num x + max_size db))
    \<and> (\<forall>b r db'. push_block header_hash b db = Inr (r, db') \<longrightarrow> r = f_head db' \<and> r \<noteq> None)"
proof -
  have "in_window db"
    using assms
  proof (induction rule: fork_grows.induct)
    case init
    then show ?case by (simp add: in_window_def new_fork_database_def)
  next
    case (push db b r db')
    then show ?case using in_window_push fork_reachable_wf_aux fork_grows_reachable by blast
  next
    case (size db n)
    then show ?case using in_window_size fork_reachable_wf_aux fork_grows_reachable by blast
  qed
  moreover have "r = f_head db' \<and> r \<noteq> None" if "push_block header_hash b db = Inr (r, db')" for b r db'
    using that by (auto simp: push_block_def push_item_def Let_def split: option.splits if_splits)
  ultimately show ?thesis by (auto simp: in_window_def)
qed

lemma demo_forks_grow: "fork_grows demo_hash demo_forks"
  by (rule fork_grows.push [OF fork_grows.push [OF fork_grows.push [OF fork_grows.init demo_push1] demo_push2] demo_push3])

theorem head_is_longest_fork_witness: "\<exists>t. f_head demo_forks = Some t \<and> (\<forall>x \<in> set (linked demo_forks). fi_num x \<le> fi_num t)"
  using head_is_longest_fork [OF demo_forks_grow] by (auto split: option.splits simp: demo_forks_def)

section \<open>Branches to a common ancestor\<close>

text \<open>\<open>follows y x\<close>: the block that \<open>x\<close> builds on is \<open>y\<close>. A branch lists blocks from the tip down.\<close>

definition follows :: "fork_item \<Rightarrow> fork_item \<Rightarrow> bool" where
  "follows x y \<longleftrightarrow> fi_id y = previous_id x \<and> fi_num x = Suc (fi_num y)"

fun is_branch :: "fork_item list \<Rightarrow> bool" where
  "is_branch (x # y # ys) \<longleftrightarrow> follows x y \<and> is_branch (y # ys)"
| "is_branch _ \<longleftrightarrow> True"

text \<open>\<open>ancestor db x p\<close>: following live \<open>prev\<close> pointers from \<open>x\<close> leads to \<open>p\<close>.\<close>

inductive ancestor :: "fork_database \<Rightarrow> fork_item \<Rightarrow> fork_item \<Rightarrow> bool" for db where
  here: "ancestor db x x"
| up: "lock_prev db x = Some y \<Longrightarrow> ancestor db y p \<Longrightarrow> ancestor db x p"

inductive_cases ancestorE: "ancestor db x p"

lemma lock_follows:
  "fork_wf h db \<Longrightarrow> x \<in> set (owners db) \<Longrightarrow> lock_prev db x = Some y \<Longrightarrow> y \<in> set (owners db) \<and> follows x y"
  using lock_prev_link [of h db x y] by (auto simp: follows_def link_ok_def)

lemma lock_or_throw_eq [simp]: "lock_or_throw db x = Inr y \<longleftrightarrow> lock_prev db x = Some y"
  by (simp add: lock_or_throw_def)

lemma owner_num: "fork_wf h db \<Longrightarrow> x \<in> set (owners db) \<Longrightarrow> unat (block_num (fi_data x)) = fi_num x"
  by (auto simp: fork_wf_def item_ok_def)

lemma ancestor_num:
  "ancestor db x p \<Longrightarrow> fork_wf h db \<Longrightarrow> x \<in> set (owners db) \<Longrightarrow>
    p \<in> set (owners db) \<and> fi_num p \<le> fi_num x \<and> (fi_num p = fi_num x \<longrightarrow> p = x)"
proof (induction rule: ancestor.induct)
  case (up x y p)
  then show ?case using lock_follows [OF up.prems up.hyps(1)] by (auto simp: follows_def)
qed simp

lemma ancestor_step:
  "ancestor db x p \<Longrightarrow> x \<noteq> p \<Longrightarrow> \<exists>y. lock_prev db x = Some y \<and> ancestor db y p"
  by (auto elim: ancestorE)

text \<open>The first two loops: go down to the given number.\<close>

lemma descend_correct:
  assumes "descend f db n x acc = Inr (y, acc')" "fork_wf h db" "x \<in> set (owners db)"
  shows "\<exists>ys. acc' = acc @ ys \<and> is_branch (ys @ [y]) \<and> hd (ys @ [y]) = x \<and> y \<in> set (owners db)
    \<and> fi_num y = min n (fi_num x) \<and> (\<forall>z \<in> set ys. n < fi_num z \<and> z \<in> set (owners db))"
  using assms
proof (induction f db n x acc rule: descend.induct)
  case (2 f db n x acc)
  show ?case
  proof (cases "n < fi_num x")
    case True
    then obtain x' where x': "lock_prev db x = Some x'" "descend f db n x' (acc @ [x]) = Inr (y, acc')"
      using 2(2) owner_num [OF 2(3,4)] by auto
    have o: "x' \<in> set (owners db)" "follows x x'" using lock_follows [OF 2(3,4) x'(1)] by auto
    have "unat (block_num (fi_data x)) > n" using True owner_num [OF 2(3,4)] by simp
    then obtain ys where ys: "acc' = (acc @ [x]) @ ys" "is_branch (ys @ [y])" "hd (ys @ [y]) = x'" "y \<in> set (owners db)"
      "fi_num y = min n (fi_num x')" "\<forall>z \<in> set ys. n < fi_num z \<and> z \<in> set (owners db)"
      using 2(1) [OF _ _ x'(2) 2(3) o(1)] x'(1) by auto
    have "is_branch (x # ys @ [y])" using ys(2,3) o(2) by (cases ys) auto
    moreover have "fi_num y = min n (fi_num x)" using ys(5) o(2) True by (auto simp: follows_def)
    ultimately show ?thesis using ys True 2(4) by (intro exI [of _ "x # ys"]) auto
  next
    case False
    then show ?thesis using 2(2,4) owner_num [OF 2(3,4)] by (intro exI [of _ "[]"]) auto
  qed
qed simp

lemma descend_total:
  assumes "fork_wf h db" "x \<in> set (owners db)" "fi_num x < f"
  shows "descend f db n x acc \<noteq> Inl out_of_fuel"
    and "ancestor db x p \<Longrightarrow> fi_num p \<le> n \<Longrightarrow> \<exists>y acc'. descend f db n x acc = Inr (y, acc') \<and> ancestor db y p"
proof -
  have "descend f db n x acc \<noteq> Inl out_of_fuel \<and>
    (ancestor db x p \<longrightarrow> fi_num p \<le> n \<longrightarrow> (\<exists>y acc'. descend f db n x acc = Inr (y, acc') \<and> ancestor db y p))"
    using assms
  proof (induction f db n x acc rule: descend.induct)
    case (2 f db n x acc)
    show ?case
    proof (cases "n < fi_num x")
      case True
      then have gt: "unat (block_num (fi_data x)) > n" using owner_num [OF 2(2,3)] by simp
      have IH: "descend f db n y (acc @ [x]) \<noteq> Inl out_of_fuel \<and>
          (ancestor db y p \<longrightarrow> fi_num p \<le> n \<longrightarrow> (\<exists>z acc'. descend f db n y (acc @ [x]) = Inr (z, acc') \<and> ancestor db z p))"
        if "lock_prev db x = Some y" for y
        using 2(1) [OF gt _ 2(2)] that lock_follows [OF 2(2,3) that] 2(4) by (auto simp: follows_def)
      have up: "\<exists>y. lock_prev db x = Some y \<and> ancestor db y p" if "ancestor db x p" "fi_num p \<le> n"
        using ancestor_step [OF that(1)] that(2) True by fastforce
      show ?thesis using gt IH up
        by (cases "lock_prev db x") (fastforce simp: lock_or_throw_def out_of_fuel_def)+
    next
      case False
      then show ?thesis using owner_num [OF 2(2,3)] by simp
    qed
  qed simp
  then show "descend f db n x acc \<noteq> Inl out_of_fuel"
    and "ancestor db x p \<Longrightarrow> fi_num p \<le> n \<Longrightarrow> \<exists>y acc'. descend f db n x acc = Inr (y, acc') \<and> ancestor db y p"
    by auto
qed

text \<open>The third loop: go down on both sides until the blocks build on the same one.\<close>

lemma descend_both_correct:
  assumes "descend_both f db x y xs ys = Inr (bx, by')" "fork_wf h db" "x \<in> set (owners db)" "y \<in> set (owners db)"
    and "fi_num x = fi_num y"
  shows "\<exists>us vs. bx = xs @ us \<and> by' = ys @ vs \<and> length us = length vs \<and> us \<noteq> []
    \<and> is_branch us \<and> is_branch vs \<and> hd us = x \<and> hd vs = y \<and> previous_id (last us) = previous_id (last vs)
    \<and> (\<forall>i. Suc i < length us \<longrightarrow> previous_id (us ! i) \<noteq> previous_id (vs ! i))
    \<and> set us \<subseteq> set (owners db) \<and> set vs \<subseteq> set (owners db)"
  using assms
proof (induction f db x y xs ys rule: descend_both.induct)
  case (2 f db x y xs ys)
  show ?case
  proof (cases "previous (fi_data x) = previous (fi_data y)")
    case True
    then show ?thesis using 2(2,4,5) by (intro exI [of _ "[x]"] exI [of _ "[y]"]) (auto simp: previous_id_def)
  next
    case False
    then obtain x' y' where l: "lock_prev db x = Some x'" "lock_prev db y = Some y'"
      and r: "descend_both f db x' y' (xs @ [x]) (ys @ [y]) = Inr (bx, by')"
      using 2(2) by auto
    have o: "x' \<in> set (owners db)" "follows x x'" "y' \<in> set (owners db)" "follows y y'"
      using lock_follows [OF 2(3,4) l(1)] lock_follows [OF 2(3,5) l(2)] by auto
    have "fi_num x' = fi_num y'" using o(2,4) 2(6) by (auto simp: follows_def)
    with 2(1) [OF _ _ _ r 2(3) o(1,3)] False l obtain us vs where
      uv: "bx = (xs @ [x]) @ us" "by' = (ys @ [y]) @ vs" "length us = length vs" "us \<noteq> []" "is_branch us" "is_branch vs"
        "hd us = x'" "hd vs = y'" "previous_id (last us) = previous_id (last vs)"
        "\<forall>i. Suc i < length us \<longrightarrow> previous_id (us ! i) \<noteq> previous_id (vs ! i)"
        "set us \<subseteq> set (owners db)" "set vs \<subseteq> set (owners db)"
      by fastforce
    have "vs \<noteq> []" using uv(3,4) by auto
    have "is_branch (x # us)" "is_branch (y # vs)"
      using uv(4-8) \<open>vs \<noteq> []\<close> o(2,4) by (cases us; cases vs; auto)+
    moreover have "\<forall>i. Suc i < length (x # us) \<longrightarrow> previous_id ((x # us) ! i) \<noteq> previous_id ((y # vs) ! i)"
      using uv(10) False by (auto simp: previous_id_def nth_Cons split: nat.split)
    ultimately show ?thesis using uv \<open>vs \<noteq> []\<close> 2(4,5) by (intro exI [of _ "x # us"] exI [of _ "y # vs"]) auto
  qed
qed simp

lemma descend_both_total:
  assumes "fork_wf h db" "x \<in> set (owners db)" "y \<in> set (owners db)" "fi_num x = fi_num y" "fi_num x < f"
  shows "descend_both f db x y xs ys \<noteq> Inl out_of_fuel \<and>
    (ancestor db x p \<longrightarrow> ancestor db y q \<longrightarrow> previous_id p = previous_id q \<longrightarrow> fi_num p = fi_num q
      \<longrightarrow> (\<exists>r. descend_both f db x y xs ys = Inr r))"
  using assms
proof (induction f db x y xs ys rule: descend_both.induct)
  case (2 f db x y xs ys)
  show ?case
  proof (cases "previous (fi_data x) = previous (fi_data y)")
    case False
    have IH: "descend_both f db x' y' (xs @ [x]) (ys @ [y]) \<noteq> Inl out_of_fuel \<and>
        (ancestor db x' p \<longrightarrow> ancestor db y' q \<longrightarrow> previous_id p = previous_id q \<longrightarrow> fi_num p = fi_num q
          \<longrightarrow> (\<exists>r. descend_both f db x' y' (xs @ [x]) (ys @ [y]) = Inr r))"
      if "lock_prev db x = Some x'" "lock_prev db y = Some y'" for x' y'
      using 2(1) [OF False, of x' y'] lock_follows [OF 2(2,3) that(1)] lock_follows [OF 2(2,4) that(2)] 2(2,5,6) that
      by (auto simp: follows_def)
    have up: "\<exists>x' y'. lock_prev db x = Some x' \<and> lock_prev db y = Some y' \<and> ancestor db x' p \<and> ancestor db y' q"
      if a: "ancestor db x p" "ancestor db y q" "previous_id p = previous_id q" "fi_num p = fi_num q"
    proof -
      have "x \<noteq> p \<and> y \<noteq> q"
        using a False ancestor_num [OF a(1) 2(2,3)] ancestor_num [OF a(2) 2(2,4)] 2(5) by (auto simp: previous_id_def)
      then show ?thesis using ancestor_step a(1,2) by blast
    qed
    show ?thesis
      using False IH up by (cases "lock_prev db x"; cases "lock_prev db y")
        (fastforce simp: lock_or_throw_def out_of_fuel_def)+
  qed simp
qed simp

lemma branch_num: "is_branch us \<Longrightarrow> i < length us \<Longrightarrow> fi_num (us ! i) + i = fi_num (hd us)"
proof (induction us arbitrary: i rule: is_branch.induct)
  case (1 x y ys)
  then show ?case by (cases i) (auto simp: follows_def)
qed auto

lemma branch_num_le: "is_branch us \<Longrightarrow> z \<in> set us \<Longrightarrow> fi_num z \<le> fi_num (hd us)"
  using branch_num by (fastforce simp: in_set_conv_nth)

lemma is_branch_append:
  "is_branch (ys @ [y]) \<Longrightarrow> is_branch us \<Longrightarrow> us \<noteq> [] \<Longrightarrow> hd us = y \<Longrightarrow>
    is_branch (ys @ us) \<and> hd (ys @ us) = hd (ys @ [y])"
proof (induction ys)
  case Nil
  then show ?case by simp
next
  case (Cons z ys)
  then show ?case by (cases ys; cases us) auto
qed

lemma aligned_branches:
  assumes "is_branch us" "is_branch vs" "fi_num (hd us) = fi_num (hd vs)" "length us = length vs"
    and "\<forall>i. Suc i < length us \<longrightarrow> previous_id (us ! i) \<noteq> previous_id (vs ! i)"
    and "p \<in> set (butlast us)" "q \<in> set (butlast vs)" "fi_num p = fi_num q"
  shows "previous_id p \<noteq> previous_id q"
proof -
  obtain i j where i: "i < length us - 1" "p = us ! i" and j: "j < length vs - 1" "q = vs ! j"
    using assms(6,7) by (auto simp: in_set_conv_nth nth_butlast)
  have "fi_num p + i = fi_num (hd us)" "fi_num q + j = fi_num (hd vs)"
    using branch_num [OF assms(1), of i] branch_num [OF assms(2), of j] i j by auto
  then have "i = j" using assms(3,8) by simp
  then show ?thesis using assms(5) i j by auto
qed

lemma fetch_branch_from_aux:
  assumes wf: "fork_wf header_hash db" and x: "find_id first (linked db) = Some x" and y: "find_id second (linked db) = Some y"
  shows "fetch_branch_from first second db \<noteq> Inl out_of_fuel
    \<and> (\<forall>p q. ancestor db x p \<longrightarrow> ancestor db y q \<longrightarrow> previous_id p = previous_id q
        \<longrightarrow> (\<exists>r. fetch_branch_from first second db = Inr r))
    \<and> (\<forall>b1 b2. fetch_branch_from first second db = Inr (b1, b2) \<longrightarrow>
        b1 \<noteq> [] \<and> b2 \<noteq> [] \<and> hd b1 = x \<and> hd b2 = y \<and> is_branch b1 \<and> is_branch b2
        \<and> previous_id (last b1) = previous_id (last b2)
        \<and> (\<forall>p \<in> set (butlast b1). \<forall>q \<in> set (butlast b2). previous_id p \<noteq> previous_id q))"
proof -
  have own: "x \<in> set (owners db)" "y \<in> set (owners db)"
    using find_id_SomeD [OF x] find_id_SomeD [OF y] by (auto simp: owners_set)
  have lt: "fi_num z < 2 ^ 32" if "z \<in> set (owners db)" for z
    using owner_num [OF wf that] unsigned_less [where 'a = nat, of "block_num (fi_data z)"] by simp
  have num: "fi_num p = fi_num q" if "p \<in> set (owners db)" "q \<in> set (owners db)" "previous_id p = previous_id q" for p q
    using that owner_num [OF wf that(1)] owner_num [OF wf that(2)] by (simp add: block_num_def previous_id_def)
  define r1 where "r1 = descend (2 ^ 32) db (unat (block_num (fi_data y))) x []"
  have r1: "r1 \<noteq> Inl out_of_fuel"
    "\<And>p. ancestor db x p \<Longrightarrow> fi_num p \<le> fi_num y \<Longrightarrow> \<exists>x1 ys. r1 = Inr (x1, ys) \<and> ancestor db x1 p"
    "\<And>x1 ys. r1 = Inr (x1, ys) \<Longrightarrow> is_branch (ys @ [x1]) \<and> hd (ys @ [x1]) = x \<and> x1 \<in> set (owners db)
      \<and> fi_num x1 = min (fi_num y) (fi_num x) \<and> (\<forall>z \<in> set ys. fi_num y < fi_num z \<and> z \<in> set (owners db))"
    using descend_total [OF wf own(1) lt [OF own(1)], where n = "fi_num y" and acc = "[]"]
      descend_correct [where f = "2 ^ 32" and n = "fi_num y" and acc = "[]", OF _ wf own(1)]
    by (auto simp: r1_def owner_num [OF wf own(2)])
  have fetch: "fetch_branch_from first second db = bindE r1 (\<lambda>r1.
      bindE (descend (2 ^ 32) db (unat (block_num (fi_data (fst r1)))) y []) (\<lambda>r2.
      descend_both (2 ^ 32) db (fst r1) (fst r2) (snd r1) (snd r2)))"
    by (simp add: fetch_branch_from_def x y r1_def)
  show ?thesis
  proof (cases r1)
    case (Inl e)
    have "\<not> (ancestor db x p \<and> ancestor db y q \<and> previous_id p = previous_id q)" for p q
      using r1(2) [of p] Inl num [of p q] ancestor_num [OF _ wf own(1), of p] ancestor_num [OF _ wf own(2), of q] by auto
    then show ?thesis using fetch Inl r1(1) by auto
  next
    case (Inr r)
    obtain x1 ys where rr: "r = (x1, ys)" by (cases r)
    note x1 = r1(3) [OF Inr [unfolded rr]]
    have o1: "x1 \<in> set (owners db)" using x1 by simp
    define r2 where "r2 = descend (2 ^ 32) db (unat (block_num (fi_data x1))) y []"
    have r2: "r2 \<noteq> Inl out_of_fuel"
      "\<And>p. ancestor db y p \<Longrightarrow> fi_num p \<le> fi_num x1 \<Longrightarrow> \<exists>y1 zs. r2 = Inr (y1, zs) \<and> ancestor db y1 p"
      "\<And>y1 zs. r2 = Inr (y1, zs) \<Longrightarrow> is_branch (zs @ [y1]) \<and> hd (zs @ [y1]) = y \<and> y1 \<in> set (owners db)
        \<and> fi_num y1 = min (fi_num x1) (fi_num y) \<and> (\<forall>z \<in> set zs. fi_num x1 < fi_num z \<and> z \<in> set (owners db))"
      using descend_total [OF wf own(2) lt [OF own(2)], where n = "fi_num x1" and acc = "[]"]
        descend_correct [where f = "2 ^ 32" and n = "fi_num x1" and acc = "[]", OF _ wf own(2)]
      by (auto simp: r2_def owner_num [OF wf o1])
    have fetch2: "fetch_branch_from first second db = bindE r2 (\<lambda>r2. descend_both (2 ^ 32) db x1 (fst r2) ys (snd r2))"
      by (simp add: fetch Inr rr r2_def)
    have meet: "ancestor db x1 p \<and> fi_num p \<le> fi_num x1 \<and> fi_num p = fi_num q"
      if a: "ancestor db x p" "ancestor db y q" "previous_id p = previous_id q" for p q
    proof -
      note p = ancestor_num [OF a(1) wf own(1)] and q = ancestor_num [OF a(2) wf own(2)]
      have e: "fi_num p = fi_num q" using num p q a(3) by blast
      then have "ancestor db x1 p" using r1(2) [OF a(1)] q Inr rr by auto
      then show ?thesis using e ancestor_num [OF _ wf o1] by blast
    qed
    show ?thesis
    proof (cases r2)
      case (Inl e)
      then have "\<not> (ancestor db x p \<and> ancestor db y q \<and> previous_id p = previous_id q)" for p q
        using meet [of p q] r2(2) [of q] by auto
      then show ?thesis using fetch2 Inl r2(1) by auto
    next
      case (Inr r)
      obtain y1 zs where rr2: "r = (y1, zs)" by (cases r)
      note y1 = r2(3) [OF Inr [unfolded rr2]]
      have f3: "fetch_branch_from first second db = descend_both (2 ^ 32) db x1 y1 ys zs"
        using fetch2 Inr rr2 by simp
      have e: "fi_num x1 = fi_num y1" using x1 y1 by simp
      have o2: "y1 \<in> set (owners db)" using y1 by simp
      note tot = descend_both_total [OF wf o1 o2 e lt [OF o1], of ys zs]
      show ?thesis
      proof (intro conjI allI impI)
        show "fetch_branch_from first second db \<noteq> Inl out_of_fuel" using tot f3 by simp
      next
        fix p q assume a: "ancestor db x p" "ancestor db y q" "previous_id p = previous_id q"
        then have "ancestor db y1 q" using meet [OF a] r2(2) [OF a(2)] Inr rr2 by auto
        then show "\<exists>r. fetch_branch_from first second db = Inr r" using tot [of p q] meet [OF a] a(3) unfolding f3 by simp
      next
        fix b1 b2 assume "fetch_branch_from first second db = Inr (b1, b2)"
        then obtain us vs where uv: "b1 = ys @ us" "b2 = zs @ vs" "length us = length vs" "us \<noteq> []"
          "is_branch us" "is_branch vs" "hd us = x1" "hd vs = y1" "previous_id (last us) = previous_id (last vs)"
          "\<forall>i. Suc i < length us \<longrightarrow> previous_id (us ! i) \<noteq> previous_id (vs ! i)"
          "set us \<subseteq> set (owners db)" "set vs \<subseteq> set (owners db)"
          using descend_both_correct [OF _ wf o1 o2 e] f3 by metis
        have "vs \<noteq> []" using uv(3,4) by auto
        have b1: "is_branch b1 \<and> hd b1 = x" and b2: "is_branch b2 \<and> hd b2 = y"
          using is_branch_append [of ys x1 us] is_branch_append [of zs y1 vs] uv x1 y1 \<open>vs \<noteq> []\<close> by auto
        then show "b1 \<noteq> []" "b2 \<noteq> []" "hd b1 = x" "hd b2 = y" "is_branch b1" "is_branch b2"
          using uv(1,2,4) \<open>vs \<noteq> []\<close> by auto
        show "previous_id (last b1) = previous_id (last b2)" using uv(1,2,4,9) \<open>vs \<noteq> []\<close> by simp
        show "\<forall>p \<in> set (butlast b1). \<forall>q \<in> set (butlast b2). previous_id p \<noteq> previous_id q"
        proof (intro ballI notI)
          fix p q assume p: "p \<in> set (butlast b1)" and q: "q \<in> set (butlast b2)" and pq: "previous_id p = previous_id q"
          have mem: "p \<in> set ys \<or> p \<in> set (butlast us)" "q \<in> set zs \<or> q \<in> set (butlast vs)"
            using p q uv(1,2,4) \<open>vs \<noteq> []\<close> by (auto simp: butlast_append)
          have "p \<in> set (owners db)" "q \<in> set (owners db)"
            using mem uv(11,12) x1 y1 by (auto dest: in_set_butlastD)
          then have n: "fi_num p = fi_num q" using num pq by blast
          have "fi_num q \<le> fi_num y" "fi_num p \<le> fi_num x"
            using branch_num_le b1 b2 p q by (auto dest!: in_set_butlastD)
          then have "p \<notin> set ys" using n x1 by fastforce
          moreover have "q \<notin> set zs"
          proof
            assume "q \<in> set zs"
            then have "fi_num x1 < fi_num p" using y1 n by auto
            moreover have "fi_num p \<le> fi_num x1"
              using mem(1) \<open>p \<notin> set ys\<close> branch_num_le [OF uv(5)] uv(7) by (auto dest: in_set_butlastD)
            ultimately show False by simp
          qed
          ultimately show False
            using mem aligned_branches [OF uv(5,6) _ uv(3,10) _ _ n] uv(7,8) e pq by auto
        qed
      qed
    qed
  qed
qed

text \<open>C37: \<open>fetch_branch_from\<close> always terminates: following \<open>prev\<close> pointers never cycles. It returns
whenever the two chains of live pointers meet in a common prior block. What it returns are two
branches that start at the two blocks asked for, step from each block to the one it builds on, and
end in blocks that build on the same block, which is the most recent one: no two earlier blocks of
the branches build on the same block.\<close>

theorem fetch_branch_from_correct:
  assumes wf: "fork_wf header_hash db" and x: "find_id first (linked db) = Some x" and y: "find_id second (linked db) = Some y"
  shows "fetch_branch_from first second db \<noteq> Inl out_of_fuel
    \<and> (\<forall>p q. ancestor db x p \<longrightarrow> ancestor db y q \<longrightarrow> previous_id p = previous_id q
        \<longrightarrow> (\<exists>r. fetch_branch_from first second db = Inr r))
    \<and> (\<forall>b1 b2. fetch_branch_from first second db = Inr (b1, b2) \<longrightarrow>
        b1 \<noteq> [] \<and> b2 \<noteq> [] \<and> hd b1 = x \<and> hd b2 = y \<and> is_branch b1 \<and> is_branch b2
        \<and> previous_id (last b1) = previous_id (last b2)
        \<and> (\<forall>p \<in> set (butlast b1). \<forall>q \<in> set (butlast b2). previous_id p \<noteq> previous_id q))"
  by (rule fetch_branch_from_aux [OF assms])

theorem fetch_branch_from_correct_witness:
  "\<exists>r. fetch_branch_from (Block_id 2 20) (Block_id 2 30) demo_forks = Inr r"
proof -
  have "find_id (Block_id 2 20) (linked demo_forks) = Some (demo_item 1)"
    "find_id (Block_id 2 30) (linked demo_forks) = Some (demo_item 2)"
    by (simp_all add: find_id_def demo_forks_def)
  from fetch_branch_from_correct [OF fork_reachable_wf_aux [OF demo_forks_reachable] this]
  show ?thesis using ancestor.here [of demo_forks "demo_item 1"] ancestor.here [of demo_forks "demo_item 2"] by fastforce
qed

section \<open>Branches as chains of live pointers\<close>

fun lock_chain :: "fork_database \<Rightarrow> fork_item list \<Rightarrow> bool" where
  "lock_chain db (x # y # ys) \<longleftrightarrow> lock_prev db x = Some y \<and> lock_chain db (y # ys)"
| "lock_chain db _ \<longleftrightarrow> True"

lemma lock_chain_Cons: "lock_chain db (x # xs) \<longleftrightarrow> (xs = [] \<or> lock_prev db x = Some (hd xs) \<and> lock_chain db xs)"
  by (cases xs) auto

lemma descend_lock:
  "descend f db n x acc = Inr (y, acc') \<Longrightarrow> \<exists>ys. acc' = acc @ ys \<and> lock_chain db (ys @ [y]) \<and> hd (ys @ [y]) = x"
proof (induction f db n x acc rule: descend.induct)
  case (2 f db n x acc)
  show ?case
  proof (cases "n < unat (block_num (fi_data x))")
    case True
    then obtain x' where x': "lock_prev db x = Some x'" "descend f db n x' (acc @ [x]) = Inr (y, acc')"
      using 2(2) by auto
    obtain ys where ys: "acc' = (acc @ [x]) @ ys" "lock_chain db (ys @ [y])" "hd (ys @ [y]) = x'"
      using 2(1) [OF True _ x'(2)] x'(1) by auto
    have "lock_chain db ((x # ys) @ [y])" using ys(2,3) x'(1) by (simp add: lock_chain_Cons)
    then show ?thesis using ys(1) by (intro exI [of _ "x # ys"]) simp
  qed (use 2(2) in auto)
qed simp

lemma descend_both_lock:
  "descend_both f db x y xs ys = Inr (bx, by') \<Longrightarrow>
    \<exists>us vs. bx = xs @ us \<and> by' = ys @ vs \<and> us \<noteq> [] \<and> vs \<noteq> [] \<and> lock_chain db us \<and> lock_chain db vs \<and> hd us = x \<and> hd vs = y"
proof (induction f db x y xs ys rule: descend_both.induct)
  case (2 f db x y xs ys)
  show ?case
  proof (cases "previous (fi_data x) = previous (fi_data y)")
    case True
    then show ?thesis using 2(2) by (intro exI [of _ "[x]"] exI [of _ "[y]"]) auto
  next
    case False
    then obtain x' y' where l: "lock_prev db x = Some x'" "lock_prev db y = Some y'"
      and r: "descend_both f db x' y' (xs @ [x]) (ys @ [y]) = Inr (bx, by')"
      using 2(2) by auto
    then obtain us vs where uv: "bx = (xs @ [x]) @ us" "by' = (ys @ [y]) @ vs" "us \<noteq> []" "vs \<noteq> []"
      "lock_chain db us" "lock_chain db vs" "hd us = x'" "hd vs = y'"
      using 2(1) [OF False _ _ r] by auto
    have "lock_chain db (x # us)" "lock_chain db (y # vs)" using uv l by (simp_all add: lock_chain_Cons)
    then show ?thesis using uv(1,2) by (intro exI [of _ "x # us"] exI [of _ "y # vs"]) simp
  qed
qed simp

lemma lock_chain_join:
  "lock_chain db (ys @ [y]) \<Longrightarrow> lock_chain db us \<Longrightarrow> us \<noteq> [] \<Longrightarrow> hd us = y \<Longrightarrow> lock_chain db (ys @ us)"
proof (induction ys)
  case (Cons z ys)
  then have "lock_chain db (ys @ us)" "ys @ us \<noteq> []" "hd (ys @ us) = hd (ys @ [y])"
    by (auto simp: lock_chain_Cons hd_append)
  then show ?case using Cons.prems(1) by (simp add: lock_chain_Cons)
qed simp

lemma fetch_branch_lock:
  assumes "fetch_branch_from first second db = Inr (b1, b2)"
  shows "lock_chain db b1 \<and> lock_chain db b2 \<and> find_id first (linked db) = Some (hd b1)
    \<and> find_id second (linked db) = Some (hd b2) \<and> b1 \<noteq> [] \<and> b2 \<noteq> []"
proof -
  from assms obtain x y r1 r2 where xy: "find_id first (linked db) = Some x" "find_id second (linked db) = Some y"
    and r1: "descend (2 ^ 32) db (unat (block_num (fi_data y))) x [] = Inr r1"
    and r2: "descend (2 ^ 32) db (unat (block_num (fi_data (fst r1)))) y [] = Inr r2"
    and both: "descend_both (2 ^ 32) db (fst r1) (fst r2) (snd r1) (snd r2) = Inr (b1, b2)"
    unfolding fetch_branch_from_def bindE_eq_Inr ofOption_eq_Inr by blast
  have d1: "lock_chain db (snd r1 @ [fst r1])" "hd (snd r1 @ [fst r1]) = x"
    using descend_lock [of _ db _ x "[]" "fst r1" "snd r1"] r1 by auto
  have d2: "lock_chain db (snd r2 @ [fst r2])" "hd (snd r2 @ [fst r2]) = y"
    using descend_lock [of _ db _ y "[]" "fst r2" "snd r2"] r2 by auto
  obtain us vs where uv: "b1 = snd r1 @ us" "b2 = snd r2 @ vs" "us \<noteq> []" "vs \<noteq> []" "lock_chain db us" "lock_chain db vs"
    "hd us = fst r1" "hd vs = fst r2"
    using descend_both_lock [OF both] by blast
  have "hd b1 = x" "hd b2 = y" using d1(2) d2(2) uv by (auto simp: hd_append)
  then show ?thesis using lock_chain_join [OF d1(1) uv(5,3,7)] lock_chain_join [OF d2(1) uv(6,4,8)] uv xy by auto
qed

fun pops :: "nat \<Rightarrow> fork_database \<Rightarrow> fork_database exn" where
  "pops 0 db = Inr db"
| "pops (Suc k) db = bindE (pop_block db) (pops k)"

text \<open>A pointer to an item that is still owned locks to it: no other item has its address.\<close>

lemma lock_prev_subset:
  assumes "fork_wf h db" "lock_prev db x = Some y" "y \<in> set (owners db')" "set (owners db') \<subseteq> set (owners db)"
  shows "lock_prev db' x = Some y"
proof -
  note y = lock_prev_SomeD [OF assms(2)]
  have "List.find (\<lambda>z. fi_addr z = fi_addr y) (owners db') \<noteq> None" using assms(3) by (auto simp: find_None_iff)
  then obtain z where z: "List.find (\<lambda>z. fi_addr z = fi_addr y) (owners db') = Some z" by auto
  then have "z \<in> set (owners db')" "fi_addr z = fi_addr y" by (auto simp: find_Some_iff in_set_conv_nth)
  then have "z = y" using assms(1,4) y unfolding fork_wf_def by blast
  then show ?thesis using z y by (simp add: lock_prev_def)
qed

lemma pops_along:
  assumes wf: "fork_wf h db" and sub: "set (linked db') \<subseteq> set (owners db)" "unlinked db' = []"
    and b: "lock_chain db b" "set b \<subseteq> set (linked db')" "f_head db' = Some (hd b)" "k < length b"
  shows "pops k db' = Inr (db'\<lparr>f_head := Some (b ! k)\<rparr>)"
  using sub b
proof (induction k arbitrary: b db')
  case 0
  then show ?case by (cases b) auto
next
  case (Suc k)
  then obtain x y ys where b: "b = x # y # ys" by (cases b; cases "tl b") auto
  have "lock_prev db' x = Some y"
  proof (rule lock_prev_subset [OF wf])
    show "lock_prev db x = Some y" using Suc.prems(3) b by simp
    show "y \<in> set (owners db')" using Suc.prems(4) b by (auto simp: owners_set)
    show "set (owners db') \<subseteq> set (owners db)" using Suc.prems b by (auto simp: owners_set)
  qed
  then have pop: "pop_block db' = Inr (db'\<lparr>f_head := Some y\<rparr>)" using Suc.prems(5) b by (simp add: pop_block_def)
  have "pops k (db'\<lparr>f_head := Some y\<rparr>) = Inr (db'\<lparr>f_head := Some y, f_head := Some ((y # ys) ! k)\<rparr>)"
    using Suc.prems b by (intro Suc.IH) auto
  then show ?case using pop b by simp
qed

text \<open>The items a run of pops from \<open>x\<close> can reach: up to \<open>n\<close> steps along pointers that still lock.\<close>

fun held_back :: "nat \<Rightarrow> fork_database \<Rightarrow> fork_item \<Rightarrow> fork_item list" where
  "held_back 0 db x = [x]"
| "held_back (Suc n) db x = x # (case lock_prev db x of None \<Rightarrow> [] | Some p \<Rightarrow> held_back n db p)"

lemma held_back_hd [simp]: "held_back n db x \<noteq> []" "hd (held_back n db x) = x"
  by (cases n; simp)+

lemma held_back_length: "length (held_back n db x) \<le> Suc n"
  by (induction n db x rule: held_back.induct) (auto split: option.split)

lemma held_back_chain: "lock_chain db (held_back n db x)"
  by (induction n db x rule: held_back.induct) (auto simp: lock_chain_Cons split: option.split)

lemma held_back_stops: "length (held_back n db x) \<le> n \<Longrightarrow> lock_prev db (last (held_back n db x)) = None"
  by (induction n db x rule: held_back.induct) (auto split: option.splits)

lemma held_back_prefix: "lock_chain db b \<Longrightarrow> b \<noteq> [] \<Longrightarrow> k < length b \<Longrightarrow> k \<le> n \<Longrightarrow>
    k < length (held_back n db (hd b)) \<and> held_back n db (hd b) ! k = b ! k"
proof (induction k arbitrary: n b)
  case 0
  then show ?case by (metis held_back_hd hd_conv_nth length_greater_0_conv)
next
  case (Suc k)
  obtain m where m: "n = Suc m" using Suc.prems(4) by (cases n) auto
  obtain x y ys where b: "b = x # y # ys" using Suc.prems(3) by (cases b; cases "tl b") auto
  have "k < length (held_back m db (hd (y # ys))) \<and> held_back m db (hd (y # ys)) ! k = (y # ys) ! k"
    using Suc.prems b m by (intro Suc.IH) auto
  then show ?case using Suc.prems(1) b m by simp
qed

lemma held_back_num:
  "fork_wf h db \<Longrightarrow> x \<in> set (owners db) \<Longrightarrow> k < length (held_back n db x) \<Longrightarrow>
    held_back n db x ! k \<in> set (owners db) \<and> fi_num (held_back n db x ! k) + k = fi_num x"
proof (induction n db x arbitrary: k rule: held_back.induct)
  case (2 n db x)
  show ?case
  proof (cases k)
    case (Suc j)
    then obtain p where p: "lock_prev db x = Some p" "j < length (held_back n db p)"
      using "2.prems"(3) by (auto split: option.splits)
    note l = lock_prev_link [OF "2.prems"(1,2) p(1)]
    have "held_back n db p ! j \<in> set (owners db) \<and> fi_num (held_back n db p ! j) + j = fi_num p"
      using "2.IH" [OF p(1) "2.prems"(1) _ p(2)] l by blast
    then show ?thesis using Suc p(1) l by (simp add: link_ok_def)
  qed (use 2 in simp)
qed simp

lemma lock_prev_gone:
  assumes "lock_prev db x = None" "set (owners db') \<subseteq> set (owners db)"
  shows "lock_prev db' x = None"
  using assms by (auto simp: lock_prev_def find_None_iff split: option.splits)

lemma fold_remove_block:
  "fold (\<lambda>x. remove_block (g x)) xs db = db\<lparr>linked := filter (\<lambda>y. fi_id y \<notin> g ` set xs) (linked db)\<rparr>"
  by (induction xs arbitrary: db) (auto simp: remove_block_def conj_commute intro!: filter_cong)

lemma branch_distinct: "is_branch b \<Longrightarrow> distinct (map fi_num b)"
  unfolding distinct_conv_nth
proof (intro allI impI)
  fix i j assume "is_branch b" "i < length (map fi_num b)" "j < length (map fi_num b)" "i \<noteq> j"
  then show "map fi_num b ! i \<noteq> map fi_num b ! j" using branch_num [of b i] branch_num [of b j] by auto
qed

end
