(* ===== verification/BlockStore.thy ===== *)
theory BlockStore
  imports Block
begin

text \<open>
  The block database on disk: \<^verbatim>\<open>block_database.cpp\<close>. The index file is the list of its entries, the
  entry of a block at the position of its number; the blocks file is the list of its bytes. Writing
  past the end of the index fills the gap with zero entries, as a file does. \<open>pack\<close> and \<open>unpack\<close> are
  fc's serialization, and a read past the end of a file throws, which the fetch operations catch.
\<close>

section \<open>Files\<close>

type_synonym byte = "8 word"

record index_entry =
  block_pos :: nat
  block_size :: nat
  entry_id :: block_id_type

definition zero_entry :: index_entry where
  "zero_entry = \<lparr>block_pos = 0, block_size = 0, entry_id = zero_block_id\<rparr>"

record block_codec =
  pack :: "signed_block \<Rightarrow> byte list"
  unpack :: "byte list \<Rightarrow> signed_block option"
  codec_hash :: "signed_block_header \<Rightarrow> nat"

record block_database =
  num_to_pos :: "index_entry list"
  blocks_file :: "byte list"

definition index_num :: "block_id_type \<Rightarrow> nat" where
  "index_num i = unat (num_from_id i)"

definition write_entry :: "nat \<Rightarrow> index_entry \<Rightarrow> index_entry list \<Rightarrow> index_entry list" where
  "write_entry n e xs = (if n < length xs then xs[n := e] else xs @ replicate (n - length xs) zero_entry @ [e])"

definition read_bytes :: "nat \<Rightarrow> nat \<Rightarrow> byte list \<Rightarrow> byte list option" where
  "read_bytes pos n bs = (if pos + n \<le> length bs then Some (take n (drop pos bs)) else None)"

section \<open>Operations\<close>

definition store :: "block_codec \<Rightarrow> block_id_type \<Rightarrow> signed_block \<Rightarrow> block_database \<Rightarrow> block_database" where
  "store cd i b db =
    (let i' = (if i = zero_block_id then block_id (codec_hash cd) b else i);
         vec = pack cd b;
         e = \<lparr>block_pos = length (blocks_file db), block_size = length vec mod 2 ^ 32, entry_id = i'\<rparr>
     in db\<lparr>num_to_pos := write_entry (index_num i') e (num_to_pos db), blocks_file := blocks_file db @ vec\<rparr>)"

definition remove :: "block_id_type \<Rightarrow> block_database \<Rightarrow> block_database exn" where
  "remove i db =
    (if length (num_to_pos db) \<le> index_num i then Inl (not_found ''block'')
     else
       let e = num_to_pos db ! index_num i
       in if entry_id e = i
          then Inr (db\<lparr>num_to_pos := write_entry (index_num i) (e\<lparr>block_size := 0\<rparr>) (num_to_pos db)\<rparr>)
          else Inr db)"

definition contains :: "block_id_type \<Rightarrow> block_database \<Rightarrow> bool" where
  "contains i db \<longleftrightarrow>
    i \<noteq> zero_block_id \<and> index_num i < length (num_to_pos db)
    \<and> entry_id (num_to_pos db ! index_num i) = i \<and> 0 < block_size (num_to_pos db ! index_num i)"

definition fetch_block_id :: "nat \<Rightarrow> block_database \<Rightarrow> block_id_type exn" where
  "fetch_block_id n db =
    bindE (fc_assert (n \<noteq> 0) ''block_num != 0'') (\<lambda>_.
    if length (num_to_pos db) \<le> n then Inl (not_found ''block number'')
    else bindE (fc_assert (entry_id (num_to_pos db ! n) \<noteq> zero_block_id) ''Empty block_id in block_database'') (\<lambda>_.
      Inr (entry_id (num_to_pos db ! n))))"

definition read_block :: "block_codec \<Rightarrow> index_entry \<Rightarrow> block_database \<Rightarrow> signed_block option" where
  "read_block cd e db =
    (case read_bytes (block_pos e) (block_size e) (blocks_file db) of
       None \<Rightarrow> None
     | Some bs \<Rightarrow> (case unpack cd bs of
         None \<Rightarrow> None
       | Some b \<Rightarrow> if block_id (codec_hash cd) b = entry_id e then Some b else None))"

definition fetch_optional :: "block_codec \<Rightarrow> block_id_type \<Rightarrow> block_database \<Rightarrow> signed_block option" where
  "fetch_optional cd i db =
    (if length (num_to_pos db) \<le> index_num i then None
     else
       let e = num_to_pos db ! index_num i
       in if entry_id e \<noteq> i then None
          else if block_size e = 0
          then (case unpack cd [] of
                  None \<Rightarrow> None
                | Some b \<Rightarrow> if block_id (codec_hash cd) b = entry_id e then Some b else None)
          else read_block cd e db)"

definition fetch_by_number :: "block_codec \<Rightarrow> nat \<Rightarrow> block_database \<Rightarrow> signed_block option" where
  "fetch_by_number cd n db =
    (if length (num_to_pos db) \<le> n then None else read_block cd (num_to_pos db ! n) db)"

text \<open>
  \<open>last_index_entry\<close> goes down from the end of the index; every entry that does not read back to
  its own block is cut off the file on the way.
\<close>

fun last_entry_loop :: "block_codec \<Rightarrow> nat \<Rightarrow> block_database \<Rightarrow> index_entry option \<times> block_database" where
  "last_entry_loop cd 0 db = (None, db)"
| "last_entry_loop cd (Suc n) db =
    (let e = num_to_pos db ! n
     in if 0 < block_size e \<and> block_pos e + block_size e \<le> length (blocks_file db) \<and> read_block cd e db \<noteq> None
        then (Some e, db)
        else last_entry_loop cd n (db\<lparr>num_to_pos := take n (num_to_pos db)\<rparr>))"

definition last_index_entry :: "block_codec \<Rightarrow> block_database \<Rightarrow> index_entry option \<times> block_database" where
  "last_index_entry cd db = last_entry_loop cd (length (num_to_pos db)) db"

definition last_block :: "block_codec \<Rightarrow> block_database \<Rightarrow> signed_block option \<times> block_database" where
  "last_block cd db =
    (case last_index_entry cd db of
       (None, db') \<Rightarrow> (None, db')
     | (Some e, db') \<Rightarrow> (fetch_by_number cd (unat (num_from_id (entry_id e))) db', db'))"

definition last_id :: "block_codec \<Rightarrow> block_database \<Rightarrow> block_id_type option \<times> block_database" where
  "last_id cd db =
    (case last_index_entry cd db of (None, db') \<Rightarrow> (None, db') | (Some e, db') \<Rightarrow> (Some (entry_id e), db'))"

section \<open>Storing and fetching\<close>

definition block_db_ok :: "block_database \<Rightarrow> bool" where
  "block_db_ok db \<longleftrightarrow> (\<forall>e \<in> set (num_to_pos db). block_pos e + block_size e \<le> length (blocks_file db))"

lemma length_write_entry: "length (write_entry n e xs) = max (Suc n) (length xs)"
  by (simp add: write_entry_def)

lemma nth_write_entry:
  "m < length (write_entry n e xs) \<Longrightarrow>
    write_entry n e xs ! m = (if m = n then e else if m < length xs then xs ! m else zero_entry)"
  by (auto simp: write_entry_def nth_append nth_list_update nth_Cons' split: if_splits)

lemma set_write_entry: "set (write_entry n e xs) \<subseteq> insert e (insert zero_entry (set xs))"
proof
  fix x assume "x \<in> set (write_entry n e xs)"
  then obtain m where "m < length (write_entry n e xs)" "x = write_entry n e xs ! m" by (metis in_set_conv_nth)
  then show "x \<in> insert e (insert zero_entry (set xs))" by (auto simp: nth_write_entry)
qed

lemma read_bytes_append: "pos + n \<le> length bs \<Longrightarrow> read_bytes pos n (bs @ cs) = read_bytes pos n bs"
  by (simp add: read_bytes_def)

lemma read_bytes_end: "read_bytes (length bs) (length cs) (bs @ cs) = Some cs"
  by (simp add: read_bytes_def)

lemma read_block_append:
  "block_pos e + block_size e \<le> length (blocks_file db) \<Longrightarrow>
    read_block cd e (db\<lparr>num_to_pos := xs, blocks_file := blocks_file db @ ys\<rparr>) = read_block cd e db"
  by (simp add: read_block_def read_bytes_append)

lemma read_zero_entry: "unpack cd [] = None \<Longrightarrow> read_block cd zero_entry db = None"
  by (simp add: read_block_def read_bytes_def zero_entry_def)

lemma read_empty_entry: "unpack cd [] = None \<Longrightarrow> block_size e = 0 \<Longrightarrow> read_block cd e db = None"
  by (simp add: read_block_def read_bytes_def)

text \<open>What the store relies on: the codec reads back what it wrote, and nothing from no bytes.\<close>

definition codec_ok :: "block_codec \<Rightarrow> signed_block \<Rightarrow> bool" where
  "codec_ok cd b \<longleftrightarrow> unpack cd (pack cd b) = Some b \<and> unpack cd [] = None
    \<and> length (pack cd b) < 2 ^ 32 \<and> block_id (codec_hash cd) b \<noteq> zero_block_id"

lemma store_effect:
  assumes "codec_ok cd b" "i = block_id (codec_hash cd) b"
  shows "store cd i b db = db\<lparr>num_to_pos := write_entry (index_num i)
      \<lparr>block_pos = length (blocks_file db), block_size = length (pack cd b), entry_id = i\<rparr> (num_to_pos db),
      blocks_file := blocks_file db @ pack cd b\<rparr>"
    and "0 < length (pack cd b)"
  using assms by (auto simp: store_def codec_ok_def Let_def)

lemma store_ok:
  assumes "block_db_ok db" "codec_ok cd b" "i = block_id (codec_hash cd) b"
  shows "block_db_ok (store cd i b db)"
  using assms(1) set_write_entry [of "index_num i"]
  by (fastforce simp: block_db_ok_def store_effect(1) [OF assms(2,3)] zero_entry_def)

lemma store_other:
  assumes "block_db_ok db" "codec_ok cd b" "i = block_id (codec_hash cd) b" "n \<noteq> index_num i"
  shows "fetch_by_number cd n (store cd i b db) = fetch_by_number cd n db"
proof -
  let ?ys = "num_to_pos (store cd i b db)"
  have len: "length ?ys = max (Suc (index_num i)) (length (num_to_pos db))"
    by (simp add: store_effect(1) [OF assms(2,3)] length_write_entry)
  have nth: "?ys ! n = (if n < length (num_to_pos db) then num_to_pos db ! n else zero_entry)" if "n < length ?ys"
    using that assms(4) by (simp add: store_effect(1) [OF assms(2,3)] nth_write_entry)
  have none: "unpack cd [] = None" using assms(2) by (simp add: codec_ok_def)
  show ?thesis
  proof (cases "n < length (num_to_pos db)")
    case True
    then have "num_to_pos db ! n \<in> set (num_to_pos db)" by simp
    then have "read_block cd (num_to_pos db ! n) (store cd i b db) = read_block cd (num_to_pos db ! n) db"
      using assms(1) unfolding store_effect(1) [OF assms(2,3)] by (intro read_block_append) (simp add: block_db_ok_def)
    then show ?thesis using True len nth by (simp add: fetch_by_number_def)
  next
    case False
    then show ?thesis using len nth by (simp add: fetch_by_number_def read_zero_entry [OF none])
  qed
qed

lemma store_same:
  assumes "codec_ok cd b" "i = block_id (codec_hash cd) b"
  shows "index_num i < length (num_to_pos (store cd i b db))"
    "num_to_pos (store cd i b db) ! index_num i
      = \<lparr>block_pos = length (blocks_file db), block_size = length (pack cd b), entry_id = i\<rparr>"
    "read_block cd (num_to_pos (store cd i b db) ! index_num i) (store cd i b db) = Some b"
proof -
  show l: "index_num i < length (num_to_pos (store cd i b db))"
    by (simp add: store_effect(1) [OF assms] length_write_entry)
  then show n: "num_to_pos (store cd i b db) ! index_num i
      = \<lparr>block_pos = length (blocks_file db), block_size = length (pack cd b), entry_id = i\<rparr>"
    by (simp add: store_effect(1) [OF assms] nth_write_entry)
  show "read_block cd (num_to_pos (store cd i b db) ! index_num i) (store cd i b db) = Some b"
  proof -
    have "blocks_file (store cd i b db) = blocks_file db @ pack cd b" by (simp add: store_effect(1) [OF assms])
    then show ?thesis using assms(1) unfolding n by (simp add: read_block_def read_bytes_end codec_ok_def assms(2))
  qed
qed

text \<open>C25: A stored block is fetched back, by id and by number; storing it changes what is fetched
for no other number, even when the index file is extended over a gap; storing at the end makes it
the last block. Removing it makes it unknown and not fetchable, again without an effect on any other
number. All this holds for a codec that reads back what it wrote, and the files stay consistent.\<close>

theorem block_store_round_trip:
  assumes ok: "block_db_ok db" and cd: "codec_ok cd b" and i: "i = block_id (codec_hash cd) b"
    and db': "db' = store cd i b db"
  shows "block_db_ok db' \<and> fetch_optional cd i db' = Some b \<and> fetch_by_number cd (index_num i) db' = Some b
    \<and> contains i db' \<and> (length (num_to_pos db) \<le> index_num i \<longrightarrow> fst (last_id cd db') = Some i)
    \<and> (\<forall>n. n \<noteq> index_num i \<longrightarrow> fetch_by_number cd n db' = fetch_by_number cd n db)
    \<and> (\<exists>db2. remove i db' = Inr db2 \<and> \<not> contains i db2 \<and> fetch_optional cd i db2 = None
        \<and> (\<forall>n. n \<noteq> index_num i \<longrightarrow> fetch_by_number cd n db2 = fetch_by_number cd n db))"
proof -
  note st = store_same [OF cd i, of db, folded db']
  have nz: "i \<noteq> zero_block_id" and none: "unpack cd [] = None" using cd i by (auto simp: codec_ok_def)
  have pos: "0 < length (pack cd b)" by (rule store_effect(2) [OF cd i])
  have bytes: "blocks_file db' = blocks_file db @ pack cd b" by (simp add: db' store_effect(1) [OF cd i])
  have last: "fst (last_id cd db') = Some i" if "length (num_to_pos db) \<le> index_num i"
  proof -
    have "length (num_to_pos db') = Suc (index_num i)"
      using that by (simp add: db' store_effect(1) [OF cd i] length_write_entry)
    then show ?thesis using st pos bytes by (simp add: last_id_def last_index_entry_def)
  qed
  have other: "\<forall>n. n \<noteq> index_num i \<longrightarrow> fetch_by_number cd n db' = fetch_by_number cd n db"
    using store_other [OF ok cd i] db' by simp
  define db2 where "db2 = db'\<lparr>num_to_pos := (num_to_pos db')[index_num i := (num_to_pos db' ! index_num i)\<lparr>block_size := 0\<rparr>]\<rparr>"
  have rem: "remove i db' = Inr db2" using st by (simp add: remove_def write_entry_def db2_def)
  have n2: "num_to_pos db2 ! index_num i = (num_to_pos db' ! index_num i)\<lparr>block_size := 0\<rparr>"
    using st(1) by (simp add: db2_def)
  have "read_block cd e db2 = read_block cd e db'" for e by (simp add: db2_def read_block_def)
  then have other2: "\<forall>n. n \<noteq> index_num i \<longrightarrow> fetch_by_number cd n db2 = fetch_by_number cd n db"
  proof (intro allI impI)
    fix n assume "n \<noteq> index_num i"
    then have "fetch_by_number cd n db2 = fetch_by_number cd n db'"
      using \<open>\<And>e. read_block cd e db2 = read_block cd e db'\<close> by (simp add: fetch_by_number_def) (simp add: db2_def)
    with other \<open>n \<noteq> index_num i\<close> show "fetch_by_number cd n db2 = fetch_by_number cd n db" by simp
  qed
  have gone: "\<not> contains i db2 \<and> fetch_optional cd i db2 = None"
    using n2 none by (simp add: contains_def fetch_optional_def Let_def)
  show ?thesis
    using st pos nz store_ok [OF ok cd i] last other rem other2 gone
    by (simp add: fetch_optional_def fetch_by_number_def contains_def db')
qed

definition demo_codec :: block_codec where
  "demo_codec = \<lparr>pack = (\<lambda>b. [of_nat (timestamp b)]),
     unpack = (\<lambda>bs. case bs of [] \<Rightarrow> None | x # _ \<Rightarrow> Some \<lparr>previous = Block_id 4 0, timestamp = unat x, block_witness = 0,
       transaction_merkle_root = 0, witness_signature = 0, transactions = []\<rparr>),
     codec_hash = timestamp\<rparr>"

theorem block_store_round_trip_witness:
  "\<exists>b. fetch_by_number demo_codec 5 (store demo_codec (Block_id 5 77) b \<lparr>num_to_pos = [], blocks_file = []\<rparr>) = Some b
     \<and> timestamp b = 77"
proof -
  let ?b = "\<lparr>previous = Block_id 4 0, timestamp = 77, block_witness = 0, transaction_merkle_root = 0,
    witness_signature = 0, transactions = []\<rparr> :: signed_block"
  have i: "Block_id 5 77 = block_id (codec_hash demo_codec) ?b"
    by (simp add: block_id_def block_num_def num_from_id_def demo_codec_def signed_block_header.truncate_def)
  have cd: "codec_ok demo_codec ?b"
    by (simp add: codec_ok_def i [symmetric]) (simp add: demo_codec_def zero_block_id_def)
  have "block_db_ok \<lparr>num_to_pos = [], blocks_file = []\<rparr>" by (simp add: block_db_ok_def)
  from block_store_round_trip [OF this cd i refl] show ?thesis
    by (intro exI [of _ ?b]) (simp add: index_num_def num_from_id_def)
qed

end
