(* ===== verification/Chain.thy ===== *)
theory Chain
  imports Fork BlockStore
begin

text \<open>
  The chain of blocks: the block-pushing part of \<^verbatim>\<open>db_block.cpp\<close> over the fork database, the undo
  stack and the block database. The object state is a type variable: what the code of this part uses
  of it is the id and number of its head block and the application of a block, which are
  \<open>head_id\<close>, \<open>head_num\<close> and \<open>apply_block\<close> of the environment; undoing the last block returns the
  state before it, which is what \<open>Undo.pop_commit_restores_store\<close> shows of the undo database.
  An operation returns the state together with its result, since an exception leaves changes behind.
\<close>

section \<open>State\<close>

record 's chain_env =
  head_id :: "'s \<Rightarrow> block_id_type"
  head_num :: "'s \<Rightarrow> nat"
  apply_block :: "signed_block \<Rightarrow> 's \<Rightarrow> 's exn"
  codec :: block_codec

record 's block_chain =
  c_fork :: fork_database
  c_state :: 's
  c_undo :: "'s list"
  c_log :: block_database
  c_popped :: "nat list"

definition then_op ::
  "'s block_chain \<times> 'a exn \<Rightarrow> ('a \<Rightarrow> 's block_chain \<Rightarrow> 's block_chain \<times> 'b exn) \<Rightarrow> 's block_chain \<times> 'b exn" where
  "then_op r f = (case snd r of Inl e \<Rightarrow> (fst r, Inl e) | Inr x \<Rightarrow> f x (fst r))"

lemma then_op_Inr [simp]: "then_op (c, Inr x) f = f x c"
  by (simp add: then_op_def)

lemma then_op_Inl [simp]: "then_op (c, Inl e) f = (c, Inl e)"
  by (simp add: then_op_def)

lemma then_op_cong [fundef_cong]:
  "r = r' \<Longrightarrow> (\<And>x. snd r' = Inr x \<Longrightarrow> f x (fst r') = g x (fst r')) \<Longrightarrow> then_op r f = then_op r' g"
  by (cases "snd r'") (simp_all add: then_op_def)

abbreviation hash_of :: "'s chain_env \<Rightarrow> signed_block_header \<Rightarrow> nat" where
  "hash_of env \<equiv> codec_hash (codec env)"

section \<open>Operations\<close>

definition db_is_known_block :: "block_id_type \<Rightarrow> 's block_chain \<Rightarrow> bool" where
  "db_is_known_block i c \<longleftrightarrow> is_known_block i (c_fork c) \<or> contains i (c_log c)"

definition fetch_block_by_id :: "'s chain_env \<Rightarrow> block_id_type \<Rightarrow> 's block_chain \<Rightarrow> signed_block option" where
  "fetch_block_by_id env i c =
    (case fetch_block i (c_fork c) of
       None \<Rightarrow> fetch_optional (codec env) i (c_log c)
     | Some x \<Rightarrow> Some (fi_data x))"

definition db_fetch_block_by_number :: "'s chain_env \<Rightarrow> nat \<Rightarrow> 's block_chain \<Rightarrow> signed_block option" where
  "db_fetch_block_by_number env n c =
    (case fetch_block_by_number n (c_fork c) of
       [x] \<Rightarrow> Some (fi_data x)
     | _ \<Rightarrow> fetch_by_number (codec env) n (c_log c))"

definition get_block_id_for_num :: "nat \<Rightarrow> 's block_chain \<Rightarrow> block_id_type exn" where
  "get_block_id_for_num n c = fetch_block_id n (c_log c)"

definition get_block_ids_on_fork :: "'s chain_env \<Rightarrow> block_id_type \<Rightarrow> 's block_chain \<Rightarrow> block_id_type list exn" where
  "get_block_ids_on_fork env head_of_fork c =
    bindE (fetch_branch_from (head_id env (c_state c)) head_of_fork (c_fork c)) (\<lambda>r.
    bindE (fc_assert (previous_id (last (fst r)) = previous_id (last (snd r))) ''previous_id'') (\<lambda>_.
    Inr (map fi_id (snd r) @ [previous_id (last (fst r))])))"

definition db_pop_block :: "'s chain_env \<Rightarrow> 's block_chain \<Rightarrow> 's block_chain \<times> unit exn" where
  "db_pop_block env c =
    (case fetch_block_by_id env (head_id env (c_state c)) c of
       None \<Rightarrow> (c, Inl (chain_exception ''there are no blocks to pop''))
     | Some b \<Rightarrow> (case pop_block (c_fork c) of
         Inl e \<Rightarrow> (c, Inl e)
       | Inr f \<Rightarrow> (case c_undo c of
           [] \<Rightarrow> (c\<lparr>c_fork := f\<rparr>, Inl (assert_exception ''!_stack.empty()''))
         | s # us \<Rightarrow> (c\<lparr>c_fork := f, c_state := s, c_undo := us, c_popped := transactions b @ c_popped c\<rparr>, Inr ()))))"

lemma db_pop_block_undo: "db_pop_block env c = (c', Inr u) \<Longrightarrow> c_undo c = c_state c' # c_undo c'"
  by (auto simp: db_pop_block_def split: option.splits sum.splits list.splits)

function pop_to :: "'s chain_env \<Rightarrow> block_id_type \<Rightarrow> 's block_chain \<Rightarrow> 's block_chain \<times> unit exn" where
  "pop_to env target c =
    (if head_id env (c_state c) \<noteq> target then then_op (db_pop_block env c) (\<lambda>_. pop_to env target) else (c, Inr ()))"
  by pat_completeness auto
termination
proof (relation "measure (\<lambda>(env, target, c). length (c_undo c))")
  fix env :: "'s chain_env" and target c x
  assume "snd (db_pop_block env c) = Inr x"
  then have "c_undo c = c_state (fst (db_pop_block env c)) # c_undo (fst (db_pop_block env c))"
    using db_pop_block_undo by (metis prod.collapse)
  then have "length (c_undo c) = Suc (length (c_undo (fst (db_pop_block env c))))" by (metis length_Cons)
  then show "((env, target, fst (db_pop_block env c)), env, target, c) \<in> measure (\<lambda>(env, target, c). length (c_undo c))"
    by simp
qed simp

declare pop_to.simps [simp del]

text \<open>A session around the application of a block, with the block stored before the commit.\<close>

definition apply_in_session :: "'s chain_env \<Rightarrow> block_id_type \<Rightarrow> signed_block \<Rightarrow> 's block_chain \<Rightarrow> 's block_chain \<times> unit exn" where
  "apply_in_session env i b c =
    (case apply_block env b (c_state c) of
       Inl e \<Rightarrow> (c, Inl e)
     | Inr s \<Rightarrow> (c\<lparr>c_state := s, c_undo := c_state c # c_undo c, c_log := store (codec env) i b (c_log c)\<rparr>, Inr ()))"

text \<open>The loop over the new branch, oldest block first; a failure returns the blocks not applied.\<close>

fun push_branch :: "'s chain_env \<Rightarrow> fork_item list \<Rightarrow> 's block_chain \<Rightarrow> 's block_chain \<times> (error \<times> fork_item list) option" where
  "push_branch env [] c = (c, None)"
| "push_branch env (x # xs) c =
    (case apply_in_session env (fi_id x) (fi_data x) c of
       (c', Inl e) \<Rightarrow> (c', Some (e, x # xs))
     | (c', Inr _) \<Rightarrow> push_branch env xs c')"

fun restore_branch :: "'s chain_env \<Rightarrow> block_id_type \<Rightarrow> fork_item list \<Rightarrow> 's block_chain \<Rightarrow> 's block_chain \<times> unit exn" where
  "restore_branch env i [] c = (c, Inr ())"
| "restore_branch env i (x # xs) c =
    then_op (apply_in_session env i (fi_data x) c) (\<lambda>_. restore_branch env i xs)"

definition switch_fork :: "'s chain_env \<Rightarrow> signed_block \<Rightarrow> fork_item \<Rightarrow> 's block_chain \<Rightarrow> 's block_chain \<times> bool exn" where
  "switch_fork env new_block new_head c =
    (case fetch_branch_from (block_id (hash_of env) (fi_data new_head)) (head_id env (c_state c)) (c_fork c) of
       Inl e \<Rightarrow> (c, Inl e)
     | Inr (b1, b2) \<Rightarrow>
         let forked = previous (fi_data (last b2))
         in then_op (pop_to env forked c) (\<lambda>_ c1.
            case push_branch env (rev b1) c1 of
              (c2, None) \<Rightarrow> (c2, Inr True)
            | (c2, Some (e, rest)) \<Rightarrow>
                let f = set_head (hd b2) (fold (\<lambda>x. remove_block (block_id (hash_of env) (fi_data x))) rest (c_fork c2))
                in then_op (pop_to env forked (c2\<lparr>c_fork := f\<rparr>)) (\<lambda>_ c3.
                   then_op (restore_branch env (block_id (hash_of env) new_block) (rev b2) c3) (\<lambda>_ c4.
                   (c4, Inl e)))))"

definition extend_chain :: "'s chain_env \<Rightarrow> signed_block \<Rightarrow> 's block_chain \<Rightarrow> 's block_chain \<times> bool exn" where
  "extend_chain env new_block c =
    (case apply_in_session env (block_id (hash_of env) new_block) new_block c of
       (c', Inl e) \<Rightarrow> (c'\<lparr>c_fork := remove_block (block_id (hash_of env) new_block) (c_fork c')\<rparr>, Inl e)
     | (c', Inr _) \<Rightarrow> (c', Inr False))"

definition db_push_block :: "'s chain_env \<Rightarrow> bool \<Rightarrow> signed_block \<Rightarrow> 's block_chain \<Rightarrow> 's block_chain \<times> bool exn" where
  "db_push_block env skip_fork_db new_block c =
    (if skip_fork_db then extend_chain env new_block c
     else case push_block (hash_of env) new_block (c_fork c) of
       Inl e \<Rightarrow> (c, Inl e)
     | Inr (None, f) \<Rightarrow> (c\<lparr>c_fork := f\<rparr>, Inl (chain_exception ''null new_head''))
     | Inr (Some new_head, f) \<Rightarrow>
         let c1 = c\<lparr>c_fork := f\<rparr>
         in if previous (fi_data new_head) \<noteq> head_id env (c_state c)
            then if head_num env (c_state c) < unat (block_num (fi_data new_head))
                 then switch_fork env new_block new_head c1
                 else (c1, Inr False)
            else extend_chain env new_block c1)"

section \<open>Runs of blocks\<close>

fun run_states :: "'s chain_env \<Rightarrow> 's \<Rightarrow> signed_block list \<Rightarrow> 's list exn" where
  "run_states env s [] = Inr []"
| "run_states env s (b # bs) = bindE (apply_block env b s) (\<lambda>t. bindE (run_states env t bs) (\<lambda>ts. Inr (t # ts)))"

text \<open>What the code relies on: a block that is applied becomes the head block.\<close>

definition env_ok :: "'s chain_env \<Rightarrow> bool" where
  "env_ok env \<longleftrightarrow> (\<forall>b s t. apply_block env b s = Inr t \<longrightarrow> head_id env t = block_id (hash_of env) b)"

abbreviation top_of :: "'s \<Rightarrow> 's list \<Rightarrow> 's" where
  "top_of s ts \<equiv> last (s # ts)"

abbreviation undo_of :: "'s \<Rightarrow> 's list \<Rightarrow> 's list \<Rightarrow> 's list" where
  "undo_of s ts us \<equiv> rev (butlast (s # ts)) @ us"

lemma run_states_length: "run_states env s bs = Inr ts \<Longrightarrow> length ts = length bs"
  by (induction bs arbitrary: s ts) auto

lemma run_states_heads:
  "env_ok env \<Longrightarrow> run_states env s bs = Inr ts \<Longrightarrow> t \<in> set ts \<Longrightarrow> head_id env t \<in> block_id (hash_of env) ` set bs"
proof (induction bs arbitrary: s ts)
  case (Cons b bs)
  then obtain u us where u: "apply_block env b s = Inr u" "run_states env u bs = Inr us" "ts = u # us" by auto
  then show ?case using Cons by (auto simp: env_ok_def)
qed simp

lemma run_states_append:
  "run_states env s (as @ bs) = bindE (run_states env s as) (\<lambda>ts.
     bindE (run_states env (top_of s ts) bs) (\<lambda>us. Inr (ts @ us)))"
proof (induction as arbitrary: s)
  case (Cons a as)
  show ?case
  proof (cases "apply_block env a s")
    case (Inr t)
    have last: "last (s # t # ts) = last (t # ts)" for ts by simp
    show ?thesis
      by (cases "run_states env t as") (auto simp: Inr Cons.IH last bindE_def split: sum.split)
  qed simp
qed (auto simp: bindE_def split: sum.split)

lemma push_branch_success:
  "run_states env (c_state c) (map fi_data xs) = Inr ts \<Longrightarrow>
    push_branch env xs c = (c\<lparr>c_state := top_of (c_state c) ts, c_undo := undo_of (c_state c) ts (c_undo c),
      c_log := fold (\<lambda>x. store (codec env) (fi_id x) (fi_data x)) xs (c_log c)\<rparr>, None)"
proof (induction xs arbitrary: c ts)
  case (Cons x xs)
  then obtain t us where t: "apply_block env (fi_data x) (c_state c) = Inr t" "run_states env t (map fi_data xs) = Inr us"
    "ts = t # us" by auto
  let ?c = "c\<lparr>c_state := t, c_undo := c_state c # c_undo c, c_log := store (codec env) (fi_id x) (fi_data x) (c_log c)\<rparr>"
  have "run_states env (c_state ?c) (map fi_data xs) = Inr us" using t(2) by simp
  from Cons.IH [OF this] show ?case by (simp add: apply_in_session_def t(1,3))
qed simp

lemma push_branch_failure:
  assumes "run_states env (c_state c) (map fi_data xs) = Inr ts" "apply_block env (fi_data x) (top_of (c_state c) ts) = Inl e"
  shows "push_branch env (xs @ x # zs) c = (c\<lparr>c_state := top_of (c_state c) ts, c_undo := undo_of (c_state c) ts (c_undo c),
      c_log := fold (\<lambda>x. store (codec env) (fi_id x) (fi_data x)) xs (c_log c)\<rparr>, Some (e, x # zs))"
  using assms
proof (induction xs arbitrary: c ts)
  case Nil
  then show ?case by (simp add: apply_in_session_def)
next
  case (Cons y ys)
  then obtain t us where t: "apply_block env (fi_data y) (c_state c) = Inr t" "run_states env t (map fi_data ys) = Inr us"
    "ts = t # us" by auto
  let ?c = "c\<lparr>c_state := t, c_undo := c_state c # c_undo c, c_log := store (codec env) (fi_id y) (fi_data y) (c_log c)\<rparr>"
  have "run_states env (c_state ?c) (map fi_data ys) = Inr us" "apply_block env (fi_data x) (top_of (c_state ?c) us) = Inl e"
    using t(2,3) Cons.prems(2) by simp_all
  from Cons.IH [OF this] show ?case by (simp add: apply_in_session_def t(1,3))
qed

lemma restore_branch_success:
  "run_states env (c_state c) (map fi_data xs) = Inr ts \<Longrightarrow>
    restore_branch env i xs c = (c\<lparr>c_state := top_of (c_state c) ts, c_undo := undo_of (c_state c) ts (c_undo c),
      c_log := fold (\<lambda>x. store (codec env) i (fi_data x)) xs (c_log c)\<rparr>, Inr ())"
proof (induction xs arbitrary: c ts)
  case (Cons x xs)
  then obtain t us where t: "apply_block env (fi_data x) (c_state c) = Inr t" "run_states env t (map fi_data xs) = Inr us"
    "ts = t # us" by auto
  let ?c = "c\<lparr>c_state := t, c_undo := c_state c # c_undo c, c_log := store (codec env) i (fi_data x) (c_log c)\<rparr>"
  have "run_states env (c_state ?c) (map fi_data xs) = Inr us" using t(2) by simp
  from Cons.IH [OF this] show ?case by (simp add: apply_in_session_def t(1,3))
qed simp

section \<open>Popping to the forked block\<close>

lemma fetch_linked:
  assumes "find_id i (linked (c_fork c)) \<noteq> None"
  shows "fetch_block_by_id env i c \<noteq> None"
  using assms by (auto simp: fetch_block_by_id_def fetch_block_def split: option.splits)

lemma undo_of_snoc: "undo_of s (ts @ [t]) us = top_of s ts # undo_of s ts us"
proof -
  have "butlast (s # ts @ [t]) = butlast (s # ts) @ [top_of s ts]"
    by (metis append_butlast_last_id append_Cons butlast_snoc list.distinct(1))
  then show ?thesis by simp
qed

lemma pop_to_success:
  assumes "c_state c = top_of s ts" "c_undo c = undo_of s ts us" "head_id env s = target"
    and "\<forall>t \<in> set ts. head_id env t \<noteq> target \<and> find_id (head_id env t) (linked (c_fork c)) \<noteq> None"
    and "pops (length ts) (c_fork c) = Inr f" "linked f = linked (c_fork c)"
  shows "\<exists>p. pop_to env target c = (c\<lparr>c_fork := f, c_state := s, c_undo := us, c_popped := p\<rparr>, Inr ())"
  using assms
proof (induction ts arbitrary: c rule: rev_induct)
  case Nil
  then have "f = c_fork c" by simp
  then have "c\<lparr>c_fork := f, c_state := s, c_undo := us, c_popped := c_popped c\<rparr> = c" using Nil(1,2) by simp
  then show ?case using Nil by (subst pop_to.simps) (auto intro!: exI [of _ "c_popped c"])
next
  case (snoc t ts)
  have st: "c_state c = t" "c_undo c = top_of s ts # undo_of s ts us"
    using snoc(2,3) undo_of_snoc by auto
  from snoc(6) obtain f1 where f1: "pop_block (c_fork c) = Inr f1" "pops (length ts) f1 = Inr f" by auto
  have l1: "linked f1 = linked (c_fork c)" using f1(1) by (auto simp: pop_block_def)
  obtain b where b: "fetch_block_by_id env (head_id env t) c = Some b"
    using fetch_linked [of "head_id env t" c env] snoc(5) by auto
  let ?c = "c\<lparr>c_fork := f1, c_state := top_of s ts, c_undo := undo_of s ts us, c_popped := transactions b @ c_popped c\<rparr>"
  have pop: "db_pop_block env c = (?c, Inr ())"
    using b f1(1) st by (simp add: db_pop_block_def)
  have "\<exists>p. pop_to env target ?c = (?c\<lparr>c_fork := f, c_state := s, c_undo := us, c_popped := p\<rparr>, Inr ())"
    using snoc(4,5,7) f1(2) l1 by (intro snoc.IH) auto
  then show ?case using pop snoc(5) st(1) by (subst pop_to.simps) auto
qed

text \<open>When the fork database cannot pop any further, the chain is left where it is.\<close>

lemma pop_to_stuck:
  assumes "c_state c = top_of s ts" "c_undo c = undo_of s ts us"
    and "\<forall>t \<in> set ts. head_id env t \<noteq> target \<and> find_id (head_id env t) (linked (c_fork c)) \<noteq> None"
    and "pops k (c_fork c) = Inr f" "pop_block f = Inl e" "k < length ts"
  shows "\<exists>p. pop_to env target c = (c\<lparr>c_fork := f, c_state := top_of s (take (length ts - k) ts),
    c_undo := undo_of s (take (length ts - k) ts) us, c_popped := p\<rparr>, Inl e)"
  using assms
proof (induction k arbitrary: c ts)
  case 0
  then obtain t vs where ts: "ts = vs @ [t]" by (cases ts rule: rev_cases) auto
  have st: "c_state c = t" "head_id env t \<noteq> target" using 0(1,3) ts by auto
  obtain b where b: "fetch_block_by_id env (head_id env t) c = Some b"
    using fetch_linked [of "head_id env t" c env] 0(3) ts by auto
  have f: "f = c_fork c" using 0(4) by simp
  have "db_pop_block env c = (c, Inl e)" using b 0(5) st(1) by (simp add: db_pop_block_def f)
  then have "pop_to env target c = (c, Inl e)" using st by (subst pop_to.simps) simp
  moreover have "c\<lparr>c_fork := f, c_state := top_of s ts, c_undo := undo_of s ts us, c_popped := c_popped c\<rparr> = c"
    using 0(1,2) f by simp
  ultimately show ?case by (intro exI [of _ "c_popped c"]) simp
next
  case (Suc k)
  then obtain t vs where ts: "ts = vs @ [t]" by (cases ts rule: rev_cases) auto
  have st: "c_state c = t" "head_id env t \<noteq> target" "c_undo c = top_of s vs # undo_of s vs us"
    using Suc.prems(1-3) ts undo_of_snoc by auto
  obtain f1 where f1: "pop_block (c_fork c) = Inr f1" "pops k f1 = Inr f" using Suc.prems(4) by auto
  have l1: "linked f1 = linked (c_fork c)" using f1(1) by (auto simp: pop_block_def)
  obtain b where b: "fetch_block_by_id env (head_id env t) c = Some b"
    using fetch_linked [of "head_id env t" c env] Suc.prems(3) ts by auto
  let ?c = "c\<lparr>c_fork := f1, c_state := top_of s vs, c_undo := undo_of s vs us, c_popped := transactions b @ c_popped c\<rparr>"
  have pop: "db_pop_block env c = (?c, Inr ())" using b f1(1) st by (simp add: db_pop_block_def)
  have "\<exists>p. pop_to env target ?c = (?c\<lparr>c_fork := f, c_state := top_of s (take (length vs - k) vs),
      c_undo := undo_of s (take (length vs - k) vs) us, c_popped := p\<rparr>, Inl e)"
    using Suc.prems(3,5,6) f1(2) l1 ts by (intro Suc.IH) auto
  then show ?case using pop st ts Suc.prems(6) by (subst pop_to.simps) auto
qed

section \<open>Switching forks\<close>

text \<open>
  A chain with two branches in its fork database: the chain stands on the tip of \<open>b2\<close>, which it
  reached from the state \<open>s\<close> of the common prior block, and the fork database has moved its head to
  the tip of the longer branch \<open>b1\<close>.
\<close>

definition two_branches ::
  "'s chain_env \<Rightarrow> 's block_chain \<Rightarrow> fork_item list \<Rightarrow> fork_item list \<Rightarrow> 's \<Rightarrow> 's list \<Rightarrow> 's list \<Rightarrow> bool" where
  "two_branches env c b1 b2 s ss us \<longleftrightarrow>
    env_ok env \<and> fork_wf (hash_of env) (c_fork c)
    \<and> fetch_branch_from (fi_id (hd b1)) (head_id env (c_state c)) (c_fork c) = Inr (b1, b2)
    \<and> f_head (c_fork c) = Some (hd b1) \<and> fi_num (hd b2) < fi_num (hd b1)
    \<and> set b1 \<union> set b2 \<subseteq> set (linked (c_fork c)) \<and> set b1 \<inter> set b2 = {}
    \<and> previous_id (last b2) \<notin> fi_id ` (set b1 \<union> set b2)
    \<and> run_states env s (map fi_data (rev b2)) = Inr ss \<and> head_id env s = previous_id (last b2)
    \<and> c_state c = top_of s ss \<and> c_undo c = undo_of s ss us"

lemma branch_least:
  assumes "is_branch b" "z \<in> set b"
  shows "fi_num (last b) \<le> fi_num z"
proof -
  obtain i where i: "i < length b" "z = b ! i" using assms(2) by (auto simp: in_set_conv_nth)
  then have "fi_num (b ! (length b - 1)) + (length b - 1) = fi_num z + i"
    using branch_num [OF assms(1), of i] branch_num [OF assms(1), of "length b - 1"] by simp
  moreover have "b \<noteq> []" using i by auto
  ultimately show ?thesis using i(1) by (simp add: last_conv_nth)
qed

lemma two_branches_shape:
  assumes "two_branches env c b1 b2 s ss us"
  shows "is_branch b1" "is_branch b2" "fi_num (last b1) = fi_num (last b2)" "b1 \<noteq> []" "b2 \<noteq> []"
    "\<And>z. z \<in> set b1 \<Longrightarrow> fi_num (last b1) \<le> fi_num z"
proof -
  let ?db = "c_fork c"
  have wf: "fork_wf (hash_of env) ?db"
    and fetch: "fetch_branch_from (fi_id (hd b1)) (head_id env (c_state c)) ?db = Inr (b1, b2)"
    and mem: "set b1 \<union> set b2 \<subseteq> set (linked ?db)"
    using assms unfolding two_branches_def by blast+
  have br: "is_branch b1" "is_branch b2" "previous_id (last b1) = previous_id (last b2)" "b1 \<noteq> []" "b2 \<noteq> []"
    using fetch_branch_from_aux [OF wf, of "fi_id (hd b1)" "hd b1" "head_id env (c_state c)" "hd b2"]
      fetch_branch_lock [OF fetch] fetch by auto
  have own: "x \<in> set (owners ?db)" if "x \<in> set b1 \<union> set b2" for x using that mem by (auto simp: owners_set)
  show "fi_num (last b1) = fi_num (last b2)"
    using owner_num [OF wf own, of "last b1"] owner_num [OF wf own, of "last b2"] br
    by (simp add: block_num_def previous_id_def)
  show "is_branch b1" "is_branch b2" "b1 \<noteq> []" "b2 \<noteq> []" by (rule br)+
  show "fi_num (last b1) \<le> fi_num z" if "z \<in> set b1" for z using branch_least [OF br(1) that] .
qed

lemma two_branches_facts:
  assumes "two_branches env c b1 b2 s ss us"
  shows "length b2 < length b1" "is_branch b1" "\<forall>x \<in> set b1 \<union> set b2. fi_id x = block_id (hash_of env) (fi_data x)"
    "\<exists>p. pop_to env (previous_id (last b2)) c =
       (c\<lparr>c_fork := (c_fork c)\<lparr>f_head := Some (b1 ! length b2)\<rparr>, c_state := s, c_undo := us, c_popped := p\<rparr>, Inr ())"
proof -
  note br = two_branches_shape [OF assms]
  let ?db = "c_fork c"
  have wf: "fork_wf (hash_of env) ?db"
    and fetch: "fetch_branch_from (fi_id (hd b1)) (head_id env (c_state c)) ?db = Inr (b1, b2)"
    and tip: "f_head ?db = Some (hd b1)" "fi_num (hd b2) < fi_num (hd b1)"
    and mem: "set b1 \<union> set b2 \<subseteq> set (linked ?db)" and prior: "previous_id (last b2) \<notin> fi_id ` (set b1 \<union> set b2)"
    and run: "run_states env s (map fi_data (rev b2)) = Inr ss" and s: "head_id env s = previous_id (last b2)"
    and st: "c_state c = top_of s ss" "c_undo c = undo_of s ss us" and env: "env_ok env"
    using assms unfolding two_branches_def by blast+
  note lk = fetch_branch_lock [OF fetch]
  show "is_branch b1" by (rule br)
  show ids: "\<forall>x \<in> set b1 \<union> set b2. fi_id x = block_id (hash_of env) (fi_data x)"
    using mem wf by (auto simp: fork_wf_def item_ok_def owners_set)
  have "fi_num (last b) + (length b - 1) = fi_num (hd b)" if "is_branch b" "b \<noteq> []" for b
    using branch_num [OF that(1), of "length b - 1"] that(2) by (simp add: last_conv_nth)
  from this [OF br(1,4)] this [OF br(2,5)] br(3)
  show len: "length b2 < length b1" using tip(2) br(4,5) by (cases b1; cases b2) auto
  have "pops (length b2) ?db = Inr (?db\<lparr>f_head := Some (b1 ! length b2)\<rparr>)"
    using lk len mem tip(1) fork_wf_lists [OF wf] by (intro pops_along [OF wf]) (auto simp: owners_set)
  then have pops: "pops (length ss) ?db = Inr (?db\<lparr>f_head := Some (b1 ! length b2)\<rparr>)"
    using run_states_length [OF run] by simp
  have heads: "head_id env u \<noteq> previous_id (last b2) \<and> find_id (head_id env u) (linked ?db) \<noteq> None" if "u \<in> set ss" for u
  proof -
    have "head_id env u \<in> block_id (hash_of env) ` set (map fi_data (rev b2))"
      by (rule run_states_heads [OF env run that])
    then obtain x where x: "x \<in> set b2" "head_id env u = fi_id x" using ids by auto
    have "fi_id x \<noteq> previous_id (last b2)" using prior x(1) by (metis UnCI image_eqI)
    then show ?thesis using mem x by (auto simp: find_id_None)
  qed
  show "\<exists>p. pop_to env (previous_id (last b2)) c =
       (c\<lparr>c_fork := ?db\<lparr>f_head := Some (b1 ! length b2)\<rparr>, c_state := s, c_undo := us, c_popped := p\<rparr>, Inr ())"
    by (rule pop_to_success [OF st s _ pops]) (use heads in auto)
qed

lemma two_branches_fetch:
  assumes "two_branches env c b1 b2 s ss us"
  shows "fetch_branch_from (block_id (hash_of env) (fi_data (hd b1))) (head_id env (c_state c)) (c_fork c) = Inr (b1, b2)"
proof -
  have "hd b1 \<in> set b1" using two_branches_shape(4) [OF assms] by simp
  then have "fi_id (hd b1) = block_id (hash_of env) (fi_data (hd b1))" using two_branches_facts(3) [OF assms] by blast
  moreover have "fetch_branch_from (fi_id (hd b1)) (head_id env (c_state c)) (c_fork c) = Inr (b1, b2)"
    using assms unfolding two_branches_def by blast
  ultimately show ?thesis by simp
qed

lemma switch_success:
  assumes two: "two_branches env c b1 b2 s ss us" and run: "run_states env s (map fi_data (rev b1)) = Inr ts"
  shows "\<exists>c'. switch_fork env nb (hd b1) c = (c', Inr True) \<and> c_state c' = top_of s ts \<and> c_undo c' = undo_of s ts us
    \<and> f_head (c_fork c') = Some (b1 ! length b2)"
proof -
  note f = two_branches_facts [OF two]
  obtain p where pop: "pop_to env (previous_id (last b2)) c =
       (c\<lparr>c_fork := (c_fork c)\<lparr>f_head := Some (b1 ! length b2)\<rparr>, c_state := s, c_undo := us, c_popped := p\<rparr>, Inr ())"
    using f(4) by blast
  note fetch = two_branches_fetch [OF two]
  let ?c = "c\<lparr>c_fork := (c_fork c)\<lparr>f_head := Some (b1 ! length b2)\<rparr>, c_state := s, c_undo := us, c_popped := p\<rparr>"
  have "run_states env (c_state ?c) (map fi_data (rev b1)) = Inr ts" using run by simp
  from push_branch_success [OF this] pop fetch show ?thesis
    by (simp add: switch_fork_def previous_id_def [symmetric])
qed

lemma switch_fork_failed:
  assumes "fetch_branch_from (block_id (hash_of env) (fi_data t)) (head_id env (c_state c)) (c_fork c) = Inr (b1, b2)"
    and "pop_to env (previous_id (last b2)) c = (c1, Inr ())" "push_branch env (rev b1) c1 = (c2, Some (e, xs))"
    and "f = set_head (hd b2) (fold (\<lambda>x. remove_block (block_id (hash_of env) (fi_data x))) xs (c_fork c2))"
    and "pop_to env (previous_id (last b2)) (c2\<lparr>c_fork := f\<rparr>) = (c3, Inr ())"
    and "restore_branch env (block_id (hash_of env) nb) (rev b2) c3 = (c4, Inr ())"
  shows "switch_fork env nb t c = (c4, Inl e)"
  using assms by (simp add: switch_fork_def previous_id_def Let_def)

text \<open>
  A switch whose block \<open>bad\<close> fails: the blocks from \<open>bad\<close> on leave the fork database, whose head is
  set back to the old tip, and the chain stands on the last good block.
\<close>

lemma switch_rejects:
  assumes two: "two_branches env c b1 b2 s ss us"
    and run: "run_states env s (map fi_data good) = Inr ts" and split: "rev b1 = good @ bad # rest"
    and bad: "apply_block env (fi_data bad) (top_of s ts) = Inl e"
  obtains c1 c2 f where "pop_to env (previous_id (last b2)) c = (c1, Inr ())"
    "push_branch env (rev b1) c1 = (c2, Some (e, bad # rest))"
    "f = set_head (hd b2) (fold (\<lambda>x. remove_block (block_id (hash_of env) (fi_data x))) (bad # rest) (c_fork c2))"
    "linked f = filter (\<lambda>x. fi_id x \<notin> fi_id ` set (bad # rest)) (linked (c_fork c))"
    "f_head f = Some (hd b2)" "unlinked f = []" "c_state c2 = top_of s ts" "c_undo c2 = undo_of s ts us"
    "\<forall>u \<in> set ts. head_id env u \<noteq> previous_id (last b2) \<and> find_id (head_id env u) (linked f) \<noteq> None"
    "\<forall>n. set (held_back n (c_fork c) (hd b2)) \<subseteq> set (linked f)"
proof -
  note f = two_branches_facts [OF two] and shape = two_branches_shape [OF two]
  let ?db = "c_fork c"
  have wf: "fork_wf (hash_of env) ?db"
    and fetch: "fetch_branch_from (fi_id (hd b1)) (head_id env (c_state c)) ?db = Inr (b1, b2)"
    and mem: "set b1 \<union> set b2 \<subseteq> set (linked ?db)" and disj: "set b1 \<inter> set b2 = {}"
    and prior: "previous_id (last b2) \<notin> fi_id ` (set b1 \<union> set b2)" and env: "env_ok env"
    and head: "f_head ?db = Some (hd b1)"
    using two unfolding two_branches_def by blast+
  obtain p where pop: "pop_to env (previous_id (last b2)) c =
       (c\<lparr>c_fork := ?db\<lparr>f_head := Some (b1 ! length b2)\<rparr>, c_state := s, c_undo := us, c_popped := p\<rparr>, Inr ())"
    using f(4) by blast
  let ?c1 = "c\<lparr>c_fork := ?db\<lparr>f_head := Some (b1 ! length b2)\<rparr>, c_state := s, c_undo := us, c_popped := p\<rparr>"
  have setb1: "set b1 = set good \<union> {bad} \<union> set rest" using arg_cong [OF split, of set] by auto
  let ?log = "fold (\<lambda>x. store (codec env) (fi_id x) (fi_data x)) good (c_log c)"
  have "run_states env (c_state ?c1) (map fi_data good) = Inr ts" using run by simp
  note push = push_branch_failure [OF this, of bad e rest]
  let ?c2 = "?c1\<lparr>c_state := top_of s ts, c_undo := undo_of s ts us, c_log := ?log\<rparr>"
  have push: "push_branch env (rev b1) ?c1 = (?c2, Some (e, bad # rest))" using push bad split by simp
  have ids: "(\<lambda>x. block_id (hash_of env) (fi_data x)) ` set (bad # rest) = fi_id ` set (bad # rest)"
    using f(3) setb1 by (intro image_cong) auto
  let ?keep = "filter (\<lambda>x. fi_id x \<notin> fi_id ` set (bad # rest)) (linked ?db)"
  define fk where "fk = set_head (hd b2) (fold (\<lambda>x. remove_block (block_id (hash_of env) (fi_data x))) (bad # rest) (c_fork ?c2))"
  have fk: "linked fk = ?keep" "f_head fk = Some (hd b2)" "unlinked fk = []"
    using fork_wf_lists [OF wf] ids unfolding fk_def fold_remove_block by (simp_all add: set_head_def)
  have keep: "x \<in> set ?keep" if "x \<in> set (linked ?db)" "x \<notin> set (bad # rest)" for x
  proof -
    have "fi_id x \<noteq> fi_id y" if "y \<in> set (bad # rest)" for y
    proof
      assume "fi_id x = fi_id y"
      moreover have "y \<in> set (linked ?db)" using that mem setb1 by auto
      ultimately have "x = y" using \<open>x \<in> set (linked ?db)\<close> fork_wf_lists [OF wf] by (auto simp: distinct_map inj_on_def)
      then show False using that \<open>x \<notin> set (bad # rest)\<close> by simp
    qed
    then show ?thesis using that(1) by fastforce
  qed
  have "distinct (map fi_num (good @ bad # rest))"
    using branch_distinct [OF f(2)] split by (metis distinct_rev rev_map)
  then have keep_good: "x \<in> set ?keep" if "x \<in> set good" for x
    using that mem setb1 by (intro keep) (auto simp: distinct_map)
  have held: "set (held_back n ?db (hd b2)) \<subseteq> set (linked fk)" for n
  proof
    fix x assume "x \<in> set (held_back n ?db (hd b2))"
    then obtain k where k: "k < length (held_back n ?db (hd b2))" "x = held_back n ?db (hd b2) ! k"
      by (auto simp: in_set_conv_nth)
    note lk = fetch_branch_lock [OF fetch]
    have "hd b2 \<in> set (owners ?db)" using hd_in_set [OF shape(5)] mem by (auto simp: owners_set)
    note num = held_back_num [OF wf this k(1), folded k(2)]
    have x: "x \<in> set (linked ?db)" using num head mem fork_wf_lists [OF wf] lk by (auto simp: owners_set)
    have "x \<notin> set b1"
    proof (cases "k < length b2")
      case True
      then have "k \<le> n" using held_back_length [of n ?db "hd b2"] k(1) by simp
      then have "x = b2 ! k" using held_back_prefix [of ?db b2 k n] lk True k(2) by auto
      then show ?thesis using True disj by auto
    next
      case False
      have len: "fi_num (last b2) + (length b2 - 1) = fi_num (hd b2)" "length b2 \<noteq> 0"
        using branch_num [OF shape(2), of "length b2 - 1"] lk by (simp_all add: last_conv_nth)
      then have "fi_num x < fi_num (last b2)" using num False by linarith
      moreover have "fi_num (last b1) \<le> fi_num z" if "z \<in> set b1" for z
        using that shape(6) by blast
      ultimately show ?thesis using shape(3) by fastforce
    qed
    then show "x \<in> set (linked fk)" using keep [OF x] setb1 fk(1) by auto
  qed
  have heads: "\<forall>u \<in> set ts. head_id env u \<noteq> previous_id (last b2) \<and> find_id (head_id env u) (linked fk) \<noteq> None"
  proof
    fix u assume "u \<in> set ts"
    then have "head_id env u \<in> block_id (hash_of env) ` set (map fi_data good)"
      by (rule run_states_heads [OF env run])
    then obtain x where x: "x \<in> set good" "head_id env u = fi_id x" using f(3) setb1 by auto
    have "fi_id x \<noteq> previous_id (last b2)" using prior x(1) setb1 by (metis UnCI image_eqI)
    then show "head_id env u \<noteq> previous_id (last b2) \<and> find_id (head_id env u) (linked fk) \<noteq> None"
      using keep_good [OF x(1)] x(2) fk(1) by (auto simp: find_id_None)
  qed
  show thesis by (rule that [OF pop push fk_def fk _ _ heads]) (use held in auto)
qed

text \<open>If the fork database holds enough blocks below the old tip, the old branch is restored.\<close>

lemma switch_restores:
  assumes two: "two_branches env c b1 b2 s ss us"
    and run: "run_states env s (map fi_data good) = Inr ts" and split: "rev b1 = good @ bad # rest"
    and bad: "apply_block env (fi_data bad) (top_of s ts) = Inl e"
    and len: "length good < length (held_back (length good) (c_fork c) (hd b2))"
  shows "\<exists>c'. switch_fork env nb (hd b1) c = (c', Inl e) \<and> c_state c' = c_state c \<and> c_undo c' = c_undo c
    \<and> linked (c_fork c') = filter (\<lambda>x. fi_id x \<notin> fi_id ` set (bad # rest)) (linked (c_fork c))
    \<and> f_head (c_fork c') = Some (held_back (length good) (c_fork c) (hd b2) ! length good)"
proof -
  let ?db = "c_fork c" and ?i = "block_id (hash_of env) nb"
  have wf: "fork_wf (hash_of env) ?db" and run2: "run_states env s (map fi_data (rev b2)) = Inr ss"
    and fetch0: "fetch_branch_from (fi_id (hd b1)) (head_id env (c_state c)) ?db = Inr (b1, b2)"
    and s: "head_id env s = previous_id (last b2)"
    and st: "c_state c = top_of s ss" "c_undo c = undo_of s ss us" and head: "f_head ?db = Some (hd b1)"
    using two unfolding two_branches_def by blast+
  obtain c1 c2 fk where r: "pop_to env (previous_id (last b2)) c = (c1, Inr ())"
    "push_branch env (rev b1) c1 = (c2, Some (e, bad # rest))"
    "fk = set_head (hd b2) (fold (\<lambda>x. remove_block (block_id (hash_of env) (fi_data x))) (bad # rest) (c_fork c2))"
    "linked fk = filter (\<lambda>x. fi_id x \<notin> fi_id ` set (bad # rest)) (linked (c_fork c))"
    "f_head fk = Some (hd b2)" "unlinked fk = []" "c_state c2 = top_of s ts" "c_undo c2 = undo_of s ts us"
    "\<forall>u \<in> set ts. head_id env u \<noteq> previous_id (last b2) \<and> find_id (head_id env u) (linked fk) \<noteq> None"
    "\<forall>n. set (held_back n (c_fork c) (hd b2)) \<subseteq> set (linked fk)"
    by (rule switch_rejects [OF two run split bad])
  let ?h = "held_back (length good) ?db (hd b2) ! length good" and ?c2 = "c2\<lparr>c_fork := fk\<rparr>"
  have "pops (length good) fk = Inr (fk\<lparr>f_head := Some ?h\<rparr>)"
    using r(4-6,10) len held_back_chain by (intro pops_along [OF wf]) (auto simp: owners_set)
  then have pops: "pops (length ts) (c_fork ?c2) = Inr (fk\<lparr>f_head := Some ?h\<rparr>)"
    using run_states_length [OF run] by simp
  have "\<exists>q. pop_to env (previous_id (last b2)) ?c2 =
      (?c2\<lparr>c_fork := fk\<lparr>f_head := Some ?h\<rparr>, c_state := s, c_undo := us, c_popped := q\<rparr>, Inr ())"
    by (rule pop_to_success [where ts = ts and s = s and us = us, OF _ _ s _ pops]) (use r(7-9) in auto)
  then obtain q where pop2: "pop_to env (previous_id (last b2)) ?c2 =
      (?c2\<lparr>c_fork := fk\<lparr>f_head := Some ?h\<rparr>, c_state := s, c_undo := us, c_popped := q\<rparr>, Inr ())" by blast
  let ?c3 = "?c2\<lparr>c_fork := fk\<lparr>f_head := Some ?h\<rparr>, c_state := s, c_undo := us, c_popped := q\<rparr>"
  have "run_states env (c_state ?c3) (map fi_data (rev b2)) = Inr ss" using run2 by simp
  note res = restore_branch_success [OF this, of ?i]
  let ?c4 = "?c3\<lparr>c_state := top_of s ss, c_undo := undo_of s ss us,
      c_log := fold (\<lambda>x. store (codec env) ?i (fi_data x)) (rev b2) (c_log ?c3)\<rparr>"
  have res': "restore_branch env ?i (rev b2) ?c3 = (?c4, Inr ())" using res by simp
  have "switch_fork env nb (hd b1) c = (?c4, Inl e)"
    by (rule switch_fork_failed [OF two_branches_fetch [OF two] r(1-3) pop2 res'])
  then show ?thesis using st r(4) by (intro exI [of _ ?c4]) auto
qed

text \<open>If it does not, popping the rejected blocks throws and the chain is left among them.\<close>

lemma switch_strands:
  assumes two: "two_branches env c b1 b2 s ss us"
    and run: "run_states env s (map fi_data good) = Inr ts" and split: "rev b1 = good @ bad # rest"
    and bad: "apply_block env (fi_data bad) (top_of s ts) = Inl e"
    and len: "length (held_back (length good) (c_fork c) (hd b2)) = Suc k" "k < length good"
  shows "\<exists>c'. switch_fork env nb (hd b1) c = (c', Inl (assert_exception ''poping block would leave head block null''))
    \<and> c_state c' = top_of s (take (length good - k) ts) \<and> c_undo c' = undo_of s (take (length good - k) ts) us"
proof -
  let ?db = "c_fork c" and ?e = "assert_exception ''poping block would leave head block null''"
  have wf: "fork_wf (hash_of env) ?db" and head: "f_head ?db = Some (hd b1)"
    and mem: "set b1 \<union> set b2 \<subseteq> set (linked ?db)"
    using two unfolding two_branches_def by blast+
  obtain c1 c2 fk where r: "pop_to env (previous_id (last b2)) c = (c1, Inr ())"
    "push_branch env (rev b1) c1 = (c2, Some (e, bad # rest))"
    "fk = set_head (hd b2) (fold (\<lambda>x. remove_block (block_id (hash_of env) (fi_data x))) (bad # rest) (c_fork c2))"
    "linked fk = filter (\<lambda>x. fi_id x \<notin> fi_id ` set (bad # rest)) (linked (c_fork c))"
    "f_head fk = Some (hd b2)" "unlinked fk = []" "c_state c2 = top_of s ts" "c_undo c2 = undo_of s ts us"
    "\<forall>u \<in> set ts. head_id env u \<noteq> previous_id (last b2) \<and> find_id (head_id env u) (linked fk) \<noteq> None"
    "\<forall>n. set (held_back n (c_fork c) (hd b2)) \<subseteq> set (linked fk)"
    by (rule switch_rejects [OF two run split bad])
  let ?held = "held_back (length good) ?db (hd b2)" and ?c2 = "c2\<lparr>c_fork := fk\<rparr>"
  let ?f = "fk\<lparr>f_head := Some (?held ! k)\<rparr>"
  have pops: "pops k fk = Inr ?f"
    using r(4-6,10) len held_back_chain by (intro pops_along [OF wf]) (auto simp: owners_set)
  have "?held ! k \<in> set (linked fk)" using r(10) nth_mem [of k ?held] len(1) by fastforce
  then have "set (owners ?f) \<subseteq> set (owners ?db)" using r(4,6) by (auto simp: owners_set)
  moreover have "last ?held = ?held ! k" using len(1) by (simp add: last_conv_nth)
  ultimately have "lock_prev ?f (?held ! k) = None"
    using held_back_stops [of "length good" ?db "hd b2"] len lock_prev_gone by auto
  then have "pop_block ?f = Inl ?e" by (simp add: pop_block_def)
  moreover have ts: "length ts = length good" using run_states_length [OF run] by simp
  ultimately have "\<exists>q. pop_to env (previous_id (last b2)) ?c2 = (?c2\<lparr>c_fork := ?f, c_state := top_of s (take (length ts - k) ts),
      c_undo := undo_of s (take (length ts - k) ts) us, c_popped := q\<rparr>, Inl ?e)"
    using r(7-9) pops len(2) by (intro pop_to_stuck) auto
  then obtain q where pop2: "pop_to env (previous_id (last b2)) ?c2 = (?c2\<lparr>c_fork := ?f, c_state := top_of s (take (length ts - k) ts),
      c_undo := undo_of s (take (length ts - k) ts) us, c_popped := q\<rparr>, Inl ?e)" by blast
  show ?thesis
    using two_branches_fetch [OF two] r(1-3) pop2 ts by (simp add: switch_fork_def previous_id_def Let_def)
qed

text \<open>
  After a failed switch every block of the restored branch was stored under the id of the rejected
  block, so the block database takes the rejected block for a known one.
\<close>

lemma rejected_block_is_known:
  assumes "xs \<noteq> []" "block_id h nb \<noteq> zero_block_id" "\<And>b. 0 < length (pack cd b) mod 2 ^ 32"
  shows "contains (block_id h nb) (fold (\<lambda>x. store cd (block_id h nb) (fi_data x)) xs log)"
proof -
  let ?i = "block_id h nb"
  have one: "contains ?i (store cd ?i b db)" for b db
    using assms(2,3) by (simp add: contains_def store_def Let_def length_write_entry nth_write_entry)
  show ?thesis using assms(1) by (induction xs rule: rev_induct) (simp_all add: one)
qed


section \<open>A small chain with two branches\<close>

text \<open>
  The state is the list of the ids of the applied blocks; a block applies when it builds on the head
  and its time is not \<open>t\<close>. The chain stands on block (2, 20); the other branch has (2, 30) and (3, 40).
\<close>

definition demo_block_env :: "nat \<Rightarrow> block_id_type list chain_env" where
  "demo_block_env t = \<lparr>head_id = hd, head_num = length,
     apply_block = (\<lambda>b s. if hd s = previous b \<and> timestamp b \<noteq> t then Inr (block_id demo_hash b # s)
       else Inl (assert_exception ''block'')),
     codec = demo_codec\<lparr>codec_hash := demo_hash\<rparr>\<rparr>"

definition demo_tip :: fork_item where
  "demo_tip = (make_item demo_hash 3 (demo_fork_block (Block_id 2 30) 40))\<lparr>fi_prev := Some 2\<rparr>"

definition demo_two_forks :: fork_database where
  "demo_two_forks = \<lparr>next_addr = 4, max_size = 1024, unlinked = [],
     linked = [demo_item 0, demo_item 1, demo_item 2, demo_tip], f_head = Some demo_tip\<rparr>"

definition demo_forked_chain :: "block_id_type list block_chain" where
  "demo_forked_chain = \<lparr>c_fork = demo_two_forks, c_state = [Block_id 2 20, Block_id 1 10], c_undo = [[Block_id 1 10]],
     c_log = \<lparr>num_to_pos = [], blocks_file = []\<rparr>, c_popped = []\<rparr>"

lemma demo_tip_simps [simp]:
  "fi_addr demo_tip = 3" "fi_prev demo_tip = Some 2" "fi_num demo_tip = 3" "fi_id demo_tip = Block_id 3 40"
  "previous_id demo_tip = Block_id 2 30" "fi_data demo_tip = demo_fork_block (Block_id 2 30) 40"
  by (simp_all add: demo_tip_def demo_item_eval previous_id_def)

lemma demo_push4:
  "push_block demo_hash (demo_fork_block (Block_id 2 30) 40) demo_forks = Inr (Some demo_tip, demo_two_forks)"
proof -
  have i: "make_item demo_hash 3 (demo_fork_block (Block_id 2 30) 40) = demo_tip\<lparr>fi_prev := None\<rparr>"
    by (simp add: demo_tip_def make_item_def)
  have l: "link_item (demo_tip\<lparr>fi_prev := None\<rparr>) (demo_forks\<lparr>next_addr := 4\<rparr>) = Inr demo_tip"
    by (simp add: link_item_def previous_id_def find_id_def demo_forks_def zero_block_id_def demo_fork_block_def)
  have d: "f_head demo_forks = Some (demo_item 1)" "max_size demo_forks = 1024" "next_addr demo_forks = 3"
    "linked demo_forks = [demo_item 0, demo_item 1, demo_item 2]"
    by (simp_all add: demo_forks_def)
  have ins: "index_insert demo_tip [demo_item 0, demo_item 1, demo_item 2] = [demo_item 0, demo_item 1, demo_item 2, demo_tip]"
    by (simp add: index_insert_def find_id_def)
  have er: "erase_below 0 xs = xs" for xs by (cases xs) (simp_all add: erase_below_def)
  have "push_item (demo_tip\<lparr>fi_prev := None\<rparr>) (demo_forks\<lparr>next_addr := 4\<rparr>) = Inr demo_two_forks"
    using ins by (simp add: push_item_def d l er Let_def) (simp add: demo_forks_def demo_two_forks_def)
  then show ?thesis by (simp add: push_block_def d i) (simp add: demo_two_forks_def)
qed

lemma demo_two_forks_wf: "fork_wf demo_hash demo_two_forks"
  using wf_push_block [OF fork_reachable_wf_aux [OF demo_forks_reachable] demo_push4] .

lemma demo_tip_num [simp]: "unat (block_num (demo_fork_block (Block_id 2 30) 40)) = 3"
  by (simp add: block_num_def num_from_id_def demo_fork_block_def)

lemma demo_item_num [simp]: "unat (block_num (fi_data (demo_item k))) = (if k = 0 then 1 else 2)"
  by (simp add: demo_item_eval)

lemma descend_unfold: "0 < f \<Longrightarrow> descend f db n x acc =
    (if unat (block_num (fi_data x)) > n then bindE (lock_or_throw db x) (\<lambda>p. descend (f - 1) db n p (acc @ [x])) else Inr (x, acc))"
  by (cases f) simp_all

lemma descend_both_unfold: "0 < f \<Longrightarrow> descend_both f db x y xs ys =
    (if previous (fi_data x) \<noteq> previous (fi_data y)
     then bindE (lock_or_throw db x) (\<lambda>x'. bindE (lock_or_throw db y) (\<lambda>y'. descend_both (f - 1) db x' y' (xs @ [x]) (ys @ [y])))
     else Inr (xs @ [x], ys @ [y]))"
  by (cases f) simp_all

lemma demo_fetch:
  "fetch_branch_from (Block_id 3 40) (Block_id 2 20) demo_two_forks = Inr ([demo_tip, demo_item 2], [demo_item 1])"
proof -
  have "find_id (Block_id 3 40) (linked demo_two_forks) = Some demo_tip"
    "find_id (Block_id 2 20) (linked demo_two_forks) = Some (demo_item 1)"
    "lock_or_throw demo_two_forks demo_tip = Inr (demo_item 2)"
    by (simp_all add: find_id_def demo_two_forks_def lock_prev_def owners_def)
  then show ?thesis
    by (simp add: fetch_branch_from_def descend_unfold descend_both_unfold)
qed

lemma demo_locks:
  "lock_prev demo_two_forks (demo_item 1) = Some (demo_item 0)"
  "lock_prev (demo_two_forks\<lparr>linked := [demo_item 1, demo_item 2, demo_tip]\<rparr>) (demo_item 1) = None"
  by (simp_all add: lock_prev_def owners_def demo_two_forks_def)

text \<open>The same branches once the block below them is no longer held.\<close>

definition demo_cut_forks :: fork_database where
  "demo_cut_forks = demo_two_forks\<lparr>linked := [demo_item 1, demo_item 2, demo_tip]\<rparr>"

lemma demo_cut_fetch:
  "fetch_branch_from (Block_id 3 40) (Block_id 2 20) demo_cut_forks = Inr ([demo_tip, demo_item 2], [demo_item 1])"
proof -
  have "find_id (Block_id 3 40) (linked demo_cut_forks) = Some demo_tip"
    "find_id (Block_id 2 20) (linked demo_cut_forks) = Some (demo_item 1)"
    "lock_or_throw demo_cut_forks demo_tip = Inr (demo_item 2)"
    by (simp_all add: find_id_def demo_cut_forks_def demo_two_forks_def lock_prev_def owners_def)
  then show ?thesis
    by (simp add: fetch_branch_from_def descend_unfold descend_both_unfold)
qed

lemma demo_cut_wf: "fork_wf demo_hash demo_cut_forks"
  by (rule fork_wf_subset [OF demo_two_forks_wf]; use fork_wf_lists [OF demo_two_forks_wf] in
    \<open>auto simp: demo_cut_forks_def demo_two_forks_def owners_set\<close>)

lemma demo_two_branches:
  assumes "t \<noteq> 20" and db: "db = demo_two_forks \<or> db = demo_cut_forks"
  shows "two_branches (demo_block_env t) (demo_forked_chain\<lparr>c_fork := db\<rparr>) [demo_tip, demo_item 2] [demo_item 1]
    [Block_id 1 10] [[Block_id 2 20, Block_id 1 10]] []"
proof -
  have id1: "block_id demo_hash (fi_data (demo_item 1)) = Block_id 2 20" "timestamp (fi_data (demo_item 1)) = 20"
    by (simp_all add: demo_item_eval)
  have "run_states (demo_block_env t) [Block_id 1 10] (map fi_data (rev [demo_item 1])) = Inr [[Block_id 2 20, Block_id 1 10]]"
    using assms id1 by (simp add: demo_block_env_def)
  moreover have "env_ok (demo_block_env t)" by (simp add: env_ok_def demo_block_env_def)
  moreover have "codec_hash (codec (demo_block_env t)) = demo_hash" by (simp add: demo_block_env_def)
  moreover have "head_id (demo_block_env t) = hd" by (simp add: demo_block_env_def)
  moreover have "demo_item 1 \<noteq> demo_item 2" "demo_item 1 \<noteq> demo_tip"
    using demo_item_simps(1) demo_tip_simps(1) by (metis one_eq_numeral_iff num.distinct(1,3))+
  moreover have "fetch_branch_from (Block_id 3 40) (Block_id 2 20) db = Inr ([demo_tip, demo_item 2], [demo_item 1])"
    "fork_wf demo_hash db" "f_head db = Some demo_tip" "{demo_tip, demo_item 2, demo_item 1} \<subseteq> set (linked db)"
    using db demo_fetch demo_two_forks_wf demo_cut_fetch demo_cut_wf by (auto simp: demo_two_forks_def demo_cut_forks_def)
  ultimately show ?thesis unfolding two_branches_def by (auto simp: demo_forked_chain_def)
qed


end
