(* ===== verification/Evaluator.thy ===== *)
theory Evaluator
  imports Balance
begin

text \<open>
  What every operation evaluator shares: \<^verbatim>\<open>evaluator.cpp\<close> (the fee of an operation), and the
  authorization of an account for an asset of \<^verbatim>\<open>is_authorized_asset.cpp\<close>. The fee that the schedule
  requires is an argument, since the schedule has one entry per operation type.
\<close>

section \<open>Authorization for an asset\<close>

definition HARDFORK_415_TIME :: nat where "HARDFORK_415_TIME = 1446652800"
definition HARDFORK_419_TIME :: nat where "HARDFORK_419_TIME = 1446652800"

definition slow_is_authorized_asset ::
  "database \<Rightarrow> account_object \<Rightarrow> asset_id_type \<Rightarrow> asset_object \<Rightarrow> bool" where
  "slow_is_authorized_asset db acct asset_obj_id asset_obj =
    (if (case allowed_assets acct of None \<Rightarrow> False | Some as \<Rightarrow> asset_obj_id \<notin> set as) then False
     else if list_ex (\<lambda>i. i \<in> set (blacklist_authorities (a_options asset_obj))) (blacklisting_accounts acct) then False
     else if HARDFORK_415_TIME < head_block_time db \<and> length (whitelist_authorities (a_options asset_obj)) = 0 then True
     else list_ex (\<lambda>i. i \<in> set (whitelist_authorities (a_options asset_obj))) (whitelisting_accounts acct))"

definition is_authorized_asset ::
  "database \<Rightarrow> account_object \<Rightarrow> asset_id_type \<Rightarrow> asset_object \<Rightarrow> bool" where
  "is_authorized_asset db acct asset_obj_id asset_obj =
    (if \<not> has_flag (flags (a_options asset_obj)) white_list \<and> allowed_assets acct = None then True
     else slow_is_authorized_asset db acct asset_obj_id asset_obj)"

section \<open>The fee of an operation\<close>

text \<open>
  \<open>prepare_fee\<close> fills in the members of the evaluator; what depends on the operation is the payer,
  the fee it offers and the core amount that it is worth.
\<close>

record fee_state =
  fee_paying_account :: account_id_type
  fee_from_account :: asset
  core_fee_paid :: share_type

definition prepare_fee :: "account_id_type \<Rightarrow> asset \<Rightarrow> database \<Rightarrow> fee_state exn" where
  "prepare_fee account fee db =
    bindE (fc_assert (0 \<le> amount fee) ''fee.amount >= 0'') (\<lambda>_.
    bindE (get_account db account) (\<lambda>acc.
    bindE (idx_get ''account_statistics'' (account_stats db) (statistics acc)) (\<lambda>_.
    bindE (get_asset db (asset_id fee)) (\<lambda>fee_asset.
    bindE (idx_get ''asset_dynamic_data'' (asset_dynamic_data db) (dynamic_asset_data_id fee_asset)) (\<lambda>dyn.
    bindE (if HARDFORK_419_TIME < head_block_time db
           then fc_assert (is_authorized_asset db acc (asset_id fee) fee_asset) ''unauthorized fee asset''
           else Inr ()) (\<lambda>_.
    bindE (if asset_id fee = 0 then Inr (amount fee)
           else bindE (asset_times_price fee (ao_core_exchange_rate (a_options fee_asset))) (\<lambda>fee_from_pool.
                bindE (fc_assert (asset_id fee_from_pool = 0) ''fee_from_pool.asset_id'') (\<lambda>_.
                bindE (fc_assert (amount fee_from_pool \<le> fee_pool dyn) ''Fee pool balance'') (\<lambda>_.
                Inr (amount fee_from_pool))))) (\<lambda>core.
    Inr \<lparr>fee_paying_account = account, fee_from_account = fee, core_fee_paid = core\<rparr>)))))))"

definition check_required_fee :: "bool \<Rightarrow> share_type \<Rightarrow> fee_state \<Rightarrow> unit exn" where
  "check_required_fee skip_fee_schedule_check required fs =
    (if skip_fee_schedule_check \<or> required \<le> core_fee_paid fs then Inr () else Inl (chain_exception ''insufficient_fee''))"

definition convert_fee :: "bool \<Rightarrow> fee_state \<Rightarrow> database \<Rightarrow> database exn" where
  "convert_fee skip_fee fs db =
    (if skip_fee \<or> asset_id (fee_from_account fs) = 0 then Inr db
     else modify_dynamic (asset_id (fee_from_account fs)) (\<lambda>d.
       bindE (safe_add (accumulated_fees d) (amount (fee_from_account fs))) (\<lambda>x.
       bindE (safe_sub (fee_pool d) (core_fee_paid fs)) (\<lambda>y.
       Inr (d\<lparr>accumulated_fees := x, fee_pool := y\<rparr>)))) db)"

definition modify_stats ::
  "account_id_type \<Rightarrow> (account_statistics_object \<Rightarrow> account_statistics_object exn) \<Rightarrow> database \<Rightarrow> database exn" where
  "modify_stats a f db =
    bindE (get_account db a) (\<lambda>acc.
    bindE (idx_modify ''account_statistics'' (account_stats db) (statistics acc) f) (\<lambda>t.
    Inr (db\<lparr>account_stats := t\<rparr>)))"

definition pay_fee :: "bool \<Rightarrow> fee_state \<Rightarrow> database \<Rightarrow> database exn" where
  "pay_fee skip_fee fs db =
    (if skip_fee then Inr db
     else modify_stats (fee_paying_account fs)
       (stats_pay_fee (core_fee_paid fs) (cashback_vesting_threshold (parameters (global_properties db)))) db)"

section \<open>Their effect on the books\<close>

text \<open>A change of the statistics of one account moves the books by its change of the pending fees.\<close>

lemma modify_stats_effect:
  assumes "modify_stats a f db = Inr db'" "db_ok db"
  obtains acc s s' where "idx_find (accounts db) a = Some acc" "idx_find (account_stats db) (statistics acc) = Some s"
    "f s = Inr s'" "db' = db\<lparr>account_stats := idx_put (account_stats db) (statistics acc) s'\<rparr>" "db_ok db'"
    "\<And>i. books i db' = books i db + stat_amount i s' - stat_amount i s"
proof -
  from assms(1) obtain acc s s' where a: "idx_find (accounts db) a = Some acc"
    and s: "idx_find (account_stats db) (statistics acc) = Some s" and f: "f s = Inr s'"
    and db': "db' = db\<lparr>account_stats := idx_put (account_stats db) (statistics acc) s'\<rparr>"
    by (auto simp: modify_stats_def)
  have o: "idx_ok (account_stats db)" using assms(2) by (rule db_okD)
  have "books i db' = books i db + stat_amount i s' - stat_amount i s" for i
    by (simp add: db' books_def db_simps idx_sum_put [OF o s])
  moreover have "db_ok db'" using db_ok_update(2) [OF assms(2)] o by (simp add: db')
  ultimately show thesis using that a s f db' by blast
qed

lemma stats_pay_fee_amount: "stats_pay_fee x t s = Inr s' \<Longrightarrow> stat_amount i s' = stat_amount i s + asset_part i (mk_asset x 0)"
  by (auto simp: stats_pay_fee_def stat_amount_def asset_part_def split: if_splits)

lemma convert_fee_effect:
  assumes "convert_fee False fs db = Inr db'" "db_ok db"
    and "asset_id (fee_from_account fs) = 0 \<longrightarrow> core_fee_paid fs = amount (fee_from_account fs)"
  shows "db_ok db'"
    and "books i db' = books i db + asset_part i (fee_from_account fs) - asset_part i (mk_asset (core_fee_paid fs) 0)"
    and "accounts db' = accounts db" "limit_orders db' = limit_orders db" "asset_bitasset_data db' = asset_bitasset_data db"
    "assets db' = assets db" "\<exists>t. db' = db\<lparr>asset_dynamic_data := t\<rparr>"
proof -
  have "db_ok db' \<and> books i db' = books i db + asset_part i (fee_from_account fs) - asset_part i (mk_asset (core_fee_paid fs) 0)
    \<and> accounts db' = accounts db \<and> limit_orders db' = limit_orders db \<and> asset_bitasset_data db' = asset_bitasset_data db
    \<and> assets db' = assets db \<and> (\<exists>t. db' = db\<lparr>asset_dynamic_data := t\<rparr>)"
  proof (cases "asset_id (fee_from_account fs) = 0")
    case True
    then have "db' = db" using assms(1) by (simp add: convert_fee_def)
    then show ?thesis using assms(2,3) True by (simp add: asset_part_def exI [of _ "asset_dynamic_data db"])
  next
    case False
    then obtain a d where a: "idx_find (assets db) (asset_id (fee_from_account fs)) = Some a"
      and d: "idx_find (asset_dynamic_data db) (dynamic_asset_data_id a) = Some d"
      and db': "db' = db\<lparr>asset_dynamic_data := idx_put (asset_dynamic_data db) (dynamic_asset_data_id a)
        (d\<lparr>accumulated_fees := accumulated_fees d + amount (fee_from_account fs), fee_pool := fee_pool d - core_fee_paid fs\<rparr>)\<rparr>"
      using assms(1) by (auto simp: convert_fee_def modify_dynamic_def)
    note e = dynamic_put_effect [OF assms(2) a d db']
    show ?thesis using e False by (auto simp: books_def asset_part_def db')
  qed
  then show "db_ok db'"
    "books i db' = books i db + asset_part i (fee_from_account fs) - asset_part i (mk_asset (core_fee_paid fs) 0)"
    "accounts db' = accounts db" "limit_orders db' = limit_orders db" "asset_bitasset_data db' = asset_bitasset_data db"
    "assets db' = assets db" "\<exists>t. db' = db\<lparr>asset_dynamic_data := t\<rparr>" by blast+
qed

lemma prepare_fee_facts:
  "prepare_fee a fee db = Inr fs \<Longrightarrow> fee_from_account fs = fee \<and> fee_paying_account fs = a \<and> 0 \<le> core_fee_paid fs
    \<and> (asset_id fee = 0 \<longrightarrow> core_fee_paid fs = amount fee)"
  by (auto simp: prepare_fee_def asset_times_price_def Let_def split: if_splits)

section \<open>Running an operation\<close>

text \<open>
  \<open>evaluate\<close> and \<open>apply\<close> of the template \<^verbatim>\<open>evaluator<DerivedEvaluator>\<close>, as \<open>start_evaluate\<close> runs them
  for an operation that is applied. What evaluation found is handed to the application.
\<close>

definition start_evaluate ::
  "bool \<Rightarrow> share_type \<Rightarrow> account_id_type \<Rightarrow> asset \<Rightarrow> (fee_state \<Rightarrow> database \<Rightarrow> 'e exn) \<Rightarrow> bool
    \<Rightarrow> (fee_state \<Rightarrow> database \<Rightarrow> database exn) \<Rightarrow> ('e \<Rightarrow> fee_state \<Rightarrow> database \<Rightarrow> ('r \<times> database) exn) \<Rightarrow> database
    \<Rightarrow> ('r \<times> database) exn" where
  "start_evaluate skip_fee_schedule_check required payer fee do_evaluate skip_fee pay do_apply db =
    bindE (prepare_fee payer fee db) (\<lambda>fs.
    bindE (check_required_fee skip_fee_schedule_check required fs) (\<lambda>_.
    bindE (do_evaluate fs db) (\<lambda>e.
    bindE (convert_fee skip_fee fs db) (\<lambda>db.
    bindE (pay fs db) (\<lambda>db.
    bindE (do_apply e fs db) (\<lambda>r.
    bindE (asset_neg (fee_from_account fs)) (\<lambda>neg.
    bindE (adjust_balance payer neg (snd r)) (\<lambda>db.
    Inr (fst r, db)))))))))"

text \<open>
  What an evaluator promises of its fee: paying and applying together add the core fee to the books.
  Then the whole operation leaves the books as they were.
\<close>

locale fee_paying_evaluator =
  fixes ok :: "database \<Rightarrow> bool"
    and ev :: "fee_state \<Rightarrow> database \<Rightarrow> 'e exn"
    and pay :: "fee_state \<Rightarrow> database \<Rightarrow> database exn"
    and app :: "'e \<Rightarrow> fee_state \<Rightarrow> database \<Rightarrow> ('r \<times> database) exn"
  assumes ok_db: "ok db \<Longrightarrow> db_ok db"
    and ok_convert: "ok db \<Longrightarrow> asset_id (fee_from_account fs) = 0 \<longrightarrow> core_fee_paid fs = amount (fee_from_account fs)
      \<Longrightarrow> convert_fee False fs db = Inr db' \<Longrightarrow> ok db'"
    and ok_adjust: "ok db \<Longrightarrow> adjust_balance a x db = Inr db' \<Longrightarrow> ok db'"
    and app_books: "ok db \<Longrightarrow> ev fs db0 = Inr e \<Longrightarrow> \<exists>t. db = db0\<lparr>asset_dynamic_data := t\<rparr>
      \<Longrightarrow> 0 \<le> core_fee_paid fs \<Longrightarrow> pay fs db = Inr db1 \<Longrightarrow> app e fs db1 = Inr r
      \<Longrightarrow> ok (snd r) \<and> (\<forall>i. books i (snd r) = books i db + asset_part i (mk_asset (core_fee_paid fs) 0))"
begin

lemma operation_conserves:
  assumes "start_evaluate sk rq payer fee ev False pay app db = Inr r" "ok db"
  shows "ok (snd r)" "books i (snd r) = books i db"
proof -
  from assms(1) obtain fs e db1 db2 q neg where fs: "prepare_fee payer fee db = Inr fs"
    and v: "ev fs db = Inr e" and c: "convert_fee False fs db = Inr db1" and p: "pay fs db1 = Inr db2" and a: "app e fs db2 = Inr q"
    and n: "asset_neg (fee_from_account fs) = Inr neg" and b: "adjust_balance payer neg (snd q) = Inr (snd r)"
    by (auto simp: start_evaluate_def)
  note f = prepare_fee_facts [OF fs]
  then have core: "asset_id (fee_from_account fs) = 0 \<longrightarrow> core_fee_paid fs = amount (fee_from_account fs)" by simp
  have ok1: "ok db1" using ok_convert [OF assms(2) core c] .
  have q: "ok (snd q)" "books i (snd q) = books i db1 + asset_part i (mk_asset (core_fee_paid fs) 0)"
    using app_books [OF ok1 v convert_fee_effect(7) [OF c ok_db [OF assms(2)] core] _ p a] f by auto
  show "ok (snd r)" using ok_adjust [OF q(1) b] .
  have "asset_part i neg = - asset_part i (fee_from_account fs)" using n by (auto simp: asset_neg_def asset_part_def)
  then show "books i (snd r) = books i db"
    using adjust_balance_frame(2) [OF b ok_db [OF q(1)], of i] q(2) convert_fee_effect(2) [OF c ok_db [OF assms(2)] core, of i]
    by simp
qed

end

end
