(* ===== verification/Market.thy ===== *)
theory Market
  imports Evaluator
begin

text \<open>
  The market: \<^verbatim>\<open>db_market.cpp\<close>, \<^verbatim>\<open>check_for_blackswan\<close> of \<^verbatim>\<open>db_update.cpp\<close>, and the accessors of
  \<^verbatim>\<open>market_object.hpp\<close>. An order is referred to by its id. A walk over an ordered index takes the ids of
  the range in the order of the index; the code advances its iterators before it removes the object
  they point to, and never changes the key of an object, so that the range is that of the start. An
  object that has vanished under an iterator is an error of the lookup. An \<^verbatim>\<open>assert\<close> of the source is a
  check like any other. A walk of \<open>check_call_orders\<close> keeps both iterators as the lists that are left.
\<close>

section \<open>Orders and their indices\<close>

definition HARDFORK_436_TIME :: nat where "HARDFORK_436_TIME = 1450288800"
definition HARDFORK_555_TIME :: nat where "HARDFORK_555_TIME = 1456250400"

definition amount_for_sale :: "limit_order_object \<Rightarrow> asset" where
  "amount_for_sale ord = mk_asset (for_sale ord) (asset_id (base (sell_price ord)))"

definition amount_to_receive :: "limit_order_object \<Rightarrow> asset exn" where
  "amount_to_receive ord = asset_times_price (amount_for_sale ord) (sell_price ord)"

definition get_collateral :: "call_order_object \<Rightarrow> asset" where
  "get_collateral c = mk_asset (collateral c) (asset_id (base (co_call_price c)))"

definition get_debt :: "call_order_object \<Rightarrow> asset" where
  "get_debt c = mk_asset (debt c) (asset_id (quote (co_call_price c)))"

definition collateralization :: "call_order_object \<Rightarrow> price exn" where
  "collateralization c = asset_div (get_collateral c) (get_debt c)"

text \<open>The \<open>by_price\<close> views: limit orders from the greatest price, call orders from the least.\<close>

fun insert_ordered :: "('a \<Rightarrow> 'a \<Rightarrow> bool) \<Rightarrow> 'a \<Rightarrow> 'a list \<Rightarrow> 'a list" where
  "insert_ordered first x [] = [x]"
| "insert_ordered first x (y # ys) = (if first x y then x # y # ys else y # insert_ordered first x ys)"

definition order_by :: "('a \<Rightarrow> 'a \<Rightarrow> bool) \<Rightarrow> 'a list \<Rightarrow> 'a list" where
  "order_by first xs = foldr (insert_ordered first) xs []"

definition limit_before :: "nat \<times> limit_order_object \<Rightarrow> nat \<times> limit_order_object \<Rightarrow> bool" where
  "limit_before x y \<longleftrightarrow> price_gt (sell_price (snd x)) (sell_price (snd y))
    \<or> \<not> price_gt (sell_price (snd y)) (sell_price (snd x)) \<and> fst x < fst y"

definition call_before :: "nat \<times> call_order_object \<Rightarrow> nat \<times> call_order_object \<Rightarrow> bool" where
  "call_before x y \<longleftrightarrow> price_lt (co_call_price (snd x)) (co_call_price (snd y))
    \<or> \<not> price_lt (co_call_price (snd y)) (co_call_price (snd x)) \<and> fst x < fst y"

text \<open>From \<open>lower_bound(highest)\<close> to \<open>upper_bound(lowest)\<close>, and from \<open>lower_bound(lo)\<close> to \<open>upper_bound(hi)\<close>.\<close>

definition limits_between :: "price \<Rightarrow> price \<Rightarrow> database \<Rightarrow> nat list" where
  "limits_between highest lowest db =
    map fst (filter (\<lambda>p. \<not> price_gt (sell_price (snd p)) highest \<and> \<not> price_gt lowest (sell_price (snd p)))
      (order_by limit_before (objs (limit_orders db))))"

definition calls_between :: "price \<Rightarrow> price \<Rightarrow> database \<Rightarrow> nat list" where
  "calls_between lo hi db =
    map fst (filter (\<lambda>p. \<not> price_lt (co_call_price (snd p)) lo \<and> \<not> price_lt hi (co_call_price (snd p)))
      (order_by call_before (objs (call_orders db))))"

definition bitasset_data :: "asset_object \<Rightarrow> database \<Rightarrow> asset_bitasset_data_object exn" where
  "bitasset_data a db =
    bindE (ofOption (assert_exception ''bitasset_data_id'') (bitasset_data_id a)) (\<lambda>bid.
    idx_get ''asset_bitasset_data'' (asset_bitasset_data db) bid)"

definition modify_bitasset ::
  "asset_object \<Rightarrow> (asset_bitasset_data_object \<Rightarrow> asset_bitasset_data_object exn) \<Rightarrow> database \<Rightarrow> database exn" where
  "modify_bitasset a f db =
    bindE (ofOption (assert_exception ''bitasset_data_id'') (bitasset_data_id a)) (\<lambda>bid.
    bindE (idx_modify ''asset_bitasset_data'' (asset_bitasset_data db) bid f) (\<lambda>t.
    Inr (db\<lparr>asset_bitasset_data := t\<rparr>)))"

section \<open>Canceling\<close>

definition cancel_limit_order :: "nat \<Rightarrow> bool \<Rightarrow> database \<Rightarrow> database exn" where
  "cancel_limit_order oid create_virtual_op db =
    bindE (idx_get ''limit_order'' (limit_orders db) oid) (\<lambda>ord.
    let refunded = amount_for_sale ord in
    bindE (modify_stats (seller ord) (\<lambda>s.
        if asset_id refunded = 0
        then bindE (safe_sub (total_core_in_orders s) (amount refunded)) (\<lambda>x. Inr (s\<lparr>total_core_in_orders := x\<rparr>))
        else Inr s) db) (\<lambda>db.
    bindE (adjust_balance (seller ord) refunded db) (\<lambda>db.
    bindE (adjust_balance (seller ord) (mk_asset (deferred_fee ord) 0) db) (\<lambda>db.
    let db = (if create_virtual_op then push_applied_operation (limit_order_cancel_vop oid (seller ord)) db else db)
    in Inr (db\<lparr>limit_orders := idx_remove (limit_orders db) oid\<rparr>)))))"

definition cancel_settle_order :: "nat \<Rightarrow> bool \<Rightarrow> database \<Rightarrow> database exn" where
  "cancel_settle_order sid create_virtual_op db =
    bindE (idx_get ''force_settlement'' (force_settlements db) sid) (\<lambda>ord.
    bindE (adjust_balance (fs_owner ord) (fs_balance ord) db) (\<lambda>db.
    let db = (if create_virtual_op
              then push_applied_operation (asset_settle_cancel_vop sid (fs_owner ord) (fs_balance ord)) db else db)
    in Inr (db\<lparr>force_settlements := idx_remove (force_settlements db) sid\<rparr>)))"

definition cancel_bid :: "nat \<Rightarrow> bool \<Rightarrow> database \<Rightarrow> database exn" where
  "cancel_bid bid create_virtual_op db =
    bindE (idx_get ''collateral_bid'' (collateral_bids db) bid) (\<lambda>b.
    bindE (adjust_balance (bidder b) (base (inv_swan_price b)) db) (\<lambda>db.
    let db = (if create_virtual_op
              then push_applied_operation (bid_collateral_vop (bidder b) (base (inv_swan_price b))
                     (mk_asset 0 (asset_id (quote (inv_swan_price b))))) db else db)
    in Inr (db\<lparr>collateral_bids := idx_remove (collateral_bids db) bid\<rparr>)))"

definition maybe_cull_small_order :: "nat \<Rightarrow> database \<Rightarrow> (bool \<times> database) exn" where
  "maybe_cull_small_order oid db =
    bindE (idx_get ''limit_order'' (limit_orders db) oid) (\<lambda>ord.
    bindE (amount_to_receive ord) (\<lambda>r.
    if amount r = 0 then bindE (cancel_limit_order oid True db) (\<lambda>db. Inr (True, db)) else Inr (False, db)))"

section \<open>Filling\<close>

definition calculate_market_fee :: "asset_object \<Rightarrow> asset \<Rightarrow> asset" where
  "calculate_market_fee trade_asset trade_amount =
    (if \<not> charges_market_fees trade_asset then mk_asset 0 (asset_id trade_amount)
     else if market_fee_percent (a_options trade_asset) = 0 then mk_asset 0 (asset_id trade_amount)
     else
       let a = u128 (amount trade_amount) * u128 (int (market_fee_percent (a_options trade_asset))) div u128 10000;
           percent_fee = wrap64 (uint a)
       in mk_asset (if max_market_fee (a_options trade_asset) < percent_fee
                    then max_market_fee (a_options trade_asset) else percent_fee) (asset_id trade_amount))"

definition pay_market_fees :: "asset \<Rightarrow> database \<Rightarrow> (asset \<times> database) exn" where
  "pay_market_fees receives db =
    bindE (get_asset db (asset_id receives)) (\<lambda>recv_asset.
    let issuer_fees = calculate_market_fee recv_asset receives in
    bindE (asset_le issuer_fees receives) (\<lambda>le.
    bindE (fc_assert le ''issuer_fees <= receives'') (\<lambda>_.
    if 0 < amount issuer_fees
    then bindE (modify_dynamic (asset_id receives) (\<lambda>d.
           bindE (safe_add (accumulated_fees d) (amount issuer_fees)) (\<lambda>x. Inr (d\<lparr>accumulated_fees := x\<rparr>))) db) (\<lambda>db.
         Inr (issuer_fees, db))
    else Inr (issuer_fees, db))))"

definition pay_order :: "account_id_type \<Rightarrow> asset \<Rightarrow> asset \<Rightarrow> database \<Rightarrow> database exn" where
  "pay_order receiver receives pays db =
    bindE (modify_stats receiver (\<lambda>s.
        if asset_id pays = 0
        then bindE (safe_sub (total_core_in_orders s) (amount pays)) (\<lambda>x. Inr (s\<lparr>total_core_in_orders := x\<rparr>))
        else Inr s) db) (\<lambda>db.
    adjust_balance receiver receives db)"

definition fill_limit_order ::
  "nat \<Rightarrow> asset \<Rightarrow> asset \<Rightarrow> bool \<Rightarrow> price \<Rightarrow> bool \<Rightarrow> database \<Rightarrow> (bool \<times> database) exn" where
  "fill_limit_order oid pays receives cull_if_small fill_price is_maker db =
    bindE (idx_get ''limit_order'' (limit_orders db) oid) (\<lambda>ord.
    let cull = cull_if_small \<or> head_block_time db < HARDFORK_555_TIME in
    bindE (fc_assert (asset_id (amount_for_sale ord) = asset_id pays) ''amount_for_sale asset'') (\<lambda>_.
    bindE (fc_assert (asset_id pays \<noteq> asset_id receives) ''pays.asset_id != receives.asset_id'') (\<lambda>_.
    bindE (pay_market_fees receives db) (\<lambda>r.
    bindE (asset_sub receives (fst r)) (\<lambda>net.
    bindE (pay_order (seller ord) net pays (snd r)) (\<lambda>db.
    let db = push_applied_operation (fill_order_operation oid (seller ord) pays receives (fst r) fill_price is_maker) db in
    bindE (if 0 < deferred_fee ord
           then modify_stats (seller ord) (stats_pay_fee (deferred_fee ord)
                  (cashback_vesting_threshold (parameters (global_properties db)))) db
           else Inr db) (\<lambda>db.
    if asset_eq pays (amount_for_sale ord)
    then Inr (True, db\<lparr>limit_orders := idx_remove (limit_orders db) oid\<rparr>)
    else
      bindE (safe_sub (for_sale ord) (amount pays)) (\<lambda>left.
      let db = db\<lparr>limit_orders := idx_put (limit_orders db) oid (ord\<lparr>for_sale := left, deferred_fee := 0\<rparr>)\<rparr>
      in if cull then maybe_cull_small_order oid db else Inr (False, db)))))))))"

definition fill_call_order ::
  "nat \<Rightarrow> asset \<Rightarrow> asset \<Rightarrow> price \<Rightarrow> bool \<Rightarrow> database \<Rightarrow> (bool \<times> database) exn" where
  "fill_call_order cid pays receives fill_price is_maker db =
    bindE (idx_get ''call_order'' (call_orders db) cid) (\<lambda>c.
    bindE (fc_assert (asset_id (get_debt c) = asset_id receives) ''get_debt'') (\<lambda>_.
    bindE (fc_assert (asset_id (get_collateral c) = asset_id pays) ''get_collateral'') (\<lambda>_.
    bindE (asset_ge (get_collateral c) pays) (\<lambda>ge.
    bindE (fc_assert ge ''get_collateral() >= pays'') (\<lambda>_.
    bindE (safe_sub (debt c) (amount receives)) (\<lambda>new_debt.
    bindE (safe_sub (collateral c) (amount pays)) (\<lambda>new_collateral.
    let freed = (if new_debt = 0 then Some (mk_asset new_collateral (asset_id pays)) else None);
        c' = c\<lparr>debt := new_debt, collateral := (if new_debt = 0 then 0 else new_collateral)\<rparr>;
        db = db\<lparr>call_orders := idx_put (call_orders db) cid c'\<rparr>
    in
    bindE (get_asset db (asset_id receives)) (\<lambda>mia.
    bindE (fc_assert (is_market_issued mia) ''mia.is_market_issued()'') (\<lambda>_.
    bindE (modify_dynamic (asset_id receives) (\<lambda>d.
        bindE (safe_sub (current_supply d) (amount receives)) (\<lambda>x. Inr (d\<lparr>current_supply := x\<rparr>))) db) (\<lambda>db.
    bindE (get_account db (call_borrower c)) (\<lambda>_.
    bindE (if freed \<noteq> None \<or> asset_id pays = 0
           then
             bindE (case freed of None \<Rightarrow> Inr db | Some x \<Rightarrow> adjust_balance (call_borrower c) x db) (\<lambda>db.
             modify_stats (call_borrower c) (\<lambda>s.
               bindE (case freed of
                   None \<Rightarrow> Inr (total_core_in_orders s)
                 | Some x \<Rightarrow> if 0 < amount x then safe_sub (total_core_in_orders s) (amount x)
                            else Inr (total_core_in_orders s)) (\<lambda>t1.
               bindE (if asset_id pays = 0 then safe_sub t1 (amount pays) else Inr t1) (\<lambda>t2.
               bindE (fc_assert (0 \<le> t2) ''b.total_core_in_orders >= 0'') (\<lambda>_.
               Inr (s\<lparr>total_core_in_orders := t2\<rparr>))))) db)
           else Inr db) (\<lambda>db.
    bindE (fc_assert (asset_id pays \<noteq> asset_id receives) ''pays.asset_id != receives.asset_id'') (\<lambda>_.
    let db = push_applied_operation (fill_order_operation cid (call_borrower c) pays receives
               (mk_asset 0 (asset_id pays)) fill_price is_maker) db
    in if freed \<noteq> None
       then Inr (True, db\<lparr>call_orders := idx_remove (call_orders db) cid\<rparr>)
       else Inr (False, db))))))))))))))"

definition fill_settle_order ::
  "nat \<Rightarrow> asset \<Rightarrow> asset \<Rightarrow> price \<Rightarrow> bool \<Rightarrow> database \<Rightarrow> (bool \<times> database) exn" where
  "fill_settle_order sid pays receives fill_price is_maker db =
    bindE (idx_get ''force_settlement'' (force_settlements db) sid) (\<lambda>s.
    bindE (pay_market_fees receives db) (\<lambda>r.
    bindE (asset_lt pays (fs_balance s)) (\<lambda>less.
    bindE (if less
           then bindE (asset_sub (fs_balance s) pays) (\<lambda>x.
                Inr ((snd r)\<lparr>force_settlements := idx_put (force_settlements (snd r)) sid (s\<lparr>fs_balance := x\<rparr>)\<rparr>))
           else Inr (snd r)) (\<lambda>db.
    bindE (asset_sub receives (fst r)) (\<lambda>net.
    bindE (adjust_balance (fs_owner s) net db) (\<lambda>db.
    bindE (fc_assert (asset_id pays \<noteq> asset_id receives) ''pays.asset_id != receives.asset_id'') (\<lambda>_.
    let db = push_applied_operation (fill_order_operation sid (fs_owner s) pays receives (fst r) fill_price is_maker) db
    in if less then Inr (False, db)
       else Inr (True, db\<lparr>force_settlements := idx_remove (force_settlements db) sid\<rparr>))))))))"

section \<open>Global settlement and bids\<close>

definition settle_call ::
  "asset_id_type \<Rightarrow> price \<Rightarrow> nat \<Rightarrow> asset \<times> database \<Rightarrow> (asset \<times> database) exn" where
  "settle_call mia sprice cid st =
    bindE (idx_get ''call_order'' (call_orders (snd st)) cid) (\<lambda>c.
    bindE (asset_times_price (get_debt c) sprice) (\<lambda>p.
    bindE (asset_gt p (get_collateral c)) (\<lambda>gt.
    let pays = (if gt then get_collateral c else p) in
    bindE (asset_add (fst st) pays) (\<lambda>gathered.
    bindE (fill_call_order cid pays (get_debt c) sprice True (snd st)) (\<lambda>r.
    bindE (fc_assert (fst r) ''fill_order'') (\<lambda>_.
    Inr (gathered, snd r)))))))"

definition globally_settle_asset :: "asset_id_type \<Rightarrow> price \<Rightarrow> database \<Rightarrow> database exn" where
  "globally_settle_asset mia sprice db =
    bindE (get_asset db mia) (\<lambda>m.
    bindE (bitasset_data m db) (\<lambda>bad.
    bindE (fc_assert (\<not> has_settlement bad) ''black swan already occurred'') (\<lambda>_.
    let backing = short_backing_asset (ba_options bad) in
    bindE (get_asset db backing) (\<lambda>_.
    bindE (idx_get ''asset_dynamic_data'' (asset_dynamic_data db) (dynamic_asset_data_id m)) (\<lambda>dyn.
    let original = current_supply dyn in
    bindE (price_min backing mia) (\<lambda>lo.
    bindE (price_max backing mia) (\<lambda>hi.
    bindE (foldE (settle_call mia sprice) (calls_between lo hi db) (mk_asset 0 backing, db)) (\<lambda>r.
    bindE (modify_bitasset m (\<lambda>obj.
        bindE (fc_assert (asset_id (fst r) = asset_id (quote sprice)) ''collateral_gathered.asset_id'') (\<lambda>_.
        bindE (asset_div (mk_asset original mia) (fst r)) (\<lambda>sp.
        Inr (obj\<lparr>ba_settlement_price := sp, settlement_fund := amount (fst r)\<rparr>)))) (snd r)) (\<lambda>db.
    modify_dynamic mia (\<lambda>d. Inr (d\<lparr>current_supply := original\<rparr>)) db)))))))))"

text \<open>
  The \<open>by_account\<close> indices of call orders and bids are unique: the creation of a second object with
  the same key fails.
\<close>

definition call_of :: "account_id_type \<Rightarrow> asset_id_type \<Rightarrow> database \<Rightarrow> (nat \<times> call_order_object) option" where
  "call_of a debt_type db =
    idx_find_by (\<lambda>c. call_borrower c = a \<and> asset_id (quote (co_call_price c)) = debt_type) (call_orders db)"

definition bid_of :: "account_id_type \<Rightarrow> asset_id_type \<Rightarrow> database \<Rightarrow> (nat \<times> collateral_bid_object) option" where
  "bid_of a debt_type db =
    idx_find_by (\<lambda>b. bidder b = a \<and> asset_id (quote (inv_swan_price b)) = debt_type) (collateral_bids db)"

definition execute_bid :: "nat \<Rightarrow> share_type \<Rightarrow> share_type \<Rightarrow> price_feed \<Rightarrow> database \<Rightarrow> database exn" where
  "execute_bid bid debt_covered collateral_from_fund feed db =
    bindE (idx_get ''collateral_bid'' (collateral_bids db) bid) (\<lambda>b.
    let bs = base (inv_swan_price b); qt = quote (inv_swan_price b) in
    bindE (safe_add (amount bs) collateral_from_fund) (\<lambda>col.
    bindE (call_price (mk_asset debt_covered (asset_id qt)) (mk_asset col (asset_id bs))
             (maintenance_collateral_ratio feed)) (\<lambda>cp.
    bindE (fc_assert (call_of (bidder b) (asset_id qt) db = None) ''uniqueness constraint'') (\<lambda>_.
    let db = db\<lparr>call_orders := idx_create (call_orders db)
               \<lparr>call_borrower = bidder b, collateral = col, debt = debt_covered, co_call_price = cp\<rparr>\<rparr> in
    bindE (if asset_id bs = 0
           then modify_stats (bidder b) (\<lambda>s.
                  bindE (safe_add (total_core_in_orders s) col) (\<lambda>x. Inr (s\<lparr>total_core_in_orders := x\<rparr>))) db
           else Inr db) (\<lambda>db.
    let db = push_applied_operation (execute_bid_operation (bidder b) (mk_asset col (asset_id bs))
               (mk_asset debt_covered (asset_id qt))) db
    in Inr (db\<lparr>collateral_bids := idx_remove (collateral_bids db) bid\<rparr>))))))"

definition bid_before :: "nat \<times> collateral_bid_object \<Rightarrow> nat \<times> collateral_bid_object \<Rightarrow> bool" where
  "bid_before x y \<longleftrightarrow>
    asset_id (quote (inv_swan_price (snd x))) < asset_id (quote (inv_swan_price (snd y)))
    \<or> asset_id (quote (inv_swan_price (snd x))) = asset_id (quote (inv_swan_price (snd y)))
      \<and> (price_gt (inv_swan_price (snd x)) (inv_swan_price (snd y))
          \<or> \<not> price_gt (inv_swan_price (snd y)) (inv_swan_price (snd x)) \<and> fst x < fst y)"

text \<open>The walk from \<open>lower_bound(mia, max price, 0)\<close> while the bid is for \<open>mia\<close>.\<close>

definition bids_for :: "asset_id_type \<Rightarrow> price \<Rightarrow> database \<Rightarrow> nat list" where
  "bids_for mia hi db =
    map fst (takeWhile (\<lambda>p. asset_id (quote (inv_swan_price (snd p))) = mia)
      (filter (\<lambda>p. \<not> bid_before p (0, \<lparr>bidder = 0, inv_swan_price = hi\<rparr>) \<and> mia \<le> asset_id (quote (inv_swan_price (snd p))))
        (order_by bid_before (objs (collateral_bids db)))))"

definition cancel_bids_and_revive_mpa :: "asset_id_type \<Rightarrow> database \<Rightarrow> database exn" where
  "cancel_bids_and_revive_mpa mia db =
    bindE (get_asset db mia) (\<lambda>m.
    bindE (fc_assert (is_market_issued m) ''bitasset.is_market_issued()'') (\<lambda>_.
    bindE (bitasset_data m db) (\<lambda>bad.
    bindE (fc_assert (has_settlement bad) ''bad.has_settlement()'') (\<lambda>_.
    bindE (fc_assert (\<not> is_prediction_market bad) ''!bad.is_prediction_market'') (\<lambda>_.
    bindE (price_max (short_backing_asset (ba_options bad)) mia) (\<lambda>hi.
    bindE (foldE (\<lambda>b. cancel_bid b True) (bids_for mia hi db) db) (\<lambda>db.
    modify_bitasset m (\<lambda>obj. Inr (obj\<lparr>ba_settlement_price := null_price, settlement_fund := 0\<rparr>)) db)))))))"

definition revive_bitasset :: "asset_id_type \<Rightarrow> database \<Rightarrow> database exn" where
  "revive_bitasset mia db =
    bindE (get_asset db mia) (\<lambda>m.
    bindE (fc_assert (is_market_issued m) ''bitasset.is_market_issued()'') (\<lambda>_.
    bindE (bitasset_data m db) (\<lambda>bad.
    bindE (fc_assert (has_settlement bad) ''bad.has_settlement()'') (\<lambda>_.
    bindE (idx_get ''asset_dynamic_data'' (asset_dynamic_data db) (dynamic_asset_data_id m)) (\<lambda>dyn.
    bindE (fc_assert (\<not> is_prediction_market bad) ''!bad.is_prediction_market'') (\<lambda>_.
    bindE (fc_assert (\<not> price_is_null (settlement_price (current_feed bad))) ''!settlement_price.is_null()'') (\<lambda>_.
    bindE (if 0 < current_supply dyn
           then bindE (asset_div (mk_asset 0 (short_backing_asset (ba_options bad))) (mk_asset (current_supply dyn) mia)) (\<lambda>p.
                bindE (fc_assert (bid_of (issuer m) mia db = None) ''uniqueness constraint'') (\<lambda>_.
                let pseudo_bid = next_id (collateral_bids db);
                    db = db\<lparr>collateral_bids := idx_create (collateral_bids db) \<lparr>bidder = issuer m, inv_swan_price = p\<rparr>\<rparr>
                in execute_bid pseudo_bid (current_supply dyn) (settlement_fund bad) (current_feed bad) db))
           else bindE (fc_assert (settlement_fund bad = 0) ''bad.settlement_fund == 0'') (\<lambda>_. Inr db)) (\<lambda>db.
    cancel_bids_and_revive_mpa mia db))))))))"

section \<open>Margin calls\<close>

definition check_for_blackswan :: "asset_id_type \<Rightarrow> bool \<Rightarrow> database \<Rightarrow> (bool \<times> database) exn" where
  "check_for_blackswan mia enable_black_swan db =
    bindE (get_asset db mia) (\<lambda>m.
    if \<not> is_market_issued m then Inr (False, db)
    else
    bindE (bitasset_data m db) (\<lambda>bad.
    if has_settlement bad then Inr (True, db)
    else
    let settle_price = settlement_price (current_feed bad); backing = short_backing_asset (ba_options bad) in
    if price_is_null settle_price then Inr (False, db)
    else
    bindE (price_max mia backing) (\<lambda>highest_possible_bid.
    bindE (price_min mia backing) (\<lambda>lowest_possible_bid.
    bindE (price_min backing mia) (\<lambda>call_min.
    bindE (price_max backing mia) (\<lambda>call_max.
    case calls_between call_min call_max db of
      [] \<Rightarrow> Inr (False, db)
    | cid # _ \<Rightarrow>
        bindE (case limits_between highest_possible_bid lowest_possible_bid db of
            [] \<Rightarrow> Inr settle_price
          | oid # _ \<Rightarrow>
              bindE (idx_get ''limit_order'' (limit_orders db) oid) (\<lambda>ord.
              bindE (fc_assert (asset_id (base settle_price) = asset_id (base (sell_price ord))) ''settle_price.base'') (\<lambda>_.
              Inr (if price_lt (sell_price ord) settle_price then settle_price else sell_price ord)))) (\<lambda>highest.
        bindE (idx_get ''call_order'' (call_orders db) cid) (\<lambda>c.
        bindE (collateralization c) (\<lambda>least.
        if price_ge (price_inv least) highest
        then bindE (fc_assert enable_black_swan ''Black swan was detected'') (\<lambda>_.
             bindE (globally_settle_asset mia (price_inv least) db) (\<lambda>db. Inr (True, db)))
        else Inr (False, db))))))))))"

text \<open>
  The loop of \<open>check_call_orders\<close>; \<open>filled_limit\<close> is set before the loop and never reset in it.
\<close>

function call_loop ::
  "asset_id_type \<Rightarrow> bool \<Rightarrow> bool \<Rightarrow> nat list \<Rightarrow> nat list \<Rightarrow> bool \<Rightarrow> bool \<Rightarrow> database \<Rightarrow> (bool \<times> database) exn" where
  "call_loop mia enable for_new calls limits filled_limit margin_called db =
    bindE (check_for_blackswan mia enable db) (\<lambda>sw.
    let db = snd sw in
    if fst sw then Inr (margin_called, db)
    else case calls of
      [] \<Rightarrow> Inr (margin_called, db)
    | cid # calls' \<Rightarrow> (case limits of
        [] \<Rightarrow> Inr (margin_called, db)
      | oid # limits' \<Rightarrow>
          bindE (idx_get ''limit_order'' (limit_orders db) oid) (\<lambda>ord.
          let match_price = sell_price ord; usd_for_sale = amount_for_sale ord in
          bindE (price_validate match_price) (\<lambda>_.
          bindE (idx_get ''call_order'' (call_orders db) cid) (\<lambda>c.
          bindE (get_asset db mia) (\<lambda>m.
          bindE (bitasset_data m db) (\<lambda>bad.
          if price_gt (settlement_price (current_feed bad)) (price_inv (co_call_price c))
              \<and> HARDFORK_436_TIME < head_block_time db
          then Inr (margin_called, db)
          else if price_gt match_price (price_inv (co_call_price c)) then Inr (margin_called, db)
          else
          let usd_to_buy = get_debt c in
          bindE (asset_times_price usd_to_buy match_price) (\<lambda>cost.
          bindE (asset_gt cost (get_collateral c)) (\<lambda>gt.
          if gt
          then bindE (fc_assert enable ''enable_black_swan'') (\<lambda>_.
               bindE (globally_settle_asset mia (settlement_price (current_feed bad)) db) (\<lambda>db. Inr (True, db)))
          else
          bindE (asset_ge usd_to_buy usd_for_sale) (\<lambda>ge.
          let receives = (if ge then usd_for_sale else usd_to_buy);
              fl = (if ge then True else filled_limit);
              fcall = (if ge then asset_eq usd_to_buy usd_for_sale else True)
          in
          bindE (asset_times_price receives match_price) (\<lambda>pays.
          bindE (fc_assert (fcall \<or> fl) ''filled_call || filled_limit'') (\<lambda>_.
          bindE (fill_call_order cid pays receives match_price for_new db) (\<lambda>r1.
          bindE (fill_limit_order oid receives pays True match_price (\<not> for_new) (snd r1)) (\<lambda>r2.
          if fcall \<or> fl
          then call_loop mia enable for_new (if fcall then calls' else cid # calls') (if fl then limits' else oid # limits')
                 fl True (snd r2)
          else Inl (assert_exception ''filled_call || filled_limit'')))))))))))))))"
  by pat_completeness auto
termination
  by (relation "measure (\<lambda>(mia, enable, for_new, calls, limits, fl, mc, db). length calls + length limits)")
    (auto split: if_splits)

declare call_loop.simps [simp del]

definition check_call_orders :: "asset_id_type \<Rightarrow> bool \<Rightarrow> bool \<Rightarrow> database \<Rightarrow> (bool \<times> database) exn" where
  "check_call_orders mia enable_black_swan for_new_limit_order db =
    bindE (get_asset db mia) (\<lambda>m.
    if \<not> is_market_issued m then Inr (False, db)
    else
    bindE (check_for_blackswan mia enable_black_swan db) (\<lambda>sw.
    let db = snd sw in
    if fst sw then Inr (False, db)
    else
    bindE (bitasset_data m db) (\<lambda>bad.
    if is_prediction_market bad then Inr (False, db)
    else if price_is_null (settlement_price (current_feed bad)) then Inr (False, db)
    else
    let backing = short_backing_asset (ba_options bad) in
    bindE (price_max mia backing) (\<lambda>max_price.
    bindE (max_short_squeeze_price (current_feed bad)) (\<lambda>min_price.
    bindE (fc_assert (asset_id (base max_price) = asset_id (base min_price)) ''max_price.base.asset_id'') (\<lambda>_.
    let limits = limits_between max_price min_price db in
    if limits = [] then Inr (False, db)
    else
    bindE (price_min backing mia) (\<lambda>call_min.
    bindE (price_max backing mia) (\<lambda>call_max.
    call_loop mia enable_black_swan for_new_limit_order (calls_between call_min call_max db) limits False False db))))))))"

section \<open>Matching\<close>

definition match_limit_orders :: "nat \<Rightarrow> nat \<Rightarrow> price \<Rightarrow> database \<Rightarrow> (nat \<times> database) exn" where
  "match_limit_orders uid cid match_price db =
    bindE (idx_get ''limit_order'' (limit_orders db) uid) (\<lambda>usd.
    bindE (idx_get ''limit_order'' (limit_orders db) cid) (\<lambda>core.
    bindE (fc_assert (asset_id (quote (sell_price usd)) = asset_id (base (sell_price core))) ''usd.quote == core.base'') (\<lambda>_.
    bindE (fc_assert (asset_id (base (sell_price usd)) = asset_id (quote (sell_price core))) ''usd.base == core.quote'') (\<lambda>_.
    bindE (fc_assert (0 < for_sale usd \<and> 0 < for_sale core) ''for_sale > 0'') (\<lambda>_.
    let usd_for_sale = amount_for_sale usd; core_for_sale = amount_for_sale core in
    bindE (asset_times_price core_for_sale match_price) (\<lambda>core_worth.
    bindE (asset_le usd_for_sale core_worth) (\<lambda>le.
    bindE (if le
           then bindE (asset_times_price usd_for_sale match_price) (\<lambda>x. Inr (usd_for_sale, x))
           else Inr (core_worth, core_for_sale)) (\<lambda>pr.
    let core_receives = fst pr; usd_receives = snd pr; core_pays = usd_receives; usd_pays = core_receives in
    bindE (fc_assert (asset_eq usd_pays usd_for_sale \<or> asset_eq core_pays core_for_sale) ''one order is filled'') (\<lambda>_.
    bindE (fill_limit_order uid usd_pays usd_receives False match_price False db) (\<lambda>r1.
    bindE (fill_limit_order cid core_pays core_receives True match_price True (snd r1)) (\<lambda>r2.
    let result = (if fst r1 then 1 else 0) + (if fst r2 then 2 else 0) in
    bindE (fc_assert (result \<noteq> 0) ''result != 0'') (\<lambda>_.
    Inr (result, snd r2)))))))))))))"

definition asset_min :: "asset \<Rightarrow> asset \<Rightarrow> asset exn" where
  "asset_min a b = bindE (asset_lt b a) (\<lambda>l. Inr (if l then b else a))"

definition match_settle :: "nat \<Rightarrow> nat \<Rightarrow> price \<Rightarrow> asset \<Rightarrow> database \<Rightarrow> (asset \<times> database) exn" where
  "match_settle cid sid match_price max_settlement db =
    bindE (idx_get ''call_order'' (call_orders db) cid) (\<lambda>c.
    bindE (idx_get ''force_settlement'' (force_settlements db) sid) (\<lambda>s.
    bindE (fc_assert (asset_id (get_debt c) = asset_id (fs_balance s)) ''call.get_debt().asset_id'') (\<lambda>_.
    bindE (fc_assert (0 < debt c \<and> 0 < collateral c \<and> 0 < amount (fs_balance s)) ''amounts'') (\<lambda>_.
    bindE (asset_min (fs_balance s) max_settlement) (\<lambda>settle_for_sale.
    bindE (asset_min settle_for_sale (get_debt c)) (\<lambda>call_receives.
    bindE (asset_times_price call_receives match_price) (\<lambda>call_pays.
    bindE (asset_lt call_pays (get_collateral c)) (\<lambda>lt.
    if \<not> lt then Inl (chain_exception ''black_swan_exception'')
    else
    bindE (fc_assert (asset_eq call_receives settle_for_sale \<or> asset_eq call_receives (get_debt c)) ''settle_pays'') (\<lambda>_.
    bindE (fill_call_order cid call_pays call_receives match_price True db) (\<lambda>r1.
    bindE (fill_settle_order sid call_receives call_pays match_price False (snd r1)) (\<lambda>r2.
    Inr (call_receives, snd r2))))))))))))"

fun match_loop :: "nat \<Rightarrow> nat list \<Rightarrow> database \<Rightarrow> database exn" where
  "match_loop oid [] db = Inr db"
| "match_loop oid (old # olds) db =
    bindE (idx_get ''limit_order'' (limit_orders db) old) (\<lambda>ord.
    bindE (match_limit_orders oid old (sell_price ord) db) (\<lambda>r.
    if fst r \<noteq> 2 then Inr (snd r) else match_loop oid olds (snd r)))"

definition apply_order :: "nat \<Rightarrow> bool \<Rightarrow> database \<Rightarrow> (bool \<times> database) exn" where
  "apply_order oid allow_black_swan db =
    bindE (idx_get ''limit_order'' (limit_orders db) oid) (\<lambda>ord.
    let sell_asset = asset_id (amount_for_sale ord) in
    bindE (get_asset db sell_asset) (\<lambda>_.
    bindE (amount_to_receive ord) (\<lambda>to_receive.
    let receive_asset = asset_id to_receive in
    bindE (get_asset db receive_asset) (\<lambda>_.
    bindE (check_call_orders sell_asset allow_black_swan True db) (\<lambda>r1.
    bindE (check_call_orders receive_asset allow_black_swan True (snd r1)) (\<lambda>r2.
    let db = snd r2 in
    if (fst r1 \<or> fst r2) \<and> idx_find (limit_orders db) oid = None then Inr (True, db)
    else
    bindE (idx_get ''limit_order'' (limit_orders db) oid) (\<lambda>ord.
    let max_price = price_inv (sell_price ord) in
    bindE (price_max (asset_id (base max_price)) (asset_id (quote max_price))) (\<lambda>highest.
    bindE (match_loop oid (limits_between highest max_price db) db) (\<lambda>db.
    bindE (check_call_orders sell_asset allow_black_swan False db) (\<lambda>r3.
    bindE (check_call_orders receive_asset allow_black_swan False (snd r3)) (\<lambda>r4.
    let db = snd r4 in
    if idx_find (limit_orders db) oid = None then Inr (True, db)
    else if head_block_time db \<le> HARDFORK_555_TIME then Inr (False, db)
    else maybe_cull_small_order oid db)))))))))))"

end
