(* ===== verification/MarketBooks.thy ===== *)
theory MarketBooks
  imports Market
begin

text \<open>
  The books of the market: what every operation of \<open>Market\<close> does to what the chain holds and to the
  supply of every asset. A market step may move value between orders, balances, fees, bids and
  settlement funds, and may change a supply only together with what is held.
\<close>

section \<open>The invariant of the market\<close>

definition fee_options_ok :: "asset_object index \<Rightarrow> bool" where
  "fee_options_ok t \<longleftrightarrow> (\<forall>p \<in> set (objs t).
    market_fee_percent (a_options (snd p)) \<le> 10000 \<and> 0 \<le> max_market_fee (a_options (snd p)))"

definition funds_ok :: "asset_bitasset_data_object index \<Rightarrow> bool" where
  "funds_ok t \<longleftrightarrow> (\<forall>p \<in> set (objs t). has_settlement (snd p) \<or> settlement_fund (snd p) = 0)"

definition orders_ok :: "limit_order_object index \<Rightarrow> bool" where
  "orders_ok t \<longleftrightarrow> (\<forall>p \<in> set (objs t). 0 \<le> deferred_fee (snd p) \<and> for_sale (snd p) \<le> 9223372036854775807)"

definition backed :: "asset_object index \<Rightarrow> asset_bitasset_data_object index \<Rightarrow> price \<Rightarrow> bool" where
  "backed t bs p \<longleftrightarrow> (\<forall>m k b. idx_find t (asset_id (quote p)) = Some m \<longrightarrow> bitasset_data_id m = Some k \<longrightarrow>
    idx_find bs k = Some b \<longrightarrow> short_backing_asset (ba_options b) = asset_id (base p))"

definition calls_backed :: "asset_object index \<Rightarrow> asset_bitasset_data_object index \<Rightarrow> call_order_object index \<Rightarrow> bool" where
  "calls_backed t bs cs \<longleftrightarrow> (\<forall>q \<in> set (objs cs). backed t bs (co_call_price (snd q)))"

definition market_ok :: "database \<Rightarrow> bool" where
  "market_ok db \<longleftrightarrow> db_ok db \<and> fee_options_ok (assets db) \<and> funds_ok (asset_bitasset_data db) \<and> orders_ok (limit_orders db)
    \<and> calls_backed (assets db) (asset_bitasset_data db) (call_orders db)"

definition moves :: "database \<Rightarrow> (asset_id_type \<Rightarrow> int) \<Rightarrow> (asset_id_type \<Rightarrow> int) \<Rightarrow> database \<Rightarrow> bool" where
  "moves db h s db' \<longleftrightarrow> market_ok db' \<and> assets db' = assets db \<and> asset_bitasset_data db' = asset_bitasset_data db
    \<and> (\<forall>i. held i db' = held i db + h i) \<and> (\<forall>i. supply_of i db' = supply_of i db + s i)"

definition market_conserves :: "database \<Rightarrow> database \<Rightarrow> bool" where
  "market_conserves db db' \<longleftrightarrow> market_ok db' \<and> assets db' = assets db \<and> (\<forall>i. books i db' = books i db)"

definition same_orders :: "database \<Rightarrow> database \<Rightarrow> bool" where
  "same_orders db db' \<longleftrightarrow> limit_orders db' = limit_orders db \<and> call_orders db' = call_orders db
    \<and> force_settlements db' = force_settlements db \<and> collateral_bids db' = collateral_bids db
    \<and> accounts db' = accounts db \<and> dynamic_properties db' = dynamic_properties db"

lemma same_ordersD:
  "same_orders db db' \<Longrightarrow> limit_orders db' = limit_orders db" "same_orders db db' \<Longrightarrow> call_orders db' = call_orders db"
  "same_orders db db' \<Longrightarrow> force_settlements db' = force_settlements db"
  "same_orders db db' \<Longrightarrow> collateral_bids db' = collateral_bids db" "same_orders db db' \<Longrightarrow> accounts db' = accounts db"
  by (simp_all add: same_orders_def)

lemma same_orders_refl [simp]: "same_orders db db"
  by (simp add: same_orders_def)

lemma same_orders_trans: "same_orders a b \<Longrightarrow> same_orders b c \<Longrightarrow> same_orders a c"
  by (simp add: same_orders_def)

lemma movesD:
  "moves db h s db' \<Longrightarrow> market_ok db'" "moves db h s db' \<Longrightarrow> assets db' = assets db"
  "moves db h s db' \<Longrightarrow> asset_bitasset_data db' = asset_bitasset_data db"
  "moves db h s db' \<Longrightarrow> held i db' = held i db + h i" "moves db h s db' \<Longrightarrow> supply_of i db' = supply_of i db + s i"
  by (simp_all add: moves_def)

lemma moves_trans:
  "moves a h s b \<Longrightarrow> moves b h' s' c \<Longrightarrow> moves a (\<lambda>i. h i + h' i) (\<lambda>i. s i + s' i) c"
  by (simp add: moves_def)

lemma moves_eq: "moves a h s b \<Longrightarrow> (\<And>i. h i = h' i) \<Longrightarrow> (\<And>i. s i = s' i) \<Longrightarrow> moves a h' s' b"
  by (simp add: moves_def)

lemma moves_conserves: "moves a h s b \<Longrightarrow> (\<And>i. h i = s i) \<Longrightarrow> market_conserves a b"
  by (simp add: moves_def market_conserves_def books_def)

lemma moves_refl: "market_ok db \<Longrightarrow> moves db (\<lambda>_. 0) (\<lambda>_. 0) db"
  by (simp add: moves_def)

lemma market_conserves_refl: "market_ok db \<Longrightarrow> market_conserves db db"
  by (simp add: market_conserves_def)

lemma market_conserves_trans: "market_conserves a b \<Longrightarrow> market_conserves b c \<Longrightarrow> market_conserves a c"
  by (simp add: market_conserves_def)

lemma market_conserves_ok: "market_conserves a b \<Longrightarrow> market_ok b"
  by (simp add: market_conserves_def)

lemma market_okD:
  "market_ok db \<Longrightarrow> db_ok db" "market_ok db \<Longrightarrow> fee_options_ok (assets db)"
  "market_ok db \<Longrightarrow> funds_ok (asset_bitasset_data db)" "market_ok db \<Longrightarrow> orders_ok (limit_orders db)"
  "market_ok db \<Longrightarrow> calls_backed (assets db) (asset_bitasset_data db) (call_orders db)"
  by (simp_all add: market_ok_def)

section \<open>The elementary steps\<close>

lemma adjust_balance_moves:
  assumes "adjust_balance a d db = Inr db'" "market_ok db"
  shows "moves db (\<lambda>i. asset_part i d) (\<lambda>_. 0) db'" "same_orders db db'"
proof -
  note f = adjust_balance_frame [OF assms(1) market_okD(1) [OF assms(2)]]
  have "held i db' = held i db + asset_part i d" for i using f(2,20) [of i] by (simp add: books_def)
  then show "moves db (\<lambda>i. asset_part i d) (\<lambda>_. 0) db'"
    using assms(2) f(1,6,7,8,13,20) by (simp add: moves_def market_ok_def)
  show "same_orders db db'" using f(5,7,8,11,12,16) by (simp add: same_orders_def)
qed

lemma modify_stats_moves:
  assumes "modify_stats a f db = Inr db'" "market_ok db"
    and "\<And>s s' i. f s = Inr s' \<Longrightarrow> stat_amount i s' = stat_amount i s + d i"
  shows "moves db d (\<lambda>_. 0) db'" "same_orders db db'"
proof -
  obtain acc :: account_object and s s' where s: "idx_find (account_stats db) (statistics acc) = Some s" "f s = Inr s'"
    and db': "db' = db\<lparr>account_stats := idx_put (account_stats db) (statistics acc) s'\<rparr>" and ok: "db_ok db'"
    by (rule modify_stats_effect [OF assms(1) market_okD(1) [OF assms(2)]]) blast
  have o: "idx_ok (account_stats db)" using market_okD(1) [OF assms(2)] by (rule db_okD)
  have "held i db' = held i db + d i" for i
    using assms(3) [OF s(2), of i] by (simp add: db' db_simps idx_sum_put [OF o s(1)])
  then show "moves db d (\<lambda>_. 0) db'" using assms(2) ok by (simp add: moves_def market_ok_def db')
  show "same_orders db db'" by (simp add: db' same_orders_def)
qed

lemma push_moves: "market_ok db \<Longrightarrow> moves db (\<lambda>_. 0) (\<lambda>_. 0) (push_applied_operation op db)"
  "same_orders db (push_applied_operation op db)"
  by (simp_all add: moves_def market_ok_def push_applied_operation_def db_ok_update(11) same_orders_def)

lemma modify_dynamic_moves:
  assumes "modify_dynamic j f db = Inr db'" "market_ok db"
    and "\<And>d d'. f d = Inr d' \<Longrightarrow> fee_pool d' = fee_pool d \<and> confidential_supply d' = confidential_supply d
      \<and> accumulated_fees d' = accumulated_fees d + x \<and> current_supply d' = current_supply d + y"
  shows "moves db (\<lambda>i. if i = j then x else 0) (\<lambda>i. if i = j then y else 0) db'" "same_orders db db'"
proof -
  obtain a d d' where a: "idx_find (assets db) j = Some a" and d: "idx_find (asset_dynamic_data db) (dynamic_asset_data_id a) = Some d"
    and f: "f d = Inr d'"
    and db': "db' = db\<lparr>asset_dynamic_data := idx_put (asset_dynamic_data db) (dynamic_asset_data_id a) d'\<rparr>"
    using assms(1) by (auto simp: modify_dynamic_def)
  note e = dynamic_put_effect [OF market_okD(1) [OF assms(2)] a d db']
  show "moves db (\<lambda>i. if i = j then x else 0) (\<lambda>i. if i = j then y else 0) db'"
    using e assms(2) assms(3) [OF f] by (simp add: moves_def market_ok_def) (simp add: db')
  show "same_orders db db'" by (simp add: db' same_orders_def)
qed

lemma orders_okI: "orders_ok t \<Longrightarrow> orders_ok (idx_remove t i)"
  "orders_ok t \<Longrightarrow> 0 \<le> deferred_fee v \<Longrightarrow> for_sale v \<le> 9223372036854775807 \<Longrightarrow> orders_ok (idx_put t i v)"
  "orders_ok t \<Longrightarrow> 0 \<le> deferred_fee v \<Longrightarrow> for_sale v \<le> 9223372036854775807 \<Longrightarrow> orders_ok (idx_create t v)"
  by (auto simp: orders_ok_def dest!: objs_remove_in objs_put_in)

lemma orders_okD: "orders_ok t \<Longrightarrow> idx_find t i = Some v \<Longrightarrow> 0 \<le> deferred_fee v"
  "orders_ok t \<Longrightarrow> idx_find t i = Some v \<Longrightarrow> for_sale v \<le> 9223372036854775807"
  by (fastforce simp: orders_ok_def dest!: idx_find_in)+

lemma limit_order_moves:
  assumes "market_ok db" "idx_find (limit_orders db) oid = Some ord"
  shows "moves db (\<lambda>i. - order_amount i ord) (\<lambda>_. 0) (db\<lparr>limit_orders := idx_remove (limit_orders db) oid\<rparr>)"
    and "0 \<le> deferred_fee ord' \<Longrightarrow> for_sale ord' \<le> 9223372036854775807 \<Longrightarrow>
      moves db (\<lambda>i. order_amount i ord' - order_amount i ord) (\<lambda>_. 0) (db\<lparr>limit_orders := idx_put (limit_orders db) oid ord'\<rparr>)"
  using assms market_okD(1) [OF assms(1)] db_okD(7) [OF market_okD(1) [OF assms(1)]]
  by (auto simp: moves_def market_ok_def db_ok_update orders_okI db_simps idx_sum_put idx_sum_remove)

lemma calls_backedI: "calls_backed t bs cs \<Longrightarrow> calls_backed t bs (idx_remove cs i)"
  "calls_backed t bs cs \<Longrightarrow> backed t bs (co_call_price v) \<Longrightarrow> calls_backed t bs (idx_put cs i v)"
  "calls_backed t bs cs \<Longrightarrow> backed t bs (co_call_price v) \<Longrightarrow> calls_backed t bs (idx_create cs v)"
  by (auto simp: calls_backed_def dest!: objs_remove_in objs_put_in)

lemma calls_backedD: "calls_backed t bs cs \<Longrightarrow> idx_find cs i = Some v \<Longrightarrow> backed t bs (co_call_price v)"
  by (fastforce simp: calls_backed_def dest!: idx_find_in)

lemma backed_ids: "backed t bs p \<Longrightarrow> asset_id (base q) = asset_id (base p) \<Longrightarrow> asset_id (quote q) = asset_id (quote p) \<Longrightarrow> backed t bs q"
  by (simp add: backed_def)

lemma backed_put:
  "idx_find bs k = Some b \<Longrightarrow> ba_options b' = ba_options b \<Longrightarrow> backed t (idx_put bs k b') p = backed t bs p"
  unfolding backed_def idx_find_put by (metis option.distinct(1) option.inject)

lemma call_order_moves:
  assumes "market_ok db" "idx_find (call_orders db) cid = Some c"
  shows "moves db (\<lambda>i. - call_amount i c) (\<lambda>_. 0) (db\<lparr>call_orders := idx_remove (call_orders db) cid\<rparr>)"
    and "backed (assets db) (asset_bitasset_data db) (co_call_price c') \<Longrightarrow>
      moves db (\<lambda>i. call_amount i c' - call_amount i c) (\<lambda>_. 0) (db\<lparr>call_orders := idx_put (call_orders db) cid c'\<rparr>)"
  using assms market_okD(1) [OF assms(1)] db_okD(8) [OF market_okD(1) [OF assms(1)]]
  by (auto simp: moves_def market_ok_def db_ok_update db_simps idx_sum_put idx_sum_remove calls_backedI)

lemma settlement_moves:
  assumes "market_ok db" "idx_find (force_settlements db) sid = Some s"
  shows "moves db (\<lambda>i. - asset_part i (fs_balance s)) (\<lambda>_. 0) (db\<lparr>force_settlements := idx_remove (force_settlements db) sid\<rparr>)"
    and "moves db (\<lambda>i. asset_part i (fs_balance s') - asset_part i (fs_balance s)) (\<lambda>_. 0)
      (db\<lparr>force_settlements := idx_put (force_settlements db) sid s'\<rparr>)"
  using assms market_okD(1) [OF assms(1)] db_okD(12) [OF market_okD(1) [OF assms(1)]]
  by (auto simp: moves_def market_ok_def db_ok_update db_simps idx_sum_put idx_sum_remove)

lemma bid_moves:
  assumes "market_ok db" "idx_find (collateral_bids db) bid = Some b"
  shows "moves db (\<lambda>i. - asset_part i (base (inv_swan_price b))) (\<lambda>_. 0) (db\<lparr>collateral_bids := idx_remove (collateral_bids db) bid\<rparr>)"
  using assms market_okD(1) [OF assms(1)] db_okD(13) [OF market_okD(1) [OF assms(1)]]
  by (auto simp: moves_def market_ok_def db_ok_update db_simps idx_sum_remove)

lemma create_moves:
  assumes "market_ok db"
  shows "backed (assets db) (asset_bitasset_data db) (co_call_price c) \<Longrightarrow>
      moves db (\<lambda>i. call_amount i c) (\<lambda>_. 0) (db\<lparr>call_orders := idx_create (call_orders db) c\<rparr>)"
    and "moves db (\<lambda>i. asset_part i (base (inv_swan_price b))) (\<lambda>_. 0) (db\<lparr>collateral_bids := idx_create (collateral_bids db) b\<rparr>)"
    and "0 \<le> deferred_fee ord \<Longrightarrow> for_sale ord \<le> 9223372036854775807 \<Longrightarrow> moves db (\<lambda>i. order_amount i ord) (\<lambda>_. 0) (db\<lparr>limit_orders := idx_create (limit_orders db) ord\<rparr>)"
  using assms market_okD(1) [OF assms] db_okD(7,8,13) [OF market_okD(1) [OF assms]]
  by (auto simp: moves_def market_ok_def db_ok_update db_simps idx_sum_create orders_okI calls_backedI)

section \<open>Canceling\<close>

lemma asset_part_mk [simp]: "asset_part i (mk_asset x j) = (if i = j then x else 0)"
  by (simp add: asset_part_def)

lemma asset_times_price_range:
  "asset_times_price a p = Inr r \<Longrightarrow> 0 \<le> amount r \<and> amount r \<le> 1000000000000000"
  by (auto simp: asset_times_price_def Let_def u128_def GRAPHENE_MAX_SHARE_SUPPLY_def word_le_def split: if_splits)

lemma cancel_limit_order_moves:
  assumes "cancel_limit_order oid v db = Inr db'" "market_ok db"
  shows "moves db (\<lambda>_. 0) (\<lambda>_. 0) db'" "call_orders db' = call_orders db" "force_settlements db' = force_settlements db"
    "limit_orders db' = idx_remove (limit_orders db) oid"
proof -
  obtain ord db1 db2 db3 where o: "idx_find (limit_orders db) oid = Some ord"
    and 1: "modify_stats (seller ord) (\<lambda>s. if asset_id (amount_for_sale ord) = 0
        then bindE (safe_sub (total_core_in_orders s) (amount (amount_for_sale ord))) (\<lambda>x. Inr (s\<lparr>total_core_in_orders := x\<rparr>))
        else Inr s) db = Inr db1"
    and 2: "adjust_balance (seller ord) (amount_for_sale ord) db1 = Inr db2"
    and 3: "adjust_balance (seller ord) (mk_asset (deferred_fee ord) 0) db2 = Inr db3"
    and 4: "db' = (let db = (if v then push_applied_operation (limit_order_cancel_vop oid (seller ord)) db3 else db3)
       in db\<lparr>limit_orders := idx_remove (limit_orders db) oid\<rparr>)"
    using assms(1) by (auto simp: cancel_limit_order_def Let_def)
  define db4 where "db4 = (if v then push_applied_operation (limit_order_cancel_vop oid (seller ord)) db3 else db3)"
  have m1: "moves db (\<lambda>_. 0) (\<lambda>_. 0) db1" "same_orders db db1"
    by (rule modify_stats_moves [OF 1 assms(2)], auto simp: stat_amount_def split: if_splits)+
  note m2 = adjust_balance_moves [OF 2 movesD(1) [OF m1(1)]]
  note m3 = adjust_balance_moves [OF 3 movesD(1) [OF m2(1)]]
  have m4: "moves db3 (\<lambda>_. 0) (\<lambda>_. 0) db4" "same_orders db3 db4"
    using push_moves movesD(1) [OF m3(1)] moves_refl by (auto simp: db4_def)
  have so: "same_orders db db4" using m1(2) m2(2) m3(2) m4(2) same_orders_trans by blast
  then have o4: "idx_find (limit_orders db4) oid = Some ord" using o by (simp add: same_orders_def)
  note m5 = limit_order_moves(1) [OF movesD(1) [OF m4(1)] o4]
  have "db' = db4\<lparr>limit_orders := idx_remove (limit_orders db4) oid\<rparr>" by (simp add: 4 db4_def Let_def)
  then show "moves db (\<lambda>_. 0) (\<lambda>_. 0) db'" "call_orders db' = call_orders db" "force_settlements db' = force_settlements db"
    "limit_orders db' = idx_remove (limit_orders db) oid"
    using moves_eq [OF moves_trans [OF m1(1) moves_trans [OF m2(1) moves_trans [OF m3(1) moves_trans [OF m4(1) m5]]]], of "\<lambda>_. 0" "\<lambda>_. 0"]
      same_ordersD [OF so]
    by (simp_all add: order_amount_def amount_for_sale_def asset_part_def)
qed

lemma cancel_settle_order_moves:
  assumes "cancel_settle_order sid v db = Inr db'" "market_ok db"
  shows "moves db (\<lambda>_. 0) (\<lambda>_. 0) db'"
proof -
  obtain s db1 where s: "idx_find (force_settlements db) sid = Some s"
    and 1: "adjust_balance (fs_owner s) (fs_balance s) db = Inr db1"
    and 2: "db' = (let db = (if v then push_applied_operation (asset_settle_cancel_vop sid (fs_owner s) (fs_balance s)) db1 else db1)
       in db\<lparr>force_settlements := idx_remove (force_settlements db) sid\<rparr>)"
    using assms(1) by (auto simp: cancel_settle_order_def Let_def)
  define db2 where "db2 = (if v then push_applied_operation (asset_settle_cancel_vop sid (fs_owner s) (fs_balance s)) db1 else db1)"
  note m1 = adjust_balance_moves [OF 1 assms(2)]
  have m2: "moves db1 (\<lambda>_. 0) (\<lambda>_. 0) db2" "same_orders db1 db2"
    using push_moves movesD(1) [OF m1(1)] moves_refl by (auto simp: db2_def)
  have "idx_find (force_settlements db2) sid = Some s" using s m1(2) m2(2) by (simp add: same_orders_def)
  note m3 = settlement_moves(1) [OF movesD(1) [OF m2(1)] this]
  show ?thesis
    using moves_eq [OF moves_trans [OF m1(1) moves_trans [OF m2(1) m3]], of "\<lambda>_. 0" "\<lambda>_. 0"] by (simp add: 2 db2_def Let_def)
qed

lemma cancel_bid_moves:
  assumes "cancel_bid bid v db = Inr db'" "market_ok db"
  shows "moves db (\<lambda>_. 0) (\<lambda>_. 0) db'"
proof -
  obtain b db1 where b: "idx_find (collateral_bids db) bid = Some b"
    and 1: "adjust_balance (bidder b) (base (inv_swan_price b)) db = Inr db1"
    and 2: "db' = (let db = (if v then push_applied_operation (bid_collateral_vop (bidder b) (base (inv_swan_price b))
          (mk_asset 0 (asset_id (quote (inv_swan_price b))))) db1 else db1)
       in db\<lparr>collateral_bids := idx_remove (collateral_bids db) bid\<rparr>)"
    using assms(1) by (auto simp: cancel_bid_def Let_def)
  define db2 where "db2 = (if v then push_applied_operation (bid_collateral_vop (bidder b) (base (inv_swan_price b))
          (mk_asset 0 (asset_id (quote (inv_swan_price b))))) db1 else db1)"
  note m1 = adjust_balance_moves [OF 1 assms(2)]
  have m2: "moves db1 (\<lambda>_. 0) (\<lambda>_. 0) db2" "same_orders db1 db2"
    using push_moves movesD(1) [OF m1(1)] moves_refl by (auto simp: db2_def)
  have "idx_find (collateral_bids db2) bid = Some b" using b m1(2) m2(2) by (simp add: same_orders_def)
  note m3 = bid_moves [OF movesD(1) [OF m2(1)] this]
  show ?thesis
    using moves_eq [OF moves_trans [OF m1(1) moves_trans [OF m2(1) m3]], of "\<lambda>_. 0" "\<lambda>_. 0"] by (simp add: 2 db2_def Let_def)
qed

lemma maybe_cull_moves:
  assumes "maybe_cull_small_order oid db = Inr r" "market_ok db"
  shows "moves db (\<lambda>_. 0) (\<lambda>_. 0) (snd r)" "call_orders (snd r) = call_orders db"
    "force_settlements (snd r) = force_settlements db"
  using assms cancel_limit_order_moves moves_refl
  by (auto simp: maybe_cull_small_order_def split: if_splits)

section \<open>Market fees and filling\<close>

lemma calculate_market_fee_range:
  assumes "market_fee_percent (a_options a) \<le> 10000" "0 \<le> max_market_fee (a_options a)"
    "0 \<le> amount x" "amount x \<le> 9223372036854775807"
  shows "0 \<le> amount (calculate_market_fee a x)" "amount (calculate_market_fee a x) \<le> amount x"
    "asset_id (calculate_market_fee a x) = asset_id x"
proof -
  define p where "p = int (market_fee_percent (a_options a))"
  have p: "0 \<le> p" "p \<le> 10000" using assms(1) by (auto simp: p_def)
  have m: "uint (u128 (amount x) * u128 p div u128 10000) = amount x * p div 10000"
    using u128_mult_small [of "amount x" p] p assms(3,4) by (simp add: uint_div uint_u128_small)
  have "amount x * p \<le> amount x * 10000" using p assms(3) by (intro mult_left_mono)
  then have q: "0 \<le> amount x * p div 10000" "amount x * p div 10000 \<le> amount x"
    using p assms(3) by (auto simp: pos_imp_zdiv_nonneg_iff)
  then have "wrap64 (amount x * p div 10000) = amount x * p div 10000"
    using assms(4) by (intro wrap64_id) auto
  then show "0 \<le> amount (calculate_market_fee a x)" "amount (calculate_market_fee a x) \<le> amount x"
    "asset_id (calculate_market_fee a x) = asset_id x"
    using q assms(2,3) m by (auto simp: calculate_market_fee_def Let_def p_def [symmetric])
qed

lemma pay_market_fees_moves:
  assumes "pay_market_fees receives db = Inr r" "market_ok db" "0 \<le> amount receives" "amount receives \<le> 9223372036854775807"
  shows "moves db (\<lambda>i. asset_part i (fst r)) (\<lambda>_. 0) (snd r)" "same_orders db (snd r)" "asset_id (fst r) = asset_id receives"
    "0 \<le> amount (fst r)"
proof -
  obtain a where a: "idx_find (assets db) (asset_id receives) = Some a"
    and cases: "fst r = calculate_market_fee a receives" "(if 0 < amount (calculate_market_fee a receives)
      then bindE (modify_dynamic (asset_id receives) (\<lambda>d. bindE (safe_add (accumulated_fees d) (amount (calculate_market_fee a receives)))
          (\<lambda>x. Inr (d\<lparr>accumulated_fees := x\<rparr>))) db) (\<lambda>db. Inr (calculate_market_fee a receives, db))
      else Inr (calculate_market_fee a receives, db)) = Inr r"
    using assms(1) by (auto simp: pay_market_fees_def Let_def split: if_splits)
  have "market_fee_percent (a_options a) \<le> 10000" "0 \<le> max_market_fee (a_options a)"
    using market_okD(2) [OF assms(2)] idx_find_in [OF a] by (auto simp: fee_options_ok_def)
  note f = calculate_market_fee_range [OF this assms(3,4)]
  show "asset_id (fst r) = asset_id receives" "0 \<le> amount (fst r)" using f cases(1) by auto
  have "moves db (\<lambda>i. asset_part i (fst r)) (\<lambda>_. 0) (snd r) \<and> same_orders db (snd r)"
  proof (cases "0 < amount (fst r)")
    case True
    then have m: "modify_dynamic (asset_id receives) (\<lambda>d. bindE (safe_add (accumulated_fees d) (amount (fst r)))
          (\<lambda>x. Inr (d\<lparr>accumulated_fees := x\<rparr>))) db = Inr (snd r)"
      using cases by auto
    have "moves db (\<lambda>i. if i = asset_id receives then amount (fst r) else 0) (\<lambda>_. 0) (snd r)"
      "same_orders db (snd r)"
      by (rule modify_dynamic_moves [OF m assms(2), where y = 0 and x = "amount (fst r)", simplified]; auto)+
    then show ?thesis
      using f(3) cases(1) by (auto simp: asset_part_def elim!: moves_eq)
  next
    case False
    then have "amount (fst r) = 0" "snd r = db" using f(1) cases by auto
    then show ?thesis using moves_eq [OF moves_refl [OF assms(2)]] by (simp add: asset_part_def)
  qed
  then show "moves db (\<lambda>i. asset_part i (fst r)) (\<lambda>_. 0) (snd r)" "same_orders db (snd r)" by blast+
qed

lemma pay_order_moves:
  assumes "pay_order a receives pays db = Inr db'" "market_ok db"
  shows "moves db (\<lambda>i. asset_part i receives) (\<lambda>_. 0) db'" "same_orders db db'"
proof -
  obtain db1 where 1: "modify_stats a (\<lambda>s. if asset_id pays = 0
        then bindE (safe_sub (total_core_in_orders s) (amount pays)) (\<lambda>x. Inr (s\<lparr>total_core_in_orders := x\<rparr>))
        else Inr s) db = Inr db1"
    and 2: "adjust_balance a receives db1 = Inr db'"
    using assms(1) by (auto simp: pay_order_def)
  have m1: "moves db (\<lambda>_. 0) (\<lambda>_. 0) db1" "same_orders db db1"
    by (rule modify_stats_moves [OF 1 assms(2)], auto simp: stat_amount_def split: if_splits)+
  note m2 = adjust_balance_moves [OF 2 movesD(1) [OF m1(1)]]
  show "moves db (\<lambda>i. asset_part i receives) (\<lambda>_. 0) db'" using moves_trans [OF m1(1) m2(1)] by simp
  show "same_orders db db'" using same_orders_trans [OF m1(2) m2(2)] .
qed

lemma pay_deferred_moves:
  assumes "(if 0 < x then modify_stats a (stats_pay_fee x t) db else Inr db) = Inr db'" "market_ok db" "0 \<le> x"
  shows "moves db (\<lambda>i. if i = 0 then x else 0) (\<lambda>_. 0) db'" "same_orders db db'"
proof -
  have "moves db (\<lambda>i. if i = 0 then x else 0) (\<lambda>_. 0) db' \<and> same_orders db db'"
  proof (cases "0 < x")
    case True
    then have m: "modify_stats a (stats_pay_fee x t) db = Inr db'" using assms(1) by simp
    show ?thesis using modify_stats_moves [OF m assms(2), of "\<lambda>i. if i = 0 then x else 0"] stats_pay_fee_amount by simp
  next
    case False
    then show ?thesis using assms moves_eq [OF moves_refl [OF assms(2)]] by simp
  qed
  then show "moves db (\<lambda>i. if i = 0 then x else 0) (\<lambda>_. 0) db'" "same_orders db db'" by blast+
qed

text \<open>
  A filled limit order: what the chain holds grows by what the order receives, market fee included,
  and shrinks by what it pays.
\<close>

lemma fill_limit_order_moves:
  assumes "fill_limit_order oid pays receives c p m db = Inr r" "market_ok db"
    "0 \<le> amount receives" "amount receives \<le> 9223372036854775807"
  shows "moves db (\<lambda>i. asset_part i receives - asset_part i pays) (\<lambda>_. 0) (snd r)"
    "call_orders (snd r) = call_orders db" "force_settlements (snd r) = force_settlements db"
proof -
  from assms(1) obtain ord q net db1 db2 where o: "idx_find (limit_orders db) oid = Some ord"
    and ids: "asset_id (amount_for_sale ord) = asset_id pays"
    and 1: "pay_market_fees receives db = Inr q"
    and n: "asset_sub receives (fst q) = Inr net"
    and 2: "pay_order (seller ord) net pays (snd q) = Inr db1"
    and 3: "(if 0 < deferred_fee ord then modify_stats (seller ord) (stats_pay_fee (deferred_fee ord)
       (cashback_vesting_threshold (parameters (global_properties (push_applied_operation
         (fill_order_operation oid (seller ord) pays receives (fst q) p m) db1)))))
       (push_applied_operation (fill_order_operation oid (seller ord) pays receives (fst q) p m) db1)
      else Inr (push_applied_operation (fill_order_operation oid (seller ord) pays receives (fst q) p m) db1)) = Inr db2"
    and 4: "(if asset_eq pays (amount_for_sale ord)
      then Inr (True, db2\<lparr>limit_orders := idx_remove (limit_orders db2) oid\<rparr>)
      else bindE (safe_sub (for_sale ord) (amount pays)) (\<lambda>left.
        if c \<or> head_block_time db < HARDFORK_555_TIME
        then maybe_cull_small_order oid (db2\<lparr>limit_orders := idx_put (limit_orders db2) oid (ord\<lparr>for_sale := left, deferred_fee := 0\<rparr>)\<rparr>)
        else Inr (False, db2\<lparr>limit_orders := idx_put (limit_orders db2) oid (ord\<lparr>for_sale := left, deferred_fee := 0\<rparr>)\<rparr>))) = Inr r"
    unfolding fill_limit_order_def Let_def bindE_eq_Inr idx_get_eq_Inr fc_assert_eq_Inr by (elim exE conjE) (rule that)
  note f = pay_market_fees_moves [OF 1 assms(2-4)]
  note m2 = pay_order_moves [OF 2 movesD(1) [OF f(1)]]
  let ?vop = "fill_order_operation oid (seller ord) pays receives (fst q) p m"
  note m3 = push_moves(1) [OF movesD(1) [OF m2(1)], of ?vop] push_moves(2) [of db1 ?vop]
  have d: "0 \<le> deferred_fee ord" using market_okD(4) [OF assms(2)] o by (rule orders_okD(1))
  note m4 = pay_deferred_moves [OF 3 movesD(1) [OF m3(1)] d]
  have so: "same_orders db db2" using f(2) m2(2) m3(2) m4(2) same_orders_trans by blast
  have o2: "idx_find (limit_orders db2) oid = Some ord" using o so by (simp add: same_orders_def)
  have np: "asset_part i net = asset_part i receives - asset_part i (fst q)" for i
    using n f(3) by (auto simp: asset_sub_def asset_part_def)
  have m: "moves db (\<lambda>i. asset_part i receives + (if i = 0 then deferred_fee ord else 0)) (\<lambda>_. 0) db2"
    by (rule moves_eq [OF moves_trans [OF f(1) moves_trans [OF m2(1) moves_trans [OF m3(1) m4(1)]]]]) (simp_all add: np)
  note l = limit_order_moves [OF movesD(1) [OF m4(1)] o2]
  have "moves db (\<lambda>i. asset_part i receives - asset_part i pays) (\<lambda>_. 0) (snd r) \<and> call_orders (snd r) = call_orders db2
    \<and> force_settlements (snd r) = force_settlements db2"
  proof (cases "asset_eq pays (amount_for_sale ord)")
    case True
    then have "snd r = db2\<lparr>limit_orders := idx_remove (limit_orders db2) oid\<rparr>" using 4 by auto
    moreover have "asset_part i pays = asset_part i (amount_for_sale ord)" for i
      using True by (simp add: asset_eq_def asset_part_def)
    ultimately show ?thesis
      using moves_eq [OF moves_trans [OF m l(1)], of "\<lambda>i. asset_part i receives - asset_part i pays" "\<lambda>_. 0"]
      by (simp add: order_amount_def amount_for_sale_def asset_part_def)
  next
    case False
    define ord' where "ord' = ord\<lparr>for_sale := for_sale ord - amount pays, deferred_fee := 0\<rparr>"
    define db3 where "db3 = db2\<lparr>limit_orders := idx_put (limit_orders db2) oid ord'\<rparr>"
    have left: "for_sale ord - amount pays \<le> 9223372036854775807" using 4 False by (auto simp: in_int64_def)
    have m5: "moves db2 (\<lambda>i. order_amount i ord' - order_amount i ord) (\<lambda>_. 0) db3"
      unfolding db3_def by (rule l(2)) (use left in \<open>simp_all add: ord'_def\<close>)
    have m6: "moves db (\<lambda>i. asset_part i receives - asset_part i pays) (\<lambda>_. 0) db3"
      by (rule moves_eq [OF moves_trans [OF m m5]])
        (use ids in \<open>auto simp: order_amount_def amount_for_sale_def asset_part_def ord'_def\<close>)
    have "maybe_cull_small_order oid db3 = Inr r \<or> r = (False, db3)"
      using 4 False by (auto simp: db3_def ord'_def Let_def split: if_splits)
    then show ?thesis
    proof
      assume "maybe_cull_small_order oid db3 = Inr r"
      note k = maybe_cull_moves [OF this movesD(1) [OF m6]]
      show ?thesis using moves_trans [OF m6 k(1)] k(2,3) by (simp add: db3_def)
    next
      assume "r = (False, db3)"
      then show ?thesis using m6 by (simp add: db3_def)
    qed
  qed
  then show "moves db (\<lambda>i. asset_part i receives - asset_part i pays) (\<lambda>_. 0) (snd r)"
    "call_orders (snd r) = call_orders db" "force_settlements (snd r) = force_settlements db"
    using so by (auto simp: same_orders_def)
qed

definition call_keys_from :: "database \<Rightarrow> database \<Rightarrow> bool" where
  "call_keys_from db db' \<longleftrightarrow> (\<forall>k c'. idx_find (call_orders db') k = Some c' \<longrightarrow>
    (\<exists>c. idx_find (call_orders db) k = Some c \<and> co_call_price c' = co_call_price c))"

lemma call_keys_from_refl: "call_keys_from db db"
  by (simp add: call_keys_from_def)

lemma call_keys_from_trans: "call_keys_from a b \<Longrightarrow> call_keys_from b c \<Longrightarrow> call_keys_from a c"
  unfolding call_keys_from_def by metis

lemma release_collateral_moves:
  assumes "(if f \<noteq> None \<or> core
      then bindE (case f of None \<Rightarrow> Inr db | Some x \<Rightarrow> adjust_balance a x db) (\<lambda>db. modify_stats a g db)
      else Inr db) = Inr db'" "market_ok db"
    and g: "\<And>s s'. g s = Inr s' \<Longrightarrow> (\<exists>t. s' = s\<lparr>total_core_in_orders := t\<rparr>)"
  shows "moves db (\<lambda>i. case f of None \<Rightarrow> 0 | Some x \<Rightarrow> asset_part i x) (\<lambda>_. 0) db'" "same_orders db db'"
proof -
  have s: "stat_amount i s' = stat_amount i s + 0" if "g s = Inr s'" for s s' i
    using g [OF that] by (auto simp: stat_amount_def)
  have "moves db (\<lambda>i. case f of None \<Rightarrow> 0 | Some x \<Rightarrow> asset_part i x) (\<lambda>_. 0) db' \<and> same_orders db db'"
  proof (cases f)
    case None
    show ?thesis
    proof (cases core)
      case True
      then have "modify_stats a g db = Inr db'" using None assms(1) by simp
      from modify_stats_moves [OF this assms(2) s] show ?thesis using None by simp
    next
      case False
      then show ?thesis using None assms(1) moves_refl [OF assms(2)] by simp
    qed
  next
    case (Some x)
    then obtain db1 where 1: "adjust_balance a x db = Inr db1" and 2: "modify_stats a g db1 = Inr db'" using assms(1) by auto
    note m1 = adjust_balance_moves [OF 1 assms(2)]
    note m2 = modify_stats_moves [OF 2 movesD(1) [OF m1(1)] s]
    show ?thesis using moves_trans [OF m1(1) m2(1)] same_orders_trans [OF m1(2) m2(2)] Some by simp
  qed
  then show "moves db (\<lambda>i. case f of None \<Rightarrow> 0 | Some x \<Rightarrow> asset_part i x) (\<lambda>_. 0) db'" "same_orders db db'" by blast+
qed

text \<open>
  A filled call order: what the chain holds shrinks by what the order pays out of its collateral, and
  the supply of the debt asset by what it receives.
\<close>

lemma fill_call_order_moves:
  assumes "fill_call_order cid pays receives p m db = Inr r" "market_ok db"
  shows "moves db (\<lambda>i. - asset_part i pays) (\<lambda>i. - asset_part i receives) (snd r)"
    "limit_orders (snd r) = limit_orders db" "force_settlements (snd r) = force_settlements db" "call_keys_from db (snd r)"
    "\<exists>c. idx_find (call_orders db) cid = Some c \<and> asset_id (get_debt c) = asset_id receives"
proof -
  from assms(1) obtain c db2 db3 where c: "idx_find (call_orders db) cid = Some c"
    and ids: "asset_id (get_debt c) = asset_id receives" "asset_id (get_collateral c) = asset_id pays"
    and 1: "modify_dynamic (asset_id receives) (\<lambda>d. bindE (safe_sub (current_supply d) (amount receives)) (\<lambda>x. Inr (d\<lparr>current_supply := x\<rparr>)))
      (db\<lparr>call_orders := idx_put (call_orders db) cid (c\<lparr>debt := debt c - amount receives,
         collateral := (if debt c - amount receives = 0 then 0 else collateral c - amount pays)\<rparr>)\<rparr>) = Inr db2"
    and 2: "(if (if debt c - amount receives = 0 then Some (mk_asset (collateral c - amount pays) (asset_id pays)) else None) \<noteq> None
        \<or> asset_id pays = 0
      then bindE (case (if debt c - amount receives = 0 then Some (mk_asset (collateral c - amount pays) (asset_id pays)) else None) of
          None \<Rightarrow> Inr db2 | Some x \<Rightarrow> adjust_balance (call_borrower c) x db2) (\<lambda>db. modify_stats (call_borrower c) (\<lambda>s.
               bindE (case (if debt c - amount receives = 0 then Some (mk_asset (collateral c - amount pays) (asset_id pays)) else None) of
                   None \<Rightarrow> Inr (total_core_in_orders s)
                 | Some x \<Rightarrow> if 0 < amount x then safe_sub (total_core_in_orders s) (amount x)
                            else Inr (total_core_in_orders s)) (\<lambda>t1.
               bindE (if asset_id pays = 0 then safe_sub t1 (amount pays) else Inr t1) (\<lambda>t2.
               bindE (fc_assert (0 \<le> t2) ''b.total_core_in_orders >= 0'') (\<lambda>_.
               Inr (s\<lparr>total_core_in_orders := t2\<rparr>))))) db)
      else Inr db2) = Inr db3"
    and 3: "(if (if debt c - amount receives = 0 then Some (mk_asset (collateral c - amount pays) (asset_id pays)) else None) \<noteq> None
      then Inr (True, (push_applied_operation (fill_order_operation cid (call_borrower c) pays receives (mk_asset 0 (asset_id pays)) p m)
          db3)\<lparr>call_orders := idx_remove (call_orders (push_applied_operation
             (fill_order_operation cid (call_borrower c) pays receives (mk_asset 0 (asset_id pays)) p m) db3)) cid\<rparr>)
      else Inr (False, push_applied_operation (fill_order_operation cid (call_borrower c) pays receives (mk_asset 0 (asset_id pays)) p m) db3))
        = (Inr r :: (bool \<times> database) exn)"
    unfolding fill_call_order_def Let_def bindE_eq_Inr idx_get_eq_Inr get_asset_eq_Inr get_account_eq_Inr fc_assert_eq_Inr
      safe_sub_eq_Inr
    by (elim exE conjE) (hypsubst, rule that, assumption+)
  define nd where "nd = debt c - amount receives"
  define c' where "c' = c\<lparr>debt := nd, collateral := (if nd = 0 then 0 else collateral c - amount pays)\<rparr>"
  define f where "f = (if nd = 0 then Some (mk_asset (collateral c - amount pays) (asset_id pays)) else None)"
  define db1 where "db1 = db\<lparr>call_orders := idx_put (call_orders db) cid c'\<rparr>"
  have "backed (assets db) (asset_bitasset_data db) (co_call_price c')"
    using calls_backedD [OF market_okD(5) [OF assms(2)] c] by (simp add: c'_def)
  note m1 = call_order_moves(2) [OF assms(2) c this, folded db1_def]
  have m2: "moves db1 (\<lambda>i. if i = asset_id receives then 0 else 0) (\<lambda>i. if i = asset_id receives then - amount receives else 0) db2" "same_orders db1 db2"
    by (rule modify_dynamic_moves [OF 1 [folded nd_def, folded c'_def, folded db1_def] movesD(1) [OF m1]]; auto)+
  have m3: "moves db2 (\<lambda>i. case f of None \<Rightarrow> 0 | Some x \<Rightarrow> asset_part i x) (\<lambda>_. 0) db3" "same_orders db2 db3"
    by (rule release_collateral_moves [OF 2 [folded nd_def, folded f_def] movesD(1) [OF m2(1)]]; auto)+
  let ?vop = "fill_order_operation cid (call_borrower c) pays receives (mk_asset 0 (asset_id pays)) p m"
  define db4 where "db4 = push_applied_operation ?vop db3"
  have m4: "moves db3 (\<lambda>_. 0) (\<lambda>_. 0) db4" "same_orders db3 db4"
    unfolding db4_def using push_moves movesD(1) [OF m3(1)] by blast+
  have so: "same_orders db1 db4" using m2(2) m3(2) m4(2) same_orders_trans by blast
  have c4: "idx_find (call_orders db4) cid = Some c'" using c so by (simp add: same_orders_def db1_def idx_find_put)
  note m5 = moves_trans [OF m1 moves_trans [OF m2(1) moves_trans [OF m3(1) m4(1)]]]
  have r: "snd r = (if nd = 0 then db4\<lparr>call_orders := idx_remove (call_orders db4) cid\<rparr> else db4)"
    using 3 by (auto simp: db4_def nd_def split: if_splits)
  have co: "asset_id (base (co_call_price c)) = asset_id pays" using ids(2) by (simp add: get_collateral_def)
  show "moves db (\<lambda>i. - asset_part i pays) (\<lambda>i. - asset_part i receives) (snd r)"
  proof (cases "nd = 0")
    case True
    note m6 = call_order_moves(1) [OF movesD(1) [OF m5] c4]
    show ?thesis using True r moves_eq [OF moves_trans [OF m5 m6], of "\<lambda>i. - asset_part i pays" "\<lambda>i. - asset_part i receives"] co
      by (simp add: f_def c'_def call_amount_def asset_part_def)
  next
    case False
    then show ?thesis using r moves_eq [OF m5, of "\<lambda>i. - asset_part i pays" "\<lambda>i. - asset_part i receives"] co
      by (simp add: f_def c'_def call_amount_def asset_part_def)
  qed
  show "limit_orders (snd r) = limit_orders db" "force_settlements (snd r) = force_settlements db"
    using r so by (simp_all add: same_orders_def db1_def)
  show "call_keys_from db (snd r)"
    using r so c by (auto simp: call_keys_from_def same_orders_def db1_def idx_find_put idx_find_remove c'_def split: if_splits)
  show "\<exists>c. idx_find (call_orders db) cid = Some c \<and> asset_id (get_debt c) = asset_id receives" using c ids(1) by blast
qed

lemma fill_settle_order_moves:
  assumes "fill_settle_order sid pays receives p m db = Inr r" "market_ok db"
    "0 \<le> amount receives" "amount receives \<le> 9223372036854775807"
    and s: "idx_find (force_settlements db) sid = Some s" and le: "amount pays \<le> amount (fs_balance s)"
  shows "moves db (\<lambda>i. asset_part i receives - asset_part i pays) (\<lambda>_. 0) (snd r)"
proof -
  from assms(1) s obtain q less db1 net db2 where
    1: "pay_market_fees receives db = Inr q"
    and l: "asset_lt pays (fs_balance s) = Inr less"
    and 2: "(if less then bindE (asset_sub (fs_balance s) pays) (\<lambda>x.
                Inr ((snd q)\<lparr>force_settlements := idx_put (force_settlements (snd q)) sid (s\<lparr>fs_balance := x\<rparr>)\<rparr>))
           else Inr (snd q)) = Inr db1"
    and n: "asset_sub receives (fst q) = Inr net"
    and 3: "adjust_balance (fs_owner s) net db1 = Inr db2"
    and 4: "(if less then Inr (False, push_applied_operation (fill_order_operation sid (fs_owner s) pays receives (fst q) p m) db2)
       else Inr (True, (push_applied_operation (fill_order_operation sid (fs_owner s) pays receives (fst q) p m) db2)\<lparr>force_settlements :=
          idx_remove (force_settlements (push_applied_operation (fill_order_operation sid (fs_owner s) pays receives (fst q) p m) db2)) sid\<rparr>))
       = (Inr r :: (bool \<times> database) exn)"
    by (auto simp: fill_settle_order_def Let_def)
  note f = pay_market_fees_moves [OF 1 assms(2-4)]
  have s1: "idx_find (force_settlements (snd q)) sid = Some s" using s f(2) by (simp add: same_orders_def)
  have ids: "asset_id pays = asset_id (fs_balance s)" and lt: "less \<longleftrightarrow> amount pays < amount (fs_balance s)"
    using l by (auto simp: asset_lt_def)
  have np: "asset_part i net = asset_part i receives - asset_part i (fst q)" for i
    using n f(3) by (auto simp: asset_sub_def asset_part_def)
  let ?vop = "fill_order_operation sid (fs_owner s) pays receives (fst q) p m"
  show ?thesis
  proof (cases less)
    case True
    then obtain x where x: "asset_sub (fs_balance s) pays = Inr x"
      and db1: "db1 = (snd q)\<lparr>force_settlements := idx_put (force_settlements (snd q)) sid (s\<lparr>fs_balance := x\<rparr>)\<rparr>"
      using 2 by auto
    note m1 = settlement_moves(2) [OF movesD(1) [OF f(1)] s1, of "s\<lparr>fs_balance := x\<rparr>", folded db1]
    note m2 = adjust_balance_moves [OF 3 movesD(1) [OF m1]]
    note m3 = push_moves(1) [OF movesD(1) [OF m2(1)], of ?vop]
    have "asset_part i x = asset_part i (fs_balance s) - asset_part i pays" for i
      using x by (auto simp: asset_sub_def asset_part_def)
    then have "moves db (\<lambda>i. asset_part i receives - asset_part i pays) (\<lambda>_. 0) (push_applied_operation ?vop db2)"
      by (intro moves_eq [OF moves_trans [OF f(1) moves_trans [OF m1 moves_trans [OF m2(1) m3]]]]) (simp_all add: np)
    then show ?thesis using 4 True by auto
  next
    case False
    then have db1: "db1 = snd q" and p: "amount pays = amount (fs_balance s)" using 2 lt le by auto
    note m2 = adjust_balance_moves [OF 3 [unfolded db1] movesD(1) [OF f(1)]]
    note m3 = push_moves(1) [OF movesD(1) [OF m2(1)], of ?vop] push_moves(2) [of db2 ?vop]
    have "idx_find (force_settlements (push_applied_operation ?vop db2)) sid = Some s"
      using s1 m2(2) m3(2) by (simp add: same_orders_def)
    note m4 = settlement_moves(1) [OF movesD(1) [OF m3(1)] this]
    have "asset_part i (fs_balance s) = asset_part i pays" for i using ids p by (simp add: asset_part_def)
    then have "moves db (\<lambda>i. asset_part i receives - asset_part i pays) (\<lambda>_. 0) ((push_applied_operation ?vop db2)\<lparr>force_settlements :=
      idx_remove (force_settlements (push_applied_operation ?vop db2)) sid\<rparr>)"
      by (intro moves_eq [OF moves_trans [OF f(1) moves_trans [OF m2(1) moves_trans [OF m3(1) m4]]]]) (simp_all add: np)
    then show ?thesis using 4 False by auto
  qed
qed

section \<open>Matching\<close>

lemma asset_part_eq: "asset_eq a b \<Longrightarrow> asset_part i a = asset_part i b"
  by (simp add: asset_eq_def asset_part_def)

lemma match_limit_orders_conserves:
  assumes "match_limit_orders u k mp db = Inr r" "market_ok db"
  shows "moves db (\<lambda>_. 0) (\<lambda>_. 0) (snd r)"
proof -
  from assms(1) obtain usd core core_worth le pr r1 r2 n where
    u: "idx_find (limit_orders db) u = Some usd" and k: "idx_find (limit_orders db) k = Some core"
    and pos: "0 < for_sale usd \<and> 0 < for_sale core"
    and w: "asset_times_price (amount_for_sale core) mp = Inr core_worth"
    and xy: "(if le then bindE (asset_times_price (amount_for_sale usd) mp) (\<lambda>x. Inr (amount_for_sale usd, x))
           else Inr (core_worth, amount_for_sale core)) = Inr pr"
    and 1: "fill_limit_order u (fst pr) (snd pr) False mp False db = Inr r1"
    and 2: "fill_limit_order k (snd pr) (fst pr) True mp True (snd r1) = Inr r2"
    and r: "Inr (n, snd r2) = (Inr r :: (nat \<times> database) exn)"
    unfolding match_limit_orders_def Let_def bindE_eq_Inr idx_get_eq_Inr fc_assert_eq_Inr
    by (elim exE conjE) (rule that, (assumption | rule conjI)+)
  have "for_sale usd \<le> 9223372036854775807" "for_sale core \<le> 9223372036854775807"
    using orders_okD(2) [OF market_okD(4) [OF assms(2)]] u k by blast+
  then have rx: "0 \<le> amount (fst pr) \<and> amount (fst pr) \<le> 9223372036854775807"
    and ry: "0 \<le> amount (snd pr) \<and> amount (snd pr) \<le> 9223372036854775807"
    using xy asset_times_price_range [of "amount_for_sale usd" mp "snd pr"] asset_times_price_range [OF w] pos
    by (auto simp: amount_for_sale_def split: if_splits)
  have m1: "moves db (\<lambda>i. asset_part i (snd pr) - asset_part i (fst pr)) (\<lambda>_. 0) (snd r1)"
    using fill_limit_order_moves(1) [OF 1 assms(2)] ry by blast
  have m2: "moves (snd r1) (\<lambda>i. asset_part i (fst pr) - asset_part i (snd pr)) (\<lambda>_. 0) (snd r2)"
    using fill_limit_order_moves(1) [OF 2 movesD(1) [OF m1]] rx by blast
  have "snd r = snd r2" using r by auto
  then show ?thesis using moves_eq [OF moves_trans [OF m1 m2], of "\<lambda>_. 0" "\<lambda>_. 0"] by simp
qed

lemma asset_min_cases: "asset_min a b = Inr c \<Longrightarrow> asset_id a = asset_id b \<and> amount c \<le> amount a \<and> asset_id c = asset_id a"
  by (auto simp: asset_min_def asset_lt_def split: if_splits)

lemma match_settle_conserves:
  assumes "match_settle cid sid mp ms db = Inr r" "market_ok db"
  shows "market_conserves db (snd r)"
proof -
  from assms(1) obtain s settle_for_sale call_receives call_pays c where
    s: "idx_find (force_settlements db) sid = Some s"
    and f: "asset_min (fs_balance s) ms = Inr settle_for_sale"
    and cr: "asset_min settle_for_sale (get_debt c) = Inr call_receives"
    and cp: "asset_times_price call_receives mp = Inr call_pays"
    and lt: "\<exists>lt. (if \<not> lt then Inl (chain_exception ''black_swan_exception'') else
      bindE (fc_assert (asset_eq call_receives settle_for_sale \<or> asset_eq call_receives (get_debt c)) ''settle_pays'') (\<lambda>_.
      bindE (fill_call_order cid call_pays call_receives mp True db) (\<lambda>r1.
      bindE (fill_settle_order sid call_receives call_pays mp False (snd r1)) (\<lambda>r2.
      Inr (call_receives, snd r2))))) = Inr r"
    unfolding match_settle_def Let_def bindE_eq_Inr idx_get_eq_Inr fc_assert_eq_Inr
    by (elim exE conjE) (rule that, (assumption | rule exI)+)
  from lt obtain r1 r2 where
    1: "fill_call_order cid call_pays call_receives mp True db = Inr r1"
    and 2: "fill_settle_order sid call_receives call_pays mp False (snd r1) = Inr r2"
    and r: "snd r = snd r2"
    by (auto split: if_splits)
  have le: "amount call_receives \<le> amount (fs_balance s)"
    using asset_min_cases [OF f] asset_min_cases [OF cr] by linarith
  note m1 = fill_call_order_moves [OF 1 assms(2)]
  have s1: "idx_find (force_settlements (snd r1)) sid = Some s" using s m1(3) by simp
  have "0 \<le> amount call_pays" "amount call_pays \<le> 9223372036854775807" using asset_times_price_range [OF cp] by auto
  note m2 = fill_settle_order_moves [OF 2 movesD(1) [OF m1(1)] this s1 le]
  show ?thesis unfolding r by (rule moves_conserves [OF moves_trans [OF m1(1) m2]]) simp
qed

section \<open>Global settlement\<close>

lemma set_insert_ordered: "set (insert_ordered first x xs) = insert x (set xs)"
  by (induction xs) auto

lemma set_order_by [simp]: "set (order_by first xs) = set xs"
  by (induction xs) (auto simp: order_by_def set_insert_ordered)

lemma calls_between_keys:
  assumes "cid \<in> set (calls_between lo hi db)" "price_min a b = Inr lo" "price_max a b = Inr hi" "market_ok db"
  shows "\<exists>c. idx_find (call_orders db) cid = Some c \<and> asset_id (base (co_call_price c)) = a \<and> asset_id (quote (co_call_price c)) = b"
proof -
  from assms(1) obtain c where c: "(cid, c) \<in> set (objs (call_orders db))" "\<not> price_lt (co_call_price c) lo" "\<not> price_lt hi (co_call_price c)"
    by (auto simp: calls_between_def)
  have "asset_id (base lo) = a" "asset_id (quote lo) = b" "asset_id (base hi) = a" "asset_id (quote hi) = b"
    using assms(2,3) by (auto simp: price_min_def price_max_def asset_div_def)
  then have "asset_id (base (co_call_price c)) = a" "asset_id (quote (co_call_price c)) = b"
    using c(2,3) by (auto simp: price_lt_def split: if_splits)
  then show ?thesis using in_idx_find [OF db_okD(8) [OF market_okD(1) [OF assms(4)]] c(1)] by blast
qed

text \<open>The state of the settlement loop: what has left the chain is what has been gathered.\<close>

definition settling :: "asset_id_type \<Rightarrow> asset_id_type \<Rightarrow> database \<Rightarrow> asset \<times> database \<Rightarrow> bool" where
  "settling mia backing db st \<longleftrightarrow> market_ok (snd st) \<and> assets (snd st) = assets db
    \<and> asset_bitasset_data (snd st) = asset_bitasset_data db \<and> asset_id (fst st) = backing
    \<and> (\<forall>i. held i (snd st) = held i db - asset_part i (fst st))
    \<and> (\<forall>i. i \<noteq> mia \<longrightarrow> supply_of i (snd st) = supply_of i db) \<and> call_keys_from db (snd st)"

lemma settle_call_settling:
  assumes "settle_call mia sp cid st = Inr st'" "settling mia backing db st"
    and key: "\<exists>c. idx_find (call_orders db) cid = Some c \<and> asset_id (quote (co_call_price c)) = mia"
  shows "settling mia backing db st'"
proof -
  from assms(1) obtain c pays gathered r where c: "idx_find (call_orders (snd st)) cid = Some c"
    and g: "asset_add (fst st) pays = Inr gathered"
    and 1: "fill_call_order cid pays (get_debt c) sp True (snd st) = Inr r"
    and st': "st' = (gathered, snd r)"
    unfolding settle_call_def Let_def by auto
  have st: "market_ok (snd st)" "call_keys_from db (snd st)" using assms(2) by (simp_all add: settling_def)
  obtain c0 where "idx_find (call_orders db) cid = Some c0" "co_call_price c = co_call_price c0"
    using st(2) c by (auto simp: call_keys_from_def)
  then have k: "asset_id (get_debt c) = mia" using key by (auto simp: get_debt_def)
  note m = fill_call_order_moves [OF 1 st(1)]
  have "asset_part i gathered = asset_part i (fst st) + asset_part i pays" "asset_id gathered = asset_id (fst st)" for i
    using g by (auto simp: asset_add_def asset_part_def)
  moreover have "asset_part i (get_debt c) = 0" if "i \<noteq> mia" for i using that k by (simp add: asset_part_def)
  moreover have "call_keys_from db (snd r)" using call_keys_from_trans [OF st(2) m(4)] .
  ultimately show ?thesis using assms(2) m(1) by (simp add: settling_def st' moves_def)
qed

lemma bitasset_put_effect:
  assumes "market_ok db" "idx_find (asset_bitasset_data db) k = Some b" "has_settlement b' \<or> settlement_fund b' = 0"
    "ba_options b' = ba_options b"
  shows "market_ok (db\<lparr>asset_bitasset_data := idx_put (asset_bitasset_data db) k b'\<rparr>)"
    and "held i (db\<lparr>asset_bitasset_data := idx_put (asset_bitasset_data db) k b'\<rparr>) = held i db + fund_amount i b' - fund_amount i b"
    and "supply_of i (db\<lparr>asset_bitasset_data := idx_put (asset_bitasset_data db) k b'\<rparr>) = supply_of i db"
  using assms db_okD(5) [OF market_okD(1) [OF assms(1)]]
  by (auto simp: market_ok_def db_ok_def indices_ok_def funds_ok_def held_def supply_of_def idx_sum_put calls_backed_def
      backed_put [OF assms(2,4)] dest!: objs_put_in)

lemma funds_okD: "funds_ok t \<Longrightarrow> idx_find t k = Some b \<Longrightarrow> has_settlement b \<or> settlement_fund b = 0"
  by (auto simp: funds_ok_def dest!: idx_find_in)

lemma modify_supply_effect:
  assumes "modify_dynamic j (\<lambda>d. Inr (d\<lparr>current_supply := x\<rparr>)) db = Inr db'" "market_ok db"
  shows "market_ok db'" "held i db' = held i db" "supply_of i db' = (if i = j then x else supply_of i db)" "assets db' = assets db"
proof -
  obtain a d where a: "idx_find (assets db) j = Some a" and d: "idx_find (asset_dynamic_data db) (dynamic_asset_data_id a) = Some d"
    and db': "db' = db\<lparr>asset_dynamic_data := idx_put (asset_dynamic_data db) (dynamic_asset_data_id a) (d\<lparr>current_supply := x\<rparr>)\<rparr>"
    using assms(1) by (auto simp: modify_dynamic_def)
  note e = dynamic_put_effect [OF market_okD(1) [OF assms(2)] a d db']
  have "supply_of j db = current_supply d" using a d by (simp add: supply_of_def dyn_field_def)
  then show "market_ok db'" "held i db' = held i db" "supply_of i db' = (if i = j then x else supply_of i db)" "assets db' = assets db"
    using e(1,2) [of i] e(3) assms(2) by (auto simp: market_ok_def) (simp_all add: db')
qed

lemma asset_div_settles: "asset_div a b = Inr p \<Longrightarrow> \<not> price_is_null p"
  by (auto simp: asset_div_def price_is_null_def price_eq_def null_price_def)

text \<open>
  Global settlement moves all collateral that is taken into the settlement fund and leaves the supply
  of the settled asset as it was.
\<close>

lemma globally_settle_conserves:
  assumes "globally_settle_asset mia sp db = Inr db'" "market_ok db"
  shows "market_conserves db db'"
proof -
  from assms(1) obtain m bad dyn lo hi r db1 where m: "idx_find (assets db) mia = Some m"
    and bad: "bitasset_data m db = Inr bad" "\<not> has_settlement bad"
    and dyn: "idx_find (asset_dynamic_data db) (dynamic_asset_data_id m) = Some dyn"
    and lo: "price_min (short_backing_asset (ba_options bad)) mia = Inr lo"
    and hi: "price_max (short_backing_asset (ba_options bad)) mia = Inr hi"
    and f: "foldE (settle_call mia sp) (calls_between lo hi db) (mk_asset 0 (short_backing_asset (ba_options bad)), db) = Inr r"
    and b: "modify_bitasset m (\<lambda>obj.
        bindE (fc_assert (asset_id (fst r) = asset_id (quote sp)) ''collateral_gathered.asset_id'') (\<lambda>_.
        bindE (asset_div (mk_asset (current_supply dyn) mia) (fst r)) (\<lambda>p.
        Inr (obj\<lparr>ba_settlement_price := p, settlement_fund := amount (fst r)\<rparr>)))) (snd r) = Inr db1"
    and d: "modify_dynamic mia (\<lambda>d. Inr (d\<lparr>current_supply := current_supply dyn\<rparr>)) db1 = Inr db'"
    unfolding globally_settle_asset_def Let_def bindE_eq_Inr idx_get_eq_Inr get_asset_eq_Inr fc_assert_eq_Inr
    by (elim exE conjE) (rule that, assumption+)
  let ?bk = "short_backing_asset (ba_options bad)"
  have s: "settling mia ?bk db r"
  proof (rule foldE_invariant [OF f])
    show "settling mia ?bk db (mk_asset 0 ?bk, db)" using assms(2) by (simp add: settling_def call_keys_from_refl asset_part_def)
    show "settling mia ?bk db t"
      if "cid \<in> set (calls_between lo hi db)" "settling mia ?bk db s" "settle_call mia sp cid s = Inr t" for cid s t
      using settle_call_settling [OF that(3,2)] calls_between_keys [OF that(1) lo hi assms(2)] by blast
  qed
  have r: "market_ok (snd r)" "assets (snd r) = assets db" "asset_bitasset_data (snd r) = asset_bitasset_data db" "asset_id (fst r) = ?bk"
    using s by (simp_all add: settling_def)
  obtain k where k: "bitasset_data_id m = Some k" and bk: "idx_find (asset_bitasset_data (snd r)) k = Some bad"
    using bad(1) r(3) by (auto simp: bitasset_data_def)
  obtain p where p: "asset_div (mk_asset (current_supply dyn) mia) (fst r) = Inr p"
    and db1: "db1 = (snd r)\<lparr>asset_bitasset_data := idx_put (asset_bitasset_data (snd r)) k
      (bad\<lparr>ba_settlement_price := p, settlement_fund := amount (fst r)\<rparr>)\<rparr>"
    using b k bk by (auto simp: modify_bitasset_def)
  have "has_settlement (bad\<lparr>ba_settlement_price := p, settlement_fund := amount (fst r)\<rparr>)"
    using asset_div_settles [OF p] by (simp add: has_settlement_def)
  note e = bitasset_put_effect [OF r(1) bk disjI1 [OF this], simplified, folded db1]
  note e2 = modify_supply_effect [OF d e(1)]
  have fund: "settlement_fund bad = 0" using funds_okD [OF market_okD(3) [OF r(1)] bk] bad(2) by blast
  have h: "held i db' = held i db" for i
    using e(2) [of i] e2(2) [of i] s r(4) fund by (simp add: settling_def fund_amount_def asset_part_def)
  have "supply_of mia db = current_supply dyn" using m dyn by (simp add: supply_of_def dyn_field_def)
  then have "supply_of i db' = supply_of i db" for i using e(3) [of i] e2(3) [of i] s by (simp add: settling_def)
  then show ?thesis using h e2(1,4) r(2) by (simp add: market_conserves_def books_def db1)
qed

section \<open>Bids and revival\<close>

lemma call_price_base: "call_price d c r = Inr p \<Longrightarrow> asset_id (base p) = asset_id c \<and> asset_id (quote p) = asset_id d"
  by (auto simp: call_price_def asset_div_def price_inv_def)

lemma execute_bid_moves:
  assumes "execute_bid bid dc fund feed db = Inr db'" "market_ok db" and b: "idx_find (collateral_bids db) bid = Some b"
    and bk: "backed (assets db) (asset_bitasset_data db) (inv_swan_price b)"
  shows "moves db (\<lambda>i. if i = asset_id (base (inv_swan_price b)) then fund else 0) (\<lambda>_. 0) db'"
proof -
  let ?bs = "base (inv_swan_price b)" and ?qt = "quote (inv_swan_price b)"
  let ?col = "amount ?bs + fund"
  from assms(1) b obtain cp db2 where cp: "call_price (mk_asset dc (asset_id ?qt)) (mk_asset ?col (asset_id ?bs)) (maintenance_collateral_ratio feed) = Inr cp"
    and 1: "(if asset_id ?bs = 0 then modify_stats (bidder b) (\<lambda>s. bindE (safe_add (total_core_in_orders s) ?col)
        (\<lambda>x. Inr (s\<lparr>total_core_in_orders := x\<rparr>)))
        (db\<lparr>call_orders := idx_create (call_orders db) \<lparr>call_borrower = bidder b, collateral = ?col, debt = dc, co_call_price = cp\<rparr>\<rparr>)
      else Inr (db\<lparr>call_orders := idx_create (call_orders db) \<lparr>call_borrower = bidder b, collateral = ?col, debt = dc, co_call_price = cp\<rparr>\<rparr>))
      = Inr db2"
    and r: "db' = (push_applied_operation (execute_bid_operation (bidder b) (mk_asset ?col (asset_id ?bs)) (mk_asset dc (asset_id ?qt))) db2)
        \<lparr>collateral_bids := idx_remove (collateral_bids
          (push_applied_operation (execute_bid_operation (bidder b) (mk_asset ?col (asset_id ?bs)) (mk_asset dc (asset_id ?qt))) db2)) bid\<rparr>"
    by (auto simp: execute_bid_def Let_def)
  let ?c = "\<lparr>call_borrower = bidder b, collateral = ?col, debt = dc, co_call_price = cp\<rparr>"
  let ?db1 = "db\<lparr>call_orders := idx_create (call_orders db) ?c\<rparr>"
  let ?vop = "execute_bid_operation (bidder b) (mk_asset ?col (asset_id ?bs)) (mk_asset dc (asset_id ?qt))"
  have "backed (assets db) (asset_bitasset_data db) (co_call_price ?c)"
    using call_price_base [OF cp] by (intro backed_ids [OF bk]) simp_all
  note m1 = create_moves(1) [OF assms(2) this]
  have m2: "moves ?db1 (\<lambda>_. 0) (\<lambda>_. 0) db2 \<and> same_orders ?db1 db2"
  proof (cases "asset_id ?bs = 0")
    case True
    with 1 have s: "modify_stats (bidder b) (\<lambda>s. bindE (safe_add (total_core_in_orders s) ?col)
        (\<lambda>x. Inr (s\<lparr>total_core_in_orders := x\<rparr>))) ?db1 = Inr db2" by simp
    show ?thesis using modify_stats_moves [OF s movesD(1) [OF m1], of "\<lambda>_. 0"] by (auto simp: stat_amount_def)
  next
    case False
    then show ?thesis using 1 moves_refl [OF movesD(1) [OF m1]] by simp
  qed
  note m3 = push_moves(1) [OF movesD(1) [OF conjunct1 [OF m2]], of ?vop] push_moves(2) [of db2 ?vop]
  have "idx_find (collateral_bids (push_applied_operation ?vop db2)) bid = Some b" using b m2 m3(2) by (simp add: same_orders_def)
  note m4 = bid_moves [OF movesD(1) [OF m3(1)] this]
  show ?thesis unfolding r
    by (rule moves_eq [OF moves_trans [OF m1 moves_trans [OF conjunct1 [OF m2] moves_trans [OF m3(1) m4]]]])
      (use call_price_base [OF cp] in \<open>auto simp: call_amount_def asset_part_def\<close>)
qed

lemma cancel_bids_moves:
  assumes "foldE (\<lambda>b. cancel_bid b True) bs db = Inr db'" "market_ok db"
  shows "moves db (\<lambda>_. 0) (\<lambda>_. 0) db'"
proof (rule foldE_invariant [OF assms(1), of "moves db (\<lambda>_. 0) (\<lambda>_. 0)"])
  show "moves db (\<lambda>_. 0) (\<lambda>_. 0) t" if "moves db (\<lambda>_. 0) (\<lambda>_. 0) s" "cancel_bid x True s = Inr t" for x s t
    using moves_trans [OF that(1) cancel_bid_moves [OF that(2) movesD(1) [OF that(1)]]] by simp
qed (rule moves_refl [OF assms(2)])

lemma clear_settlement_effect:
  assumes "cancel_bids_and_revive_mpa mia db = Inr db'" "market_ok db"
    and m: "idx_find (assets db) mia = Some m" and bad: "bitasset_data m db = Inr bad"
  shows "market_ok db'" "assets db' = assets db" "held i db' = held i db - fund_amount i bad" "supply_of i db' = supply_of i db"
proof -
  from assms(1) m bad obtain hi db1 where 1: "foldE (\<lambda>b. cancel_bid b True) (bids_for mia hi db) db = Inr db1"
    and 2: "modify_bitasset m (\<lambda>obj. Inr (obj\<lparr>ba_settlement_price := null_price, settlement_fund := 0\<rparr>)) db1 = Inr db'"
    by (auto simp: cancel_bids_and_revive_mpa_def)
  note m1 = cancel_bids_moves [OF 1 assms(2)]
  obtain k where k: "bitasset_data_id m = Some k" and bk: "idx_find (asset_bitasset_data db1) k = Some bad"
    using bad movesD(3) [OF m1] by (auto simp: bitasset_data_def)
  then have db': "db' = db1\<lparr>asset_bitasset_data := idx_put (asset_bitasset_data db1) k
      (bad\<lparr>ba_settlement_price := null_price, settlement_fund := 0\<rparr>)\<rparr>"
    using 2 by (auto simp: modify_bitasset_def)
  note e = bitasset_put_effect [OF movesD(1) [OF m1] bk, of "bad\<lparr>ba_settlement_price := null_price, settlement_fund := 0\<rparr>", folded db']
  show "market_ok db'" "held i db' = held i db - fund_amount i bad" "supply_of i db' = supply_of i db"
    using e(1) e(2,3) [of i] movesD(4,5) [OF m1, of i] by (simp_all add: fund_amount_def)
  show "assets db' = assets db" using movesD(2) [OF m1] by (simp add: db')
qed

text \<open>Reviving an asset turns its settlement fund into the collateral of one call order.\<close>

lemma revive_conserves:
  assumes "revive_bitasset mia db = Inr db'" "market_ok db"
  shows "market_conserves db db'"
proof -
  from assms(1) obtain m bad and dyn :: asset_dynamic_data_object and db2
    where m: "idx_find (assets db) mia = Some m" and bad: "bitasset_data m db = Inr bad"
    and 1: "(if 0 < current_supply dyn
           then bindE (asset_div (mk_asset 0 (short_backing_asset (ba_options bad))) (mk_asset (current_supply dyn) mia)) (\<lambda>p.
                bindE (fc_assert (bid_of (issuer m) mia db = None) ''uniqueness constraint'') (\<lambda>_.
                execute_bid (next_id (collateral_bids db)) (current_supply dyn) (settlement_fund bad) (current_feed bad)
                  (db\<lparr>collateral_bids := idx_create (collateral_bids db) \<lparr>bidder = issuer m, inv_swan_price = p\<rparr>\<rparr>)))
           else bindE (fc_assert (settlement_fund bad = 0) ''bad.settlement_fund == 0'') (\<lambda>_. Inr db)) = Inr db2"
    and 2: "cancel_bids_and_revive_mpa mia db2 = Inr db'"
    unfolding revive_bitasset_def Let_def bindE_eq_Inr idx_get_eq_Inr get_asset_eq_Inr fc_assert_eq_Inr
    by (elim exE conjE) (rule that, assumption+)
  have mv: "moves db (\<lambda>i. fund_amount i bad) (\<lambda>_. 0) db2"
  proof (cases "0 < current_supply dyn")
    case True
    then obtain p where p: "asset_div (mk_asset 0 (short_backing_asset (ba_options bad))) (mk_asset (current_supply dyn) mia) = Inr p"
      and ex: "execute_bid (next_id (collateral_bids db)) (current_supply dyn) (settlement_fund bad) (current_feed bad)
          (db\<lparr>collateral_bids := idx_create (collateral_bids db) \<lparr>bidder = issuer m, inv_swan_price = p\<rparr>\<rparr>) = Inr db2"
      using 1 by auto
    let ?b = "\<lparr>bidder = issuer m, inv_swan_price = p\<rparr>"
    note c = create_moves(2) [OF assms(2), of ?b]
    have pp: "base p = mk_asset 0 (short_backing_asset (ba_options bad))" "asset_id (quote p) = mia"
      using p by (auto simp: asset_div_def)
    have bk: "backed (assets db) (asset_bitasset_data db) p"
      using pp m bad by (auto simp: backed_def bitasset_data_def)
    have "idx_find (collateral_bids (db\<lparr>collateral_bids := idx_create (collateral_bids db) ?b\<rparr>)) (next_id (collateral_bids db)) = Some ?b"
      using db_okD(13) [OF market_okD(1) [OF assms(2)]] by (simp add: idx_find_create)
    note x = execute_bid_moves [OF ex movesD(1) [OF c] this, simplified, OF bk]
    show ?thesis by (rule moves_eq [OF moves_trans [OF c x]]) (auto simp: fund_amount_def asset_part_def pp)
  next
    case False
    then show ?thesis using 1 moves_eq [OF moves_refl [OF assms(2)]] by (auto simp: fund_amount_def)
  qed
  have "bitasset_data m db2 = Inr bad" using bad movesD(3) [OF mv] by (simp add: bitasset_data_def)
  note e = clear_settlement_effect [OF 2 movesD(1) [OF mv] _ this]
  show ?thesis using e movesD(2,4,5) [OF mv] m by (simp add: market_conserves_def books_def)
qed

section \<open>Margin calls\<close>

lemma check_for_blackswan_conserves:
  assumes "check_for_blackswan mia e db = Inr r" "market_ok db"
  shows "market_conserves db (snd r)"
proof -
  have "ensures (check_for_blackswan mia e db) (\<lambda>r. market_conserves db (snd r))"
    unfolding check_for_blackswan_def Let_def
    by (intro ensures_intros) (simp_all add: market_conserves_refl [OF assms(2)] globally_settle_conserves [OF _ assms(2)])
  then show ?thesis using assms(1) by (rule ensuresD)
qed

lemma margin_call_conserves:
  assumes "fill_call_order cid pays receives p m db = Inr r1" "fill_limit_order oid receives pays c p' m' (snd r1) = Inr r2"
    "asset_times_price receives p = Inr pays" "market_ok db"
  shows "market_conserves db (snd r2)"
proof -
  have rg: "0 \<le> amount pays" "amount pays \<le> 9223372036854775807" using asset_times_price_range [OF assms(3)] by auto
  note m1 = fill_call_order_moves(1) [OF assms(1,4)]
  note m2 = fill_limit_order_moves(1) [OF assms(2) movesD(1) [OF m1] rg]
  show ?thesis by (rule moves_conserves [OF moves_trans [OF m1 m2]]) simp
qed

lemma call_loop_conserves: "market_ok db \<Longrightarrow> ensures (call_loop mia e f calls limits fl mc db) (\<lambda>r. market_conserves db (snd r))"
proof (induction "length calls + length limits" arbitrary: calls limits fl mc db rule: less_induct)
  case less
  note IH = less.hyps and ok = less.prems
  have loop: "ensures (call_loop mia e f cs ls fl' True (snd r2)) (\<lambda>r. market_conserves db (snd r))"
    if "check_for_blackswan mia e db = Inr sw" "asset_times_price receives p = Inr pays"
      "fill_call_order cid pays receives p f (snd sw) = Inr r1"
      "fill_limit_order oid receives pays True p (\<not> f) (snd r1) = Inr r2"
      "length cs + length ls < length calls + length limits"
    for sw receives p pays cid r1 oid r2 cs ls fl'
  proof -
    have 1: "market_conserves db (snd sw)" by (rule check_for_blackswan_conserves [OF that(1) ok])
    have 2: "market_conserves (snd sw) (snd r2)" by (rule margin_call_conserves [OF that(3,4,2) market_conserves_ok [OF 1]])
    have "market_conserves db (snd r2)" using market_conserves_trans [OF 1 2] .
    then show ?thesis using IH [OF that(5), of "snd r2" fl' True] market_conserves_ok [of db "snd r2"] market_conserves_trans
      unfolding ensures_def by blast
  qed
  have settle: "market_conserves db db'" if "check_for_blackswan mia e db = Inr sw" "globally_settle_asset mia p (snd sw) = Inr db'" for sw p db'
    using market_conserves_trans [OF check_for_blackswan_conserves [OF that(1) ok]] globally_settle_conserves [OF that(2)]
      market_conserves_ok [OF check_for_blackswan_conserves [OF that(1) ok]] by blast
  show ?case
    unfolding call_loop.simps [of mia e f calls] Let_def
    by (intro ensures_intros; (rule loop, assumption, assumption, assumption, assumption)?)
      (auto simp: check_for_blackswan_conserves [OF _ ok] settle)
qed


lemma check_call_orders_conserves:
  assumes "check_call_orders mia e f db = Inr r" "market_ok db"
  shows "market_conserves db (snd r)"
proof -
  have sw: "market_conserves db (snd sw)" if "check_for_blackswan mia e db = Inr sw" for sw
    using check_for_blackswan_conserves [OF that assms(2)] .
  have loop: "ensures (call_loop mia e f cs ls fl mc (snd sw)) (\<lambda>r. market_conserves db (snd r))"
    if "check_for_blackswan mia e db = Inr sw" for sw cs ls fl mc
    using call_loop_conserves [OF market_conserves_ok [OF sw [OF that]]] market_conserves_trans [OF sw [OF that]]
    unfolding ensures_def by blast
  have "ensures (check_call_orders mia e f db) (\<lambda>r. market_conserves db (snd r))"
    unfolding check_call_orders_def Let_def
    by (intro ensures_intros; (rule loop, assumption)?) (simp_all add: market_conserves_refl [OF assms(2)] sw)
  then show ?thesis using assms(1) by (rule ensuresD)
qed

section \<open>A new order\<close>

lemma match_loop_conserves: "match_loop oid olds db = Inr db' \<Longrightarrow> market_ok db \<Longrightarrow> moves db (\<lambda>_. 0) (\<lambda>_. 0) db'"
proof (induction olds arbitrary: db)
  case Nil
  then show ?case by (simp add: moves_refl)
next
  case (Cons old olds)
  then obtain ord :: limit_order_object and r where r: "match_limit_orders oid old (sell_price ord) db = Inr r"
    and rest: "(if fst r \<noteq> 2 then Inr (snd r) else match_loop oid olds (snd r)) = Inr db'"
    by (auto simp del: split_paired_Ex)
  note m = match_limit_orders_conserves [OF r Cons.prems(2)]
  show ?case
  proof (cases "fst r = 2")
    case True
    then have "moves (snd r) (\<lambda>_. 0) (\<lambda>_. 0) db'" using Cons.IH rest movesD(1) [OF m] by simp
    from moves_trans [OF m this] show ?thesis by simp
  qed (use rest m in simp)
qed

lemma apply_order_conserves:
  assumes "apply_order oid e db = Inr r" "market_ok db"
  shows "market_conserves db (snd r)"
proof -
  have c1: "market_conserves db (snd r2)" if "check_call_orders a e True db = Inr r1" "check_call_orders b e True (snd r1) = Inr r2" for a b r1 r2
    using check_call_orders_conserves [OF that(1) assms(2)] check_call_orders_conserves [OF that(2)] market_conserves_ok market_conserves_trans by metis
  have c2: "market_conserves db (snd r4)" if "market_conserves db db1" "match_loop oid ls db1 = Inr db2" "check_call_orders a e False db2 = Inr r3"
      "check_call_orders b e False (snd r3) = Inr r4" for db1 ls db2 a b r3 r4
  proof -
    have "market_conserves db1 db2" using moves_conserves [OF match_loop_conserves [OF that(2) market_conserves_ok [OF that(1)]]] by simp
    then have 2: "market_conserves db db2" using market_conserves_trans [OF that(1)] by blast
    have 3: "market_conserves db (snd r3)" using market_conserves_trans [OF 2 check_call_orders_conserves [OF that(3) market_conserves_ok [OF 2]]] .
    show ?thesis using market_conserves_trans [OF 3 check_call_orders_conserves [OF that(4) market_conserves_ok [OF 3]]] .
  qed
  have c3: "ensures (maybe_cull_small_order oid db1) (\<lambda>r. market_conserves db (snd r))" if "market_conserves db db1" for db1
    using moves_conserves [OF maybe_cull_moves(1) [OF _ market_conserves_ok [OF that]]] market_conserves_trans [OF that]
    unfolding ensures_def by simp
  have "ensures (apply_order oid e db) (\<lambda>r. market_conserves db (snd r))"
    unfolding apply_order_def Let_def
    by (intro ensures_intros; (rule c3)?)
      (simp; erule c1, assumption | simp; rule c2 [OF c1], assumption+)+
  then show ?thesis using assms(1) by (rule ensuresD)
qed

end
