(* ===== verification/MarketEvaluator.thy ===== *)
theory MarketEvaluator
  imports MarketBooks
begin

text \<open>
  The operations of the market: \<^verbatim>\<open>protocol/market.hpp\<close>, \<^verbatim>\<open>protocol/market.cpp\<close> and the evaluators of
  \<^verbatim>\<open>market_evaluator.cpp\<close>, run by the template of \<^verbatim>\<open>evaluator.hpp\<close>: the fee is prepared and checked,
  the operation is evaluated, the fee is converted and paid, the operation is applied, and the fee is
  taken from the payer. An object that evaluation found is passed on by its id, as the code passes a
  reference.
\<close>

definition HARDFORK_445_TIME :: nat where "HARDFORK_445_TIME = 1450288800"
definition HARDFORK_CORE_216_TIME :: nat where "HARDFORK_CORE_216_TIME = 1512747600"

section \<open>The operations\<close>

record limit_order_create_operation =
  loc_fee :: asset
  loc_seller :: account_id_type
  amount_to_sell :: asset
  min_to_receive :: asset
  loc_expiration :: time_point_sec
  fill_or_kill :: bool

record limit_order_cancel_operation =
  lcc_fee :: asset
  lcc_order :: nat
  lcc_fee_paying_account :: account_id_type

record call_order_update_operation =
  cou_fee :: asset
  funding_account :: account_id_type
  delta_collateral :: asset
  delta_debt :: asset

record bid_collateral_operation =
  bc_fee :: asset
  bc_bidder :: account_id_type
  additional_collateral :: asset
  debt_covered :: asset

definition limit_order_create_validate :: "limit_order_create_operation \<Rightarrow> unit exn" where
  "limit_order_create_validate op =
    bindE (fc_assert (asset_id (amount_to_sell op) \<noteq> asset_id (min_to_receive op)) ''amount_to_sell.asset_id'') (\<lambda>_.
    bindE (fc_assert (0 \<le> amount (loc_fee op)) ''fee.amount >= 0'') (\<lambda>_.
    bindE (fc_assert (0 < amount (amount_to_sell op)) ''amount_to_sell.amount > 0'') (\<lambda>_.
    fc_assert (0 < amount (min_to_receive op)) ''min_to_receive.amount > 0'')))"

definition limit_order_cancel_validate :: "limit_order_cancel_operation \<Rightarrow> unit exn" where
  "limit_order_cancel_validate op = fc_assert (0 \<le> amount (lcc_fee op)) ''fee.amount >= 0''"

definition call_order_update_validate :: "call_order_update_operation \<Rightarrow> unit exn" where
  "call_order_update_validate op =
    bindE (fc_assert (0 \<le> amount (cou_fee op)) ''fee.amount >= 0'') (\<lambda>_.
    bindE (fc_assert (asset_id (delta_collateral op) \<noteq> asset_id (delta_debt op)) ''delta_collateral.asset_id'') (\<lambda>_.
    fc_assert (amount (delta_collateral op) \<noteq> 0 \<or> amount (delta_debt op) \<noteq> 0) ''delta_collateral.amount != 0''))"

definition bid_collateral_validate :: "bid_collateral_operation \<Rightarrow> unit exn" where
  "bid_collateral_validate op =
    bindE (fc_assert (0 \<le> amount (bc_fee op)) ''fee.amount >= 0'') (\<lambda>_.
    fc_assert (amount (debt_covered op) = 0 \<or> 0 < amount (debt_covered op) \<and> 0 < amount (additional_collateral op))
      ''debt_covered.amount'')"

section \<open>Creating a limit order\<close>

definition limit_order_create_evaluate :: "limit_order_create_operation \<Rightarrow> fee_state \<Rightarrow> database \<Rightarrow> unit exn" where
  "limit_order_create_evaluate op fs db =
    bindE (fc_assert (head_block_time db \<le> loc_expiration op) ''op.expiration >= d.head_block_time()'') (\<lambda>_.
    bindE (get_account db (fee_paying_account fs)) (\<lambda>acc.
    bindE (get_asset db (asset_id (amount_to_sell op))) (\<lambda>sell_asset.
    bindE (get_asset db (asset_id (min_to_receive op))) (\<lambda>receive_asset.
    bindE (if length (whitelist_markets (a_options sell_asset)) \<noteq> 0
           then fc_assert (asset_id (min_to_receive op) \<in> set (whitelist_markets (a_options sell_asset))) ''whitelist_markets''
           else Inr ()) (\<lambda>_.
    bindE (if length (blacklist_markets (a_options sell_asset)) \<noteq> 0
           then fc_assert (asset_id (min_to_receive op) \<notin> set (blacklist_markets (a_options sell_asset))) ''blacklist_markets''
           else Inr ()) (\<lambda>_.
    bindE (fc_assert (is_authorized_asset db acc (asset_id (amount_to_sell op)) sell_asset) ''is_authorized_asset sell'') (\<lambda>_.
    bindE (fc_assert (is_authorized_asset db acc (asset_id (min_to_receive op)) receive_asset) ''is_authorized_asset receive'') (\<lambda>_.
    bindE (asset_ge (get_balance db (fee_paying_account fs) (asset_id (amount_to_sell op))) (amount_to_sell op)) (\<lambda>ge.
    fc_assert ge ''insufficient balance'')))))))))"

definition limit_order_pay_fee :: "bool \<Rightarrow> fee_state \<Rightarrow> database \<Rightarrow> database exn" where
  "limit_order_pay_fee skip_fee fs db = (if head_block_time db \<le> HARDFORK_445_TIME then pay_fee skip_fee fs db else Inr db)"

definition limit_order_deferred_fee :: "fee_state \<Rightarrow> database \<Rightarrow> share_type" where
  "limit_order_deferred_fee fs db = (if head_block_time db \<le> HARDFORK_445_TIME then 0 else core_fee_paid fs)"

definition get_price :: "limit_order_create_operation \<Rightarrow> price exn" where
  "get_price op = asset_div (amount_to_sell op) (min_to_receive op)"

definition limit_order_create_apply :: "limit_order_create_operation \<Rightarrow> fee_state \<Rightarrow> database \<Rightarrow> (nat \<times> database) exn" where
  "limit_order_create_apply op fs db =
    bindE (modify_stats (fee_paying_account fs) (\<lambda>s.
        if asset_id (amount_to_sell op) = 0
        then bindE (safe_add (total_core_in_orders s) (amount (amount_to_sell op))) (\<lambda>x. Inr (s\<lparr>total_core_in_orders := x\<rparr>))
        else Inr s) db) (\<lambda>db.
    bindE (asset_neg (amount_to_sell op)) (\<lambda>neg.
    bindE (adjust_balance (loc_seller op) neg db) (\<lambda>db.
    bindE (get_price op) (\<lambda>p.
    let order_id = next_id (limit_orders db);
        db = db\<lparr>limit_orders := idx_create (limit_orders db) \<lparr>lo_expiration = loc_expiration op, seller = fee_paying_account fs,
               for_sale = amount (amount_to_sell op), sell_price = p, deferred_fee = limit_order_deferred_fee fs db\<rparr>\<rparr> in
    bindE (apply_order order_id True db) (\<lambda>r.
    bindE (fc_assert (\<not> fill_or_kill op \<or> fst r) ''!op.fill_or_kill || filled'') (\<lambda>_.
    Inr (order_id, snd r)))))))"

section \<open>Canceling a limit order\<close>

definition limit_order_cancel_evaluate :: "limit_order_cancel_operation \<Rightarrow> fee_state \<Rightarrow> database \<Rightarrow> unit exn" where
  "limit_order_cancel_evaluate op fs db =
    bindE (idx_get ''limit_order'' (limit_orders db) (lcc_order op)) (\<lambda>ord.
    fc_assert (seller ord = lcc_fee_paying_account op) ''_order->seller == o.fee_paying_account'')"

definition limit_order_cancel_apply :: "limit_order_cancel_operation \<Rightarrow> fee_state \<Rightarrow> database \<Rightarrow> (asset \<times> database) exn" where
  "limit_order_cancel_apply op fs db =
    bindE (idx_get ''limit_order'' (limit_orders db) (lcc_order op)) (\<lambda>ord.
    let base_asset = asset_id (base (sell_price ord));
        quote_asset = asset_id (quote (sell_price ord));
        refunded = amount_for_sale ord in
    bindE (cancel_limit_order (lcc_order op) False db) (\<lambda>db.
    bindE (check_call_orders base_asset True False db) (\<lambda>r1.
    bindE (check_call_orders quote_asset True False (snd r1)) (\<lambda>r2.
    Inr (refunded, snd r2)))))"

section \<open>Updating a call order\<close>

definition call_order_update_evaluate :: "call_order_update_operation \<Rightarrow> fee_state \<Rightarrow> database \<Rightarrow> unit exn" where
  "call_order_update_evaluate op fs db =
    bindE (get_account db (funding_account op)) (\<lambda>_.
    bindE (get_asset db (asset_id (delta_debt op))) (\<lambda>debt_asset.
    bindE (fc_assert (is_market_issued debt_asset) ''not a collateralized asset'') (\<lambda>_.
    bindE (bitasset_data debt_asset db) (\<lambda>bad.
    bindE (fc_assert (\<not> has_settlement bad) ''!_bitasset_data->has_settlement()'') (\<lambda>_.
    bindE (fc_assert (asset_id (delta_collateral op) = short_backing_asset (ba_options bad)) ''delta_collateral.asset_id'') (\<lambda>_.
    bindE (if is_prediction_market bad
           then fc_assert (amount (delta_collateral op) = amount (delta_debt op)) ''delta_collateral.amount == delta_debt.amount''
           else if price_is_null (settlement_price (current_feed bad)) then Inl (chain_exception ''insufficient_feeds'')
           else Inr ()) (\<lambda>_.
    bindE (if amount (delta_debt op) < 0
           then bindE (asset_ge (get_balance db (funding_account op) (asset_id (delta_debt op))) (delta_debt op)) (\<lambda>ge.
                fc_assert ge ''Cannot cover'')
           else Inr ()) (\<lambda>_.
    if 0 < amount (delta_collateral op)
    then bindE (get_asset db (short_backing_asset (ba_options bad))) (\<lambda>_.
         bindE (asset_ge (get_balance db (funding_account op) (short_backing_asset (ba_options bad))) (delta_collateral op)) (\<lambda>ge.
         fc_assert ge ''Cannot increase collateral''))
    else Inr ()))))))))"

definition adjust_debt :: "call_order_update_operation \<Rightarrow> database \<Rightarrow> database exn" where
  "adjust_debt op db =
    (if amount (delta_debt op) \<noteq> 0
     then bindE (adjust_balance (funding_account op) (delta_debt op) db) (\<lambda>db.
          modify_dynamic (asset_id (delta_debt op)) (\<lambda>d.
            bindE (safe_add (current_supply d) (amount (delta_debt op))) (\<lambda>x.
            bindE (fc_assert (0 \<le> x) ''dynamic_asset.current_supply >= 0'') (\<lambda>_.
            Inr (d\<lparr>current_supply := x\<rparr>)))) db)
     else Inr db)"

definition adjust_collateral :: "call_order_update_operation \<Rightarrow> database \<Rightarrow> database exn" where
  "adjust_collateral op db =
    (if amount (delta_collateral op) \<noteq> 0
     then bindE (asset_neg (delta_collateral op)) (\<lambda>neg.
          bindE (adjust_balance (funding_account op) neg db) (\<lambda>db.
          if asset_id (delta_collateral op) = 0
          then modify_stats (funding_account op) (\<lambda>s.
                 bindE (safe_add (total_core_in_orders s) (amount (delta_collateral op))) (\<lambda>x.
                 Inr (s\<lparr>total_core_in_orders := x\<rparr>))) db
          else Inr db))
     else Inr db)"

text \<open>The call order of the account is created or changed; the id of the order is returned.\<close>

definition update_call :: "call_order_update_operation \<Rightarrow> price_feed \<Rightarrow> database \<Rightarrow> (nat \<times> database) exn" where
  "update_call op feed db =
    (case call_of (funding_account op) (asset_id (delta_debt op)) db of
       None \<Rightarrow>
         bindE (fc_assert (0 < amount (delta_collateral op)) ''o.delta_collateral.amount > 0'') (\<lambda>_.
         bindE (fc_assert (0 < amount (delta_debt op)) ''o.delta_debt.amount > 0'') (\<lambda>_.
         bindE (call_price (delta_debt op) (delta_collateral op) (maintenance_collateral_ratio feed)) (\<lambda>p.
         Inr (next_id (call_orders db), db\<lparr>call_orders := idx_create (call_orders db)
            \<lparr>call_borrower = funding_account op, collateral = amount (delta_collateral op), debt = amount (delta_debt op),
             co_call_price = p\<rparr>\<rparr>))))
     | Some (cid, c) \<Rightarrow>
         bindE (safe_add (collateral c) (amount (delta_collateral op))) (\<lambda>col.
         bindE (safe_add (debt c) (amount (delta_debt op))) (\<lambda>dbt.
         let c' = c\<lparr>collateral := col, debt := dbt\<rparr> in
         bindE (if 0 < dbt then call_price (get_debt c') (get_collateral c') (maintenance_collateral_ratio feed)
                else Inr (co_call_price c)) (\<lambda>p.
         Inr (cid, db\<lparr>call_orders := idx_put (call_orders db) cid (c'\<lparr>co_call_price := p\<rparr>)\<rparr>)))))"

definition check_updated_call ::
  "asset_id_type \<Rightarrow> asset_object \<Rightarrow> asset_bitasset_data_object \<Rightarrow> nat \<Rightarrow> database \<Rightarrow> (unit \<times> database) exn" where
  "check_updated_call mia debt_asset bad cid db =
    bindE (idx_get ''call_order'' (call_orders db) cid) (\<lambda>c.
    if debt c = 0
    then bindE (fc_assert (collateral c = 0) ''call_obj->collateral == 0'') (\<lambda>_.
         Inr ((), db\<lparr>call_orders := idx_remove (call_orders db) cid\<rparr>))
    else
    bindE (fc_assert (0 < collateral c \<and> 0 < debt c) ''call_obj->collateral > 0 && call_obj->debt > 0'') (\<lambda>_.
    if is_prediction_market bad then Inr ((), db)
    else
    bindE (check_call_orders mia False False db) (\<lambda>r.
    let db = snd r in
    if fst r
    then if idx_find (call_orders db) cid = None then Inr ((), db)
         else Inl (chain_exception ''call_order_update_unfilled_margin_call'')
    else
    bindE (idx_get ''call_order'' (call_orders db) cid) (\<lambda>c.
    bindE (bitasset_data debt_asset db) (\<lambda>bad.
    if price_lt (price_inv (co_call_price c)) (settlement_price (current_feed bad)) then Inr ((), db)
    else Inl (chain_exception ''call_order_update_unfilled_margin_call''))))))"

definition call_order_update_apply :: "call_order_update_operation \<Rightarrow> fee_state \<Rightarrow> database \<Rightarrow> (unit \<times> database) exn" where
  "call_order_update_apply op fs db =
    bindE (adjust_debt op db) (\<lambda>db.
    bindE (adjust_collateral op db) (\<lambda>db.
    bindE (get_asset db (asset_id (delta_debt op))) (\<lambda>debt_asset.
    bindE (bitasset_data debt_asset db) (\<lambda>bad.
    bindE (update_call op (current_feed bad) db) (\<lambda>r.
    check_updated_call (asset_id (delta_debt op)) debt_asset bad (fst r) (snd r))))))"

section \<open>Bidding collateral\<close>

definition bid_collateral_evaluate :: "bid_collateral_operation \<Rightarrow> fee_state \<Rightarrow> database \<Rightarrow> nat option exn" where
  "bid_collateral_evaluate op fs db =
    bindE (fc_assert (HARDFORK_CORE_216_TIME < head_block_time db) ''Not yet!'') (\<lambda>_.
    bindE (get_account db (bc_bidder op)) (\<lambda>_.
    bindE (get_asset db (asset_id (debt_covered op))) (\<lambda>debt_asset.
    bindE (fc_assert (is_market_issued debt_asset) ''not a collateralized asset'') (\<lambda>_.
    bindE (bitasset_data debt_asset db) (\<lambda>bad.
    bindE (fc_assert (has_settlement bad) ''_bitasset_data->has_settlement()'') (\<lambda>_.
    bindE (fc_assert (asset_id (additional_collateral op) = short_backing_asset (ba_options bad)) ''additional_collateral.asset_id'') (\<lambda>_.
    bindE (fc_assert (\<not> is_prediction_market bad) ''Cannot bid on a prediction market!'') (\<lambda>_.
    bindE (if 0 < amount (additional_collateral op)
           then bindE (get_asset db (short_backing_asset (ba_options bad))) (\<lambda>_.
                bindE (asset_ge (get_balance db (bc_bidder op) (short_backing_asset (ba_options bad))) (additional_collateral op)) (\<lambda>ge.
                fc_assert ge ''Cannot bid''))
           else Inr ()) (\<lambda>_.
    case bid_of (bc_bidder op) (asset_id (debt_covered op)) db of
      Some b \<Rightarrow> Inr (Some (fst b))
    | None \<Rightarrow> bindE (fc_assert (0 < amount (debt_covered op)) ''Cannot find bid to cancel'') (\<lambda>_. Inr None))))))))))"

definition bid_collateral_apply :: "bid_collateral_operation \<Rightarrow> nat option \<Rightarrow> database \<Rightarrow> (unit \<times> database) exn" where
  "bid_collateral_apply op old db =
    bindE (case old of Some bid \<Rightarrow> cancel_bid bid False db | None \<Rightarrow> Inr db) (\<lambda>db.
    if amount (debt_covered op) = 0 then Inr ((), db)
    else
    bindE (asset_neg (additional_collateral op)) (\<lambda>neg.
    bindE (adjust_balance (bc_bidder op) neg db) (\<lambda>db.
    bindE (asset_div (additional_collateral op) (debt_covered op)) (\<lambda>p.
    Inr ((), db\<lparr>collateral_bids := idx_create (collateral_bids db) \<lparr>bidder = bc_bidder op, inv_swan_price = p\<rparr>\<rparr>)))))"

section \<open>The operations keep the books\<close>

lemma convert_fee_market_ok:
  assumes "market_ok db" "asset_id (fee_from_account fs) = 0 \<longrightarrow> core_fee_paid fs = amount (fee_from_account fs)"
    "convert_fee False fs db = Inr db'"
  shows "market_ok db'"
proof -
  have "call_orders db' = call_orders db"
    using assms(3) by (auto simp: convert_fee_def modify_dynamic_def split: if_splits)
  then show ?thesis
    using convert_fee_effect [OF assms(3) market_okD(1) [OF assms(1)] assms(2)] assms(1) by (simp add: market_ok_def)
qed

lemma pay_fee_moves:
  assumes "pay_fee False fs db = Inr db'" "market_ok db"
  shows "moves db (\<lambda>i. asset_part i (mk_asset (core_fee_paid fs) 0)) (\<lambda>_. 0) db'" "same_orders db db'"
  using modify_stats_moves [OF _ assms(2), of "fee_paying_account fs" "stats_pay_fee (core_fee_paid fs)
      (cashback_vesting_threshold (parameters (global_properties db)))" db'] assms(1) stats_pay_fee_amount
  by (simp_all add: pay_fee_def)

lemma asset_neg_part: "asset_neg x = Inr y \<Longrightarrow> asset_part i y = - asset_part i x"
  by (auto simp: asset_neg_def asset_part_def)

lemma books_after_moves:
  "moves db h s db1 \<Longrightarrow> market_conserves db1 db2 \<Longrightarrow> market_ok db2 \<and> (\<forall>i. books i db2 = books i db + h i - s i)"
  by (simp add: moves_def market_conserves_def books_def)

lemma limit_order_create_books:
  assumes "limit_order_pay_fee False fs db = Inr db1" "limit_order_create_apply op fs db1 = Inr r" "market_ok db"
    "0 \<le> core_fee_paid fs" "in_int64 (amount (amount_to_sell op))"
  shows "market_ok (snd r) \<and> (\<forall>i. books i (snd r) = books i db + asset_part i (mk_asset (core_fee_paid fs) 0))"
proof -
  have pf: "moves db (\<lambda>i. asset_part i (mk_asset (core_fee_paid fs - limit_order_deferred_fee fs db) 0)) (\<lambda>_. 0) db1 \<and> same_orders db db1"
  proof (cases "head_block_time db \<le> HARDFORK_445_TIME")
    case True
    then show ?thesis using pay_fee_moves [OF _ assms(3)] assms(1)
      by (simp add: limit_order_pay_fee_def limit_order_deferred_fee_def)
  next
    case False
    then show ?thesis using assms(1) moves_eq [OF moves_refl [OF assms(3)]]
      by (simp add: limit_order_pay_fee_def limit_order_deferred_fee_def)
  qed
  from assms(2) obtain db2 neg db3 p r' where
    2: "modify_stats (fee_paying_account fs) (\<lambda>s. if asset_id (amount_to_sell op) = 0
        then bindE (safe_add (total_core_in_orders s) (amount (amount_to_sell op))) (\<lambda>x. Inr (s\<lparr>total_core_in_orders := x\<rparr>))
        else Inr s) db1 = Inr db2"
    and n: "asset_neg (amount_to_sell op) = Inr neg" and 3: "adjust_balance (loc_seller op) neg db2 = Inr db3"
    and p: "get_price op = Inr p"
    and 4: "apply_order (next_id (limit_orders db3)) True (db3\<lparr>limit_orders := idx_create (limit_orders db3)
        \<lparr>lo_expiration = loc_expiration op, seller = fee_paying_account fs, for_sale = amount (amount_to_sell op), sell_price = p,
         deferred_fee = limit_order_deferred_fee fs db3\<rparr>\<rparr>) = Inr r'"
    and r: "snd r = snd r'"
    unfolding limit_order_create_apply_def Let_def by (auto simp del: split_paired_Ex)
  have m2: "moves db1 (\<lambda>_. 0) (\<lambda>_. 0) db2" "same_orders db1 db2"
    by (rule modify_stats_moves [OF 2 movesD(1) [OF conjunct1 [OF pf]]], auto simp: stat_amount_def split: if_splits)+
  note m3 = adjust_balance_moves [OF 3 movesD(1) [OF m2(1)]]
  have "dynamic_properties db3 = dynamic_properties db" using pf m2(2) m3(2) by (simp add: same_orders_def)
  then have d: "limit_order_deferred_fee fs db3 = limit_order_deferred_fee fs db"
    by (simp add: limit_order_deferred_fee_def head_block_time_def)
  let ?ord = "\<lparr>lo_expiration = loc_expiration op, seller = fee_paying_account fs, for_sale = amount (amount_to_sell op), sell_price = p,
         deferred_fee = limit_order_deferred_fee fs db3\<rparr>"
  have "0 \<le> deferred_fee ?ord" "for_sale ?ord \<le> 9223372036854775807"
    using assms(4,5) by (simp_all add: limit_order_deferred_fee_def in_int64_def)
  note m4 = create_moves(3) [OF movesD(1) [OF m3(1)] this]
  note m = moves_trans [OF conjunct1 [OF pf] moves_trans [OF m2(1) moves_trans [OF m3(1) m4]]]
  have b: "base p = amount_to_sell op" using p by (auto simp: get_price_def asset_div_def)
  show ?thesis
    using books_after_moves [OF m apply_order_conserves [OF 4 movesD(1) [OF m]]] asset_neg_part [OF n]
    by (simp add: r order_amount_def d b asset_part_def)
qed

lemma limit_order_cancel_books:
  assumes "pay_fee False fs db = Inr db1" "limit_order_cancel_apply op fs db1 = Inr r" "market_ok db"
  shows "market_ok (snd r) \<and> (\<forall>i. books i (snd r) = books i db + asset_part i (mk_asset (core_fee_paid fs) 0))"
proof -
  from assms(2) obtain ord :: limit_order_object and db2 r1 r2 where 2: "cancel_limit_order (lcc_order op) False db1 = Inr db2"
    and 3: "check_call_orders (asset_id (base (sell_price ord))) True False db2 = Inr r1"
    and 4: "check_call_orders (asset_id (quote (sell_price ord))) True False (snd r1) = Inr r2" and r: "snd r = snd r2"
    unfolding limit_order_cancel_apply_def Let_def by (auto simp del: split_paired_Ex)
  note m1 = pay_fee_moves(1) [OF assms(1,3)]
  note m2 = cancel_limit_order_moves(1) [OF 2 movesD(1) [OF m1]]
  note c3 = check_call_orders_conserves [OF 3 movesD(1) [OF m2]]
  note c4 = market_conserves_trans [OF c3 check_call_orders_conserves [OF 4 market_conserves_ok [OF c3]]]
  show ?thesis using books_after_moves [OF moves_trans [OF m1 m2] c4] r by simp
qed

lemma adjust_debt_moves:
  assumes "adjust_debt op db = Inr db'" "market_ok db"
  shows "moves db (\<lambda>i. asset_part i (delta_debt op)) (\<lambda>i. asset_part i (delta_debt op)) db' \<and> same_orders db db'"
proof (cases "amount (delta_debt op) = 0")
  case True
  then show ?thesis using assms moves_eq [OF moves_refl [OF assms(2)]] by (simp add: adjust_debt_def asset_part_def)
next
  case False
  then obtain db1 where 1: "adjust_balance (funding_account op) (delta_debt op) db = Inr db1"
    and 2: "modify_dynamic (asset_id (delta_debt op)) (\<lambda>d.
            bindE (safe_add (current_supply d) (amount (delta_debt op))) (\<lambda>x.
            bindE (fc_assert (0 \<le> x) ''dynamic_asset.current_supply >= 0'') (\<lambda>_.
            Inr (d\<lparr>current_supply := x\<rparr>)))) db1 = Inr db'"
    using assms(1) by (auto simp: adjust_debt_def)
  note m1 = adjust_balance_moves [OF 1 assms(2)]
  have m2: "moves db1 (\<lambda>i. if i = asset_id (delta_debt op) then 0 else 0)
      (\<lambda>i. if i = asset_id (delta_debt op) then amount (delta_debt op) else 0) db'" "same_orders db1 db'"
    by (rule modify_dynamic_moves [OF 2 movesD(1) [OF m1(1)]]; auto)+
  show ?thesis using moves_eq [OF moves_trans [OF m1(1) m2(1)]] same_orders_trans [OF m1(2) m2(2)] by (simp add: asset_part_def)
qed

lemma adjust_collateral_moves:
  assumes "adjust_collateral op db = Inr db'" "market_ok db"
  shows "moves db (\<lambda>i. - asset_part i (delta_collateral op)) (\<lambda>_. 0) db' \<and> same_orders db db'"
proof (cases "amount (delta_collateral op) = 0")
  case True
  then show ?thesis using assms moves_eq [OF moves_refl [OF assms(2)]] by (simp add: adjust_collateral_def asset_part_def)
next
  case False
  then obtain neg db1 where n: "asset_neg (delta_collateral op) = Inr neg"
    and 1: "adjust_balance (funding_account op) neg db = Inr db1"
    and 2: "(if asset_id (delta_collateral op) = 0
          then modify_stats (funding_account op) (\<lambda>s.
                 bindE (safe_add (total_core_in_orders s) (amount (delta_collateral op))) (\<lambda>x.
                 Inr (s\<lparr>total_core_in_orders := x\<rparr>))) db1
          else Inr db1) = Inr db'"
    using assms(1) by (auto simp: adjust_collateral_def)
  note m1 = adjust_balance_moves [OF 1 assms(2)]
  have "moves db1 (\<lambda>_. 0) (\<lambda>_. 0) db' \<and> same_orders db1 db'"
  proof (cases "asset_id (delta_collateral op) = 0")
    case True
    with 2 have s: "modify_stats (funding_account op) (\<lambda>s. bindE (safe_add (total_core_in_orders s) (amount (delta_collateral op)))
        (\<lambda>x. Inr (s\<lparr>total_core_in_orders := x\<rparr>))) db1 = Inr db'" by simp
    show ?thesis using modify_stats_moves [OF s movesD(1) [OF m1(1)], of "\<lambda>_. 0"] by (auto simp: stat_amount_def)
  next
    case False
    then show ?thesis using 2 moves_refl [OF movesD(1) [OF m1(1)]] by simp
  qed
  then show ?thesis
    using moves_eq [OF moves_trans [OF m1(1)], of "\<lambda>_. 0" "\<lambda>_. 0" db'] same_orders_trans [OF m1(2)] asset_neg_part [OF n] by simp
qed

lemma update_call_moves:
  assumes "update_call op feed db = Inr r" "market_ok db"
    and a: "idx_find (assets db) (asset_id (delta_debt op)) = Some a" and bad: "bitasset_data a db = Inr bad"
    and bk: "asset_id (delta_collateral op) = short_backing_asset (ba_options bad)"
  shows "moves db (\<lambda>i. asset_part i (delta_collateral op)) (\<lambda>_. 0) (snd r)"
proof (cases "call_of (funding_account op) (asset_id (delta_debt op)) db")
  case None
  then obtain p where p: "call_price (delta_debt op) (delta_collateral op) (maintenance_collateral_ratio feed) = Inr p"
    and r: "snd r = db\<lparr>call_orders := idx_create (call_orders db)
            \<lparr>call_borrower = funding_account op, collateral = amount (delta_collateral op), debt = amount (delta_debt op),
             co_call_price = p\<rparr>\<rparr>"
    using assms(1) by (auto simp: update_call_def)
  have "backed (assets db) (asset_bitasset_data db) p"
    using call_price_base [OF p] a bad bk by (auto simp: backed_def bitasset_data_def)
  then show ?thesis unfolding r
    by (intro moves_eq [OF create_moves(1) [OF assms(2)]]) (use call_price_base [OF p] in \<open>simp_all add: call_amount_def asset_part_def\<close>)
next
  case (Some q)
  obtain cid c where q: "q = (cid, c)" by (cases q)
  have c: "idx_find (call_orders db) cid = Some c" "asset_id (quote (co_call_price c)) = asset_id (delta_debt op)"
    using idx_find_by_SomeD [OF db_okD(8) [OF market_okD(1) [OF assms(2)]]] Some by (force simp: call_of_def q)+
  note b = calls_backedD [OF market_okD(5) [OF assms(2)] c(1)]
  have base: "asset_id (base (co_call_price c)) = asset_id (delta_collateral op)"
    using b a bad bk c(2) by (auto simp: backed_def bitasset_data_def)
  let ?c = "c\<lparr>collateral := collateral c + amount (delta_collateral op), debt := debt c + amount (delta_debt op)\<rparr>"
  from assms(1) obtain p where
    p: "(if 0 < debt ?c then call_price (get_debt ?c) (get_collateral ?c) (maintenance_collateral_ratio feed)
        else Inr (co_call_price c)) = Inr p"
    and r: "snd r = db\<lparr>call_orders := idx_put (call_orders db) cid (?c\<lparr>co_call_price := p\<rparr>)\<rparr>"
    by (auto simp: update_call_def Some q Let_def)
  have ids: "asset_id (base p) = asset_id (base (co_call_price c)) \<and> asset_id (quote p) = asset_id (quote (co_call_price c))"
    using p by (auto simp: get_debt_def get_collateral_def dest!: call_price_base split: if_splits)
  then have "backed (assets db) (asset_bitasset_data db) (co_call_price (?c\<lparr>co_call_price := p\<rparr>))"
    by (intro backed_ids [OF b]) simp_all
  note m = call_order_moves(2) [OF assms(2) c(1) this]
  show ?thesis unfolding r by (rule moves_eq [OF m]) (use ids base in \<open>auto simp: call_amount_def asset_part_def\<close>)
qed

lemma check_updated_call_conserves:
  assumes "check_updated_call mia a bad cid db = Inr r" "market_ok db"
  shows "market_conserves db (snd r)"
proof -
  have rm: "market_conserves db (db\<lparr>call_orders := idx_remove (call_orders db) cid\<rparr>)"
    if "idx_find (call_orders db) cid = Some c" "collateral c = 0" for c
    using moves_conserves [OF call_order_moves(1) [OF assms(2) that(1)]] that(2) by (simp add: call_amount_def)
  have "ensures (check_updated_call mia a bad cid db) (\<lambda>r. market_conserves db (snd r))"
    unfolding check_updated_call_def Let_def
    by (intro ensures_intros) (auto simp: market_conserves_refl [OF assms(2)] rm intro: check_call_orders_conserves [OF _ assms(2)])
  then show ?thesis using assms(1) by (rule ensuresD)
qed

lemma call_order_update_books:
  assumes "pay_fee False fs db = Inr db1" "call_order_update_apply op fs db1 = Inr r" "market_ok db"
    and ev: "call_order_update_evaluate op fs db0 = Inr e" "assets db = assets db0" "asset_bitasset_data db = asset_bitasset_data db0"
  shows "market_ok (snd r) \<and> (\<forall>i. books i (snd r) = books i db + asset_part i (mk_asset (core_fee_paid fs) 0))"
proof -
  from ev obtain a bad where a: "idx_find (assets db) (asset_id (delta_debt op)) = Some a" and bad: "bitasset_data a db = Inr bad"
    and bk: "asset_id (delta_collateral op) = short_backing_asset (ba_options bad)"
    by (auto simp: call_order_update_evaluate_def bitasset_data_def)
  from assms(2) obtain db2 db3 a' and bad' :: asset_bitasset_data_object and q where 2: "adjust_debt op db1 = Inr db2"
    and 3: "adjust_collateral op db2 = Inr db3" and 4: "update_call op (current_feed bad') db3 = Inr q"
    and 5: "check_updated_call (asset_id (delta_debt op)) a' bad' (fst q) (snd q) = Inr r"
    by (auto simp: call_order_update_apply_def simp del: split_paired_Ex)
  note m1 = pay_fee_moves [OF assms(1,3)]
  note m2 = adjust_debt_moves [OF 2 movesD(1) [OF m1(1)]]
  note m3 = adjust_collateral_moves [OF 3 movesD(1) [OF conjunct1 [OF m2]]]
  have a3: "idx_find (assets db3) (asset_id (delta_debt op)) = Some a" "bitasset_data a db3 = Inr bad"
    using a bad movesD(2,3) [OF m1(1)] movesD(2,3) [OF conjunct1 [OF m2]] movesD(2,3) [OF conjunct1 [OF m3]]
    by (simp_all add: bitasset_data_def)
  note m4 = update_call_moves [OF 4 movesD(1) [OF conjunct1 [OF m3]] a3 bk]
  note m = moves_trans [OF m1(1) moves_trans [OF conjunct1 [OF m2] moves_trans [OF conjunct1 [OF m3] m4]]]
  show ?thesis using books_after_moves [OF m check_updated_call_conserves [OF 5 movesD(1) [OF m]]] by simp
qed

lemma bid_collateral_books:
  assumes "pay_fee False fs db = Inr db1" "bid_collateral_apply op old db1 = Inr r" "market_ok db"
  shows "market_ok (snd r) \<and> (\<forall>i. books i (snd r) = books i db + asset_part i (mk_asset (core_fee_paid fs) 0))"
proof -
  from assms(2) obtain db2 where 2: "(case old of Some bid \<Rightarrow> cancel_bid bid False db1 | None \<Rightarrow> Inr db1) = Inr db2"
    and 3: "(if amount (debt_covered op) = 0 then Inr ((), db2)
    else
    bindE (asset_neg (additional_collateral op)) (\<lambda>neg.
    bindE (adjust_balance (bc_bidder op) neg db2) (\<lambda>db.
    bindE (asset_div (additional_collateral op) (debt_covered op)) (\<lambda>p.
    Inr ((), db\<lparr>collateral_bids := idx_create (collateral_bids db) \<lparr>bidder = bc_bidder op, inv_swan_price = p\<rparr>\<rparr>))))) = Inr r"
    unfolding bid_collateral_apply_def bindE_eq_Inr by blast
  note m1 = pay_fee_moves(1) [OF assms(1,3)]
  have m2: "moves db1 (\<lambda>_. 0) (\<lambda>_. 0) db2"
    using 2 cancel_bid_moves [OF _ movesD(1) [OF m1]] moves_refl [OF movesD(1) [OF m1]] by (auto split: option.splits)
  have c: "market_conserves db2 (snd r)"
  proof (cases "amount (debt_covered op) = 0")
    case True
    then show ?thesis using 3 market_conserves_refl [OF movesD(1) [OF m2]] by auto
  next
    case False
    then obtain neg db3 p where n: "asset_neg (additional_collateral op) = Inr neg"
      and 4: "adjust_balance (bc_bidder op) neg db2 = Inr db3"
      and p: "asset_div (additional_collateral op) (debt_covered op) = Inr p"
      and r: "snd r = db3\<lparr>collateral_bids := idx_create (collateral_bids db3) \<lparr>bidder = bc_bidder op, inv_swan_price = p\<rparr>\<rparr>"
      using 3 by auto
    note m3 = adjust_balance_moves(1) [OF 4 movesD(1) [OF m2]]
    have "base p = additional_collateral op" using p by (auto simp: asset_div_def)
    then show ?thesis unfolding r
      using asset_neg_part [OF n] by (intro moves_conserves [OF moves_trans [OF m3 create_moves(2) [OF movesD(1) [OF m3]]]]) simp
  qed
  show ?thesis using books_after_moves [OF moves_trans [OF m1 m2] c] by simp
qed

section \<open>The operations as a whole\<close>

definition limit_order_create :: "bool \<Rightarrow> bool \<Rightarrow> share_type \<Rightarrow> limit_order_create_operation \<Rightarrow> database \<Rightarrow> (nat \<times> database) exn" where
  "limit_order_create skip_fee skip_schedule required op db =
    start_evaluate skip_schedule required (loc_seller op) (loc_fee op) (limit_order_create_evaluate op)
      skip_fee (limit_order_pay_fee skip_fee) (\<lambda>_. limit_order_create_apply op) db"

definition limit_order_cancel :: "bool \<Rightarrow> bool \<Rightarrow> share_type \<Rightarrow> limit_order_cancel_operation \<Rightarrow> database \<Rightarrow> (asset \<times> database) exn" where
  "limit_order_cancel skip_fee skip_schedule required op db =
    start_evaluate skip_schedule required (lcc_fee_paying_account op) (lcc_fee op) (limit_order_cancel_evaluate op)
      skip_fee (pay_fee skip_fee) (\<lambda>_. limit_order_cancel_apply op) db"

definition call_order_update :: "bool \<Rightarrow> bool \<Rightarrow> share_type \<Rightarrow> call_order_update_operation \<Rightarrow> database \<Rightarrow> (unit \<times> database) exn" where
  "call_order_update skip_fee skip_schedule required op db =
    start_evaluate skip_schedule required (funding_account op) (cou_fee op) (call_order_update_evaluate op)
      skip_fee (pay_fee skip_fee) (\<lambda>_. call_order_update_apply op) db"

definition bid_collateral :: "bool \<Rightarrow> bool \<Rightarrow> share_type \<Rightarrow> bid_collateral_operation \<Rightarrow> database \<Rightarrow> (unit \<times> database) exn" where
  "bid_collateral skip_fee skip_schedule required op db =
    start_evaluate skip_schedule required (bc_bidder op) (bc_fee op) (bid_collateral_evaluate op)
      skip_fee (pay_fee skip_fee) (\<lambda>old fs. bid_collateral_apply op old) db"

lemma evaluator_base:
  "market_ok db \<Longrightarrow> db_ok db"
  "market_ok db \<Longrightarrow> asset_id (fee_from_account fs) = 0 \<longrightarrow> core_fee_paid fs = amount (fee_from_account fs)
      \<Longrightarrow> convert_fee False fs db = Inr db' \<Longrightarrow> market_ok db'"
  "market_ok db \<Longrightarrow> adjust_balance a x db = Inr db' \<Longrightarrow> market_ok db'"
  by (fact market_okD(1), fact convert_fee_market_ok, rule movesD(1) [OF adjust_balance_moves(1)])

interpretation limit_order_creation: fee_paying_evaluator "\<lambda>db. market_ok db \<and> in_int64 (amount (amount_to_sell op))"
  "limit_order_create_evaluate op" "limit_order_pay_fee False" "\<lambda>_. limit_order_create_apply op" for op
proof (unfold_locales, goal_cases)
  case (1 db)
  then show ?case using evaluator_base(1) by blast
next
  case (2 db fs db')
  then show ?case using evaluator_base(2) [OF _ 2(2,3)] by blast
next
  case (3 db a x db')
  then show ?case using evaluator_base(3) by blast
next
  case (4 db fs db0 e db1 r)
  then show ?case using limit_order_create_books [OF 4(5,6)] by blast
qed

interpretation limit_order_cancellation: fee_paying_evaluator market_ok
  "limit_order_cancel_evaluate op" "pay_fee False" "\<lambda>_. limit_order_cancel_apply op" for op
proof (unfold_locales, goal_cases)
  case (1 db)
  then show ?case using evaluator_base(1) by blast
next
  case (2 db fs db')
  then show ?case using evaluator_base(2) [OF _ 2(2,3)] by blast
next
  case (3 db a x db')
  then show ?case using evaluator_base(3) by blast
next
  case (4 db fs db0 e db1 r)
  then show ?case using limit_order_cancel_books [OF 4(5,6)] by blast
qed

interpretation call_order_change: fee_paying_evaluator market_ok
  "call_order_update_evaluate op" "pay_fee False" "\<lambda>_. call_order_update_apply op" for op
proof (unfold_locales, goal_cases)
  case (1 db)
  then show ?case using evaluator_base(1) by blast
next
  case (2 db fs db')
  then show ?case using evaluator_base(2) [OF _ 2(2,3)] by blast
next
  case (3 db a x db')
  then show ?case using evaluator_base(3) by blast
next
  case (4 db fs db0 e db1 r)
  from 4(3) have "assets db = assets db0" "asset_bitasset_data db = asset_bitasset_data db0" by auto
  then show ?case using call_order_update_books [OF 4(5,6,1,2)] by blast
qed

interpretation collateral_bidding: fee_paying_evaluator market_ok
  "bid_collateral_evaluate op" "pay_fee False" "\<lambda>old fs. bid_collateral_apply op old" for op
proof (unfold_locales, goal_cases)
  case (1 db)
  then show ?case using evaluator_base(1) by blast
next
  case (2 db fs db')
  then show ?case using evaluator_base(2) [OF _ 2(2,3)] by blast
next
  case (3 db a x db')
  then show ?case using evaluator_base(3) by blast
next
  case (4 db fs db0 e db1 r)
  then show ?case using bid_collateral_books [OF 4(5,6)] by blast
qed

text \<open>C1: The market operations create and destroy nothing: creating a limit order (with every match, margin call,
  market fee, deferred fee and black swan it sets off), canceling one, updating a call order and bidding collateral each
  leave, for every asset, what the chain holds minus the supply as it was, fee included, and keep the market invariant.\<close>

theorem market_operations_conserve:
  assumes "market_ok db"
  shows "(in_int64 (amount (amount_to_sell a)) \<and> limit_order_create False sk rq a db = Inr ra
        \<longrightarrow> market_ok (snd ra) \<and> (\<forall>i. books i (snd ra) = books i db))
    \<and> (limit_order_cancel False sk rq b db = Inr rb \<longrightarrow> market_ok (snd rb) \<and> (\<forall>i. books i (snd rb) = books i db))
    \<and> (call_order_update False sk rq c db = Inr rc \<longrightarrow> market_ok (snd rc) \<and> (\<forall>i. books i (snd rc) = books i db))
    \<and> (bid_collateral False sk rq d db = Inr rd \<longrightarrow> market_ok (snd rd) \<and> (\<forall>i. books i (snd rd) = books i db))"
proof (intro conjI impI)
  assume "in_int64 (amount (amount_to_sell a)) \<and> limit_order_create False sk rq a db = Inr ra"
  then have o: "market_ok db \<and> in_int64 (amount (amount_to_sell a))" and e: "limit_order_create False sk rq a db = Inr ra"
    using assms by blast+
  note c = limit_order_creation.operation_conserves [OF e [unfolded limit_order_create_def] o]
  show "market_ok (snd ra)" "\<forall>i. books i (snd ra) = books i db" using c by blast+
next
  assume e: "limit_order_cancel False sk rq b db = Inr rb"
  note c = limit_order_cancellation.operation_conserves [OF e [unfolded limit_order_cancel_def] assms]
  show "market_ok (snd rb)" "\<forall>i. books i (snd rb) = books i db" using c by blast+
next
  assume e: "call_order_update False sk rq c db = Inr rc"
  note c = call_order_change.operation_conserves [OF e [unfolded call_order_update_def] assms]
  show "market_ok (snd rc)" "\<forall>i. books i (snd rc) = books i db" using c by blast+
next
  assume e: "bid_collateral False sk rq d db = Inr rd"
  note c = collateral_bidding.operation_conserves [OF e [unfolded bid_collateral_def] assms]
  show "market_ok (snd rd)" "\<forall>i. books i (snd rd) = books i db" using c by blast+
qed

text \<open>Account 6 offers 10 of the other asset for 20 of the core asset; account 5 takes the offer.\<close>

definition demo_market :: database where
  "demo_market = demo_chain\<lparr>limit_orders := idx_of [\<lparr>lo_expiration = 2000000000, seller = 6, for_sale = 10,
     sell_price = mk_price (mk_asset 10 1) (mk_asset 20 0), deferred_fee = 7\<rparr>]\<rparr>"

definition demo_taker :: limit_order_create_operation where
  "demo_taker = \<lparr>loc_fee = mk_asset 5 0, loc_seller = 5, amount_to_sell = mk_asset 20 0, min_to_receive = mk_asset 10 1,
     loc_expiration = 2000000000, fill_or_kill = True\<rparr>"

lemmas index_eval = idx_find_def idx_get_def idx_find_by_def idx_put_def idx_create_def idx_remove_def idx_modify_def get_account_def
  get_asset_def ofOption_def get_balance_def balance_key_def adjust_balance_def abo_adjust_balance_def modify_stats_def modify_dynamic_def
  head_block_time_def push_applied_operation_def

lemmas asset_eval = asset_ge_def asset_lt_def asset_le_def asset_gt_def asset_eq_def asset_neg_def asset_sub_def asset_add_def asset_div_def
   safe_neg_def safe_add_def safe_sub_def safe_int64_def in_int64_def price_gt_def price_le_def price_eq_def price_lt_def price_inv_def
   price_max_def price_min_def u128_def asset_times_price_def GRAPHENE_MAX_SHARE_SUPPLY_def

lemmas fee_eval = start_evaluate_def prepare_fee_def check_required_fee_def convert_fee_def pay_fee_def stats_pay_fee_def
  is_authorized_asset_def has_flag_def HARDFORK_419_TIME_def HARDFORK_415_TIME_def

lemmas market_eval = limit_order_create_def limit_order_create_evaluate_def limit_order_pay_fee_def limit_order_create_apply_def get_price_def
  limit_order_deferred_fee_def HARDFORK_445_TIME_def HARDFORK_555_TIME_def apply_order_def check_call_orders_def is_market_issued_def match_limit_orders_def
  limits_between_def order_by_def limit_before_def amount_for_sale_def amount_to_receive_def fill_limit_order_def pay_market_fees_def
  calculate_market_fee_def charges_market_fees_def charge_market_fee_def pay_order_def

lemma demo_market_ok: "market_ok demo_market"
proof -
  have "db_ok demo_market" unfolding demo_market_def by (rule db_ok_update(4) [OF demo_chain_ok]) simp
  then show ?thesis
    by (simp add: market_ok_def fee_options_ok_def funds_ok_def orders_ok_def calls_backed_def demo_market_def demo_chain_simps)
qed

theorem market_operations_conserve_witness:
  "\<exists>r. limit_order_create False False 5 demo_taker demo_market = Inr r \<and> objs (limit_orders (snd r)) = []
     \<and> amount (get_balance (snd r) 5 1) = 60 \<and> amount (get_balance (snd r) 5 0) = 675
     \<and> amount (get_balance (snd r) 6 0) = 220 \<and> (\<forall>i. books i (snd r) = books i demo_market)"
proof -
  have "\<exists>r. limit_order_create False False 5 demo_taker demo_market = Inr r \<and> objs (limit_orders (snd r)) = []
     \<and> amount (get_balance (snd r) 5 1) = 60 \<and> amount (get_balance (snd r) 5 0) = 675 \<and> amount (get_balance (snd r) 6 0) = 220"
    by (simp add: demo_taker_def demo_market_def demo_chain_simps Let_def index_eval asset_eval fee_eval market_eval
        cong: bindE_weak_cong del: bindE_eq_Inr)
  moreover have "in_int64 (amount (amount_to_sell demo_taker))" by (simp add: demo_taker_def in_int64_def)
  ultimately show ?thesis using market_operations_conserve [OF demo_market_ok, of demo_taker False 5] by blast
qed

end
