(* ===== verification/Voting.thy ===== *)
theory Voting
  imports Balance "HOL-Library.Product_Lexorder" "HOL-Library.List_Lexorder" "HOL-Library.Char_ord"
begin

text \<open>
  Voting: vote ids (\<^verbatim>\<open>protocol/vote.hpp\<close>), the vote counter (\<^verbatim>\<open>vote_count.hpp\<close>), and the part of
  \<^verbatim>\<open>db_maint.cpp\<close> that counts the votes of all accounts and elects witnesses and committee members.
  The vote buffers of the database, which live only during a maintenance, are a record of their own.
  Stakes are unsigned 64-bit numbers with the wrap-around written out. Reading a vote buffer out of
  range and \<^verbatim>\<open>front()\<close> of an empty vector are errors.
\<close>

section \<open>Vote ids\<close>

datatype vote_type = committee_vote | witness_vote | worker_vote

primrec vote_type_code :: "vote_type \<Rightarrow> 32 word" where
  "vote_type_code committee_vote = 0"
| "vote_type_code witness_vote = 1"
| "vote_type_code worker_vote = 2"

definition mk_vote_id :: "vote_type \<Rightarrow> nat \<Rightarrow> vote_id_type" where
  "mk_vote_id ty inst = or (push_bit 8 (word_of_nat inst)) (vote_type_code ty)"

definition vote_id_type_of :: "vote_id_type \<Rightarrow> 32 word" where
  "vote_id_type_of v = and v 0xff"

definition vote_instance :: "vote_id_type \<Rightarrow> nat" where
  "vote_instance v = unat (drop_bit 8 v)"

definition get_next_vote_id :: "vote_type \<Rightarrow> global_property_object \<Rightarrow> vote_id_type \<times> global_property_object" where
  "get_next_vote_id ty gpo = (mk_vote_id ty (next_available_vote_id gpo),
     gpo\<lparr>next_available_vote_id := (next_available_vote_id gpo + 1) mod 2 ^ 32\<rparr>)"

definition options_validate :: "account_options \<Rightarrow> unit exn" where
  "options_validate opts =
    (let step = (\<lambda>(w, c) v.
           if vote_id_type_of v = vote_type_code witness_vote \<and> w \<noteq> 0 then (w - 1, c)
           else if vote_id_type_of v = vote_type_code committee_vote \<and> c \<noteq> 0 then (w, c - 1) else (w, c :: nat));
         r = foldl step (num_witness opts, num_committee opts) (votes opts)
     in fc_assert (fst r = 0 \<and> snd r = 0) ''May not specify fewer witnesses or committee members than the number voted for.'')"

section \<open>The vote counter\<close>

fun find_msb :: "nat \<Rightarrow> nat" where
  "find_msb n = (if n \<le> 1 then 0 else Suc (find_msb (n div 2)))"

declare find_msb.simps [simp del]

record vote_counter =
  last_votes :: nat
  vc_total_votes :: nat
  bitshift :: int
  vc_auth :: authority

definition new_vote_counter :: vote_counter where
  "new_vote_counter = \<lparr>last_votes = 2 ^ 64 - 1, vc_total_votes = 0, bitshift = -1, vc_auth = empty_authority\<rparr>"

definition vc_add :: "account_id_type \<Rightarrow> nat \<Rightarrow> vote_counter \<Rightarrow> vote_counter exn" where
  "vc_add who nvotes vc =
    (if nvotes = 0 then Inr vc
     else bindE (fc_assert (nvotes \<le> last_votes vc) ''votes <= last_votes'') (\<lambda>_.
       let shift = (if bitshift vc = -1 then max (int (find_msb nvotes) - 15) 0 else bitshift vc);
           scaled = max (nvotes div 2 ^ nat shift) 1
       in bindE (fc_assert (scaled \<le> 65535) ''scaled_votes'') (\<lambda>_.
          let sum = (vc_total_votes vc + scaled) mod 2 ^ 64
          in bindE (fc_assert (sum \<le> 4294967295) ''total_votes'') (\<lambda>_.
          Inr \<lparr>last_votes = nvotes, vc_total_votes = sum, bitshift = shift,
               vc_auth = add_account_authority who scaled (vc_auth vc)\<rparr>))))"

definition vc_finish :: "vote_counter \<Rightarrow> authority \<Rightarrow> authority" where
  "vc_finish vc out_auth =
    (if vc_total_votes vc = 0 then out_auth else (vc_auth vc)\<lparr>weight_threshold := vc_total_votes vc div 2 + 1\<rparr>)"

definition vc_is_empty :: "vote_counter \<Rightarrow> bool" where
  "vc_is_empty vc \<longleftrightarrow> vc_total_votes vc = 0"

definition count_votes :: "(account_id_type \<times> nat) list \<Rightarrow> vote_counter exn" where
  "count_votes ws = foldE (\<lambda>p. vc_add (fst p) (snd p)) ws new_vote_counter"

section \<open>Counting the votes of the accounts\<close>

definition GRAPHENE_WITNESS_ACCOUNT :: account_id_type where "GRAPHENE_WITNESS_ACCOUNT = 1"
definition GRAPHENE_RELAXED_COMMITTEE_ACCOUNT :: account_id_type where "GRAPHENE_RELAXED_COMMITTEE_ACCOUNT = 2"
definition GRAPHENE_PROXY_TO_SELF_ACCOUNT :: account_id_type where "GRAPHENE_PROXY_TO_SELF_ACCOUNT = 5"
definition GRAPHENE_DEFAULT_MIN_COMMITTEE_MEMBER_COUNT :: nat where "GRAPHENE_DEFAULT_MIN_COMMITTEE_MEMBER_COUNT = 11"
definition HARDFORK_533_TIME :: nat where "HARDFORK_533_TIME = 1456250400"
definition HARDFORK_607_TIME :: nat where "HARDFORK_607_TIME = 1458752400"
definition HARDFORK_CORE_353_TIME :: nat where "HARDFORK_CORE_353_TIME = 1512747600"

record vote_buffers =
  vote_tally :: "nat list"
  witness_count_histogram :: "nat list"
  committee_count_histogram :: "nat list"
  total_voting_stake :: nat

text \<open>The buffers at the beginning of a maintenance: each one that ends clears them, and resizing fills them with zeros.\<close>

definition new_vote_buffers :: "global_property_object \<Rightarrow> vote_buffers" where
  "new_vote_buffers props = \<lparr>vote_tally = replicate (next_available_vote_id props) 0,
     witness_count_histogram = replicate (maximum_witness_count (parameters props) div 2 + 1) 0,
     committee_count_histogram = replicate (maximum_committee_count (parameters props) div 2 + 1) 0,
     total_voting_stake = 0\<rparr>"

definition add_at :: "nat \<Rightarrow> nat \<Rightarrow> nat list \<Rightarrow> nat list" where
  "add_at i x xs = (if i < length xs then xs[i := (xs ! i + x) mod 2 ^ 64] else xs)"

definition voting_stake :: "database \<Rightarrow> account_id_type \<Rightarrow> account_object \<Rightarrow> nat exn" where
  "voting_stake db i acc =
    bindE (idx_get ''account_statistics'' (account_stats db) (statistics acc)) (\<lambda>st.
    bindE (case cashback_vb acc of
             None \<Rightarrow> Inr 0
           | Some v \<Rightarrow> bindE (idx_get ''vesting_balance'' (vesting_balances db) v) (\<lambda>vb. Inr (amount (vb_balance vb)))) (\<lambda>cb.
    Inr (nat ((total_core_in_orders st + cb + amount (get_balance db i 0)) mod 2 ^ 64))))"

definition opinion_account :: "database \<Rightarrow> account_object \<Rightarrow> account_object exn" where
  "opinion_account db acc =
    (if voting_account (acc_options acc) = GRAPHENE_PROXY_TO_SELF_ACCOUNT then Inr acc
     else get_account db (voting_account (acc_options acc)))"

definition tally_opinion :: "chain_parameters \<Rightarrow> account_options \<Rightarrow> nat \<Rightarrow> vote_buffers \<Rightarrow> vote_buffers" where
  "tally_opinion ps opts stake b =
    (let b = b\<lparr>vote_tally := foldl (\<lambda>t v. add_at (vote_instance v) stake t) (vote_tally b) (votes opts)\<rparr>;
         b = (if num_witness opts \<le> maximum_witness_count ps
              then b\<lparr>witness_count_histogram := add_at (min (num_witness opts div 2) (length (witness_count_histogram b) - 1)) stake
                       (witness_count_histogram b)\<rparr> else b);
         b = (if num_committee opts \<le> maximum_committee_count ps
              then b\<lparr>committee_count_histogram := add_at (min (num_committee opts div 2) (length (committee_count_histogram b) - 1)) stake
                       (committee_count_histogram b)\<rparr> else b)
     in b\<lparr>total_voting_stake := (total_voting_stake b + stake) mod 2 ^ 64\<rparr>)"

definition vote_tally_helper :: "account_id_type \<Rightarrow> database \<Rightarrow> vote_buffers \<Rightarrow> vote_buffers exn" where
  "vote_tally_helper i db b =
    bindE (get_account db i) (\<lambda>stake_account.
    let ps = parameters (global_properties db)
    in if count_non_member_votes ps \<or> is_member stake_account (head_block_time db)
       then bindE (opinion_account db stake_account) (\<lambda>op.
            bindE (voting_stake db i stake_account) (\<lambda>stake.
            Inr (tally_opinion ps (acc_options op) stake b)))
       else Inr b)"

text \<open>
  The accounts in the order of their names; for each the votes are counted and then its fees are paid
  out, so that the payout of one account may raise the stake of a later one.
\<close>

definition accounts_by_name :: "database \<Rightarrow> account_id_type list" where
  "accounts_by_name db = map fst (sort_key (\<lambda>p. acc_name (snd p)) (objs (accounts db)))"

definition perform_account_maintenance :: "database \<Rightarrow> (vote_buffers \<times> database) exn" where
  "perform_account_maintenance db =
    foldE (\<lambda>i (b, db).
      bindE (vote_tally_helper i db b) (\<lambda>b.
      bindE (get_account db i) (\<lambda>a.
      bindE (process_fees (statistics a) i db) (\<lambda>db. Inr (b, db)))))
    (accounts_by_name db) (new_vote_buffers (global_properties db), db)"

section \<open>Elections\<close>

text \<open>A tally as \<^verbatim>\<open>share_type\<close>: the conversion of an unsigned to a signed 64-bit number.\<close>

definition share_of :: "nat \<Rightarrow> share_type" where
  "share_of n = sint (word_of_nat n :: 64 word)"

definition tally_of :: "vote_buffers \<Rightarrow> vote_id_type \<Rightarrow> nat" where
  "tally_of b v = vote_tally b ! vote_instance v"

definition sort_votable_objects :: "vote_buffers \<Rightarrow> ('a \<Rightarrow> vote_id_type) \<Rightarrow> nat \<Rightarrow> 'a index \<Rightarrow> (nat \<times> 'a) list exn" where
  "sort_votable_objects b vid count t =
    (if list_ex (\<lambda>p. length (vote_tally b) \<le> vote_instance (vid (snd p))) (objs t) then Inl (not_found ''_vote_tally_buffer'')
     else if objs t = [] then Inl (not_found ''refs.front()'')
     else Inr (take (min count (length (objs t)))
            (sort_key (\<lambda>p. (- share_of (tally_of b (vid (snd p))), vote_instance (vid (snd p)))) (objs t))))"

text \<open>
  The number of objects to elect: the smallest count whose voters, with those of all smaller counts
  but zero, hold more than the target. The sum of the witness loop is a \<^verbatim>\<open>share_type\<close>, that of the
  committee loop a plain unsigned number.
\<close>

fun witness_count_loop :: "nat list \<Rightarrow> share_type \<Rightarrow> nat \<Rightarrow> share_type \<Rightarrow> nat exn" where
  "witness_count_loop [] stake_target count stake_tally = Inr count"
| "witness_count_loop (h # hs) stake_target count stake_tally =
    (if stake_tally \<le> stake_target
     then bindE (safe_add stake_tally (share_of h)) (\<lambda>t. witness_count_loop hs stake_target (Suc count) t)
     else Inr count)"

fun committee_count_loop :: "nat list \<Rightarrow> share_type \<Rightarrow> nat \<Rightarrow> nat \<Rightarrow> nat" where
  "committee_count_loop [] stake_target count stake_tally = count"
| "committee_count_loop (h # hs) stake_target count stake_tally =
    (if share_of stake_tally \<le> stake_target
     then committee_count_loop hs stake_target (Suc count) ((stake_tally + h) mod 2 ^ 64) else count)"

definition stake_target_of :: "nat \<Rightarrow> nat list \<Rightarrow> share_type" where
  "stake_target_of stake hist = share_of (nat ((int stake - int (hd hist)) mod 2 ^ 64) div 2)"

text \<open>The weights before hardfork 533: the votes without the low bits of their sum.\<close>

fun emplace :: "nat \<Rightarrow> 'v \<Rightarrow> (nat \<times> 'v) list \<Rightarrow> (nat \<times> 'v) list" where
  "emplace k v [] = [(k, v)]"
| "emplace k v ((k', v') # ps) = (if k' = k then (k', v') # ps else if k < k' then (k, v) # (k', v') # ps
    else (k', v') # emplace k v ps)"

definition old_vote_authority :: "(account_id_type \<times> nat) list \<Rightarrow> authority \<Rightarrow> authority" where
  "old_vote_authority ws au =
    (let au = clear (au\<lparr>weight_threshold := 0\<rparr>);
         sum = foldl (\<lambda>s p. (s + snd p) mod 2 ^ 64) 0 ws;
         weights = foldl (\<lambda>m p. emplace (fst p) (snd p) m) [] ws;
         drop = nat (max (int (find_msb sum) - 15) 0);
         au = foldl (\<lambda>au p.
           let nvotes = max (snd p div 2 ^ drop) 1 mod 2 ^ 16;
               old = (case map_of (account_auths au) (fst p) of None \<Rightarrow> 0 | Some w \<Rightarrow> w)
           in au\<lparr>account_auths := flat_put (fst p) ((old + nvotes) mod 2 ^ 16) (account_auths au),
                 weight_threshold := (weight_threshold au + nvotes) mod 2 ^ 32\<rparr>) au weights
     in au\<lparr>weight_threshold := (weight_threshold au div 2 + 1) mod 2 ^ 32\<rparr>)"

definition vote_authority :: "database \<Rightarrow> (account_id_type \<times> nat) list \<Rightarrow> authority \<Rightarrow> authority exn" where
  "vote_authority db ws au =
    (if head_block_time db < HARDFORK_533_TIME then Inr (old_vote_authority ws au)
     else bindE (count_votes ws) (\<lambda>vc. Inr (vc_finish vc au)))"

definition modify_account :: "account_id_type \<Rightarrow> (account_object \<Rightarrow> account_object exn) \<Rightarrow> database \<Rightarrow> database exn" where
  "modify_account i f db = bindE (idx_modify ''account'' (accounts db) i f) (\<lambda>t. Inr (db\<lparr>accounts := t\<rparr>))"

definition update_active_witnesses :: "vote_buffers \<Rightarrow> database \<Rightarrow> database exn" where
  "update_active_witnesses b db =
    bindE (fc_assert (0 < length (witness_count_histogram b)) ''_witness_count_histogram_buffer.size() > 0'') (\<lambda>_.
    let stake_target = stake_target_of (total_voting_stake b) (witness_count_histogram b)
    in bindE (if 0 < stake_target then witness_count_loop (tl (witness_count_histogram b)) stake_target 0 0 else Inr 0) (\<lambda>witness_count.
    bindE (sort_votable_objects b wit_vote_id (max (witness_count * 2 + 1) (min_witness_count (chain_properties db))) (witnesses db)) (\<lambda>wits.
    let db = db\<lparr>witnesses := (witnesses db)\<lparr>objs := map (\<lambda>p. (fst p, (snd p)\<lparr>total_votes := tally_of b (wit_vote_id (snd p))\<rparr>))
               (objs (witnesses db))\<rparr>\<rparr>
    in bindE (modify_account GRAPHENE_WITNESS_ACCOUNT (\<lambda>a.
         bindE (vote_authority db (map (\<lambda>p. (witness_account (snd p), tally_of b (wit_vote_id (snd p)))) wits) (acc_active a)) (\<lambda>au.
         Inr (a\<lparr>acc_active := au\<rparr>))) db) (\<lambda>db.
       Inr (db\<lparr>global_properties := (global_properties db)\<lparr>active_witnesses := sort (map fst wits)\<rparr>\<rparr>)))))"

definition committee_count :: "vote_buffers \<Rightarrow> database \<Rightarrow> nat" where
  "committee_count b db =
    (let hist = committee_count_histogram b;
         stake_target = stake_target_of (total_voting_stake b) hist;
         old_stake_target = stake_target_of (total_voting_stake b) (witness_count_histogram b);
         count = (if 0 < stake_target then committee_count_loop (tl hist) stake_target 0 0 else 0);
         old_count = committee_count_loop (tl hist) old_stake_target 0 0
     in if stake_target \<noteq> old_stake_target \<and> 0 < old_stake_target \<and> head_block_time db < HARDFORK_CORE_353_TIME
           \<and> old_count \<noteq> count
           \<and> (GRAPHENE_DEFAULT_MIN_COMMITTEE_MEMBER_COUNT < old_count \<or> GRAPHENE_DEFAULT_MIN_COMMITTEE_MEMBER_COUNT < count)
        then old_count else count)"

definition update_active_committee_members :: "vote_buffers \<Rightarrow> database \<Rightarrow> database exn" where
  "update_active_committee_members b db =
    bindE (fc_assert (0 < length (committee_count_histogram b)) ''_committee_count_histogram_buffer.size() > 0'') (\<lambda>_.
    bindE (sort_votable_objects b cm_vote_id (max (committee_count b db * 2 + 1) (min_committee_member_count (chain_properties db)))
             (committee_members db)) (\<lambda>members.
    let ids = map fst members;
        db = db\<lparr>committee_members := (committee_members db)\<lparr>objs := map (\<lambda>p. if fst p \<in> set ids
               then (fst p, (snd p)\<lparr>cm_total_votes := tally_of b (cm_vote_id (snd p))\<rparr>) else p) (objs (committee_members db))\<rparr>\<rparr>
    in bindE (if members = [] then Inr db
              else bindE (modify_account GRAPHENE_COMMITTEE_ACCOUNT (\<lambda>a.
                     bindE (vote_authority db (map (\<lambda>p. (committee_member_account (snd p), tally_of b (cm_vote_id (snd p)))) members)
                              (acc_active a)) (\<lambda>au.
                     Inr (a\<lparr>acc_active := au\<rparr>))) db) (\<lambda>db.
                   bindE (get_account db GRAPHENE_COMMITTEE_ACCOUNT) (\<lambda>c.
                   modify_account GRAPHENE_RELAXED_COMMITTEE_ACCOUNT (\<lambda>a. Inr (a\<lparr>acc_active := acc_active c\<rparr>)) db))) (\<lambda>db.
       Inr (db\<lparr>global_properties := (global_properties db)\<lparr>active_committee_members := ids\<rparr>\<rparr>))))"

definition update_worker_votes :: "vote_buffers \<Rightarrow> database \<Rightarrow> database exn" where
  "update_worker_votes b db =
    bindE (if list_ex (\<lambda>p. length (vote_tally b) \<le> vote_instance (vote_for (snd p))
              \<or> length (vote_tally b) \<le> vote_instance (vote_against (snd p))) (objs (workers db))
           then Inl (not_found ''_vote_tally_buffer'') else Inr ()) (\<lambda>_.
    Inr (db\<lparr>workers := (workers db)\<lparr>objs := map (\<lambda>p. (fst p, (snd p)\<lparr>total_votes_for := tally_of b (vote_for (snd p)),
      total_votes_against := (if head_block_time db < HARDFORK_607_TIME then tally_of b (vote_against (snd p)) else 0)\<rparr>))
      (objs (workers db))\<rparr>\<rparr>))"

section \<open>Authorities of the largest holders\<close>

definition holders :: "database \<Rightarrow> asset_id_type \<Rightarrow> account_balance_object list" where
  "holders db a = sort_key (\<lambda>bal. (- balance bal, owner bal)) (filter (\<lambda>bal. asset_type bal = a) (map snd (objs (balances db))))"

definition top_holders_authority :: "database \<Rightarrow> account_id_type \<Rightarrow> asset_id_type \<Rightarrow> nat \<Rightarrow> vote_counter exn" where
  "top_holders_authority db acct a num_needed =
    count_votes (map (\<lambda>bal. (owner bal, nat (balance bal)))
      (take num_needed (filter (\<lambda>bal. owner bal \<noteq> acct) (holders db a))))"

definition update_top_n :: "account_id_type \<Rightarrow> bool \<Rightarrow> special_authority \<Rightarrow> database \<Rightarrow> database exn" where
  "update_top_n acct is_owner au db =
    (case au of
       no_special_authority \<Rightarrow> Inr db
     | top_holders_special_authority a num_needed \<Rightarrow>
         if num_needed = 0 then Inr db
         else bindE (top_holders_authority db acct a num_needed) (\<lambda>vc.
              modify_account acct (\<lambda>acc.
                let acc = (if is_owner then acc\<lparr>acc_owner := vc_finish vc (acc_owner acc)\<rparr>
                           else acc\<lparr>acc_active := vc_finish vc (acc_active acc)\<rparr>)
                in Inr (if vc_is_empty vc then acc
                        else acc\<lparr>top_n_control_flags := or (top_n_control_flags acc) (if is_owner then 1 else 2)\<rparr>)) db))"

definition update_top_n_authorities :: "database \<Rightarrow> database exn" where
  "update_top_n_authorities db =
    foldE (\<lambda>p db.
      bindE (get_account db (sa_account (snd p))) (\<lambda>acct.
      bindE (update_top_n (sa_account (snd p)) True (owner_special_authority acct) db) (\<lambda>db.
      bindE (get_account db (sa_account (snd p))) (\<lambda>acct.
      update_top_n (sa_account (snd p)) False (active_special_authority acct) db))))
    (objs (special_authorities db)) db"

section \<open>The authority of an election\<close>

lemma find_msb_bound: "n < 2 ^ Suc (find_msb n)"
proof (induction n rule: find_msb.induct)
  case (1 n)
  show ?case
  proof (cases "n \<le> 1")
    case False
    then have "n div 2 < 2 ^ Suc (find_msb (n div 2))" using 1 by blast
    then have "n < 2 * 2 ^ Suc (find_msb (n div 2))" by linarith
    then show ?thesis using False by (simp add: find_msb.simps [of n])
  qed (simp add: find_msb.simps [of n])
qed

lemma shifted_fits: "n div 2 ^ nat (max (int (find_msb n) - 15) 0) \<le> 65535"
proof -
  let ?s = "nat (max (int (find_msb n) - 15) 0)"
  have "Suc (find_msb n) \<le> 16 + ?s" by simp
  then have "n < 2 ^ (16 + ?s)" using find_msb_bound [of n] power_increasing [of "Suc (find_msb n)" "16 + ?s" "2 :: nat"]
    by (meson less_le_trans one_le_numeral)
  then have "n div 2 ^ ?s < 2 ^ 16" by (simp add: power_add less_mult_imp_div_less)
  then show ?thesis by simp
qed

lemma flat_put_fresh:
  "k \<notin> fst ` set ps \<Longrightarrow> set (flat_put k v ps) = insert (k, v) (set ps)"
  "k \<notin> fst ` set ps \<Longrightarrow> sum_list (map snd (flat_put k v ps)) = (v :: nat) + sum_list (map snd ps)"
  by (induction k v ps rule: flat_put.induct) (auto simp: add.left_commute)

lemma weight_disjoint: "G \<inter> H = {} \<Longrightarrow> weight_in G ps + weight_in H ps \<le> sum_list (map snd ps)"
  by (induction ps) auto

text \<open>A counter whose shift is fixed: \<open>s\<close> is the shift, \<open>n\<close> bounds the number of members so far.\<close>

definition counting :: "nat \<Rightarrow> nat \<Rightarrow> vote_counter \<Rightarrow> bool" where
  "counting s n vc \<longleftrightarrow> bitshift vc = int s \<and> last_votes vc div 2 ^ s \<le> 65535 \<and> 0 < vc_total_votes vc
    \<and> vc_total_votes vc \<le> n * 65535 \<and> vc_total_votes vc = sum_list (map snd (account_auths (vc_auth vc)))
    \<and> key_auths (vc_auth vc) = [] \<and> address_auths (vc_auth vc) = []"

definition scaled_members :: "nat \<Rightarrow> (account_id_type \<times> nat) list \<Rightarrow> (account_id_type \<times> weight_type) set" where
  "scaled_members s ws = (\<lambda>p. (fst p, max (snd p div 2 ^ s) 1)) ` {p \<in> set ws. snd p \<noteq> 0}"

lemma vc_add_counting:
  assumes "counting s n vc" "v \<noteq> 0" "v \<le> last_votes vc" "a \<notin> fst ` set (account_auths (vc_auth vc))" "n < 65537"
  shows "\<exists>vc'. vc_add a v vc = Inr vc' \<and> counting s (Suc n) vc' \<and> last_votes vc' = v
    \<and> set (account_auths (vc_auth vc')) = insert (a, max (v div 2 ^ s) 1) (set (account_auths (vc_auth vc)))"
proof -
  let ?w = "max (v div 2 ^ s) 1"
  have w: "?w \<le> 65535" using assms(1) div_le_mono [OF assms(3), of "2 ^ s"] by (simp add: counting_def)
  have "vc_total_votes vc \<le> n * 65535" using assms(1) by (simp add: counting_def)
  from add_le_mono [OF this w] have t: "vc_total_votes vc + ?w \<le> Suc n * 65535" by (simp only: mult_Suc add.commute)
  also have "\<dots> \<le> 65537 * 65535" using assms(5) by (intro mult_le_mono1) simp
  finally have t2: "vc_total_votes vc + ?w \<le> 4294967295" by simp
  then have m: "(vc_total_votes vc + ?w) mod 2 ^ 64 = vc_total_votes vc + ?w" by simp
  have eq: "vc_add a v vc = Inr \<lparr>last_votes = v, vc_total_votes = vc_total_votes vc + ?w, bitshift = int s,
      vc_auth = add_account_authority a ?w (vc_auth vc)\<rparr>"
    using assms(1,2,3) w t2 m unfolding vc_add_def Let_def counting_def by simp
  have l: "v div 2 ^ s \<le> 65535" using w by simp
  show ?thesis unfolding eq using assms(1,4) l t
    by (auto simp: counting_def add_account_authority_def flat_put_fresh simp del: mult_Suc)
qed

lemma count_all_counting:
  assumes "counting s n vc" "sorted_wrt (\<ge>) (map snd ws)" "\<forall>p \<in> set ws. snd p \<le> last_votes vc"
    and "distinct (map fst ws)" "fst ` set (account_auths (vc_auth vc)) \<inter> fst ` set ws = {}" "n + length ws \<le> 65537"
  shows "\<exists>vc'. foldE (\<lambda>p. vc_add (fst p) (snd p)) ws vc = Inr vc' \<and> counting s (n + length ws) vc'
    \<and> set (account_auths (vc_auth vc')) = set (account_auths (vc_auth vc)) \<union> scaled_members s ws"
  using assms
proof (induction ws arbitrary: vc n)
  case Nil
  then show ?case by (auto simp: scaled_members_def)
next
  case (Cons p ws)
  show ?case
  proof (cases "snd p = 0")
    case True
    then have "vc_add (fst p) (snd p) vc = Inr vc" by (simp add: vc_add_def)
    moreover have "counting s (Suc n) vc" using Cons.prems(1) by (simp add: counting_def)
    moreover have "scaled_members s (p # ws) = scaled_members s ws" using True by (auto simp: scaled_members_def)
    ultimately show ?thesis using Cons.IH [of "Suc n" vc] Cons.prems by auto
  next
    case False
    then obtain vc1 where vc1: "vc_add (fst p) (snd p) vc = Inr vc1" "counting s (Suc n) vc1" "last_votes vc1 = snd p"
      "set (account_auths (vc_auth vc1)) = insert (fst p, max (snd p div 2 ^ s) 1) (set (account_auths (vc_auth vc)))"
      using vc_add_counting [OF Cons.prems(1), of "snd p" "fst p"] Cons.prems by auto
    have "scaled_members s (p # ws) = insert (fst p, max (snd p div 2 ^ s) 1) (scaled_members s ws)"
      using False by (auto simp: scaled_members_def)
    moreover have "\<exists>vc'. foldE (\<lambda>p. vc_add (fst p) (snd p)) ws vc1 = Inr vc' \<and> counting s (Suc n + length ws) vc'
        \<and> set (account_auths (vc_auth vc')) = set (account_auths (vc_auth vc1)) \<union> scaled_members s ws"
      using Cons.prems vc1(2,3,4) by (intro Cons.IH) (auto simp: image_iff)
    ultimately show ?thesis using vc1(1,4) by auto
  qed
qed

lemma first_vote_counting:
  assumes "v \<noteq> 0" "v < 2 ^ 64"
  shows "\<exists>s vc. vc_add a v new_vote_counter = Inr vc \<and> counting s 1 vc \<and> last_votes vc = v
    \<and> set (account_auths (vc_auth vc)) = {(a, max (v div 2 ^ s) 1)}"
proof -
  let ?s = "nat (max (int (find_msb v) - 15) 0)"
  let ?w = "max (v div 2 ^ ?s) 1"
  have w: "?w \<le> 65535" using shifted_fits [of v] by simp
  then have m: "?w mod 2 ^ 64 = ?w" by (intro mod_less) simp
  have "vc_add a v new_vote_counter = Inr \<lparr>last_votes = v, vc_total_votes = ?w, bitshift = int ?s,
      vc_auth = add_account_authority a ?w empty_authority\<rparr>"
    using assms w m unfolding vc_add_def Let_def new_vote_counter_def by simp
  moreover have "counting ?s 1 \<lparr>last_votes = v, vc_total_votes = ?w, bitshift = int ?s,
      vc_auth = add_account_authority a ?w empty_authority\<rparr>"
    using w by (simp add: counting_def add_account_authority_def empty_authority_def)
  ultimately show ?thesis by (intro exI [of _ ?s]) (simp add: add_account_authority_def empty_authority_def)
qed

lemma count_no_votes: "\<forall>p \<in> set ws. snd p = 0 \<Longrightarrow> foldE (\<lambda>p. vc_add (fst p) (snd p)) ws vc = Inr vc"
  by (induction ws) (auto simp: vc_add_def)

text \<open>C16: The authority that an election writes (the active authority of the witness account, of the committee account and
  of accounts controlled by their largest holders) is a majority: counting votes that come in falling order never fails
  an assertion; if all votes are zero the old authority stays; otherwise exactly the members with votes get a weight,
  which is their votes scaled by a common power of two and at least one, all members together can reach the threshold,
  and two disjoint groups of members never both reach it.\<close>

theorem election_authority_is_majority:
  assumes "distinct (map fst ws)" "sorted_wrt (\<ge>) (map snd ws)" "\<forall>p \<in> set ws. snd p < 2 ^ 64" "length ws \<le> 65537"
  shows "\<exists>vc s. count_votes ws = Inr vc \<and>
    (if \<forall>p \<in> set ws. snd p = 0 then vc_finish vc old = old
     else (let au = vc_finish vc old in
       set (account_auths au) = scaled_members s ws \<and> key_auths au = [] \<and> address_auths au = [] \<and> \<not> is_impossible au
       \<and> (\<forall>G H. G \<inter> H = {} \<longrightarrow> \<not> (weight_threshold au \<le> weight_in G (account_auths au)
              \<and> weight_threshold au \<le> weight_in H (account_auths au)))))"
proof (cases "\<forall>p \<in> set ws. snd p = 0")
  case True
  then show ?thesis by (simp add: count_votes_def count_no_votes vc_finish_def new_vote_counter_def)
next
  case False
  then obtain p ws' where ws: "ws = p # ws'" by (cases ws) auto
  then have p: "snd p \<noteq> 0" using assms(2) False by auto
  then obtain s vc1 where vc1: "vc_add (fst p) (snd p) new_vote_counter = Inr vc1" "counting s 1 vc1" "last_votes vc1 = snd p"
    "set (account_auths (vc_auth vc1)) = {(fst p, max (snd p div 2 ^ s) 1)}"
    using first_vote_counting [of "snd p" "fst p"] assms(3) ws by auto
  obtain vc where vc: "foldE (\<lambda>p. vc_add (fst p) (snd p)) ws' vc1 = Inr vc" "counting s (1 + length ws') vc"
    "set (account_auths (vc_auth vc)) = set (account_auths (vc_auth vc1)) \<union> scaled_members s ws'"
    using count_all_counting [OF vc1(2), of ws'] assms vc1(3,4) ws by auto
  have "scaled_members s ws = insert (fst p, max (snd p div 2 ^ s) 1) (scaled_members s ws')"
    using p ws by (auto simp: scaled_members_def)
  then have m: "set (account_auths (vc_auth vc)) = scaled_members s ws" using vc(3) vc1(4) by simp
  have c: "count_votes ws = Inr vc" using vc1(1) vc(1) ws by (simp add: count_votes_def)
  have t: "vc_total_votes vc = sum_list (map snd (account_auths (vc_auth vc)))" "0 < vc_total_votes vc"
    "key_auths (vc_auth vc) = []" "address_auths (vc_auth vc) = []" "vc_total_votes vc \<le> (1 + length ws') * 65535"
    using vc(2) by (simp_all add: counting_def)
  have "(1 + length ws') * 65535 \<le> 65537 * 65535" using assms(4) ws by (intro mult_le_mono1) simp
  with t(5) have small: "vc_total_votes vc mod 2 ^ 64 = vc_total_votes vc" by simp
  have "\<not> (vc_total_votes vc div 2 + 1 \<le> weight_in G (account_auths (vc_auth vc))
      \<and> vc_total_votes vc div 2 + 1 \<le> weight_in H (account_auths (vc_auth vc)))" if "G \<inter> H = {}" for G H
    using weight_disjoint [OF that, of "account_auths (vc_auth vc)"] t(1) by linarith
  moreover have "vc_finish vc old = (vc_auth vc)\<lparr>weight_threshold := vc_total_votes vc div 2 + 1\<rparr>"
    using t(2) by (simp add: vc_finish_def)
  moreover have "\<not> is_impossible ((vc_auth vc)\<lparr>weight_threshold := vc_total_votes vc div 2 + 1\<rparr>)"
    using t(2) small by (simp add: is_impossible_def t(3,4) t(1) [symmetric])
  ultimately have "let au = vc_finish vc old in
       set (account_auths au) = scaled_members s ws \<and> key_auths au = [] \<and> address_auths au = [] \<and> \<not> is_impossible au
       \<and> (\<forall>G H. G \<inter> H = {} \<longrightarrow> \<not> (weight_threshold au \<le> weight_in G (account_auths au)
              \<and> weight_threshold au \<le> weight_in H (account_auths au)))"
    using t(3,4) m by (simp add: Let_def)
  then show ?thesis using c False by auto
qed

theorem election_authority_is_majority_witness:
  "\<exists>vc s. count_votes [(7, 900000), (9, 300000), (8, 0)] = Inr vc \<and>
    (let au = vc_finish vc empty_authority in
     set (account_auths au) = scaled_members s [(7, 900000), (9, 300000), (8, 0)] \<and> \<not> is_impossible au)"
  using election_authority_is_majority [of "[(7, 900000), (9, 300000), (8, 0)]" empty_authority] by (auto simp: Let_def)

section \<open>Who is elected\<close>

lemma sort_votable_top:
  assumes "sort_votable_objects b vid count t = Inr r" "idx_ok t"
  shows "length r = min count (length (objs t))" "distinct (map fst r)" "set r \<subseteq> set (objs t)"
    and "p \<in> set r \<Longrightarrow> q \<in> set (objs t) \<Longrightarrow> q \<notin> set r \<Longrightarrow>
      share_of (tally_of b (vid (snd q))) < share_of (tally_of b (vid (snd p)))
      \<or> share_of (tally_of b (vid (snd q))) = share_of (tally_of b (vid (snd p))) \<and> vote_instance (vid (snd p)) \<le> vote_instance (vid (snd q))"
proof -
  let ?f = "\<lambda>p. (- share_of (tally_of b (vid (snd p))), vote_instance (vid (snd p)))"
  let ?xs = "sort_key ?f (objs t)" and ?k = "min count (length (objs t))"
  have r: "r = take ?k ?xs" using assms(1) by (simp add: sort_votable_objects_def split: if_splits)
  show "length r = ?k" by (simp add: r)
  have "distinct (map fst ?xs)"
    using assms(2) by (simp add: idx_ok_def distinct_map)
  then show "distinct (map fst r)" by (simp add: r take_map [symmetric] distinct_take)
  show "set r \<subseteq> set (objs t)" using set_take_subset [of ?k ?xs] by (simp add: r)
  assume p: "p \<in> set r" and q: "q \<in> set (objs t)" "q \<notin> set r"
  have "set ?xs = set (take ?k ?xs @ drop ?k ?xs)" by (simp only: append_take_drop_id)
  then have "set ?xs = set r \<union> set (drop ?k ?xs)" unfolding r set_append .
  then have q': "q \<in> set (drop ?k ?xs)" using q by auto
  have "sorted (map ?f (take ?k ?xs @ drop ?k ?xs))" by simp
  then have "?f p \<le> ?f q" using p q' unfolding r map_append sorted_append by auto
  then show "share_of (tally_of b (vid (snd q))) < share_of (tally_of b (vid (snd p)))
      \<or> share_of (tally_of b (vid (snd q))) = share_of (tally_of b (vid (snd p))) \<and> vote_instance (vid (snd p)) \<le> vote_instance (vid (snd q))"
    by (auto simp: less_eq_prod_def)
qed

definition prefix_stake :: "nat list \<Rightarrow> nat \<Rightarrow> share_type" where
  "prefix_stake hs k = sum_list (map share_of (take k hs))"

lemma witness_count_loop_least:
  "witness_count_loop hs target count tally = Inr c \<Longrightarrow> count \<le> c \<and> c - count \<le> length hs
    \<and> (\<forall>k < c - count. tally + prefix_stake hs k \<le> target)
    \<and> (c - count < length hs \<longrightarrow> target < tally + prefix_stake hs (c - count))"
proof (induction hs target count tally rule: witness_count_loop.induct)
  case (2 h hs target count tally)
  show ?case
  proof (cases "tally \<le> target")
    case True
    with 2(2) have w: "witness_count_loop hs target (Suc count) (tally + share_of h) = Inr c" and i: "in_int64 (tally + share_of h)" by auto
    then have ih: "Suc count \<le> c" "c - Suc count \<le> length hs"
      "\<forall>k < c - Suc count. tally + share_of h + prefix_stake hs k \<le> target"
      "c - Suc count < length hs \<longrightarrow> target < tally + share_of h + prefix_stake hs (c - Suc count)"
      using 2(1) [OF True] by auto
    have "tally + prefix_stake (h # hs) k \<le> target" if "k < c - count" for k
    proof (cases k)
      case 0
      then show ?thesis using True by (simp add: prefix_stake_def)
    next
      case (Suc j)
      have "j < c - Suc count" using that Suc by simp
      then show ?thesis using ih(3) Suc by (auto simp: prefix_stake_def add.assoc)
    qed
    moreover obtain j where j: "c - count = Suc j" "c - Suc count = j" using ih(1) by (metis Suc_diff_Suc Suc_le_eq)
    ultimately show ?thesis using ih by (auto simp: prefix_stake_def add.assoc)
  next
    case False
    then have "c = count" using 2(2) by simp
    then show ?thesis using False by (simp add: prefix_stake_def)
  qed
qed (auto simp: prefix_stake_def)

lemma modify_account_frame:
  "modify_account i f db = Inr db' \<Longrightarrow> global_properties db' = global_properties db \<and> witnesses db' = witnesses db
    \<and> chain_properties db' = chain_properties db"
  by (auto simp: modify_account_def)

text \<open>How many witnesses an election seats, as the comments of the code describe it.\<close>

definition elected_count :: "vote_buffers \<Rightarrow> nat \<Rightarrow> bool" where
  "elected_count b c \<longleftrightarrow>
    (let target = stake_target_of (total_voting_stake b) (witness_count_histogram b); hs = tl (witness_count_histogram b)
     in if 0 < target then c \<le> length hs \<and> (\<forall>k < c. prefix_stake hs k \<le> target) \<and> (c < length hs \<longrightarrow> target < prefix_stake hs c)
        else c = 0)"

text \<open>C15: An election seats the witnesses with the most votes: twice the number plus one (but at least the minimum of the
  chain and at most all) of the smallest count whose voters hold more than half of the voting stake; every seated witness
  has more votes than every other one, or as many and the smaller vote id; and the recorded votes of all witnesses are
  those of the tally.\<close>

theorem elected_witnesses_are_top_voted:
  assumes "update_active_witnesses b db = Inr db'" "idx_ok (witnesses db)"
  shows "\<exists>c. elected_count b c
    \<and> length (active_witnesses (global_properties db'))
        = min (max (2 * c + 1) (min_witness_count (chain_properties db))) (length (objs (witnesses db)))
    \<and> distinct (active_witnesses (global_properties db'))
    \<and> (\<forall>i w j v. idx_find (witnesses db) i = Some w \<and> idx_find (witnesses db) j = Some v
        \<and> i \<in> set (active_witnesses (global_properties db')) \<and> j \<notin> set (active_witnesses (global_properties db')) \<longrightarrow>
          share_of (tally_of b (wit_vote_id v)) < share_of (tally_of b (wit_vote_id w))
          \<or> share_of (tally_of b (wit_vote_id v)) = share_of (tally_of b (wit_vote_id w))
            \<and> vote_instance (wit_vote_id w) \<le> vote_instance (wit_vote_id v))
    \<and> (\<forall>p \<in> set (objs (witnesses db')). total_votes (snd p) = tally_of b (wit_vote_id (snd p)))"
proof -
  let ?h = "witness_count_histogram b" and ?t = "stake_target_of (total_voting_stake b) (witness_count_histogram b)"
  let ?db = "db\<lparr>witnesses := (witnesses db)\<lparr>objs := map (\<lambda>p. (fst p, (snd p)\<lparr>total_votes := tally_of b (wit_vote_id (snd p))\<rparr>))
               (objs (witnesses db))\<rparr>\<rparr>"
  obtain c wits db1 f where c: "(if 0 < ?t then witness_count_loop (tl ?h) ?t 0 0 else Inr 0) = (Inr c :: nat exn)"
    and w: "sort_votable_objects b wit_vote_id (max (c * 2 + 1) (min_witness_count (chain_properties db))) (witnesses db) = Inr wits"
    and m: "modify_account GRAPHENE_WITNESS_ACCOUNT f ?db = Inr db1"
    and db': "db' = db1\<lparr>global_properties := (global_properties db1)\<lparr>active_witnesses := sort (map fst wits)\<rparr>\<rparr>"
    using assms(1) unfolding update_active_witnesses_def Let_def bindE_eq_Inr fc_assert_eq_Inr sum.inject by (elim exE conjE) (rule that, assumption+, rule sym, assumption)
  note s = sort_votable_top [OF w assms(2)]
  have act: "active_witnesses (global_properties db') = sort (map fst wits)" by (simp add: db')
  have "elected_count b c" using c witness_count_loop_least [of "tl ?h" ?t 0 0 c]
    by (auto simp: elected_count_def Let_def split: if_splits)
  moreover have "length (active_witnesses (global_properties db'))
      = min (max (2 * c + 1) (min_witness_count (chain_properties db))) (length (objs (witnesses db)))"
    using s(1) by (simp add: act mult.commute)
  moreover have "distinct (active_witnesses (global_properties db'))" using s(2) by (simp add: act)
  moreover have top: "share_of (tally_of b (wit_vote_id v)) < share_of (tally_of b (wit_vote_id x))
          \<or> share_of (tally_of b (wit_vote_id v)) = share_of (tally_of b (wit_vote_id x))
            \<and> vote_instance (wit_vote_id x) \<le> vote_instance (wit_vote_id v)"
    if i: "idx_find (witnesses db) i = Some x" "i \<in> set (map fst wits)"
      and j: "idx_find (witnesses db) j = Some v" "j \<notin> set (map fst wits)" for i x j v
  proof -
    obtain y where y: "(i, y) \<in> set wits" using i(2) by auto
    then have "(i, y) \<in> set (objs (witnesses db))" using s(3) by blast
    then have "y = x" using in_idx_find [OF assms(2)] i(1) by fastforce
    moreover have "(j, v) \<notin> set wits" using j(2) by force
    ultimately show ?thesis using s(4) [OF y idx_find_in [OF j(1)]] by simp
  qed
  moreover have "\<forall>p \<in> set (objs (witnesses db')). total_votes (snd p) = tally_of b (wit_vote_id (snd p))"
    using modify_account_frame [OF m] by (auto simp: db')
  ultimately show ?thesis
    by (intro exI [of _ c] conjI allI impI) (simp_all add: act, elim conjE, rule top, simp_all)
qed

text \<open>An election: four candidates with 10, 40, 40 and 70 votes and all voters for three witnesses.\<close>

definition demo_candidate :: "nat \<Rightarrow> witness_object" where
  "demo_candidate i = \<lparr>witness_account = 10 + i, last_aslot = 0, signing_key = 0, pay_vb = None,
     wit_vote_id = mk_vote_id witness_vote i, total_votes = 0, total_missed = 0, last_confirmed_block_num = 0\<rparr>"

definition demo_election :: database where
  "demo_election = demo_chain\<lparr>witnesses := idx_of (map demo_candidate [0..<4]),
     chain_properties := \<lparr>min_committee_member_count = 1, min_witness_count = 1\<rparr>\<rparr>"

definition demo_votes :: vote_buffers where
  "demo_votes = \<lparr>vote_tally = [10, 40, 40, 70], witness_count_histogram = [0, 100, 0], committee_count_histogram = [0, 0],
     total_voting_stake = 100\<rparr>"

lemma demo_vote_ids:
  "wit_vote_id (demo_candidate 0) = 1" "wit_vote_id (demo_candidate (Suc 0)) = 0x101" "wit_vote_id (demo_candidate 2) = 0x201"
  "wit_vote_id (demo_candidate 3) = 0x301" "vote_instance 1 = 0" "vote_instance 0x101 = 1" "vote_instance 0x201 = 2" "vote_instance 0x301 = 3"
  by (simp_all add: demo_candidate_def mk_vote_id_def vote_instance_def)

lemma demo_tally: "tally_of demo_votes 1 = 10" "tally_of demo_votes 0x101 = 40" "tally_of demo_votes 0x201 = 40" "tally_of demo_votes 0x301 = 70"
  by (simp_all add: tally_of_def demo_vote_ids demo_votes_def)

lemma demo_objs: "objs (witnesses demo_election) = [(0, demo_candidate 0), (1, demo_candidate 1), (2, demo_candidate 2), (3, demo_candidate 3)]"
  by (simp add: demo_election_def idx_of_def upt_rec numeral_2_eq_2 numeral_3_eq_3)

lemma demo_seated:
  "sort_votable_objects demo_votes wit_vote_id 3 (witnesses demo_election) = Inr [(3, demo_candidate 3), (1, demo_candidate 1), (2, demo_candidate 2)]"
proof -
  have l: "length (vote_tally demo_votes) = 4" by (simp add: demo_votes_def)
  show ?thesis by (simp add: sort_votable_objects_def demo_objs demo_vote_ids demo_tally l share_of_def)
qed

lemma demo_elects:
  "\<exists>db'. update_active_witnesses demo_votes demo_election = Inr db' \<and> active_witnesses (global_properties db') = [1, 2, 3]"
proof -
  have t: "stake_target_of (total_voting_stake demo_votes) (witness_count_histogram demo_votes) = 50"
    by (simp add: stake_target_of_def demo_votes_def share_of_def)
  have c: "witness_count_loop (tl (witness_count_histogram demo_votes)) 50 0 0 = Inr 1"
    by (simp add: demo_votes_def share_of_def safe_add_def safe_int64_def in_int64_def)
  have f: "find_msb 70 = 6" by (simp add: find_msb.simps)
  have v: "count_votes [(13, 70), (11, 40), (12, 40)] = Inr \<lparr>last_votes = 40, vc_total_votes = 150, bitshift = 0,
     vc_auth = \<lparr>weight_threshold = 0, account_auths = [(11, 40), (12, 40), (13, 70)], key_auths = [], address_auths = []\<rparr>\<rparr>"
    by (simp add: count_votes_def vc_add_def new_vote_counter_def f add_account_authority_def empty_authority_def
      del: bindE_eq_Inr cong: bindE_weak_cong)
  have m: "map (\<lambda>p. (witness_account (snd p), tally_of demo_votes (wit_vote_id (snd p))))
      [(3, demo_candidate 3), (1, demo_candidate 1), (2, demo_candidate 2)] = [(13, 70), (11, 40), (12, 40)]"
    by (simp add: demo_vote_ids demo_tally) (simp add: demo_candidate_def)
  have l: "witness_count_histogram demo_votes \<noteq> []" "min_witness_count (chain_properties demo_election) = 1"
    by (simp_all add: demo_votes_def demo_election_def)
  have a: "\<exists>acc. idx_find (accounts demo_election) 1 = Some acc"
    by (simp add: demo_election_def demo_chain_def idx_of_def idx_find_def upt_rec)
  have h: "head_block_time (demo_election\<lparr>witnesses := x\<rparr>) = 1600000000" for x
    by (simp add: head_block_time_def demo_election_def demo_chain_def)
  from a obtain acc where acc: "idx_get ''account'' (accounts demo_election) 1 = Inr acc" by (auto simp: idx_get_def)
  show ?thesis
    unfolding update_active_witnesses_def Let_def t
    by (simp add: c l demo_seated vote_authority_def h m v modify_account_def GRAPHENE_WITNESS_ACCOUNT_def HARDFORK_533_TIME_def
      idx_modify_def acc del: bindE_eq_Inr idx_get_eq_Inr One_nat_def list.map cong: bindE_weak_cong) simp
qed

theorem elected_witnesses_are_top_voted_witness:
  "\<exists>db'. update_active_witnesses demo_votes demo_election = Inr db' \<and> active_witnesses (global_properties db') = [1, 2, 3]
    \<and> (\<exists>c. elected_count demo_votes c \<and> length [1 :: nat, 2, 3] = min (max (2 * c + 1) 1) 4)"
proof -
  have ok: "idx_ok (witnesses demo_election)" by (simp add: demo_election_def)
  have l: "length (objs (witnesses demo_election)) = 4" "min_witness_count (chain_properties demo_election) = 1"
    by (simp add: demo_objs) (simp add: demo_election_def)
  obtain db' where "update_active_witnesses demo_votes demo_election = Inr db'" "active_witnesses (global_properties db') = [1, 2, 3]"
    using demo_elects by blast
  with elected_witnesses_are_top_voted [OF this(1) ok, unfolded l this(2)] show ?thesis by blast
qed

section \<open>What is counted\<close>

text \<open>The ballot of an account: its stake and the opinion it is counted for; none if the account may not vote.\<close>

definition ballot :: "database \<Rightarrow> account_id_type \<Rightarrow> (nat \<times> account_options) option" where
  "ballot db i = (case idx_find (accounts db) i of
     None \<Rightarrow> None
   | Some acc \<Rightarrow>
       if count_non_member_votes (parameters (global_properties db)) \<or> is_member acc (head_block_time db)
       then (case opinion_account db acc of
               Inl e \<Rightarrow> None
             | Inr op \<Rightarrow> (case voting_stake db i acc of Inl e \<Rightarrow> None | Inr stake \<Rightarrow> Some (stake, acc_options op)))
       else None)"

definition ballot_stake :: "database \<Rightarrow> account_id_type \<Rightarrow> nat" where
  "ballot_stake db i = (case ballot db i of None \<Rightarrow> 0 | Some (stake, opts) \<Rightarrow> stake)"

definition ballot_for :: "database \<Rightarrow> nat \<Rightarrow> account_id_type \<Rightarrow> nat" where
  "ballot_for db k i = (case ballot db i of None \<Rightarrow> 0 | Some (stake, opts) \<Rightarrow> stake * count_list (map vote_instance (votes opts)) k)"

lemma length_add_at [simp]: "length (add_at i x xs) = length xs"
  by (simp add: add_at_def)

lemma nth_add_at: "k < length xs \<Longrightarrow> xs ! k < 2 ^ 64 \<Longrightarrow> add_at i x xs ! k = (xs ! k + (if i = k then x else 0)) mod 2 ^ 64"
  by (auto simp: add_at_def nth_list_update)

lemma tally_votes:
  "k < length t \<Longrightarrow> t ! k < 2 ^ 64 \<Longrightarrow> length (foldl (\<lambda>t v. add_at (f v) x t) t vs) = length t
    \<and> foldl (\<lambda>t v. add_at (f v) x t) t vs ! k = (t ! k + x * count_list (map f vs) k) mod 2 ^ 64"
proof (induction vs arbitrary: t)
  case (Cons v vs)
  let ?t = "add_at (f v) x t"
  have e: "?t ! k = (t ! k + (if f v = k then x else 0)) mod 2 ^ 64" using Cons.prems by (rule nth_add_at)
  then have "?t ! k < 2 ^ 64" by simp
  with Cons.IH [of ?t] Cons.prems(1) have ih: "length (foldl (\<lambda>t v. add_at (f v) x t) ?t vs) = length t"
    "foldl (\<lambda>t v. add_at (f v) x t) ?t vs ! k = (?t ! k + x * count_list (map f vs) k) mod 2 ^ 64" by auto
  have "(?t ! k + x * count_list (map f vs) k) mod 2 ^ 64
      = (t ! k + (if f v = k then x else 0) + x * count_list (map f vs) k) mod 2 ^ 64"
    unfolding e by (rule mod_add_left_eq)
  then show ?case using ih by (auto simp: algebra_simps)
qed simp

lemma tally_opinion_exact:
  assumes "k < length (vote_tally b)" "vote_tally b ! k < 2 ^ 64"
  shows "length (vote_tally (tally_opinion ps opts x b)) = length (vote_tally b)"
    and "vote_tally (tally_opinion ps opts x b) ! k = (vote_tally b ! k + x * count_list (map vote_instance (votes opts)) k) mod 2 ^ 64"
    and "total_voting_stake (tally_opinion ps opts x b) = (total_voting_stake b + x) mod 2 ^ 64"
  using tally_votes [OF assms, of vote_instance x "votes opts"] by (simp_all add: tally_opinion_def Let_def)

lemma vote_tally_helper_exact:
  assumes "vote_tally_helper i db b = Inr b'" "k < length (vote_tally b)" "vote_tally b ! k < 2 ^ 64" "total_voting_stake b < 2 ^ 64"
  shows "length (vote_tally b') = length (vote_tally b)" "vote_tally b' ! k = (vote_tally b ! k + ballot_for db k i) mod 2 ^ 64"
    and "total_voting_stake b' = (total_voting_stake b + ballot_stake db i) mod 2 ^ 64"
proof -
  obtain acc :: account_object where acc: "idx_find (accounts db) i = Some acc" using assms(1) by (auto simp: vote_tally_helper_def)
  have "(length (vote_tally b') = length (vote_tally b) \<and> vote_tally b' ! k = (vote_tally b ! k + ballot_for db k i) mod 2 ^ 64)
    \<and> total_voting_stake b' = (total_voting_stake b + ballot_stake db i) mod 2 ^ 64"
  proof (cases "count_non_member_votes (parameters (global_properties db)) \<or> is_member acc (head_block_time db)")
    case True
    then obtain op stake where o: "opinion_account db acc = Inr op" "voting_stake db i acc = Inr stake"
      and b': "b' = tally_opinion (parameters (global_properties db)) (acc_options op) stake b"
      using assms(1) acc by (auto simp: vote_tally_helper_def Let_def)
    have "ballot db i = Some (stake, acc_options op)" using acc True o by (simp add: ballot_def)
    then show ?thesis using tally_opinion_exact [OF assms(2,3)] by (simp add: b' ballot_for_def ballot_stake_def)
  next
    case False
    then have "b' = b" "ballot db i = None" using assms(1) acc by (auto simp: vote_tally_helper_def Let_def ballot_def)
    then show ?thesis using assms(3,4) by (simp add: ballot_for_def ballot_stake_def)
  qed
  then show "length (vote_tally b') = length (vote_tally b)" "vote_tally b' ! k = (vote_tally b ! k + ballot_for db k i) mod 2 ^ 64"
    "total_voting_stake b' = (total_voting_stake b + ballot_stake db i) mod 2 ^ 64" by auto
qed

lemma count_loop_exact:
  assumes "foldE (\<lambda>i (b, db). bindE (vote_tally_helper i db b) (\<lambda>b. bindE (get_account db i) (\<lambda>a.
      bindE (process_fees (statistics a) i db) (\<lambda>db. Inr (b, db))))) is (b, db) = Inr (b', db')"
    and "\<forall>p \<in> set (objs (account_stats db)). pending_fees (snd p) \<le> 0 \<and> pending_vested_fees (snd p) \<le> 0"
    and "k < length (vote_tally b)" "vote_tally b ! k < 2 ^ 64" "total_voting_stake b < 2 ^ 64"
  shows "db' = db \<and> length (vote_tally b') = length (vote_tally b)
    \<and> vote_tally b' ! k = (vote_tally b ! k + sum_list (map (ballot_for db k) is)) mod 2 ^ 64
    \<and> total_voting_stake b' = (total_voting_stake b + sum_list (map (ballot_stake db) is)) mod 2 ^ 64"
  using assms(1,3,4,5)
proof (induction "is" arbitrary: b)
  case (Cons i "is")
  obtain b1 db1 and a :: account_object where h: "vote_tally_helper i db b = Inr b1" and p: "process_fees (statistics a) i db = Inr db1"
    and rest: "foldE (\<lambda>i (b, db). bindE (vote_tally_helper i db b) (\<lambda>b. bindE (get_account db i) (\<lambda>a.
      bindE (process_fees (statistics a) i db) (\<lambda>db. Inr (b, db))))) is (b1, db1) = Inr (b', db')"
    using Cons.prems(1) by auto
  note e = vote_tally_helper_exact [OF h Cons.prems(2,3,4)]
  have "db1 = db" using p assms(2) by (auto simp: process_fees_def dest!: idx_find_in split: if_splits)
  then have "db' = db \<and> length (vote_tally b') = length (vote_tally b1)
    \<and> vote_tally b' ! k = (vote_tally b1 ! k + sum_list (map (ballot_for db k) is)) mod 2 ^ 64
    \<and> total_voting_stake b' = (total_voting_stake b1 + sum_list (map (ballot_stake db) is)) mod 2 ^ 64"
    using rest e Cons.prems(2) by (intro Cons.IH) simp_all
  then show ?case using e by (simp add: mod_add_left_eq add.assoc)
qed simp_all

text \<open>C17: The count of votes is exact: when no account has fees to be paid out in between, the tally of a vote id after the
  pass over all accounts is the sum of the stakes (core balance, core in orders and cashback) of the accounts that may
  vote, each as often as the opinion it follows (its own or that of its proxy) lists that vote, and the total stake is the
  sum of all stakes, both as unsigned 64-bit numbers; the pass leaves the state unchanged.\<close>

theorem vote_tally_exact:
  assumes "perform_account_maintenance db = Inr (b, db')" "k < next_available_vote_id (global_properties db)"
    and "\<forall>p \<in> set (objs (account_stats db)). pending_fees (snd p) \<le> 0 \<and> pending_vested_fees (snd p) \<le> 0"
  shows "db' = db \<and> vote_tally b ! k = (\<Sum>i\<leftarrow>accounts_by_name db. ballot_for db k i) mod 2 ^ 64
    \<and> total_voting_stake b = (\<Sum>i\<leftarrow>accounts_by_name db. ballot_stake db i) mod 2 ^ 64"
  using count_loop_exact [OF assms(1) [unfolded perform_account_maintenance_def] assms(3), of k] assms(2)
  by (simp add: new_vote_buffers_def)

text \<open>Two accounts with 700 and 200 of the core asset; the second votes through the first.\<close>

definition demo_ballots :: database where
  "demo_ballots = demo_chain\<lparr>
     accounts := idx_of [(demo_account 0)\<lparr>acc_name := ''b'', acc_options := \<lparr>voting_account = 5, num_witness = 1, num_committee = 0, votes = [0x101]\<rparr>\<rparr>,
                         (demo_account 1)\<lparr>acc_name := ''a'', acc_options := demo_options\<lparr>voting_account := 0\<rparr>\<rparr>],
     account_stats := idx_of [demo_stats 0 0, demo_stats 1 0],
     balances := idx_of [\<lparr>owner = 0, asset_type = 0, balance = 700\<rparr>, \<lparr>owner = 1, asset_type = 0, balance = 200\<rparr>],
     global_properties := (global_properties demo_chain)\<lparr>parameters := demo_params\<lparr>maximum_witness_count := 2, maximum_committee_count := 2\<rparr>,
       next_available_vote_id := 2\<rparr>\<rparr>"

lemma demo_order: "accounts_by_name demo_ballots = [1, 0]"
  by (simp add: accounts_by_name_def demo_ballots_def idx_of_def)

theorem vote_tally_exact_witness:
  "\<exists>b. perform_account_maintenance demo_ballots = Inr (b, demo_ballots) \<and> vote_tally b ! 1 = 900
    \<and> 900 = (\<Sum>i\<leftarrow>accounts_by_name demo_ballots. ballot_for demo_ballots 1 i) mod 2 ^ 64"
proof -
  have "\<exists>b db'. perform_account_maintenance demo_ballots = Inr (b, db') \<and> vote_tally b ! 1 = 900"
    unfolding perform_account_maintenance_def demo_order
    by (simp add: demo_ballots_def demo_account_def demo_options_def demo_stats_def demo_params_def demo_chain_def idx_of_def
      vote_tally_helper_def get_account_def idx_get_def idx_find_def opinion_account_def voting_stake_def get_balance_def
      idx_find_by_def balance_key_def tally_opinion_def add_at_def new_vote_buffers_def process_fees_def numeral_2_eq_2
      GRAPHENE_PROXY_TO_SELF_ACCOUNT_def demo_vote_ids Let_def del: bindE_eq_Inr cong: bindE_weak_cong)
      (simp flip: numeral_2_eq_2)
  then obtain b db' where b: "perform_account_maintenance demo_ballots = Inr (b, db')" "vote_tally b ! 1 = 900" by blast
  have "\<forall>p \<in> set (objs (account_stats demo_ballots)). pending_fees (snd p) \<le> 0 \<and> pending_vested_fees (snd p) \<le> 0"
    by (simp add: demo_ballots_def idx_of_def demo_stats_def)
  moreover have "1 < next_available_vote_id (global_properties demo_ballots)" by (simp add: demo_ballots_def)
  ultimately show ?thesis using vote_tally_exact [OF b(1), of 1] b by auto
qed

end
