(* ===== verification/Budget.thy ===== *)
theory Budget
  imports Voting Evaluator
begin

text \<open>
  The budget of a maintenance interval: the budget record, the payment of workers
  (\<^verbatim>\<open>worker_evaluator.cpp\<close>) and \<open>process_budget\<close> of \<^verbatim>\<open>db_maint.cpp\<close>, the creation of workers, the fees
  collected for fee backed assets (\<^verbatim>\<open>fba_object.cpp\<close>, \<open>split_fba_balance\<close>) and the time of the next
  maintenance. The money a budget hands out is taken from the reserve, the part of the maximum supply
  of the core asset that is not issued.
\<close>

section \<open>Workers\<close>

datatype worker_initializer =
  refund_worker_initializer | vesting_balance_worker_initializer nat | burn_worker_initializer

record worker_create_operation =
  wc_fee :: asset
  wc_owner :: account_id_type
  wc_work_begin_date :: time_point_sec
  wc_work_end_date :: time_point_sec
  wc_daily_pay :: share_type
  wc_name :: string
  wc_url :: string
  wc_initializer :: worker_initializer

definition GRAPHENE_MAX_WORKER_NAME_LENGTH :: nat where "GRAPHENE_MAX_WORKER_NAME_LENGTH = 63"
definition GRAPHENE_MAX_URL_LENGTH :: nat where "GRAPHENE_MAX_URL_LENGTH = 127"

definition worker_create_validate :: "worker_create_operation \<Rightarrow> unit exn" where
  "worker_create_validate op =
    bindE (fc_assert (0 \<le> amount (wc_fee op)) ''fee.amount >= 0'') (\<lambda>_.
    bindE (fc_assert (wc_work_begin_date op < wc_work_end_date op) ''work_end_date > work_begin_date'') (\<lambda>_.
    bindE (fc_assert (0 < wc_daily_pay op) ''daily_pay > 0'') (\<lambda>_.
    bindE (fc_assert (wc_daily_pay op < GRAPHENE_MAX_SHARE_SUPPLY) ''daily_pay < GRAPHENE_MAX_SHARE_SUPPLY'') (\<lambda>_.
    bindE (fc_assert (length (wc_name op) < GRAPHENE_MAX_WORKER_NAME_LENGTH) ''name.size()'') (\<lambda>_.
    fc_assert (length (wc_url op) < GRAPHENE_MAX_URL_LENGTH) ''url.size()'')))))"

definition worker_create_evaluate :: "worker_create_operation \<Rightarrow> database \<Rightarrow> unit exn" where
  "worker_create_evaluate op db =
    bindE (get_account db (wc_owner op)) (\<lambda>a.
    bindE (fc_assert (is_lifetime_member a) ''d.get(o.owner).is_lifetime_member()'') (\<lambda>_.
    fc_assert (head_block_time db \<le> wc_work_begin_date op) ''o.work_begin_date >= d.head_block_time()''))"

definition worker_init :: "account_id_type \<Rightarrow> worker_initializer \<Rightarrow> database \<Rightarrow> worker_type \<times> database" where
  "worker_init owner_id ini db =
    (case ini of
       refund_worker_initializer \<Rightarrow> (refund_worker_type 0, db)
     | burn_worker_initializer \<Rightarrow> (burn_worker_type 0, db)
     | vesting_balance_worker_initializer days \<Rightarrow>
         (vesting_balance_worker_type (next_id (vesting_balances db)),
          db\<lparr>vesting_balances := idx_create (vesting_balances db)
            \<lparr>vb_owner = owner_id, vb_balance = mk_asset 0 0,
             vb_policy = Cdd \<lparr>vesting_seconds = days * 86400 mod 2 ^ 32, coin_seconds_earned = 0, start_claim = 0,
               coin_seconds_earned_last_update = head_block_time db\<rparr>\<rparr>\<rparr>))"

definition worker_create_apply :: "worker_create_operation \<Rightarrow> database \<Rightarrow> nat \<times> database" where
  "worker_create_apply op db =
    (let (for_id, gpo) = get_next_vote_id worker_vote (global_properties db);
         (against_id, gpo) = get_next_vote_id worker_vote gpo;
         (w, db) = worker_init (wc_owner op) (wc_initializer op) (db\<lparr>global_properties := gpo\<rparr>)
     in (next_id (workers db),
         db\<lparr>workers := idx_create (workers db) \<lparr>worker_account = wc_owner op, work_begin_date = wc_work_begin_date op,
           work_end_date = wc_work_end_date op, daily_pay = wc_daily_pay op, worker = w, vote_for = for_id,
           vote_against = against_id, total_votes_for = 0, total_votes_against = 0\<rparr>\<rparr>))"

text \<open>Paying a worker: the worker's own data and the rest of the state change.\<close>

definition pay_worker :: "share_type \<Rightarrow> worker_type \<Rightarrow> database \<Rightarrow> (worker_type \<times> database) exn" where
  "pay_worker pay w db =
    (case w of
       refund_worker_type burned \<Rightarrow>
         bindE (safe_add burned pay) (\<lambda>b.
         bindE (modify_dynamic 0 (\<lambda>d. bindE (safe_sub (current_supply d) pay) (\<lambda>s. Inr (d\<lparr>current_supply := s\<rparr>))) db) (\<lambda>db.
         Inr (refund_worker_type b, db)))
     | vesting_balance_worker_type v \<Rightarrow>
         bindE (idx_modify ''vesting_balance'' (vesting_balances db) v (\<lambda>b. vb_deposit b (head_block_time db) (mk_asset pay 0))) (\<lambda>t.
         Inr (w, db\<lparr>vesting_balances := t\<rparr>))
     | burn_worker_type burned \<Rightarrow>
         bindE (safe_add burned pay) (\<lambda>b.
         bindE (adjust_balance GRAPHENE_NULL_ACCOUNT (mk_asset pay 0) db) (\<lambda>db.
         Inr (burn_worker_type b, db))))"

definition active_workers :: "database \<Rightarrow> nat list" where
  "active_workers db =
    map fst (sort_key (\<lambda>p. (- approving_stake (snd p), fst p))
      (filter (\<lambda>p. worker_is_active (snd p) (head_block_time db) \<and> 0 < approving_stake (snd p)) (objs (workers db))))"

definition requested_pay :: "database \<Rightarrow> worker_object \<Rightarrow> share_type" where
  "requested_pay db w =
    (let dt = int (head_block_time db) - int (last_budget_time (dynamic_properties db))
     in if dt = 86400 then daily_pay w
        else wrap64 (uint (u128 (daily_pay w) * u128 (dt * 1000000) div u128 (86400 * 1000000))))"

definition pay_one_worker :: "nat \<Rightarrow> share_type \<times> database \<Rightarrow> (share_type \<times> database) exn" where
  "pay_one_worker i r =
    (let budget = fst r; db = snd r in
     if budget \<le> 0 then Inr r
     else bindE (idx_get ''worker'' (workers db) i) (\<lambda>w.
          let actual_pay = min budget (requested_pay db w)
          in bindE (pay_worker actual_pay (worker w) db) (\<lambda>q.
             let db = (snd q)\<lparr>workers := idx_put (workers (snd q)) i (w\<lparr>worker := fst q\<rparr>)\<rparr>
             in bindE (safe_sub budget actual_pay) (\<lambda>budget. Inr (budget, db)))))"

definition pay_workers :: "share_type \<Rightarrow> database \<Rightarrow> (share_type \<times> database) exn" where
  "pay_workers budget db = foldE pay_one_worker (active_workers db) (budget, db)"

section \<open>The budget\<close>

definition GRAPHENE_CORE_ASSET_CYCLE_RATE :: int where "GRAPHENE_CORE_ASSET_CYCLE_RATE = 17"
definition GRAPHENE_CORE_ASSET_CYCLE_RATE_BITS :: nat where "GRAPHENE_CORE_ASSET_CYCLE_RATE_BITS = 32"

definition reserved :: "asset_object \<Rightarrow> asset_dynamic_data_object \<Rightarrow> share_type exn" where
  "reserved a d = safe_sub (max_supply (a_options a)) (current_supply d)"

definition get_core :: "database \<Rightarrow> (asset_object \<times> asset_dynamic_data_object) exn" where
  "get_core db = bindE (get_asset db 0) (\<lambda>a.
     bindE (idx_get ''asset_dynamic_data'' (asset_dynamic_data db) (dynamic_asset_data_id a)) (\<lambda>d. Inr (a, d)))"

definition cycle_budget :: "share_type \<Rightarrow> int \<Rightarrow> uint128" where
  "cycle_budget reserve dt = drop_bit GRAPHENE_CORE_ASSET_CYCLE_RATE_BITS
     (u128 reserve * u128 dt * u128 GRAPHENE_CORE_ASSET_CYCLE_RATE + u128 (2 ^ GRAPHENE_CORE_ASSET_CYCLE_RATE_BITS - 1))"

definition initialize_budget_record :: "time_point_sec \<Rightarrow> database \<Rightarrow> budget_record exn" where
  "initialize_budget_record now db =
    (let dpo = dynamic_properties db in
     bindE (get_core db) (\<lambda>core.
     bindE (reserved (fst core) (snd core)) (\<lambda>res.
     let rec = \<lparr>time_since_last_budget = 0, from_initial_reserve = res, from_accumulated_fees = accumulated_fees (snd core),
           from_unused_witness_budget = witness_budget dpo, requested_witness_budget = 0, total_budget = 0,
           rec_witness_budget = 0, worker_budget = 0, leftover_worker_funds = 0, supply_delta = 0\<rparr>
     in if last_budget_time dpo = 0 \<or> now \<le> last_budget_time dpo then Inr rec
        else let dt = now - last_budget_time dpo in
          bindE (safe_add res (accumulated_fees (snd core))) (\<lambda>x.
          bindE (safe_add x (witness_budget dpo)) (\<lambda>reserve.
          Inr (rec\<lparr>time_since_last_budget := dt,
            total_budget := (if cycle_budget reserve (int dt) < u128 reserve then wrap64 (uint (cycle_budget reserve (int dt)))
                             else reserve)\<rparr>))))))"

definition witness_budget_of :: "chain_parameters \<Rightarrow> int \<Rightarrow> share_type" where
  "witness_budget_of ps time_to_maint =
    wrap64 (witness_pay_per_block ps * ((time_to_maint + int (block_interval ps) - 1) div int (block_interval ps)))"

definition worker_budget_of :: "chain_parameters \<Rightarrow> int \<Rightarrow> share_type \<Rightarrow> share_type" where
  "worker_budget_of ps time_to_maint available_funds =
    (let wrk = u128 (worker_budget_per_day ps) * u128 time_to_maint div u128 (60 * 60 * 24)
     in if u128 available_funds \<le> wrk then available_funds else wrap64 (uint wrk))"

definition process_budget :: "database \<Rightarrow> database exn" where
  "process_budget db =
    (let ps = parameters (global_properties db); now = head_block_time db;
         time_to_maint = int (next_maintenance_time (dynamic_properties db)) - int now
     in bindE (fc_assert (0 < time_to_maint) ''time_to_maint > 0'') (\<lambda>_.
        bindE (fc_assert (0 < block_interval ps) ''gpo.parameters.block_interval > 0'') (\<lambda>_.
        bindE (initialize_budget_record now db) (\<lambda>rec.
        let requested = witness_budget_of ps time_to_maint;
            wit = min requested (total_budget rec)
        in bindE (safe_sub (total_budget rec) wit) (\<lambda>funds.
        let wrk = worker_budget_of ps time_to_maint funds
        in bindE (safe_sub funds wrk) (\<lambda>available_funds.
        bindE (pay_workers wrk db) (\<lambda>paid.
        bindE (safe_add available_funds (fst paid)) (\<lambda>_.
        bindE (safe_add wit wrk) (\<lambda>x.
        bindE (safe_sub x (fst paid)) (\<lambda>y.
        bindE (safe_sub y (from_accumulated_fees rec)) (\<lambda>z.
        bindE (safe_sub z (from_unused_witness_budget rec)) (\<lambda>delta.
        bindE (modify_dynamic 0 (\<lambda>d.
          bindE (safe_add (current_supply d) delta) (\<lambda>s.
          bindE (fc_assert (delta = wit + wrk - fst paid - accumulated_fees d - witness_budget (dynamic_properties (snd paid)))
            ''rec.supply_delta'') (\<lambda>_.
          Inr (d\<lparr>current_supply := s, accumulated_fees := 0\<rparr>)))) (snd paid)) (\<lambda>db.
        let db = db\<lparr>dynamic_properties := (dynamic_properties db)\<lparr>witness_budget := wit, last_budget_time := now\<rparr>\<rparr>
        in Inr (db\<lparr>budget_records := idx_create (budget_records db) \<lparr>br_time = head_block_time db,
             br_record = rec\<lparr>requested_witness_budget := requested, rec_witness_budget := wit, worker_budget := wrk,
               leftover_worker_funds := fst paid, supply_delta := delta\<rparr>\<rparr>\<rparr>))))))))))))))"

section \<open>Fees of fee backed assets\<close>

definition top_holders_of :: "special_authority \<Rightarrow> asset_id_type option" where
  "top_holders_of au = (case au of no_special_authority \<Rightarrow> None | top_holders_special_authority a n \<Rightarrow> Some a)"

definition fba_is_configured :: "fba_accumulator_object \<Rightarrow> database \<Rightarrow> bool exn" where
  "fba_is_configured fba db =
    (case designated_asset fba of
       None \<Rightarrow> Inr False
     | Some da \<Rightarrow> (case idx_find (assets db) da of
         None \<Rightarrow> Inr False
       | Some dasset \<Rightarrow>
           if is_market_issued dasset then Inr False
           else if and (issuer_permissions (a_options dasset)) charge_market_fee \<noteq> issuer_permissions (a_options dasset) then Inr False
           else if and (flags (a_options dasset)) charge_market_fee \<noteq> flags (a_options dasset) then Inr False
           else if buyback_account dasset = None then Inr False
           else bindE (get_account db (issuer dasset)) (\<lambda>iss.
             Inr (top_holders_of (owner_special_authority iss) = Some da \<and> top_holders_of (active_special_authority iss) = Some da
               \<and> top_n_control_flags iss = or 1 2))))"

definition pay_fba_fee :: "bool \<Rightarrow> nat \<Rightarrow> fee_state \<Rightarrow> database \<Rightarrow> database exn" where
  "pay_fba_fee skip_fee fba_id fs db =
    bindE (idx_get ''fba_accumulator'' (fba_accumulators db) fba_id) (\<lambda>fba.
    bindE (fba_is_configured fba db) (\<lambda>conf.
    if \<not> conf then pay_fee skip_fee fs db
    else bindE (safe_add (accumulated_fba_fees fba) (core_fee_paid fs)) (\<lambda>x.
         Inr (db\<lparr>fba_accumulators := idx_put (fba_accumulators db) fba_id (fba\<lparr>accumulated_fba_fees := x\<rparr>)\<rparr>))))"

definition reduce_core_supply :: "share_type \<Rightarrow> database \<Rightarrow> database exn" where
  "reduce_core_supply x db = modify_dynamic 0 (\<lambda>d. bindE (safe_sub (current_supply d) x) (\<lambda>s. Inr (d\<lparr>current_supply := s\<rparr>))) db"

definition clear_fba :: "nat \<Rightarrow> database \<Rightarrow> database exn" where
  "clear_fba fba_id db = bindE (idx_modify ''fba_accumulator'' (fba_accumulators db) fba_id (\<lambda>f. Inr (f\<lparr>accumulated_fba_fees := 0\<rparr>))) (\<lambda>t.
     Inr (db\<lparr>fba_accumulators := t\<rparr>))"

definition distribute_to :: "account_id_type \<Rightarrow> nat \<Rightarrow> share_type \<Rightarrow> database \<Rightarrow> database exn" where
  "distribute_to acct fba_id amt db =
    (if amt \<noteq> 0
     then bindE (adjust_balance acct (mk_asset amt 0) db) (\<lambda>db.
          Inr (push_applied_operation (fba_distribute_operation acct fba_id amt) db))
     else Inr db)"

definition split_fba_balance :: "nat \<Rightarrow> nat \<Rightarrow> nat \<Rightarrow> nat \<Rightarrow> database \<Rightarrow> database exn" where
  "split_fba_balance fba_id network_pct buyback_pct issuer_pct db =
    bindE (fc_assert (int (network_pct + buyback_pct + issuer_pct) = GRAPHENE_100_PERCENT) ''percentages'') (\<lambda>_.
    bindE (idx_get ''fba_accumulator'' (fba_accumulators db) fba_id) (\<lambda>fba.
    let fees = accumulated_fba_fees fba in
    if fees = 0 then Inr db
    else bindE (fba_is_configured fba db) (\<lambda>conf.
    if \<not> conf
    then bindE (reduce_core_supply fees db) (clear_fba fba_id)
    else
      let buyback_amount = wrap64 (uint (u128 fees * u128 (int buyback_pct) div u128 GRAPHENE_100_PERCENT));
          issuer_amount = wrap64 (uint (u128 fees * u128 (int issuer_pct) div u128 GRAPHENE_100_PERCENT))
      in bindE (safe_add buyback_amount issuer_amount) (\<lambda>x.
      bindE (fc_assert (x \<le> fees) ''buyback_amount + issuer_amount <= fba.accumulated_fba_fees'') (\<lambda>_.
      bindE (safe_sub fees x) (\<lambda>network_amount.
      bindE (ofOption (not_found ''designated_asset'') (designated_asset fba)) (\<lambda>da.
      bindE (get_asset db da) (\<lambda>dasset.
      bindE (if network_amount \<noteq> 0 then reduce_core_supply network_amount db else Inr db) (\<lambda>db.
      bindE (ofOption (not_found ''buyback_account'') (buyback_account dasset)) (\<lambda>bb.
      bindE (distribute_to bb fba_id buyback_amount db) (\<lambda>db.
      bindE (distribute_to (issuer dasset) fba_id issuer_amount db) (\<lambda>db.
      clear_fba fba_id db))))))))))))"

definition distribute_fba_balances :: "database \<Rightarrow> database exn" where
  "distribute_fba_balances db =
    bindE (split_fba_balance 0 2000 6000 2000 db) (\<lambda>db.
    bindE (split_fba_balance 1 2000 6000 2000 db) (\<lambda>db.
    split_fba_balance 2 2000 6000 2000 db))"

section \<open>The time of the next maintenance\<close>

definition next_maintenance :: "nat \<Rightarrow> time_point_sec \<Rightarrow> time_point_sec \<Rightarrow> time_point_sec \<Rightarrow> nat \<Rightarrow> time_point_sec" where
  "next_maintenance block_number block_time head_time old_time interval =
    (if old_time \<le> block_time
     then if block_number = 1 then ((block_time div interval) + 1) * interval mod 2 ^ 32
          else let y = (int head_time - int old_time) div int interval
               in nat ((int old_time + (y + 1) * int interval) mod 2 ^ 32)
     else old_time)"

section \<open>A budget hands out what it takes\<close>

lemma modify_dynamic_effect:
  assumes "modify_dynamic j f db = Inr db'" "db_ok db"
  obtains a d d' where "idx_find (assets db) j = Some a" "idx_find (asset_dynamic_data db) (dynamic_asset_data_id a) = Some d"
    "f d = Inr d'" "db' = db\<lparr>asset_dynamic_data := idx_put (asset_dynamic_data db) (dynamic_asset_data_id a) d'\<rparr>" "db_ok db'"
    "\<And>i. held i db' = held i db + (if i = j then accumulated_fees d' - accumulated_fees d + confidential_supply d' - confidential_supply d else 0)
      + (if i = 0 then fee_pool d' - fee_pool d else 0)"
    "\<And>i. supply_of i db' = supply_of i db + (if i = j then current_supply d' - current_supply d else 0)"
proof -
  from assms(1) obtain a d d' where a: "idx_find (assets db) j = Some a"
    and d: "idx_find (asset_dynamic_data db) (dynamic_asset_data_id a) = Some d" and f: "f d = Inr d'"
    and db': "db' = db\<lparr>asset_dynamic_data := idx_put (asset_dynamic_data db) (dynamic_asset_data_id a) d'\<rparr>"
    by (auto simp: modify_dynamic_def)
  show thesis using that [OF a d f db'] dynamic_put_effect [OF assms(2) a d db'] by blast
qed

text \<open>A step that only moves core money: by \<open>h\<close> in what is held and by \<open>s\<close> in the supply.\<close>

definition core_step :: "database \<Rightarrow> int \<Rightarrow> int \<Rightarrow> database \<Rightarrow> bool" where
  "core_step db h s db' \<longleftrightarrow> db_ok db' \<and> (\<forall>i. held i db' = held i db + (if i = 0 then h else 0))
    \<and> (\<forall>i. supply_of i db' = supply_of i db + (if i = 0 then s else 0))
    \<and> dynamic_properties db' = dynamic_properties db \<and> workers db' = workers db"

lemma core_stepD:
  "core_step db h s db' \<Longrightarrow> db_ok db'" "core_step db h s db' \<Longrightarrow> held i db' = held i db + (if i = 0 then h else 0)"
  "core_step db h s db' \<Longrightarrow> supply_of i db' = supply_of i db + (if i = 0 then s else 0)"
  "core_step db h s db' \<Longrightarrow> dynamic_properties db' = dynamic_properties db" "core_step db h s db' \<Longrightarrow> workers db' = workers db"
  by (simp_all add: core_step_def)

lemma core_step_refl: "db_ok db \<Longrightarrow> core_step db 0 0 db"
  by (simp add: core_step_def)

lemma core_step_trans: "core_step a h s b \<Longrightarrow> core_step b h' s' c \<Longrightarrow> core_step a (h + h') (s + s') c"
  by (auto simp: core_step_def)

lemma adjust_core_step:
  assumes "adjust_balance a (mk_asset x 0) db = Inr db'" "db_ok db"
  shows "core_step db x 0 db'"
proof -
  obtain t where t: "db' = db\<lparr>balances := t\<rparr>" using assms by (rule adjust_balance_effect) blast
  show ?thesis using adjust_balance_frame [OF assms]
    by (simp add: core_step_def books_def asset_part_def) (auto simp: t)
qed

lemma supply_core_step:
  assumes "modify_dynamic 0 (\<lambda>d. bindE (safe_sub (current_supply d) x) (\<lambda>s. Inr (d\<lparr>current_supply := s\<rparr>))) db = Inr db'" "db_ok db"
  shows "core_step db 0 (- x) db'"
  using assms by (rule modify_dynamic_effect) (auto simp: core_step_def)

lemma pay_worker_step:
  assumes "pay_worker x w db = Inr r" "db_ok db"
  shows "\<exists>h s. core_step db h s (snd r) \<and> h - s = x \<and> (s = 0 \<or> s = - x)"
proof (cases w)
  case (refund_worker_type b)
  then have "core_step db 0 (- x) (snd r)" using assms supply_core_step [OF _ assms(2), of x] by (auto simp: pay_worker_def)
  then show ?thesis by force
next
  case (burn_worker_type b)
  then have "core_step db x 0 (snd r)" using assms by (auto simp: pay_worker_def intro: adjust_core_step)
  then show ?thesis by force
next
  case (vesting_balance_worker_type v)
  then obtain b b' where b: "idx_find (vesting_balances db) v = Some b" "vb_deposit b (head_block_time db) (mk_asset x 0) = Inr b'"
    and r: "snd r = db\<lparr>vesting_balances := idx_put (vesting_balances db) v b'\<rparr>"
    using assms(1) by (auto simp: pay_worker_def)
  have o: "idx_ok (vesting_balances db)" using assms(2) by (rule db_okD)
  have "core_step db x 0 (snd r)"
    using assms(2) vb_deposit_part(1) [OF b(2)] by (auto simp: r core_step_def db_simps idx_sum_put [OF o b(1)] asset_part_def o db_ok_update(3))
  then show ?thesis by force
qed

text \<open>What the loop over the workers keeps: what was paid is gone from the budget and is on the books, and the supply never grows.\<close>

definition paying :: "share_type \<Rightarrow> database \<Rightarrow> share_type \<times> database \<Rightarrow> bool" where
  "paying b db r \<longleftrightarrow> db_ok (snd r) \<and> dynamic_properties (snd r) = dynamic_properties db
    \<and> (\<forall>i. books i (snd r) = books i db + (if i = 0 then b - fst r else 0))
    \<and> (0 \<le> b \<longrightarrow> 0 \<le> fst r)
    \<and> ((\<forall>p \<in> set (objs (workers db)). 0 \<le> requested_pay db (snd p)) \<longrightarrow>
        supply_of 0 (snd r) \<le> supply_of 0 db \<and> (\<forall>p \<in> set (objs (workers (snd r))). 0 \<le> requested_pay db (snd p)))"

lemma pay_one_worker_paying:
  assumes "paying b db r" "pay_one_worker i r = Inr r'"
  shows "paying b db r'"
proof (cases "fst r \<le> 0")
  case True
  then show ?thesis using assms by (simp add: pay_one_worker_def)
next
  case False
  let ?db = "snd r"
  obtain w :: worker_object and q where w: "idx_find (workers ?db) i = Some w"
    and q: "pay_worker (min (fst r) (requested_pay ?db w)) (worker w) ?db = Inr q"
    and r': "r' = (fst r - min (fst r) (requested_pay ?db w), (snd q)\<lparr>workers := idx_put (workers (snd q)) i (w\<lparr>worker := fst q\<rparr>)\<rparr>)"
    using assms(2) False by (auto simp: pay_one_worker_def Let_def)
  let ?x = "min (fst r) (requested_pay ?db w)"
  have ok: "db_ok ?db" and dp: "dynamic_properties ?db = dynamic_properties db" using assms(1) by (auto simp: paying_def)
  obtain h s where st: "core_step ?db h s (snd q)" and x: "h - s = ?x" "s = 0 \<or> s = - ?x"
    using pay_worker_step [OF q ok] by blast
  have wq: "workers (snd q) = workers ?db" using st by (rule core_stepD)
  have rp: "requested_pay ?db v = requested_pay db v" for v using dp by (simp add: requested_pay_def head_block_time_def)
  have ok': "db_ok (snd r')" using core_stepD(1) [OF st] by (simp add: r' db_ok_update(13) db_okD(16))
  have bk: "books j (snd r') = books j db + (if j = 0 then b - fst r' else 0)" for j
  proof -
    have "books j (snd r') = books j ?db + (if j = 0 then ?x else 0)"
      using core_stepD(2,3) [OF st, of j] x(1) by (simp add: r' books_def)
    then show ?thesis using assms(1) by (simp add: paying_def r')
  qed
  have sup: "supply_of 0 (snd r') \<le> supply_of 0 db \<and> (\<forall>p \<in> set (objs (workers (snd r'))). 0 \<le> requested_pay db (snd p))"
    if "\<forall>p \<in> set (objs (workers db)). 0 \<le> requested_pay db (snd p)"
  proof -
    have a: "supply_of 0 ?db \<le> supply_of 0 db" "\<forall>p \<in> set (objs (workers ?db)). 0 \<le> requested_pay db (snd p)"
      using assms(1) that by (auto simp: paying_def)
    then have "0 \<le> requested_pay db w" using idx_find_in [OF w] by auto
    then have "s \<le> 0" using x(2) False rp by (auto simp: min_def)
    moreover have "requested_pay db (w\<lparr>worker := fst q\<rparr>) = requested_pay db w" by (simp add: requested_pay_def Let_def)
    ultimately show ?thesis using a core_stepD(3) [OF st, of 0] \<open>0 \<le> requested_pay db w\<close> by (auto simp: r' wq dest!: objs_put_in)
  qed
  have "dynamic_properties (snd r') = dynamic_properties db" using dp core_stepD(4) [OF st] by (simp add: r')
  then show ?thesis using ok' bk sup unfolding paying_def by (auto simp: r')
qed

lemma pay_workers_paying: "pay_workers b db = Inr r \<Longrightarrow> db_ok db \<Longrightarrow> paying b db r"
  unfolding pay_workers_def
proof (erule foldE_invariant)
  show "db_ok db \<Longrightarrow> paying b db (b, db)" by (simp add: paying_def)
qed (rule pay_one_worker_paying)

lemma below_share:
  assumes "0 \<le> a" "a < 2 ^ 63" "w < u128 a"
  shows "0 \<le> wrap64 (uint w)" "wrap64 (uint w) < a"
proof -
  have "uint w < a" using assms uint_u128_small [of a] by (simp add: word_less_def)
  moreover from this have "wrap64 (uint w) = uint w" using assms(2) by (intro wrap64_id) simp_all
  ultimately show "0 \<le> wrap64 (uint w)" "wrap64 (uint w) < a" by simp_all
qed

text \<open>The budget never exceeds the reserve, the fees and the unspent budget it is taken from.\<close>

lemma budget_record_bounds:
  assumes "initialize_budget_record now db = Inr rec" "get_core db = Inr (a, d)"
    and "current_supply d \<le> max_supply (a_options a)" "0 \<le> accumulated_fees d" "0 \<le> witness_budget (dynamic_properties db)"
  shows "0 \<le> total_budget rec"
    "total_budget rec \<le> max_supply (a_options a) - current_supply d + accumulated_fees d + witness_budget (dynamic_properties db)"
    "from_accumulated_fees rec = accumulated_fees d" "from_unused_witness_budget rec = witness_budget (dynamic_properties db)"
proof -
  let ?R = "max_supply (a_options a) - current_supply d + accumulated_fees d + witness_budget (dynamic_properties db)"
  have "0 \<le> total_budget rec \<and> total_budget rec \<le> ?R \<and> from_accumulated_fees rec = accumulated_fees d
    \<and> from_unused_witness_budget rec = witness_budget (dynamic_properties db)"
  proof (cases "last_budget_time (dynamic_properties db) = 0 \<or> now \<le> last_budget_time (dynamic_properties db)")
    case True
    then show ?thesis using assms by (auto simp: initialize_budget_record_def reserved_def Let_def)
  next
    case False
    let ?c = "cycle_budget ?R (int (now - last_budget_time (dynamic_properties db)))"
    have rec: "total_budget rec = (if ?c < u128 ?R then wrap64 (uint ?c) else ?R)" "in_int64 ?R"
      "from_accumulated_fees rec = accumulated_fees d" "from_unused_witness_budget rec = witness_budget (dynamic_properties db)"
      using assms(1,2) False by (auto simp: initialize_budget_record_def reserved_def Let_def add.commute)
    have "0 \<le> ?R" "?R < 2 ^ 63" using assms(3,4,5) rec(2) by (simp_all add: in_int64_def)
    then show ?thesis using rec below_share [of ?R ?c] by auto
  qed
  then show "0 \<le> total_budget rec" "total_budget rec \<le> ?R" "from_accumulated_fees rec = accumulated_fees d"
    "from_unused_witness_budget rec = witness_budget (dynamic_properties db)" by auto
qed

lemma process_budget_cases:
  assumes "process_budget db = Inr db'"
  obtains rec wit funds wrk paid delta x y z db2 br where "initialize_budget_record (head_block_time db) db = Inr rec"
    "wit = min (witness_budget_of (parameters (global_properties db))
       (int (next_maintenance_time (dynamic_properties db)) - int (head_block_time db))) (total_budget rec)"
    "safe_sub (total_budget rec) wit = Inr funds"
    "wrk = worker_budget_of (parameters (global_properties db))
       (int (next_maintenance_time (dynamic_properties db)) - int (head_block_time db)) funds"
    "pay_workers wrk db = Inr paid" "safe_add wit wrk = Inr x" "safe_sub x (fst paid) = Inr y"
    "safe_sub y (from_accumulated_fees rec) = Inr z" "safe_sub z (from_unused_witness_budget rec) = Inr delta"
    "modify_dynamic 0 (\<lambda>d. bindE (safe_add (current_supply d) delta) (\<lambda>s.
          bindE (fc_assert (delta = wit + wrk - fst paid - accumulated_fees d - witness_budget (dynamic_properties (snd paid)))
            ''rec.supply_delta'') (\<lambda>_.
          Inr (d\<lparr>current_supply := s, accumulated_fees := 0\<rparr>)))) (snd paid) = Inr db2"
    "db' = db2\<lparr>dynamic_properties := (dynamic_properties db2)\<lparr>witness_budget := wit, last_budget_time := head_block_time db\<rparr>,
       budget_records := br\<rparr>"
  using assms unfolding process_budget_def Let_def bindE_eq_Inr sum.inject
  by (elim exE conjE) (rule that, assumption, rule refl, assumption, rule refl, assumption+, rule sym, simp)

lemma worker_budget_bounds:
  assumes "0 \<le> funds" "funds < 2 ^ 63"
  shows "0 \<le> worker_budget_of ps t funds" "worker_budget_of ps t funds \<le> funds"
  using assms below_share [OF assms] by (auto simp: worker_budget_of_def Let_def not_le less_imp_le)

text \<open>C18: The budget of a maintenance conserves: what it sets aside for witnesses, pays to workers and takes from the fees and
  the unspent budget changes the supply of the core asset by exactly as much as it changes what the chain holds, for every
  way a worker is paid; no other asset is touched. And it stays within the reserve: as long as the pay that workers request
  is not negative, the supply stays at or below the maximum supply of the core asset.\<close>

theorem process_budget_sound:
  assumes "process_budget db = Inr db'" "db_ok db" "get_core db = Inr (a, d)" "current_supply d \<le> max_supply (a_options a)"
    and "0 \<le> accumulated_fees d" "0 \<le> witness_budget (dynamic_properties db)"
    and "\<forall>p \<in> set (objs (workers db)). 0 \<le> requested_pay db (snd p)"
  shows "db_ok db' \<and> (\<forall>i. books i db' = books i db) \<and> supply_of 0 db' \<le> max_supply (a_options a)"
  using assms(1)
proof (rule process_budget_cases)
  fix rec wit funds wrk paid delta x y z db2 br
  assume rec: "initialize_budget_record (head_block_time db) db = Inr rec"
    and wit: "wit = min (witness_budget_of (parameters (global_properties db))
       (int (next_maintenance_time (dynamic_properties db)) - int (head_block_time db))) (total_budget rec)"
    and funds: "safe_sub (total_budget rec) wit = Inr funds"
    and wrk: "wrk = worker_budget_of (parameters (global_properties db))
       (int (next_maintenance_time (dynamic_properties db)) - int (head_block_time db)) funds"
    and paid: "pay_workers wrk db = Inr paid" and x: "safe_add wit wrk = Inr x" "safe_sub x (fst paid) = Inr y"
    "safe_sub y (from_accumulated_fees rec) = Inr z" "safe_sub z (from_unused_witness_budget rec) = Inr delta"
    and db2: "modify_dynamic 0 (\<lambda>d. bindE (safe_add (current_supply d) delta) (\<lambda>s.
          bindE (fc_assert (delta = wit + wrk - fst paid - accumulated_fees d - witness_budget (dynamic_properties (snd paid)))
            ''rec.supply_delta'') (\<lambda>_.
          Inr (d\<lparr>current_supply := s, accumulated_fees := 0\<rparr>)))) (snd paid) = Inr db2"
    and db': "db' = db2\<lparr>dynamic_properties := (dynamic_properties db2)\<lparr>witness_budget := wit, last_budget_time := head_block_time db\<rparr>,
       budget_records := br\<rparr>"
  note b = budget_record_bounds [OF rec assms(3,4,5,6)]
  note p = pay_workers_paying [OF paid assms(2), unfolded paying_def]
  have delta: "delta = wit + wrk - fst paid - accumulated_fees d - witness_budget (dynamic_properties db)" using x b(3,4) by simp
  have fs: "0 \<le> funds" "funds < 2 ^ 63" "funds = total_budget rec - wit" using funds wit by (simp_all add: in_int64_def)
  have w: "0 \<le> wrk" "wrk \<le> funds" using worker_budget_bounds [OF fs(1,2)] by (simp_all add: wrk)
  have s: "supply_of 0 db = current_supply d" using assms(3) by (auto simp: get_core_def supply_of_def dyn_field_def)
  have ok1: "db_ok (snd paid)" using p by blast
  from db2 ok1 show ?thesis
  proof (rule modify_dynamic_effect)
    fix a' e e' assume e: "(bindE (safe_add (current_supply e) delta) (\<lambda>s.
          bindE (fc_assert (delta = wit + wrk - fst paid - accumulated_fees e - witness_budget (dynamic_properties (snd paid)))
            ''rec.supply_delta'') (\<lambda>_. Inr (e\<lparr>current_supply := s, accumulated_fees := 0\<rparr>)))) = Inr e'"
      and up: "db2 = (snd paid)\<lparr>asset_dynamic_data := idx_put (asset_dynamic_data (snd paid)) (dynamic_asset_data_id a') e'\<rparr>"
      and ok2: "db_ok db2"
      and h: "\<And>i. held i db2 = held i (snd paid) + (if i = 0 then accumulated_fees e' - accumulated_fees e + confidential_supply e'
        - confidential_supply e else 0) + (if i = 0 then fee_pool e' - fee_pool e else 0)"
      and sp: "\<And>i. supply_of i db2 = supply_of i (snd paid) + (if i = 0 then current_supply e' - current_supply e else 0)"
    have e': "e' = e\<lparr>current_supply := current_supply e + delta, accumulated_fees := 0\<rparr>"
      and eq: "delta = wit + wrk - fst paid - accumulated_fees e - witness_budget (dynamic_properties (snd paid))" using e by auto
    have dp: "dynamic_properties db2 = dynamic_properties db" "dynamic_properties (snd paid) = dynamic_properties db" using p by (simp_all add: up)
    have "books i db' = books i db" for i
    proof -
      have "held i db' = held i db2 + (if i = 0 then wit - witness_budget (dynamic_properties db) else 0)" "supply_of i db' = supply_of i db2"
        by (simp_all add: db' db_simps dp)
      moreover have "held i (snd paid) - supply_of i (snd paid) = held i db - supply_of i db + (if i = 0 then wrk - fst paid else 0)"
        using p by (simp add: books_def)
      ultimately show ?thesis using h [of i] sp [of i] eq by (cases "i = 0") (auto simp: books_def e' dp(2))
    qed
    moreover have "supply_of 0 db' \<le> max_supply (a_options a)"
    proof -
      have "supply_of 0 db' = supply_of 0 (snd paid) + delta" using sp [of 0] by (simp add: db' e')
      also have "\<dots> \<le> current_supply d + delta" using p assms(7) s by simp
      also have "\<dots> \<le> max_supply (a_options a)" using delta b(2) w fs(3) p by simp
      finally show ?thesis .
    qed
    moreover have "db_ok db'" using ok2 by (simp add: db' db_ok_update)
    ultimately show ?thesis by blast
  qed
qed

text \<open>A maintenance a day after the last budget, with a worker of each kind.\<close>

definition demo_worker :: "worker_type \<Rightarrow> worker_object" where
  "demo_worker w = \<lparr>worker_account = 5, work_begin_date = 0, work_end_date = 2000000000, daily_pay = 100, worker = w,
     vote_for = 0, vote_against = 0, total_votes_for = 1, total_votes_against = 0\<rparr>"

definition demo_budget :: database where
  "demo_budget = demo_chain\<lparr>workers := idx_of [demo_worker (refund_worker_type 0), demo_worker (burn_worker_type 0)],
     dynamic_properties := (dynamic_properties demo_chain)\<lparr>last_budget_time := 1599913600, next_maintenance_time := 1600086400,
       witness_budget := 50\<rparr>\<rparr>"

lemma demo_budget_runs: "\<exists>db'. process_budget demo_budget = Inr db' \<and> witness_budget (dynamic_properties db') = 17280000000"
  unfolding process_budget_def
  by (simp add: demo_budget_def demo_chain_def demo_worker_def demo_params_def demo_asset_def demo_dyn_def idx_of_def upt_rec
    initialize_budget_record_def get_core_def get_asset_def idx_get_def idx_find_def reserved_def cycle_budget_def u128_def wrap64_def
    GRAPHENE_CORE_ASSET_CYCLE_RATE_def GRAPHENE_CORE_ASSET_CYCLE_RATE_BITS_def GRAPHENE_MAX_SHARE_SUPPLY_def
    safe_sub_def safe_add_def safe_int64_def in_int64_def witness_budget_of_def worker_budget_of_def head_block_time_def
    pay_workers_def active_workers_def worker_is_active_def approving_stake_def pay_one_worker_def requested_pay_def pay_worker_def
    modify_dynamic_def idx_modify_def idx_put_def adjust_balance_def idx_find_by_def balance_key_def idx_create_def
    GRAPHENE_NULL_ACCOUNT_def Let_def drop_bit_eq_div word_less_def word_le_def
    del: bindE_eq_Inr cong: bindE_weak_cong)

lemma demo_budget_ok:
  "db_ok demo_budget" "get_core demo_budget = Inr (demo_asset 0, demo_dyn 1000)"
  "\<forall>p \<in> set (objs (workers demo_budget)). 0 \<le> requested_pay demo_budget (snd p)"
proof -
  show "db_ok demo_budget"
    unfolding demo_budget_def by (intro db_ok_update(13,20) demo_chain_ok) simp
  show "get_core demo_budget = Inr (demo_asset 0, demo_dyn 1000)"
    by (simp add: get_core_def demo_budget_def demo_chain_def get_asset_def idx_get_def idx_find_def idx_of_def upt_rec demo_asset_def)
  show "\<forall>p \<in> set (objs (workers demo_budget)). 0 \<le> requested_pay demo_budget (snd p)"
    by (simp add: requested_pay_def demo_budget_def demo_chain_def idx_of_def demo_worker_def head_block_time_def)
qed

theorem process_budget_sound_witness:
  "\<exists>db'. process_budget demo_budget = Inr db' \<and> witness_budget (dynamic_properties db') = 17280000000
    \<and> db_ok db' \<and> books 0 db' = books 0 demo_budget \<and> supply_of 0 db' \<le> GRAPHENE_MAX_SHARE_SUPPLY"
proof -
  obtain db' where db': "process_budget demo_budget = Inr db'" "witness_budget (dynamic_properties db') = 17280000000"
    using demo_budget_runs by blast
  have "current_supply (demo_dyn 1000) \<le> max_supply (a_options (demo_asset 0))" "0 \<le> accumulated_fees (demo_dyn 1000)"
    "0 \<le> witness_budget (dynamic_properties demo_budget)" "max_supply (a_options (demo_asset 0)) = GRAPHENE_MAX_SHARE_SUPPLY"
    by (simp_all add: demo_dyn_def demo_asset_def demo_budget_def GRAPHENE_MAX_SHARE_SUPPLY_def)
  then show ?thesis using process_budget_sound [OF db'(1) demo_budget_ok(1,2) _ _ _ demo_budget_ok(3)] db' by auto
qed

section \<open>Fee backed assets\<close>

lemma clear_fba_effect:
  assumes "clear_fba k db = Inr db'" "db_ok db" "idx_find (fba_accumulators db) k = Some f"
  shows "db_ok db'" "books i db' = books i db - (if i = 0 then accumulated_fba_fees f else 0)"
proof -
  have o: "idx_ok (fba_accumulators db)" using assms(2) by (rule db_okD)
  have db': "db' = db\<lparr>fba_accumulators := idx_put (fba_accumulators db) k (f\<lparr>accumulated_fba_fees := 0\<rparr>)\<rparr>"
    using assms(1,3) by (auto simp: clear_fba_def)
  show "db_ok db'" using assms(2) o by (simp add: db' db_ok_update(17))
  show "books i db' = books i db - (if i = 0 then accumulated_fba_fees f else 0)"
    by (simp add: db' books_def db_simps idx_sum_put [OF o assms(3)] fba_amount_def)
qed

lemma distribute_to_step:
  assumes "distribute_to a k x db = Inr db'" "db_ok db"
  shows "core_step db x 0 db'" "fba_accumulators db' = fba_accumulators db"
proof -
  have "core_step db x 0 db' \<and> fba_accumulators db' = fba_accumulators db"
  proof (cases "x = 0")
    case True
    then show ?thesis using assms by (simp add: distribute_to_def core_step_refl)
  next
    case False
    then obtain db1 where db1: "adjust_balance a (mk_asset x 0) db = Inr db1" "db' = push_applied_operation (fba_distribute_operation a k x) db1"
      using assms(1) by (auto simp: distribute_to_def)
    obtain t where "db1 = db\<lparr>balances := t\<rparr>" using db1(1) assms(2) by (rule adjust_balance_effect) blast
    then show ?thesis using adjust_core_step [OF db1(1) assms(2)]
      by (simp add: db1(2) push_applied_operation_def core_step_def db_ok_update(11))
  qed
  then show "core_step db x 0 db'" "fba_accumulators db' = fba_accumulators db" by auto
qed

lemma reduce_core_supply_step:
  assumes "reduce_core_supply x db = Inr db'" "db_ok db"
  shows "core_step db 0 (- x) db'" "fba_accumulators db' = fba_accumulators db"
  using supply_core_step [OF assms(1) [unfolded reduce_core_supply_def] assms(2)] assms(1)
  by (auto simp: reduce_core_supply_def modify_dynamic_def)

lemma split_fba_conserves:
  assumes "split_fba_balance k np bp ip db = Inr db'" "db_ok db"
  shows "db_ok db' \<and> books i db' = books i db"
proof -
  obtain f where f: "idx_find (fba_accumulators db) k = Some f" using assms(1) by (auto simp: split_fba_balance_def)
  let ?fees = "accumulated_fba_fees f"
  consider (none) "db' = db" | (unconf) db1 where "reduce_core_supply ?fees db = Inr db1" "clear_fba k db1 = Inr db'"
    | (conf) b s bb iss db1 db2 db3 where "(if ?fees - (b + s) \<noteq> 0 then reduce_core_supply (?fees - (b + s)) db else Inr db) = (Inr db1 :: database exn)"
      "distribute_to bb k b db1 = Inr db2" "distribute_to iss k s db2 = Inr db3" "clear_fba k db3 = Inr db'"
    using assms(1) f unfolding split_fba_balance_def by (fastforce simp: Let_def split: if_splits)
  then show ?thesis
  proof cases
    case none
    then show ?thesis using assms(2) by simp
  next
    case unconf
    note r = reduce_core_supply_step [OF unconf(1) assms(2)]
    have "idx_find (fba_accumulators db1) k = Some f" using f r(2) by simp
    note c = clear_fba_effect [OF unconf(2) core_stepD(1) [OF r(1)] this]
    show ?thesis using c(1) c(2) [of i] core_stepD(2,3) [OF r(1), of i] by (simp add: books_def)
  next
    case conf
    have r: "core_step db 0 (- (?fees - (b + s))) db1 \<and> fba_accumulators db1 = fba_accumulators db"
    proof (cases "?fees - (b + s) = 0")
      case True
      then show ?thesis using conf(1) core_step_refl [OF assms(2)] by simp
    next
      case False
      then show ?thesis using conf(1) reduce_core_supply_step [OF _ assms(2), of "?fees - (b + s)" db1] by presburger
    qed
    note d1 = distribute_to_step [OF conf(2) core_stepD(1) [OF conjunct1 [OF r]]]
    note d2 = distribute_to_step [OF conf(3) core_stepD(1) [OF d1(1)]]
    have c: "core_step db (0 + b + s) (- (?fees - (b + s)) + 0 + 0) db3"
      using core_step_trans [OF core_step_trans [OF conjunct1 [OF r] d1(1)] d2(1)] .
    have "idx_find (fba_accumulators db3) k = Some f" using f r d1(2) d2(2) by simp
    note e = clear_fba_effect [OF conf(4) core_stepD(1) [OF c] this]
    show ?thesis using e(1) e(2) [of i] core_stepD(2,3) [OF c, of i] by (auto simp: books_def)
  qed
qed

lemma pay_fba_fee_books:
  assumes "pay_fba_fee False k fs db = Inr db'" "db_ok db"
  shows "db_ok db'" "books i db' = books i db + asset_part i (mk_asset (core_fee_paid fs) 0)"
proof -
  from assms(1) obtain f conf where f: "idx_find (fba_accumulators db) k = Some f" and c: "fba_is_configured f db = Inr conf"
    by (auto simp: pay_fba_fee_def)
  have o: "idx_ok (fba_accumulators db)" using assms(2) by (rule db_okD)
  have "db_ok db' \<and> books i db' = books i db + asset_part i (mk_asset (core_fee_paid fs) 0)"
  proof (cases conf)
    case True
    then have db': "db' = db\<lparr>fba_accumulators := idx_put (fba_accumulators db) k (f\<lparr>accumulated_fba_fees := accumulated_fba_fees f + core_fee_paid fs\<rparr>)\<rparr>"
      using assms(1) f c by (auto simp: pay_fba_fee_def)
    show ?thesis using assms(2) o
      by (simp add: db' db_ok_update(17) books_def db_simps idx_sum_put [OF o f] fba_amount_def asset_part_def)
  next
    case False
    then have "pay_fee False fs db = Inr db'" using assms(1) f c by (auto simp: pay_fba_fee_def)
    then have "modify_stats (fee_paying_account fs)
       (stats_pay_fee (core_fee_paid fs) (cashback_vesting_threshold (parameters (global_properties db)))) db = Inr db'"
      by (simp add: pay_fee_def)
    then show ?thesis using assms(2) by (rule modify_stats_effect) (simp add: stats_pay_fee_amount)
  qed
  then show "db_ok db'" "books i db' = books i db + asset_part i (mk_asset (core_fee_paid fs) 0)" by auto
qed

lemma distribute_fba_conserves:
  assumes "distribute_fba_balances db = Inr db'" "db_ok db"
  shows "db_ok db' \<and> books i db' = books i db"
proof -
  obtain a b where "split_fba_balance 0 2000 6000 2000 db = Inr a" "split_fba_balance 1 2000 6000 2000 a = Inr b"
    "split_fba_balance 2 2000 6000 2000 b = Inr db'" using assms(1) by (auto simp: distribute_fba_balances_def)
  then show ?thesis using split_fba_conserves assms(2) by metis
qed

section \<open>The next maintenance\<close>

text \<open>The next maintenance lies in the future and is the first such point of the grid: with a positive interval and times that
  stay within 32 bits, it is after the time of the block, no further away than one interval, and a whole number of intervals
  after the old time (or, for the first block, after the epoch).\<close>

theorem next_maintenance_is_first:
  assumes "0 < interval" "old \<le> t" "t + interval < 2 ^ 32"
  shows "t < next_maintenance n t t old interval \<and> next_maintenance n t t old interval \<le> t + interval
    \<and> (if n = 1 then interval dvd next_maintenance n t t old interval
       else interval dvd next_maintenance n t t old interval - old \<and> old < next_maintenance n t t old interval)"
proof -
  define b where "b = (if n = 1 then 0 else old)"
  define k where "k = (t - b) div interval"
  have b: "b \<le> t" using assms(2) by (simp add: b_def)
  note k = k_def
  have "k * interval \<le> t - b" unfolding k by (rule div_times_less_eq_dividend)
  then have le: "b + k * interval \<le> t" using b by linarith
  have "t - b < (k + 1) * interval" using assms(1) dividend_less_times_div [of interval "t - b"] by (simp add: k algebra_simps)
  then have gt: "t < b + (k + 1) * interval" using b by linarith
  have up: "b + (k + 1) * interval \<le> t + interval" using le by simp
  have "next_maintenance n t t old interval = b + (k + 1) * interval"
  proof (cases "n = 1")
    case True
    then have "(t div interval + 1) * interval < 2 ^ 32" using le_less_trans [OF up assms(3)] by (simp add: k_def b_def)
    then show ?thesis using True assms(2) by (simp add: next_maintenance_def k_def b_def del: distrib_right_numeral add_mult_distrib)
  next
    case False
    have "(int t - int old) div int interval = int k" using False assms(2) by (simp add: k_def b_def of_nat_diff zdiv_int)
    then have "next_maintenance n t t old interval = nat (int (old + (k + 1) * interval) mod 2 ^ 32)"
      using False assms(2) by (simp add: next_maintenance_def Let_def algebra_simps)
    moreover have "nat (int x mod 2 ^ 32) = x mod 2 ^ 32" for x by (simp add: nat_mod_as_int)
    moreover have "old + (k + 1) * interval < 2 ^ 32" using le_less_trans [OF up assms(3)] False by (simp add: b_def)
    ultimately show ?thesis using False by (simp only: b_def if_False mod_less)
  qed
  then show ?thesis using gt up assms(1,2) by (auto simp: b_def)
qed

theorem next_maintenance_is_first_witness:
  "next_maintenance 100 1600000000 1600000000 1599900000 86400 = 1600072800 \<and> (1600000000 :: nat) < 1600072800"
  using next_maintenance_is_first [of 86400 1599900000 1600000000 100] by (simp add: next_maintenance_def)

end
