(* ===== verification/Transfers.thy ===== *)
theory Transfers
  imports Budget MarketEvaluator
begin

text \<open>
  The operations that move funds between accounts and the places that hold funds for them: transfers
  (\<^verbatim>\<open>transfer_evaluator.cpp\<close>), vesting balances (\<^verbatim>\<open>vesting_balance_evaluator.cpp\<close>), withdraw permissions
  (\<^verbatim>\<open>withdraw_permission_evaluator.cpp\<close>) and balances of the genesis block (\<^verbatim>\<open>balance_evaluator.cpp\<close>).
  Memos have no effect and are left out; the addresses of a key are a function.
\<close>

definition assertE :: "bool exn \<Rightarrow> string \<Rightarrow> unit exn" where
  "assertE m msg = bindE m (\<lambda>c. fc_assert c msg)"

definition graphene_assert :: "bool \<Rightarrow> string \<Rightarrow> unit exn" where
  "graphene_assert c e = (if c then Inr () else Inl (chain_exception e))"

definition move_balance :: "account_id_type \<Rightarrow> account_id_type \<Rightarrow> asset \<Rightarrow> database \<Rightarrow> database exn" where
  "move_balance a b x db = bindE (asset_neg x) (\<lambda>n. bindE (adjust_balance a n db) (adjust_balance b x))"

section \<open>Transfers\<close>

record transfer_operation =
  tr_fee :: asset
  tr_from :: account_id_type
  tr_to :: account_id_type
  tr_amount :: asset

definition transfer_validate :: "transfer_operation \<Rightarrow> unit exn" where
  "transfer_validate op =
    bindE (fc_assert (0 \<le> amount (tr_fee op)) ''fee.amount >= 0'') (\<lambda>_.
    bindE (fc_assert (tr_from op \<noteq> tr_to op) ''from != to'') (\<lambda>_.
    fc_assert (0 < amount (tr_amount op)) ''amount.amount > 0''))"

definition transfer_evaluate :: "transfer_operation \<Rightarrow> database \<Rightarrow> unit exn" where
  "transfer_evaluate op db =
    bindE (get_account db (tr_from op)) (\<lambda>from_account.
    bindE (get_account db (tr_to op)) (\<lambda>to_account.
    bindE (get_asset db (asset_id (tr_amount op))) (\<lambda>ast.
    bindE (graphene_assert (is_authorized_asset db from_account (asset_id (tr_amount op)) ast) ''transfer_from_account_not_whitelisted'') (\<lambda>_.
    bindE (graphene_assert (is_authorized_asset db to_account (asset_id (tr_amount op)) ast) ''transfer_to_account_not_whitelisted'') (\<lambda>_.
    bindE (if is_transfer_restricted ast
           then graphene_assert (tr_from op = issuer ast \<or> tr_to op = issuer ast) ''transfer_restricted_transfer_asset''
           else Inr ()) (\<lambda>_.
    fc_assert (amount (tr_amount op) \<le> amount (get_balance db (tr_from op) (asset_id (tr_amount op)))) ''Insufficient Balance''))))))"

definition transfer_apply :: "transfer_operation \<Rightarrow> database \<Rightarrow> database exn" where
  "transfer_apply op db = move_balance (tr_from op) (tr_to op) (tr_amount op) db"

record override_transfer_operation =
  ot_fee :: asset
  ot_issuer :: account_id_type
  ot_from :: account_id_type
  ot_to :: account_id_type
  ot_amount :: asset

definition override_transfer_validate :: "override_transfer_operation \<Rightarrow> unit exn" where
  "override_transfer_validate op =
    bindE (fc_assert (0 \<le> amount (ot_fee op)) ''fee.amount >= 0'') (\<lambda>_.
    bindE (fc_assert (ot_from op \<noteq> ot_to op) ''from != to'') (\<lambda>_.
    bindE (fc_assert (0 < amount (ot_amount op)) ''amount.amount > 0'') (\<lambda>_.
    fc_assert (ot_issuer op \<noteq> ot_from op) ''issuer != from'')))"

definition override_transfer_evaluate :: "override_transfer_operation \<Rightarrow> database \<Rightarrow> unit exn" where
  "override_transfer_evaluate op db =
    bindE (get_asset db (asset_id (ot_amount op))) (\<lambda>ast.
    bindE (graphene_assert (can_override ast) ''override_transfer_not_permitted'') (\<lambda>_.
    bindE (fc_assert (issuer ast = ot_issuer op) ''asset_type.issuer == op.issuer'') (\<lambda>_.
    bindE (get_account db (ot_from op)) (\<lambda>from_account.
    bindE (get_account db (ot_to op)) (\<lambda>to_account.
    bindE (fc_assert (is_authorized_asset db to_account (asset_id (ot_amount op)) ast) ''to_account'') (\<lambda>_.
    bindE (fc_assert (is_authorized_asset db from_account (asset_id (ot_amount op)) ast) ''from_account'') (\<lambda>_.
    fc_assert (amount (ot_amount op) \<le> amount (get_balance db (ot_from op) (asset_id (ot_amount op)))) ''balance'')))))))"

definition override_transfer_apply :: "override_transfer_operation \<Rightarrow> database \<Rightarrow> database exn" where
  "override_transfer_apply op db = move_balance (ot_from op) (ot_to op) (ot_amount op) db"

section \<open>Vesting balances\<close>

datatype vesting_policy_initializer =
  linear_vesting_policy_initializer time_point_sec nat nat | cdd_vesting_policy_initializer time_point_sec nat

record vesting_balance_create_operation =
  vbc_fee :: asset
  vbc_creator :: account_id_type
  vbc_owner :: account_id_type
  vbc_amount :: asset
  vbc_policy :: vesting_policy_initializer

definition vesting_balance_create_validate :: "vesting_balance_create_operation \<Rightarrow> unit exn" where
  "vesting_balance_create_validate op =
    bindE (fc_assert (0 \<le> amount (vbc_fee op)) ''fee.amount >= 0'') (\<lambda>_.
    fc_assert (0 < amount (vbc_amount op)) ''amount.amount > 0'')"

definition vesting_balance_create_evaluate :: "vesting_balance_create_operation \<Rightarrow> database \<Rightarrow> unit exn" where
  "vesting_balance_create_evaluate op db =
    bindE (get_account db (vbc_creator op)) (\<lambda>_.
    bindE (get_account db (vbc_owner op)) (\<lambda>_.
    bindE (fc_assert (0 < amount (vbc_amount op)) ''op.amount.amount > 0'') (\<lambda>_.
    bindE (assertE (asset_ge (get_balance db (vbc_creator op) (asset_id (vbc_amount op))) (vbc_amount op)) ''balance'') (\<lambda>_.
    bindE (get_asset db (asset_id (vbc_amount op))) (\<lambda>ast.
    fc_assert (\<not> is_transfer_restricted ast) ''!op.amount.asset_id(d).is_transfer_restricted()'')))))"

definition init_policy :: "vesting_policy_initializer \<Rightarrow> share_type \<Rightarrow> time_point_sec \<Rightarrow> vesting_policy" where
  "init_policy i init_balance now =
    (case i of
       linear_vesting_policy_initializer start cliff duration \<Rightarrow>
         Linear \<lparr>begin_timestamp = start, vesting_cliff_seconds = cliff, vesting_duration_seconds = duration, begin_balance = init_balance\<rparr>
     | cdd_vesting_policy_initializer start secs \<Rightarrow>
         Cdd \<lparr>vesting_seconds = secs, coin_seconds_earned = 0, start_claim = start, coin_seconds_earned_last_update = now\<rparr>)"

definition vesting_balance_create_apply :: "vesting_balance_create_operation \<Rightarrow> database \<Rightarrow> (nat \<times> database) exn" where
  "vesting_balance_create_apply op db =
    bindE (assertE (asset_ge (get_balance db (vbc_creator op) (asset_id (vbc_amount op))) (vbc_amount op)) ''balance'') (\<lambda>_.
    bindE (asset_neg (vbc_amount op)) (\<lambda>n.
    bindE (adjust_balance (vbc_creator op) n db) (\<lambda>db.
    Inr (next_id (vesting_balances db),
      db\<lparr>vesting_balances := idx_create (vesting_balances db) \<lparr>vb_owner = vbc_owner op, vb_balance = vbc_amount op,
        vb_policy = init_policy (vbc_policy op) (amount (vbc_amount op)) (head_block_time db)\<rparr>\<rparr>))))"

record vesting_balance_withdraw_operation =
  vbw_fee :: asset
  vbw_vesting_balance :: vesting_balance_id_type
  vbw_owner :: account_id_type
  vbw_amount :: asset

definition vesting_balance_withdraw_validate :: "vesting_balance_withdraw_operation \<Rightarrow> unit exn" where
  "vesting_balance_withdraw_validate op =
    bindE (fc_assert (0 \<le> amount (vbw_fee op)) ''fee.amount >= 0'') (\<lambda>_.
    fc_assert (0 < amount (vbw_amount op)) ''amount.amount > 0'')"

definition vesting_balance_withdraw_evaluate :: "vesting_balance_withdraw_operation \<Rightarrow> database \<Rightarrow> unit exn" where
  "vesting_balance_withdraw_evaluate op db =
    bindE (idx_get ''vesting_balance'' (vesting_balances db) (vbw_vesting_balance op)) (\<lambda>vbo.
    bindE (fc_assert (vbw_owner op = vb_owner vbo) ''op.owner == vbo.owner'') (\<lambda>_.
    bindE (assertE (vb_is_withdraw_allowed vbo (head_block_time db) (vbw_amount op)) ''vbo.is_withdraw_allowed( now, op.amount )'') (\<lambda>_.
    bindE (assertE (asset_le (vbw_amount op) (vb_balance vbo)) ''op.amount <= vbo.balance'') (\<lambda>_.
    bindE (get_account db (vbw_owner op)) (\<lambda>_. Inr ())))))"

definition vesting_balance_withdraw_apply :: "vesting_balance_withdraw_operation \<Rightarrow> database \<Rightarrow> database exn" where
  "vesting_balance_withdraw_apply op db =
    bindE (idx_modify ''vesting_balance'' (vesting_balances db) (vbw_vesting_balance op)
             (\<lambda>v. vb_withdraw v (head_block_time db) (vbw_amount op))) (\<lambda>t.
    adjust_balance (vbw_owner op) (vbw_amount op) (db\<lparr>vesting_balances := t\<rparr>))"

section \<open>Withdraw permissions\<close>

definition HARDFORK_23_TIME :: nat where "HARDFORK_23_TIME = 1512747600"

definition period_end :: "time_point_sec \<Rightarrow> nat \<Rightarrow> nat \<Rightarrow> time_point_sec" where
  "period_end start periods secs = (start + periods * secs mod 2 ^ 32) mod 2 ^ 32"

definition available_this_period :: "withdraw_permission_object \<Rightarrow> time_point_sec \<Rightarrow> asset exn" where
  "available_this_period p current_time =
    (if (period_start_time p + withdrawal_period_sec p) mod 2 ^ 32 \<le> current_time then Inr (withdrawal_limit p)
     else bindE (if claimed_this_period p < amount (withdrawal_limit p)
                 then safe_sub (amount (withdrawal_limit p)) (claimed_this_period p) else Inr 0) (\<lambda>x.
          Inr (mk_asset x (asset_id (withdrawal_limit p)))))"

record withdraw_permission_create_operation =
  wpc_fee :: asset
  wpc_withdraw_from_account :: account_id_type
  wpc_authorized_account :: account_id_type
  wpc_withdrawal_limit :: asset
  wpc_withdrawal_period_sec :: nat
  wpc_periods_until_expiration :: nat
  wpc_period_start_time :: time_point_sec

definition withdraw_permission_create_validate :: "withdraw_permission_create_operation \<Rightarrow> unit exn" where
  "withdraw_permission_create_validate op =
    bindE (fc_assert (0 \<le> amount (wpc_fee op)) ''fee.amount >= 0'') (\<lambda>_.
    bindE (fc_assert (wpc_withdraw_from_account op \<noteq> wpc_authorized_account op) ''withdraw_from_account != authorized_account'') (\<lambda>_.
    bindE (fc_assert (0 < amount (wpc_withdrawal_limit op)) ''withdrawal_limit.amount > 0'') (\<lambda>_.
    bindE (fc_assert (0 < wpc_withdrawal_period_sec op) ''withdrawal_period_sec > 0'') (\<lambda>_.
    fc_assert (0 < wpc_periods_until_expiration op) ''periods_until_expiration > 0''))))"

definition withdraw_permission_create_evaluate :: "withdraw_permission_create_operation \<Rightarrow> database \<Rightarrow> unit exn" where
  "withdraw_permission_create_evaluate op db =
    bindE (fc_assert (idx_find (accounts db) (wpc_withdraw_from_account op) \<noteq> None) ''withdraw_from_account'') (\<lambda>_.
    bindE (fc_assert (idx_find (accounts db) (wpc_authorized_account op) \<noteq> None) ''authorized_account'') (\<lambda>_.
    bindE (fc_assert (idx_find (assets db) (asset_id (wpc_withdrawal_limit op)) \<noteq> None) ''withdrawal_limit.asset_id'') (\<lambda>_.
    bindE (fc_assert (head_block_time db < wpc_period_start_time op) ''op.period_start_time > d.head_block_time()'') (\<lambda>_.
    bindE (fc_assert (head_block_time db < period_end (wpc_period_start_time op) (wpc_periods_until_expiration op) (wpc_withdrawal_period_sec op))
       ''op.period_start_time + op.periods_until_expiration * op.withdrawal_period_sec > d.head_block_time()'') (\<lambda>_.
    fc_assert (block_interval (parameters (global_properties db)) \<le> wpc_withdrawal_period_sec op) ''withdrawal_period_sec >= block_interval'')))))"

definition withdraw_permission_create_apply :: "withdraw_permission_create_operation \<Rightarrow> database \<Rightarrow> nat \<times> database" where
  "withdraw_permission_create_apply op db =
    (next_id (withdraw_permissions db),
     db\<lparr>withdraw_permissions := idx_create (withdraw_permissions db) \<lparr>withdraw_from_account = wpc_withdraw_from_account op,
       authorized_account = wpc_authorized_account op, withdrawal_limit = wpc_withdrawal_limit op,
       withdrawal_period_sec = wpc_withdrawal_period_sec op, period_start_time = wpc_period_start_time op,
       wp_expiration = period_end (wpc_period_start_time op) (wpc_periods_until_expiration op) (wpc_withdrawal_period_sec op),
       claimed_this_period = 0\<rparr>\<rparr>)"

record withdraw_permission_claim_operation =
  wpl_fee :: asset
  wpl_withdraw_permission :: nat
  wpl_withdraw_from_account :: account_id_type
  wpl_withdraw_to_account :: account_id_type
  wpl_amount_to_withdraw :: asset

definition withdraw_permission_claim_validate :: "withdraw_permission_claim_operation \<Rightarrow> unit exn" where
  "withdraw_permission_claim_validate op =
    bindE (fc_assert (wpl_withdraw_to_account op \<noteq> wpl_withdraw_from_account op) ''withdraw_to_account != withdraw_from_account'') (\<lambda>_.
    bindE (fc_assert (0 < amount (wpl_amount_to_withdraw op)) ''amount_to_withdraw.amount > 0'') (\<lambda>_.
    fc_assert (0 \<le> amount (wpl_fee op)) ''fee.amount >= 0''))"

text \<open>The checks of a claim that concern the permission, and what a claim does to it.\<close>

definition permit_allows :: "withdraw_permission_object \<Rightarrow> time_point_sec \<Rightarrow> asset \<Rightarrow> unit exn" where
  "permit_allows permit now x =
    bindE (if HARDFORK_23_TIME \<le> now then fc_assert (period_start_time permit \<le> now) ''permit.period_start_time <= head_block_time''
           else Inr ()) (\<lambda>_.
    assertE (bindE (available_this_period permit now) (asset_le x)) ''op.amount_to_withdraw <= permit.available_this_period( head_block_time )'')"

definition withdraw_permission_claim_evaluate :: "withdraw_permission_claim_operation \<Rightarrow> database \<Rightarrow> unit exn" where
  "withdraw_permission_claim_evaluate op db =
    bindE (idx_get ''withdraw_permission'' (withdraw_permissions db) (wpl_withdraw_permission op)) (\<lambda>permit.
    bindE (fc_assert (head_block_time db < wp_expiration permit) ''permit.expiration > head_block_time'') (\<lambda>_.
    bindE (fc_assert (authorized_account permit = wpl_withdraw_to_account op) ''permit.authorized_account == op.withdraw_to_account'') (\<lambda>_.
    bindE (fc_assert (withdraw_from_account permit = wpl_withdraw_from_account op) ''permit.withdraw_from_account == op.withdraw_from_account'') (\<lambda>_.
    bindE (permit_allows permit (head_block_time db) (wpl_amount_to_withdraw op)) (\<lambda>_.
    bindE (assertE (asset_ge (get_balance db (wpl_withdraw_from_account op) (asset_id (wpl_amount_to_withdraw op))) (wpl_amount_to_withdraw op))
             ''balance'') (\<lambda>_.
    bindE (get_asset db (asset_id (wpl_amount_to_withdraw op))) (\<lambda>ast.
    bindE (if is_transfer_restricted ast
           then fc_assert (issuer ast = authorized_account permit \<or> issuer ast = withdraw_from_account permit) ''transfer restricted''
           else Inr ()) (\<lambda>_.
    bindE (get_account db (wpl_withdraw_to_account op)) (\<lambda>from.
    bindE (get_account db (authorized_account permit)) (\<lambda>to.
    bindE (fc_assert (is_authorized_asset db to (asset_id (wpl_amount_to_withdraw op)) ast) ''to'') (\<lambda>_.
    fc_assert (is_authorized_asset db from (asset_id (wpl_amount_to_withdraw op)) ast) ''from'')))))))))))"

definition permit_claim :: "time_point_sec \<Rightarrow> share_type \<Rightarrow> withdraw_permission_object \<Rightarrow> withdraw_permission_object exn" where
  "permit_claim now x p =
    (if withdrawal_period_sec p = 0 then Inl (chain_exception ''division by zero'')
     else let d = int now - int (period_start_time p);
              secs = int (withdrawal_period_sec p);
              periods = (if 0 \<le> d then d div secs else - (- d div secs))
          in bindE (if periods = 0 then safe_add (claimed_this_period p) x else Inr x) (\<lambda>c.
             Inr (p\<lparr>period_start_time := nat ((int (period_start_time p) + periods * secs) mod 2 ^ 32), claimed_this_period := c\<rparr>)))"

definition withdraw_permission_claim_apply :: "withdraw_permission_claim_operation \<Rightarrow> database \<Rightarrow> database exn" where
  "withdraw_permission_claim_apply op db =
    bindE (idx_modify ''withdraw_permission'' (withdraw_permissions db) (wpl_withdraw_permission op)
             (permit_claim (head_block_time db) (amount (wpl_amount_to_withdraw op)))) (\<lambda>t.
    move_balance (wpl_withdraw_from_account op) (wpl_withdraw_to_account op) (wpl_amount_to_withdraw op) (db\<lparr>withdraw_permissions := t\<rparr>))"

record withdraw_permission_update_operation =
  wpu_fee :: asset
  wpu_withdraw_from_account :: account_id_type
  wpu_authorized_account :: account_id_type
  wpu_permission_to_update :: nat
  wpu_withdrawal_limit :: asset
  wpu_withdrawal_period_sec :: nat
  wpu_period_start_time :: time_point_sec
  wpu_periods_until_expiration :: nat

definition withdraw_permission_update_validate :: "withdraw_permission_update_operation \<Rightarrow> unit exn" where
  "withdraw_permission_update_validate op =
    bindE (fc_assert (0 < amount (wpu_withdrawal_limit op)) ''withdrawal_limit.amount > 0'') (\<lambda>_.
    bindE (fc_assert (0 \<le> amount (wpu_fee op)) ''fee.amount >= 0'') (\<lambda>_.
    bindE (fc_assert (0 < wpu_withdrawal_period_sec op) ''withdrawal_period_sec > 0'') (\<lambda>_.
    bindE (fc_assert (wpu_withdraw_from_account op \<noteq> wpu_authorized_account op) ''withdraw_from_account != authorized_account'') (\<lambda>_.
    fc_assert (0 < wpu_periods_until_expiration op) ''periods_until_expiration > 0''))))"

definition withdraw_permission_update_evaluate :: "withdraw_permission_update_operation \<Rightarrow> database \<Rightarrow> unit exn" where
  "withdraw_permission_update_evaluate op db =
    bindE (idx_get ''withdraw_permission'' (withdraw_permissions db) (wpu_permission_to_update op)) (\<lambda>permit.
    bindE (fc_assert (authorized_account permit = wpu_authorized_account op) ''permit.authorized_account == op.authorized_account'') (\<lambda>_.
    bindE (fc_assert (withdraw_from_account permit = wpu_withdraw_from_account op) ''permit.withdraw_from_account == op.withdraw_from_account'') (\<lambda>_.
    bindE (fc_assert (idx_find (assets db) (asset_id (wpu_withdrawal_limit op)) \<noteq> None) ''withdrawal_limit.asset_id'') (\<lambda>_.
    bindE (fc_assert (head_block_time db \<le> wpu_period_start_time op) ''op.period_start_time >= d.head_block_time()'') (\<lambda>_.
    bindE (fc_assert (head_block_time db < period_end (wpu_period_start_time op) (wpu_periods_until_expiration op) (wpu_withdrawal_period_sec op))
       ''op.period_start_time + op.periods_until_expiration * op.withdrawal_period_sec > d.head_block_time()'') (\<lambda>_.
    fc_assert (block_interval (parameters (global_properties db)) \<le> wpu_withdrawal_period_sec op) ''withdrawal_period_sec >= block_interval''))))))"

definition withdraw_permission_update_apply :: "withdraw_permission_update_operation \<Rightarrow> database \<Rightarrow> database exn" where
  "withdraw_permission_update_apply op db =
    bindE (idx_modify ''withdraw_permission'' (withdraw_permissions db) (wpu_permission_to_update op) (\<lambda>p.
      Inr (p\<lparr>period_start_time := wpu_period_start_time op,
        wp_expiration := period_end (wpu_period_start_time op) (wpu_periods_until_expiration op) (wpu_withdrawal_period_sec op),
        withdrawal_limit := wpu_withdrawal_limit op, withdrawal_period_sec := wpu_withdrawal_period_sec op\<rparr>))) (\<lambda>t.
    Inr (db\<lparr>withdraw_permissions := t\<rparr>))"

record withdraw_permission_delete_operation =
  wpd_fee :: asset
  wpd_withdraw_from_account :: account_id_type
  wpd_authorized_account :: account_id_type
  wpd_withdrawal_permission :: nat

definition withdraw_permission_delete_validate :: "withdraw_permission_delete_operation \<Rightarrow> unit exn" where
  "withdraw_permission_delete_validate op =
    bindE (fc_assert (0 \<le> amount (wpd_fee op)) ''fee.amount >= 0'') (\<lambda>_.
    fc_assert (wpd_withdraw_from_account op \<noteq> wpd_authorized_account op) ''withdraw_from_account != authorized_account'')"

definition withdraw_permission_delete_evaluate :: "withdraw_permission_delete_operation \<Rightarrow> database \<Rightarrow> unit exn" where
  "withdraw_permission_delete_evaluate op db =
    bindE (idx_get ''withdraw_permission'' (withdraw_permissions db) (wpd_withdrawal_permission op)) (\<lambda>permit.
    bindE (fc_assert (authorized_account permit = wpd_authorized_account op) ''permit.authorized_account == op.authorized_account'') (\<lambda>_.
    fc_assert (withdraw_from_account permit = wpd_withdraw_from_account op) ''permit.withdraw_from_account == op.withdraw_from_account''))"

definition withdraw_permission_delete_apply :: "withdraw_permission_delete_operation \<Rightarrow> database \<Rightarrow> database exn" where
  "withdraw_permission_delete_apply op db =
    bindE (idx_get ''withdraw_permission'' (withdraw_permissions db) (wpd_withdrawal_permission op)) (\<lambda>_.
    Inr (db\<lparr>withdraw_permissions := idx_remove (withdraw_permissions db) (wpd_withdrawal_permission op)\<rparr>))"

section \<open>Balances of the genesis block\<close>

record balance_claim_operation =
  bcl_fee :: asset
  bcl_deposit_to_account :: account_id_type
  bcl_balance_to_claim :: nat
  bcl_balance_owner_key :: public_key
  bcl_total_claimed :: asset

definition bo_ctx :: "balance_object \<Rightarrow> time_point_sec \<Rightarrow> asset \<Rightarrow> vesting_policy_context" where
  "bo_ctx b now x = \<lparr>ctx_balance = bo_balance b, ctx_now = now, ctx_amount = x\<rparr>"

definition balance_claim_validate :: "balance_claim_operation \<Rightarrow> unit exn" where
  "balance_claim_validate op =
    bindE (fc_assert (asset_eq (bcl_fee op) (mk_asset 0 0)) ''fee == asset()'') (\<lambda>_.
    fc_assert (bcl_balance_owner_key op \<noteq> 0) ''balance_owner_key != public_key_type()'')"

definition balance_claim_evaluate ::
  "(public_key \<Rightarrow> address list) \<Rightarrow> bool \<Rightarrow> balance_claim_operation \<Rightarrow> database \<Rightarrow> unit exn" where
  "balance_claim_evaluate addresses skip_signatures op db =
    bindE (idx_get ''balance'' (genesis_balances db) (bcl_balance_to_claim op)) (\<lambda>b.
    bindE (graphene_assert (bo_owner b \<in> set (addresses (bcl_balance_owner_key op))) ''balance_claim_owner_mismatch'') (\<lambda>_.
    bindE (if \<not> skip_signatures
           then fc_assert (asset_id (bcl_total_claimed op) = asset_id (bo_balance b)) ''op.total_claimed.asset_id == balance->asset_type()''
           else Inr ()) (\<lambda>_.
    case bo_policy b of
      Some pol \<Rightarrow>
        bindE (linear_is_withdraw_allowed pol (bo_ctx b (head_block_time db) (bcl_total_claimed op))) (\<lambda>ok.
        bindE (graphene_assert ok ''balance_claim_invalid_claim_amount'') (\<lambda>_.
        graphene_assert (86400 \<le> int (head_block_time db) - int (last_claim_date b)) ''balance_claim_claimed_too_often''))
    | None \<Rightarrow> fc_assert (asset_eq (bcl_total_claimed op) (bo_balance b)) ''op.total_claimed == balance->balance'')))"

definition balance_claim_apply :: "balance_claim_operation \<Rightarrow> database \<Rightarrow> database exn" where
  "balance_claim_apply op db =
    bindE (idx_get ''balance'' (genesis_balances db) (bcl_balance_to_claim op)) (\<lambda>b.
    bindE (if bo_policy b \<noteq> None then asset_lt (bcl_total_claimed op) (bo_balance b) else Inr False) (\<lambda>keep.
    bindE (if keep
           then bindE (asset_sub (bo_balance b) (bcl_total_claimed op)) (\<lambda>x.
                Inr (idx_put (genesis_balances db) (bcl_balance_to_claim op) (b\<lparr>bo_balance := x, last_claim_date := head_block_time db\<rparr>)))
           else Inr (idx_remove (genesis_balances db) (bcl_balance_to_claim op))) (\<lambda>t.
    adjust_balance (bcl_deposit_to_account op) (bcl_total_claimed op) (db\<lparr>genesis_balances := t\<rparr>))))"

section \<open>The operations as they are run\<close>

definition void_result :: "database exn \<Rightarrow> (unit \<times> database) exn" where
  "void_result m = bindE m (\<lambda>db. Inr ((), db))"

definition transfer :: "bool \<Rightarrow> share_type \<Rightarrow> transfer_operation \<Rightarrow> database \<Rightarrow> (unit \<times> database) exn" where
  "transfer sk rq op = start_evaluate sk rq (tr_from op) (tr_fee op) (\<lambda>_. transfer_evaluate op) False (pay_fee False)
     (\<lambda>_ _ db. void_result (transfer_apply op db))"

definition override_transfer :: "bool \<Rightarrow> share_type \<Rightarrow> override_transfer_operation \<Rightarrow> database \<Rightarrow> (unit \<times> database) exn" where
  "override_transfer sk rq op = start_evaluate sk rq (ot_issuer op) (ot_fee op) (\<lambda>_. override_transfer_evaluate op) False (pay_fee False)
     (\<lambda>_ _ db. void_result (override_transfer_apply op db))"

definition vesting_balance_create :: "bool \<Rightarrow> share_type \<Rightarrow> vesting_balance_create_operation \<Rightarrow> database \<Rightarrow> (nat \<times> database) exn" where
  "vesting_balance_create sk rq op = start_evaluate sk rq (vbc_creator op) (vbc_fee op) (\<lambda>_. vesting_balance_create_evaluate op) False
     (pay_fee False) (\<lambda>_ _. vesting_balance_create_apply op)"

definition vesting_balance_withdraw :: "bool \<Rightarrow> share_type \<Rightarrow> vesting_balance_withdraw_operation \<Rightarrow> database \<Rightarrow> (unit \<times> database) exn" where
  "vesting_balance_withdraw sk rq op = start_evaluate sk rq (vbw_owner op) (vbw_fee op) (\<lambda>_. vesting_balance_withdraw_evaluate op) False
     (pay_fee False) (\<lambda>_ _ db. void_result (vesting_balance_withdraw_apply op db))"

definition withdraw_permission_claim :: "bool \<Rightarrow> share_type \<Rightarrow> withdraw_permission_claim_operation \<Rightarrow> database \<Rightarrow> (unit \<times> database) exn" where
  "withdraw_permission_claim sk rq op = start_evaluate sk rq (wpl_withdraw_to_account op) (wpl_fee op) (\<lambda>_. withdraw_permission_claim_evaluate op)
     False (pay_fee False) (\<lambda>_ _ db. void_result (withdraw_permission_claim_apply op db))"

definition balance_claim ::
  "(public_key \<Rightarrow> address list) \<Rightarrow> bool \<Rightarrow> share_type \<Rightarrow> balance_claim_operation \<Rightarrow> database \<Rightarrow> (unit \<times> database) exn" where
  "balance_claim addresses sk rq op = start_evaluate sk rq (bcl_deposit_to_account op) (bcl_fee op) (\<lambda>_. balance_claim_evaluate addresses False op)
     False (pay_fee False) (\<lambda>_ _ db. void_result (balance_claim_apply op db))"

section \<open>They conserve funds\<close>

text \<open>The linear policy of a genesis balance, as it is set up at genesis, never promises more than it began with.\<close>

definition grant_ok :: "balance_object \<Rightarrow> bool" where
  "grant_ok b \<longleftrightarrow> (case bo_policy b of None \<Rightarrow> True
    | Some p \<Rightarrow> 0 \<le> begin_balance p \<and> begin_balance p \<le> GRAPHENE_MAX_SHARE_SUPPLY \<and> vesting_duration_seconds p < 2 ^ 32)"

definition grants_ok :: "balance_object index \<Rightarrow> bool" where
  "grants_ok t \<longleftrightarrow> (\<forall>p \<in> set (objs t). grant_ok (snd p) \<and> 0 \<le> amount (bo_balance (snd p)))"

definition fund_ok :: "database \<Rightarrow> bool" where
  "fund_ok db \<longleftrightarrow> db_ok db \<and> grants_ok (genesis_balances db)"

definition funds_moved :: "(asset_id_type \<Rightarrow> int) \<Rightarrow> database \<Rightarrow> database \<Rightarrow> bool" where
  "funds_moved d db db' \<longleftrightarrow> fund_ok db' \<and> (\<forall>i. books i db' = books i db + d i)"

lemma funds_movedI: "fund_ok db' \<Longrightarrow> (\<And>i. books i db' = books i db + d i) \<Longrightarrow> funds_moved d db db'"
  by (simp add: funds_moved_def)

lemma funds_movedD: "funds_moved d db db' \<Longrightarrow> fund_ok db'" "funds_moved d db db' \<Longrightarrow> books i db' = books i db + d i"
  by (simp_all add: funds_moved_def)

lemma funds_moved_trans: "funds_moved d a b \<Longrightarrow> funds_moved e b c \<Longrightarrow> funds_moved (\<lambda>i. d i + e i) a c"
  by (simp add: funds_moved_def)

lemma adjust_moved:
  assumes "adjust_balance a x db = Inr db'" "fund_ok db"
  shows "funds_moved (\<lambda>i. asset_part i x) db db'"
proof -
  have ok: "db_ok db" using assms(2) by (simp add: fund_ok_def)
  obtain t where "db' = db\<lparr>balances := t\<rparr>" using assms(1) ok by (rule adjust_balance_effect) blast
  then show ?thesis using adjust_balance_frame(1,2) [OF assms(1) ok] assms(2) by (simp add: funds_moved_def fund_ok_def)
qed

lemma move_balance_moved:
  assumes "move_balance a b x db = Inr db'" "fund_ok db"
  shows "funds_moved (\<lambda>_. 0) db db'"
proof -
  from assms(1) obtain n db1 where n: "asset_neg x = Inr n" and a: "adjust_balance a n db = Inr db1" and b: "adjust_balance b x db1 = Inr db'"
    unfolding move_balance_def bindE_eq_Inr by blast
  have "asset_part i n + asset_part i x = 0" for i using n by (auto simp: asset_part_def)
  then show ?thesis
    using funds_moved_trans [OF adjust_moved [OF a assms(2)] adjust_moved [OF b funds_movedD(1) [OF adjust_moved [OF a assms(2)]]]] by simp
qed

lemma permissions_moved: "fund_ok db \<Longrightarrow> idx_ok t \<Longrightarrow> funds_moved (\<lambda>_. 0) db (db\<lparr>withdraw_permissions := t\<rparr>)"
  by (simp add: funds_moved_def fund_ok_def db_ok_update(14) books_def)

lemma fund_permissions_ok: "fund_ok db \<Longrightarrow> idx_ok (withdraw_permissions db)"
  by (simp add: fund_ok_def db_okD)

lemma withdraw_claim_moved:
  assumes "withdraw_permission_claim_apply op db = Inr db'" "fund_ok db"
  shows "funds_moved (\<lambda>_. 0) db db'"
proof -
  from assms(1) obtain p' where m: "move_balance (wpl_withdraw_from_account op) (wpl_withdraw_to_account op) (wpl_amount_to_withdraw op)
      (db\<lparr>withdraw_permissions := idx_put (withdraw_permissions db) (wpl_withdraw_permission op) p'\<rparr>) = Inr db'"
    by (auto simp: withdraw_permission_claim_apply_def)
  note p = permissions_moved [OF assms(2) idx_ok_put [OF fund_permissions_ok [OF assms(2)]]]
  show ?thesis using funds_moved_trans [OF p move_balance_moved [OF m funds_movedD(1) [OF p]]] by simp
qed

lemma vesting_create_moved:
  assumes "vesting_balance_create_apply op db = Inr r" "fund_ok db"
  shows "funds_moved (\<lambda>_. 0) db (snd r)"
proof -
  let ?v = "\<lambda>d. \<lparr>vb_owner = vbc_owner op, vb_balance = vbc_amount op,
    vb_policy = init_policy (vbc_policy op) (amount (vbc_amount op)) (head_block_time d)\<rparr>"
  from assms(1) obtain n db1 where n: "asset_neg (vbc_amount op) = Inr n" and a: "adjust_balance (vbc_creator op) n db = Inr db1"
    and r: "snd r = db1\<lparr>vesting_balances := idx_create (vesting_balances db1) (?v db1)\<rparr>"
    by (auto simp: vesting_balance_create_apply_def)
  note m = adjust_moved [OF a assms(2)]
  have o: "idx_ok (vesting_balances db1)" "db_ok db1" using funds_movedD(1) [OF m] by (simp_all add: fund_ok_def db_okD)
  have "asset_part i n + asset_part i (vbc_amount op) = 0" for i using n by (auto simp: asset_part_def)
  moreover have "funds_moved (\<lambda>i. asset_part i (vbc_amount op)) db1 (snd r)"
    using o funds_movedD(1) [OF m] by (simp add: r funds_moved_def fund_ok_def db_ok_update(3) books_def db_simps idx_sum_create)
  ultimately show ?thesis using funds_moved_trans [OF m] by fastforce
qed

lemma vb_withdraw_part: "vb_withdraw v now x = Inr v' \<Longrightarrow> asset_part i (vb_balance v') = asset_part i (vb_balance v) - asset_part i x"
  by (auto simp: vb_withdraw_def Let_def asset_part_def)

lemma vesting_withdraw_moved:
  assumes "vesting_balance_withdraw_apply op db = Inr db'" "fund_ok db"
  shows "funds_moved (\<lambda>_. 0) db db'"
proof -
  from assms(1) obtain v v' where v: "idx_find (vesting_balances db) (vbw_vesting_balance op) = Some v"
    and w: "vb_withdraw v (head_block_time db) (vbw_amount op) = Inr v'"
    and a: "adjust_balance (vbw_owner op) (vbw_amount op)
      (db\<lparr>vesting_balances := idx_put (vesting_balances db) (vbw_vesting_balance op) v'\<rparr>) = Inr db'"
    by (auto simp: vesting_balance_withdraw_apply_def)
  have o: "idx_ok (vesting_balances db)" "db_ok db" using assms(2) by (simp_all add: fund_ok_def db_okD)
  have m: "funds_moved (\<lambda>i. - asset_part i (vbw_amount op)) db (db\<lparr>vesting_balances := idx_put (vesting_balances db) (vbw_vesting_balance op) v'\<rparr>)"
    using o assms(2) by (simp add: funds_moved_def fund_ok_def db_ok_update(3) books_def db_simps idx_sum_put [OF o(1) v] vb_withdraw_part [OF w])
  show ?thesis using funds_moved_trans [OF m adjust_moved [OF a funds_movedD(1) [OF m]]] by simp
qed

lemma grant_within_balance:
  assumes "grant_ok b" "bo_policy b = Some p" "linear_is_withdraw_allowed p (bo_ctx b now x) = Inr True" "0 \<le> amount (bo_balance b)"
  shows "asset_id x = asset_id (bo_balance b)" "amount x \<le> amount (bo_balance b)"
proof -
  have g: "0 \<le> begin_balance p" "begin_balance p \<le> GRAPHENE_MAX_SHARE_SUPPLY" "vesting_duration_seconds p < 2 ^ 32"
    using assms(1,2) by (simp_all add: grant_ok_def)
  show "asset_id x = asset_id (bo_balance b)"
    using assms(3) by (auto simp: linear_is_withdraw_allowed_def bo_ctx_def split: if_splits)
  have "linear_total_vested p (int now - int (begin_timestamp p)) \<le> begin_balance p" if "begin_timestamp p < now"
    using linear_total_vested_mono(3) [OF g, of "int now - int (begin_timestamp p)" "int now - int (begin_timestamp p)"] that by simp
  then show "amount x \<le> amount (bo_balance b)" using assms(3,4)
    by (auto simp: linear_is_withdraw_allowed_def linear_get_allowed_withdraw_def bo_ctx_def Let_def asset_le_def asset_lt_def asset_eq_def
        split: if_splits)
qed

lemma balance_claim_takes_all:
  assumes "balance_claim_evaluate addresses sk op db = Inr u" "idx_find (genesis_balances db) (bcl_balance_to_claim op) = Some b"
    and "grant_ok b" "0 \<le> amount (bo_balance b)"
    and "bo_policy b \<noteq> None \<longrightarrow> asset_lt (bcl_total_claimed op) (bo_balance b) = Inr False"
  shows "asset_part i (bcl_total_claimed op) = asset_part i (bo_balance b)"
proof (cases "bo_policy b")
  case None
  then have "asset_eq (bcl_total_claimed op) (bo_balance b)" using assms(1,2) by (auto simp: balance_claim_evaluate_def)
  then show ?thesis by (auto simp: asset_eq_def asset_part_def)
next
  case (Some p)
  then have "linear_is_withdraw_allowed p (bo_ctx b (head_block_time db) (bcl_total_claimed op)) = Inr True"
    using assms(1,2) by (auto simp: balance_claim_evaluate_def graphene_assert_def split: if_splits)
  note g = grant_within_balance [OF assms(3) Some this assms(4)]
  then show ?thesis using assms(5) Some by (auto simp: asset_lt_def asset_part_def)
qed

lemma grants_okD: "grants_ok t \<Longrightarrow> idx_find t k = Some b \<Longrightarrow> grant_ok b \<and> 0 \<le> amount (bo_balance b)"
  by (auto simp: grants_ok_def dest!: idx_find_in)

lemma grants_moved:
  assumes "fund_ok db" "idx_ok t" "grants_ok t"
    and "\<And>i. idx_sum (\<lambda>b. asset_part i (bo_balance b)) t = idx_sum (\<lambda>b. asset_part i (bo_balance b)) (genesis_balances db) - asset_part i x"
  shows "funds_moved (\<lambda>i. - asset_part i x) db (db\<lparr>genesis_balances := t\<rparr>)"
  using assms by (simp add: funds_moved_def fund_ok_def db_ok_update(15) books_def db_simps)

lemma balance_claim_moved:
  assumes "balance_claim_apply op db = Inr db'" "fund_ok db"
    and "balance_claim_evaluate addresses sk op db0 = Inr u" "genesis_balances db = genesis_balances db0"
  shows "funds_moved (\<lambda>_. 0) db db'"
proof -
  let ?t = "genesis_balances db" and ?k = "bcl_balance_to_claim op" and ?x = "bcl_total_claimed op"
  from assms(1) obtain b keep t where b: "idx_find ?t ?k = Some b"
    and keep: "(if bo_policy b \<noteq> None then asset_lt ?x (bo_balance b) else Inr False) = Inr keep"
    and t: "(if keep then bindE (asset_sub (bo_balance b) ?x) (\<lambda>x. Inr (idx_put ?t ?k (b\<lparr>bo_balance := x, last_claim_date := head_block_time db\<rparr>)))
        else Inr (idx_remove ?t ?k)) = Inr t"
    and a: "adjust_balance (bcl_deposit_to_account op) ?x (db\<lparr>genesis_balances := t\<rparr>) = Inr db'"
    unfolding balance_claim_apply_def bindE_eq_Inr idx_get_eq_Inr by blast
  have o: "idx_ok ?t" and gs: "grants_ok ?t" using assms(2) by (simp_all add: fund_ok_def db_okD)
  note g = grants_okD [OF gs b]
  have "idx_ok t \<and> grants_ok t \<and> (\<forall>i. idx_sum (\<lambda>b. asset_part i (bo_balance b)) t
      = idx_sum (\<lambda>b. asset_part i (bo_balance b)) ?t - asset_part i ?x)"
  proof (cases keep)
    case True
    then have lt: "asset_id ?x = asset_id (bo_balance b)" "amount ?x < amount (bo_balance b)"
      using keep by (auto simp: asset_lt_def split: if_splits)
    let ?b = "b\<lparr>bo_balance := mk_asset (amount (bo_balance b) - amount ?x) (asset_id (bo_balance b)), last_claim_date := head_block_time db\<rparr>"
    have t': "t = idx_put ?t ?k ?b" using t True by (auto simp: asset_sub_def)
    have "grant_ok ?b \<and> 0 \<le> amount (bo_balance ?b)" using g lt by (simp add: grant_ok_def)
    then have "grants_ok t" using gs unfolding t' grants_ok_def by (metis objs_put_in snd_conv)
    then show ?thesis using o lt by (auto simp: t' idx_sum_put [OF o b] asset_part_def)
  next
    case False
    have "asset_part i ?x = asset_part i (bo_balance b)" for i
      by (rule balance_claim_takes_all [OF assms(3)]) (use b g keep False assms(4) in \<open>auto split: if_splits\<close>)
    moreover have "t = idx_remove ?t ?k" using t False by simp
    moreover have "grants_ok (idx_remove ?t ?k)" using gs unfolding grants_ok_def by (blast dest: objs_remove_in)
    ultimately show ?thesis using o by (simp add: idx_sum_remove [OF o b])
  qed
  then have m: "funds_moved (\<lambda>i. - asset_part i ?x) db (db\<lparr>genesis_balances := t\<rparr>)" using grants_moved [OF assms(2)] by blast
  show ?thesis using funds_moved_trans [OF m adjust_moved [OF a funds_movedD(1) [OF m]]] by simp
qed

text \<open>
  An operation whose fee is paid into the books and whose application only moves funds around is a
  fee paying evaluator; the checks of its evaluation may be relied on for what the fee does not change.
\<close>

definition same_pools :: "database \<Rightarrow> database \<Rightarrow> bool" where
  "same_pools db db0 \<longleftrightarrow> genesis_balances db = genesis_balances db0 \<and> blinded_balances db = blinded_balances db0"

locale balanced_operation =
  fixes ev :: "fee_state \<Rightarrow> database \<Rightarrow> 'e exn"
    and pay :: "fee_state \<Rightarrow> database \<Rightarrow> database exn"
    and app :: "'e \<Rightarrow> fee_state \<Rightarrow> database \<Rightarrow> ('r \<times> database) exn"
  assumes pay_moved: "fund_ok db \<Longrightarrow> pay fs db = Inr db'
      \<Longrightarrow> funds_moved (\<lambda>i. asset_part i (mk_asset (core_fee_paid fs) 0)) db db' \<and> same_pools db' db"
    and app_moved: "fund_ok db \<Longrightarrow> ev fs db0 = Inr e \<Longrightarrow> same_pools db db0
      \<Longrightarrow> app e fs db = Inr r \<Longrightarrow> funds_moved (\<lambda>_. 0) db (snd r)"

sublocale balanced_operation \<subseteq> fee_paying_evaluator fund_ok ev pay app
proof (unfold_locales, goal_cases)
  case (1 db)
  then show ?case by (simp add: fund_ok_def)
next
  case (2 db fs db')
  then show ?case using convert_fee_effect(1,7) [OF 2(3) _ 2(2)] by (auto simp: fund_ok_def)
next
  case (3 db a x db')
  then show ?case using funds_movedD(1) [OF adjust_moved] by blast
next
  case (4 db fs db0 e db1 r)
  from 4(3) have g: "same_pools db db0" by (auto simp: same_pools_def)
  have p: "funds_moved (\<lambda>i. asset_part i (mk_asset (core_fee_paid fs) 0)) db db1" "same_pools db1 db0"
    using pay_moved [OF 4(1,5)] g by (simp_all add: same_pools_def)
  show ?case using funds_moved_trans [OF p(1) app_moved [OF funds_movedD(1) [OF p(1)] 4(2) p(2) 4(6)]] by (simp add: funds_moved_def)
qed

lemma pay_fee_moved:
  assumes "fund_ok db" "pay_fee False fs db = Inr db'"
  shows "funds_moved (\<lambda>i. asset_part i (mk_asset (core_fee_paid fs) 0)) db db' \<and> same_pools db' db"
proof -
  have "modify_stats (fee_paying_account fs)
      (stats_pay_fee (core_fee_paid fs) (cashback_vesting_threshold (parameters (global_properties db)))) db = Inr db'"
    using assms(2) by (simp add: pay_fee_def)
  moreover have "db_ok db" using assms(1) by (simp add: fund_ok_def)
  ultimately show ?thesis
    by (rule modify_stats_effect) (use assms(1) in \<open>auto simp: funds_moved_def fund_ok_def same_pools_def stats_pay_fee_amount\<close>)
qed

lemma void_result_eq_Inr [simp]: "void_result m = Inr r \<longleftrightarrow> m = Inr (snd r)"
  by (cases r) (auto simp: void_result_def)

interpretation account_transfer: balanced_operation "\<lambda>_. transfer_evaluate op" "pay_fee False" "\<lambda>_ _ db. void_result (transfer_apply op db)" for op
  by (unfold_locales, erule (1) pay_fee_moved) (simp add: transfer_apply_def move_balance_moved)

interpretation override_transfers:
  balanced_operation "\<lambda>_. override_transfer_evaluate op" "pay_fee False" "\<lambda>_ _ db. void_result (override_transfer_apply op db)" for op
  by (unfold_locales, erule (1) pay_fee_moved) (simp add: override_transfer_apply_def move_balance_moved)

interpretation vesting_creation:
  balanced_operation "\<lambda>_. vesting_balance_create_evaluate op" "pay_fee False" "\<lambda>_ _. vesting_balance_create_apply op" for op
  by (unfold_locales, erule (1) pay_fee_moved) (simp add: vesting_create_moved)

interpretation vesting_withdrawal:
  balanced_operation "\<lambda>_. vesting_balance_withdraw_evaluate op" "pay_fee False" "\<lambda>_ _ db. void_result (vesting_balance_withdraw_apply op db)" for op
  by (unfold_locales, erule (1) pay_fee_moved) (simp add: vesting_withdraw_moved)

interpretation permission_claim:
  balanced_operation "\<lambda>_. withdraw_permission_claim_evaluate op" "pay_fee False" "\<lambda>_ _ db. void_result (withdraw_permission_claim_apply op db)" for op
  by (unfold_locales, erule (1) pay_fee_moved) (simp add: withdraw_claim_moved)

interpretation genesis_claim:
  balanced_operation "\<lambda>_. balance_claim_evaluate addresses False op" "pay_fee False" "\<lambda>_ _ db. void_result (balance_claim_apply op db)" for addresses op
  by (unfold_locales, erule (1) pay_fee_moved) (auto simp: same_pools_def intro: balance_claim_moved)

text \<open>C7: Every operation that moves funds creates and destroys nothing, fee included: a transfer, a transfer by the
  issuer, the creation of a vesting balance and a withdrawal from it, a claim of a withdraw permission and a claim of a
  balance of the genesis block each leave, for every asset, what the chain holds minus its supply as it was, and no account
  with a negative balance.\<close>

theorem fund_operations_conserve:
  assumes "fund_ok db"
  shows "(transfer sk rq a db = Inr ra \<longrightarrow> fund_ok (snd ra) \<and> (\<forall>i. books i (snd ra) = books i db))
    \<and> (override_transfer sk rq b db = Inr rb \<longrightarrow> fund_ok (snd rb) \<and> (\<forall>i. books i (snd rb) = books i db))
    \<and> (vesting_balance_create sk rq c db = Inr rc \<longrightarrow> fund_ok (snd rc) \<and> (\<forall>i. books i (snd rc) = books i db))
    \<and> (vesting_balance_withdraw sk rq d db = Inr rd \<longrightarrow> fund_ok (snd rd) \<and> (\<forall>i. books i (snd rd) = books i db))
    \<and> (withdraw_permission_claim sk rq e db = Inr re \<longrightarrow> fund_ok (snd re) \<and> (\<forall>i. books i (snd re) = books i db))
    \<and> (balance_claim addresses sk rq f db = Inr rf \<longrightarrow> fund_ok (snd rf) \<and> (\<forall>i. books i (snd rf) = books i db))"
  unfolding transfer_def override_transfer_def vesting_balance_create_def vesting_balance_withdraw_def withdraw_permission_claim_def balance_claim_def
  by (intro conjI impI allI)
    (erule account_transfer.operation_conserves [OF _ assms] override_transfers.operation_conserves [OF _ assms]
      vesting_creation.operation_conserves [OF _ assms] vesting_withdrawal.operation_conserves [OF _ assms]
      permission_claim.operation_conserves [OF _ assms] genesis_claim.operation_conserves [OF _ assms])+

text \<open>Account 5 sends 40 of the core asset to account 6 for a fee of 3.\<close>

definition demo_transfer :: transfer_operation where
  "demo_transfer = \<lparr>tr_fee = mk_asset 3 0, tr_from = 5, tr_to = 6, tr_amount = mk_asset 40 0\<rparr>"

theorem fund_operations_conserve_witness:
  "\<exists>r. transfer False 3 demo_transfer demo_chain = Inr r \<and> amount (get_balance (snd r) 5 0) = 657
     \<and> amount (get_balance (snd r) 6 0) = 240 \<and> (\<forall>i. books i (snd r) = books i demo_chain)"
proof -
  have "fund_ok demo_chain" by (simp add: fund_ok_def demo_chain_ok grants_ok_def) (simp add: demo_chain_simps)
  moreover have "\<exists>r. transfer False 3 demo_transfer demo_chain = Inr r \<and> amount (get_balance (snd r) 5 0) = 657
     \<and> amount (get_balance (snd r) 6 0) = 240"
    by (simp add: demo_transfer_def demo_chain_simps Let_def index_eval asset_eval fee_eval transfer_def transfer_evaluate_def
        transfer_apply_def move_balance_def graphene_assert_def is_transfer_restricted_def transfer_restricted_def void_result_def
        cong: bindE_weak_cong del: bindE_eq_Inr void_result_eq_Inr)
  ultimately show ?thesis using fund_operations_conserve [of demo_chain False 3 demo_transfer] by blast
qed

section \<open>A withdraw permission bounds every period\<close>

text \<open>A claim as far as the permission is concerned, the period of a time, and the claims of one period.\<close>

definition claim_step :: "time_point_sec \<times> asset \<Rightarrow> withdraw_permission_object \<Rightarrow> withdraw_permission_object exn" where
  "claim_step w p =
    bindE (fc_assert (fst w < wp_expiration p) ''permit.expiration > head_block_time'') (\<lambda>_.
    bindE (permit_allows p (fst w) (snd w)) (\<lambda>_.
    permit_claim (fst w) (amount (snd w)) p))"

definition period_of :: "withdraw_permission_object \<Rightarrow> time_point_sec \<Rightarrow> nat" where
  "period_of p t = (t - period_start_time p) div withdrawal_period_sec p"

definition claimed_in :: "withdraw_permission_object \<Rightarrow> nat \<Rightarrow> (time_point_sec \<times> asset) list \<Rightarrow> int" where
  "claimed_in p k ws = sum_list (map (\<lambda>w. amount (snd w)) (filter (\<lambda>w. period_of p (fst w) = k) ws))"

definition permit_ok :: "withdraw_permission_object \<Rightarrow> bool" where
  "permit_ok p \<longleftrightarrow> 0 < withdrawal_period_sec p \<and> 0 \<le> claimed_this_period p \<and> claimed_this_period p \<le> amount (withdrawal_limit p)"

definition claim_time_ok :: "withdraw_permission_object \<Rightarrow> time_point_sec \<times> asset \<Rightarrow> bool" where
  "claim_time_ok p w \<longleftrightarrow> HARDFORK_23_TIME \<le> fst w \<and> fst w + withdrawal_period_sec p < 2 ^ 32 \<and> 0 < amount (snd w)"

lemma claim_step_effect:
  assumes "claim_step w p = Inr p'" "permit_ok p" "claim_time_ok p w"
  shows "p' = p\<lparr>period_start_time := period_start_time p + period_of p (fst w) * withdrawal_period_sec p,
      claimed_this_period := (if period_of p (fst w) = 0 then claimed_this_period p else 0) + amount (snd w)\<rparr>"
    and "permit_ok p'" "period_start_time p \<le> fst w" "period_start_time p' \<le> fst w"
proof -
  let ?s = "period_start_time p" and ?n = "withdrawal_period_sec p" and ?t = "fst w" and ?m = "period_of p (fst w)"
  note ok = assms(2,3) [unfolded permit_ok_def claim_time_ok_def]
  from assms(1) obtain a where av: "available_this_period p ?t = Inr a" and le: "asset_le (snd w) a = Inr True" and s: "?s \<le> ?t"
    and c: "permit_claim ?t (amount (snd w)) p = Inr p'"
    using ok by (auto simp: claim_step_def permit_allows_def assertE_def)
  have m: "(int ?t - int ?s) div int ?n = int ?m" using s by (simp add: period_of_def of_nat_diff zdiv_int)
  have "?m * ?n \<le> ?t - ?s" unfolding period_of_def by (rule div_times_less_eq_dividend)
  then have b: "?s + ?m * ?n \<le> ?t" using s by linarith
  then have "nat ((int ?s + int ?m * int ?n) mod 2 ^ 32) = ?s + ?m * ?n"
    using ok by (simp flip: of_nat_mult of_nat_add)
  then show e: "p' = p\<lparr>period_start_time := ?s + ?m * ?n, claimed_this_period := (if ?m = 0 then claimed_this_period p else 0) + amount (snd w)\<rparr>"
    using c s ok m by (auto simp: permit_claim_def Let_def split: if_splits)
  have "(?s + ?n) mod 2 ^ 32 = ?s + ?n" using s ok by simp
  moreover have "?s + ?n \<le> ?t \<longleftrightarrow> ?m \<noteq> 0" using s ok by (auto simp: period_of_def div_eq_0_iff)
  ultimately have "amount (snd w) + (if ?m = 0 then claimed_this_period p else 0) \<le> amount (withdrawal_limit p)"
    using av le ok by (auto simp: available_this_period_def asset_le_def asset_lt_def asset_eq_def split: if_splits)
  then show "permit_ok p'" using ok by (auto simp: e permit_ok_def split: if_splits)
  show "?s \<le> ?t" "period_start_time p' \<le> ?t" using s b by (simp_all add: e)
qed

lemma period_shift:
  assumes "period_start_time p' = period_start_time p + m * withdrawal_period_sec p" "withdrawal_period_sec p' = withdrawal_period_sec p"
    and "0 < withdrawal_period_sec p" "period_start_time p' \<le> t"
  shows "period_of p t = m + period_of p' t"
proof -
  have "t - period_start_time p = (t - period_start_time p') + m * withdrawal_period_sec p" using assms(1,4) by simp
  then show ?thesis using assms(2,3) by (simp add: period_of_def)
qed

lemma claims_bounded:
  assumes "foldE claim_step ws p = Inr p'" "permit_ok p" "sorted (map fst ws)" "list_all (claim_time_ok p) ws"
  shows "(if k = 0 then claimed_this_period p else 0) + claimed_in p k ws \<le> amount (withdrawal_limit p)"
  using assms
proof (induction ws arbitrary: p k)
  case Nil
  then show ?case by (auto simp: claimed_in_def permit_ok_def)
next
  case (Cons w ws)
  from Cons.prems(1) obtain q where q: "claim_step w p = Inr q" "foldE claim_step ws q = Inr p'" by auto
  have wk: "claim_time_ok p w" using Cons.prems(4) by simp
  note e = claim_step_effect [OF q(1) Cons.prems(2) wk]
  let ?m = "period_of p (fst w)"
  have same: "withdrawal_period_sec q = withdrawal_period_sec p" "withdrawal_limit q = withdrawal_limit p"
    "period_start_time q = period_start_time p + ?m * withdrawal_period_sec p" by (simp_all add: e(1))
  have IH: "(if j = 0 then claimed_this_period q else 0) + claimed_in q j ws \<le> amount (withdrawal_limit p)" for j
    using Cons.IH [OF q(2) e(2)] Cons.prems(3,4) same by (simp add: claim_time_ok_def list_all_iff)
  have shift: "period_of p (fst v) = ?m + period_of q (fst v)" if "v \<in> set ws" for v
  proof (rule period_shift [OF same(3,1)])
    show "0 < withdrawal_period_sec p" using Cons.prems(2) by (simp add: permit_ok_def)
    show "period_start_time q \<le> fst v" using Cons.prems(3) that le_trans [OF e(4)] by simp
  qed
  have "period_of p (fst v) = k \<longleftrightarrow> \<not> k < ?m \<and> period_of q (fst v) = k - ?m" if "v \<in> set ws" for v
    using shift [OF that] by linarith
  then have "filter (\<lambda>v. period_of p (fst v) = k) ws = filter (\<lambda>v. \<not> k < ?m \<and> period_of q (fst v) = k - ?m) ws"
    by (intro filter_cong) blast+
  then have rest: "claimed_in p k ws = (if k < ?m then 0 else claimed_in q (k - ?m) ws)" by (simp add: claimed_in_def)
  have "claimed_in p k (w # ws) = (if ?m = k then amount (snd w) else 0) + claimed_in p k ws" by (simp add: claimed_in_def)
  then show ?case using IH [of "k - ?m"] rest Cons.prems(2) by (auto simp: e(1) permit_ok_def split: if_splits)
qed

text \<open>A permission whose period ends past the 32 bits of a time, so that the end wraps to a time before the claims.\<close>

definition period_wraps :: "withdraw_permission_object \<Rightarrow> time_point_sec \<Rightarrow> bool" where
  "period_wraps p t \<longleftrightarrow> 2 ^ 32 \<le> period_start_time p + withdrawal_period_sec p
     \<and> (period_start_time p + withdrawal_period_sec p) mod 2 ^ 32 \<le> t \<and> period_start_time p \<le> t \<and> t < 2 ^ 32"

lemma wrapped_claim:
  assumes "period_wraps p t" "HARDFORK_23_TIME \<le> t" "t < wp_expiration p" "0 < withdrawal_period_sec p"
    "in_int64 (claimed_this_period p + amount (withdrawal_limit p))"
  shows "claim_step (t, withdrawal_limit p) p = Inr (p\<lparr>claimed_this_period := claimed_this_period p + amount (withdrawal_limit p)\<rparr>)"
proof -
  note w = assms(1) [unfolded period_wraps_def]
  have s: "period_start_time p < 2 ^ 32" and n: "t - period_start_time p < withdrawal_period_sec p" using w by linarith+
  then have "(int t - int (period_start_time p)) div int (withdrawal_period_sec p) = 0"
    using w by (intro div_pos_pos_trivial) linarith+
  moreover have "available_this_period p t = Inr (withdrawal_limit p)" using w by (simp add: available_this_period_def)
  moreover have "nat (int (period_start_time p) mod 2 ^ 32) = period_start_time p" using s by simp
  moreover note assms(4)
  ultimately show ?thesis using assms(2,3,5) w
    by (simp add: claim_step_def permit_allows_def assertE_def permit_claim_def Let_def asset_le_def asset_lt_def asset_eq_def)
qed

lemma wrapped_claims:
  assumes "period_wraps p t" "HARDFORK_23_TIME \<le> t" "t < wp_expiration p"
    "0 < withdrawal_period_sec p" "0 \<le> claimed_this_period p" "0 \<le> amount (withdrawal_limit p)"
    "claimed_this_period p + int n * amount (withdrawal_limit p) < 2 ^ 63"
  shows "\<exists>p'. foldE claim_step (replicate n (t, withdrawal_limit p)) p = Inr p'"
  using assms
proof (induction n arbitrary: p)
  case (Suc n)
  let ?q = "p\<lparr>claimed_this_period := claimed_this_period p + amount (withdrawal_limit p)\<rparr>"
  have step: "claim_step (t, withdrawal_limit p) p = Inr ?q"
  proof -
    have "0 \<le> int n * amount (withdrawal_limit p)" using Suc.prems(6) by simp
    moreover have "int (Suc n) * amount (withdrawal_limit p) = amount (withdrawal_limit p) + int n * amount (withdrawal_limit p)"
      by (simp add: algebra_simps)
    ultimately have "claimed_this_period p + amount (withdrawal_limit p) < 2 ^ 63" using Suc.prems(7) by linarith
    then have "in_int64 (claimed_this_period p + amount (withdrawal_limit p))"
      using Suc.prems(5,6) by (simp add: in_int64_def)
    then show ?thesis using wrapped_claim Suc.prems(1-4) by blast
  qed
  have "\<exists>p'. foldE claim_step (replicate n (t, withdrawal_limit ?q)) ?q = Inr p'"
    using Suc.prems by (intro Suc.IH) (auto simp: period_wraps_def algebra_simps)
  then show ?case using step by simp
qed simp

text \<open>C14: However often a withdraw permission is claimed, no period ever pays more than the withdrawal limit: over a
  successful sequence of claims, in time order and after the hardfork that forbids early claims, the claims that fall in
  any one period counted from the start of the permission, with what was claimed already in its first, sum to at most the
  limit, provided that the end of a period counted from a claim stays within the 32 bits of a time. The code does
  not bound the period, and the proviso is needed: when the end of the first period wraps to a time before the claims, the full
  limit is paid at every claim of that period, as often as it is claimed.\<close>

theorem withdraw_limit_per_period:
  assumes "permit_ok p"
  shows "(foldE claim_step ws p = Inr p' \<and> sorted (map fst ws) \<and> list_all (claim_time_ok p) ws
      \<longrightarrow> (if k = 0 then claimed_this_period p else 0) + claimed_in p k ws \<le> amount (withdrawal_limit p))
    \<and> (period_wraps p t \<and> HARDFORK_23_TIME \<le> t \<and> t < wp_expiration p
        \<and> claimed_this_period p + int n * amount (withdrawal_limit p) < 2 ^ 63
      \<longrightarrow> (\<exists>q. foldE claim_step (replicate n (t, withdrawal_limit p)) p = Inr q)
        \<and> claimed_in p 0 (replicate n (t, withdrawal_limit p)) = int n * amount (withdrawal_limit p))"
proof (intro conjI impI)
  assume "foldE claim_step ws p = Inr p' \<and> sorted (map fst ws) \<and> list_all (claim_time_ok p) ws"
  then show "(if k = 0 then claimed_this_period p else 0) + claimed_in p k ws \<le> amount (withdrawal_limit p)"
    using claims_bounded assms by blast
next
  assume a: "period_wraps p t \<and> HARDFORK_23_TIME \<le> t \<and> t < wp_expiration p
        \<and> claimed_this_period p + int n * amount (withdrawal_limit p) < 2 ^ 63"
  then show "\<exists>q. foldE claim_step (replicate n (t, withdrawal_limit p)) p = Inr q"
    using assms by (intro wrapped_claims) (auto simp: permit_ok_def)
  have "t - period_start_time p < withdrawal_period_sec p" using a by (auto simp: period_wraps_def)
  then have "period_of p t = 0" by (simp add: period_of_def)
  then have "filter (\<lambda>w. period_of p (fst w) = 0) (replicate n (t, withdrawal_limit p)) = replicate n (t, withdrawal_limit p)"
    by (simp add: filter_replicate)
  then show "claimed_in p 0 (replicate n (t, withdrawal_limit p)) = int n * amount (withdrawal_limit p)"
    by (simp add: claimed_in_def sum_list_replicate)
qed

text \<open>
  A permission for 100 per day: 60 and 40 on the first day, 70 on the third. With a period of 3000000000 seconds, 100 three
  times at once.
\<close>

definition demo_permit :: withdraw_permission_object where
  "demo_permit = \<lparr>withdraw_from_account = 5, authorized_account = 6, withdrawal_limit = mk_asset 100 0, withdrawal_period_sec = 86400,
     period_start_time = 1600000000, wp_expiration = 1700000000, claimed_this_period = 0\<rparr>"

theorem withdraw_limit_per_period_witness:
  "(\<exists>p'. foldE claim_step [(1600000000, mk_asset 60 0), (1600000500, mk_asset 40 0), (1600180000, mk_asset 70 0)] demo_permit = Inr p'
     \<and> claimed_in demo_permit 0 [(1600000000, mk_asset 60 0), (1600000500, mk_asset 40 0), (1600180000, mk_asset 70 0)] \<le> 100)
   \<and> (\<exists>q. foldE claim_step (replicate 3 (1600000000, mk_asset 100 0)) (demo_permit\<lparr>withdrawal_period_sec := 3000000000\<rparr>) = Inr q)"
proof -
  let ?ws = "[(1600000000, mk_asset 60 0), (1600000500, mk_asset 40 0), (1600180000, mk_asset 70 0)]"
  have "\<exists>p'. foldE claim_step ?ws demo_permit = Inr p'"
    by (simp add: demo_permit_def claim_step_def permit_allows_def assertE_def available_this_period_def permit_claim_def Let_def
        HARDFORK_23_TIME_def asset_eval cong: bindE_weak_cong del: bindE_eq_Inr)
  then obtain p' where "foldE claim_step ?ws demo_permit = Inr p'" by blast
  moreover from this have "claimed_in demo_permit 0 ?ws \<le> 100" using withdraw_limit_per_period [of demo_permit ?ws p' 0]
    by (simp add: demo_permit_def permit_ok_def claim_time_ok_def HARDFORK_23_TIME_def)
  moreover have "\<exists>q. foldE claim_step (replicate 3 (1600000000, mk_asset 100 0)) (demo_permit\<lparr>withdrawal_period_sec := 3000000000\<rparr>) = Inr q"
    using withdraw_limit_per_period [of "demo_permit\<lparr>withdrawal_period_sec := 3000000000\<rparr>" _ _ _ 1600000000 3]
    by (simp add: demo_permit_def permit_ok_def period_wraps_def HARDFORK_23_TIME_def)
  ultimately show ?thesis by blast
qed

end
