(* ===== verification/Blinded.thy ===== *)
theory Blinded
  imports Transfers
begin

text \<open>
  Blinded balances (\<^verbatim>\<open>confidential_evaluator.cpp\<close>, \<^verbatim>\<open>protocol/confidential.cpp\<close>): amounts that the chain
  knows only as commitments. A commitment (33 bytes, ordered as \<^verbatim>\<open>memcmp\<close> orders them) is a number. What fc
  computes with them is a parameter: the fields of \<open>blind_env\<close> stand for \<^verbatim>\<open>fc::ecc::blind\<close>, \<^verbatim>\<open>verify_sum\<close> and
  the maximum that \<^verbatim>\<open>range_get_info\<close> reads from a range proof. Stealth memos have no effect and are left out.
\<close>

section \<open>The operations\<close>

record blind_env =
  blind_fn :: "nat \<Rightarrow> int \<Rightarrow> nat"
  verify_sum :: "nat list \<Rightarrow> nat list \<Rightarrow> int \<Rightarrow> bool"
  range_max :: "nat list \<Rightarrow> int exn"

record blind_input =
  in_commitment :: nat
  in_owner :: authority

record blind_output =
  out_commitment :: nat
  range_proof :: "nat list"
  out_owner :: authority

definition HARDFORK_563_TIME :: nat where "HARDFORK_563_TIME = 1456250400"
definition disable_confidential :: "16 word" where "disable_confidential = 0x40"

definition allow_confidential :: "asset_object \<Rightarrow> bool" where
  "allow_confidential a \<longleftrightarrow> \<not> has_flag (flags (a_options a)) disable_confidential"

text \<open>The checks of the loops over inputs and outputs: sorted by commitment and, for outputs, owned by a possible authority.\<close>

fun check_inputs :: "nat option \<Rightarrow> blind_input list \<Rightarrow> unit exn" where
  "check_inputs prev [] = Inr ()"
| "check_inputs prev (i # is) =
    bindE (fc_assert (\<forall>c \<in> set_option prev. c < in_commitment i) ''all inputs must be sorted by commitment id'') (\<lambda>_.
    check_inputs (Some (in_commitment i)) is)"

fun check_outputs :: "nat option \<Rightarrow> blind_output list \<Rightarrow> unit exn" where
  "check_outputs prev [] = Inr ()"
| "check_outputs prev (x # xs) =
    bindE (fc_assert (\<forall>c \<in> set_option prev. c < out_commitment x) ''all outputs must be sorted by commitment id'') (\<lambda>_.
    bindE (fc_assert (\<not> is_impossible (out_owner x)) ''!outputs[i].owner.is_impossible()'') (\<lambda>_.
    check_outputs (Some (out_commitment x)) xs))"

fun check_ranges :: "blind_env \<Rightarrow> blind_output list \<Rightarrow> unit exn" where
  "check_ranges E [] = Inr ()"
| "check_ranges E (x # xs) =
    bindE (range_max E (range_proof x)) (\<lambda>m.
    bindE (fc_assert (m \<le> GRAPHENE_MAX_SHARE_SUPPLY) ''info.max_value <= GRAPHENE_MAX_SHARE_SUPPLY'') (\<lambda>_.
    check_ranges E xs))"

record transfer_to_blind_operation =
  ttb_fee :: asset
  ttb_amount :: asset
  ttb_from :: account_id_type
  ttb_blinding_factor :: nat
  ttb_outputs :: "blind_output list"

definition transfer_to_blind_validate :: "blind_env \<Rightarrow> transfer_to_blind_operation \<Rightarrow> unit exn" where
  "transfer_to_blind_validate E op =
    bindE (fc_assert (0 \<le> amount (ttb_fee op)) ''fee.amount >= 0'') (\<lambda>_.
    bindE (fc_assert (0 < amount (ttb_amount op)) ''amount.amount > 0'') (\<lambda>_.
    bindE (check_outputs None (ttb_outputs op)) (\<lambda>_.
    bindE (fc_assert (ttb_outputs op \<noteq> []) ''there must be at least one output'') (\<lambda>_.
    bindE (fc_assert (verify_sum E [blind_fn E (ttb_blinding_factor op) (amount (ttb_amount op))] (map out_commitment (ttb_outputs op)) 0)
             ''net_public'') (\<lambda>_.
    if 1 < length (ttb_outputs op) then check_ranges E (ttb_outputs op) else Inr ())))))"

text \<open>Every account that an owner of an output names exists.\<close>

fun check_accounts :: "database \<Rightarrow> account_id_type list \<Rightarrow> unit exn" where
  "check_accounts db [] = Inr ()"
| "check_accounts db (a # as) = bindE (get_account db a) (\<lambda>_. check_accounts db as)"

definition output_accounts :: "blind_output list \<Rightarrow> account_id_type list" where
  "output_accounts xs = concat (map (\<lambda>x. map fst (account_auths (out_owner x))) xs)"

definition transfer_to_blind_evaluate :: "transfer_to_blind_operation \<Rightarrow> database \<Rightarrow> unit exn" where
  "transfer_to_blind_evaluate op db =
    bindE (get_asset db (asset_id (ttb_amount op))) (\<lambda>atype.
    bindE (fc_assert (allow_confidential atype) ''atype.allow_confidential()'') (\<lambda>_.
    bindE (fc_assert (\<not> is_transfer_restricted atype) ''!atype.is_transfer_restricted()'') (\<lambda>_.
    bindE (fc_assert (\<not> has_flag (flags (a_options atype)) white_list) ''!(atype.options.flags & white_list)'') (\<lambda>_.
    check_accounts db (output_accounts (ttb_outputs op))))))"

definition find_commitment :: "nat \<Rightarrow> database \<Rightarrow> (nat \<times> blinded_balance_object) option" where
  "find_commitment c db = idx_find_by (\<lambda>b. commitment b = c) (blinded_balances db)"

text \<open>The index by commitment is unique: a second balance with the same commitment is refused.\<close>

definition create_blinded :: "asset_id_type \<Rightarrow> blind_output \<Rightarrow> database \<Rightarrow> database exn" where
  "create_blinded i x db =
    bindE (fc_assert (find_commitment (out_commitment x) db = None) ''Could not create object! Most likely a uniqueness constraint is violated.'') (\<lambda>_.
    Inr (db\<lparr>blinded_balances := idx_create (blinded_balances db)
      \<lparr>commitment = out_commitment x, bb_asset_id = i, bb_owner = out_owner x\<rparr>\<rparr>))"

definition adjust_confidential :: "asset_id_type \<Rightarrow> int \<Rightarrow> database \<Rightarrow> database exn" where
  "adjust_confidential i x db = modify_dynamic i (\<lambda>d.
    bindE (safe_add (confidential_supply d) x) (\<lambda>c.
    bindE (fc_assert (0 \<le> c) ''obj.confidential_supply >= 0'') (\<lambda>_.
    Inr (d\<lparr>confidential_supply := c\<rparr>)))) db"

definition transfer_to_blind_apply :: "transfer_to_blind_operation \<Rightarrow> database \<Rightarrow> database exn" where
  "transfer_to_blind_apply op db =
    bindE (asset_neg (ttb_amount op)) (\<lambda>n.
    bindE (adjust_balance (ttb_from op) n db) (\<lambda>db.
    bindE (adjust_confidential (asset_id (ttb_amount op)) (amount (ttb_amount op)) db) (\<lambda>db.
    foldE (create_blinded (asset_id (ttb_amount op))) (ttb_outputs op) db)))"

text \<open>The fee of a blinded operation goes to its accumulator of fee backed assets.\<close>

definition blind_pay_fee :: "nat \<Rightarrow> fee_state \<Rightarrow> database \<Rightarrow> database exn" where
  "blind_pay_fee k fs db = (if HARDFORK_563_TIME \<le> head_block_time db then pay_fba_fee False k fs db else pay_fee False fs db)"

record transfer_from_blind_operation =
  tfb_fee :: asset
  tfb_amount :: asset
  tfb_to :: account_id_type
  tfb_blinding_factor :: nat
  tfb_inputs :: "blind_input list"

definition transfer_from_blind_validate :: "blind_env \<Rightarrow> transfer_from_blind_operation \<Rightarrow> unit exn" where
  "transfer_from_blind_validate E op =
    bindE (fc_assert (0 < amount (tfb_amount op)) ''amount.amount > 0'') (\<lambda>_.
    bindE (fc_assert (0 \<le> amount (tfb_fee op)) ''fee.amount >= 0'') (\<lambda>_.
    bindE (fc_assert (tfb_inputs op \<noteq> []) ''inputs.size() > 0'') (\<lambda>_.
    bindE (fc_assert (asset_id (tfb_amount op) = asset_id (tfb_fee op)) ''amount.asset_id == fee.asset_id'') (\<lambda>_.
    bindE (check_inputs None (tfb_inputs op)) (\<lambda>_.
    fc_assert (verify_sum E (map in_commitment (tfb_inputs op))
        [blind_fn E (tfb_blinding_factor op) (wrap64 (amount (tfb_fee op) + amount (tfb_amount op)))] 0) ''verify_sum'')))))"

text \<open>
  Every input is a known balance of the asset of the fee, with the owner it names. The two operations report an unknown
  commitment by different exceptions.
\<close>

definition end_of_index :: error where "end_of_index = assert_exception ''itr != cidx.end()''"
definition unknown_commitment :: error where "unknown_commitment = chain_exception ''blind_transfer_unknown_commitment''"

fun check_blind_inputs :: "error \<Rightarrow> asset_id_type \<Rightarrow> database \<Rightarrow> blind_input list \<Rightarrow> unit exn" where
  "check_blind_inputs e i db [] = Inr ()"
| "check_blind_inputs e i db (x # xs) =
    bindE (ofOption e (find_commitment (in_commitment x) db)) (\<lambda>p.
    bindE (fc_assert (bb_asset_id (snd p) = i) ''itr->asset_id == o.fee.asset_id'') (\<lambda>_.
    bindE (fc_assert (bb_owner (snd p) = in_owner x) ''itr->owner == in.owner'') (\<lambda>_.
    check_blind_inputs e i db xs)))"

definition remove_blinded :: "error \<Rightarrow> blind_input \<Rightarrow> database \<Rightarrow> database exn" where
  "remove_blinded e x db =
    bindE (ofOption e (find_commitment (in_commitment x) db)) (\<lambda>p.
    Inr (db\<lparr>blinded_balances := idx_remove (blinded_balances db) (fst p)\<rparr>))"

definition transfer_from_blind_evaluate :: "transfer_from_blind_operation \<Rightarrow> database \<Rightarrow> unit exn" where
  "transfer_from_blind_evaluate op db =
    bindE (get_asset db (asset_id (tfb_fee op))) (\<lambda>_. check_blind_inputs end_of_index (asset_id (tfb_fee op)) db (tfb_inputs op))"

definition transfer_from_blind_apply :: "transfer_from_blind_operation \<Rightarrow> database \<Rightarrow> database exn" where
  "transfer_from_blind_apply op db =
    bindE (adjust_balance GRAPHENE_TEMP_ACCOUNT (tfb_fee op) db) (\<lambda>db.
    bindE (adjust_balance (tfb_to op) (tfb_amount op) db) (\<lambda>db.
    bindE (foldE (remove_blinded end_of_index) (tfb_inputs op) db) (\<lambda>db.
    bindE (safe_add (amount (tfb_amount op)) (amount (tfb_fee op))) (\<lambda>x.
    adjust_confidential (asset_id (tfb_amount op)) (- x) db))))"

record blind_transfer_operation =
  btr_fee :: asset
  btr_inputs :: "blind_input list"
  btr_outputs :: "blind_output list"

definition blind_transfer_validate :: "blind_env \<Rightarrow> blind_transfer_operation \<Rightarrow> unit exn" where
  "blind_transfer_validate E op =
    bindE (check_inputs None (btr_inputs op)) (\<lambda>_.
    bindE (check_outputs None (btr_outputs op)) (\<lambda>_.
    bindE (fc_assert (btr_inputs op \<noteq> []) ''there must be at least one input'') (\<lambda>_.
    bindE (fc_assert (verify_sum E (map in_commitment (btr_inputs op)) (map out_commitment (btr_outputs op)) (amount (btr_fee op)))
             ''net_public'') (\<lambda>_.
    bindE (if 1 < length (btr_outputs op) then check_ranges E (btr_outputs op) else Inr ()) (\<lambda>_.
    fc_assert (verify_sum E (map in_commitment (btr_inputs op)) (map out_commitment (btr_outputs op)) (amount (btr_fee op)))
       ''net_public'')))))"

definition blind_transfer_evaluate :: "blind_transfer_operation \<Rightarrow> database \<Rightarrow> unit exn" where
  "blind_transfer_evaluate op db =
    bindE (get_asset db (asset_id (btr_fee op))) (\<lambda>_.
    bindE (check_accounts db (output_accounts (btr_outputs op))) (\<lambda>_.
    check_blind_inputs unknown_commitment (asset_id (btr_fee op)) db (btr_inputs op)))"

definition blind_transfer_apply :: "blind_transfer_operation \<Rightarrow> database \<Rightarrow> database exn" where
  "blind_transfer_apply op db =
    bindE (adjust_balance GRAPHENE_TEMP_ACCOUNT (btr_fee op) db) (\<lambda>db.
    bindE (foldE (remove_blinded unknown_commitment) (btr_inputs op) db) (\<lambda>db.
    bindE (foldE (create_blinded (asset_id (btr_fee op))) (btr_outputs op) db) (\<lambda>db.
    adjust_confidential (asset_id (btr_fee op)) (- amount (btr_fee op)) db)))"

text \<open>An operation is validated with its transaction before it is evaluated.\<close>

definition transfer_to_blind :: "blind_env \<Rightarrow> bool \<Rightarrow> share_type \<Rightarrow> transfer_to_blind_operation \<Rightarrow> database \<Rightarrow> (unit \<times> database) exn" where
  "transfer_to_blind E sk rq op db =
    bindE (transfer_to_blind_validate E op) (\<lambda>_.
    start_evaluate sk rq (ttb_from op) (ttb_fee op) (\<lambda>_. transfer_to_blind_evaluate op) False
      (blind_pay_fee 0) (\<lambda>_ _ db. void_result (transfer_to_blind_apply op db)) db)"

definition blind_transfer :: "blind_env \<Rightarrow> bool \<Rightarrow> share_type \<Rightarrow> blind_transfer_operation \<Rightarrow> database \<Rightarrow> (unit \<times> database) exn" where
  "blind_transfer E sk rq op db =
    bindE (blind_transfer_validate E op) (\<lambda>_.
    start_evaluate sk rq GRAPHENE_TEMP_ACCOUNT (btr_fee op) (\<lambda>_. blind_transfer_evaluate op) False
      (blind_pay_fee 1) (\<lambda>_ _ db. void_result (blind_transfer_apply op db)) db)"

definition transfer_from_blind :: "blind_env \<Rightarrow> bool \<Rightarrow> share_type \<Rightarrow> transfer_from_blind_operation \<Rightarrow> database \<Rightarrow> (unit \<times> database) exn" where
  "transfer_from_blind E sk rq op db =
    bindE (transfer_from_blind_validate E op) (\<lambda>_.
    start_evaluate sk rq GRAPHENE_TEMP_ACCOUNT (tfb_fee op) (\<lambda>_. transfer_from_blind_evaluate op) False
      (blind_pay_fee 2) (\<lambda>_ _ db. void_result (transfer_from_blind_apply op db)) db)"

section \<open>What the commitments hide\<close>

text \<open>
  fc's commitments are Pedersen commitments: points \<open>f G + x H\<close> of a group, for a blinding factor \<open>f\<close> and an amount
  \<open>x\<close>, which hide the amount because every point has an opening for every amount. What the code relies on is that a sum
  that verifies is a sum of points. A group is given by the point that a commitment stands for and the points \<open>x H\<close> and
  \<open>f G\<close>.
\<close>

record 'g commitment_group =
  point :: "nat \<Rightarrow> 'g"
  value_point :: "int \<Rightarrow> 'g"
  blinding_point :: "nat \<Rightarrow> 'g"

definition value_additive :: "'g::ab_group_add commitment_group \<Rightarrow> bool" where
  "value_additive P \<longleftrightarrow> (\<forall>x y. value_point P (x + y) = value_point P x + value_point P y)"

definition pedersen :: "blind_env \<Rightarrow> 'g::ab_group_add commitment_group \<Rightarrow> bool" where
  "pedersen E P \<longleftrightarrow> value_additive P
    \<and> (\<forall>f x. 0 \<le> x \<and> x < 2 ^ 64 \<longrightarrow> point P (blind_fn E f x) = blinding_point P f + value_point P x)
    \<and> (\<forall>ins outs net. verify_sum E ins outs net \<longrightarrow>
        sum_list (map (point P) ins) = sum_list (map (point P) outs) + value_point P net)"

lemma value_point_simps:
  assumes "value_additive P"
  shows "value_point P 0 = 0" "value_point P (- x) = - value_point P x" "value_point P (x + y) = value_point P x + value_point P y"
    "value_point P (x - y) = value_point P x - value_point P y"
proof -
  have add: "value_point P (x + y) = value_point P x + value_point P y" for x y using assms by (simp add: value_additive_def)
  show z: "value_point P 0 = 0" using add [of 0 0] by simp
  show neg: "value_point P (- x) = - value_point P x" for x using add [of x "- x"] z by (simp add: eq_neg_iff_add_eq_0 add.commute)
  show "value_point P (x + y) = value_point P x + value_point P y" by (rule add)
  show "value_point P (x - y) = value_point P x - value_point P y" using add [of x "- y"] neg [of y] by simp
qed

text \<open>The sum of a group-valued function over an index.\<close>

definition point_sum :: "('a \<Rightarrow> 'g::ab_group_add) \<Rightarrow> 'a index \<Rightarrow> 'g" where
  "point_sum f t = sum_list (map (\<lambda>p. f (snd p)) (objs t))"

lemma point_sum_create: "point_sum f (idx_create t v) = point_sum f t + f v"
  by (simp add: point_sum_def idx_create_def)

lemma point_sum_del:
  "distinct (map fst xs) \<Longrightarrow> map_of xs i = Some v \<Longrightarrow>
    sum_list (map (\<lambda>p. f (snd p)) (filter (\<lambda>p. fst p \<noteq> i) xs)) = sum_list (map (\<lambda>p. f (snd p)) xs) - (f v :: 'g::ab_group_add)"
proof (induction xs)
  case (Cons p xs)
  have "filter (\<lambda>p. fst p \<noteq> i) xs = xs" if "fst p = i"
    using Cons.prems that by (intro filter_True) (auto simp: image_iff)
  with Cons show ?case by (cases "fst p = i") auto
qed simp

lemma point_sum_remove: "idx_ok t \<Longrightarrow> idx_find t i = Some v \<Longrightarrow> point_sum f (idx_remove t i) = point_sum f t - f v"
  by (simp add: point_sum_def idx_remove_def idx_ok_def idx_find_def point_sum_del)

definition hidden_point :: "'g::ab_group_add commitment_group \<Rightarrow> asset_id_type \<Rightarrow> blinded_balance_object \<Rightarrow> 'g" where
  "hidden_point P i b = (if bb_asset_id b = i then point P (commitment b) else 0)"

text \<open>
  The blinding of all blinded balances of an asset together: the sum of their commitments less the point of the confidential
  supply.
\<close>

definition hidden_gap :: "'g::ab_group_add commitment_group \<Rightarrow> asset_id_type \<Rightarrow> database \<Rightarrow> 'g" where
  "hidden_gap P i db = point_sum (hidden_point P i) (blinded_balances db)
     - value_point P (dyn_field confidential_supply i (assets db) (asset_dynamic_data db))"

lemma hidden_gap_frame [simp, frame_simps]:
  "hidden_gap P i (db\<lparr>balances := x1\<rparr>) = hidden_gap P i db"
  "hidden_gap P i (db\<lparr>account_stats := x2\<rparr>) = hidden_gap P i db"
  "hidden_gap P i (db\<lparr>fba_accumulators := x3\<rparr>) = hidden_gap P i db"
  by (simp_all add: hidden_gap_def)

text \<open>A step that moves the gap: by \<open>g\<close>, and the books by \<open>d\<close>.\<close>

definition blind_moved :: "'g::ab_group_add commitment_group \<Rightarrow> (asset_id_type \<Rightarrow> int) \<Rightarrow> (asset_id_type \<Rightarrow> 'g) \<Rightarrow> database \<Rightarrow> database \<Rightarrow> bool" where
  "blind_moved P d g db db' \<longleftrightarrow> funds_moved d db db' \<and> (\<forall>i. hidden_gap P i db' = hidden_gap P i db + g i)"

lemma blind_movedD:
  "blind_moved P d g db db' \<Longrightarrow> fund_ok db'" "blind_moved P d g db db' \<Longrightarrow> funds_moved d db db'"
  "blind_moved P d g db db' \<Longrightarrow> books i db' = books i db + d i"
  "blind_moved P d g db db' \<Longrightarrow> hidden_gap P i db' = hidden_gap P i db + g i"
  by (simp_all add: blind_moved_def funds_moved_def)

lemma blind_moved_trans: "blind_moved P d g a b \<Longrightarrow> blind_moved P e h b c \<Longrightarrow> blind_moved P (\<lambda>i. d i + e i) (\<lambda>i. g i + h i) a c"
  by (simp add: blind_moved_def funds_moved_def)

lemma adjust_blind_moved:
  assumes "adjust_balance a x db = Inr db'" "fund_ok db"
  shows "blind_moved P (\<lambda>i. asset_part i x) (\<lambda>_. 0) db db'" "blinded_balances db' = blinded_balances db"
proof -
  have ok: "db_ok db" using assms(2) by (simp add: fund_ok_def)
  obtain t where t: "db' = db\<lparr>balances := t\<rparr>" using assms(1) ok by (rule adjust_balance_effect) blast
  show "blind_moved P (\<lambda>i. asset_part i x) (\<lambda>_. 0) db db'" using adjust_moved [OF assms] by (simp add: blind_moved_def) (simp add: t)
  show "blinded_balances db' = blinded_balances db" by (simp add: t)
qed

lemma confidential_blind_moved:
  assumes "adjust_confidential j x db = Inr db'" "fund_ok db" and add: "value_additive P"
  shows "blind_moved P (\<lambda>i. if i = j then x else 0) (\<lambda>i. if i = j then - value_point P x else 0) db db'" "blinded_balances db' = blinded_balances db"
proof -
  have ok: "db_ok db" using assms(2) by (simp add: fund_ok_def)
  obtain a d d' where e: "idx_find (assets db) j = Some a" "idx_find (asset_dynamic_data db) (dynamic_asset_data_id a) = Some d"
    "bindE (safe_add (confidential_supply d) x) (\<lambda>c. bindE (fc_assert (0 \<le> c) ''obj.confidential_supply >= 0'') (\<lambda>_.
       Inr (d\<lparr>confidential_supply := c\<rparr>))) = Inr d'"
    "db' = db\<lparr>asset_dynamic_data := idx_put (asset_dynamic_data db) (dynamic_asset_data_id a) d'\<rparr>" "db_ok db'"
    "\<And>i. held i db' = held i db + (if i = j then accumulated_fees d' - accumulated_fees d + confidential_supply d' - confidential_supply d else 0)
      + (if i = 0 then fee_pool d' - fee_pool d else 0)"
    "\<And>i. supply_of i db' = supply_of i db + (if i = j then current_supply d' - current_supply d else 0)"
    using assms(1) [unfolded adjust_confidential_def] ok by (rule modify_dynamic_effect) blast
  have d': "d' = d\<lparr>confidential_supply := confidential_supply d + x\<rparr>" using e(3) by auto
  have o: "dyn_ids_ok (assets db)" "idx_ok (assets db)" using ok by (auto simp: db_ok_def indices_ok_def)
  have "hidden_gap P i db' = hidden_gap P i db + (if i = j then - value_point P x else 0)" for i
    unfolding hidden_gap_def by (simp add: e(4) dyn_field_put [OF o e(1,2)] d' value_point_simps [OF add])
  moreover have "genesis_balances db' = genesis_balances db" by (simp add: e(4))
  then have "funds_moved (\<lambda>i. if i = j then x else 0) db db'"
    using e(5,6,7) assms(2) by (simp add: funds_moved_def books_def fund_ok_def d')
  ultimately show "blind_moved P (\<lambda>i. if i = j then x else 0) (\<lambda>i. if i = j then - value_point P x else 0) db db'"
    by (simp add: blind_moved_def)
  show "blinded_balances db' = blinded_balances db" by (simp add: e(4))
qed

lemma blinded_blind_moved:
  assumes "fund_ok db" "idx_ok t"
    and "\<And>i. point_sum (hidden_point P i) t = point_sum (hidden_point P i) (blinded_balances db) + g i"
  shows "blind_moved P (\<lambda>_. 0) g db (db\<lparr>blinded_balances := t\<rparr>)"
  using assms by (simp add: blind_moved_def funds_moved_def fund_ok_def db_ok_update(16) books_def hidden_gap_def)

lemma create_blinded_moved:
  assumes "foldE (create_blinded j) xs db = Inr db'" "fund_ok db"
  shows "blind_moved P (\<lambda>_. 0) (\<lambda>i. if i = j then sum_list (map (point P) (map out_commitment xs)) else 0) db db'"
  using assms
proof (induction xs arbitrary: db)
  case Nil
  then show ?case by (simp add: blind_moved_def funds_moved_def)
next
  case (Cons x xs)
  let ?b = "\<lparr>commitment = out_commitment x, bb_asset_id = j, bb_owner = out_owner x\<rparr>"
  let ?db = "db\<lparr>blinded_balances := idx_create (blinded_balances db) ?b\<rparr>"
  from Cons.prems(1) obtain db1 where c: "create_blinded j x db = Inr db1" and f: "foldE (create_blinded j) xs db1 = Inr db'" by auto
  have rest: "foldE (create_blinded j) xs ?db = Inr db'" using f c by (simp add: create_blinded_def)
  have o: "idx_ok (blinded_balances db)" using Cons.prems(2) by (simp add: fund_ok_def db_okD)
  have m: "blind_moved P (\<lambda>_. 0) (\<lambda>i. if i = j then point P (out_commitment x) else 0) db ?db"
    using o by (intro blinded_blind_moved Cons.prems(2)) (auto simp: point_sum_create hidden_point_def)
  have "(\<lambda>i. (if i = j then point P (out_commitment x) else 0) + (if i = j then sum_list (map (point P) (map out_commitment xs)) else 0))
      = (\<lambda>i. if i = j then sum_list (map (point P) (map out_commitment (x # xs))) else 0)" by auto
  then show ?case using blind_moved_trans [OF m Cons.IH [OF rest blind_movedD(1) [OF m]]] by simp
qed

lemma find_filter_other: "(\<And>p. p \<in> set xs \<Longrightarrow> fst p = k \<Longrightarrow> \<not> P (snd p)) \<Longrightarrow>
    List.find (\<lambda>p. P (snd p)) (filter (\<lambda>p. fst p \<noteq> k) xs) = List.find (\<lambda>p. P (snd p)) xs"
  by (induction xs) auto

lemma find_commitment_SomeD:
  "idx_ok (blinded_balances db) \<Longrightarrow> find_commitment c db = Some p \<Longrightarrow> idx_find (blinded_balances db) (fst p) = Some (snd p) \<and> commitment (snd p) = c"
  unfolding find_commitment_def by (blast dest: idx_find_by_SomeD)

lemma find_commitment_remove:
  assumes "idx_ok (blinded_balances db)" "find_commitment c db = Some p" "c' \<noteq> c"
  shows "find_commitment c' (db\<lparr>blinded_balances := idx_remove (blinded_balances db) (fst p)\<rparr>) = find_commitment c' db"
proof -
  note f = find_commitment_SomeD [OF assms(1,2)]
  have "commitment (snd q) \<noteq> c'" if "q \<in> set (objs (blinded_balances db))" "fst q = fst p" for q
  proof -
    have "idx_find (blinded_balances db) (fst q) = Some (snd q)" using in_idx_find [OF assms(1)] that(1) by (metis prod.collapse)
    then show ?thesis using f assms(3) that(2) by auto
  qed
  then show ?thesis unfolding find_commitment_def idx_find_by_def idx_remove_def by (simp add: find_filter_other [where P = "\<lambda>b. commitment b = c'"])
qed

lemma check_blind_inputs_remove:
  assumes "idx_ok (blinded_balances db)" "find_commitment c db = Some p" "c \<notin> set (map in_commitment xs)"
  shows "check_blind_inputs e i (db\<lparr>blinded_balances := idx_remove (blinded_balances db) (fst p)\<rparr>) xs = check_blind_inputs e i db xs"
  using assms(3) by (induction xs) (auto simp: find_commitment_remove [OF assms(1,2)])

lemma check_blind_inputs_same:
  "blinded_balances db = blinded_balances db0 \<Longrightarrow> check_blind_inputs e i db xs = check_blind_inputs e i db0 xs"
  by (induction xs) (simp_all add: find_commitment_def)

lemma remove_blinded_moved:
  assumes "foldE (remove_blinded e) xs db = Inr db'" "fund_ok db" "check_blind_inputs e' j db xs = Inr u" "distinct (map in_commitment xs)"
  shows "blind_moved P (\<lambda>_. 0) (\<lambda>i. if i = j then - sum_list (map (point P) (map in_commitment xs)) else 0) db db'"
  using assms
proof (induction xs arbitrary: db)
  case Nil
  then show ?case by (simp add: blind_moved_def funds_moved_def)
next
  case (Cons x xs)
  have o: "idx_ok (blinded_balances db)" using Cons.prems(2) by (simp add: fund_ok_def db_okD)
  from Cons.prems(1) obtain db1 where r: "remove_blinded e x db = Inr db1" and fold: "foldE (remove_blinded e) xs db1 = Inr db'" by auto
  from r obtain p where p: "find_commitment (in_commitment x) db = Some p"
    and db1: "db1 = db\<lparr>blinded_balances := idx_remove (blinded_balances db) (fst p)\<rparr>"
    unfolding remove_blinded_def bindE_eq_Inr ofOption_eq_Inr by auto
  note rest = fold [unfolded db1]
  have j: "bb_asset_id (snd p) = j" and chk: "check_blind_inputs e' j db xs = Inr u" using Cons.prems(3) p by simp_all
  let ?db = "db\<lparr>blinded_balances := idx_remove (blinded_balances db) (fst p)\<rparr>"
  note f = find_commitment_SomeD [OF o p]
  have m: "blind_moved P (\<lambda>_. 0) (\<lambda>i. if i = j then - point P (in_commitment x) else 0) db ?db"
    using o f j by (intro blinded_blind_moved Cons.prems(2)) (auto simp: point_sum_remove hidden_point_def)
  have "check_blind_inputs e' j ?db xs = Inr u" using chk check_blind_inputs_remove [OF o p] Cons.prems(4) by simp
  note IH = Cons.IH [OF rest blind_movedD(1) [OF m] this]
  have "(\<lambda>i. (if i = j then - point P (in_commitment x) else 0) + (if i = j then - sum_list (map (point P) (map in_commitment xs)) else 0))
      = (\<lambda>i. if i = j then - sum_list (map (point P) (map in_commitment (x # xs))) else 0)" by auto
  then show ?case using blind_moved_trans [OF m IH] Cons.prems(4) by simp
qed

section \<open>The effect of the three operations\<close>

lemma check_inputs_sorted: "check_inputs prev xs = Inr u \<Longrightarrow> sorted_wrt (<) (case_option [] (\<lambda>c. [c]) prev @ map in_commitment xs)"
proof (induction xs arbitrary: prev)
  case (Cons x xs)
  then show ?case using Cons.IH [of "Some (in_commitment x)"] by (cases prev) (auto dest: less_trans)
qed (simp split: option.split)

lemma check_inputs_distinct: "check_inputs None xs = Inr u \<Longrightarrow> distinct (map in_commitment xs)"
  using check_inputs_sorted [of None xs u] strict_sorted_iff [of "map in_commitment xs"] by simp

lemma part_of_own: "(\<lambda>i. asset_part i x) = (\<lambda>i. if i = asset_id x then amount x else 0)"
  by (auto simp: asset_part_def)

lemma to_blind_moved:
  assumes "transfer_to_blind_apply op db = Inr db'" "fund_ok db" and add: "value_additive P"
  shows "blind_moved P (\<lambda>_. 0)
    (\<lambda>i. if i = asset_id (ttb_amount op) then sum_list (map (point P) (map out_commitment (ttb_outputs op))) - value_point P (amount (ttb_amount op)) else 0) db db'"
proof -
  from assms(1) obtain n db1 db2 where n: "asset_neg (ttb_amount op) = Inr n" and a: "adjust_balance (ttb_from op) n db = Inr db1"
    and c: "adjust_confidential (asset_id (ttb_amount op)) (amount (ttb_amount op)) db1 = Inr db2"
    and f: "foldE (create_blinded (asset_id (ttb_amount op))) (ttb_outputs op) db2 = Inr db'"
    unfolding transfer_to_blind_apply_def bindE_eq_Inr by blast
  note m1 = adjust_blind_moved(1) [OF a assms(2)]
  note m2 = confidential_blind_moved(1) [OF c blind_movedD(1) [OF m1] add]
  note m3 = create_blinded_moved [OF f blind_movedD(1) [OF m2]]
  have "n = mk_asset (- amount (ttb_amount op)) (asset_id (ttb_amount op))" using n by auto
  then show ?thesis using blind_moved_trans [OF m1 blind_moved_trans [OF m2 m3]]
    by (simp add: blind_moved_def funds_moved_def asset_part_def value_point_simps [OF add] algebra_simps)
qed

lemma to_blind_small:
  assumes "transfer_to_blind_apply op db = Inr db'" "transfer_to_blind_validate E op = Inr u"
  shows "amount (ttb_amount op) < 2 ^ 64"
proof -
  from assms(1) obtain n where "asset_neg (ttb_amount op) = Inr n" unfolding transfer_to_blind_apply_def bindE_eq_Inr by blast
  then show ?thesis by (auto simp: asset_neg_def in_int64_def)
qed

lemma from_blind_moved:
  assumes "transfer_from_blind_apply op db = Inr db'" "fund_ok db" "transfer_from_blind_validate E op = Inr u"
    and "transfer_from_blind_evaluate op db0 = Inr v" "blinded_balances db = blinded_balances db0" and add: "value_additive P"
  shows "blind_moved P (\<lambda>_. 0) (\<lambda>i. if i = asset_id (tfb_amount op)
      then value_point P (amount (tfb_fee op) + amount (tfb_amount op)) - sum_list (map (point P) (map in_commitment (tfb_inputs op))) else 0) db db'"
    "in_int64 (amount (tfb_fee op) + amount (tfb_amount op))"
proof -
  from assms(1) obtain db1 db2 db3 x where a: "adjust_balance GRAPHENE_TEMP_ACCOUNT (tfb_fee op) db = Inr db1"
    and b: "adjust_balance (tfb_to op) (tfb_amount op) db1 = Inr db2"
    and f: "foldE (remove_blinded end_of_index) (tfb_inputs op) db2 = Inr db3" and x: "safe_add (amount (tfb_amount op)) (amount (tfb_fee op)) = Inr x"
    and c: "adjust_confidential (asset_id (tfb_amount op)) (- x) db3 = Inr db'"
    unfolding transfer_from_blind_apply_def bindE_eq_Inr by blast
  have same: "asset_id (tfb_fee op) = asset_id (tfb_amount op)" and d: "distinct (map in_commitment (tfb_inputs op))"
    using assms(3) check_inputs_distinct by (auto simp: transfer_from_blind_validate_def)
  note m1 = adjust_blind_moved [OF a assms(2)]
  note m2 = adjust_blind_moved [OF b blind_movedD(1) [OF m1(1)]]
  have bb: "blinded_balances db2 = blinded_balances db0" using m1(2) m2(2) assms(5) by simp
  have "check_blind_inputs end_of_index (asset_id (tfb_fee op)) db0 (tfb_inputs op) = Inr v"
    using assms(4) by (auto simp: transfer_from_blind_evaluate_def)
  then have "check_blind_inputs end_of_index (asset_id (tfb_amount op)) db2 (tfb_inputs op) = Inr v"
    using check_blind_inputs_same [OF bb] same by simp
  note m3 = remove_blinded_moved [OF f blind_movedD(1) [OF m2(1)] this d]
  note m4 = confidential_blind_moved(1) [OF c blind_movedD(1) [OF m3] add]
  show "blind_moved P (\<lambda>_. 0) (\<lambda>i. if i = asset_id (tfb_amount op)
      then value_point P (amount (tfb_fee op) + amount (tfb_amount op)) - sum_list (map (point P) (map in_commitment (tfb_inputs op))) else 0) db db'"
    using blind_moved_trans [OF m1(1) blind_moved_trans [OF m2(1) blind_moved_trans [OF m3 m4]]] x same
    by (simp add: blind_moved_def funds_moved_def asset_part_def value_point_simps [OF add] algebra_simps)
  show "in_int64 (amount (tfb_fee op) + amount (tfb_amount op))" using x by (simp add: add.commute)
qed

lemma blind_transfer_moved:
  assumes "blind_transfer_apply op db = Inr db'" "fund_ok db" "blind_transfer_validate E op = Inr u"
    and "blind_transfer_evaluate op db0 = Inr v" "blinded_balances db = blinded_balances db0" and add: "value_additive P"
  shows "blind_moved P (\<lambda>_. 0) (\<lambda>i. if i = asset_id (btr_fee op) then sum_list (map (point P) (map out_commitment (btr_outputs op)))
      - sum_list (map (point P) (map in_commitment (btr_inputs op))) + value_point P (amount (btr_fee op)) else 0) db db'"
proof -
  from assms(1) obtain db1 db2 db3 where a: "adjust_balance GRAPHENE_TEMP_ACCOUNT (btr_fee op) db = Inr db1"
    and f: "foldE (remove_blinded unknown_commitment) (btr_inputs op) db1 = Inr db2"
    and g: "foldE (create_blinded (asset_id (btr_fee op))) (btr_outputs op) db2 = Inr db3"
    and c: "adjust_confidential (asset_id (btr_fee op)) (- amount (btr_fee op)) db3 = Inr db'"
    unfolding blind_transfer_apply_def bindE_eq_Inr by blast
  have d: "distinct (map in_commitment (btr_inputs op))" using assms(3) check_inputs_distinct by (auto simp: blind_transfer_validate_def)
  note m1 = adjust_blind_moved [OF a assms(2)]
  have bb: "blinded_balances db1 = blinded_balances db0" using m1(2) assms(5) by simp
  have "check_blind_inputs unknown_commitment (asset_id (btr_fee op)) db1 (btr_inputs op) = Inr v"
    using assms(4) by (auto simp: blind_transfer_evaluate_def check_blind_inputs_same [OF bb])
  note m2 = remove_blinded_moved [OF f blind_movedD(1) [OF m1(1)] this d]
  note m3 = create_blinded_moved [OF g blind_movedD(1) [OF m2]]
  note m4 = confidential_blind_moved(1) [OF c blind_movedD(1) [OF m3] add]
  show ?thesis using blind_moved_trans [OF m1(1) blind_moved_trans [OF m2 blind_moved_trans [OF m3 m4]]]
    by (simp add: blind_moved_def funds_moved_def asset_part_def value_point_simps [OF add] algebra_simps)
qed

section \<open>Running a blinded operation\<close>

lemma convert_fee_gap:
  assumes "convert_fee False fs db = Inr db'" "db_ok db"
  shows "hidden_gap P i db' = hidden_gap P i db"
proof (cases "asset_id (fee_from_account fs) = 0")
  case True
  then show ?thesis using assms(1) by (simp add: convert_fee_def)
next
  case False
  have o: "dyn_ids_ok (assets db)" "idx_ok (assets db)" using assms(2) by (auto simp: db_ok_def indices_ok_def)
  from False obtain a d where a: "idx_find (assets db) (asset_id (fee_from_account fs)) = Some a"
    and d: "idx_find (asset_dynamic_data db) (dynamic_asset_data_id a) = Some d"
    and db': "db' = db\<lparr>asset_dynamic_data := idx_put (asset_dynamic_data db) (dynamic_asset_data_id a)
      (d\<lparr>accumulated_fees := accumulated_fees d + amount (fee_from_account fs), fee_pool := fee_pool d - core_fee_paid fs\<rparr>)\<rparr>"
    using assms(1) by (auto simp: convert_fee_def modify_dynamic_def)
  show ?thesis by (simp add: db' hidden_gap_def dyn_field_put [OF o a d])
qed

lemma pay_fee_changes:
  assumes "pay_fee False fs db = Inr db'"
  obtains t where "db' = db\<lparr>account_stats := t\<rparr>"
  using assms by (auto simp: pay_fee_def modify_stats_def)

lemma blind_pay_changes:
  assumes "blind_pay_fee k fs db = Inr db'"
  obtains t where "db' = db\<lparr>account_stats := t\<rparr>" | t where "db' = db\<lparr>fba_accumulators := t\<rparr>"
proof (cases "HARDFORK_563_TIME \<le> head_block_time db")
  case True
  then obtain f conf where c: "fba_is_configured f db = Inr conf" and f: "idx_find (fba_accumulators db) k = Some f"
    using assms by (auto simp: blind_pay_fee_def pay_fba_fee_def)
  show thesis
  proof (cases conf)
    case True
    then show thesis using assms c f \<open>HARDFORK_563_TIME \<le> head_block_time db\<close> that(2) by (auto simp: blind_pay_fee_def pay_fba_fee_def)
  next
    case False
    then have "pay_fee False fs db = Inr db'" using assms c f \<open>HARDFORK_563_TIME \<le> head_block_time db\<close> by (auto simp: blind_pay_fee_def pay_fba_fee_def)
    then show thesis by (rule pay_fee_changes) (rule that(1))
  qed
next
  case False
  then have "pay_fee False fs db = Inr db'" using assms by (simp add: blind_pay_fee_def)
  then show thesis by (rule pay_fee_changes) (rule that(1))
qed

lemma blind_pay_moved:
  assumes "fund_ok db" "blind_pay_fee k fs db = Inr db'"
  shows "funds_moved (\<lambda>i. asset_part i (mk_asset (core_fee_paid fs) 0)) db db' \<and> same_pools db' db"
proof (cases "HARDFORK_563_TIME \<le> head_block_time db")
  case True
  then have p: "pay_fba_fee False k fs db = Inr db'" using assms(2) by (simp add: blind_pay_fee_def)
  have "same_pools db' db" using assms(2) by (rule blind_pay_changes) (simp_all add: same_pools_def)
  then show ?thesis using pay_fba_fee_books [OF p] assms(1) by (simp add: funds_moved_def fund_ok_def same_pools_def)
next
  case False
  then show ?thesis using pay_fee_moved [OF assms(1)] assms(2) by (simp add: blind_pay_fee_def)
qed

lemma blind_pay_gap:
  assumes "blind_pay_fee k fs db = Inr db'"
  shows "hidden_gap P i db' = hidden_gap P i db"
  using assms by (rule blind_pay_changes) simp_all

locale blinded_operation = balanced_operation ev pay app
  for ev :: "fee_state \<Rightarrow> database \<Rightarrow> 'e exn" and pay and app :: "'e \<Rightarrow> fee_state \<Rightarrow> database \<Rightarrow> ('r \<times> database) exn" +
  fixes E :: blind_env and P :: "'g::ab_group_add commitment_group" and shift :: "asset_id_type \<Rightarrow> 'g"
  assumes pay_gap: "pay fs db = Inr db' \<Longrightarrow> hidden_gap P i db' = hidden_gap P i db"
    and app_gap: "pedersen E P \<Longrightarrow> fund_ok db \<Longrightarrow> ev fs db0 = Inr e \<Longrightarrow> same_pools db db0
      \<Longrightarrow> app e fs db = Inr r \<Longrightarrow> hidden_gap P i (snd r) = hidden_gap P i db + shift i"
begin

lemma operation_moves_gap:
  assumes "start_evaluate sk rq payer fee ev False pay app db = Inr r" "fund_ok db" "pedersen E P"
  shows "hidden_gap P i (snd r) = hidden_gap P i db + shift i"
proof -
  from assms(1) obtain fs e db1 db2 q neg where fs: "prepare_fee payer fee db = Inr fs"
    and v: "ev fs db = Inr e" and c: "convert_fee False fs db = Inr db1" and p: "pay fs db1 = Inr db2" and a: "app e fs db2 = Inr q"
    and b: "adjust_balance payer neg (snd q) = Inr (snd r)"
    by (auto simp: start_evaluate_def)
  have core: "asset_id (fee_from_account fs) = 0 \<longrightarrow> core_fee_paid fs = amount (fee_from_account fs)"
    using prepare_fee_facts [OF fs] by simp
  have ok1: "fund_ok db1" using ok_convert [OF assms(2) core c] .
  have ok2: "fund_ok db2" using pay_moved [OF ok1 p] funds_movedD(1) by blast
  have g1: "hidden_gap P i db1 = hidden_gap P i db" using convert_fee_gap [OF c ok_db [OF assms(2)]] .
  have g: "same_pools db2 db"
    using pay_moved [OF ok1 p] convert_fee_effect(7) [OF c ok_db [OF assms(2)] core] by (auto simp: same_pools_def)
  have q: "fund_ok (snd q)" using funds_movedD(1) [OF app_moved [OF ok2 v g a]] .
  have "hidden_gap P i (snd r) = hidden_gap P i (snd q)" using blind_movedD(4) [OF adjust_blind_moved(1) [OF b q]] by simp
  then show ?thesis using app_gap [OF assms(3) ok2 v g a, of i] pay_gap [OF p, of i] g1 by simp
qed

end

lemma validated_run:
  "bindE m (\<lambda>_. start_evaluate sk rq payer fee ev False pay app db) = Inr r \<Longrightarrow>
    start_evaluate sk rq payer fee (\<lambda>fs db. bindE m (\<lambda>_. ev fs db)) False pay app db = Inr r"
  by (auto simp: start_evaluate_def)

lemma pedersenD:
  assumes "pedersen E P"
  shows "value_additive P" "0 \<le> x \<Longrightarrow> x < 2 ^ 64 \<Longrightarrow> point P (blind_fn E f x) = blinding_point P f + value_point P x"
    "verify_sum E ins outs net \<Longrightarrow> sum_list (map (point P) ins) = sum_list (map (point P) outs) + value_point P net"
  using assms by (simp_all add: pedersen_def)

lemma to_blind_gap:
  assumes "pedersen E P" "transfer_to_blind_validate E op = Inr u" "amount (ttb_amount op) < 2 ^ 64"
  shows "sum_list (map (point P) (map out_commitment (ttb_outputs op))) - value_point P (amount (ttb_amount op))
    = blinding_point P (ttb_blinding_factor op)"
proof -
  let ?c = "blind_fn E (ttb_blinding_factor op) (amount (ttb_amount op))"
  have "verify_sum E [?c] (map out_commitment (ttb_outputs op)) 0" "0 \<le> amount (ttb_amount op)"
    using assms(2) by (auto simp: transfer_to_blind_validate_def)
  then show ?thesis
    using pedersenD(2) [OF assms(1) _ assms(3)] pedersenD(3) [OF assms(1)] value_point_simps(1) [OF pedersenD(1) [OF assms(1)]]
    by (fastforce simp: algebra_simps)
qed

lemma from_blind_gap:
  assumes "pedersen E P" "transfer_from_blind_validate E op = Inr u" "in_int64 (amount (tfb_fee op) + amount (tfb_amount op))"
  shows "value_point P (amount (tfb_fee op) + amount (tfb_amount op)) - sum_list (map (point P) (map in_commitment (tfb_inputs op)))
    = - blinding_point P (tfb_blinding_factor op)"
proof -
  let ?x = "amount (tfb_fee op) + amount (tfb_amount op)"
  let ?c = "blind_fn E (tfb_blinding_factor op) ?x"
  have "0 < amount (tfb_amount op)" "0 \<le> amount (tfb_fee op)" using assms(2) by (auto simp: transfer_from_blind_validate_def)
  then have "0 \<le> ?x" by linarith
  moreover have "?x < 2 ^ 64" using assms(3) by (simp add: in_int64_def)
  ultimately have x: "0 \<le> ?x" "?x < 2 ^ 64" by blast+
  have "wrap64 ?x = ?x" using assms(3) x(1) by (intro wrap64_id) (simp_all add: in_int64_def)
  then have "verify_sum E (map in_commitment (tfb_inputs op)) [?c] 0" using assms(2) by (auto simp: transfer_from_blind_validate_def)
  from pedersenD(3) [OF assms(1) this]
  have "sum_list (map (point P) (map in_commitment (tfb_inputs op))) = blinding_point P (tfb_blinding_factor op) + value_point P ?x"
    using pedersenD(2) [OF assms(1) x] value_point_simps(1) [OF pedersenD(1) [OF assms(1)]] by simp
  then show ?thesis by simp
qed

lemma blind_transfer_gap:
  assumes "pedersen E P" "blind_transfer_validate E op = Inr u"
  shows "sum_list (map (point P) (map out_commitment (btr_outputs op))) - sum_list (map (point P) (map in_commitment (btr_inputs op)))
      + value_point P (amount (btr_fee op)) = 0"
proof -
  have "verify_sum E (map in_commitment (btr_inputs op)) (map out_commitment (btr_outputs op)) (amount (btr_fee op))"
    using assms(2) by (auto simp: blind_transfer_validate_def)
  from pedersenD(3) [OF assms(1) this] show ?thesis by simp
qed

text \<open>The group of one element, for the facts that do not depend on the group.\<close>

definition trivial_group :: "int commitment_group" where
  "trivial_group = \<lparr>point = \<lambda>_. 0, value_point = \<lambda>_. 0, blinding_point = \<lambda>_. 0\<rparr>"

lemma trivial_additive: "value_additive trivial_group"
  by (simp add: value_additive_def trivial_group_def)

definition blinding_shift :: "asset_id_type \<Rightarrow> 'g::ab_group_add \<Rightarrow> asset_id_type \<Rightarrow> 'g" where
  "blinding_shift j g i = (if i = j then g else 0)"

interpretation blinding: blinded_operation "\<lambda>_ db. bindE (transfer_to_blind_validate E op) (\<lambda>_. transfer_to_blind_evaluate op db)"
  "blind_pay_fee 0" "\<lambda>_ _ db. void_result (transfer_to_blind_apply op db)" E P
  "blinding_shift (asset_id (ttb_amount op)) (blinding_point P (ttb_blinding_factor op))" for E op P
proof (unfold_locales, goal_cases)
  case (1 db fs db')
  then show ?case by (rule blind_pay_moved)
next
  case (2 db fs db0 e r)
  then show ?case using blind_movedD(2) [OF to_blind_moved [OF _ _ trivial_additive]] by simp
next
  case (3 fs db db' i)
  then show ?case by (rule blind_pay_gap)
next
  case (4 db fs db0 e r i)
  then have a: "transfer_to_blind_apply op db = Inr (snd r)" and v: "transfer_to_blind_validate E op = Inr ()" by auto
  show ?case
    using blind_movedD(4) [OF to_blind_moved [OF a 4(2) pedersenD(1) [OF 4(1)]], of i] to_blind_gap [OF 4(1) v to_blind_small [OF a v]]
    by (simp add: blinding_shift_def)
qed

interpretation blind_moving: blinded_operation "\<lambda>_ db. bindE (blind_transfer_validate E op) (\<lambda>_. blind_transfer_evaluate op db)"
  "blind_pay_fee 1" "\<lambda>_ _ db. void_result (blind_transfer_apply op db)" E P "\<lambda>_. 0" for E op P
proof (unfold_locales, goal_cases)
  case (1 db fs db')
  then show ?case by (rule blind_pay_moved)
next
  case (2 db fs db0 e r)
  then show ?case using blind_movedD(2) [OF blind_transfer_moved [OF _ _ _ _ _ trivial_additive]] by (auto simp: same_pools_def)
next
  case (3 fs db db' i)
  then show ?case by (rule blind_pay_gap)
next
  case (4 db fs db0 e r i)
  then have a: "blind_transfer_apply op db = Inr (snd r)" and v: "blind_transfer_validate E op = Inr ()"
    and e: "blind_transfer_evaluate op db0 = Inr e" and b: "blinded_balances db = blinded_balances db0" by (auto simp: same_pools_def)
  show ?case using blind_movedD(4) [OF blind_transfer_moved [OF a 4(2) v e b pedersenD(1) [OF 4(1)]], of i] blind_transfer_gap [OF 4(1) v] by simp
qed

interpretation unblinding: blinded_operation "\<lambda>_ db. bindE (transfer_from_blind_validate E op) (\<lambda>_. transfer_from_blind_evaluate op db)"
  "blind_pay_fee 2" "\<lambda>_ _ db. void_result (transfer_from_blind_apply op db)" E P
  "blinding_shift (asset_id (tfb_amount op)) (- blinding_point P (tfb_blinding_factor op))" for E op P
proof (unfold_locales, goal_cases)
  case (1 db fs db')
  then show ?case by (rule blind_pay_moved)
next
  case (2 db fs db0 e r)
  then show ?case using blind_movedD(2) [OF from_blind_moved(1) [OF _ _ _ _ _ trivial_additive]] by (auto simp: same_pools_def)
next
  case (3 fs db db' i)
  then show ?case by (rule blind_pay_gap)
next
  case (4 db fs db0 e r i)
  then have a: "transfer_from_blind_apply op db = Inr (snd r)" and v: "transfer_from_blind_validate E op = Inr ()"
    and e: "transfer_from_blind_evaluate op db0 = Inr e" and b: "blinded_balances db = blinded_balances db0" by (auto simp: same_pools_def)
  note m = from_blind_moved [OF a 4(2) v e b pedersenD(1) [OF 4(1)]]
  show ?case using blind_movedD(4) [OF m(1), of i] from_blind_gap [OF 4(1) v m(2)] by (simp add: blinding_shift_def)
qed

lemmas blind_moved_still = blind_moving.operation_moves_gap [unfolded add_0_right]

text \<open>C9: Blinded funds stay backed. Moving funds into, among and out of blinded balances leaves, for every asset, what the
  chain holds (blinded balances counted by the confidential supply) minus its supply as it was. And for Pedersen
  commitments, where a verified sum is a sum of points, the commitments of the blinded balances of an asset together are a
  commitment to its confidential supply: what the sum of their points has beyond the point of the confidential supply is
  the sum of the blinding factors that were published. Blinding an amount adds the point of its factor, unblinding takes
  it away, and a transfer among blinded balances changes nothing.\<close>

theorem blinded_balances_backed:
  assumes "fund_ok db" "pedersen E P"
  shows "(transfer_to_blind E sk rq a db = Inr ra \<longrightarrow> fund_ok (snd ra) \<and> (\<forall>i. books i (snd ra) = books i db)
        \<and> (\<forall>i. hidden_gap P i (snd ra) = hidden_gap P i db
            + blinding_shift (asset_id (ttb_amount a)) (blinding_point P (ttb_blinding_factor a)) i))
    \<and> (blind_transfer E sk rq b db = Inr rb \<longrightarrow> fund_ok (snd rb) \<and> (\<forall>i. books i (snd rb) = books i db)
        \<and> (\<forall>i. hidden_gap P i (snd rb) = hidden_gap P i db))
    \<and> (transfer_from_blind E sk rq c db = Inr rc \<longrightarrow> fund_ok (snd rc) \<and> (\<forall>i. books i (snd rc) = books i db)
        \<and> (\<forall>i. hidden_gap P i (snd rc) = hidden_gap P i db
            + blinding_shift (asset_id (tfb_amount c)) (- blinding_point P (tfb_blinding_factor c)) i))"
  unfolding transfer_to_blind_def blind_transfer_def transfer_from_blind_def
  by (intro conjI impI allI; drule validated_run)
    (erule blinding.operation_conserves [OF _ assms(1)] blind_moving.operation_conserves [OF _ assms(1)]
      unblinding.operation_conserves [OF _ assms(1)] blinding.operation_moves_gap [OF _ assms]
      blind_moved_still [OF _ assms] unblinding.operation_moves_gap [OF _ assms])+

text \<open>
  Commitments in the group of 64-bit words, which hide their amounts: the commitment of 40 with the factor 9 is also one of
  39 with the factor 14. Account 5 blinds 40 of the core asset in two outputs.
\<close>

definition open_group :: "64 word commitment_group" where
  "open_group = \<lparr>point = word_of_nat, value_point = \<lambda>x. 5 * word_of_int x, blinding_point = word_of_nat\<rparr>"

definition open_env :: blind_env where
  "open_env = \<lparr>blind_fn = \<lambda>f x. unat (word_of_nat f + 5 * word_of_int x :: 64 word),
     verify_sum = \<lambda>ins outs net. sum_list (map word_of_nat ins) = sum_list (map word_of_nat outs) + (5 * word_of_int net :: 64 word),
     range_max = \<lambda>_. Inr 100\<rparr>"

definition demo_owner :: authority where
  "demo_owner = \<lparr>weight_threshold = 1, account_auths = [(6, 1)], key_auths = [], address_auths = []\<rparr>"

definition demo_blinding :: transfer_to_blind_operation where
  "demo_blinding = \<lparr>ttb_fee = mk_asset 3 0, ttb_amount = mk_asset 40 0, ttb_from = 5, ttb_blinding_factor = 9,
     ttb_outputs = [\<lparr>out_commitment = 100, range_proof = [], out_owner = demo_owner\<rparr>, \<lparr>out_commitment = 109, range_proof = [], out_owner = demo_owner\<rparr>]\<rparr>"

lemma open_env_pedersen: "pedersen open_env open_group"
  by (simp add: pedersen_def value_additive_def open_env_def open_group_def algebra_simps)

lemma three_accumulators: "replicate 3 x = [x, x, x]"
  by (simp add: numeral_3_eq_3)

theorem blinded_balances_backed_witness:
  "blind_fn open_env 9 40 = blind_fn open_env 14 39 \<and>
   (\<exists>r. transfer_to_blind open_env False 3 demo_blinding demo_chain = Inr r \<and> amount (get_balance (snd r) 5 0) = 657
     \<and> length (objs (blinded_balances (snd r))) = 2 \<and> hidden_gap open_group 0 (snd r) = hidden_gap open_group 0 demo_chain + 9)"
proof -
  have "fund_ok demo_chain" by (simp add: fund_ok_def demo_chain_ok grants_ok_def) (simp add: demo_chain_simps)
  moreover have "\<exists>r. transfer_to_blind open_env False 3 demo_blinding demo_chain = Inr r \<and> amount (get_balance (snd r) 5 0) = 657
     \<and> length (objs (blinded_balances (snd r))) = 2"
    by (simp add: demo_blinding_def demo_owner_def open_env_def demo_chain_simps Let_def index_eval asset_eval fee_eval transfer_to_blind_def
        transfer_to_blind_validate_def transfer_to_blind_evaluate_def transfer_to_blind_apply_def is_impossible_def output_accounts_def
        allow_confidential_def disable_confidential_def white_list_def is_transfer_restricted_def transfer_restricted_def
        blind_pay_fee_def HARDFORK_563_TIME_def pay_fba_fee_def fba_is_configured_def adjust_confidential_def create_blinded_def
        find_commitment_def void_result_def three_accumulators
        cong: bindE_weak_cong del: bindE_eq_Inr void_result_eq_Inr)
  moreover have "blinding_shift (asset_id (ttb_amount demo_blinding)) (blinding_point open_group (ttb_blinding_factor demo_blinding)) 0 = 9"
    by (simp add: blinding_shift_def demo_blinding_def open_group_def)
  moreover have "blind_fn open_env 9 40 = blind_fn open_env 14 39" by (simp add: open_env_def)
  ultimately show ?thesis
    using blinded_balances_backed [of demo_chain open_env open_group False 3 demo_blinding] open_env_pedersen by metis
qed

end
