(* ===== verification/AssetEvaluator.thy ===== *)
theory AssetEvaluator
  imports Blinded AmountText
begin

text \<open>
  The operations on assets: \<^verbatim>\<open>asset_evaluator.cpp\<close>, their static checks \<^verbatim>\<open>protocol/asset_ops.cpp\<close>, and the median of
  the price feeds of \<^verbatim>\<open>asset_object.cpp\<close>. Descriptions and memos have no effect and are left out. \<^verbatim>\<open>std::nth_element\<close>
  is modelled by the full ordering that it permits.
\<close>

section \<open>Symbols and options\<close>

definition HARDFORK_385_TIME :: nat where "HARDFORK_385_TIME = 1445558400"
definition HARDFORK_409_TIME :: nat where "HARDFORK_409_TIME = 1446652800"
definition HARDFORK_413_TIME :: nat where "HARDFORK_413_TIME = 1446652800"
definition HARDFORK_480_TIME :: nat where "HARDFORK_480_TIME = 1450378800"
definition HARDFORK_572_TIME :: nat where "HARDFORK_572_TIME = 1456250400"
definition HARDFORK_CORE_429_TIME :: nat where "HARDFORK_CORE_429_TIME = 1512747600"

definition witness_fed_asset :: "16 word" where "witness_fed_asset = 0x80"
definition committee_fed_asset :: "16 word" where "committee_fed_asset = 0x100"
definition ASSET_ISSUER_PERMISSION_MASK :: "16 word" where "ASSET_ISSUER_PERMISSION_MASK = 0x1FF"

definition isupper :: "char \<Rightarrow> bool" where
  "isupper c \<longleftrightarrow> 65 \<le> (of_char c :: nat) \<and> (of_char c :: nat) \<le> 90"

definition isalpha :: "char \<Rightarrow> bool" where
  "isalpha c \<longleftrightarrow> isupper c \<or> 97 \<le> (of_char c :: nat) \<and> (of_char c :: nat) \<le> 122"

fun symbol_chars :: "bool \<Rightarrow> string \<Rightarrow> bool" where
  "symbol_chars dot_already_present [] = True"
| "symbol_chars dot_already_present (c # cs) =
    (if isalpha c \<and> isupper c \<or> isdigit c then symbol_chars dot_already_present cs
     else if c = CHR ''.'' then (if dot_already_present then False else symbol_chars True cs)
     else False)"

definition is_valid_symbol :: "string \<Rightarrow> bool" where
  "is_valid_symbol s =
    (if length s < 3 then False
     else if take 3 s = ''BIT'' then False
     else if 16 < length s then False
     else if \<not> isalpha (hd s) then False
     else if \<not> isalpha (last s) then False
     else symbol_chars False s)"

definition asset_options_validate :: "asset_options \<Rightarrow> unit exn" where
  "asset_options_validate a =
    bindE (fc_assert (0 < max_supply a) ''max_supply > 0'') (\<lambda>_.
    bindE (fc_assert (max_supply a \<le> GRAPHENE_MAX_SHARE_SUPPLY) ''max_supply <= GRAPHENE_MAX_SHARE_SUPPLY'') (\<lambda>_.
    bindE (fc_assert (int (market_fee_percent a) \<le> GRAPHENE_100_PERCENT) ''market_fee_percent <= GRAPHENE_100_PERCENT'') (\<lambda>_.
    bindE (fc_assert (0 \<le> max_market_fee a \<and> max_market_fee a \<le> GRAPHENE_MAX_SHARE_SUPPLY) ''max_market_fee'') (\<lambda>_.
    bindE (fc_assert (\<not> has_flag (issuer_permissions a) (not ASSET_ISSUER_PERMISSION_MASK)) ''issuer_permissions'') (\<lambda>_.
    bindE (fc_assert (\<not> has_flag (flags a) global_settle) ''!(flags & global_settle)'') (\<lambda>_.
    bindE (fc_assert (and (flags a) (or witness_fed_asset committee_fed_asset) \<noteq> or witness_fed_asset committee_fed_asset) ''fed'') (\<lambda>_.
    bindE (price_validate (ao_core_exchange_rate a)) (\<lambda>_.
    bindE (fc_assert (asset_id (base (ao_core_exchange_rate a)) = 0 \<or> asset_id (quote (ao_core_exchange_rate a)) = 0) ''core_exchange_rate'') (\<lambda>_.
    bindE (if whitelist_authorities a \<noteq> [] \<or> blacklist_authorities a \<noteq> []
           then fc_assert (has_flag (flags a) white_list) ''flags & white_list'' else Inr ()) (\<lambda>_.
    bindE (fc_assert (list_all (\<lambda>i. i \<notin> set (blacklist_markets a)) (whitelist_markets a)) ''whitelist_markets'') (\<lambda>_.
    fc_assert (list_all (\<lambda>i. i \<notin> set (whitelist_markets a)) (blacklist_markets a)) ''blacklist_markets'')))))))))))"

definition bitasset_options_validate :: "bitasset_options \<Rightarrow> unit exn" where
  "bitasset_options_validate b =
    bindE (fc_assert (0 < minimum_feeds b) ''minimum_feeds > 0'') (\<lambda>_.
    bindE (fc_assert (int (force_settlement_offset_percent b) \<le> GRAPHENE_100_PERCENT) ''force_settlement_offset_percent'') (\<lambda>_.
    fc_assert (int (maximum_force_settlement_volume b) \<le> GRAPHENE_100_PERCENT) ''maximum_force_settlement_volume''))"

definition asset_object_validate :: "asset_object \<Rightarrow> unit exn" where
  "asset_object_validate a =
    (if \<not> is_market_issued a
     then bindE (fc_assert (\<not> (has_flag (flags (a_options a)) disable_force_settle \<or> has_flag (flags (a_options a)) global_settle)) ''flags'') (\<lambda>_.
          fc_assert (\<not> (has_flag (issuer_permissions (a_options a)) disable_force_settle \<or> has_flag (issuer_permissions (a_options a)) global_settle))
            ''issuer_permissions'')
     else Inr ())"

section \<open>The median of the price feeds\<close>

definition default_price_feed :: price_feed where
  "default_price_feed = \<lparr>settlement_price = null_price, core_exchange_rate = null_price, maintenance_collateral_ratio = 1750,
     maximum_short_squeeze_ratio = 1500\<rparr>"

definition feed_eq :: "price_feed \<Rightarrow> price_feed \<Rightarrow> bool" where
  "feed_eq a b \<longleftrightarrow> price_eq (settlement_price a) (settlement_price b)
    \<and> maintenance_collateral_ratio a = maintenance_collateral_ratio b \<and> maximum_short_squeeze_ratio a = maximum_short_squeeze_ratio b"

definition feed_is_current :: "asset_bitasset_data_object \<Rightarrow> time_point_sec \<Rightarrow> account_id_type \<times> time_point_sec \<times> price_feed \<Rightarrow> bool" where
  "feed_is_current b now f \<longleftrightarrow> int now - int (fst (snd f)) < int (feed_lifetime_sec (ba_options b)) \<and> fst (snd f) \<noteq> 0"

definition by_price_field :: "(price_feed \<Rightarrow> price) \<Rightarrow> price_feed \<Rightarrow> price_feed \<Rightarrow> bool" where
  "by_price_field f a b = price_lt (f a) (f b)"

definition by_ratio_field :: "(price_feed \<Rightarrow> int) \<Rightarrow> price_feed \<Rightarrow> price_feed \<Rightarrow> bool" where
  "by_ratio_field f a b \<longleftrightarrow> f a < f b"

definition median_feed :: "price_feed list \<Rightarrow> price_feed" where
  "median_feed fs0 =
    (let k = length fs0 div 2;
         fs1 = order_by (by_price_field settlement_price) fs0;
         fs2 = order_by (by_ratio_field maintenance_collateral_ratio) fs1;
         fs3 = order_by (by_ratio_field maximum_short_squeeze_ratio) fs2;
         fs4 = order_by (by_price_field core_exchange_rate) fs3
     in \<lparr>settlement_price = settlement_price (fs1 ! k), core_exchange_rate = core_exchange_rate (fs4 ! k),
         maintenance_collateral_ratio = maintenance_collateral_ratio (fs2 ! k),
         maximum_short_squeeze_ratio = maximum_short_squeeze_ratio (fs3 ! k)\<rparr>)"

text \<open>A median of no feeds, which only a minimum of zero feeds admits, reads past the end of a vector.\<close>

definition update_median_feeds :: "time_point_sec \<Rightarrow> asset_bitasset_data_object \<Rightarrow> asset_bitasset_data_object exn" where
  "update_median_feeds now b =
    (let cur = filter (feed_is_current b now) (feeds b); fs = map (\<lambda>f. snd (snd f)) cur
     in if length fs < minimum_feeds (ba_options b)
        then Inr (b\<lparr>current_feed_publication_time := now, current_feed := default_price_feed\<rparr>)
        else let b = b\<lparr>current_feed_publication_time := foldl min now (map (\<lambda>f. fst (snd f)) cur)\<rparr>
             in case fs of
                  [] \<Rightarrow> Inl (chain_exception ''median of no feeds'')
                | [f] \<Rightarrow> Inr (b\<lparr>current_feed := f\<rparr>)
                | _ \<Rightarrow> Inr (b\<lparr>current_feed := median_feed fs\<rparr>))"

section \<open>Creating an asset\<close>

record asset_create_operation =
  acr_fee :: asset
  acr_issuer :: account_id_type
  acr_symbol :: string
  acr_precision :: nat
  common_options :: asset_options
  bitasset_opts :: "bitasset_options option"
  acr_is_prediction_market :: bool

definition asset_create_validate :: "asset_create_operation \<Rightarrow> unit exn" where
  "asset_create_validate op =
    bindE (fc_assert (0 \<le> amount (acr_fee op)) ''fee.amount >= 0'') (\<lambda>_.
    bindE (fc_assert (is_valid_symbol (acr_symbol op)) ''is_valid_symbol(symbol)'') (\<lambda>_.
    bindE (asset_options_validate (common_options op)) (\<lambda>_.
    bindE (if has_flag (issuer_permissions (common_options op)) (or disable_force_settle global_settle)
           then fc_assert (bitasset_opts op \<noteq> None) ''bitasset_opts.valid()'' else Inr ()) (\<lambda>_.
    bindE (if acr_is_prediction_market op
           then bindE (fc_assert (bitasset_opts op \<noteq> None) ''Cannot have a User-Issued Asset implement a prediction market.'') (\<lambda>_.
                fc_assert (has_flag (issuer_permissions (common_options op)) global_settle) ''global_settle'')
           else Inr ()) (\<lambda>_.
    bindE (case bitasset_opts op of None \<Rightarrow> Inr () | Some b \<Rightarrow> bitasset_options_validate b) (\<lambda>_.
    bindE (asset_times_price (mk_asset 1 0) (ao_core_exchange_rate (common_options op))) (\<lambda>dummy.
    bindE (fc_assert (asset_id dummy = 1) ''dummy.asset_id == asset_id_type(1)'') (\<lambda>_.
    fc_assert (acr_precision op \<le> 12) ''precision <= 12''))))))))"

definition find_symbol :: "string \<Rightarrow> database \<Rightarrow> (nat \<times> asset_object) option" where
  "find_symbol sy db = idx_find_by (\<lambda>a. symbol a = sy) (assets db)"

text \<open>The owner of a name before the dot; the branch of the older hardfork looks up the whole symbol.\<close>

definition check_prefix_owner :: "string \<Rightarrow> account_id_type \<Rightarrow> database \<Rightarrow> unit exn" where
  "check_prefix_owner sy who db =
    bindE (ofOption (assert_exception ''has not been registered'') (find_symbol sy db)) (\<lambda>p.
    fc_assert (issuer (snd p) = who) ''may only be created by issuer'')"

definition before_last_dot :: "string \<Rightarrow> string" where
  "before_last_dot sy = rev (tl (dropWhile (\<lambda>c. c \<noteq> CHR ''.'') (rev sy)))"

definition check_symbol_prefix :: "string \<Rightarrow> account_id_type \<Rightarrow> database \<Rightarrow> unit exn" where
  "check_symbol_prefix sy who db =
    (if HARDFORK_385_TIME < head_block_time db \<and> CHR ''.'' \<in> set sy
     then check_prefix_owner (if head_block_time db \<le> HARDFORK_409_TIME then sy else before_last_dot sy) who db
     else Inr ())"

text \<open>Only assets backed by the core asset may belong to the committee; the backing may go over one other market issued asset.\<close>

definition check_core_backing :: "bool \<Rightarrow> bool \<Rightarrow> asset_id_type \<Rightarrow> database \<Rightarrow> unit exn" where
  "check_core_backing nested_allowed committee backing_id db =
    bindE (get_asset db backing_id) (\<lambda>backing.
    if is_market_issued backing
    then bindE (bitasset_data backing db) (\<lambda>bd.
         bindE (get_asset db (short_backing_asset (ba_options bd))) (\<lambda>backing_backing.
         bindE (fc_assert (nested_allowed \<or> \<not> is_market_issued backing_backing)
                  ''May not create a bitasset backed by a bitasset backed by a bitasset.'') (\<lambda>_.
         fc_assert (\<not> committee \<or> short_backing_asset (ba_options bd) = 0) ''not backed by CORE'')))
    else fc_assert (\<not> committee \<or> backing_id = 0) ''not backed by CORE'')"

definition asset_create_evaluate :: "asset_create_operation \<Rightarrow> database \<Rightarrow> unit exn" where
  "asset_create_evaluate op db =
    bindE (fc_assert (length (whitelist_authorities (common_options op)) \<le> maximum_asset_whitelist_authorities (parameters (global_properties db)))
             ''whitelist_authorities'') (\<lambda>_.
    bindE (fc_assert (length (blacklist_authorities (common_options op)) \<le> maximum_asset_whitelist_authorities (parameters (global_properties db)))
             ''blacklist_authorities'') (\<lambda>_.
    bindE (check_accounts db (whitelist_authorities (common_options op))) (\<lambda>_.
    bindE (check_accounts db (blacklist_authorities (common_options op))) (\<lambda>_.
    bindE (fc_assert (find_symbol (acr_symbol op) db = None) ''asset_symbol_itr == asset_indx.end()'') (\<lambda>_.
    bindE (check_symbol_prefix (acr_symbol op) (acr_issuer op) db) (\<lambda>_.
    bindE (case bitasset_opts op of None \<Rightarrow> Inr ()
           | Some b \<Rightarrow>
               bindE (check_core_backing False (acr_issuer op = GRAPHENE_COMMITTEE_ACCOUNT) (short_backing_asset b) db) (\<lambda>_.
               fc_assert (block_interval (parameters (global_properties db)) < feed_lifetime_sec b
                 \<and> block_interval (parameters (global_properties db)) < force_settlement_delay_sec b) ''block_interval'')) (\<lambda>_.
    bindE (if acr_is_prediction_market op
           then bindE (ofOption (assert_exception ''op.bitasset_opts'') (bitasset_opts op)) (\<lambda>b.
                bindE (get_asset db (short_backing_asset b)) (\<lambda>a.
                fc_assert (acr_precision op = decimals a) ''precision''))
           else Inr ()) (\<lambda>_.
    if head_block_time db \<le> HARDFORK_CORE_429_TIME
    then fc_assert (asset_id (acr_fee op) = 0) ''Can only pay fee in BTS since block #21040000'' else Inr ()))))))))"

text \<open>Half of the fee goes to the fee pool of the new asset; an odd share is made up for by the supply, or left out.\<close>

definition half_fee :: "share_type \<Rightarrow> share_type" where
  "half_fee c = c - (if 0 \<le> c then c div 2 else - (- c div 2))"

definition asset_create_pay_fee :: "fee_state \<Rightarrow> database \<Rightarrow> database exn" where
  "asset_create_pay_fee fs = pay_fee False (fs\<lparr>core_fee_paid := half_fee (core_fee_paid fs)\<rparr>)"

definition new_bitasset :: "bitasset_options \<Rightarrow> bool \<Rightarrow> asset_bitasset_data_object" where
  "new_bitasset b pm = \<lparr>ba_options = b, feeds = [], current_feed = default_price_feed, current_feed_publication_time = 0,
     is_prediction_market = pm, force_settled_volume = 0, ba_settlement_price = null_price, settlement_fund = 0\<rparr>"

definition own_exchange_rate :: "asset_id_type \<Rightarrow> price \<Rightarrow> price" where
  "own_exchange_rate i p =
    (if asset_id (base p) = 0 then mk_price (base p) (mk_asset (amount (quote p)) i) else mk_price (mk_asset (amount (base p)) i) (quote p))"

definition asset_create_apply :: "asset_create_operation \<Rightarrow> fee_state \<Rightarrow> database \<Rightarrow> (nat \<times> database) exn" where
  "asset_create_apply op fs db =
    (let fee_is_odd = odd (core_fee_paid fs);
         hf_429 = (fee_is_odd \<and> HARDFORK_CORE_429_TIME < head_block_time db)
     in
     bindE (safe_sub (half_fee (core_fee_paid fs)) (if hf_429 then 1 else 0)) (\<lambda>pool.
     let dyn_id = next_id (asset_dynamic_data db);
         db = db\<lparr>asset_dynamic_data := idx_create (asset_dynamic_data db)
           \<lparr>current_supply = 0, confidential_supply = 0, accumulated_fees = 0, fee_pool = pool\<rparr>\<rparr>
     in
     bindE (if fee_is_odd \<and> \<not> hf_429
            then modify_dynamic 0 (\<lambda>d. bindE (safe_add (current_supply d) 1) (\<lambda>x. Inr (d\<lparr>current_supply := x\<rparr>))) db
            else Inr db) (\<lambda>db.
     let bit_id = map_option (\<lambda>_. next_id (asset_bitasset_data db)) (bitasset_opts op);
         db = (case bitasset_opts op of None \<Rightarrow> db
               | Some b \<Rightarrow> db\<lparr>asset_bitasset_data := idx_create (asset_bitasset_data db) (new_bitasset b (acr_is_prediction_market op))\<rparr>);
         next_asset_id = next_id (assets db);
         opts = (common_options op)\<lparr>ao_core_exchange_rate := own_exchange_rate next_asset_id (ao_core_exchange_rate (common_options op))\<rparr>
     in Inr (next_asset_id, db\<lparr>assets := idx_create (assets db)
          \<lparr>symbol = acr_symbol op, decimals = acr_precision op, issuer = acr_issuer op, a_options = opts,
            dynamic_asset_data_id = dyn_id, bitasset_data_id = bit_id, buyback_account = None\<rparr>\<rparr>))))"

section \<open>Issuing, reserving and funding\<close>

record asset_issue_operation =
  ais_fee :: asset
  ais_issuer :: account_id_type
  asset_to_issue :: asset
  issue_to_account :: account_id_type

definition asset_issue_validate :: "asset_issue_operation \<Rightarrow> unit exn" where
  "asset_issue_validate op =
    bindE (fc_assert (0 \<le> amount (ais_fee op)) ''fee.amount >= 0'') (\<lambda>_.
    bindE (fc_assert (amount (asset_to_issue op) \<le> GRAPHENE_MAX_SHARE_SUPPLY) ''asset_to_issue.amount'') (\<lambda>_.
    bindE (fc_assert (0 < amount (asset_to_issue op)) ''asset_to_issue.amount.value > 0'') (\<lambda>_.
    fc_assert (asset_id (asset_to_issue op) \<noteq> 0) ''asset_to_issue.asset_id != asset_id_type(0)'')))"

definition asset_issue_evaluate :: "asset_issue_operation \<Rightarrow> database \<Rightarrow> unit exn" where
  "asset_issue_evaluate op db =
    bindE (get_asset db (asset_id (asset_to_issue op))) (\<lambda>a.
    bindE (fc_assert (ais_issuer op = issuer a) ''o.issuer == a.issuer'') (\<lambda>_.
    bindE (fc_assert (\<not> is_market_issued a) ''Cannot manually issue a market-issued asset.'') (\<lambda>_.
    bindE (get_account db (issue_to_account op)) (\<lambda>to_account.
    bindE (fc_assert (is_authorized_asset db to_account (asset_id (asset_to_issue op)) a) ''is_authorized_asset'') (\<lambda>_.
    bindE (idx_get ''asset_dynamic_data'' (asset_dynamic_data db) (dynamic_asset_data_id a)) (\<lambda>dyn.
    bindE (safe_add (current_supply dyn) (amount (asset_to_issue op))) (\<lambda>x.
    fc_assert (x \<le> max_supply (a_options a)) ''max_supply'')))))))"

definition adjust_supply :: "asset_id_type \<Rightarrow> int \<Rightarrow> database \<Rightarrow> database exn" where
  "adjust_supply i x = modify_dynamic i (\<lambda>d. bindE (safe_add (current_supply d) x) (\<lambda>y. Inr (d\<lparr>current_supply := y\<rparr>)))"

definition asset_issue_apply :: "asset_issue_operation \<Rightarrow> database \<Rightarrow> database exn" where
  "asset_issue_apply op db =
    bindE (adjust_balance (issue_to_account op) (asset_to_issue op) db) (\<lambda>db.
    adjust_supply (asset_id (asset_to_issue op)) (amount (asset_to_issue op)) db)"

record asset_reserve_operation =
  are_fee :: asset
  are_payer :: account_id_type
  amount_to_reserve :: asset

definition asset_reserve_validate :: "asset_reserve_operation \<Rightarrow> unit exn" where
  "asset_reserve_validate op =
    bindE (fc_assert (0 \<le> amount (are_fee op)) ''fee.amount >= 0'') (\<lambda>_.
    bindE (fc_assert (amount (amount_to_reserve op) \<le> GRAPHENE_MAX_SHARE_SUPPLY) ''amount_to_reserve'') (\<lambda>_.
    fc_assert (0 < amount (amount_to_reserve op)) ''amount_to_reserve.amount.value > 0''))"

definition asset_reserve_evaluate :: "asset_reserve_operation \<Rightarrow> database \<Rightarrow> unit exn" where
  "asset_reserve_evaluate op db =
    bindE (get_asset db (asset_id (amount_to_reserve op))) (\<lambda>a.
    bindE (graphene_assert (\<not> is_market_issued a) ''asset_reserve_invalid_on_mia'') (\<lambda>_.
    bindE (get_account db (are_payer op)) (\<lambda>from_account.
    bindE (fc_assert (is_authorized_asset db from_account (asset_id (amount_to_reserve op)) a) ''is_authorized_asset'') (\<lambda>_.
    bindE (idx_get ''asset_dynamic_data'' (asset_dynamic_data db) (dynamic_asset_data_id a)) (\<lambda>dyn.
    bindE (safe_sub (current_supply dyn) (amount (amount_to_reserve op))) (\<lambda>x.
    fc_assert (0 \<le> x) ''current_supply''))))))"

definition asset_reserve_apply :: "asset_reserve_operation \<Rightarrow> database \<Rightarrow> database exn" where
  "asset_reserve_apply op db =
    bindE (asset_neg (amount_to_reserve op)) (\<lambda>n.
    bindE (adjust_balance (are_payer op) n db) (\<lambda>db.
    adjust_supply (asset_id (amount_to_reserve op)) (- amount (amount_to_reserve op)) db))"

record asset_fund_fee_pool_operation =
  aff_fee :: asset
  aff_from_account :: account_id_type
  aff_asset_id :: asset_id_type
  aff_amount :: share_type

definition asset_fund_fee_pool_validate :: "asset_fund_fee_pool_operation \<Rightarrow> unit exn" where
  "asset_fund_fee_pool_validate op =
    bindE (fc_assert (0 \<le> amount (aff_fee op)) ''fee.amount >= 0'') (\<lambda>_.
    bindE (fc_assert (asset_id (aff_fee op) = 0) ''fee.asset_id == asset_id_type()'') (\<lambda>_.
    fc_assert (0 < aff_amount op) ''amount > 0''))"

definition asset_fund_fee_pool_evaluate :: "asset_fund_fee_pool_operation \<Rightarrow> database \<Rightarrow> unit exn" where
  "asset_fund_fee_pool_evaluate op db =
    bindE (get_asset db (aff_asset_id op)) (\<lambda>a.
    bindE (idx_get ''asset_dynamic_data'' (asset_dynamic_data db) (dynamic_asset_data_id a)) (\<lambda>_. Inr ()))"

definition asset_fund_fee_pool_apply :: "asset_fund_fee_pool_operation \<Rightarrow> database \<Rightarrow> database exn" where
  "asset_fund_fee_pool_apply op db =
    bindE (safe_neg (aff_amount op)) (\<lambda>n.
    bindE (adjust_balance (aff_from_account op) (mk_asset n 0) db) (\<lambda>db.
    modify_dynamic (aff_asset_id op) (\<lambda>d. bindE (safe_add (fee_pool d) (aff_amount op)) (\<lambda>x. Inr (d\<lparr>fee_pool := x\<rparr>))) db))"

record asset_claim_fees_operation =
  acf_fee :: asset
  acf_issuer :: account_id_type
  amount_to_claim :: asset

definition asset_claim_fees_validate :: "asset_claim_fees_operation \<Rightarrow> unit exn" where
  "asset_claim_fees_validate op =
    bindE (fc_assert (0 \<le> amount (acf_fee op)) ''fee.amount >= 0'') (\<lambda>_.
    fc_assert (0 < amount (amount_to_claim op)) ''amount_to_claim.amount > 0'')"

definition asset_claim_fees_evaluate :: "asset_claim_fees_operation \<Rightarrow> database \<Rightarrow> unit exn" where
  "asset_claim_fees_evaluate op db =
    bindE (fc_assert (HARDFORK_413_TIME < head_block_time db) ''HARDFORK_413_TIME'') (\<lambda>_.
    bindE (get_asset db (asset_id (amount_to_claim op))) (\<lambda>a.
    fc_assert (issuer a = acf_issuer op) ''Asset fees may only be claimed by the issuer''))"

definition asset_claim_fees_apply :: "asset_claim_fees_operation \<Rightarrow> database \<Rightarrow> database exn" where
  "asset_claim_fees_apply op db =
    bindE (modify_dynamic (asset_id (amount_to_claim op)) (\<lambda>d.
      bindE (fc_assert (amount (amount_to_claim op) \<le> accumulated_fees d) ''Attempt to claim more fees than have accumulated'') (\<lambda>_.
      bindE (safe_sub (accumulated_fees d) (amount (amount_to_claim op))) (\<lambda>x.
      Inr (d\<lparr>accumulated_fees := x\<rparr>)))) db) (\<lambda>db.
    adjust_balance (acf_issuer op) (amount_to_claim op) db)"

section \<open>Updating an asset\<close>

record asset_update_operation =
  aup_fee :: asset
  aup_issuer :: account_id_type
  aup_asset_to_update :: asset_id_type
  new_issuer :: "account_id_type option"
  aup_new_options :: asset_options

definition asset_update_validate :: "asset_update_operation \<Rightarrow> unit exn" where
  "asset_update_validate op =
    bindE (fc_assert (0 \<le> amount (aup_fee op)) ''fee.amount >= 0'') (\<lambda>_.
    bindE (case new_issuer op of None \<Rightarrow> Inr () | Some n \<Rightarrow> fc_assert (aup_issuer op \<noteq> n) ''issuer != *new_issuer'') (\<lambda>_.
    bindE (asset_options_validate (aup_new_options op)) (\<lambda>_.
    bindE (asset_times_price (mk_asset 1 (aup_asset_to_update op)) (ao_core_exchange_rate (aup_new_options op))) (\<lambda>dummy.
    fc_assert (asset_id dummy = 0) ''dummy.asset_id == asset_id_type()''))))"

definition asset_update_evaluate :: "asset_update_operation \<Rightarrow> database \<Rightarrow> unit exn" where
  "asset_update_evaluate op db =
    bindE (get_asset db (aup_asset_to_update op)) (\<lambda>a.
    bindE (asset_object_validate (a\<lparr>a_options := aup_new_options op\<rparr>)) (\<lambda>_.
    bindE (case new_issuer op of None \<Rightarrow> Inr ()
           | Some n \<Rightarrow>
               bindE (fc_assert (idx_find (accounts db) n \<noteq> None) ''d.find_object(*o.new_issuer)'') (\<lambda>_.
               if is_market_issued a \<and> n = GRAPHENE_COMMITTEE_ACCOUNT
               then bindE (bitasset_data a db) (\<lambda>b. check_core_backing True True (short_backing_asset (ba_options b)) db)
               else Inr ())) (\<lambda>_.
    bindE (if head_block_time db < HARDFORK_572_TIME then Inr True
           else bindE (idx_get ''asset_dynamic_data'' (asset_dynamic_data db) (dynamic_asset_data_id a)) (\<lambda>dyn. Inr (current_supply dyn \<noteq> 0))) (\<lambda>fixed.
    bindE (if fixed
           then fc_assert (\<not> has_flag (issuer_permissions (aup_new_options op)) (not (issuer_permissions (a_options a))))
                  ''Cannot reinstate previously revoked issuer permissions on an asset.''
           else Inr ()) (\<lambda>_.
    bindE (fc_assert (\<not> has_flag (xor (flags (aup_new_options op)) (flags (a_options a))) (not (issuer_permissions (a_options a))))
             ''Flag change is forbidden by issuer permissions'') (\<lambda>_.
    bindE (fc_assert (aup_issuer op = issuer a) ''o.issuer == a.issuer'') (\<lambda>_.
    bindE (fc_assert (length (whitelist_authorities (aup_new_options op)) \<le> maximum_asset_whitelist_authorities (parameters (global_properties db)))
             ''whitelist_authorities'') (\<lambda>_.
    bindE (check_accounts db (whitelist_authorities (aup_new_options op))) (\<lambda>_.
    bindE (fc_assert (length (blacklist_authorities (aup_new_options op)) \<le> maximum_asset_whitelist_authorities (parameters (global_properties db)))
             ''blacklist_authorities'') (\<lambda>_.
    check_accounts db (blacklist_authorities (aup_new_options op))))))))))))"

definition settlement_before :: "nat \<times> force_settlement_object \<Rightarrow> nat \<times> force_settlement_object \<Rightarrow> bool" where
  "settlement_before p q \<longleftrightarrow> settlement_date (snd p) < settlement_date (snd q)
    \<or> settlement_date (snd p) = settlement_date (snd q) \<and> fst p < fst q"

definition settlements_of :: "asset_id_type \<Rightarrow> database \<Rightarrow> nat list" where
  "settlements_of i db = map fst (order_by settlement_before (filter (\<lambda>p. asset_id (fs_balance (snd p)) = i) (objs (force_settlements db))))"

definition asset_update_apply :: "asset_update_operation \<Rightarrow> database \<Rightarrow> database exn" where
  "asset_update_apply op db =
    bindE (get_asset db (aup_asset_to_update op)) (\<lambda>a.
    bindE (if has_flag (flags (aup_new_options op)) disable_force_settle \<and> can_force_settle a
           then foldE (\<lambda>k. cancel_settle_order k True) (settlements_of (aup_asset_to_update op) db) db
           else Inr db) (\<lambda>db.
    bindE (idx_modify ''asset'' (assets db) (aup_asset_to_update op) (\<lambda>a.
      Inr (a\<lparr>issuer := (case new_issuer op of None \<Rightarrow> issuer a | Some n \<Rightarrow> n), a_options := aup_new_options op\<rparr>))) (\<lambda>t.
    Inr (db\<lparr>assets := t\<rparr>))))"

record asset_update_bitasset_operation =
  aub_fee :: asset
  aub_issuer :: account_id_type
  aub_asset_to_update :: asset_id_type
  aub_new_options :: bitasset_options

definition asset_update_bitasset_validate :: "asset_update_bitasset_operation \<Rightarrow> unit exn" where
  "asset_update_bitasset_validate op =
    bindE (fc_assert (0 \<le> amount (aub_fee op)) ''fee.amount >= 0'') (\<lambda>_.
    bitasset_options_validate (aub_new_options op))"

text \<open>The check for the committee reads the backing asset that is to be replaced.\<close>

definition asset_update_bitasset_evaluate :: "asset_update_bitasset_operation \<Rightarrow> database \<Rightarrow> unit exn" where
  "asset_update_bitasset_evaluate op db =
    bindE (get_asset db (aub_asset_to_update op)) (\<lambda>a.
    bindE (fc_assert (is_market_issued a) ''Cannot update BitAsset-specific settings on a non-BitAsset.'') (\<lambda>_.
    bindE (bitasset_data a db) (\<lambda>b.
    bindE (fc_assert (\<not> has_settlement b) ''Cannot update a bitasset after a settlement has executed'') (\<lambda>_.
    bindE (if short_backing_asset (aub_new_options op) \<noteq> short_backing_asset (ba_options b)
           then bindE (idx_get ''asset_dynamic_data'' (asset_dynamic_data db) (dynamic_asset_data_id a)) (\<lambda>dyn.
                bindE (fc_assert (current_supply dyn = 0) ''current_supply == 0'') (\<lambda>_.
                bindE (fc_assert (idx_find (assets db) (short_backing_asset (aub_new_options op)) \<noteq> None) ''d.find_object'') (\<lambda>_.
                if issuer a = GRAPHENE_COMMITTEE_ACCOUNT
                then check_core_backing True True (short_backing_asset (ba_options b)) db else Inr ())))
           else Inr ()) (\<lambda>_.
    fc_assert (aub_issuer op = issuer a) ''o.issuer == a.issuer'')))))"

definition asset_update_bitasset_apply :: "asset_update_bitasset_operation \<Rightarrow> database \<Rightarrow> database exn" where
  "asset_update_bitasset_apply op db =
    bindE (get_asset db (aub_asset_to_update op)) (\<lambda>a.
    modify_bitasset a (\<lambda>b.
      if minimum_feeds (aub_new_options op) \<noteq> minimum_feeds (ba_options b)
      then update_median_feeds (head_block_time db) (b\<lparr>ba_options := aub_new_options op\<rparr>)
      else Inr (b\<lparr>ba_options := aub_new_options op\<rparr>)) db)"

section \<open>Price feeds\<close>

record asset_update_feed_producers_operation =
  afp_fee :: asset
  afp_issuer :: account_id_type
  afp_asset_to_update :: asset_id_type
  new_feed_producers :: "account_id_type list"

definition asset_update_feed_producers_validate :: "asset_update_feed_producers_operation \<Rightarrow> unit exn" where
  "asset_update_feed_producers_validate op = fc_assert (0 \<le> amount (afp_fee op)) ''fee.amount >= 0''"

definition asset_update_feed_producers_evaluate :: "asset_update_feed_producers_operation \<Rightarrow> database \<Rightarrow> unit exn" where
  "asset_update_feed_producers_evaluate op db =
    bindE (fc_assert (length (new_feed_producers op) \<le> maximum_asset_feed_publishers (parameters (global_properties db))) ''new_feed_producers'') (\<lambda>_.
    bindE (check_accounts db (new_feed_producers op)) (\<lambda>_.
    bindE (get_asset db (afp_asset_to_update op)) (\<lambda>a.
    bindE (fc_assert (is_market_issued a) ''Cannot update feed producers on a non-BitAsset.'') (\<lambda>_.
    bindE (fc_assert (\<not> has_flag (flags (a_options a)) committee_fed_asset) ''Cannot set feed producers on a committee-fed asset.'') (\<lambda>_.
    bindE (fc_assert (\<not> has_flag (flags (a_options a)) witness_fed_asset) ''Cannot set feed producers on a witness-fed asset.'') (\<lambda>_.
    bindE (bitasset_data a db) (\<lambda>_.
    fc_assert (issuer a = afp_issuer op) ''a.issuer == o.issuer'')))))))"

text \<open>The feeds of the producers that stay, and an empty feed of time zero for each new one.\<close>

definition feeds_for :: "account_id_type list \<Rightarrow> (account_id_type \<times> time_point_sec \<times> price_feed) list
    \<Rightarrow> (account_id_type \<times> time_point_sec \<times> price_feed) list" where
  "feeds_for producers fs = foldl (\<lambda>fs p. if p \<in> fst ` set fs then fs else flat_put p (0, default_price_feed) fs)
     (filter (\<lambda>f. fst f \<in> set producers) fs) producers"

definition asset_update_feed_producers_apply :: "asset_update_feed_producers_operation \<Rightarrow> database \<Rightarrow> database exn" where
  "asset_update_feed_producers_apply op db =
    bindE (get_asset db (afp_asset_to_update op)) (\<lambda>a.
    bindE (modify_bitasset a (\<lambda>b. update_median_feeds (head_block_time db) (b\<lparr>feeds := feeds_for (new_feed_producers op) (feeds b)\<rparr>)) db) (\<lambda>db.
    bindE (check_call_orders (afp_asset_to_update op) True False db) (\<lambda>r. Inr (snd r))))"

record asset_publish_feed_operation =
  apf_fee :: asset
  publisher :: account_id_type
  apf_asset_id :: asset_id_type
  feed :: price_feed

definition asset_publish_feed_validate :: "asset_publish_feed_operation \<Rightarrow> unit exn" where
  "asset_publish_feed_validate op =
    bindE (fc_assert (0 \<le> amount (apf_fee op)) ''fee.amount >= 0'') (\<lambda>_.
    bindE (price_feed_validate (feed op)) (\<lambda>_.
    bindE (if \<not> price_is_null (core_exchange_rate (feed op)) then price_validate (core_exchange_rate (feed op)) else Inr ()) (\<lambda>_.
    bindE (if \<not> price_is_null (settlement_price (feed op)) \<and> \<not> price_is_null (core_exchange_rate (feed op))
           then fc_assert (asset_id (base (settlement_price (feed op))) = asset_id (base (core_exchange_rate (feed op)))) ''base'' else Inr ()) (\<lambda>_.
    bindE (fc_assert (\<not> price_is_null (settlement_price (feed op))) ''!feed.settlement_price.is_null()'') (\<lambda>_.
    bindE (fc_assert (\<not> price_is_null (core_exchange_rate (feed op))) ''!feed.core_exchange_rate.is_null()'') (\<lambda>_.
    fc_assert (price_feed_is_for (feed op) (apf_asset_id op)) ''feed.is_for( asset_id )''))))))"

definition asset_publish_feed_evaluate :: "asset_publish_feed_operation \<Rightarrow> database \<Rightarrow> unit exn" where
  "asset_publish_feed_evaluate op db =
    bindE (get_asset db (apf_asset_id op)) (\<lambda>a.
    bindE (fc_assert (is_market_issued a) ''base.is_market_issued()'') (\<lambda>_.
    bindE (bitasset_data a db) (\<lambda>b.
    bindE (if is_prediction_market b \<or> head_block_time db \<le> HARDFORK_CORE_216_TIME
           then fc_assert (\<not> has_settlement b) ''No further feeds may be published after a settlement event'' else Inr ()) (\<lambda>_.
    bindE (fc_assert (asset_id (quote (settlement_price (feed op))) = short_backing_asset (ba_options b)) ''short_backing_asset'') (\<lambda>_.
    bindE (if HARDFORK_480_TIME < head_block_time db
           then if \<not> price_is_null (core_exchange_rate (feed op))
                then fc_assert (asset_id (quote (core_exchange_rate (feed op))) = 0) ''core_exchange_rate.quote'' else Inr ()
           else if \<not> price_is_null (settlement_price (feed op)) \<and> \<not> price_is_null (core_exchange_rate (feed op))
                then fc_assert (asset_id (quote (settlement_price (feed op))) = asset_id (quote (core_exchange_rate (feed op)))) ''quote''
                else Inr ()) (\<lambda>_.
    if has_flag (flags (a_options a)) witness_fed_asset
    then bindE (get_account db GRAPHENE_WITNESS_ACCOUNT) (\<lambda>w.
         fc_assert (publisher op \<in> fst ` set (account_auths (acc_active w))) ''witness'')
    else if has_flag (flags (a_options a)) committee_fed_asset
    then bindE (get_account db GRAPHENE_COMMITTEE_ACCOUNT) (\<lambda>c.
         fc_assert (publisher op \<in> fst ` set (account_auths (acc_active c))) ''committee'')
    else fc_assert (publisher op \<in> fst ` set (feeds b)) ''bitasset.feeds.count(o.publisher)''))))))"

text \<open>A market issued asset that was settled revives when the feed says that its fund covers the supply again.\<close>

definition revives :: "asset_id_type \<Rightarrow> asset_bitasset_data_object \<Rightarrow> share_type \<Rightarrow> bool exn" where
  "revives i b supply_now =
    (if price_is_null (settlement_price (current_feed b)) then Inr False
     else if supply_now = 0 then Inr True
     else bindE (call_price (mk_asset supply_now i) (mk_asset (settlement_fund b) (short_backing_asset (ba_options b)))
            (maintenance_collateral_ratio (current_feed b))) (\<lambda>p.
          Inr (price_lt (price_inv p) (settlement_price (current_feed b)))))"

definition revive_if_covered :: "asset_id_type \<Rightarrow> asset_object \<Rightarrow> asset_bitasset_data_object \<Rightarrow> database \<Rightarrow> database exn" where
  "revive_if_covered i a bad db =
    (if has_settlement bad
     then bindE (idx_get ''asset_dynamic_data'' (asset_dynamic_data db) (dynamic_asset_data_id a)) (\<lambda>dyn.
          bindE (revives i bad (current_supply dyn)) (\<lambda>rv.
          if rv then revive_bitasset i db else Inr db))
     else Inr db)"

definition asset_publish_feed_apply :: "asset_publish_feed_operation \<Rightarrow> database \<Rightarrow> database exn" where
  "asset_publish_feed_apply op db =
    bindE (get_asset db (apf_asset_id op)) (\<lambda>a.
    bindE (bitasset_data a db) (\<lambda>old.
    bindE (modify_bitasset a (\<lambda>b. update_median_feeds (head_block_time db)
             (b\<lparr>feeds := flat_put (publisher op) (head_block_time db, feed op) (feeds b)\<rparr>)) db) (\<lambda>db.
    bindE (bitasset_data a db) (\<lambda>bad.
    if feed_eq (current_feed old) (current_feed bad) then Inr db
    else
    bindE (revive_if_covered (apf_asset_id op) a bad db) (\<lambda>db.
    bindE (check_call_orders (apf_asset_id op) True False db) (\<lambda>r. Inr (snd r)))))))"

section \<open>Settling\<close>

record asset_global_settle_operation =
  ags_fee :: asset
  ags_issuer :: account_id_type
  ags_asset_to_settle :: asset_id_type
  settle_price :: price

definition asset_global_settle_validate :: "asset_global_settle_operation \<Rightarrow> unit exn" where
  "asset_global_settle_validate op =
    bindE (fc_assert (0 \<le> amount (ags_fee op)) ''fee.amount >= 0'') (\<lambda>_.
    fc_assert (ags_asset_to_settle op = asset_id (base (settle_price op))) ''asset_to_settle == settle_price.base.asset_id'')"

text \<open>The view of the call orders by collateral, and its first order at or above a price.\<close>

definition call_ratio :: "call_order_object \<Rightarrow> price" where
  "call_ratio c = mk_price (get_collateral c) (get_debt c)"

definition ratio_before :: "nat \<times> call_order_object \<Rightarrow> nat \<times> call_order_object \<Rightarrow> bool" where
  "ratio_before p q \<longleftrightarrow> price_lt (call_ratio (snd p)) (call_ratio (snd q))
    \<or> \<not> price_lt (call_ratio (snd q)) (call_ratio (snd p)) \<and> fst p < fst q"

definition least_collateralized :: "price \<Rightarrow> database \<Rightarrow> (nat \<times> call_order_object) exn" where
  "least_collateralized lo db =
    (case filter (\<lambda>p. \<not> price_lt (call_ratio (snd p)) lo) (order_by ratio_before (objs (call_orders db))) of
       [] \<Rightarrow> Inl (assert_exception ''itr != idx.end()'')
     | p # _ \<Rightarrow> Inr p)"

definition asset_global_settle_evaluate :: "asset_global_settle_operation \<Rightarrow> database \<Rightarrow> unit exn" where
  "asset_global_settle_evaluate op db =
    bindE (get_asset db (ags_asset_to_settle op)) (\<lambda>a.
    bindE (fc_assert (is_market_issued a) ''asset_to_settle->is_market_issued()'') (\<lambda>_.
    bindE (fc_assert (can_global_settle a) ''asset_to_settle->can_global_settle()'') (\<lambda>_.
    bindE (fc_assert (issuer a = ags_issuer op) ''asset_to_settle->issuer == op.issuer'') (\<lambda>_.
    bindE (idx_get ''asset_dynamic_data'' (asset_dynamic_data db) (dynamic_asset_data_id a)) (\<lambda>dyn.
    bindE (fc_assert (0 < current_supply dyn) ''current_supply > 0'') (\<lambda>_.
    bindE (bitasset_data a db) (\<lambda>b.
    bindE (price_min (short_backing_asset (ba_options b)) (ags_asset_to_settle op)) (\<lambda>lo.
    bindE (least_collateralized lo db) (\<lambda>p. let c = snd p in
    bindE (fc_assert (asset_id (get_debt c) = ags_asset_to_settle op) ''itr->debt_type() == op.asset_to_settle'') (\<lambda>_.
    bindE (asset_times_price (get_debt c) (settle_price op)) (\<lambda>x.
    assertE (asset_le x (get_collateral c)) ''Cannot force settle at supplied price: least collateralized short lacks sufficient collateral to settle.'')))))))))))"

definition asset_global_settle_apply :: "asset_global_settle_operation \<Rightarrow> database \<Rightarrow> database exn" where
  "asset_global_settle_apply op db = globally_settle_asset (ags_asset_to_settle op) (settle_price op) db"

record asset_settle_operation =
  ase_fee :: asset
  ase_account :: account_id_type
  ase_amount :: asset

definition asset_settle_validate :: "asset_settle_operation \<Rightarrow> unit exn" where
  "asset_settle_validate op =
    bindE (fc_assert (0 \<le> amount (ase_fee op)) ''fee.amount >= 0'') (\<lambda>_.
    fc_assert (0 \<le> amount (ase_amount op)) ''amount.amount >= 0'')"

definition asset_settle_evaluate :: "asset_settle_operation \<Rightarrow> database \<Rightarrow> unit exn" where
  "asset_settle_evaluate op db =
    bindE (get_asset db (asset_id (ase_amount op))) (\<lambda>a.
    bindE (fc_assert (is_market_issued a) ''asset_to_settle->is_market_issued()'') (\<lambda>_.
    bindE (bitasset_data a db) (\<lambda>b.
    bindE (fc_assert (can_force_settle a \<or> has_settlement b) ''can_force_settle'') (\<lambda>_.
    bindE (if is_prediction_market b
           then fc_assert (has_settlement b) ''global settlement must occur before force settling a prediction market''
           else if price_is_null (settlement_price (current_feed b)) \<and> (head_block_time db \<le> HARDFORK_CORE_216_TIME \<or> \<not> has_settlement b)
           then Inl (chain_exception ''insufficient_feeds'') else Inr ()) (\<lambda>_.
    bindE (get_account db (ase_account op)) (\<lambda>_.
    assertE (asset_ge (get_balance db (ase_account op) (asset_id (ase_amount op))) (ase_amount op)) ''balance''))))))"

text \<open>What a settled asset pays: the share of the fund, or all of it for the whole supply.\<close>

definition settled_amount :: "asset \<Rightarrow> asset_bitasset_data_object \<Rightarrow> asset_dynamic_data_object \<Rightarrow> asset exn" where
  "settled_amount x b dyn =
    bindE (asset_times_price x (ba_settlement_price b)) (\<lambda>s.
    if amount x = current_supply dyn then Inr (mk_asset (settlement_fund b) (asset_id s))
    else bindE (fc_assert (amount s \<le> settlement_fund b) ''settled_amount.amount <= bitasset.settlement_fund'') (\<lambda>_. Inr s))"

definition asset_settle_apply :: "asset_settle_operation \<Rightarrow> database \<Rightarrow> ((asset + nat) \<times> database) exn" where
  "asset_settle_apply op db =
    bindE (get_asset db (asset_id (ase_amount op))) (\<lambda>a.
    bindE (asset_neg (ase_amount op)) (\<lambda>n.
    bindE (adjust_balance (ase_account op) n db) (\<lambda>db.
    bindE (bitasset_data a db) (\<lambda>b.
    if has_settlement b
    then bindE (idx_get ''asset_dynamic_data'' (asset_dynamic_data db) (dynamic_asset_data_id a)) (\<lambda>dyn.
         bindE (settled_amount (ase_amount op) b dyn) (\<lambda>s.
         bindE (modify_bitasset a (\<lambda>b. bindE (safe_sub (settlement_fund b) (amount s)) (\<lambda>x. Inr (b\<lparr>settlement_fund := x\<rparr>))) db) (\<lambda>db.
         bindE (adjust_balance (ase_account op) s db) (\<lambda>db.
         bindE (adjust_supply (asset_id (ase_amount op)) (- amount (ase_amount op)) db) (\<lambda>db.
         Inr (Inl s, db))))))
    else Inr (Inr (next_id (force_settlements db)), db\<lparr>force_settlements := idx_create (force_settlements db)
           \<lparr>fs_owner = ase_account op, fs_balance = ase_amount op,
             settlement_date = (head_block_time db + force_settlement_delay_sec (ba_options b)) mod 2 ^ 32\<rparr>\<rparr>)))))"

section \<open>The operations with their static checks and fees\<close>

definition run_operation :: "bool \<Rightarrow> share_type \<Rightarrow> account_id_type \<Rightarrow> asset \<Rightarrow> unit exn \<Rightarrow> (database \<Rightarrow> unit exn)
    \<Rightarrow> (database \<Rightarrow> ('r \<times> database) exn) \<Rightarrow> database \<Rightarrow> ('r \<times> database) exn" where
  "run_operation sk rq payer fee checked ev app db =
    bindE checked (\<lambda>_. start_evaluate sk rq payer fee (\<lambda>_. ev) False (pay_fee False) (\<lambda>_ _. app) db)"

definition asset_create :: "bool \<Rightarrow> share_type \<Rightarrow> asset_create_operation \<Rightarrow> database \<Rightarrow> (nat \<times> database) exn" where
  "asset_create sk rq op db =
    bindE (asset_create_validate op) (\<lambda>_.
    start_evaluate sk rq (acr_issuer op) (acr_fee op) (\<lambda>_. asset_create_evaluate op) False asset_create_pay_fee (\<lambda>_. asset_create_apply op) db)"

definition asset_issue :: "bool \<Rightarrow> share_type \<Rightarrow> asset_issue_operation \<Rightarrow> database \<Rightarrow> (unit \<times> database) exn" where
  "asset_issue sk rq op = run_operation sk rq (ais_issuer op) (ais_fee op) (asset_issue_validate op)
    (asset_issue_evaluate op) (\<lambda>db. void_result (asset_issue_apply op db))"

definition asset_reserve :: "bool \<Rightarrow> share_type \<Rightarrow> asset_reserve_operation \<Rightarrow> database \<Rightarrow> (unit \<times> database) exn" where
  "asset_reserve sk rq op = run_operation sk rq (are_payer op) (are_fee op) (asset_reserve_validate op)
    (asset_reserve_evaluate op) (\<lambda>db. void_result (asset_reserve_apply op db))"

definition asset_fund_fee_pool :: "bool \<Rightarrow> share_type \<Rightarrow> asset_fund_fee_pool_operation \<Rightarrow> database \<Rightarrow> (unit \<times> database) exn" where
  "asset_fund_fee_pool sk rq op = run_operation sk rq (aff_from_account op) (aff_fee op) (asset_fund_fee_pool_validate op)
    (asset_fund_fee_pool_evaluate op) (\<lambda>db. void_result (asset_fund_fee_pool_apply op db))"

definition asset_claim_fees :: "bool \<Rightarrow> share_type \<Rightarrow> asset_claim_fees_operation \<Rightarrow> database \<Rightarrow> (unit \<times> database) exn" where
  "asset_claim_fees sk rq op = run_operation sk rq (acf_issuer op) (acf_fee op) (asset_claim_fees_validate op)
    (asset_claim_fees_evaluate op) (\<lambda>db. void_result (asset_claim_fees_apply op db))"

definition asset_update :: "bool \<Rightarrow> share_type \<Rightarrow> asset_update_operation \<Rightarrow> database \<Rightarrow> (unit \<times> database) exn" where
  "asset_update sk rq op = run_operation sk rq (aup_issuer op) (aup_fee op) (asset_update_validate op)
    (asset_update_evaluate op) (\<lambda>db. void_result (asset_update_apply op db))"

definition asset_update_bitasset :: "bool \<Rightarrow> share_type \<Rightarrow> asset_update_bitasset_operation \<Rightarrow> database \<Rightarrow> (unit \<times> database) exn" where
  "asset_update_bitasset sk rq op = run_operation sk rq (aub_issuer op) (aub_fee op) (asset_update_bitasset_validate op)
    (asset_update_bitasset_evaluate op) (\<lambda>db. void_result (asset_update_bitasset_apply op db))"

definition asset_update_feed_producers :: "bool \<Rightarrow> share_type \<Rightarrow> asset_update_feed_producers_operation \<Rightarrow> database \<Rightarrow> (unit \<times> database) exn" where
  "asset_update_feed_producers sk rq op = run_operation sk rq (afp_issuer op) (afp_fee op) (asset_update_feed_producers_validate op)
    (asset_update_feed_producers_evaluate op) (\<lambda>db. void_result (asset_update_feed_producers_apply op db))"

definition asset_publish_feed :: "bool \<Rightarrow> share_type \<Rightarrow> asset_publish_feed_operation \<Rightarrow> database \<Rightarrow> (unit \<times> database) exn" where
  "asset_publish_feed sk rq op = run_operation sk rq (publisher op) (apf_fee op) (asset_publish_feed_validate op)
    (asset_publish_feed_evaluate op) (\<lambda>db. void_result (asset_publish_feed_apply op db))"

definition asset_global_settle :: "bool \<Rightarrow> share_type \<Rightarrow> asset_global_settle_operation \<Rightarrow> database \<Rightarrow> (unit \<times> database) exn" where
  "asset_global_settle sk rq op = run_operation sk rq (ags_issuer op) (ags_fee op) (asset_global_settle_validate op)
    (asset_global_settle_evaluate op) (\<lambda>db. void_result (asset_global_settle_apply op db))"

definition asset_settle :: "bool \<Rightarrow> share_type \<Rightarrow> asset_settle_operation \<Rightarrow> database \<Rightarrow> ((asset + nat) \<times> database) exn" where
  "asset_settle sk rq op = run_operation sk rq (ase_account op) (ase_fee op) (asset_settle_validate op)
    (asset_settle_evaluate op) (asset_settle_apply op)"

end
