(* ===== verification/AssetBooks.thy ===== *)
theory AssetBooks
  imports AssetEvaluator
begin

text \<open>
  The operations on assets keep the books: nothing but issuing and reserving changes a supply, and these change what
  accounts hold by as much. The steps are those of the market; the operations are run with their static checks and fees.
\<close>

section \<open>Steps\<close>

definition keeps_books :: "database \<Rightarrow> database \<Rightarrow> bool" where
  "keeps_books db db' \<longleftrightarrow> market_ok db' \<and> (\<forall>i. books i db' = books i db)"

lemma keeps_booksI: "market_conserves db db' \<Longrightarrow> keeps_books db db'"
  by (simp add: keeps_books_def market_conserves_def)

lemma keeps_books_trans: "keeps_books a b \<Longrightarrow> keeps_books b c \<Longrightarrow> keeps_books a c"
  by (simp add: keeps_books_def)

lemma keeps_books_refl: "market_ok db \<Longrightarrow> keeps_books db db"
  by (simp add: keeps_books_def)

lemma moves_keeps: "moves db h s db' \<Longrightarrow> (\<And>i. h i = s i) \<Longrightarrow> keeps_books db db'"
  by (rule keeps_booksI) (rule moves_conserves)

lemma adjust_supply_moves:
  assumes "adjust_supply j x db = Inr db'" "market_ok db"
  shows "moves db (\<lambda>_. 0) (\<lambda>i. if i = j then x else 0) db'"
  using modify_dynamic_moves(1) [OF assms(1) [unfolded adjust_supply_def] assms(2), of 0 x] by (rule moves_eq) auto

lemma part_is: "asset_part i x = (if i = asset_id x then amount x else 0)"
  by (auto simp: asset_part_def)

lemma asset_issue_keeps:
  assumes "asset_issue_apply op db = Inr db'" "market_ok db"
  shows "keeps_books db db'"
proof -
  from assms(1) obtain db1 where a: "adjust_balance (issue_to_account op) (asset_to_issue op) db = Inr db1"
    and s: "adjust_supply (asset_id (asset_to_issue op)) (amount (asset_to_issue op)) db1 = Inr db'"
    by (auto simp: asset_issue_apply_def)
  note m = adjust_balance_moves(1) [OF a assms(2)]
  show ?thesis using moves_trans [OF m adjust_supply_moves [OF s movesD(1) [OF m]]] by (rule moves_keeps) (simp add: part_is)
qed

lemma asset_reserve_keeps:
  assumes "asset_reserve_apply op db = Inr db'" "market_ok db"
  shows "keeps_books db db'"
proof -
  from assms(1) obtain n db1 where n: "n = mk_asset (- amount (amount_to_reserve op)) (asset_id (amount_to_reserve op))"
    and a: "adjust_balance (are_payer op) n db = Inr db1"
    and s: "adjust_supply (asset_id (amount_to_reserve op)) (- amount (amount_to_reserve op)) db1 = Inr db'"
    by (auto simp: asset_reserve_apply_def)
  note m = adjust_balance_moves(1) [OF a assms(2)]
  show ?thesis using moves_trans [OF m adjust_supply_moves [OF s movesD(1) [OF m]]] by (rule moves_keeps) (simp add: part_is n)
qed

lemma asset_claim_fees_keeps:
  assumes "asset_claim_fees_apply op db = Inr db'" "market_ok db"
  shows "keeps_books db db'"
proof -
  let ?f = "\<lambda>d. bindE (fc_assert (amount (amount_to_claim op) \<le> accumulated_fees d) ''Attempt to claim more fees than have accumulated'') (\<lambda>_.
      bindE (safe_sub (accumulated_fees d) (amount (amount_to_claim op))) (\<lambda>x. Inr (d\<lparr>accumulated_fees := x\<rparr>)))"
  from assms(1) obtain db1 where d: "modify_dynamic (asset_id (amount_to_claim op)) ?f db = Inr db1"
    and a: "adjust_balance (acf_issuer op) (amount_to_claim op) db1 = Inr db'"
    unfolding asset_claim_fees_apply_def bindE_eq_Inr by blast
  have m: "moves db (\<lambda>i. if i = asset_id (amount_to_claim op) then - amount (amount_to_claim op) else 0)
      (\<lambda>i. if i = asset_id (amount_to_claim op) then 0 else 0) db1"
    by (rule modify_dynamic_moves(1) [OF d assms(2)]) auto
  show ?thesis using moves_trans [OF m adjust_balance_moves(1) [OF a movesD(1) [OF m]]] by (rule moves_keeps) (simp add: part_is)
qed

lemma fee_pool_moves:
  assumes "modify_dynamic j (\<lambda>d. bindE (safe_add (fee_pool d) x) (\<lambda>y. Inr (d\<lparr>fee_pool := y\<rparr>))) db = Inr db'" "market_ok db"
  shows "moves db (\<lambda>i. if i = 0 then x else 0) (\<lambda>_. 0) db'"
proof -
  obtain a d d' where e: "idx_find (assets db) j = Some a" "idx_find (asset_dynamic_data db) (dynamic_asset_data_id a) = Some d"
    "bindE (safe_add (fee_pool d) x) (\<lambda>y. Inr (d\<lparr>fee_pool := y\<rparr>)) = Inr d'"
    "db' = db\<lparr>asset_dynamic_data := idx_put (asset_dynamic_data db) (dynamic_asset_data_id a) d'\<rparr>" "db_ok db'"
    "\<And>i. held i db' = held i db + (if i = j then accumulated_fees d' - accumulated_fees d + confidential_supply d' - confidential_supply d else 0)
      + (if i = 0 then fee_pool d' - fee_pool d else 0)"
    "\<And>i. supply_of i db' = supply_of i db + (if i = j then current_supply d' - current_supply d else 0)"
    using assms(1) market_okD(1) [OF assms(2)] by (rule modify_dynamic_effect) blast
  have "d' = d\<lparr>fee_pool := fee_pool d + x\<rparr>" using e(3) by auto
  moreover have "market_ok db'" using e(5) assms(2) by (simp add: market_ok_def) (simp add: e(4))
  moreover have "assets db' = assets db" "asset_bitasset_data db' = asset_bitasset_data db" by (simp_all add: e(4))
  ultimately show ?thesis using e(6,7) by (simp add: moves_def)
qed

lemma asset_fund_fee_pool_keeps:
  assumes "asset_fund_fee_pool_apply op db = Inr db'" "market_ok db"
  shows "keeps_books db db'"
proof -
  from assms(1) obtain db1 where a: "adjust_balance (aff_from_account op) (mk_asset (- aff_amount op) 0) db = Inr db1"
    and d: "modify_dynamic (aff_asset_id op) (\<lambda>d. bindE (safe_add (fee_pool d) (aff_amount op)) (\<lambda>x. Inr (d\<lparr>fee_pool := x\<rparr>))) db1 = Inr db'"
    unfolding asset_fund_fee_pool_apply_def bindE_eq_Inr safe_neg_eq_Inr by blast
  note m = adjust_balance_moves(1) [OF a assms(2)]
  show ?thesis using moves_trans [OF m fee_pool_moves [OF d movesD(1) [OF m]]] by (rule moves_keeps) (simp add: part_is)
qed

section \<open>Changing the asset object\<close>

lemma dyn_field_assets_put:
  assumes "idx_find as j = Some a" "dynamic_asset_data_id a' = dynamic_asset_data_id a"
  shows "dyn_field f i (idx_put as j a') ds = dyn_field f i as ds"
  using assms by (simp add: dyn_field_def idx_find_put)

lemma dyn_ids_ok_put:
  assumes "dyn_ids_ok as" "idx_ok as" "idx_find as j = Some a" "dynamic_asset_data_id a' = dynamic_asset_data_id a"
  shows "dyn_ids_ok (idx_put as j a')"
proof -
  have key: "\<exists>x. (fst p, x) \<in> set (objs as) \<and> dynamic_asset_data_id x = dynamic_asset_data_id (snd p)"
    if "p \<in> set (objs (idx_put as j a'))" for p
    using objs_put_in [OF that] idx_find_in [OF assms(3)] assms(4) by (metis fst_conv prod.collapse snd_conv)
  have "fst p = fst q" if "p \<in> set (objs (idx_put as j a'))" "q \<in> set (objs (idx_put as j a'))"
    "dynamic_asset_data_id (snd p) = dynamic_asset_data_id (snd q)" for p q
  proof -
    note pq = that
    obtain x y where x: "(fst p, x) \<in> set (objs as)" "dynamic_asset_data_id x = dynamic_asset_data_id (snd p)"
      and y: "(fst q, y) \<in> set (objs as)" "dynamic_asset_data_id y = dynamic_asset_data_id (snd q)"
      using key [OF pq(1)] key [OF pq(2)] by blast
    have "dynamic_asset_data_id (snd (fst p, x)) = dynamic_asset_data_id (snd (fst q, y)) \<longrightarrow> fst (fst p, x) = fst (fst q, y)"
      using assms(1) x(1) y(1) unfolding dyn_ids_ok_def by blast
    then show ?thesis using x(2) y(2) pq(3) by simp
  qed
  moreover obtain z where z: "idx_find as 0 = Some z" "dynamic_asset_data_id z = 0" using assms(1) unfolding dyn_ids_ok_def by blast
  have "\<exists>b. idx_find (idx_put as j a') 0 = Some b \<and> dynamic_asset_data_id b = 0"
    using z assms(3,4) by (cases "j = 0") (simp_all add: idx_find_put)
  ultimately show ?thesis unfolding dyn_ids_ok_def by blast
qed

lemma backed_assets_put:
  "idx_find as j = Some a \<Longrightarrow> bitasset_data_id a' = bitasset_data_id a \<Longrightarrow> backed (idx_put as j a') bs p = backed as bs p"
  by (auto simp: backed_def idx_find_put)

lemma assets_put_keeps:
  assumes "market_ok db" "idx_find (assets db) j = Some a" "dynamic_asset_data_id a' = dynamic_asset_data_id a"
    and "bitasset_data_id a' = bitasset_data_id a" "market_fee_percent (a_options a') \<le> 10000" "0 \<le> max_market_fee (a_options a')"
  shows "keeps_books db (db\<lparr>assets := idx_put (assets db) j a'\<rparr>)"
proof -
  have o: "dyn_ids_ok (assets db)" "idx_ok (assets db)" using market_okD(1) [OF assms(1)] by (auto simp: db_ok_def indices_ok_def)
  have "fee_options_ok (idx_put (assets db) j a')"
    using market_okD(2) [OF assms(1)] assms(5,6) unfolding fee_options_ok_def by (metis objs_put_in snd_conv)
  moreover have "calls_backed (idx_put (assets db) j a') (asset_bitasset_data db) (call_orders db)"
    using market_okD(5) [OF assms(1)] by (simp add: calls_backed_def backed_assets_put [OF assms(2,4)])
  ultimately have "market_ok (db\<lparr>assets := idx_put (assets db) j a'\<rparr>)"
    using assms(1) dyn_ids_ok_put [OF o assms(2,3)] by (simp add: market_ok_def db_ok_def indices_ok_def)
  moreover have "books i (db\<lparr>assets := idx_put (assets db) j a'\<rparr>) = books i db" for i
    by (simp add: books_def held_def supply_of_def dyn_field_assets_put [OF assms(2,3)])
  ultimately show ?thesis by (simp add: keeps_books_def)
qed

lemma asset_update_keeps:
  assumes "asset_update_apply op db = Inr db'" "market_ok db" "asset_update_validate op = Inr u"
  shows "keeps_books db db'"
proof -
  let ?j = "aup_asset_to_update op"
  let ?new = "\<lambda>a. a\<lparr>issuer := (case new_issuer op of None \<Rightarrow> issuer a | Some n \<Rightarrow> n), a_options := aup_new_options op\<rparr>"
  from assms(1) obtain a0 db1 a where
    c: "(if has_flag (flags (aup_new_options op)) disable_force_settle \<and> can_force_settle a0
         then foldE (\<lambda>k. cancel_settle_order k True) (settlements_of ?j db) db else Inr db) = Inr db1"
    and a: "idx_find (assets db1) ?j = Some a" and db': "db' = db1\<lparr>assets := idx_put (assets db1) ?j (?new a)\<rparr>"
    by (auto simp: asset_update_apply_def)
  have k: "keeps_books db db1"
  proof (cases "has_flag (flags (aup_new_options op)) disable_force_settle \<and> can_force_settle a0")
    case True
    then have "foldE (\<lambda>k. cancel_settle_order k True) (settlements_of ?j db) db = Inr db1" using c by simp
    then show ?thesis
    proof (rule foldE_invariant)
      show "keeps_books db db" using assms(2) by (rule keeps_books_refl)
      fix k d1 d2
      assume d: "keeps_books db d1" "cancel_settle_order k True d1 = Inr d2"
      have "moves d1 (\<lambda>_. 0) (\<lambda>_. 0) d2" using cancel_settle_order_moves [OF d(2)] d(1) by (simp add: keeps_books_def)
      then show "keeps_books db d2" using keeps_books_trans [OF d(1) moves_keeps] by blast
    qed
  next
    case False
    then show ?thesis using c keeps_books_refl [OF assms(2)] by auto
  qed
  have v: "market_fee_percent (aup_new_options op) \<le> 10000" "0 \<le> max_market_fee (aup_new_options op)"
    using assms(3) by (auto simp: asset_update_validate_def asset_options_validate_def GRAPHENE_100_PERCENT_def)
  have "market_ok db1" using k by (simp add: keeps_books_def)
  then have "keeps_books db1 db'" unfolding db' by (rule assets_put_keeps [OF _ a]) (use v in simp_all)
  then show ?thesis using keeps_books_trans [OF k] by blast
qed

section \<open>Changing the data of a market issued asset\<close>

lemma update_median_frame:
  assumes "update_median_feeds now b = Inr b'"
  shows "ba_options b' = ba_options b" "settlement_fund b' = settlement_fund b" "ba_settlement_price b' = ba_settlement_price b"
    "is_prediction_market b' = is_prediction_market b"
  using assms by (auto simp: update_median_feeds_def Let_def split: if_splits list.splits)

lemma fund_amount_same:
  "ba_options b' = ba_options b \<Longrightarrow> settlement_fund b' = settlement_fund b \<Longrightarrow> fund_amount i b' = fund_amount i b"
  by (simp add: fund_amount_def)

lemma funds_okE: "market_ok db \<Longrightarrow> idx_find (asset_bitasset_data db) k = Some b \<Longrightarrow> has_settlement b \<or> settlement_fund b = 0"
  using market_okD(3) [of db] by (auto simp: funds_ok_def dest!: idx_find_in)

lemma modify_bitasset_keeps:
  assumes "modify_bitasset a f db = Inr db'" "market_ok db"
    and "\<And>b b'. f b = Inr b' \<Longrightarrow> ba_options b' = ba_options b \<and> settlement_fund b' = settlement_fund b \<and> ba_settlement_price b' = ba_settlement_price b"
  shows "keeps_books db db'" "assets db' = assets db"
proof -
  from assms(1) obtain k b b' where k: "idx_find (asset_bitasset_data db) k = Some b" and f: "f b = Inr b'"
    and db': "db' = db\<lparr>asset_bitasset_data := idx_put (asset_bitasset_data db) k b'\<rparr>"
    by (auto simp: modify_bitasset_def)
  have s: "has_settlement b' \<or> settlement_fund b' = 0" using funds_okE [OF assms(2) k] assms(3) [OF f] by (simp add: has_settlement_def)
  have p: "ba_options b' = ba_options b" "settlement_fund b' = settlement_fund b" using assms(3) [OF f] by simp_all
  note e = bitasset_put_effect [OF assms(2) k s p(1)]
  show "keeps_books db db'" using e by (simp add: keeps_books_def db' books_def fund_amount_same [OF p])
  show "assets db' = assets db" by (simp add: db')
qed

lemma feed_update_keeps:
  assumes "modify_bitasset a (\<lambda>b. update_median_feeds now (b\<lparr>feeds := g b\<rparr>)) db = Inr db'" "market_ok db"
  shows "keeps_books db db'" "assets db' = assets db"
proof -
  have "ba_options b' = ba_options b \<and> settlement_fund b' = settlement_fund b \<and> ba_settlement_price b' = ba_settlement_price b"
    if "update_median_feeds now (b\<lparr>feeds := g b\<rparr>) = Inr b'" for b b'
    using update_median_frame [OF that] by simp
  then show "keeps_books db db'" "assets db' = assets db" using modify_bitasset_keeps [OF assms] by blast+
qed

lemma check_calls_keeps: "check_call_orders i e f db = Inr r \<Longrightarrow> market_ok db \<Longrightarrow> keeps_books db (snd r)"
  using check_call_orders_conserves keeps_booksI by blast

lemma feed_producers_keeps:
  assumes "asset_update_feed_producers_apply op db = Inr db'" "market_ok db"
  shows "keeps_books db db'"
proof -
  from assms(1) obtain a db1 r where m: "modify_bitasset a (\<lambda>b. update_median_feeds (head_block_time db)
      (b\<lparr>feeds := feeds_for (new_feed_producers op) (feeds b)\<rparr>)) db = Inr db1"
    and c: "check_call_orders (afp_asset_to_update op) True False db1 = Inr r" and db': "db' = snd r"
    unfolding asset_update_feed_producers_apply_def bindE_eq_Inr by blast
  note k = feed_update_keeps(1) [OF m assms(2)]
  show ?thesis unfolding db' using keeps_books_trans [OF k check_calls_keeps [OF c]] k by (simp add: keeps_books_def)
qed

lemma revive_if_covered_keeps: "revive_if_covered i a bad db = Inr db' \<Longrightarrow> market_ok db \<Longrightarrow> keeps_books db db'"
  using revive_conserves keeps_booksI keeps_books_refl by (fastforce simp: revive_if_covered_def split: if_splits)

lemma publish_feed_cases:
  assumes "asset_publish_feed_apply op db = Inr db'"
  obtains a db1 where "modify_bitasset a (\<lambda>b. update_median_feeds (head_block_time db)
      (b\<lparr>feeds := flat_put (publisher op) (head_block_time db, feed op) (feeds b)\<rparr>)) db = Inr db1" "db' = db1"
  | a db1 bad db2 r where "modify_bitasset a (\<lambda>b. update_median_feeds (head_block_time db)
      (b\<lparr>feeds := flat_put (publisher op) (head_block_time db, feed op) (feeds b)\<rparr>)) db = Inr db1"
    "revive_if_covered (apf_asset_id op) a bad db1 = Inr db2" "check_call_orders (apf_asset_id op) True False db2 = Inr r" "db' = snd r"
  using assms unfolding asset_publish_feed_apply_def bindE_eq_Inr by (elim exE conjE) (auto split: if_splits)

lemma publish_feed_keeps:
  assumes "asset_publish_feed_apply op db = Inr db'" "market_ok db"
  shows "keeps_books db db'"
  using assms(1)
proof (cases rule: publish_feed_cases)
  case (1 a db1)
  then show ?thesis using feed_update_keeps(1) [OF 1(1) assms(2)] by simp
next
  case (2 a db1 bad db2 r)
  have k: "keeps_books db db1" using feed_update_keeps(1) [OF 2(1) assms(2)] .
  then have k2: "keeps_books db db2" using keeps_books_trans [OF k revive_if_covered_keeps [OF 2(2)]] by (simp add: keeps_books_def)
  then show ?thesis using keeps_books_trans [OF k2 check_calls_keeps [OF 2(3)]] 2(4) by (simp add: keeps_books_def)
qed

text \<open>A change of the options of a market issued asset; its call orders stay backed unless the backing asset changes.\<close>

definition backing_kept :: "asset_update_bitasset_operation \<Rightarrow> database \<Rightarrow> bool" where
  "backing_kept op db \<longleftrightarrow> (\<forall>a k b. idx_find (assets db) (aub_asset_to_update op) = Some a \<longrightarrow> bitasset_data_id a = Some k \<longrightarrow>
      idx_find (asset_bitasset_data db) k = Some b \<longrightarrow>
      short_backing_asset (ba_options b) = short_backing_asset (aub_new_options op)
      \<or> (\<forall>q \<in> set (objs (call_orders db)). \<forall>m. idx_find (assets db) (asset_id (quote (co_call_price (snd q)))) = Some m \<longrightarrow> bitasset_data_id m \<noteq> Some k))"

lemma backed_bitasset_put:
  assumes "backed as bs p" "idx_find bs k = Some b" "short_backing_asset (ba_options b') = short_backing_asset (ba_options b)
      \<or> (\<forall>m. idx_find as (asset_id (quote p)) = Some m \<longrightarrow> bitasset_data_id m \<noteq> Some k)"
  shows "backed as (idx_put bs k b') p"
  using assms by (auto simp: backed_def idx_find_put split: if_splits)

lemma update_bitasset_keeps:
  assumes "asset_update_bitasset_apply op db = Inr db'" "market_ok db" "backing_kept op db"
    and "asset_update_bitasset_evaluate op db0 = Inr u" "assets db = assets db0" "asset_bitasset_data db = asset_bitasset_data db0"
  shows "keeps_books db db' \<and> backing_kept op db'"
proof -
  let ?f = "\<lambda>b. if minimum_feeds (aub_new_options op) \<noteq> minimum_feeds (ba_options b)
      then update_median_feeds (head_block_time db) (b\<lparr>ba_options := aub_new_options op\<rparr>)
      else Inr (b\<lparr>ba_options := aub_new_options op\<rparr>)"
  from assms(1) obtain a where a: "idx_find (assets db) (aub_asset_to_update op) = Some a" and m: "modify_bitasset a ?f db = Inr db'"
    by (auto simp: asset_update_bitasset_apply_def)
  from m obtain k b b' where ak: "bitasset_data_id a = Some k" and k: "idx_find (asset_bitasset_data db) k = Some b"
    and f: "?f b = Inr b'" and db': "db' = db\<lparr>asset_bitasset_data := idx_put (asset_bitasset_data db) k b'\<rparr>"
    by (auto simp: modify_bitasset_def)
  have b': "ba_options b' = aub_new_options op \<and> settlement_fund b' = settlement_fund b \<and> ba_settlement_price b' = ba_settlement_price b"
    using f update_median_frame(1,2,3) [of "head_block_time db" "b\<lparr>ba_options := aub_new_options op\<rparr>" b'] by (auto split: if_splits)
  have "\<not> has_settlement b" using assms(4) a ak k assms(5,6) by (auto simp: asset_update_bitasset_evaluate_def bitasset_data_def)
  then have zero: "settlement_fund b = 0" using funds_okE [OF assms(2) k] by simp
  have o: "idx_ok (asset_bitasset_data db)" using market_okD(1) [OF assms(2)] by (rule db_okD)
  have keep: "short_backing_asset (ba_options b) = short_backing_asset (aub_new_options op)
      \<or> (\<forall>q \<in> set (objs (call_orders db)). \<forall>m. idx_find (assets db) (asset_id (quote (co_call_price (snd q)))) = Some m \<longrightarrow> bitasset_data_id m \<noteq> Some k)"
    using assms(3) a ak k unfolding backing_kept_def by blast
  have "calls_backed (assets db) (idx_put (asset_bitasset_data db) k b') (call_orders db)"
    unfolding calls_backed_def
  proof
    fix q
    assume q: "q \<in> set (objs (call_orders db))"
    have "backed (assets db) (asset_bitasset_data db) (co_call_price (snd q))" using market_okD(5) [OF assms(2)] q by (simp add: calls_backed_def)
    then show "backed (assets db) (idx_put (asset_bitasset_data db) k b') (co_call_price (snd q))"
      by (rule backed_bitasset_put [OF _ k]) (use keep q b' in auto)
  qed
  moreover have "funds_ok (idx_put (asset_bitasset_data db) k b')"
    using market_okD(3) [OF assms(2)] b' zero unfolding funds_ok_def by (metis objs_put_in snd_conv)
  ultimately have "market_ok db'" using assms(2) o by (simp add: market_ok_def db' db_ok_def indices_ok_def)
  moreover have "books i db' = books i db" for i
    using b' zero by (simp add: db' books_def held_def supply_of_def idx_sum_put [OF o k] fund_amount_def)
  moreover have "backing_kept op db'" using a ak k b' by (auto simp: backing_kept_def db' idx_find_put)
  ultimately show ?thesis by (simp add: keeps_books_def)
qed

section \<open>Settling\<close>

text \<open>A settled asset has its settlement price between itself and its backing asset, as the settlement wrote it.\<close>

definition settles_to_backing :: "asset_settle_operation \<Rightarrow> database \<Rightarrow> bool" where
  "settles_to_backing op db \<longleftrightarrow> (\<forall>a k b. idx_find (assets db) (asset_id (ase_amount op)) = Some a \<longrightarrow> bitasset_data_id a = Some k \<longrightarrow>
      idx_find (asset_bitasset_data db) k = Some b \<longrightarrow> has_settlement b \<longrightarrow>
      asset_id (base (ba_settlement_price b)) = asset_id (ase_amount op)
      \<and> asset_id (quote (ba_settlement_price b)) = short_backing_asset (ba_options b))"

lemma settled_amount_asset:
  "settled_amount x b d = Inr s \<Longrightarrow> asset_id (base (ba_settlement_price b)) = asset_id x \<Longrightarrow> asset_id s = asset_id (quote (ba_settlement_price b))"
  by (auto simp: settled_amount_def asset_times_price_def Let_def split: if_splits)

lemma fund_payout_moves:
  assumes "modify_bitasset a (\<lambda>b. bindE (safe_sub (settlement_fund b) x) (\<lambda>y. Inr (b\<lparr>settlement_fund := y\<rparr>))) db = Inr db'" "market_ok db"
    and "bitasset_data a db = Inr b" "has_settlement b"
  shows "market_ok db'" "books i db' = books i db - (if i = short_backing_asset (ba_options b) then x else 0)" "assets db' = assets db"
proof -
  from assms(1,3) obtain k where k: "bitasset_data_id a = Some k" "idx_find (asset_bitasset_data db) k = Some b"
    and db': "db' = db\<lparr>asset_bitasset_data := idx_put (asset_bitasset_data db) k (b\<lparr>settlement_fund := settlement_fund b - x\<rparr>)\<rparr>"
    by (auto simp: modify_bitasset_def bitasset_data_def)
  let ?b = "b\<lparr>settlement_fund := settlement_fund b - x\<rparr>"
  have s: "has_settlement ?b \<or> settlement_fund ?b = 0" "ba_options ?b = ba_options b" using assms(4) by (simp_all add: has_settlement_def)
  note e = bitasset_put_effect [OF assms(2) k(2) s]
  show "market_ok db'" using e(1) by (simp add: db')
  show "books i db' = books i db - (if i = short_backing_asset (ba_options b) then x else 0)"
    using e(2,3) [of i] by (simp add: db' books_def fund_amount_def)
  show "assets db' = assets db" by (simp add: db')
qed

lemma asset_settle_keeps:
  assumes "asset_settle_apply op db = Inr r" "market_ok db" "settles_to_backing op db"
  shows "keeps_books db (snd r)"
proof -
  let ?x = "ase_amount op"
  from assms(1) obtain a n db1 b where a: "idx_find (assets db) (asset_id ?x) = Some a" and n: "n = mk_asset (- amount ?x) (asset_id ?x)"
    and adj: "adjust_balance (ase_account op) n db = Inr db1" and b: "bitasset_data a db1 = Inr b"
    and rest: "(if has_settlement b
      then bindE (idx_get ''asset_dynamic_data'' (asset_dynamic_data db1) (dynamic_asset_data_id a)) (\<lambda>dyn.
         bindE (settled_amount ?x b dyn) (\<lambda>s.
         bindE (modify_bitasset a (\<lambda>b. bindE (safe_sub (settlement_fund b) (amount s)) (\<lambda>x. Inr (b\<lparr>settlement_fund := x\<rparr>))) db1) (\<lambda>db.
         bindE (adjust_balance (ase_account op) s db) (\<lambda>db.
         bindE (adjust_supply (asset_id ?x) (- amount ?x) db) (\<lambda>db.
         Inr (Inl s, db))))))
      else Inr (Inr (next_id (force_settlements db1)), db1\<lparr>force_settlements := idx_create (force_settlements db1)
           \<lparr>fs_owner = ase_account op, fs_balance = ?x,
             settlement_date = (head_block_time db1 + force_settlement_delay_sec (ba_options b)) mod 2 ^ 32\<rparr>\<rparr>)) = Inr r"
    unfolding asset_settle_apply_def bindE_eq_Inr get_asset_eq_Inr asset_neg_eq_Inr by blast
  note m = adjust_balance_moves(1) [OF adj assms(2)]
  have ok1: "market_ok db1" using movesD(1) [OF m] .
  have books1: "books i db1 = books i db - asset_part i ?x" for i using movesD(4,5) [OF m, of i] by (simp add: books_def part_is n)
  show ?thesis
  proof (cases "has_settlement b")
    case True
    then obtain dyn s db2 db3 where s: "settled_amount ?x b dyn = Inr s"
      and f: "modify_bitasset a (\<lambda>b. bindE (safe_sub (settlement_fund b) (amount s)) (\<lambda>x. Inr (b\<lparr>settlement_fund := x\<rparr>))) db1 = Inr db2"
      and c: "adjust_balance (ase_account op) s db2 = Inr db3" and d: "adjust_supply (asset_id ?x) (- amount ?x) db3 = Inr (snd r)"
      using rest unfolding if_P [OF True] bindE_eq_Inr by auto
    have "bitasset_data a db = Inr b" using b movesD(3) [OF m] by (simp add: bitasset_data_def)
    then have q: "asset_id (base (ba_settlement_price b)) = asset_id ?x" "asset_id (quote (ba_settlement_price b)) = short_backing_asset (ba_options b)"
      using assms(3) a True by (auto simp: settles_to_backing_def bitasset_data_def)
    note e = fund_payout_moves [OF f ok1 b True]
    note m3 = adjust_balance_moves(1) [OF c e(1)]
    note m4 = adjust_supply_moves [OF d movesD(1) [OF m3]]
    have "asset_id s = short_backing_asset (ba_options b)" using settled_amount_asset [OF s q(1)] q(2) by simp
    then have "books i (snd r) = books i db" for i
      using e(2) [of i] books1 [of i] movesD(4,5) [OF m3, of i] movesD(4,5) [OF m4, of i] by (simp add: books_def part_is split: if_splits)
    then show ?thesis using movesD(1) [OF m4] by (simp add: keeps_books_def)
  next
    case False
    let ?s = "\<lparr>fs_owner = ase_account op, fs_balance = ?x,
             settlement_date = (head_block_time db1 + force_settlement_delay_sec (ba_options b)) mod 2 ^ 32\<rparr>"
    have r: "snd r = db1\<lparr>force_settlements := idx_create (force_settlements db1) ?s\<rparr>" using rest False by auto
    have "market_ok (snd r)"
      using ok1 db_ok_update(7) [OF market_okD(1) [OF ok1]] db_okD(12) [OF market_okD(1) [OF ok1]] by (simp add: r market_ok_def)
    moreover have "books i (snd r) = books i db1 + asset_part i ?x" for i by (simp add: r books_def db_simps idx_sum_create)
    ultimately show ?thesis using books1 by (simp add: keeps_books_def)
  qed
qed

section \<open>Creating an asset\<close>

text \<open>No asset refers to data that do not exist yet, and no call order owes an asset that does not exist yet.\<close>

definition links_ok :: "database \<Rightarrow> bool" where
  "links_ok db \<longleftrightarrow> (\<forall>p \<in> set (objs (assets db)). dynamic_asset_data_id (snd p) < next_id (asset_dynamic_data db)
      \<and> (\<forall>k. bitasset_data_id (snd p) = Some k \<longrightarrow> k < next_id (asset_bitasset_data db)))
    \<and> (\<forall>q \<in> set (objs (call_orders db)). asset_id (quote (co_call_price (snd q))) < next_id (assets db))"

lemma links_okD:
  "links_ok db \<Longrightarrow> idx_find (assets db) i = Some a \<Longrightarrow> dynamic_asset_data_id a < next_id (asset_dynamic_data db)"
  "links_ok db \<Longrightarrow> idx_find (assets db) i = Some a \<Longrightarrow> bitasset_data_id a = Some k \<Longrightarrow> k < next_id (asset_bitasset_data db)"
  "links_ok db \<Longrightarrow> q \<in> set (objs (call_orders db)) \<Longrightarrow> asset_id (quote (co_call_price (snd q))) < next_id (assets db)"
  by (auto simp: links_ok_def dest!: idx_find_in)

lemma next_id_simps [simp]:
  "next_id (idx_put t k v) = next_id t" "next_id (idx_create t v) = Suc (next_id t)"
  by (simp_all add: idx_put_def idx_create_def)

lemma links_ok_dynamic_put: "links_ok (db\<lparr>asset_dynamic_data := idx_put (asset_dynamic_data db) k d\<rparr>) = links_ok db"
  by (simp add: links_ok_def)

lemma dyn_field_create:
  assumes "links_ok db" "idx_ok (asset_dynamic_data db)"
  shows "dyn_field f i (assets db) (idx_create (asset_dynamic_data db) d) = dyn_field f i (assets db) (asset_dynamic_data db)"
proof (cases "idx_find (assets db) i")
  case (Some a)
  then have "dynamic_asset_data_id a \<noteq> next_id (asset_dynamic_data db)" using links_okD(1) [OF assms(1)] by fastforce
  then show ?thesis using Some by (simp add: dyn_field_def idx_find_create [OF assms(2)])
qed (simp add: dyn_field_def)

lemma create_dynamic_effect:
  assumes "market_ok db" "links_ok db"
    and "db' = db\<lparr>asset_dynamic_data := idx_create (asset_dynamic_data db) d\<rparr>"
  shows "market_ok db'" "links_ok db'" "books i db' = books i db + (if i = 0 then fee_pool d else 0)"
proof -
  have o: "idx_ok (asset_dynamic_data db)" using market_okD(1) [OF assms(1)] by (rule db_okD)
  show "market_ok db'" using assms(1) o by (simp add: assms(3) market_ok_def db_ok_def indices_ok_def)
  show "links_ok db'" using assms(2) by (auto simp: assms(3) links_ok_def less_Suc_eq)
  show "books i db' = books i db + (if i = 0 then fee_pool d else 0)"
    by (simp add: assms(3) books_def held_def supply_of_def dyn_field_create [OF assms(2) o] idx_sum_create pool_amount_def)
qed

lemma create_bitasset_effect:
  assumes "market_ok db" "links_ok db"
    and "db' = db\<lparr>asset_bitasset_data := idx_create (asset_bitasset_data db) (new_bitasset b pm)\<rparr>"
  shows "market_ok db'" "links_ok db'" "books i db' = books i db"
proof -
  have o: "idx_ok (asset_bitasset_data db)" using market_okD(1) [OF assms(1)] by (rule db_okD)
  have "backed (assets db) (idx_create (asset_bitasset_data db) (new_bitasset b pm)) p" if "backed (assets db) (asset_bitasset_data db) p" for p
    using that links_okD(2) [OF assms(2)] by (fastforce simp: backed_def idx_find_create [OF o] split: if_splits)
  then have "calls_backed (assets db) (idx_create (asset_bitasset_data db) (new_bitasset b pm)) (call_orders db)"
    using market_okD(5) [OF assms(1)] by (simp add: calls_backed_def)
  then show "market_ok db'"
    using assms(1) o by (simp add: assms(3) market_ok_def db_ok_def indices_ok_def funds_ok_def new_bitasset_def)
  show "links_ok db'" using assms(2) by (auto simp: assms(3) links_ok_def less_Suc_eq)
  show "books i db' = books i db"
    by (simp add: assms(3) books_def held_def supply_of_def idx_sum_create fund_amount_def new_bitasset_def)
qed

text \<open>The new asset refers to the last dynamic data, which hold no supply yet, and to the last data of a market issued asset, if any.\<close>

lemma create_asset_effect:
  assumes ok: "market_ok db" "links_ok db" and d: "idx_find (asset_dynamic_data db) (dynamic_asset_data_id a) = Some d"
    and zero: "current_supply d = 0" "confidential_supply d = 0" "accumulated_fees d = 0"
    and new: "\<And>p. p \<in> set (objs (assets db)) \<Longrightarrow> dynamic_asset_data_id (snd p) \<noteq> dynamic_asset_data_id a"
    and fee: "market_fee_percent (a_options a) \<le> 10000" "0 \<le> max_market_fee (a_options a)"
    and bit: "\<And>k. bitasset_data_id a = Some k \<Longrightarrow> k < next_id (asset_bitasset_data db)"
    and db': "db' = db\<lparr>assets := idx_create (assets db) a\<rparr>"
  shows "market_ok db'" "links_ok db'" "books i db' = books i db"
proof -
  have o: "idx_ok (assets db)" "idx_ok (asset_dynamic_data db)" using market_okD(1) [OF ok(1)] by (simp_all add: db_okD)
  have dyn: "dyn_ids_ok (assets db)" using market_okD(1) [OF ok(1)] by (simp add: db_ok_def)
  have f: "dyn_field g i (idx_create (assets db) a) (asset_dynamic_data db) = dyn_field g i (assets db) (asset_dynamic_data db)"
    if "g d = 0" for g
    using that d idx_fresh [OF o(1)] by (simp add: dyn_field_def idx_find_create [OF o(1)])
  obtain z where z: "idx_find (assets db) 0 = Some z" "dynamic_asset_data_id z = 0" using dyn unfolding dyn_ids_ok_def by blast
  have pair: "fst p = fst q" if "p \<in> set (objs (assets db))" "q \<in> set (objs (assets db))" "dynamic_asset_data_id (snd p) = dynamic_asset_data_id (snd q)" for p q
    using dyn that unfolding dyn_ids_ok_def by blast
  have "dyn_ids_ok (idx_create (assets db) a)"
    unfolding dyn_ids_ok_def
  proof (intro conjI ballI impI)
    have "next_id (assets db) \<noteq> 0" using idx_fresh [OF o(1)] z(1) by (metis option.distinct(1))
    then show "\<exists>b. idx_find (idx_create (assets db) a) 0 = Some b \<and> dynamic_asset_data_id b = 0" using z by (simp add: idx_find_create [OF o(1)])
    show "fst p = fst q" if "p \<in> set (objs (idx_create (assets db) a))" "q \<in> set (objs (idx_create (assets db) a))"
      "dynamic_asset_data_id (snd p) = dynamic_asset_data_id (snd q)" for p q
      using that pair [of p q] new [of p] new [of q] by auto
  qed
  moreover have "calls_backed (idx_create (assets db) a) (asset_bitasset_data db) (call_orders db)"
    unfolding calls_backed_def
  proof
    fix q
    assume q: "q \<in> set (objs (call_orders db))"
    have "asset_id (quote (co_call_price (snd q))) \<noteq> next_id (assets db)" using links_okD(3) [OF ok(2) q] by simp
    then show "backed (idx_create (assets db) a) (asset_bitasset_data db) (co_call_price (snd q))"
      using market_okD(5) [OF ok(1)] q by (auto simp: calls_backed_def backed_def idx_find_create [OF o(1)])
  qed
  moreover have "fee_options_ok (idx_create (assets db) a)" using market_okD(2) [OF ok(1)] fee by (auto simp: fee_options_ok_def)
  ultimately show "market_ok db'" using ok(1) o by (simp add: db' market_ok_def db_ok_def indices_ok_def)
  have "dynamic_asset_data_id a < next_id (asset_dynamic_data db)" using idx_find_in [OF d] o(2) by (auto simp: idx_ok_def)
  then show "links_ok db'" using ok(2) bit by (auto simp: db' links_ok_def less_Suc_eq)
  show "books i db' = books i db" by (simp add: db' books_def held_def supply_of_def f zero)
qed


text \<open>The parts of a database that the conditions above read.\<close>

definition same_links :: "database \<Rightarrow> database \<Rightarrow> bool" where
  "same_links db db' \<longleftrightarrow> assets db' = assets db \<and> asset_bitasset_data db' = asset_bitasset_data db \<and> call_orders db' = call_orders db"

lemma same_links_kept:
  "same_links db db' \<Longrightarrow> backing_kept op1 db' = backing_kept op1 db" "same_links db db' \<Longrightarrow> settles_to_backing op2 db' = settles_to_backing op2 db"
  "same_links db db' \<Longrightarrow> next_id (asset_dynamic_data db') = next_id (asset_dynamic_data db) \<Longrightarrow> links_ok db' = links_ok db"
  by (simp_all add: same_links_def backing_kept_def settles_to_backing_def links_ok_def)

lemma pay_fee_links: "pay_fee False fs db = Inr db' \<Longrightarrow> same_links db db' \<and> asset_dynamic_data db' = asset_dynamic_data db"
  by (auto simp: pay_fee_def modify_stats_def same_links_def)

lemma convert_fee_links: "convert_fee False fs db = Inr db' \<Longrightarrow> same_links db db' \<and> next_id (asset_dynamic_data db') = next_id (asset_dynamic_data db)"
  by (auto simp: convert_fee_def modify_dynamic_def same_links_def split: if_splits)

lemma adjust_balance_links: "adjust_balance a x db = Inr db' \<Longrightarrow> same_links db db' \<and> asset_dynamic_data db' = asset_dynamic_data db"
  by (auto simp: adjust_balance_def same_links_def Let_def split: if_splits option.splits)

lemma adjust_supply_links:
  "adjust_supply i x db = Inr db' \<Longrightarrow> same_links db db' \<and> next_id (asset_dynamic_data db') = next_id (asset_dynamic_data db)"
  by (auto simp: adjust_supply_def modify_dynamic_def same_links_def)

lemma modify_dynamic_finds:
  "modify_dynamic j f db = Inr db' \<Longrightarrow> idx_find (assets db) j = Some a \<Longrightarrow> k \<noteq> dynamic_asset_data_id a
    \<Longrightarrow> idx_find (asset_dynamic_data db') k = idx_find (asset_dynamic_data db) k"
  by (auto simp: modify_dynamic_def idx_find_put)

lemma half_fee_pool:
  assumes "0 \<le> c"
  shows "half_fee c + half_fee c = c + (if odd c then 1 else 0)"
  using assms by (auto simp: half_fee_def elim: oddE)

text \<open>The odd share of the fee, before the hardfork that stopped it.\<close>

lemma odd_fee_effect:
  assumes "(if c then adjust_supply 0 1 db else Inr db) = Inr db'" "market_ok db" "links_ok db"
    and "idx_find (asset_dynamic_data db) k = Some d" "\<And>p. p \<in> set (objs (assets db)) \<Longrightarrow> dynamic_asset_data_id (snd p) \<noteq> k"
  shows "market_ok db'" "links_ok db'" "same_links db db'" "next_id (asset_dynamic_data db') = next_id (asset_dynamic_data db)"
    "books i db' = books i db - (if i = 0 \<and> c then 1 else 0)" "idx_find (asset_dynamic_data db') k = Some d"
proof -
  have "market_ok db' \<and> links_ok db' \<and> same_links db db' \<and> next_id (asset_dynamic_data db') = next_id (asset_dynamic_data db)
      \<and> books i db' = books i db - (if i = 0 \<and> c then 1 else 0) \<and> idx_find (asset_dynamic_data db') k = Some d"
  proof (cases c)
    case True
    then have a: "adjust_supply 0 1 db = Inr db'" using assms(1) by simp
    then obtain z where z: "idx_find (assets db) 0 = Some z" by (auto simp: adjust_supply_def modify_dynamic_def)
    have "dynamic_asset_data_id z \<noteq> k" using assms(5) idx_find_in [OF z] by fastforce
    then have "idx_find (asset_dynamic_data db') k = Some d"
      using modify_dynamic_finds [OF a [unfolded adjust_supply_def] z, of k] assms(4) by simp
    moreover note adjust_supply_links [OF a]
    moreover note same_links_kept(3) [of db db']
    moreover note m = adjust_supply_moves [OF a assms(2)]
    ultimately show ?thesis using True movesD(1) [OF m] movesD(4,5) [OF m, of i] assms(3) by (simp add: books_def)
  qed (use assms in \<open>auto simp: same_links_def\<close>)
  then show "market_ok db'" "links_ok db'" "same_links db db'" "next_id (asset_dynamic_data db') = next_id (asset_dynamic_data db)"
    "books i db' = books i db - (if i = 0 \<and> c then 1 else 0)" "idx_find (asset_dynamic_data db') k = Some d" by blast+
qed

text \<open>The data of a market issued asset, if any, and the asset itself.\<close>

lemma new_asset_effect:
  assumes "market_ok db" "links_ok db" "idx_find (asset_dynamic_data db) k = Some d"
    and "current_supply d = 0" "confidential_supply d = 0" "accumulated_fees d = 0"
    and "\<And>p. p \<in> set (objs (assets db)) \<Longrightarrow> dynamic_asset_data_id (snd p) \<noteq> k"
    and "market_fee_percent opts \<le> 10000" "0 \<le> max_market_fee opts"
    and "db3 = (case bo of None \<Rightarrow> db | Some b \<Rightarrow> db\<lparr>asset_bitasset_data := idx_create (asset_bitasset_data db) (new_bitasset b pm)\<rparr>)"
    and "db' = db3\<lparr>assets := idx_create (assets db3) \<lparr>symbol = sy, decimals = p, issuer = who, a_options = opts, dynamic_asset_data_id = k,
           bitasset_data_id = map_option (\<lambda>_. next_id (asset_bitasset_data db)) bo, buyback_account = None\<rparr>\<rparr>"
  shows "market_ok db'" "links_ok db'" "books i db' = books i db"
proof -
  have 3: "market_ok db3" "links_ok db3" "books i db3 = books i db" "assets db3 = assets db" "asset_dynamic_data db3 = asset_dynamic_data db"
    "\<And>j. map_option (\<lambda>_. next_id (asset_bitasset_data db)) bo = Some j \<Longrightarrow> j < next_id (asset_bitasset_data db3)"
    using create_bitasset_effect [OF assms(1,2), of db3] assms(1,2,10) by (auto split: option.splits)
  note e = create_asset_effect [OF 3(1,2) _ assms(4-6), of _ db', OF _ _ _ _ _ assms(11)]
  show "market_ok db'" "links_ok db'" using e(1,2) 3 assms(3,7-9) by simp_all
  show "books i db' = books i db" using e(3) 3 assms(3,7-9) by simp
qed

lemma asset_create_books:
  assumes "asset_create_pay_fee fs db0 = Inr db" "asset_create_apply op fs db = Inr r" "market_ok db0" "links_ok db0"
    and "0 \<le> core_fee_paid fs" "asset_create_validate op = Inr u"
  shows "market_ok (snd r) \<and> links_ok (snd r) \<and> (\<forall>i. books i (snd r) = books i db0 + asset_part i (mk_asset (core_fee_paid fs) 0))"
proof -
  let ?c = "core_fee_paid fs"
  let ?hf = "odd ?c \<and> HARDFORK_CORE_429_TIME < head_block_time db"
  let ?k = "next_id (asset_dynamic_data db)"
  let ?dyn = "\<lparr>current_supply = 0, confidential_supply = 0, accumulated_fees = 0, fee_pool = half_fee ?c - (if ?hf then 1 else 0)\<rparr>"
  let ?db1 = "db\<lparr>asset_dynamic_data := idx_create (asset_dynamic_data db) ?dyn\<rparr>"
  have m: "moves db0 (\<lambda>i. asset_part i (mk_asset (half_fee ?c) 0)) (\<lambda>_. 0) db" "same_links db0 db" "asset_dynamic_data db = asset_dynamic_data db0"
    using pay_fee_moves(1) [OF assms(1) [unfolded asset_create_pay_fee_def] assms(3)] pay_fee_links [OF assms(1) [unfolded asset_create_pay_fee_def]]
    by simp_all
  have l: "links_ok db" using same_links_kept(3) [OF m(2)] m(3) assms(4) by simp
  note e1 = create_dynamic_effect [OF movesD(1) [OF m(1)] l, of ?db1 ?dyn, OF refl]
  from assms(2) obtain db2 where
    d2: "(if odd ?c \<and> \<not> ?hf then adjust_supply 0 1 ?db1 else Inr ?db1) = Inr db2"
    and r: "snd r = (let bit_id = map_option (\<lambda>_. next_id (asset_bitasset_data db2)) (bitasset_opts op);
         db3 = (case bitasset_opts op of None \<Rightarrow> db2
               | Some b \<Rightarrow> db2\<lparr>asset_bitasset_data := idx_create (asset_bitasset_data db2) (new_bitasset b (acr_is_prediction_market op))\<rparr>);
         opts = (common_options op)\<lparr>ao_core_exchange_rate := own_exchange_rate (next_id (assets db3)) (ao_core_exchange_rate (common_options op))\<rparr>
       in db3\<lparr>assets := idx_create (assets db3) \<lparr>symbol = acr_symbol op, decimals = acr_precision op, issuer = acr_issuer op, a_options = opts,
            dynamic_asset_data_id = ?k, bitasset_data_id = bit_id, buyback_account = None\<rparr>\<rparr>)"
    unfolding asset_create_apply_def Let_def bindE_eq_Inr safe_sub_eq_Inr adjust_supply_def by (elim exE conjE) auto
  have o: "idx_ok (asset_dynamic_data db)" using market_okD(1) [OF movesD(1) [OF m(1)]] by (rule db_okD)
  have new: "idx_find (asset_dynamic_data ?db1) ?k = Some ?dyn" by (simp add: idx_find_create [OF o])
  have unused: "dynamic_asset_data_id (snd p) \<noteq> ?k" if "p \<in> set (objs (assets db))" for p
    using l that by (auto simp: links_ok_def)
  then have unused1: "dynamic_asset_data_id (snd p) \<noteq> ?k" if "p \<in> set (objs (assets ?db1))" for p using that by simp
  note e2 = odd_fee_effect [OF d2 e1(1,2) new unused1]
  have "assets db2 = assets db" using e2(3) by (simp add: same_links_def)
  then have unused2: "dynamic_asset_data_id (snd p) \<noteq> ?k" if "p \<in> set (objs (assets db2))" for p using unused that by simp
  have opts: "market_fee_percent ((common_options op)\<lparr>ao_core_exchange_rate := x\<rparr>) \<le> 10000" "0 \<le> max_market_fee ((common_options op)\<lparr>ao_core_exchange_rate := x\<rparr>)" for x
    using assms(6) by (auto simp: asset_create_validate_def asset_options_validate_def GRAPHENE_100_PERCENT_def)
  note e3 = new_asset_effect [OF e2(1,2,6) _ _ _ unused2 opts refl r [unfolded Let_def]]
  have "books i (snd r) = books i db0 + asset_part i (mk_asset ?c 0)" for i
    using e3(3) [of i] e2(5) [of i] e1(3) [of i] movesD(4,5) [OF m(1), of i] half_fee_pool [OF assms(5)] by (simp add: books_def part_is)
  then show ?thesis using e3(1,2) by simp
qed

section \<open>The operations keep the books\<close>

text \<open>
  The contract of an operation on assets: from a state that satisfies its condition, and after checks made on a state with the
  same assets, data and call orders, it keeps the books. The condition rides along with the checks.
\<close>

locale asset_operation =
  fixes cond :: "database \<Rightarrow> bool" and checked :: "unit exn" and ev :: "database \<Rightarrow> unit exn"
    and app :: "database \<Rightarrow> ('r \<times> database) exn"
  assumes cond_links: "same_links db0 db \<Longrightarrow> cond db = cond db0"
    and app_keeps: "market_ok db \<Longrightarrow> cond db \<Longrightarrow> checked = Inr () \<Longrightarrow> ev db0 = Inr () \<Longrightarrow> same_links db0 db
      \<Longrightarrow> app db = Inr r \<Longrightarrow> keeps_books db (snd r)"

sublocale asset_operation \<subseteq> fee_paying_evaluator market_ok
  "\<lambda>_ db. bindE checked (\<lambda>_. bindE (fc_assert (cond db) []) (\<lambda>_. ev db))" "pay_fee False" "\<lambda>_ _. app"
proof (unfold_locales, goal_cases)
  case (1 db)
  then show ?case by (rule evaluator_base)
next
  case (2 db fs db')
  then show ?case by (rule evaluator_base)
next
  case (3 db a x db')
  then show ?case by (rule evaluator_base)
next
  case (4 db fs db0 e db1 r)
  note m = pay_fee_moves(1) [OF 4(5,1)]
  have l: "same_links db0 db1" using 4(3) pay_fee_links [OF 4(5)] by (auto simp: same_links_def)
  have "cond db1" using 4(2) cond_links [OF l] by auto
  then have "keeps_books db1 (snd r)" using app_keeps [OF movesD(1) [OF m] _ _ _ l 4(6)] 4(2) by auto
  then show ?case using movesD(4,5) [OF m] by (simp add: keeps_books_def books_def)
qed

context asset_operation
begin

lemma run_keeps_books:
  assumes "run_operation sk rq payer fee checked ev app db = Inr r" "market_ok db" "cond db"
  shows "keeps_books db (snd r)"
proof -
  have "start_evaluate sk rq payer fee (\<lambda>_ db. bindE checked (\<lambda>_. bindE (fc_assert (cond db) []) (\<lambda>_. ev db))) False
      (pay_fee False) (\<lambda>_ _. app) db = Inr r"
    using assms(1,3) by (auto simp: run_operation_def start_evaluate_def)
  then show ?thesis using operation_conserves [OF _ assms(2)] by (simp add: keeps_books_def)
qed

end

interpretation issuing: asset_operation "\<lambda>_. True" "asset_issue_validate op" "asset_issue_evaluate op" "\<lambda>db. void_result (asset_issue_apply op db)" for op
  by unfold_locales (auto intro: asset_issue_keeps)

interpretation reserving: asset_operation "\<lambda>_. True" "asset_reserve_validate op" "asset_reserve_evaluate op"
  "\<lambda>db. void_result (asset_reserve_apply op db)" for op
  by unfold_locales (auto intro: asset_reserve_keeps)

interpretation pool_funding: asset_operation "\<lambda>_. True" "asset_fund_fee_pool_validate op" "asset_fund_fee_pool_evaluate op"
  "\<lambda>db. void_result (asset_fund_fee_pool_apply op db)" for op
  by unfold_locales (auto intro: asset_fund_fee_pool_keeps)

interpretation fee_claiming: asset_operation "\<lambda>_. True" "asset_claim_fees_validate op" "asset_claim_fees_evaluate op"
  "\<lambda>db. void_result (asset_claim_fees_apply op db)" for op
  by unfold_locales (auto intro: asset_claim_fees_keeps)

interpretation updating: asset_operation "\<lambda>_. True" "asset_update_validate op" "asset_update_evaluate op"
  "\<lambda>db. void_result (asset_update_apply op db)" for op
  by unfold_locales (auto intro: asset_update_keeps)

interpretation bitasset_updating: asset_operation "backing_kept op" "asset_update_bitasset_validate op" "asset_update_bitasset_evaluate op"
  "\<lambda>db. void_result (asset_update_bitasset_apply op db)" for op
proof (unfold_locales, goal_cases)
  case (1 db0 db)
  then show ?case by (rule same_links_kept)
next
  case (2 db db0 r)
  from 2(5) have "assets db = assets db0" "asset_bitasset_data db = asset_bitasset_data db0" by (simp_all add: same_links_def)
  then show ?case using update_bitasset_keeps [OF _ 2(1,2,4), of "snd r"] 2(6) by simp
qed

interpretation producer_updating: asset_operation "\<lambda>_. True" "asset_update_feed_producers_validate op" "asset_update_feed_producers_evaluate op"
  "\<lambda>db. void_result (asset_update_feed_producers_apply op db)" for op
  by unfold_locales (auto intro: feed_producers_keeps)

interpretation feed_publishing: asset_operation "\<lambda>_. True" "asset_publish_feed_validate op" "asset_publish_feed_evaluate op"
  "\<lambda>db. void_result (asset_publish_feed_apply op db)" for op
  by unfold_locales (auto intro: publish_feed_keeps)

interpretation global_settling: asset_operation "\<lambda>_. True" "asset_global_settle_validate op" "asset_global_settle_evaluate op"
  "\<lambda>db. void_result (asset_global_settle_apply op db)" for op
  by unfold_locales (auto simp: asset_global_settle_apply_def intro: keeps_booksI globally_settle_conserves)

interpretation settling: asset_operation "settles_to_backing op" "asset_settle_validate op" "asset_settle_evaluate op" "asset_settle_apply op" for op
  by unfold_locales (simp_all add: same_links_kept(2) asset_settle_keeps)

interpretation asset_creation: fee_paying_evaluator "\<lambda>db. market_ok db \<and> links_ok db"
  "\<lambda>_ db. bindE (asset_create_validate op) (\<lambda>_. asset_create_evaluate op db)" asset_create_pay_fee "\<lambda>_. asset_create_apply op" for op
proof (unfold_locales, goal_cases)
  case (1 db)
  then show ?case using evaluator_base(1) by blast
next
  case (2 db fs db')
  then show ?case using evaluator_base(2) [OF _ 2(2,3)] convert_fee_links [OF 2(3)] same_links_kept(3) by blast
next
  case (3 db a x db')
  then show ?case using evaluator_base(3) adjust_balance_links [OF 3(2)] same_links_kept(3) by metis
next
  case (4 db fs db0 e db1 r)
  then show ?case using asset_create_books [OF 4(5,6)] by auto
qed

text \<open>C8: The operations on assets create and destroy nothing but what they issue and reserve: creating an asset (with
  the split of its fee between the pool of the asset and the network), issuing, reserving, funding and claiming fees, updating
  options, issuers, feed producers and price feeds (with the margin calls and revivals they set off), settling globally and
  settling on request each leave, for every asset, what the chain holds minus its supply as it was, and keep the market
  invariant. Creating asks that no asset refers to data not created yet, settling that the settlement price is between the
  asset and its backing, and changing the backing asset that no call order owes the asset.\<close>

theorem asset_operations_conserve:
  assumes "market_ok db"
  shows "(links_ok db \<and> asset_create sk rq a db = Inr ra \<longrightarrow> keeps_books db (snd ra) \<and> links_ok (snd ra))
    \<and> (asset_issue sk rq b db = Inr rb \<longrightarrow> keeps_books db (snd rb))
    \<and> (asset_reserve sk rq c db = Inr rc \<longrightarrow> keeps_books db (snd rc))
    \<and> (asset_fund_fee_pool sk rq d db = Inr rd \<longrightarrow> keeps_books db (snd rd))
    \<and> (asset_claim_fees sk rq e db = Inr re \<longrightarrow> keeps_books db (snd re))
    \<and> (asset_update sk rq f db = Inr rf \<longrightarrow> keeps_books db (snd rf))
    \<and> (backing_kept g db \<and> asset_update_bitasset sk rq g db = Inr rg \<longrightarrow> keeps_books db (snd rg))
    \<and> (asset_update_feed_producers sk rq h db = Inr rh \<longrightarrow> keeps_books db (snd rh))
    \<and> (asset_publish_feed sk rq i db = Inr ri \<longrightarrow> keeps_books db (snd ri))
    \<and> (asset_global_settle sk rq j db = Inr rj \<longrightarrow> keeps_books db (snd rj))
    \<and> (settles_to_backing k db \<and> asset_settle sk rq k db = Inr rk \<longrightarrow> keeps_books db (snd rk))"
proof -
  have "keeps_books db (snd ra) \<and> links_ok (snd ra)" if "links_ok db" "asset_create sk rq a db = Inr ra"
    using asset_creation.operation_conserves [OF validated_run [OF that(2) [unfolded asset_create_def]]] assms that(1)
    by (auto simp: keeps_books_def)
  then show ?thesis
    unfolding asset_issue_def asset_reserve_def asset_fund_fee_pool_def asset_claim_fees_def asset_update_def asset_update_bitasset_def
      asset_update_feed_producers_def asset_publish_feed_def asset_global_settle_def asset_settle_def
    by (intro conjI impI; (elim conjE)?) (blast, blast | (rule issuing.run_keeps_books reserving.run_keeps_books pool_funding.run_keeps_books
      fee_claiming.run_keeps_books updating.run_keeps_books bitasset_updating.run_keeps_books producer_updating.run_keeps_books
      feed_publishing.run_keeps_books global_settling.run_keeps_books settling.run_keeps_books, assumption, rule assms, (assumption | rule TrueI)))+
qed

text \<open>Account 5 reserves 30 of asset 1 for a fee of 4: the supply of 100 and its balance of 50 fall by 30.\<close>

definition demo_reserve :: asset_reserve_operation where
  "demo_reserve = \<lparr>are_fee = mk_asset 4 0, are_payer = 5, amount_to_reserve = mk_asset 30 1\<rparr>"

lemma demo_chain_market_ok: "market_ok demo_chain"
  using demo_chain_ok by (simp add: market_ok_def fee_options_ok_def funds_ok_def orders_ok_def calls_backed_def) (simp add: demo_chain_simps)

theorem asset_operations_conserve_witness:
  "\<exists>r. asset_reserve False 4 demo_reserve demo_chain = Inr r \<and> amount (get_balance (snd r) 5 1) = 20
     \<and> map (\<lambda>p. current_supply (snd p)) (objs (asset_dynamic_data (snd r))) = [1000, 70] \<and> keeps_books demo_chain (snd r)"
proof -
  have "\<exists>r. asset_reserve False 4 demo_reserve demo_chain = Inr r \<and> amount (get_balance (snd r) 5 1) = 20
     \<and> map (\<lambda>p. current_supply (snd p)) (objs (asset_dynamic_data (snd r))) = [1000, 70]"
    by (simp add: demo_reserve_def demo_chain_simps Let_def index_eval asset_eval fee_eval run_operation_def asset_reserve_def asset_reserve_validate_def
        asset_reserve_evaluate_def asset_reserve_apply_def adjust_supply_def graphene_assert_def void_result_def is_market_issued_def
        cong: bindE_weak_cong del: bindE_eq_Inr void_result_eq_Inr)
  then obtain r where r: "asset_reserve False 4 demo_reserve demo_chain = Inr r" "amount (get_balance (snd r) 5 1) = 20"
    "map (\<lambda>p. current_supply (snd p)) (objs (asset_dynamic_data (snd r))) = [1000, 70]" by (elim exE conjE)
  have "keeps_books demo_chain (snd r)"
    using asset_operations_conserve [OF demo_chain_market_ok, where sk = False and rq = 4 and c = demo_reserve and rc = r,
        THEN conjunct2, THEN conjunct2, THEN conjunct1] r(1) by (rule mp)
  then show ?thesis using r by (intro exI [of _ r] conjI)
qed

end
