(* ===== verification/Housekeeping.thy ===== *)
theory Housekeeping
  imports AssetBooks
begin

text \<open>
  What the chain does by itself at the end of every block and in every maintenance: expired limit orders and due settlement
  orders (\<^verbatim>\<open>clear_expired_orders\<close>), expired feeds and withdraw permissions of \<^verbatim>\<open>db_update.cpp\<close>, and the bids on a settled
  asset (\<^verbatim>\<open>process_bids\<close> of \<^verbatim>\<open>db_maint.cpp\<close>). The loop over settlement orders looks its order up again in every turn, as the
  code does; it carries fuel, and four turns for every order and two more are shown to be enough. The cancellation of an expired
  order goes through the evaluator; that \<open>apply_operation\<close> also lists it as applied is left out.
\<close>

section \<open>Expired limit orders\<close>

definition HARDFORK_615_TIME :: nat where "HARDFORK_615_TIME = 1458752400"

definition expires_before :: "nat \<times> limit_order_object \<Rightarrow> nat \<times> limit_order_object \<Rightarrow> bool" where
  "expires_before p q \<longleftrightarrow> lo_expiration (snd p) < lo_expiration (snd q) \<or> lo_expiration (snd p) = lo_expiration (snd q) \<and> fst p < fst q"

definition expired_orders :: "database \<Rightarrow> nat list" where
  "expired_orders db = map fst (takeWhile (\<lambda>p. lo_expiration (snd p) \<le> head_block_time db) (order_by expires_before (objs (limit_orders db))))"

text \<open>The fee of the cancellation, from the fee schedule, is capped at the deferred fee of the order.\<close>

definition cancel_expired_order :: "asset \<Rightarrow> nat \<Rightarrow> database \<Rightarrow> database exn" where
  "cancel_expired_order scheduled oid db =
    (case idx_find (limit_orders db) oid of
       None \<Rightarrow> Inr db
     | Some ord \<Rightarrow>
         let fee = (if deferred_fee ord < amount scheduled then mk_asset (deferred_fee ord) 0 else scheduled) in
         bindE (limit_order_cancel False True 0 \<lparr>lcc_fee = fee, lcc_order = oid, lcc_fee_paying_account = seller ord\<rparr> db) (\<lambda>r. Inr (snd r)))"

definition cancel_expired_limits :: "asset \<Rightarrow> database \<Rightarrow> database exn" where
  "cancel_expired_limits scheduled db = foldE (cancel_expired_order scheduled) (expired_orders db) db"

section \<open>Due settlement orders\<close>

definition max_force_settlement_volume :: "asset_bitasset_data_object \<Rightarrow> share_type \<Rightarrow> share_type exn" where
  "max_force_settlement_volume b supply_now =
    (if maximum_force_settlement_volume (ba_options b) = 0 then Inr 0
     else if int (maximum_force_settlement_volume (ba_options b)) = GRAPHENE_100_PERCENT then safe_add supply_now (force_settled_volume b)
     else Inr (wrap64 (uint (u128 (wrap64 (supply_now + force_settled_volume b))
            * u128 (int (maximum_force_settlement_volume (ba_options b))) div u128 GRAPHENE_100_PERCENT))))"

text \<open>What a settlement order receives at the feed, less the offset of the asset.\<close>

definition settlement_receives :: "asset_bitasset_data_object \<Rightarrow> asset \<Rightarrow> asset exn" where
  "settlement_receives b x =
    bindE (asset_times_price x (settlement_price (current_feed b))) (\<lambda>r.
    let y = mk_asset (wrap64 (uint (u128 (amount r) * u128 (GRAPHENE_100_PERCENT - int (force_settlement_offset_percent (ba_options b)))
              div u128 GRAPHENE_100_PERCENT))) (asset_id r) in
    bindE (assertE (asset_le y r) ''receives <= order.balance * mia.current_feed.settlement_price'') (\<lambda>_. Inr y))"

lemma asset_min_amount: "asset_min a b = Inr c \<Longrightarrow> amount c = min (amount a) (amount b) \<and> asset_id a = asset_id b \<and> asset_id c = asset_id a"
  by (auto simp: asset_min_def asset_lt_def split: if_splits)

text \<open>A match pays something: the debt, the balance and what is left of the volume are positive.\<close>

lemma match_settle_progress:
  assumes "match_settle cid sid p mx db = Inr r" "0 < amount mx"
  shows "0 < amount (fst r)" "asset_id (fst r) = asset_id mx"
proof -
  from assms(1) obtain c :: call_order_object and s :: force_settlement_object and a where "0 < debt c" "0 < amount (fs_balance s)"
    and a: "asset_min (fs_balance s) mx = Inr a" "asset_min a (get_debt c) = Inr (fst r)"
    unfolding match_settle_def bindE_eq_Inr fc_assert_eq_Inr by (elim exE conjE) (auto split: if_splits)
  then show "0 < amount (fst r)" "asset_id (fst r) = asset_id mx"
    using assms(2) asset_min_amount [OF a(1)] asset_min_amount [OF a(2)] by (auto simp: get_debt_def)
qed

function settle_against_calls :: "asset_id_type \<Rightarrow> price \<Rightarrow> asset \<Rightarrow> nat \<Rightarrow> asset \<Rightarrow> database \<Rightarrow> (asset \<times> database) exn" where
  "settle_against_calls mia p mx sid settled db =
    bindE (asset_lt settled mx) (\<lambda>below.
    if \<not> below \<or> idx_find (force_settlements db) sid = None then Inr (settled, db)
    else
    bindE (get_asset db mia) (\<lambda>m.
    bindE (bitasset_data m db) (\<lambda>b.
    bindE (price_min (short_backing_asset (ba_options b)) mia) (\<lambda>lo.
    bindE (least_collateralized lo db) (\<lambda>c.
    bindE (fc_assert (asset_id (get_debt (snd c)) = mia) ''itr->debt_type() == mia_object.get_id()'') (\<lambda>_.
    bindE (asset_sub mx settled) (\<lambda>max_settlement.
    bindE (idx_get ''force_settlement'' (force_settlements db) sid) (\<lambda>ord.
    if amount (fs_balance ord) = 0 then bindE (cancel_settle_order sid True db) (\<lambda>db. Inr (settled, db))
    else
    case match_settle (fst c) sid p max_settlement db of
      Inl e \<Rightarrow> if e = chain_exception ''black_swan_exception'' then bindE (cancel_settle_order sid True db) (\<lambda>db. Inr (settled, db)) else Inl e
    | Inr r \<Rightarrow> bindE (asset_add settled (fst r)) (\<lambda>settled. settle_against_calls mia p mx sid settled (snd r))))))))))"
  by pat_completeness auto
termination
proof (relation "measure (\<lambda>(mia, p, mx, sid, settled, db). nat (amount mx - amount settled))", goal_cases)
  case (2 mia p mx sid settled db below m b lo c u max_settlement ord r s)
  then have "amount settled < amount mx" "amount max_settlement = amount mx - amount settled"
    by (auto simp: asset_lt_def asset_sub_def)
  moreover have "amount s = amount settled + amount (fst r)" using 2 by (auto simp: asset_add_def)
  ultimately show ?case using match_settle_progress(1) [of "fst c" sid p max_settlement db r] 2 by simp
qed simp

declare settle_against_calls.simps [simp del]

text \<open>What the matching leaves alone, and what becomes of the settlement orders: one of them shrinks or goes.\<close>

definition same_books :: "database \<Rightarrow> database \<Rightarrow> bool" where
  "same_books db db' \<longleftrightarrow> assets db' = assets db \<and> asset_bitasset_data db' = asset_bitasset_data db \<and> force_settlements db' = force_settlements db"

lemma same_books_trans: "same_books a b \<Longrightarrow> same_books b c \<Longrightarrow> same_books a c"
  by (simp add: same_books_def)

lemma same_books_steps:
  "adjust_balance a x db = Inr db' \<Longrightarrow> same_books db db'"
  "modify_stats a f db = Inr db' \<Longrightarrow> same_books db db'"
  "modify_dynamic i g db = Inr db' \<Longrightarrow> same_books db db'"
  "same_books db (push_applied_operation v db)"
  "same_books db (db\<lparr>call_orders := t\<rparr>)" "same_books db db"
  by (auto simp: adjust_balance_def modify_stats_def modify_dynamic_def push_applied_operation_def same_books_def Let_def
      split: if_splits option.splits)

lemma pay_market_fees_same: "pay_market_fees x db = Inr r \<Longrightarrow> same_books db (snd r)"
  by (auto simp: pay_market_fees_def Let_def same_books_steps split: if_splits dest: same_books_steps(3))

lemma release_same:
  assumes "(if f \<noteq> None \<or> core then bindE (case f of None \<Rightarrow> Inr db | Some x \<Rightarrow> adjust_balance a x db) (\<lambda>db. modify_stats a g db) else Inr db) = Inr db'"
  shows "same_books db db'"
proof (cases f)
  case None
  then show ?thesis using assms by (auto simp: same_books_steps split: if_splits dest: same_books_steps(2))
next
  case (Some x)
  then obtain db1 where "adjust_balance a x db = Inr db1" "modify_stats a g db1 = Inr db'" using assms by auto
  then show ?thesis using same_books_trans [OF same_books_steps(1) same_books_steps(2)] by blast
qed

lemma fill_call_order_same:
  assumes "fill_call_order cid x y p mk db = Inr r"
  shows "same_books db (snd r)"
proof -
  have "ensures (fill_call_order cid x y p mk db) (\<lambda>r. same_books db (snd r))"
    unfolding fill_call_order_def Let_def
    by (intro ensures_intros; drule release_same; drule same_books_steps(3))
      (simp_all add: same_books_def push_applied_operation_def)
  then show ?thesis using assms by (rule ensuresD)
qed

definition settlement_map :: "database \<Rightarrow> nat \<Rightarrow> asset_id_type option" where
  "settlement_map db k = map_option (\<lambda>s. asset_id (fs_balance s)) (idx_find (force_settlements db) k)"

definition settles_one :: "nat \<Rightarrow> database \<Rightarrow> database \<Rightarrow> bool" where
  "settles_one sid db db' \<longleftrightarrow> assets db' = assets db \<and> asset_bitasset_data db' = asset_bitasset_data db
    \<and> (settlement_map db' = settlement_map db \<or> settlement_map db' = (settlement_map db)(sid := None))
    \<and> (idx_ok (force_settlements db) \<longrightarrow> idx_ok (force_settlements db'))"

lemma settles_one_trans: "settles_one sid a b \<Longrightarrow> settles_one sid b c \<Longrightarrow> settles_one sid a c"
  by (auto simp: settles_one_def)

lemma settles_one_same: "same_books db db' \<Longrightarrow> settles_one sid db db'"
  by (simp add: same_books_def settles_one_def settlement_map_def fun_eq_iff)

lemma cancel_settles_one:
  assumes "cancel_settle_order sid v db = Inr db'"
  shows "settles_one sid db db'" "settlement_map db' sid = None"
proof -
  obtain s :: force_settlement_object and db1 where "adjust_balance (fs_owner s) (fs_balance s) db = Inr db1"
    and "db' = (if v then push_applied_operation (asset_settle_cancel_vop sid (fs_owner s) (fs_balance s)) db1 else db1)
      \<lparr>force_settlements := idx_remove (force_settlements (if v then push_applied_operation (asset_settle_cancel_vop sid (fs_owner s) (fs_balance s)) db1 else db1)) sid\<rparr>"
    using assms by (auto simp: cancel_settle_order_def Let_def)
  moreover have "same_books db (if v then push_applied_operation (asset_settle_cancel_vop sid (fs_owner s) (fs_balance s)) db1 else db1)"
    using same_books_steps(1) [OF calculation(1)] same_books_trans same_books_steps(4) by simp
  ultimately show "settles_one sid db db'" "settlement_map db' sid = None"
    by (auto simp: same_books_def settles_one_def settlement_map_def fun_eq_iff idx_find_remove)
qed

lemma fill_settles_one:
  assumes "fill_settle_order sid x y p mk db = Inr r"
  shows "settles_one sid db (snd r)"
proof -
  from assms obtain s :: force_settlement_object and fees less db1 net db2 where s: "idx_find (force_settlements db) sid = Some s" and f: "pay_market_fees y db = Inr fees"
    and d1: "(if less then bindE (asset_sub (fs_balance s) x) (\<lambda>x. Inr ((snd fees)\<lparr>force_settlements := idx_put (force_settlements (snd fees)) sid (s\<lparr>fs_balance := x\<rparr>)\<rparr>))
      else Inr (snd fees)) = (Inr db1 :: database exn)"
    and d2: "adjust_balance (fs_owner s) net db1 = Inr db2"
    and r: "(let db = push_applied_operation (fill_order_operation sid (fs_owner s) x y (fst fees) p mk) db2
       in if less then Inr (False, db) else Inr (True, db\<lparr>force_settlements := idx_remove (force_settlements db) sid\<rparr>)) = (Inr r :: (bool \<times> database) exn)"
    unfolding fill_settle_order_def bindE_eq_Inr idx_get_eq_Inr by (elim exE conjE) (rule that, assumption+)
  have f1: "same_books db (snd fees)" using pay_market_fees_same [OF f] .
  have 1: "settles_one sid db db1"
    using d1 s f1 by (auto simp: settles_one_def settlement_map_def same_books_def fun_eq_iff idx_find_put asset_sub_def split: if_splits)
  have "same_books db1 (push_applied_operation (fill_order_operation sid (fs_owner s) x y (fst fees) p mk) db2)"
    using same_books_trans [OF same_books_steps(1) [OF d2] same_books_steps(4)] .
  then have "settles_one sid db1 (snd r)"
    using r by (auto simp: settles_one_def settlement_map_def same_books_def fun_eq_iff idx_find_remove Let_def split: if_splits)
  then show ?thesis using settles_one_trans [OF 1] by blast
qed

lemma match_settles_one:
  assumes "match_settle cid sid p mx db = Inr r"
  shows "settles_one sid db (snd r)"
proof -
  from assms obtain x y r1 r2 where "fill_call_order cid x y p True db = Inr r1" "fill_settle_order sid y x p False (snd r1) = Inr r2" "snd r = snd r2"
    unfolding match_settle_def bindE_eq_Inr by (elim exE conjE) (auto split: if_splits)
  then show ?thesis using settles_one_trans [OF settles_one_same [OF fill_call_order_same] fill_settles_one] by simp
qed

lemma settle_against_calls_cases:
  assumes "settle_against_calls mia p mx sid settled db = Inr r"
  obtains "asset_id settled = asset_id mx" "amount mx \<le> amount settled \<or> settlement_map db sid = None" "r = (settled, db)"
  | db' where "asset_id settled = asset_id mx" "cancel_settle_order sid True db = Inr db'" "r = (settled, db')"
  | c ms q s' where "asset_id settled = asset_id mx" "amount settled < amount mx" "asset_sub mx settled = Inr ms"
    "match_settle c sid p ms db = Inr q" "asset_add settled (fst q) = Inr s'" "settle_against_calls mia p mx sid s' (snd q) = Inr r"
proof -
  from assms obtain below where lt: "asset_lt settled mx = Inr below"
    and rest: "(if \<not> below \<or> idx_find (force_settlements db) sid = None then Inr (settled, db)
      else bindE (get_asset db mia) (\<lambda>m.
    bindE (bitasset_data m db) (\<lambda>b.
    bindE (price_min (short_backing_asset (ba_options b)) mia) (\<lambda>lo.
    bindE (least_collateralized lo db) (\<lambda>c.
    bindE (fc_assert (asset_id (get_debt (snd c)) = mia) ''itr->debt_type() == mia_object.get_id()'') (\<lambda>_.
    bindE (asset_sub mx settled) (\<lambda>max_settlement.
    bindE (idx_get ''force_settlement'' (force_settlements db) sid) (\<lambda>ord.
    if amount (fs_balance ord) = 0 then bindE (cancel_settle_order sid True db) (\<lambda>db. Inr (settled, db))
    else
    case match_settle (fst c) sid p max_settlement db of
      Inl e \<Rightarrow> if e = chain_exception ''black_swan_exception'' then bindE (cancel_settle_order sid True db) (\<lambda>db. Inr (settled, db)) else Inl e
    | Inr r \<Rightarrow> bindE (asset_add settled (fst r)) (\<lambda>settled. settle_against_calls mia p mx sid settled (snd r)))))))))) = Inr r"
    unfolding settle_against_calls.simps [of mia p mx sid settled db] bindE_eq_Inr by blast
  have ids: "asset_id settled = asset_id mx" "below = (amount settled < amount mx)" using lt by (auto simp: asset_lt_def)
  show ?thesis
  proof (cases "below \<and> idx_find (force_settlements db) sid \<noteq> None")
    case False
    then show ?thesis using that(1) ids rest by (auto simp: settlement_map_def)
  next
    case True
    then have c: "\<not> (\<not> below \<or> idx_find (force_settlements db) sid = None)" by simp
    obtain c :: "nat \<times> call_order_object" and ms and ord :: force_settlement_object where ms: "asset_sub mx settled = Inr ms"
      and m: "(if amount (fs_balance ord) = 0 then bindE (cancel_settle_order sid True db) (\<lambda>db. Inr (settled, db))
      else case match_settle (fst c) sid p ms db of
        Inl e \<Rightarrow> if e = chain_exception ''black_swan_exception'' then bindE (cancel_settle_order sid True db) (\<lambda>db. Inr (settled, db)) else Inl e
      | Inr r \<Rightarrow> bindE (asset_add settled (fst r)) (\<lambda>settled. settle_against_calls mia p mx sid settled (snd r))) = Inr r"
      using rest unfolding if_not_P [OF c] bindE_eq_Inr by (elim exE conjE) (rule that, assumption+)
    show ?thesis
    proof (cases "match_settle (fst c) sid p ms db")
      case (Inl e)
      then show ?thesis using m that(2) [OF ids(1)] by (auto split: if_splits)
    next
      case (Inr q)
      then show ?thesis using m that(2) [OF ids(1)] that(3) [OF ids(1) _ ms Inr] ids(2) True by (auto split: if_splits)
    qed
  qed
qed

lemma settle_against_calls_effect:
  assumes "settle_against_calls mia p mx sid settled db = Inr r"
  shows "settles_one sid db (snd r)" "asset_id (fst r) = asset_id mx"
    "settlement_map (snd r) sid \<noteq> None \<Longrightarrow> amount mx \<le> amount (fst r)" "market_ok db \<Longrightarrow> market_conserves db (snd r)"
proof -
  have "settles_one sid db (snd r) \<and> asset_id (fst r) = asset_id mx \<and> (settlement_map (snd r) sid \<noteq> None \<longrightarrow> amount mx \<le> amount (fst r))
    \<and> (market_ok db \<longrightarrow> market_conserves db (snd r))"
    using assms
  proof (induction "nat (amount mx - amount settled)" arbitrary: settled db rule: less_induct)
    case less
    from less.prems show ?case
    proof (cases rule: settle_against_calls_cases)
      case 1
      then show ?thesis by (auto simp: settles_one_same same_books_steps market_conserves_refl)
    next
      case (2 db')
      then show ?thesis using cancel_settles_one [OF 2(2)] moves_conserves [OF cancel_settle_order_moves [OF 2(2)]] by auto
    next
      case (3 c ms q s')
      have ms: "amount ms = amount mx - amount settled" "asset_id ms = asset_id mx" using 3(3) by (auto simp: asset_sub_def)
      then have q: "0 < amount (fst q)" using match_settle_progress(1) [OF 3(4)] 3(2) by simp
      have "amount s' = amount settled + amount (fst q)" using 3(5) by (auto simp: asset_add_def)
      then have "nat (amount mx - amount s') < nat (amount mx - amount settled)" using q 3(2) by simp
      note ih = less.hyps [OF this 3(6)]
      have c: "market_ok db \<Longrightarrow> market_conserves db (snd q)" using match_settle_conserves [OF 3(4)] .
      have "market_conserves db (snd r)" if "market_ok db" using market_conserves_trans [OF c [OF that]] market_conserves_ok [OF c [OF that]] ih by blast
      then show ?thesis using ih settles_one_trans [OF match_settles_one [OF 3(4)]] by blast
    qed
  qed
  then show "settles_one sid db (snd r)" "asset_id (fst r) = asset_id mx"
    "settlement_map (snd r) sid \<noteq> None \<Longrightarrow> amount mx \<le> amount (fst r)" "market_ok db \<Longrightarrow> market_conserves db (snd r)" by blast+
qed

text \<open>The view by asset, date and id; the first order at or above an asset, and the asset of the first order above it.\<close>

definition settles_before :: "nat \<times> force_settlement_object \<Rightarrow> nat \<times> force_settlement_object \<Rightarrow> bool" where
  "settles_before p q \<longleftrightarrow> asset_id (fs_balance (snd p)) < asset_id (fs_balance (snd q))
    \<or> asset_id (fs_balance (snd p)) = asset_id (fs_balance (snd q)) \<and> settlement_before p q"

definition settlement_at :: "asset_id_type \<Rightarrow> database \<Rightarrow> (nat \<times> force_settlement_object) option" where
  "settlement_at cur db =
    List.find (\<lambda>p. cur \<le> asset_id (fs_balance (snd p))) (order_by settles_before (objs (force_settlements db)))"

definition next_settlement_asset :: "asset_id_type \<Rightarrow> database \<Rightarrow> asset_id_type option" where
  "next_settlement_asset cur db = map_option (\<lambda>p. asset_id (fs_balance (snd p)))
    (List.find (\<lambda>p. cur < asset_id (fs_balance (snd p))) (order_by settles_before (objs (force_settlements db))))"

definition settlement_volume :: "asset_object \<Rightarrow> asset_bitasset_data_object \<Rightarrow> asset_id_type \<Rightarrow> asset \<Rightarrow> database \<Rightarrow> asset exn" where
  "settlement_volume m b cur mx db =
    (if asset_id mx \<noteq> cur
     then bindE (idx_get ''asset_dynamic_data'' (asset_dynamic_data db) (dynamic_asset_data_id m)) (\<lambda>d.
          bindE (max_force_settlement_volume b (current_supply d)) (\<lambda>v. Inr (mk_asset v cur)))
     else Inr mx)"

definition settle_order_now :: "asset_object \<Rightarrow> asset_bitasset_data_object \<Rightarrow> asset_id_type \<Rightarrow> asset \<Rightarrow> nat \<times> force_settlement_object \<Rightarrow> database \<Rightarrow> database exn" where
  "settle_order_now m b cur mx p db =
    bindE (settlement_receives b (fs_balance (snd p))) (\<lambda>receives.
    bindE (asset_div (fs_balance (snd p)) receives) (\<lambda>price.
    bindE (settle_against_calls cur price mx (fst p) (mk_asset (force_settled_volume b) cur) db) (\<lambda>r.
    bindE (bitasset_data m (snd r)) (\<lambda>b.
    if force_settled_volume b \<noteq> amount (fst r)
    then modify_bitasset m (\<lambda>b. Inr (b\<lparr>force_settled_volume := amount (fst r)\<rparr>)) (snd r)
    else Inr (snd r)))))"

text \<open>One turn: the loop ends (\<open>Inl\<close>), or goes on with the current asset and the volume of the asset last looked at.\<close>

definition move_on :: "asset_id_type \<Rightarrow> asset \<Rightarrow> database \<Rightarrow> database + asset_id_type \<times> asset \<times> database" where
  "move_on cur mx db = (case next_settlement_asset cur db of None \<Rightarrow> Inl db | Some a \<Rightarrow> Inr (a, mx, db))"

definition settlement_turn :: "asset_id_type \<Rightarrow> asset \<Rightarrow> database \<Rightarrow> (database + asset_id_type \<times> asset \<times> database) exn" where
  "settlement_turn cur0 mx db =
    (case settlement_at cur0 db of
       None \<Rightarrow> Inr (Inl db)
     | Some p \<Rightarrow>
         let cur = asset_id (fs_balance (snd p)) in
         bindE (get_asset db cur) (\<lambda>m.
         bindE (bitasset_data m db) (\<lambda>b.
         if has_settlement b then bindE (cancel_settle_order (fst p) True db) (\<lambda>db. Inr (Inr (cur, mx, db)))
         else if head_block_time db < settlement_date (snd p) then Inr (move_on cur mx db)
         else if price_is_null (settlement_price (current_feed b))
         then bindE (cancel_settle_order (fst p) True db) (\<lambda>db. Inr (Inr (cur, mx, db)))
         else
         bindE (settlement_volume m b cur mx db) (\<lambda>mx.
         if amount mx \<le> force_settled_volume b then Inr (move_on cur mx db)
         else bindE (settle_order_now m b cur mx p db) (\<lambda>db. Inr (Inr (cur, mx, db)))))))"

definition volume_used :: "asset_id_type \<Rightarrow> asset \<Rightarrow> database \<Rightarrow> bool" where
  "volume_used cur mx db \<longleftrightarrow> asset_id mx = cur \<and> (case idx_find (assets db) cur of None \<Rightarrow> False
    | Some m \<Rightarrow> (case bitasset_data m db of Inl _ \<Rightarrow> False | Inr b \<Rightarrow> amount mx \<le> force_settled_volume b))"

definition settlements_above :: "asset_id_type \<Rightarrow> database \<Rightarrow> nat set" where
  "settlements_above cur db = {k. \<exists>a. settlement_map db k = Some a \<and> cur < a}"

lemma settlement_map_finite: "finite (dom (settlement_map db))" "finite (settlements_above cur db)"
proof -
  have "dom (settlement_map db) \<subseteq> fst ` set (objs (force_settlements db))"
    by (auto simp: settlement_map_def dest!: idx_find_in) force
  then show "finite (dom (settlement_map db))" by (rule finite_subset) simp
  then show "finite (settlements_above cur db)" by (rule rev_finite_subset) (auto simp: settlements_above_def)
qed

definition turns_left :: "asset_id_type \<Rightarrow> asset \<Rightarrow> database \<Rightarrow> nat" where
  "turns_left cur mx db = 2 * card (dom (settlement_map db)) + 2 * card (settlements_above cur db) + (if volume_used cur mx db then 0 else 1)"

lemma objs_find: "idx_ok t \<Longrightarrow> p \<in> set (objs t) \<Longrightarrow> idx_find t (fst p) = Some (snd p)"
  using in_idx_find [of t "fst p" "snd p"] by simp

lemma settlement_at_found:
  assumes "settlement_at cur db = Some p" "idx_ok (force_settlements db)"
  shows "settlement_map db (fst p) = Some (asset_id (fs_balance (snd p)))" "cur \<le> asset_id (fs_balance (snd p))"
proof -
  have "p \<in> set (objs (force_settlements db))" "cur \<le> asset_id (fs_balance (snd p))"
    using find_SomeD [OF assms(1) [unfolded settlement_at_def]] by simp_all
  moreover from this have "idx_find (force_settlements db) (fst p) = Some (snd p)" using objs_find [OF assms(2)] by blast
  ultimately show "settlement_map db (fst p) = Some (asset_id (fs_balance (snd p)))" "cur \<le> asset_id (fs_balance (snd p))"
    by (simp_all add: settlement_map_def)
qed

lemma next_settlement_found:
  assumes "next_settlement_asset cur db = Some a" "idx_ok (force_settlements db)"
  shows "cur < a" "\<exists>k. settlement_map db k = Some a"
proof -
  from assms(1) obtain p where p: "List.find (\<lambda>p. cur < asset_id (fs_balance (snd p))) (order_by settles_before (objs (force_settlements db))) = Some p"
    "a = asset_id (fs_balance (snd p))" by (auto simp: next_settlement_asset_def)
  then have "p \<in> set (objs (force_settlements db))" "cur < a" using find_SomeD [OF p(1)] by simp_all
  moreover from this have "idx_find (force_settlements db) (fst p) = Some (snd p)" using objs_find [OF assms(2)] by blast
  ultimately show "cur < a" "\<exists>k. settlement_map db k = Some a" using p(2) by (auto simp: settlement_map_def)
qed

lemma above_mono: "cur \<le> cur' \<Longrightarrow> settlements_above cur' db \<subseteq> settlements_above cur db"
  by (auto simp: settlements_above_def)

lemma above_less:
  assumes "cur < a" "a \<le> cur'" "settlement_map db k = Some a"
  shows "card (settlements_above cur' db) < card (settlements_above cur db)"
proof (rule psubset_card_mono [OF settlement_map_finite(2)])
  have "k \<in> settlements_above cur db" "k \<notin> settlements_above cur' db" using assms by (auto simp: settlements_above_def)
  then show "settlements_above cur' db \<subset> settlements_above cur db" using above_mono [of cur cur' db] assms(1,2) by auto
qed

lemma above_le: "cur \<le> cur' \<Longrightarrow> card (settlements_above cur' db) \<le> card (settlements_above cur db)"
  by (rule card_mono [OF settlement_map_finite(2) above_mono])

text \<open>An order that goes leaves fewer orders; one that stays is one that is moved past or that used up the volume.\<close>

lemma removal_decreases:
  assumes "settlement_map db' = (settlement_map db)(sid := None)" "settlement_map db sid = Some a" "cur \<le> cur'"
  shows "turns_left cur' mx' db' < turns_left cur mx db"
proof -
  have "dom (settlement_map db') = dom (settlement_map db) - {sid}" using assms(1) by auto
  then have "Suc (card (dom (settlement_map db'))) = card (dom (settlement_map db))"
    using card_Suc_Diff1 [OF settlement_map_finite(1), of sid db] assms(2) by (simp add: domI)
  moreover have "card (settlements_above cur' db') \<le> card (settlements_above cur db)"
  proof (rule card_mono [OF settlement_map_finite(2)])
    show "settlements_above cur' db' \<subseteq> settlements_above cur db" using assms(1,3) by (auto simp: settlements_above_def split: if_splits)
  qed
  ultimately show ?thesis by (simp add: turns_left_def)
qed

lemma settlement_map_above: "settlement_map db' = settlement_map db \<Longrightarrow> settlements_above cur db' = settlements_above cur db"
  by (simp add: settlements_above_def)

lemma move_on_decreases:
  assumes "move_on cur mx db = Inr (cur', mx', db')" "idx_ok (force_settlements db)" "cur0 \<le> cur"
  shows "db' = db" "turns_left cur' mx' db' < turns_left cur0 mx0 db"
proof -
  have n: "next_settlement_asset cur db = Some cur'" "db' = db" using assms(1) by (auto simp: move_on_def split: option.splits)
  obtain k where k: "cur < cur'" "settlement_map db k = Some cur'" using next_settlement_found [OF n(1) assms(2)] by blast
  show "db' = db" using n(2) .
  show "turns_left cur' mx' db' < turns_left cur0 mx0 db"
    using above_less [of cur0 cur' cur' db k] k assms(3) by (simp add: turns_left_def n(2))
qed

lemma settle_order_now_cases:
  assumes "settle_order_now m b cur mx p db = Inr db'" "idx_find (assets db) cur = Some m" "asset_id mx = cur"
  obtains db1 x where "settles_one (fst p) db db1" "modify_bitasset m (\<lambda>b. Inr (b\<lparr>force_settled_volume := x\<rparr>)) db1 = Inr db' \<or> db' = db1"
    "market_ok db \<Longrightarrow> market_conserves db db1" "settlement_map db' = settlement_map db1"
    "settlement_map db' (fst p) \<noteq> None \<Longrightarrow> volume_used cur mx db'"
proof -
  from assms(1) obtain pr r b' where r: "settle_against_calls cur pr mx (fst p) (mk_asset (force_settled_volume b) cur) db = Inr r"
    and b': "bitasset_data m (snd r) = Inr b'"
    and d: "(if force_settled_volume b' \<noteq> amount (fst r) then modify_bitasset m (\<lambda>b. Inr (b\<lparr>force_settled_volume := amount (fst r)\<rparr>)) (snd r)
      else Inr (snd r)) = Inr db'"
    unfolding settle_order_now_def bindE_eq_Inr by blast
  note e = settle_against_calls_effect [OF r]
  have m: "settlement_map db' = settlement_map (snd r)" using d by (auto simp: modify_bitasset_def settlement_map_def fun_eq_iff split: if_splits)
  have a: "assets db' = assets db" using d e(1) by (auto simp: modify_bitasset_def settles_one_def split: if_splits)
  have v: "\<exists>b. bitasset_data m db' = Inr b \<and> force_settled_volume b = amount (fst r)"
    using d b' by (auto simp: modify_bitasset_def bitasset_data_def idx_find_put split: if_splits)
  have "volume_used cur mx db'" if "settlement_map db' (fst p) \<noteq> None"
    using e(3) that v a assms(2,3) by (auto simp: m volume_used_def)
  moreover have "modify_bitasset m (\<lambda>b. Inr (b\<lparr>force_settled_volume := amount (fst r)\<rparr>)) (snd r) = Inr db' \<or> db' = snd r"
    using d by (auto split: if_splits)
  ultimately show ?thesis using that [OF e(1) _ e(4) m] by blast
qed

lemma settlement_volume_asset: "settlement_volume m b cur mx db = Inr mx' \<Longrightarrow> asset_id mx' = cur \<and> (asset_id mx = cur \<longrightarrow> mx' = mx)"
  by (auto simp: settlement_volume_def split: if_splits)

lemma settlement_turn_cases:
  assumes "settlement_turn cur0 mx0 db = Inr s"
  obtains "s = Inl db"
  | p cur where "settlement_at cur0 db = Some p" "cur = asset_id (fs_balance (snd p))" "\<exists>mx. s = move_on cur mx db"
  | p cur db' where "settlement_at cur0 db = Some p" "cur = asset_id (fs_balance (snd p))"
    "cancel_settle_order (fst p) True db = Inr db'" "s = Inr (cur, mx0, db')"
  | p cur m b mx db' where "settlement_at cur0 db = Some p" "cur = asset_id (fs_balance (snd p))" "idx_find (assets db) cur = Some m"
    "bitasset_data m db = Inr b" "settlement_volume m b cur mx0 db = Inr mx" "\<not> amount mx \<le> force_settled_volume b"
    "settle_order_now m b cur mx p db = Inr db'" "s = Inr (cur, mx, db')"
proof (cases "settlement_at cur0 db")
  case None
  then show ?thesis using that(1) assms by (simp add: settlement_turn_def)
next
  case (Some p)
  let ?cur = "asset_id (fs_balance (snd p))"
  from assms Some obtain m b where m: "idx_find (assets db) ?cur = Some m" and b: "bitasset_data m db = Inr b"
    and rest: "(if has_settlement b then bindE (cancel_settle_order (fst p) True db) (\<lambda>db. Inr (Inr (?cur, mx0, db)))
         else if head_block_time db < settlement_date (snd p) then Inr (move_on ?cur mx0 db)
         else if price_is_null (settlement_price (current_feed b))
         then bindE (cancel_settle_order (fst p) True db) (\<lambda>db. Inr (Inr (?cur, mx0, db)))
         else
         bindE (settlement_volume m b ?cur mx0 db) (\<lambda>mx.
         if amount mx \<le> force_settled_volume b then Inr (move_on ?cur mx db)
         else bindE (settle_order_now m b ?cur mx p db) (\<lambda>db. Inr (Inr (?cur, mx, db))))) = Inr s"
    unfolding settlement_turn_def Let_def by (auto simp only: option.case bindE_eq_Inr get_asset_eq_Inr)
  show ?thesis
  proof (cases "has_settlement b \<or> head_block_time db < settlement_date (snd p) \<or> price_is_null (settlement_price (current_feed b))")
    case True
    then show ?thesis using rest that(2) [OF Some refl] that(3) [OF Some refl] by (auto split: if_splits)
  next
    case False
    then obtain mx where mx: "settlement_volume m b ?cur mx0 db = Inr mx" and r: "(if amount mx \<le> force_settled_volume b then Inr (move_on ?cur mx db)
         else bindE (settle_order_now m b ?cur mx p db) (\<lambda>db. Inr (Inr (?cur, mx, db)))) = (Inr s :: _ exn)"
      using rest by auto
    show ?thesis
    proof (cases "amount mx \<le> force_settled_volume b")
      case True
      then have "s = move_on ?cur mx db" using r by simp
      then show ?thesis using that(2) [OF Some refl] by blast
    next
      case not_used: False
      then show ?thesis using r that(4) [OF Some refl m b mx not_used] by auto
    qed
  qed
qed

lemma turn_decreases:
  assumes "settlement_turn cur0 mx0 db = Inr (Inr (cur, mx, db'))" "idx_ok (force_settlements db)"
  shows "idx_ok (force_settlements db') \<and> turns_left cur mx db' < turns_left cur0 mx0 db"
  using assms(1)
proof (cases rule: settlement_turn_cases)
  case 1
  then show ?thesis by simp
next
  case (2 p cur')
  then obtain mx' where m: "move_on cur' mx' db = Inr (cur, mx, db')" by auto
  have "cur0 \<le> cur'" using settlement_at_found(2) [OF 2(1) assms(2)] 2(2) by simp
  from move_on_decreases [OF m assms(2) this] show ?thesis using assms(2) by simp
next
  case (3 p cur' db'')
  note f = settlement_at_found [OF 3(1) assms(2)]
  have s: "settles_one (fst p) db db'" "settlement_map db' (fst p) = None" using cancel_settles_one [OF 3(3)] 3(4) by simp_all
  then have "settlement_map db' = (settlement_map db)(fst p := None)" by (auto simp: settles_one_def)
  then show ?thesis using removal_decreases [OF _ f(1), where db' = db' and cur = cur0 and cur' = cur and mx = mx0 and mx' = mx] f(2) 3(2,4) s(1) assms(2) by (simp add: settles_one_def)
next
  case (4 p cur' m b mx' db'')
  note f = settlement_at_found [OF 4(1) assms(2)]
  have e: "cur = cur'" "mx = mx'" "db' = db''" using 4(8) by simp_all
  note v = settlement_volume_asset [OF 4(5)]
  obtain db1 x where o: "settles_one (fst p) db db1" "modify_bitasset m (\<lambda>b. Inr (b\<lparr>force_settled_volume := x\<rparr>)) db1 = Inr db'' \<or> db'' = db1"
    "settlement_map db'' = settlement_map db1" "settlement_map db'' (fst p) \<noteq> None \<Longrightarrow> volume_used cur' mx' db''"
    using settle_order_now_cases [OF 4(7,3)] v by metis
  have ok: "idx_ok (force_settlements db'')" using o(1,2) assms(2) by (auto simp: settles_one_def modify_bitasset_def)
  have "turns_left cur' mx' db'' < turns_left cur0 mx0 db"
  proof (cases "settlement_map db'' (fst p) = None")
    case True
    then have "settlement_map db'' = (settlement_map db)(fst p := None)" using o(1,3) by (auto simp: settles_one_def)
    then show ?thesis using removal_decreases [OF _ f(1), where db' = db'' and cur = cur0 and cur' = cur' and mx = mx0 and mx' = mx'] f(2) 4(2) by simp
  next
    case False
    then have mp: "settlement_map db'' = settlement_map db" and used: "volume_used cur' mx' db''" using o by (auto simp: settles_one_def)
    have "cur0 < cur' \<or> cur0 = cur' \<and> \<not> volume_used cur0 mx0 db" using f(2) 4(2,3,4,6) v by (auto simp: volume_used_def)
    then show ?thesis
      using used above_less [of cur0 cur' cur' db "fst p"] f(1) 4(2) by (auto simp: turns_left_def mp settlement_map_above [OF mp])
  qed
  then show ?thesis using ok e by simp
qed

text \<open>The loop, with fuel; \<open>None\<close> is running out of it.\<close>

fun settlement_loop :: "nat \<Rightarrow> asset_id_type \<Rightarrow> asset \<Rightarrow> database \<Rightarrow> database exn option" where
  "settlement_loop 0 cur mx db = None"
| "settlement_loop (Suc n) cur mx db =
    (case settlement_turn cur mx db of
       Inl e \<Rightarrow> Some (Inl e)
     | Inr (Inl db) \<Rightarrow> Some (Inr db)
     | Inr (Inr (cur, mx, db)) \<Rightarrow> settlement_loop n cur mx db)"

definition settle_due_orders :: "database \<Rightarrow> database exn option" where
  "settle_due_orders db =
    (case order_by settles_before (objs (force_settlements db)) of
       [] \<Rightarrow> Some (Inr db)
     | p # _ \<Rightarrow> settlement_loop (4 * length (objs (force_settlements db)) + 2) (asset_id (fs_balance (snd p))) (mk_asset 0 0) db)"

definition clear_expired_orders :: "asset \<Rightarrow> database \<Rightarrow> database exn option" where
  "clear_expired_orders scheduled db =
    (case cancel_expired_limits scheduled db of Inl e \<Rightarrow> Some (Inl e) | Inr db \<Rightarrow> settle_due_orders db)"

lemma settlement_loop_ends:
  "idx_ok (force_settlements db) \<Longrightarrow> turns_left cur mx db < n \<Longrightarrow> \<exists>r. settlement_loop n cur mx db = Some r"
proof (induction n arbitrary: cur mx db)
  case (Suc n)
  show ?case
  proof (cases "\<exists>c m d. settlement_turn cur mx db = Inr (Inr (c, m, d))")
    case True
    then obtain c m d where t: "settlement_turn cur mx db = Inr (Inr (c, m, d))" by blast
    show ?thesis using turn_decreases [OF t Suc.prems(1)] Suc.IH [of d c m] Suc.prems(2) by (simp add: t)
  next
    case False
    then show ?thesis by (auto split: sum.splits)
  qed
qed simp

lemma turns_enough: "turns_left cur mx db < 4 * length (objs (force_settlements db)) + 2"
proof -
  have "dom (settlement_map db) \<subseteq> fst ` set (objs (force_settlements db))"
    by (auto simp: settlement_map_def dest!: idx_find_in) force
  then have "card (dom (settlement_map db)) \<le> card (fst ` set (objs (force_settlements db)))" by (rule card_mono [rotated]) simp
  moreover have "card (fst ` set (objs (force_settlements db))) \<le> length (objs (force_settlements db))"
    using card_image_le [OF List.finite_set] card_length le_trans by blast
  moreover have "card (settlements_above cur db) \<le> card (dom (settlement_map db))"
    by (rule card_mono [OF settlement_map_finite(1)]) (auto simp: settlements_above_def)
  ultimately show ?thesis by (simp add: turns_left_def)
qed

lemma settle_due_orders_ends: "idx_ok (force_settlements db) \<Longrightarrow> \<exists>r. settle_due_orders db = Some r"
  using settlement_loop_ends [OF _ turns_enough] by (simp add: settle_due_orders_def del: settlement_loop.simps split: list.split)

section \<open>Expired feeds and permissions\<close>

definition feed_expiration_time :: "asset_bitasset_data_object \<Rightarrow> time_point_sec" where
  "feed_expiration_time b = (current_feed_publication_time b + feed_lifetime_sec (ba_options b)) mod 2 ^ 32"

definition feed_is_expired_before_hardfork_615 :: "asset_bitasset_data_object \<Rightarrow> time_point_sec \<Rightarrow> bool" where
  "feed_is_expired_before_hardfork_615 b now \<longleftrightarrow> now \<le> feed_expiration_time b"

definition feed_is_expired :: "asset_bitasset_data_object \<Rightarrow> time_point_sec \<Rightarrow> bool" where
  "feed_is_expired b now \<longleftrightarrow> feed_expiration_time b \<le> now"

definition expire_feed :: "nat \<Rightarrow> database \<Rightarrow> database exn" where
  "expire_feed i db =
    bindE (get_asset db i) (\<lambda>a.
    bindE (bitasset_data a db) (\<lambda>b.
    let now = head_block_time db;
        expired = (if now < HARDFORK_615_TIME then feed_is_expired_before_hardfork_615 b now else feed_is_expired b now)
    in
    if expired
    then bindE (modify_bitasset a (update_median_feeds now) db) (\<lambda>db.
         bindE (bitasset_data a db) (\<lambda>b.
         bindE (check_call_orders (asset_id (base (settlement_price (current_feed b)))) True False db) (\<lambda>r. Inr (snd r))))
    else Inr db))"

definition follow_exchange_rate :: "nat \<Rightarrow> database \<Rightarrow> database exn" where
  "follow_exchange_rate i db =
    bindE (get_asset db i) (\<lambda>a.
    bindE (bitasset_data a db) (\<lambda>b.
    let rate = core_exchange_rate (current_feed b) in
    if \<not> price_is_null rate \<and> price_ne (ao_core_exchange_rate (a_options a)) rate
    then Inr (db\<lparr>assets := idx_put (assets db) i (a\<lparr>a_options := (a_options a)\<lparr>ao_core_exchange_rate := rate\<rparr>\<rparr>)\<rparr>)
    else Inr db))"

definition update_expired_feeds :: "database \<Rightarrow> database exn" where
  "update_expired_feeds db =
    foldE (\<lambda>i db. bindE (expire_feed i db) (follow_exchange_rate i))
      (map fst (order_by (\<lambda>p q. fst p < fst q) (filter (\<lambda>p. is_market_issued (snd p)) (objs (assets db))))) db"

definition permit_expires_before :: "nat \<times> withdraw_permission_object \<Rightarrow> nat \<times> withdraw_permission_object \<Rightarrow> bool" where
  "permit_expires_before p q \<longleftrightarrow> wp_expiration (snd p) < wp_expiration (snd q) \<or> wp_expiration (snd p) = wp_expiration (snd q) \<and> fst p < fst q"

definition update_withdraw_permissions :: "database \<Rightarrow> database" where
  "update_withdraw_permissions db = db\<lparr>withdraw_permissions := foldl idx_remove (withdraw_permissions db)
     (map fst (takeWhile (\<lambda>p. wp_expiration (snd p) \<le> head_block_time db)
        (order_by permit_expires_before (objs (withdraw_permissions db)))))\<rparr>"

section \<open>Bids on settled assets\<close>

text \<open>The bids, best first, until they cover the supply or one would be called at once.\<close>

fun covering_bids :: "asset_bitasset_data_object \<Rightarrow> share_type \<Rightarrow> nat list \<Rightarrow> share_type \<Rightarrow> database \<Rightarrow> (nat list \<times> share_type) exn" where
  "covering_bids bad supply_now [] covered db = Inr ([], covered)"
| "covering_bids bad supply_now (i # ids) covered db =
    (if \<not> covered < supply_now then Inr ([], covered)
     else
     bindE (idx_get ''collateral_bid'' (collateral_bids db) i) (\<lambda>b.
     bindE (asset_times_price (quote (inv_swan_price b)) (ba_settlement_price bad)) (\<lambda>t.
     bindE (asset_add t (base (inv_swan_price b))) (\<lambda>total_collateral.
     bindE (call_price (quote (inv_swan_price b)) total_collateral (maintenance_collateral_ratio (current_feed bad))) (\<lambda>cp.
     if price_ge (price_inv cp) (settlement_price (current_feed bad)) then Inr ([], covered)
     else
     bindE (safe_add covered (amount (quote (inv_swan_price b)))) (\<lambda>covered.
     bindE (covering_bids bad supply_now ids covered db) (\<lambda>r. Inr (i # fst r, snd r))))))))"

definition execute_covering :: "asset_bitasset_data_object \<Rightarrow> nat \<Rightarrow> share_type \<times> share_type \<times> database \<Rightarrow> (share_type \<times> share_type \<times> database) exn" where
  "execute_covering bad i st =
    bindE (idx_get ''collateral_bid'' (collateral_bids (snd (snd st))) i) (\<lambda>b.
    bindE (asset_times_price (quote (inv_swan_price b)) (ba_settlement_price bad)) (\<lambda>t.
    let whole = (fst st \<le> amount (quote (inv_swan_price b)));
        covers = (if whole then fst st else amount (quote (inv_swan_price b)));
        col = (if whole then fst (snd st) else amount t)
    in
    bindE (safe_sub (fst st) covers) (\<lambda>to_cover.
    bindE (safe_sub (fst (snd st)) col) (\<lambda>remaining.
    bindE (execute_bid i covers col (current_feed bad) (snd (snd st))) (\<lambda>db.
    Inr (to_cover, remaining, db))))))"

definition revive_data :: "asset_id_type \<Rightarrow> nat \<Rightarrow> database \<Rightarrow> database exn" where
  "revive_data mia k db =
    bindE (get_asset db mia) (\<lambda>m.
    bindE (fc_assert (is_market_issued m) ''bitasset.is_market_issued()'') (\<lambda>_.
    bindE (idx_get ''asset_bitasset_data'' (asset_bitasset_data db) k) (\<lambda>bad.
    bindE (fc_assert (has_settlement bad) ''bad.has_settlement()'') (\<lambda>_.
    bindE (fc_assert (\<not> is_prediction_market bad) ''!bad.is_prediction_market'') (\<lambda>_.
    bindE (price_max (short_backing_asset (ba_options bad)) mia) (\<lambda>hi.
    bindE (foldE (\<lambda>b. cancel_bid b True) (bids_for mia hi db) db) (\<lambda>db.
    bindE (idx_modify ''asset_bitasset_data'' (asset_bitasset_data db) k
        (\<lambda>obj. Inr (obj\<lparr>ba_settlement_price := null_price, settlement_fund := 0\<rparr>))) (\<lambda>t.
    Inr (db\<lparr>asset_bitasset_data := t\<rparr>)))))))))"

definition process_bids :: "nat \<Rightarrow> database \<Rightarrow> database exn" where
  "process_bids k db =
    bindE (idx_get ''asset_bitasset_data'' (asset_bitasset_data db) k) (\<lambda>bad.
    if is_prediction_market bad \<or> price_is_null (settlement_price (current_feed bad)) \<or> head_block_time db \<le> HARDFORK_CORE_216_TIME
    then Inr db
    else
    bindE (asset_times_price (mk_asset 0 (short_backing_asset (ba_options bad))) (ba_settlement_price bad)) (\<lambda>z.
    bindE (get_asset db (asset_id z)) (\<lambda>to_revive.
    bindE (idx_get ''asset_dynamic_data'' (asset_dynamic_data db) (dynamic_asset_data_id to_revive)) (\<lambda>bdd.
    bindE (price_max (short_backing_asset (ba_options bad)) (asset_id z)) (\<lambda>hi.
    bindE (covering_bids bad (current_supply bdd) (bids_for (asset_id z) hi db) 0 db) (\<lambda>c.
    if snd c < current_supply bdd then Inr db
    else
    bindE (foldE (execute_covering bad) (fst c) (current_supply bdd, settlement_fund bad, db)) (\<lambda>st.
    bindE (fc_assert (fst (snd st) = 0) ''remaining_fund == 0'') (\<lambda>_.
    bindE (fc_assert (fst st = 0) ''to_cover == 0'') (\<lambda>_.
    revive_data (asset_id z) k (snd (snd st)))))))))))"

text \<open>The loop of the maintenance over the data of all market issued assets.\<close>

definition reset_settled_volume :: "nat \<Rightarrow> database \<Rightarrow> database exn" where
  "reset_settled_volume k db =
    bindE (idx_modify ''asset_bitasset_data'' (asset_bitasset_data db) k (\<lambda>o1. Inr (o1\<lparr>force_settled_volume := 0\<rparr>))) (\<lambda>t.
    let db = db\<lparr>asset_bitasset_data := t\<rparr> in
    bindE (idx_get ''asset_bitasset_data'' (asset_bitasset_data db) k) (\<lambda>d.
    if has_settlement d then process_bids k db else Inr db))"

definition reset_settled_volumes :: "database \<Rightarrow> database exn" where
  "reset_settled_volumes db = foldE reset_settled_volume (map fst (objs (asset_bitasset_data db))) db"

section \<open>Keeping the books\<close>

lemma keeps_books_ok: "keeps_books db db' \<Longrightarrow> market_ok db'"
  by (simp add: keeps_books_def)

lemma keeps_books_fold:
  assumes "foldE f xs db = Inr db'" "market_ok db" "\<And>x d d'. x \<in> set xs \<Longrightarrow> market_ok d \<Longrightarrow> f x d = Inr d' \<Longrightarrow> keeps_books d d'"
  shows "keeps_books db db'"
  using assms(1) keeps_books_refl [OF assms(2)]
  by (rule foldE_invariant) (use assms(3) keeps_books_trans keeps_books_ok in blast)

lemma cancel_expired_keeps:
  assumes "cancel_expired_order x oid db = Inr db'" "market_ok db"
  shows "keeps_books db db'"
proof (cases "idx_find (limit_orders db) oid")
  case None
  then show ?thesis using assms by (simp add: cancel_expired_order_def keeps_books_refl)
next
  case (Some ord)
  then obtain op r where "limit_order_cancel False True 0 op db = Inr r" "db' = snd r" using assms(1) by (auto simp: cancel_expired_order_def Let_def)
  then show ?thesis using limit_order_cancellation.operation_conserves [OF _ assms(2), of True 0] by (simp add: limit_order_cancel_def keeps_books_def)
qed

lemma cancel_expired_limits_keeps: "cancel_expired_limits x db = Inr db' \<Longrightarrow> market_ok db \<Longrightarrow> keeps_books db db'"
  unfolding cancel_expired_limits_def by (erule keeps_books_fold) (simp_all add: cancel_expired_keeps)

lemma cancel_settle_keeps: "cancel_settle_order k v db = Inr db' \<Longrightarrow> market_ok db \<Longrightarrow> keeps_books db db'"
  using moves_keeps [OF cancel_settle_order_moves] by blast

lemma settle_order_now_keeps:
  assumes "settle_order_now m b cur mx p db = Inr db'" "idx_find (assets db) cur = Some m" "asset_id mx = cur" "market_ok db"
  shows "keeps_books db db'"
proof -
  obtain db1 x where d: "modify_bitasset m (\<lambda>b. Inr (b\<lparr>force_settled_volume := x\<rparr>)) db1 = Inr db' \<or> db' = db1" and c: "market_conserves db db1"
    using settle_order_now_cases [OF assms(1-3)] assms(4) by metis
  have "keeps_books db1 db'" if "modify_bitasset m (\<lambda>b. Inr (b\<lparr>force_settled_volume := x\<rparr>)) db1 = Inr db'"
    using that market_conserves_ok [OF c] by (rule modify_bitasset_keeps) auto
  then show ?thesis using d keeps_booksI [OF c] keeps_books_trans by blast
qed

lemma settlement_turn_keeps:
  assumes "settlement_turn cur0 mx0 db = Inr s" "market_ok db"
  shows "keeps_books db (case s of Inl d \<Rightarrow> d | Inr (c, m, d) \<Rightarrow> d)"
  using assms(1)
proof (cases rule: settlement_turn_cases)
  case 1
  then show ?thesis using keeps_books_refl [OF assms(2)] by simp
next
  case (2 p cur)
  then show ?thesis using keeps_books_refl [OF assms(2)] by (auto simp: move_on_def split: option.splits)
next
  case (3 p cur db')
  then show ?thesis using cancel_settle_keeps [OF 3(3) assms(2)] by simp
next
  case (4 p cur m b mx db')
  then show ?thesis using settle_order_now_keeps [OF 4(7,3) _ assms(2)] settlement_volume_asset [OF 4(5)] by simp
qed

lemma settlement_loop_keeps: "settlement_loop n cur mx db = Some (Inr db') \<Longrightarrow> market_ok db \<Longrightarrow> keeps_books db db'"
proof (induction n arbitrary: cur mx db)
  case (Suc n)
  show ?case
  proof (cases "settlement_turn cur mx db")
    case (Inr s)
    note k = settlement_turn_keeps [OF Inr Suc.prems(2)]
    show ?thesis
    proof (cases s)
      case (Inl d)
      then show ?thesis using Suc.prems(1) k Inr by simp
    next
      case (Inr st)
      obtain c m d where st: "st = (c, m, d)" by (cases st)
      have "settlement_loop n c m d = Some (Inr db')" using Suc.prems(1) Inr st \<open>settlement_turn cur mx db = Inr s\<close> by simp
      then show ?thesis using Suc.IH [of c m d] k keeps_books_trans keeps_books_ok Inr st by fastforce
    qed
  qed (use Suc.prems in simp)
qed simp

lemma clear_expired_orders_keeps:
  assumes "clear_expired_orders x db = Some (Inr db')" "market_ok db"
  shows "keeps_books db db'"
proof -
  obtain db1 where l: "cancel_expired_limits x db = Inr db1" and s: "settle_due_orders db1 = Some (Inr db')"
    using assms(1) by (auto simp: clear_expired_orders_def split: sum.splits)
  note k = cancel_expired_limits_keeps [OF l assms(2)]
  have "keeps_books db1 db'" using s settlement_loop_keeps keeps_books_refl keeps_books_ok [OF k]
    by (auto simp: settle_due_orders_def simp del: settlement_loop.simps split: list.splits)
  then show ?thesis using keeps_books_trans [OF k] by blast
qed

lemma clear_expired_orders_returns:
  assumes "market_ok db"
  shows "\<exists>r. clear_expired_orders x db = Some r"
proof (cases "cancel_expired_limits x db")
  case (Inr db1)
  have "idx_ok (force_settlements db1)"
    using db_okD(12) [OF market_okD(1) [OF keeps_books_ok [OF cancel_expired_limits_keeps [OF Inr assms]]]] .
  then show ?thesis using settle_due_orders_ends Inr by (simp add: clear_expired_orders_def)
qed (simp add: clear_expired_orders_def)

lemma expire_feed_keeps:
  assumes "expire_feed i db = Inr db'" "market_ok db"
  shows "keeps_books db db'"
proof -
  consider "db' = db" | a db1 j r where "modify_bitasset a (update_median_feeds (head_block_time db)) db = Inr db1"
      "check_call_orders j True False db1 = Inr r" "db' = snd r"
    using assms(1) unfolding expire_feed_def Let_def by (auto split: if_splits)
  then show ?thesis
  proof cases
    case 2
    have "keeps_books db db1" using 2(1) assms(2) by (rule modify_bitasset_keeps) (auto dest: update_median_frame)
    then show ?thesis using keeps_books_trans [OF _ check_calls_keeps [OF 2(2)]] 2(3) keeps_books_ok by blast
  qed (use keeps_books_refl [OF assms(2)] in simp)
qed

lemma follow_exchange_rate_keeps:
  assumes "follow_exchange_rate i db = Inr db'" "market_ok db"
  shows "keeps_books db db'"
proof -
  consider "db' = db" | a rate where "idx_find (assets db) i = Some a"
      "db' = db\<lparr>assets := idx_put (assets db) i (a\<lparr>a_options := (a_options a)\<lparr>ao_core_exchange_rate := rate\<rparr>\<rparr>)\<rparr>"
    using assms(1) by (auto simp: follow_exchange_rate_def Let_def split: if_splits)
  then show ?thesis
  proof cases
    case 2
    have "market_fee_percent (a_options a) \<le> 10000 \<and> 0 \<le> max_market_fee (a_options a)"
      using market_okD(2) [OF assms(2)] idx_find_in [OF 2(1)] by (auto simp: fee_options_ok_def)
    then show ?thesis unfolding 2(2) by (intro assets_put_keeps [OF assms(2) 2(1)]) simp_all
  qed (use keeps_books_refl [OF assms(2)] in simp)
qed

lemma update_expired_feeds_keeps:
  assumes "update_expired_feeds db = Inr db'" "market_ok db"
  shows "keeps_books db db'"
  using assms(1) [unfolded update_expired_feeds_def] assms(2)
proof (rule keeps_books_fold)
  fix i d d'
  assume d: "market_ok d" "bindE (expire_feed i d) (follow_exchange_rate i) = Inr d'"
  then obtain d1 where e: "expire_feed i d = Inr d1" "follow_exchange_rate i d1 = Inr d'" by auto
  have "keeps_books d d1" by (rule expire_feed_keeps [OF e(1) d(1)])
  then show "keeps_books d d'" using keeps_books_trans follow_exchange_rate_keeps [OF e(2)] keeps_books_ok by blast
qed

lemma idx_ok_removes: "idx_ok t \<Longrightarrow> idx_ok (foldl idx_remove t ks)"
  by (induction ks arbitrary: t) simp_all

lemma update_withdraw_permissions_keeps:
  assumes "market_ok db"
  shows "keeps_books db (update_withdraw_permissions db)"
proof -
  have "idx_ok (withdraw_permissions db)" using market_okD(1) [OF assms] by (simp add: db_ok_def indices_ok_def)
  then show ?thesis
    using assms db_ok_update(14) [OF market_okD(1) [OF assms] idx_ok_removes]
    by (simp add: keeps_books_def update_withdraw_permissions_def market_ok_def books_def)
qed

text \<open>Bids are made in the backing asset, and the settlement price of the data of an asset is between the asset and its backing.\<close>

definition bids_backed :: "database \<Rightarrow> bool" where
  "bids_backed db \<longleftrightarrow> (\<forall>p \<in> set (objs (collateral_bids db)). backed (assets db) (asset_bitasset_data db) (inv_swan_price (snd p)))"

definition settlements_linked :: "database \<Rightarrow> bool" where
  "settlements_linked db \<longleftrightarrow> (\<forall>k b. idx_find (asset_bitasset_data db) k = Some b \<longrightarrow> has_settlement b \<longrightarrow>
     asset_id (quote (ba_settlement_price b)) = short_backing_asset (ba_options b)
     \<and> (\<forall>m. idx_find (assets db) (asset_id (base (ba_settlement_price b))) = Some m \<longrightarrow> bitasset_data_id m = Some k))"

definition bids_ok :: "database \<Rightarrow> bool" where
  "bids_ok db \<longleftrightarrow> market_ok db \<and> bids_backed db \<and> settlements_linked db"

lemma bids_backedD: "bids_backed db \<Longrightarrow> idx_find (collateral_bids db) i = Some b \<Longrightarrow> backed (assets db) (asset_bitasset_data db) (inv_swan_price b)"
  by (auto simp: bids_backed_def dest!: idx_find_in)

text \<open>Executing and canceling bids only removes bids.\<close>

definition fewer_bids :: "database \<Rightarrow> database \<Rightarrow> bool" where
  "fewer_bids db db' \<longleftrightarrow> set (objs (collateral_bids db')) \<subseteq> set (objs (collateral_bids db))"

lemma fewer_bids_trans: "fewer_bids a b \<Longrightarrow> fewer_bids b c \<Longrightarrow> fewer_bids a c"
  by (auto simp: fewer_bids_def)

lemma stats_bids: "modify_stats a f db = Inr db' \<Longrightarrow> collateral_bids db' = collateral_bids db"
  by (auto simp: modify_stats_def)

lemma adjust_bids: "adjust_balance a x db = Inr db' \<Longrightarrow> collateral_bids db' = collateral_bids db"
  by (auto simp: adjust_balance_def Let_def split: if_splits option.splits)

lemma removed_fewer: "collateral_bids db' = idx_remove (collateral_bids db) i \<Longrightarrow> fewer_bids db db'"
  by (auto simp: fewer_bids_def dest: objs_remove_in)

lemma cancel_bid_fewer: "cancel_bid i True db = Inr db' \<Longrightarrow> fewer_bids db db'"
  by (rule removed_fewer) (auto simp: cancel_bid_def Let_def push_applied_operation_def dest: adjust_bids)

lemma execute_bid_fewer:
  assumes "execute_bid i c f pf db = Inr db'"
  shows "fewer_bids db db'"
proof (rule removed_fewer)
  have "ensures (execute_bid i c f pf db) (\<lambda>db'. collateral_bids db' = idx_remove (collateral_bids db) i)"
    unfolding execute_bid_def Let_def
    by (intro ensures_intros) (auto simp: push_applied_operation_def dest: stats_bids split: if_splits)
  then show "collateral_bids db' = idx_remove (collateral_bids db) i" using assms by (rule ensuresD)
qed

lemma bids_backed_fewer:
  "fewer_bids db db' \<Longrightarrow> assets db' = assets db \<Longrightarrow> asset_bitasset_data db' = asset_bitasset_data db \<Longrightarrow> bids_backed db \<Longrightarrow> bids_backed db'"
  by (auto simp: fewer_bids_def bids_backed_def)

lemma bids_for_asset: "i \<in> set (bids_for mia hi db) \<Longrightarrow> \<exists>b. (i, b) \<in> set (objs (collateral_bids db)) \<and> asset_id (quote (inv_swan_price b)) = mia"
  by (auto simp: bids_for_def dest!: set_takeWhileD)

lemma covering_bids_subset: "covering_bids bad sn ids c db = Inr r \<Longrightarrow> set (fst r) \<subseteq> set ids"
  by (induction ids arbitrary: c r) (auto split: if_splits, blast)

text \<open>While the bids are executed, the collateral assigned so far is what left the fund.\<close>

definition assigning :: "asset_bitasset_data_object \<Rightarrow> database \<Rightarrow> share_type \<times> share_type \<times> database \<Rightarrow> bool" where
  "assigning bad db st \<longleftrightarrow> fewer_bids db (snd (snd st))
    \<and> moves db (\<lambda>i. if i = short_backing_asset (ba_options bad) then settlement_fund bad - fst (snd st) else 0) (\<lambda>_. 0) (snd (snd st))"

lemma execute_covering_assigning:
  assumes "execute_covering bad i st = Inr st'" "assigning bad db st" "bids_ok db"
    and mia: "idx_find (assets db) mia = Some m" "bitasset_data_id m = Some k" "idx_find (asset_bitasset_data db) k = Some bad"
    and i: "i \<in> set (bids_for mia hi db)"
  shows "assigning bad db st'"
proof -
  let ?db = "snd (snd st)"
  from assms(1) obtain b c col db' where b: "idx_find (collateral_bids ?db) i = Some b" and e: "execute_bid i c col (current_feed bad) ?db = Inr db'"
    and st': "snd (snd st') = db'" "fst (snd st') = fst (snd st) - col"
    by (auto simp: execute_covering_def Let_def)
  have a: "fewer_bids db ?db" "moves db (\<lambda>i. if i = short_backing_asset (ba_options bad) then settlement_fund bad - fst (snd st) else 0) (\<lambda>_. 0) ?db"
    using assms(2) by (simp_all add: assigning_def)
  have ok: "idx_ok (collateral_bids db)" using assms(3) db_okD(13) market_okD(1) by (simp add: bids_ok_def)
  obtain b0 where b0: "(i, b0) \<in> set (objs (collateral_bids db))" "asset_id (quote (inv_swan_price b0)) = mia" using bids_for_asset [OF i] by blast
  moreover have "(i, b) \<in> set (objs (collateral_bids db))" using idx_find_in [OF b] a(1) by (auto simp: fewer_bids_def)
  ultimately have q: "asset_id (quote (inv_swan_price b)) = mia" using in_idx_find [OF ok] by (metis option.inject)
  have bk: "backed (assets ?db) (asset_bitasset_data ?db) (inv_swan_price b)"
    using bids_backedD [OF bids_backed_fewer [OF a(1) movesD(2,3) [OF a(2)]] b] assms(3) by (simp add: bids_ok_def)
  then have bs: "asset_id (base (inv_swan_price b)) = short_backing_asset (ba_options bad)"
    using mia q movesD(2,3) [OF a(2)] by (simp add: backed_def)
  note m = execute_bid_moves [OF e movesD(1) [OF a(2)] b bk]
  show ?thesis unfolding assigning_def st'
    using fewer_bids_trans [OF a(1) execute_bid_fewer [OF e]] moves_eq [OF moves_trans [OF a(2) m]] by (simp add: bs)
qed

lemma bids_ok_data_put:
  assumes "bids_ok db" "idx_find (asset_bitasset_data db) k = Some b" "ba_options b' = ba_options b"
    and "ba_settlement_price b' = ba_settlement_price b \<or> \<not> has_settlement b'" "market_ok db'" "fewer_bids db db'" "assets db' = assets db"
    and "asset_bitasset_data db' = idx_put (asset_bitasset_data db) k b'"
  shows "bids_ok db'"
proof -
  have "backed (assets db') (asset_bitasset_data db') p = backed (assets db) (asset_bitasset_data db) p" for p
    using backed_put [OF assms(2,3)] assms(7,8) by simp
  then have "bids_backed db'" using assms(1,6) by (auto simp: bids_ok_def bids_backed_def fewer_bids_def)
  moreover have "settlements_linked db'"
    using assms(1-4,7,8) by (auto simp: bids_ok_def settlements_linked_def idx_find_put has_settlement_def)
  ultimately show ?thesis using assms(5) by (simp add: bids_ok_def)
qed

lemma revive_data_effect:
  assumes "revive_data mia k db = Inr db'" "market_ok db" "idx_find (assets db) mia = Some m" "bitasset_data_id m = Some k"
    and bad: "idx_find (asset_bitasset_data db) k = Some bad"
  shows "market_ok db'" "assets db' = assets db" "held i db' = held i db - fund_amount i bad" "supply_of i db' = supply_of i db" "fewer_bids db db'"
    "asset_bitasset_data db' = idx_put (asset_bitasset_data db) k (bad\<lparr>ba_settlement_price := null_price, settlement_fund := 0\<rparr>)"
proof -
  have c: "cancel_bids_and_revive_mpa mia db = Inr db'"
    using assms(1,3,4) bad by (auto simp: revive_data_def cancel_bids_and_revive_mpa_def modify_bitasset_def bitasset_data_def)
  have "bitasset_data m db = Inr bad" using assms(4) bad by (simp add: bitasset_data_def)
  note e = clear_settlement_effect [OF c assms(2,3) this]
  show "market_ok db'" "assets db' = assets db" "held i db' = held i db - fund_amount i bad" "supply_of i db' = supply_of i db" using e by blast+
  from assms(1,3) bad obtain hi db1 where f: "foldE (\<lambda>b. cancel_bid b True) (bids_for mia hi db) db = Inr db1"
    and u: "idx_modify ''asset_bitasset_data'' (asset_bitasset_data db1) k (\<lambda>obj. Inr (obj\<lparr>ba_settlement_price := null_price, settlement_fund := 0\<rparr>))
      = Inr (asset_bitasset_data db')" "collateral_bids db' = collateral_bids db1"
    by (auto simp: revive_data_def)
  have "fewer_bids db db1"
    by (rule foldE_invariant [OF f]) (use fewer_bids_trans cancel_bid_fewer in \<open>simp add: fewer_bids_def\<close>, use fewer_bids_trans cancel_bid_fewer in blast)
  then show "fewer_bids db db'" using u(2) by (simp add: fewer_bids_def)
  show "asset_bitasset_data db' = idx_put (asset_bitasset_data db) k (bad\<lparr>ba_settlement_price := null_price, settlement_fund := 0\<rparr>)"
    using u(1) movesD(3) [OF cancel_bids_moves [OF f assms(2)]] bad by auto
qed

lemma process_bids_keeps:
  assumes "process_bids k db = Inr db'" "bids_ok db" "idx_find (asset_bitasset_data db) k = Some bad" "has_settlement bad"
  shows "keeps_books db db' \<and> bids_ok db'"
proof -
  have ok: "market_ok db" using assms(2) by (simp add: bids_ok_def)
  consider "db' = db" | z m sn hi c st where "asset_times_price (mk_asset 0 (short_backing_asset (ba_options bad))) (ba_settlement_price bad) = Inr z"
    "idx_find (assets db) (asset_id z) = Some m" "covering_bids bad sn (bids_for (asset_id z) hi db) 0 db = Inr c"
    "foldE (execute_covering bad) (fst c) (sn, settlement_fund bad, db) = Inr st" "fst (snd st) = 0" "revive_data (asset_id z) k (snd (snd st)) = Inr db'"
    using assms(1,3) unfolding process_bids_def bindE_eq_Inr idx_get_eq_Inr get_asset_eq_Inr by (elim exE conjE) (auto split: if_splits)
  then show ?thesis
  proof cases
    case 1
    then show ?thesis using keeps_books_refl [OF ok] assms(2) by simp
  next
    case (2 z m sn hi c st)
    have "asset_id (quote (ba_settlement_price bad)) = short_backing_asset (ba_options bad)" and
      lk: "\<And>m. idx_find (assets db) (asset_id (base (ba_settlement_price bad))) = Some m \<Longrightarrow> bitasset_data_id m = Some k"
      using assms(2-4) by (auto simp: bids_ok_def settlements_linked_def)
    then have "asset_id z = asset_id (base (ba_settlement_price bad))"
      using 2(1) by (auto simp: asset_times_price_def Let_def split: if_splits)
    then have mk: "bitasset_data_id m = Some k" using lk 2(2) by simp
    have a: "assigning bad db st"
    proof (rule foldE_invariant [OF 2(4)])
      show "assigning bad db (sn, settlement_fund bad, db)" 
        using moves_eq [OF moves_refl [OF ok]] by (simp add: assigning_def fewer_bids_def)
      show "assigning bad db t" if "x \<in> set (fst c)" "assigning bad db s" "execute_covering bad x s = Inr t" for x s t
        using execute_covering_assigning [OF that(3,2) assms(2) 2(2) mk assms(3)] covering_bids_subset [OF 2(3)] that(1) by blast
    qed
    let ?db = "snd (snd st)"
    have mv: "moves db (\<lambda>i. if i = short_backing_asset (ba_options bad) then settlement_fund bad else 0) (\<lambda>_. 0) ?db" and fw: "fewer_bids db ?db"
      using a 2(5) by (simp_all add: assigning_def cong: if_cong)
    have "idx_find (assets ?db) (asset_id z) = Some m" "idx_find (asset_bitasset_data ?db) k = Some bad"
      using 2(2) assms(3) movesD(2,3) [OF mv] by simp_all
    note e = revive_data_effect [OF 2(6) movesD(1) [OF mv] this(1) mk this(2)]
    have "books i db' = books i db" for i using e(3,4) [of i] movesD(4,5) [OF mv, of i] by (simp add: books_def fund_amount_def)
    moreover have "bids_ok db'"
      by (rule bids_ok_data_put [OF assms(2,3) _ _ e(1) fewer_bids_trans [OF fw e(5)]])
        (use e(2,6) movesD(2,3) [OF mv] in \<open>simp_all add: has_settlement_def price_is_null_def price_eq_def null_price_def\<close>)
    ultimately show ?thesis using e(1) by (simp add: keeps_books_def)
  qed
qed

lemma reset_settled_volume_keeps:
  assumes "reset_settled_volume k db = Inr db'" "bids_ok db"
  shows "keeps_books db db' \<and> bids_ok db'"
proof -
  from assms(1) obtain b where b: "idx_find (asset_bitasset_data db) k = Some b" by (auto simp: reset_settled_volume_def)
  let ?b = "b\<lparr>force_settled_volume := 0\<rparr>"
  let ?db = "db\<lparr>asset_bitasset_data := idx_put (asset_bitasset_data db) k ?b\<rparr>"
  have ok: "market_ok db" using assms(2) by (simp add: bids_ok_def)
  have s: "has_settlement ?b \<or> settlement_fund ?b = 0" using funds_okE [OF ok b] by (simp add: has_settlement_def)
  note e = bitasset_put_effect [OF ok b s]
  have k: "keeps_books db ?db" using e by (simp add: keeps_books_def books_def fund_amount_def)
  have o: "bids_ok ?db" using e(1) by (intro bids_ok_data_put [OF assms(2) b, of ?b]) (simp_all add: fewer_bids_def)
  have f: "idx_find (asset_bitasset_data ?db) k = Some ?b" using b by (simp add: idx_find_put)
  show ?thesis
  proof (cases "has_settlement ?b")
    case True
    then have "process_bids k ?db = Inr db'" using assms(1) b by (auto simp: reset_settled_volume_def Let_def idx_find_put)
    from process_bids_keeps [OF this o f True] show ?thesis using keeps_books_trans [OF k] by blast
  next
    case False
    then have "db' = ?db" using assms(1) b by (auto simp: reset_settled_volume_def Let_def idx_find_put)
    then show ?thesis using k o by simp
  qed
qed

lemma reset_settled_volumes_keeps:
  assumes "reset_settled_volumes db = Inr db'" "bids_ok db"
  shows "keeps_books db db' \<and> bids_ok db'"
proof (rule foldE_invariant [OF assms(1) [unfolded reset_settled_volumes_def]])
  show "keeps_books db db \<and> bids_ok db" using assms(2) keeps_books_refl by (simp add: bids_ok_def)
  show "keeps_books db t \<and> bids_ok t" if "keeps_books db s \<and> bids_ok s" "reset_settled_volume x s = Inr t" for x s t
    using reset_settled_volume_keeps [OF that(2)] that(1) keeps_books_trans by blast
qed

text \<open>C10: What the chain does by itself creates and destroys nothing: canceling expired limit orders at a capped fee, settling the
  due settlement orders against the least collateralized call orders up to the volume of each asset, refreshing expired feeds
  with the margin calls they set off, dropping expired withdraw permissions, and, in a maintenance, resetting the volumes and
  reviving settled assets from the bids on them; each leaves for every asset what the chain holds minus its supply as it was.
  The last asks that bids are made in the backing asset and settlement prices are between an asset and its backing.\<close>

theorem housekeeping_conserves:
  assumes "market_ok db"
  shows "(clear_expired_orders x db = Some (Inr a) \<longrightarrow> keeps_books db a)
    \<and> (update_expired_feeds db = Inr b \<longrightarrow> keeps_books db b)
    \<and> keeps_books db (update_withdraw_permissions db)
    \<and> (bids_ok db \<and> reset_settled_volumes db = Inr c \<longrightarrow> keeps_books db c \<and> bids_ok c)"
  using clear_expired_orders_keeps [OF _ assms] update_expired_feeds_keeps [OF _ assms] update_withdraw_permissions_keeps [OF assms]
    reset_settled_volumes_keeps by blast

text \<open>The order of account 6 has expired: it gets its 10 of asset 1 back, and its deferred fee of 7 less the fee of the cancellation of 3.\<close>

definition demo_expired :: database where
  "demo_expired = demo_chain\<lparr>limit_orders := idx_of [\<lparr>lo_expiration = 1500000000, seller = 6, for_sale = 10,
     sell_price = mk_price (mk_asset 10 1) (mk_asset 20 0), deferred_fee = 7\<rparr>]\<rparr>"

lemma demo_expired_ok: "market_ok demo_expired"
proof -
  have "db_ok demo_expired" unfolding demo_expired_def by (rule db_ok_update(4) [OF demo_chain_ok]) simp
  then show ?thesis
    by (simp add: market_ok_def fee_options_ok_def funds_ok_def orders_ok_def calls_backed_def demo_expired_def demo_chain_simps)
qed

lemmas cancel_eval = limit_order_cancel_def limit_order_cancel_evaluate_def limit_order_cancel_apply_def cancel_limit_order_def
  amount_for_sale_def check_call_orders_def is_market_issued_def

lemma demo_expired_run:
  "\<exists>a. clear_expired_orders (mk_asset 3 0) demo_expired = Some (Inr a) \<and> objs (limit_orders a) = [] \<and> amount (get_balance a 6 1) = 60
     \<and> amount (get_balance a 6 0) = 204"
  by (simp add: clear_expired_orders_def cancel_expired_limits_def expired_orders_def cancel_expired_order_def settle_due_orders_def order_by_def
      demo_expired_def demo_chain_simps Let_def index_eval asset_eval fee_eval cancel_eval cong: bindE_weak_cong del: bindE_eq_Inr)

theorem housekeeping_conserves_witness:
  "\<exists>a. clear_expired_orders (mk_asset 3 0) demo_expired = Some (Inr a) \<and> objs (limit_orders a) = [] \<and> amount (get_balance a 6 1) = 60
     \<and> amount (get_balance a 6 0) = 204 \<and> keeps_books demo_expired a"
  using demo_expired_run housekeeping_conserves [OF demo_expired_ok, of "mk_asset 3 0", THEN conjunct1] by blast

text \<open>C11: The loop over the due settlement orders ends: from every state that satisfies the market invariant, with any number of orders,
  assets, volumes and call orders, four turns for every settlement order and two more are enough, so that clearing expired
  orders returns or throws.\<close>

theorem clear_expired_orders_ends:
  assumes "market_ok db"
  shows "\<exists>r. clear_expired_orders x db = Some r"
  by (rule clear_expired_orders_returns [OF assms])

text \<open>Account 5 has an order to settle 20 of asset 1, which was settled globally before: the order is canceled and the loop ends.\<close>

definition demo_settling :: database where
  "demo_settling = demo_chain\<lparr>assets := idx_of [demo_asset 0, (demo_asset 1)\<lparr>bitasset_data_id := Some 0\<rparr>],
     asset_bitasset_data := idx_of [(new_bitasset \<lparr>feed_lifetime_sec = 86400, minimum_feeds = 1, force_settlement_delay_sec = 86400,
         force_settlement_offset_percent = 0, maximum_force_settlement_volume = 2000, short_backing_asset = 0\<rparr> False)
       \<lparr>ba_settlement_price := mk_price (mk_asset 100 1) (mk_asset 50 0)\<rparr>],
     force_settlements := idx_of [\<lparr>fs_owner = 5, fs_balance = mk_asset 20 1, settlement_date = 1500000000\<rparr>]\<rparr>"

lemma demo_settling_ok: "market_ok demo_settling"
proof -
  have "indices_ok demo_settling" by (simp add: indices_ok_def demo_settling_def demo_chain_def)
  moreover have "balances_nonneg (balances demo_settling)" by (simp add: balances_nonneg_def demo_settling_def demo_chain_simps)
  moreover have "dyn_ids_ok (assets demo_settling)" by (simp add: dyn_ids_ok_def demo_settling_def demo_chain_simps idx_find_def)
  ultimately have "db_ok demo_settling" by (simp add: db_ok_def)
  then show ?thesis
    by (simp add: market_ok_def fee_options_ok_def funds_ok_def orders_ok_def calls_backed_def demo_settling_def demo_chain_simps new_bitasset_def)
qed

lemma settlement_loop_numeral:
  "settlement_loop (numeral k) cur mx db = (case settlement_turn cur mx db of Inl e \<Rightarrow> Some (Inl e) | Inr (Inl db) \<Rightarrow> Some (Inr db)
    | Inr (Inr (cur, mx, db)) \<Rightarrow> settlement_loop (pred_numeral k) cur mx db)"
  by (simp add: numeral_eq_Suc)

lemma demo_settling_run:
  "\<exists>a. clear_expired_orders (mk_asset 3 0) demo_settling = Some (Inr a) \<and> objs (force_settlements a) = [] \<and> amount (get_balance a 5 1) = 70"
  by (simp add: clear_expired_orders_def cancel_expired_limits_def expired_orders_def settle_due_orders_def order_by_def settlement_loop_numeral null_price_def
      settlement_turn_def settlement_at_def bitasset_data_def cancel_settle_order_def has_settlement_def price_is_null_def new_bitasset_def
      demo_settling_def demo_chain_simps Let_def index_eval asset_eval cong: bindE_weak_cong del: bindE_eq_Inr)

theorem clear_expired_orders_ends_witness:
  "\<exists>r a. clear_expired_orders (mk_asset 3 0) demo_settling = Some r \<and> r = Inr a \<and> objs (force_settlements a) = [] \<and> amount (get_balance a 5 1) = 70"
proof -
  obtain r where r: "clear_expired_orders (mk_asset 3 0) demo_settling = Some r" using clear_expired_orders_ends [OF demo_settling_ok] by blast
  obtain a where "clear_expired_orders (mk_asset 3 0) demo_settling = Some (Inr a)" and a: "objs (force_settlements a) = []" "amount (get_balance a 5 1) = 70"
    using demo_settling_run by blast
  then have "r = Inr a" using r by simp
  then show ?thesis using r a by blast
qed

end
