(* ===== verification/Transactions.thy ===== *)
theory Transactions
  imports Housekeeping Schedule "HOL-Library.Sublist"
begin

text \<open>
  Transactions: \<^verbatim>\<open>_apply_transaction\<close>, \<^verbatim>\<open>_push_transaction\<close>, \<^verbatim>\<open>_generate_block\<close> and the block summaries of \<^verbatim>\<open>db_block.cpp\<close>,
  \<^verbatim>\<open>clear_expired_transactions\<close> of \<^verbatim>\<open>db_update.cpp\<close> and \<^verbatim>\<open>protocol/transaction.hpp\<close>. An operation is any value; the table of
  registered evaluators, the static checks of the operations and their required authorities are given with it, as are hashes,
  packed sizes and the recovery of keys. The undo sessions around a transaction are those of \<open>Undo\<close>: a failed one leaves the state as it was.
  The list of applied operations, which only the history plugins read, is left out of \<^verbatim>\<open>apply_operation\<close>. Where the code throws because a
  required account does not exist, the check of authorities finds its authority unsatisfied; both reject the transaction.
\<close>

section \<open>Transactions\<close>

record 'op signed_transaction =
  ref_block_num :: nat
  ref_block_prefix :: nat
  trx_expires :: time_point_sec
  operations :: "'op list"
  signatures :: "nat list"

record 'op trx_env =
  op_validate :: "'op \<Rightarrow> unit exn"
  op_evaluators :: "'op \<Rightarrow> (database \<Rightarrow> database exn) option"
  op_required :: "'op list \<Rightarrow> required_authorities"
  trx_id_of :: "'op signed_transaction \<Rightarrow> nat"
  recovered_keys :: "'op signed_transaction \<Rightarrow> public_key list exn"
  addresses_of_key :: "public_key \<Rightarrow> address list"
  id_prefix :: "block_id_type \<Rightarrow> nat"

definition skip_transaction_signatures :: "32 word" where "skip_transaction_signatures = 0x002"
definition skip_transaction_dupe_check :: "32 word" where "skip_transaction_dupe_check = 0x004"
definition skip_block_size_check :: "32 word" where "skip_block_size_check = 0x010"
definition skip_tapos_check :: "32 word" where "skip_tapos_check = 0x020"
definition skip_authority_check :: "32 word" where "skip_authority_check = 0x040"

definition trx_validate :: "'op trx_env \<Rightarrow> 'op signed_transaction \<Rightarrow> unit exn" where
  "trx_validate env trx =
    bindE (fc_assert (0 < length (operations trx)) ''A transaction must have at least one operation'') (\<lambda>_.
    foldE (\<lambda>op _. op_validate env op) (operations trx) ())"

definition set_expiration :: "time_point_sec \<Rightarrow> 'op signed_transaction \<Rightarrow> 'op signed_transaction" where
  "set_expiration t trx = trx\<lparr>trx_expires := t\<rparr>"

definition set_reference_block :: "'op trx_env \<Rightarrow> block_id_type \<Rightarrow> 'op signed_transaction \<Rightarrow> 'op signed_transaction" where
  "set_reference_block env i trx = trx\<lparr>ref_block_num := unat (id_num i) mod 2 ^ 16, ref_block_prefix := id_prefix env i\<rparr>"

section \<open>Applying a transaction\<close>

definition apply_operation :: "'op trx_env \<Rightarrow> 'op \<Rightarrow> database \<Rightarrow> database exn" where
  "apply_operation env op db =
    bindE (ofOption (assert_exception ''No registered evaluator for operation'') (op_evaluators env op)) (\<lambda>eval. eval db)"

definition check_trx_authority :: "'op trx_env \<Rightarrow> 'op signed_transaction \<Rightarrow> database \<Rightarrow> unit exn" where
  "check_trx_authority env trx db =
    bindE (recovered_keys env trx) (\<lambda>keys.
    verify_authority (addresses_of_key env) (op_required env (operations trx)) keys
      (\<lambda>a. map_option acc_active (idx_find (accounts db) a)) (\<lambda>a. map_option acc_owner (idx_find (accounts db) a))
      (max_authority_depth (parameters (global_properties db))) False [] [])"

definition check_tapos :: "'op trx_env \<Rightarrow> 'op signed_transaction \<Rightarrow> database \<Rightarrow> unit exn" where
  "check_tapos env trx db =
    bindE (idx_get ''block_summary'' (block_summaries db) (ref_block_num trx)) (\<lambda>s.
    fc_assert (ref_block_prefix trx = id_prefix env (bs_block_id s)) ''trx.ref_block_prefix == tapos_block_summary.block_id._hash[1]'')"

definition check_expiration :: "'op signed_transaction \<Rightarrow> database \<Rightarrow> unit exn" where
  "check_expiration trx db =
    (let now = head_block_time db in
     bindE (fc_assert (trx_expires trx \<le> (now + maximum_time_until_expiration (parameters (global_properties db))) mod 2 ^ 32) ''trx.expiration'') (\<lambda>_.
     fc_assert (now \<le> trx_expires trx) ''now <= trx.expiration''))"

definition known_transaction :: "nat \<Rightarrow> database \<Rightarrow> bool" where
  "known_transaction i db \<longleftrightarrow> idx_find_by (\<lambda>t. trx_id t = i) (trx_index db) \<noteq> None"

definition apply_transaction :: "'op trx_env \<Rightarrow> node_state \<Rightarrow> 'op signed_transaction \<Rightarrow> database \<Rightarrow> database exn" where
  "apply_transaction env node trx db =
    bindE (trx_validate env trx) (\<lambda>_.
    bindE (fc_assert (skips node skip_transaction_dupe_check \<or> \<not> known_transaction (trx_id_of env trx) db) ''trx_idx.find(trx_id)'') (\<lambda>_.
    bindE (if skips node skip_transaction_signatures \<or> skips node skip_authority_check then Inr () else check_trx_authority env trx db) (\<lambda>_.
    bindE (if 0 < head_block_num db
           then bindE (if skips node skip_tapos_check then Inr () else check_tapos env trx db) (\<lambda>_. check_expiration trx db)
           else Inr ()) (\<lambda>_.
    let db = (if skips node skip_transaction_dupe_check then db
              else db\<lparr>trx_index := idx_create (trx_index db) \<lparr>trx_id = trx_id_of env trx, trx_expiration = trx_expires trx\<rparr>\<rparr>) in
    bindE (foldE (apply_operation env) (operations trx) db) (\<lambda>db.
    bindE (fc_assert (list_all (\<lambda>p. owner (snd p) = GRAPHENE_TEMP_ACCOUNT \<longrightarrow> balance (snd p) = 0) (objs (balances db))) ''b.balance == 0'') (\<lambda>_.
    Inr db))))))"

section \<open>Block summaries and expiration\<close>

definition create_block_summary :: "(signed_block_header \<Rightarrow> nat) \<Rightarrow> signed_block \<Rightarrow> database \<Rightarrow> database exn" where
  "create_block_summary header_hash b db =
    bindE (idx_modify ''block_summary'' (block_summaries db) (unat (block_num b) mod 2 ^ 16) (\<lambda>s. Inr (s\<lparr>bs_block_id := block_id header_hash b\<rparr>))) (\<lambda>t.
    Inr (db\<lparr>block_summaries := t\<rparr>))"

definition trx_expires_before :: "nat \<times> transaction_object \<Rightarrow> nat \<times> transaction_object \<Rightarrow> bool" where
  "trx_expires_before p q \<longleftrightarrow> trx_expiration (snd p) < trx_expiration (snd q) \<or> trx_expiration (snd p) = trx_expiration (snd q) \<and> fst p < fst q"

definition expired_transactions :: "database \<Rightarrow> nat list" where
  "expired_transactions db =
    map fst (takeWhile (\<lambda>p. trx_expiration (snd p) < head_block_time db) (order_by trx_expires_before (objs (trx_index db))))"

definition clear_expired_transactions :: "database \<Rightarrow> database" where
  "clear_expired_transactions db = db\<lparr>trx_index := foldl idx_remove (trx_index db) (expired_transactions db)\<rparr>"

section \<open>Pending transactions\<close>

text \<open>The pending session: the state of the head block, and the state after the pending transactions.\<close>

record 'op pending_state =
  head_state :: database
  pending_state :: database
  pending_tx :: "'op signed_transaction list"

definition push_transaction :: "'op trx_env \<Rightarrow> node_state \<Rightarrow> 'op signed_transaction \<Rightarrow> 'op pending_state \<Rightarrow> 'op pending_state \<times> unit exn" where
  "push_transaction env node trx st =
    (case apply_transaction env node trx (pending_state st) of
       Inl e \<Rightarrow> (st, Inl e)
     | Inr db \<Rightarrow> (st\<lparr>pending_state := db, pending_tx := pending_tx st @ [trx]\<rparr>, Inr ()))"

definition validate_transaction :: "'op trx_env \<Rightarrow> node_state \<Rightarrow> 'op signed_transaction \<Rightarrow> 'op pending_state \<Rightarrow> 'op pending_state \<times> unit exn" where
  "validate_transaction env node trx st = (st, bindE (apply_transaction env node trx (pending_state st)) (\<lambda>_. Inr ()))"

definition clear_pending :: "'op pending_state \<Rightarrow> 'op pending_state" where
  "clear_pending st = st\<lparr>pending_state := head_state st, pending_tx := []\<rparr>"

section \<open>Generating a block\<close>

record 'op generation_env =
  header_size :: nat
  tx_size :: "'op signed_transaction \<Rightarrow> nat"
  processed_size :: "'op signed_transaction \<Rightarrow> database \<Rightarrow> nat"
  tx_digest :: "'op signed_transaction \<Rightarrow> database \<Rightarrow> nat"
  gen_hashes :: block_hashes
  sign_block :: "nat \<Rightarrow> signed_block \<Rightarrow> nat"
  public_key_of :: "nat \<Rightarrow> nat"
  signed_block_size :: "signed_block \<Rightarrow> nat"

text \<open>The pending transactions that fit and still apply, with their digests, the state they lead to, and the size so far.\<close>

fun select_pending :: "'op trx_env \<Rightarrow> node_state \<Rightarrow> 'op generation_env \<Rightarrow> nat \<Rightarrow> nat \<Rightarrow> 'op signed_transaction list \<Rightarrow> database
    \<Rightarrow> ('op signed_transaction \<times> nat) list \<times> nat \<times> database" where
  "select_pending env node ge limit total_size [] db = ([], total_size, db)"
| "select_pending env node ge limit total_size (tx # txs) db =
    (if limit \<le> total_size + tx_size ge tx then select_pending env node ge limit total_size txs db
     else case apply_transaction env node tx db of
       Inl e \<Rightarrow> select_pending env node ge limit total_size txs db
     | Inr db' \<Rightarrow>
         let r = select_pending env node ge limit (total_size + processed_size ge tx db) txs db'
         in ((tx, tx_digest ge tx db) # fst r, snd r))"

text \<open>
  The slot, the scheduled witness, its key and the limit are read while the pending session is still open; the transactions
  are applied again, and the size is checked, on the state of the head block. The block is then pushed as any other.
\<close>

definition generate_block :: "'op trx_env \<Rightarrow> node_state \<Rightarrow> 'op generation_env \<Rightarrow> time_point_sec \<Rightarrow> witness_id_type \<Rightarrow> nat \<Rightarrow> 'op pending_state
    \<Rightarrow> (signed_block \<times> 'op signed_transaction list) exn" where
  "generate_block env node ge when w key st =
    (let pend = pending_state st; db = head_state st; slot_num = get_slot_at_time pend when in
     bindE (fc_assert (0 < slot_num) ''slot_num > 0'') (\<lambda>_.
     bindE (get_scheduled_witness pend slot_num) (\<lambda>scheduled.
     bindE (fc_assert (scheduled = w) ''scheduled_witness == witness_id'') (\<lambda>_.
     bindE (idx_get ''witness'' (witnesses pend) w) (\<lambda>wo.
     bindE (if skips node skip_witness_signature then Inr ()
            else fc_assert (signing_key wo = public_key_of ge key) ''witness_obj.signing_key == block_signing_private_key.get_public_key()'') (\<lambda>_.
     let limit = maximum_block_size (parameters (global_properties pend));
         r = select_pending env node ge limit (header_size ge + 4) (pending_tx st) db;
         blank = \<lparr>previous = head_block_id (dynamic_properties db), timestamp = when, block_witness = w, transaction_merkle_root = 0,
            witness_signature = 0, transactions = map snd (fst r)\<rparr>;
         rooted = blank\<lparr>transaction_merkle_root := calculate_merkle_root (gen_hashes ge) blank\<rparr>;
         b = (if skips node skip_witness_signature then rooted else rooted\<lparr>witness_signature := sign_block ge key rooted\<rparr>)
     in
     bindE (if skips node skip_block_size_check then Inr ()
            else fc_assert (signed_block_size ge b \<le> maximum_block_size (parameters (global_properties db))) ''pack_size(pending_block)'') (\<lambda>_.
     Inr (b, map fst (fst r)))))))))"

section \<open>No transaction is applied twice\<close>

text \<open>
  The history of a chain, in the steps of \<^verbatim>\<open>_apply_block\<close>: a transaction is applied, a block whose header was validated (before its
  transactions, at the same time on the clock) is recorded, expired transactions are cleared once there is a block, and anything
  else may happen that leaves the clock and the index of transactions alone. Every step has the skip flags of its own time: a
  reindex, and the blocks before the last checkpoint, skip the check for duplicates. The log keeps, with each
  transaction that was applied, whether that check was made.
\<close>

definition same_clock :: "database \<Rightarrow> database \<Rightarrow> bool" where
  "same_clock db db' \<longleftrightarrow> trx_index db' = trx_index db \<and> head_block_time db' = head_block_time db \<and> head_block_num db' = head_block_num db"

definition dupe_checked :: "node_state \<Rightarrow> bool" where
  "dupe_checked node \<longleftrightarrow> \<not> skips node skip_transaction_dupe_check"

type_synonym 'op trx_log = "('op signed_transaction \<times> bool) list"

inductive history_step :: "'op trx_env \<Rightarrow> (signed_block_header \<Rightarrow> nat) \<Rightarrow> (signed_block_header \<Rightarrow> nat)
    \<Rightarrow> 'op trx_log \<times> database \<Rightarrow> 'op trx_log \<times> database \<Rightarrow> bool"
  for env header_hash signee where
  step_transaction: "apply_transaction env node trx db = Inr db'
    \<Longrightarrow> history_step env header_hash signee (ts, db) (ts @ [(trx, dupe_checked node)], db')"
| step_record: "validate_block_header signee node db0 b = Inr w \<Longrightarrow> head_block_time db0 = head_block_time db
    \<Longrightarrow> update_global_dynamic_data header_hash node db b = Inr (db', n) \<Longrightarrow> block_num b \<noteq> 0
    \<Longrightarrow> history_step env header_hash signee (ts, db) (ts, db')"
| step_expire: "0 < head_block_num db \<Longrightarrow> history_step env header_hash signee (ts, db) (ts, clear_expired_transactions db)"
| step_other: "same_clock db db' \<Longrightarrow> history_step env header_hash signee (ts, db) (ts, db')"

inductive history :: "'op trx_env \<Rightarrow> (signed_block_header \<Rightarrow> nat) \<Rightarrow> (signed_block_header \<Rightarrow> nat)
    \<Rightarrow> 'op trx_log \<times> database \<Rightarrow> 'op trx_log \<times> database \<Rightarrow> bool"
  for env header_hash signee s where
  history_start: "history env header_hash signee s s"
| history_next: "history env header_hash signee s t \<Longrightarrow> history_step env header_hash signee t u
    \<Longrightarrow> history env header_hash signee s u"

text \<open>The transactions of a log that were applied with the check for duplicates.\<close>

definition checked_trxs :: "'op trx_log \<Rightarrow> 'op signed_transaction list" where
  "checked_trxs ts = map fst (filter snd ts)"

lemma checked_trxs_simps [simp]:
  "checked_trxs [] = []" "checked_trxs (ts @ us) = checked_trxs ts @ checked_trxs us"
  "checked_trxs [(t, b)] = (if b then [t] else [])"
  by (simp_all add: checked_trxs_def)

text \<open>What is asked of the evaluators and the hash: operations leave the clock and the index alone, and an id tells the expiration.\<close>

definition clock_safe :: "'op trx_env \<Rightarrow> bool" where
  "clock_safe env \<longleftrightarrow> (\<forall>op f db db'. op_evaluators env op = Some f \<longrightarrow> f db = Inr db' \<longrightarrow> same_clock db db')"

definition ids_tell_expiration :: "'op trx_env \<Rightarrow> bool" where
  "ids_tell_expiration env \<longleftrightarrow> (\<forall>t t'. trx_id_of env t = trx_id_of env t' \<longrightarrow> trx_expires t = trx_expires t')"

definition remembered :: "'op trx_env \<Rightarrow> database \<Rightarrow> 'op signed_transaction \<Rightarrow> bool" where
  "remembered env db t \<longleftrightarrow> (\<exists>p \<in> set (objs (trx_index db)). trx_id (snd p) = trx_id_of env t \<and> trx_expiration (snd p) = trx_expires t)
    \<or> 0 < head_block_num db \<and> trx_expires t < head_block_time db"

definition no_replay :: "'op trx_env \<Rightarrow> 'op trx_log \<times> database \<Rightarrow> bool" where
  "no_replay env s \<longleftrightarrow> idx_ok (trx_index (snd s)) \<and> distinct (map (trx_id_of env) (checked_trxs (fst s)))
     \<and> (\<forall>t \<in> set (checked_trxs (fst s)). remembered env (snd s) t)"

lemma same_clock_remembered: "same_clock db db' \<Longrightarrow> remembered env db' t = remembered env db t"
  by (simp add: same_clock_def remembered_def)

lemma operations_same_clock:
  assumes "foldE (apply_operation env) ops db = Inr db'" "clock_safe env"
  shows "same_clock db db'"
  by (rule foldE_invariant [OF assms(1)])
    (use assms(2) in \<open>auto simp: same_clock_def clock_safe_def apply_operation_def ofOption_def split: option.splits\<close>)

lemma unknown_ids: "\<not> known_transaction i db \<Longrightarrow> p \<in> set (objs (trx_index db)) \<Longrightarrow> trx_id (snd p) \<noteq> i"
  by (cases p) (auto simp: known_transaction_def idx_find_by_def find_None_iff)

lemma apply_transaction_facts:
  assumes "apply_transaction env node trx db = Inr db'" "clock_safe env"
  shows "0 < head_block_num db \<Longrightarrow> head_block_time db \<le> trx_expires trx"
    "if dupe_checked node then \<not> known_transaction (trx_id_of env trx) db
       \<and> same_clock (db\<lparr>trx_index := idx_create (trx_index db) \<lparr>trx_id = trx_id_of env trx, trx_expiration = trx_expires trx\<rparr>\<rparr>) db'
     else same_clock db db'"
proof -
  let ?db = "db\<lparr>trx_index := idx_create (trx_index db) \<lparr>trx_id = trx_id_of env trx, trx_expiration = trx_expires trx\<rparr>\<rparr>"
  show "0 < head_block_num db \<Longrightarrow> head_block_time db \<le> trx_expires trx"
    using assms(1) by (auto simp: apply_transaction_def check_expiration_def Let_def)
  have "dupe_checked node \<longrightarrow> \<not> known_transaction (trx_id_of env trx) db"
    "foldE (apply_operation env) (operations trx) (if dupe_checked node then ?db else db) = Inr db'"
    using assms(1) by (auto simp: apply_transaction_def dupe_checked_def Let_def)
  then show "if dupe_checked node then \<not> known_transaction (trx_id_of env trx) db \<and> same_clock ?db db' else same_clock db db'"
    using operations_same_clock assms(2) by (auto split: if_splits)
qed

lemma recorded_clock:
  assumes "update_global_dynamic_data h node db b = Inr (db1, n)"
  shows "trx_index db1 = trx_index db" "head_block_time db1 = timestamp b" "head_block_num db1 = unat (block_num b)"
proof -
  have c: "foldE (charge_missed_slot w) ks db = Inr d \<Longrightarrow> trx_index d = trx_index db" for w ks d
    by (erule foldE_invariant [where P = "\<lambda>d. trx_index d = trx_index db"]) (auto simp: charge_missed_slot_def split: if_splits)
  show "trx_index db1 = trx_index db" "head_block_time db1 = timestamp b" "head_block_num db1 = unat (block_num b)"
    using assms c by (auto simp: update_global_dynamic_data_def Let_def head_block_time_def head_block_num_def)
qed

lemma find_removes: "idx_find (foldl idx_remove t ks) i = (if i \<in> set ks then None else idx_find t i)"
  by (induction ks arbitrary: t) (auto simp: idx_find_remove)

lemma uncleared:
  assumes "idx_ok (trx_index db)" "p \<in> set (objs (trx_index db))" "\<not> trx_expiration (snd p) < head_block_time db"
  shows "p \<in> set (objs (trx_index (clear_expired_transactions db)))"
proof -
  have "fst p \<notin> set (expired_transactions db)"
  proof
    assume "fst p \<in> set (expired_transactions db)"
    then obtain q where q: "q \<in> set (objs (trx_index db))" "fst q = fst p" "trx_expiration (snd q) < head_block_time db"
      by (auto simp: expired_transactions_def dest: set_takeWhileD)
    then show False using objs_find [OF assms(1) q(1)] objs_find [OF assms(1,2)] assms(3) by auto
  qed
  then have "idx_find (trx_index (clear_expired_transactions db)) (fst p) = Some (snd p)"
    using objs_find [OF assms(1,2)] by (simp add: clear_expired_transactions_def find_removes)
  from idx_find_in [OF this] show ?thesis by simp
qed

lemma step_no_replay:
  assumes "history_step env h sg s s'" "no_replay env s" "clock_safe env" "ids_tell_expiration env"
  shows "no_replay env s'"
  using assms(1)
proof (cases rule: history_step.cases)
  case (step_transaction node trx db db' ts)
  note f = apply_transaction_facts [OF step_transaction(3) assms(3)]
  show ?thesis
  proof (cases "dupe_checked node")
    case False
    then show ?thesis using assms(2) step_transaction(1,2) f(2) same_clock_remembered [of db db' env]
      by (simp add: no_replay_def same_clock_def)
  next
    case True
    let ?db = "db\<lparr>trx_index := idx_create (trx_index db) \<lparr>trx_id = trx_id_of env trx, trx_expiration = trx_expires trx\<rparr>\<rparr>"
    have g: "\<not> known_transaction (trx_id_of env trx) db" "same_clock ?db db'" using f(2) True by auto
    have new: "trx_id_of env t \<noteq> trx_id_of env trx" if "t \<in> set (checked_trxs ts)" for t
    proof
      assume e: "trx_id_of env t = trx_id_of env trx"
      then have x: "trx_expires t = trx_expires trx" using assms(4) unfolding ids_tell_expiration_def by blast
      have "remembered env db t" using assms(2) that step_transaction(1) by (simp add: no_replay_def)
      moreover have "\<not> (\<exists>p \<in> set (objs (trx_index db)). trx_id (snd p) = trx_id_of env t)" using unknown_ids [OF g(1)] e by metis
      ultimately show False using f(1) x by (auto simp: remembered_def)
    qed
    have "remembered env ?db trx" by (auto simp: remembered_def)
    moreover have "remembered env ?db t" if "remembered env db t" for t
      using that by (auto simp: remembered_def head_block_num_def head_block_time_def)
    moreover have "idx_ok (trx_index db')" using g(2) assms(2) step_transaction(1) by (simp add: same_clock_def no_replay_def)
    moreover have "trx_id_of env trx \<notin> trx_id_of env ` set (checked_trxs ts)" using new by (metis imageE)
    ultimately show ?thesis using assms(2) step_transaction(1,2) same_clock_remembered [OF g(2), of env] True
      by (simp add: no_replay_def)
  qed
next
  case (step_record node db0 b w db db' n ts)
  note c = recorded_clock [OF step_record(5)]
  have later: "head_block_time db < timestamp b" using step_record(3,4) by (auto simp: validate_block_header_def)
  have "remembered env db' t" if "remembered env db t" for t
    using that c later step_record(6) unfolding remembered_def by (auto simp: unat_gt_0)
  then show ?thesis using assms(2) step_record(1,2) c by (simp add: no_replay_def)
next
  case (step_expire db ts)
  let ?db = "clear_expired_transactions db"
  have ok: "idx_ok (trx_index db)" using assms(2) step_expire(1) by (simp add: no_replay_def)
  have c: "head_block_time ?db = head_block_time db" "head_block_num ?db = head_block_num db"
    by (simp_all add: clear_expired_transactions_def head_block_time_def head_block_num_def)
  have "remembered env ?db t" if "remembered env db t" for t
    using that uncleared [OF ok] step_expire(3) unfolding remembered_def c by metis
  moreover have "idx_ok (trx_index ?db)" using idx_ok_removes [OF ok] by (simp add: clear_expired_transactions_def)
  ultimately show ?thesis using assms(2) step_expire(1,2) by (simp add: no_replay_def)
next
  case (step_other db db' ts)
  then show ?thesis using assms(2) same_clock_remembered [OF step_other(3), of env] by (simp add: no_replay_def same_clock_def)
qed

lemma history_no_replay:
  assumes "history env h sg s s'" "no_replay env s" "clock_safe env" "ids_tell_expiration env"
  shows "no_replay env s'"
  using assms(1)
  by (induction rule: history.induct) (use assms step_no_replay in blast)+

text \<open>C12: In every history of the chain that begins with no transaction applied, no transaction is applied twice while duplicates
  are checked: the transactions that were applied with the check have distinct ids, whatever the flags of the other steps are (a
  reindex and the blocks before a checkpoint set \<open>skip_transaction_dupe_check\<close>, and what they apply is neither checked nor
  remembered). So no transaction is applied twice when the check was never skipped. An id stays in the index until
  the clock has passed the expiration of its transaction, and from then on the check of the expiration refuses it. This asks that
  operations leave the clock and the index of transactions alone and that the id, a hash, determines the expiration.\<close>

theorem no_transaction_applied_twice:
  assumes "history env header_hash signee ([], db) (ts, db')" "idx_ok (trx_index db)" "clock_safe env" "ids_tell_expiration env"
  shows "distinct (map (trx_id_of env) (checked_trxs ts))
    \<and> (list_all snd ts \<longrightarrow> distinct (map (\<lambda>t. trx_id_of env (fst t)) ts))"
proof -
  have "no_replay env ([], db)" using assms(2) by (simp add: no_replay_def)
  from history_no_replay [OF assms(1) this assms(3,4)] have d: "distinct (map (trx_id_of env) (checked_trxs ts))"
    by (simp add: no_replay_def)
  moreover have "checked_trxs ts = map fst ts" if "list_all snd ts" using that by (simp add: checked_trxs_def list_all_iff)
  moreover have "map (trx_id_of env) (map fst ts) = map (\<lambda>t. trx_id_of env (fst t)) ts" by simp
  ultimately show ?thesis by metis
qed

text \<open>An environment of one operation that does nothing, and two transactions that hold it.\<close>

definition demo_trx_env :: "unit trx_env" where
  "demo_trx_env = \<lparr>op_validate = \<lambda>_. Inr (), op_evaluators = \<lambda>_. Some Inr, op_required = \<lambda>_. \<lparr>required_active = [], required_owner = [], required_other = []\<rparr>,
     trx_id_of = trx_expires, recovered_keys = \<lambda>_. Inr [], addresses_of_key = \<lambda>_. [], id_prefix = \<lambda>_. 0\<rparr>"

definition demo_trx :: "nat \<Rightarrow> unit signed_transaction" where
  "demo_trx t = \<lparr>ref_block_num = 0, ref_block_prefix = 0, trx_expires = t, operations = [()], signatures = []\<rparr>"

definition demo_open_node :: node_state where
  "demo_open_node = \<lparr>checkpoints = [], skip_flags = 0x60\<rparr>"

lemma demo_trx_env_ok: "clock_safe demo_trx_env" "ids_tell_expiration demo_trx_env" "dupe_checked demo_open_node"
  "idx_ok (trx_index demo_slot_chain)"
  by (simp_all add: clock_safe_def same_clock_def demo_trx_env_def ids_tell_expiration_def skips_def dupe_checked_def demo_open_node_def
      skip_transaction_dupe_check_def demo_slot_chain_def demo_schedule_def demo_chain_def)

lemma demo_temp_account: "list_all (\<lambda>p. owner (snd p) = GRAPHENE_TEMP_ACCOUNT \<longrightarrow> balance (snd p) = 0) (objs (balances demo_slot_chain))"
  by (simp add: demo_slot_chain_def demo_schedule_def demo_chain_def idx_of_def GRAPHENE_TEMP_ACCOUNT_def)

lemma demo_open_node_skips [simp]: "skips demo_open_node skip_tapos_check" "skips demo_open_node skip_authority_check"
  "\<not> skips demo_open_node skip_transaction_dupe_check" "\<not> skips demo_open_node skip_transaction_signatures"
  "\<not> skips demo_open_node skip_block_size_check" "\<not> skips demo_open_node skip_witness_signature"
  by (simp_all add: skips_def demo_open_node_def skip_tapos_check_def skip_authority_check_def skip_transaction_dupe_check_def
      skip_transaction_signatures_def skip_block_size_check_def skip_witness_signature_def)

lemma demo_trx_applies:
  assumes "1600000000 \<le> t" "t \<le> 1600000010" "\<not> known_transaction t db" "dynamic_properties db = dynamic_properties demo_slot_chain"
    "global_properties db = global_properties demo_slot_chain" "balances db = balances demo_slot_chain"
  shows "apply_transaction demo_trx_env demo_open_node (demo_trx t) db
    = Inr (db\<lparr>trx_index := idx_create (trx_index db) \<lparr>trx_id = t, trx_expiration = t\<rparr>\<rparr>)"
  using assms
  by (simp add: apply_transaction_def trx_validate_def demo_trx_def demo_trx_env_def apply_operation_def check_expiration_def
      head_block_num_def head_block_time_def demo_slot_chain_simps demo_params_def ofOption_def Let_def demo_temp_account)

definition demo_after_trx :: database where
  "demo_after_trx = demo_slot_chain\<lparr>trx_index := idx_create (trx_index demo_slot_chain) \<lparr>trx_id = 1600000001, trx_expiration = 1600000001\<rparr>\<rparr>"

lemma demo_first_trx: "apply_transaction demo_trx_env demo_open_node (demo_trx 1600000001) demo_slot_chain = Inr demo_after_trx"
  unfolding demo_after_trx_def
  by (rule demo_trx_applies) (simp_all add: known_transaction_def idx_find_by_def demo_slot_chain_def demo_schedule_def demo_chain_def idx_empty_def)

lemma demo_second_trx: "\<exists>db'. apply_transaction demo_trx_env demo_open_node (demo_trx 1600000002) demo_after_trx = Inr db'"
  by (rule exI, rule demo_trx_applies)
    (simp_all add: known_transaction_def idx_find_by_def demo_after_trx_def demo_slot_chain_def demo_schedule_def demo_chain_def
      idx_empty_def idx_create_def)

text \<open>
  Two transactions, and then the second one once more by a node that skips the check: only the first two are counted. Without
  the check a transaction can indeed be applied again.
\<close>

definition demo_replaying_node :: node_state where
  "demo_replaying_node = \<lparr>checkpoints = [], skip_flags = 0x64\<rparr>"

lemma demo_replayed:
  assumes "apply_transaction demo_trx_env demo_open_node (demo_trx 1600000002) demo_after_trx = Inr db'"
  shows "\<exists>db''. apply_transaction demo_trx_env demo_replaying_node (demo_trx 1600000002) db' = Inr db''"
proof -
  have f: "known_transaction 1600000002 demo_after_trx = False"
    by (simp add: known_transaction_def idx_find_by_def demo_after_trx_def demo_slot_chain_def demo_schedule_def demo_chain_def
      idx_empty_def idx_create_def)
  have "db' = demo_after_trx\<lparr>trx_index := idx_create (trx_index demo_after_trx) \<lparr>trx_id = 1600000002, trx_expiration = 1600000002\<rparr>\<rparr>"
    using assms demo_trx_applies [of 1600000002 demo_after_trx] f by (simp add: demo_after_trx_def)
  then have "dynamic_properties db' = dynamic_properties demo_slot_chain" "global_properties db' = global_properties demo_slot_chain"
    "balances db' = balances demo_slot_chain" by (simp_all add: demo_after_trx_def)
  moreover have "skips demo_replaying_node skip_tapos_check" "skips demo_replaying_node skip_authority_check"
    "skips demo_replaying_node skip_transaction_dupe_check"
    by (simp_all add: skips_def demo_replaying_node_def skip_tapos_check_def skip_authority_check_def skip_transaction_dupe_check_def)
  ultimately show ?thesis
    by (simp add: apply_transaction_def trx_validate_def demo_trx_def demo_trx_env_def apply_operation_def check_expiration_def
      head_block_num_def head_block_time_def demo_slot_chain_simps demo_params_def ofOption_def Let_def demo_temp_account)
qed

theorem no_transaction_applied_twice_witness:
  "\<exists>db'. history demo_trx_env (\<lambda>_. 77) (\<lambda>_. 105) ([], demo_slot_chain)
      ([(demo_trx 1600000001, True), (demo_trx 1600000002, True), (demo_trx 1600000002, False)], db')
    \<and> distinct (map (trx_id_of demo_trx_env)
        (checked_trxs [(demo_trx 1600000001, True), (demo_trx 1600000002, True), (demo_trx 1600000002, False)]))"
proof -
  obtain db' where 2: "apply_transaction demo_trx_env demo_open_node (demo_trx 1600000002) demo_after_trx = Inr db'"
    using demo_second_trx by blast
  obtain db'' where 3: "apply_transaction demo_trx_env demo_replaying_node (demo_trx 1600000002) db' = Inr db''"
    using demo_replayed [OF 2] by blast
  have r: "dupe_checked demo_replaying_node = False"
    by (simp add: dupe_checked_def skips_def demo_replaying_node_def skip_transaction_dupe_check_def)
  note h = history_next [OF history_next [OF history_next [OF history_start step_transaction [OF demo_first_trx]] step_transaction [OF 2]]
    step_transaction [OF 3], of "\<lambda>_. 77" "\<lambda>_. 105" "[]"]
  from h have "history demo_trx_env (\<lambda>_. 77) (\<lambda>_. 105) ([], demo_slot_chain)
      ([(demo_trx 1600000001, True), (demo_trx 1600000002, True), (demo_trx 1600000002, False)], db'')"
    using r demo_trx_env_ok(3) by (simp only: append.simps)
  with no_transaction_applied_twice [OF this demo_trx_env_ok(4,1,2)] show ?thesis by blast
qed

section \<open>A generated block is accepted\<close>

lemma select_pending_applies:
  "select_pending env node ge limit sz txs db = (chosen, sz', db')
    \<Longrightarrow> subseq (map fst chosen) txs \<and> foldE (apply_transaction env node) (map fst chosen) db = Inr db'"
proof (induction txs arbitrary: sz db chosen sz' db')
  case (Cons t txs)
  show ?case
  proof (cases "apply_transaction env node t db")
    case (Inl e)
    then have "\<exists>sz. select_pending env node ge limit sz txs db = (chosen, sz', db')" using Cons.prems by (auto split: if_splits)
    then show ?thesis using Cons.IH by (blast intro: list_emb_Cons)
  next
    case (Inr d)
    show ?thesis
    proof (cases "limit \<le> sz + tx_size ge t")
      case True
      then have "select_pending env node ge limit sz txs db = (chosen, sz', db')" using Cons.prems by simp
      then show ?thesis using Cons.IH by (blast intro: list_emb_Cons)
    next
      case False
      obtain cs where r: "select_pending env node ge limit (sz + processed_size ge t db) txs d = (cs, sz', db')"
        "chosen = (t, tx_digest ge t db) # cs"
        using Cons.prems False Inr by (cases "select_pending env node ge limit (sz + processed_size ge t db) txs d") (simp add: Let_def)
      show ?thesis using Cons.IH [OF r(1)] r(2) Inr by simp
    qed
  qed
qed simp

lemma merkle_root_of_transactions:
  "transactions b = transactions c \<Longrightarrow> calculate_merkle_root hs b = calculate_merkle_root hs c"
  by (simp add: calculate_merkle_root_def)

definition signs_for :: "(signed_block_header \<Rightarrow> nat) \<Rightarrow> 'op generation_env \<Rightarrow> bool" where
  "signs_for signee ge \<longleftrightarrow> (\<forall>key b. validate_signee signee (b\<lparr>witness_signature := sign_block ge key b\<rparr>) (public_key_of ge key))"


text \<open>Three pending transactions; the second one has expired, so that the generated block holds the other two.\<close>

definition demo_generation :: "unit generation_env" where
  "demo_generation = \<lparr>header_size = 100, tx_size = \<lambda>_. 50, processed_size = \<lambda>_ _. 60, tx_digest = \<lambda>t _. trx_expires t,
     gen_hashes = \<lparr>merkle_digest = id, hash_pair = \<lambda>a b. a + b, hash_root = id\<rparr>, sign_block = \<lambda>key _. key, public_key_of = \<lambda>key. key + 100,
     signed_block_size = \<lambda>b. 100 + 60 * length (transactions b)\<rparr>"

definition demo_pending :: "unit pending_state" where
  "demo_pending = \<lparr>head_state = demo_slot_chain, pending_state = demo_slot_chain,
     pending_tx = [demo_trx 1600000001, demo_trx 1500000000, demo_trx 1600000002]\<rparr>"

lemma demo_generation_simps: "header_size demo_generation = 100" "tx_size demo_generation t = 50" "processed_size demo_generation t db = 60"
  "tx_digest demo_generation t db = trx_expires t" "public_key_of demo_generation k = k + 100"
  "signed_block_size demo_generation b = 100 + 60 * length (transactions b)"
  by (simp_all add: demo_generation_def)

lemma demo_trx_expired: "\<exists>e. apply_transaction demo_trx_env demo_open_node (demo_trx 1500000000) demo_after_trx = Inl e"
  by (simp add: apply_transaction_def trx_validate_def demo_trx_def demo_trx_env_def check_expiration_def
      head_block_num_def head_block_time_def demo_after_trx_def demo_slot_chain_simps demo_params_def known_transaction_def idx_find_by_def
      demo_slot_chain_def demo_schedule_def demo_chain_def idx_empty_def idx_create_def Let_def)

lemma demo_generated:
  "\<exists>b. generate_block demo_trx_env demo_open_node demo_generation 1600000010 0 5 demo_pending
    = Inr (b, [demo_trx 1600000001, demo_trx 1600000002]) \<and> transactions b = [1600000001, 1600000002]"
proof -
  obtain e where e: "apply_transaction demo_trx_env demo_open_node (demo_trx 1500000000) demo_after_trx = Inl e" using demo_trx_expired by blast
  obtain db' where d: "apply_transaction demo_trx_env demo_open_node (demo_trx 1600000002) demo_after_trx = Inr db'"
    using demo_second_trx by blast
  have s: "fst (select_pending demo_trx_env demo_open_node demo_generation 2048000 104 (pending_tx demo_pending) demo_slot_chain)
    = [(demo_trx 1600000001, 1600000001), (demo_trx 1600000002, 1600000002)]"
    by (simp add: demo_pending_def demo_generation_simps demo_first_trx e d) (simp add: demo_trx_def)
  have f: "head_state demo_pending = demo_slot_chain" "pending_state demo_pending = demo_slot_chain"
    "maximum_block_size (parameters (global_properties demo_slot_chain)) = 2048000" "header_size demo_generation + 4 = 104"
    by (simp_all add: demo_pending_def demo_slot_chain_simps demo_params_def demo_generation_simps)
  show ?thesis
    unfolding generate_block_def Let_def f s
    by (simp add: demo_slot demo_slot_chain_simps demo_schedule_simps idx_get_def get_scheduled_witness_def demo_witness_def demo_generation_simps)
qed


end
