(* ===== verification/Spec2Isabelle.thy ===== *)
theory Spec2Isabelle
  imports Asset Undo Vesting Balance AmountText Credit Schedule Chain MarketEvaluator Authority Transactions
begin

text \<open>
  A verification development of Karma Core, a blockchain node of the Graphene family.

  \<^bold>\<open>The program.\<close> The state of the chain is a set of typed objects in indices (\<^verbatim>\<open>libraries/db\<close>), changed only under
  undo sessions. Blocks arrive from witnesses in time slots, form a tree in the fork database, and are applied or undone as
  the longest fork changes. A block holds transactions, a transaction operations; each operation is checked
  statically (\<^verbatim>\<open>validate\<close>), evaluated against the state, charged its fee, and applied. Between blocks the chain keeps its
  own accounts: it matches orders, calls margin positions, pays witnesses and workers, and counts votes.

  \<^bold>\<open>The theories\<close>, in the order of their imports, with the files under \<^verbatim>\<open>src/libraries\<close> that they model:

  \<^item> \<^verbatim>\<open>Prelude\<close>: exceptions as values of the sum type \<open>exn\<close>, their sequencing \<open>bindE\<close>, loops \<open>foldE\<close> that may throw, the
    checked 64-bit arithmetic of \<^verbatim>\<open>share_type\<close> (\<^verbatim>\<open>fc::safe<int64_t>\<close>), unsigned 128-bit products, and the locale
    \<open>index_order\<close> for the order that an ordered index needs.
  \<^item> \<^verbatim>\<open>Asset\<close>: \<^verbatim>\<open>chain/protocol/asset.hpp\<close>, \<^verbatim>\<open>asset.cpp\<close>. Amounts, prices, their comparison by cross products (exact, and an
    \<open>index_order\<close>), conversion (rounds down, throws exactly when too large), the halving loops of \<open>call_price\<close> and
    \<open>max_short_squeeze_price\<close> (locale \<open>rounding_loop\<close>: they end), feeds.
  \<^item> \<^verbatim>\<open>Undo\<close>: \<^verbatim>\<open>db/undo_database.cpp\<close>, \<^verbatim>\<open>object_database.cpp\<close>, \<^verbatim>\<open>generic_index.hpp\<close>. Sessions restore the store
    (locale \<open>session_store\<close>, interpreted on the undo database): undo after any changes, after a merge, and after a commit.
  \<^item> \<^verbatim>\<open>Vesting\<close>: \<^verbatim>\<open>chain/vesting_balance_object.cpp\<close>. The linear and the coin-seconds policy, each an interpretation of
    \<open>withdraw_policy\<close>; sequences of withdrawals are bounded by what was allowed, and vested deposits can be withdrawn at once.
  \<^item> \<^verbatim>\<open>Double\<close>: IEEE 754 arithmetic of the interest computations, as rationals rounded to nearest even.
  \<^item> \<^verbatim>\<open>Index\<close>, \<^verbatim>\<open>Ledger\<close>: the indices as the chain uses them (locale \<open>object_index\<close>), the records of \<^verbatim>\<open>*_object.hpp\<close>, the
    record \<open>database\<close> of all indices, what the chain holds of an asset (\<open>held\<close>), its supply, and their difference \<open>books\<close>.
  \<^item> \<^verbatim>\<open>Balance\<close>: \<^verbatim>\<open>chain/db_balance.cpp\<close>, \<^verbatim>\<open>account_object.cpp\<close>. Balances (locale \<open>balance_book\<close>), cashback, fee payout.
  \<^item> \<^verbatim>\<open>AmountText\<close>: \<^verbatim>\<open>chain/asset_object.cpp\<close>. Text of amounts: round trip.
  \<^item> \<^verbatim>\<open>Credit\<close>: \<^verbatim>\<open>chain/credit_object.cpp\<close>, \<^verbatim>\<open>credit_evaluator.cpp\<close>. The life of a credit as a step relation, what its operations
    and its monthly processing conserve, that the last payment completes it, and two ways the code fails to conserve.
  \<^item> \<^verbatim>\<open>Block\<close>, \<^verbatim>\<open>BlockStore\<close>, \<^verbatim>\<open>Fork\<close>, \<^verbatim>\<open>Chain\<close>: \<^verbatim>\<open>chain/protocol/block.cpp\<close>, \<^verbatim>\<open>block_database.cpp\<close>, \<^verbatim>\<open>fork_database.cpp\<close>,
    \<^verbatim>\<open>db_block.cpp\<close>. The merkle root, the block files, the fork tree with its invariant, and the switch of forks: the new branch
    is applied, or the old state comes back, or the fork database runs out of blocks to pop and the chain is stranded.
  \<^item> \<^verbatim>\<open>Schedule\<close>: \<^verbatim>\<open>chain/db_witness_schedule.cpp\<close>, \<^verbatim>\<open>db_update.cpp\<close>. Slots, the shuffle, missed slots, the last irreversible block.
  \<^item> \<^verbatim>\<open>Evaluator\<close>: \<^verbatim>\<open>chain/evaluator.cpp\<close>. Fees. Its locale \<open>fee_paying_evaluator\<close> states once why an operation that moves
    the core fee it was paid into the state leaves the books as they were; every operation below is an interpretation.
  \<^item> \<^verbatim>\<open>Market\<close>, \<^verbatim>\<open>MarketBooks\<close>, \<^verbatim>\<open>MarketEvaluator\<close>: \<^verbatim>\<open>chain/db_market.cpp\<close>, \<^verbatim>\<open>market_evaluator.cpp\<close>. Matching, margin calls,
    black swans, bids; what each step does to the books (\<open>moves\<close>), and that the operations conserve.
  \<^item> \<^verbatim>\<open>Authority\<close>: \<^verbatim>\<open>chain/protocol/transaction.cpp\<close>. The check of signatures against an inductive specification
    of when keys, their addresses and accounts satisfy an authority.
  \<^item> \<^verbatim>\<open>Voting\<close>, \<^verbatim>\<open>Budget\<close>: \<^verbatim>\<open>chain/db_maint.cpp\<close>, \<^verbatim>\<open>worker_evaluator.cpp\<close>. Tally, elections, budget, workers, accumulated fees.
  \<^item> \<^verbatim>\<open>Transfers\<close>, \<^verbatim>\<open>Blinded\<close>: \<^verbatim>\<open>transfer_evaluator.cpp\<close>, \<^verbatim>\<open>vesting_balance_evaluator.cpp\<close>, \<^verbatim>\<open>withdraw_permission_evaluator.cpp\<close>,
    \<^verbatim>\<open>balance_evaluator.cpp\<close>, \<^verbatim>\<open>confidential_evaluator.cpp\<close>. Locales \<open>balanced_operation\<close> and \<open>blinded_operation\<close>. The
    commitments of blinded balances add up to one of the confidential supply, in any group of Pedersen commitments.
  \<^item> \<^verbatim>\<open>AssetEvaluator\<close>, \<^verbatim>\<open>AssetBooks\<close>: \<^verbatim>\<open>asset_evaluator.cpp\<close>, \<^verbatim>\<open>protocol/asset_ops.cpp\<close>. Locale \<open>asset_operation\<close>.
  \<^item> \<^verbatim>\<open>Housekeeping\<close>: \<^verbatim>\<open>chain/db_update.cpp\<close>, \<^verbatim>\<open>db_maint.cpp\<close>. What a block does when its operations are applied: expired orders are
    cancelled, settlements that are due are executed against the least collateralized positions, feeds and permissions
    expire, bids revive an asset. The books are as before, and the loop over settlements ends.
  \<^item> \<^verbatim>\<open>Transactions\<close>: \<^verbatim>\<open>chain/db_block.cpp\<close>. A transaction is checked and applied, waits in the pending session, enters a generated
    block; in the histories of a chain (an inductive relation) none is applied twice while duplicates are checked, and a generated block is
    accepted.

  \<^bold>\<open>How code becomes definitions.\<close> A function that reads or writes the state takes and returns the record \<open>database\<close>; one
  that may throw returns \<open>exn\<close>, and every \<^verbatim>\<open>FC_ASSERT\<close>, \<^verbatim>\<open>assert\<close>, failed lookup and overflow of \<^verbatim>\<open>fc::safe\<close> is a branch of it.
  Where the code would read past the end of a container the model throws too. Unsigned members that wrap have their
  \<open>mod 2 ^ 32\<close> written out, bit fields are words. An ordered view of an index is the list of its objects sorted by the key of
  the view, so that iteration is recursion over that list. Effects that no code reads back (logs, texts, memos, virtual
  operations) are left out, except the list of applied operations where its order matters.

  \<^bold>\<open>Parameters.\<close> Hashes, signatures, commitments, packing, calendar arithmetic and the required fee of an operation are
  parameters; what is asked of them is a named hypothesis (\<open>codec_ok\<close>, \<open>env_ok\<close>, \<open>pedersen\<close>) with an instance in a witness.

  \<^bold>\<open>Fuel.\<close> The three loops of \<open>fetch_branch_from\<close> carry fuel: each turn follows a link to a block of smaller
  number, and numbers have 32 bits, so the fuel of \<open>2 ^ 32\<close> is never used up, which is proved. The loop over the settlements
  carries four turns for each settlement order and two more, also proved to be enough. All other loops are
  structural or have a measure.

  \<^bold>\<open>The central property\<close> is conservation: for every asset, what the chain holds in balances, orders, collateral, vesting, pending
  fees, fee pools, settlement funds, deposits and budgets, minus the supply that the asset claims, is unchanged by every operation.

  \<^bold>\<open>Not modelled.\<close> The network, the wallet, the server interfaces and the plugins are input and output around the chain. Genesis
  and the opening of the database build the state from files. Proposals and the fee schedule
  range over the variant of all operations and need a model of each. Exchange rate updates iterate over an erased iterator. Account, witness and
  committee operations change objects that the development only reads.
\<close>

end
